(* ===== verification/Prelude.thy ===== *)
theory Prelude
  imports Main "HOL-Library.Word" "HOL-Library.Monad_Syntax"
begin

text \<open>
  Shared vocabulary of the development: unsigned 64-bit arithmetic on \<open>nat\<close> with the
  wrap-around written out, the option monad in which a function that may fail to return is
  written, and the generic lemmas the components use.

  An unsigned machine integer is a \<open>nat\<close> below \<open>2 ^ w\<close>; the operations reduce their result
  \<open>mod 2 ^ w\<close> wherever the C operation can wrap.
\<close>

named_theorems u64_simps \<open>unfolding of the wrapping operations when no wrap-around happens\<close>

definition add64 :: "nat \<Rightarrow> nat \<Rightarrow> nat" where
  "add64 a b = (a + b) mod 2 ^ 64"

definition sub64 :: "nat \<Rightarrow> nat \<Rightarrow> nat" where
  "sub64 a b = (a + 2 ^ 64 - b mod 2 ^ 64) mod 2 ^ 64"

definition mul64 :: "nat \<Rightarrow> nat \<Rightarrow> nat" where
  "mul64 a b = (a * b) mod 2 ^ 64"

lemma add64_exact [u64_simps]: "a + b < 2 ^ 64 \<Longrightarrow> add64 a b = a + b"
  by (simp add: add64_def)

lemma sub64_exact [u64_simps]: "b \<le> a \<Longrightarrow> a < 2 ^ 64 \<Longrightarrow> sub64 a b = a - b"
proof -
  assume "b \<le> a" "a < 2 ^ 64"
  then have "a + 2 ^ 64 - b mod 2 ^ 64 = (a - b) + 2 ^ 64" by simp
  with \<open>a < 2 ^ 64\<close> show ?thesis by (simp add: sub64_def)
qed

lemma mul64_exact [u64_simps]: "a * b < 2 ^ 64 \<Longrightarrow> mul64 a b = a * b"
  by (simp add: mul64_def)

lemma add64_sub64: "a < 2 ^ 64 \<Longrightarrow> b < 2 ^ 64 \<Longrightarrow> add64 b (sub64 a b) = a"
proof -
  assume "a < 2 ^ 64" "b < 2 ^ 64"
  then have "(b + (a + 2 ^ 64 - b)) mod 2 ^ 64 = a" by simp
  with \<open>b < 2 ^ 64\<close> show ?thesis by (simp add: add64_def sub64_def mod_add_right_eq)
qed

lemma bind_eq_Some_conv: "(Option.bind x f = Some y) = (\<exists>a. x = Some a \<and> f a = Some y)"
  by (cases x) auto

text \<open>Half-open intervals of unit numbers.\<close>

definition seg :: "nat \<Rightarrow> nat \<Rightarrow> nat set" where
  "seg k n = {k..<k + n}"

lemma in_seg [simp]: "x \<in> seg k n \<longleftrightarrow> k \<le> x \<and> x < k + n"
  by (simp add: seg_def)

lemma finite_seg [simp]: "finite (seg k n)"
  by (simp add: seg_def)

lemma seg_append: "seg k (m + n) = seg k m \<union> seg (k + m) n"
  by auto

lemma seg_disjoint_iff:
  "0 < m \<Longrightarrow> 0 < n \<Longrightarrow> seg j m \<inter> seg k n = {} \<longleftrightarrow> j + m \<le> k \<or> k + n \<le> j"
proof
  assume "0 < m" "0 < n" "seg j m \<inter> seg k n = {}"
  then have "max j k \<notin> seg j m \<inter> seg k n" by simp
  with \<open>0 < m\<close> \<open>0 < n\<close> show "j + m \<le> k \<or> k + n \<le> j" by (auto simp: max_def split: if_splits)
qed auto

end
