(* ===== verification/RbTree.thy ===== *)
theory RbTree
  imports Prelude
begin

text \<open>
  The red-black tree of \<^verbatim>\<open>disk/common/ngx_rbtree.c\<close> and \<^verbatim>\<open>ngx_rbtree.h\<close>.

  A tree is a \<open>datatype\<close>; the sentinel node is \<open>Leaf\<close>. The C nodes carry parent pointers and
  the C loops climb through them, so a pointer to a node is modelled as the subtree below it
  together with the path of parents above it (nearest parent first). A step of the path says
  on which side of its parent the pointer hangs, and holds the parent's colour, the parent's
  own identity and the sibling subtree. Following a pointer of \<open>NULL\<close> or the uninitialised
  child pointers of the sentinel is the value \<open>None\<close>, so "the operation returns" is a
  statement to be proved.
\<close>

section \<open>Data\<close>

datatype color = Red | Black

datatype 'a rbt = Leaf | Node color "'a rbt" 'a "'a rbt"

datatype 'a step =
    LeftOf color 'a "'a rbt"   \<comment> \<open>the pointer is the left child; colour, parent, right sibling\<close>
  | RightOf color 'a "'a rbt"  \<comment> \<open>the pointer is the right child; colour, parent, left sibling\<close>

type_synonym 'a path = "'a step list"

fun ngx_rbt_is_red :: "'a rbt \<Rightarrow> bool" where
  "ngx_rbt_is_red Leaf = False"
| "ngx_rbt_is_red (Node c _ _ _) = (c = Red)"

fun paint :: "color \<Rightarrow> 'a rbt \<Rightarrow> 'a rbt" where
  "paint c Leaf = Leaf"
| "paint c (Node _ l x r) = Node c l x r"

abbreviation ngx_rbt_black :: "'a rbt \<Rightarrow> 'a rbt" where
  "ngx_rbt_black \<equiv> paint Black"

abbreviation ngx_rbt_red :: "'a rbt \<Rightarrow> 'a rbt" where
  "ngx_rbt_red \<equiv> paint Red"

text \<open>One level up: the parent subtree a step describes, around a child.\<close>

fun up :: "'a rbt \<Rightarrow> 'a step \<Rightarrow> 'a rbt" where
  "up t (LeftOf c x r) = Node c t x r"
| "up t (RightOf c x l) = Node c l x t"

fun step_color :: "'a step \<Rightarrow> color" where
  "step_color (LeftOf c _ _) = c"
| "step_color (RightOf c _ _) = c"

fun plug :: "'a rbt \<Rightarrow> 'a path \<Rightarrow> 'a rbt" where
  "plug t [] = t"
| "plug t (s # p) = plug (up t s) p"

text \<open>The pointer to a node, found in the tree by the node's identity.\<close>

fun locate :: "'a \<Rightarrow> 'a rbt \<Rightarrow> 'a path \<Rightarrow> ('a rbt \<times> 'a path) option" where
  "locate k Leaf p = None"
| "locate k (Node c l x r) p =
     (if k = x then Some (Node c l x r, p)
      else case locate k l (LeftOf c x r # p) of
             Some z \<Rightarrow> Some z
           | None \<Rightarrow> locate k r (RightOf c x l # p))"

section \<open>Operations\<close>

fun ngx_rbtree_left_rotate :: "'a rbt \<Rightarrow> 'a rbt option" where
  "ngx_rbtree_left_rotate (Node c l x (Node d rl y rr)) = Some (Node d (Node c l x rl) y rr)"
| "ngx_rbtree_left_rotate _ = None"

fun ngx_rbtree_right_rotate :: "'a rbt \<Rightarrow> 'a rbt option" where
  "ngx_rbtree_right_rotate (Node c (Node d ll y lr) x r) = Some (Node d ll y (Node c lr x r))"
| "ngx_rbtree_right_rotate _ = None"

text \<open>
  The re-balancing loop of \<open>ngx_rbtree_insert\<close>. \<open>t\<close> is \<open>node\<close>, the path starts with its
  parent. After the rotations the parent of \<open>node\<close> is black, so the loop condition fails and
  the root is painted black.
\<close>

fun insert_fixup :: "'a rbt \<Rightarrow> 'a path \<Rightarrow> 'a rbt option" where
  "insert_fixup t [] = Some (ngx_rbt_black t)"
| "insert_fixup t (s # p) =
     (if step_color s = Black then Some (ngx_rbt_black (plug t (s # p)))
      else case p of
        [] \<Rightarrow> None
      | LeftOf gc gx temp # p' \<Rightarrow>
          if ngx_rbt_is_red temp
          then insert_fixup (Node Red (ngx_rbt_black (up t s)) gx (ngx_rbt_black temp)) p'
          else do {
            par \<leftarrow> (case s of RightOf _ _ _ \<Rightarrow> ngx_rbtree_left_rotate (up t s)
                    | LeftOf _ _ _ \<Rightarrow> Some (up t s));
            g \<leftarrow> ngx_rbtree_right_rotate (Node Red (ngx_rbt_black par) gx temp);
            Some (ngx_rbt_black (plug g p')) }
      | RightOf gc gx temp # p' \<Rightarrow>
          if ngx_rbt_is_red temp
          then insert_fixup (Node Red (ngx_rbt_black temp) gx (ngx_rbt_black (up t s))) p'
          else do {
            par \<leftarrow> (case s of LeftOf _ _ _ \<Rightarrow> ngx_rbtree_right_rotate (up t s)
                    | RightOf _ _ _ \<Rightarrow> Some (up t s));
            g \<leftarrow> ngx_rbtree_left_rotate (Node Red temp gx (ngx_rbt_black par));
            Some (ngx_rbt_black (plug g p')) })"

text \<open>
  \<open>ngx_rbtree_insert\<close>. The tree lives in a larger state \<open>'s\<close> that the tree's \<open>insert\<close>
  callback may change (\<open>get\<close> and \<open>put\<close> reach the tree in it). The callback is called with
  the current root, \<open>Leaf\<close> standing for its \<open>NULL\<close> argument; a return value other than 0 is
  \<open>Stopped\<close>, and 0 says that it linked the node, coloured red, below a path.
\<close>

datatype 'a linked = Stopped | Linked "'a path"

definition ngx_rbtree_insert ::
  "('s \<Rightarrow> 'a rbt) \<Rightarrow> ('a rbt \<Rightarrow> 's \<Rightarrow> 's) \<Rightarrow> ('a rbt \<Rightarrow> 'a \<Rightarrow> 's \<Rightarrow> ('a linked \<times> 's) option)
   \<Rightarrow> 'a \<Rightarrow> 's \<Rightarrow> 's option" where
  "ngx_rbtree_insert get put insert_cb node s =
     (if get s = Leaf
      then map_option snd (insert_cb Leaf node (put (Node Black Leaf node Leaf) s))
      else do {
        (l, s') \<leftarrow> insert_cb (get s) node s;
        (case l of
           Stopped \<Rightarrow> Some s'
         | Linked p \<Rightarrow> do {
             root \<leftarrow> insert_fixup (Node Red Leaf node Leaf) p;
             Some (put root s') }) })"

fun ngx_rbtree_min :: "'a rbt \<Rightarrow> 'a path \<Rightarrow> ('a rbt \<times> 'a path) option" where
  "ngx_rbtree_min Leaf p = None"
| "ngx_rbtree_min (Node c l x r) p =
     (if l = Leaf then Some (Node c l x r, p) else ngx_rbtree_min l (LeftOf c x r # p))"

text \<open>
  The part of the delete fixup after a red sibling has been rotated away: \<open>t\<close> is \<open>temp\<close>, the
  left child of the parent \<open>(pc, px)\<close> with sibling \<open>w\<close>. Either the loop goes on one level up
  (\<open>Inl\<close>), or the last rotation is done and \<open>temp\<close> becomes the root (\<open>Inr\<close>).
\<close>

fun delete_last_left :: "'a rbt \<Rightarrow> color \<Rightarrow> 'a \<Rightarrow> 'a rbt \<Rightarrow> 'a path \<Rightarrow> 'a rbt option" where
  "delete_last_left t pc px Leaf p = None"
| "delete_last_left t pc px (Node _ wl wx wr) p = do {
     sub \<leftarrow> ngx_rbtree_left_rotate (Node Black t px (Node pc wl wx (ngx_rbt_black wr)));
     Some (ngx_rbt_black (plug sub p)) }"

fun delete_fix_left ::
  "'a rbt \<Rightarrow> color \<Rightarrow> 'a \<Rightarrow> 'a rbt \<Rightarrow> 'a path \<Rightarrow> ('a rbt \<times> 'a path + 'a rbt) option" where
  "delete_fix_left t pc px Leaf p = None"
| "delete_fix_left t pc px (Node wc wl wx wr) p =
     (if \<not> ngx_rbt_is_red wl \<and> \<not> ngx_rbt_is_red wr
      then Some (Inl (Node pc t px (Node Red wl wx wr), p))
      else do {
        w \<leftarrow> (if \<not> ngx_rbt_is_red wr
              then ngx_rbtree_right_rotate (Node Red (ngx_rbt_black wl) wx wr)
              else Some (Node wc wl wx wr));
        map_option Inr (delete_last_left t pc px w p) })"

fun delete_last_right :: "'a rbt \<Rightarrow> color \<Rightarrow> 'a \<Rightarrow> 'a rbt \<Rightarrow> 'a path \<Rightarrow> 'a rbt option" where
  "delete_last_right t pc px Leaf p = None"
| "delete_last_right t pc px (Node _ wl wx wr) p = do {
     sub \<leftarrow> ngx_rbtree_right_rotate (Node Black (Node pc (ngx_rbt_black wl) wx wr) px t);
     Some (ngx_rbt_black (plug sub p)) }"

fun delete_fix_right ::
  "'a rbt \<Rightarrow> color \<Rightarrow> 'a \<Rightarrow> 'a rbt \<Rightarrow> 'a path \<Rightarrow> ('a rbt \<times> 'a path + 'a rbt) option" where
  "delete_fix_right t pc px Leaf p = None"
| "delete_fix_right t pc px (Node wc wl wx wr) p =
     (if \<not> ngx_rbt_is_red wl \<and> \<not> ngx_rbt_is_red wr
      then Some (Inl (Node pc (Node Red wl wx wr) px t, p))
      else do {
        w \<leftarrow> (if \<not> ngx_rbt_is_red wl
              then ngx_rbtree_left_rotate (Node Red wl wx (ngx_rbt_black wr))
              else Some (Node wc wl wx wr));
        map_option Inr (delete_last_right t pc px w p) })"

text \<open>
  One round of the loop body: a red sibling is recoloured and rotated above the parent first,
  which makes the parent red and puts one more step on the path.
\<close>

fun delete_round :: "'a rbt \<Rightarrow> 'a step \<Rightarrow> 'a path \<Rightarrow> ('a rbt \<times> 'a path + 'a rbt) option" where
  "delete_round t (LeftOf pc px w) p =
     (case w of
        Node Red wl wx wr \<Rightarrow> delete_fix_left t Red px wl (LeftOf Black wx wr # p)
      | _ \<Rightarrow> delete_fix_left t pc px w p)"
| "delete_round t (RightOf pc px w) p =
     (case w of
        Node Red wl wx wr \<Rightarrow> delete_fix_right t Red px wr (RightOf Black wx wl # p)
      | _ \<Rightarrow> delete_fix_right t pc px w p)"

lemma delete_fix_left_Inl:
  "delete_fix_left t pc px w p = Some (Inl (t', p')) \<Longrightarrow> p' = p \<and> (ngx_rbt_is_red t' \<longleftrightarrow> pc = Red)"
  by (cases w) (auto simp: bind_eq_Some_conv split: if_splits)

lemma delete_fix_right_Inl:
  "delete_fix_right t pc px w p = Some (Inl (t', p')) \<Longrightarrow> p' = p \<and> (ngx_rbt_is_red t' \<longleftrightarrow> pc = Red)"
  by (cases w) (auto simp: bind_eq_Some_conv split: if_splits)

lemma delete_round_smaller:
  assumes "delete_round t s p = Some (Inl (t', p'))"
  shows "length p' < Suc (length p) \<or> length p' = Suc (length p) \<and> ngx_rbt_is_red t'"
  using assms
  by (cases s)
    (auto simp del: delete_fix_left.simps delete_fix_right.simps
      split: rbt.split_asm color.split_asm dest: delete_fix_left_Inl delete_fix_right_Inl)

function delete_fixup :: "'a rbt \<Rightarrow> 'a path \<Rightarrow> 'a rbt option" where
  "delete_fixup t [] = Some (ngx_rbt_black t)"
| "delete_fixup t (s # p) =
     (if ngx_rbt_is_red t then Some (plug (ngx_rbt_black t) (s # p))
      else case delete_round t s p of
             None \<Rightarrow> None
           | Some (Inr root) \<Rightarrow> Some root
           | Some (Inl (t', p')) \<Rightarrow> delete_fixup t' p')"
  by pat_completeness auto
termination
  by (relation "measure (\<lambda>(t, p). 2 * length p + (if ngx_rbt_is_red t then 0 else 1))")
    (auto dest!: delete_round_smaller)

text \<open>
  Unlinking \<open>subst\<close>: its only child \<open>temp\<close> takes its place. A removed red node, or a removed
  root, needs no fixup.
\<close>

definition unlink :: "'a rbt \<Rightarrow> color \<Rightarrow> 'a path \<Rightarrow> 'a rbt option" where
  "unlink temp c p =
     (if p = [] then Some (ngx_rbt_black temp)
      else if c = Red then Some (plug temp p)
      else delete_fixup temp p)"

fun delete_at :: "'a rbt \<Rightarrow> 'a path \<Rightarrow> 'a rbt option" where
  "delete_at Leaf p = None"
| "delete_at (Node c l x r) p =
     (if l = Leaf then unlink r c p
      else if r = Leaf then unlink l c p
      else case ngx_rbtree_min r [] of
             Some (Node sc _ y temp, q) \<Rightarrow> unlink temp sc (q @ RightOf c y l # p)
           | _ \<Rightarrow> None)"

definition ngx_rbtree_delete :: "'a rbt \<Rightarrow> 'a \<Rightarrow> 'a rbt option" where
  "ngx_rbtree_delete root node =
     (case locate node root [] of None \<Rightarrow> None | Some (t, p) \<Rightarrow> delete_at t p)"

text \<open>\<open>ngx_rbtree_next\<close>: \<open>None\<close> for a pointer outside the tree, \<open>Some None\<close> for \<open>NULL\<close>.\<close>

fun climb_next :: "'a path \<Rightarrow> 'a option" where
  "climb_next [] = None"
| "climb_next (LeftOf _ x _ # p) = Some x"
| "climb_next (RightOf _ _ _ # p) = climb_next p"

definition ngx_rbtree_next :: "'a rbt \<Rightarrow> 'a \<Rightarrow> 'a option option" where
  "ngx_rbtree_next root node =
     (case locate node root [] of
        Some (Node c l x r, p) \<Rightarrow>
          (if r \<noteq> Leaf
           then (case ngx_rbtree_min r [] of
                   Some (Node _ _ y _, _) \<Rightarrow> Some (Some y) | _ \<Rightarrow> None)
           else Some (climb_next p))
      | _ \<Rightarrow> None)"

text \<open>\<open>ngx_rbtree_replace\<close>: \<open>target\<close> takes over the links and the colour of \<open>source\<close>.\<close>

fun ngx_rbtree_replace :: "'a rbt \<Rightarrow> 'a \<Rightarrow> 'a \<Rightarrow> 'a rbt" where
  "ngx_rbtree_replace Leaf target source = Leaf"
| "ngx_rbtree_replace (Node c l x r) target source =
     Node c (ngx_rbtree_replace l target source) (if x = source then target else x)
       (ngx_rbtree_replace r target source)"

section \<open>In-order content\<close>

fun inorder :: "'a rbt \<Rightarrow> 'a list" where
  "inorder Leaf = []"
| "inorder (Node _ l x r) = inorder l @ x # inorder r"

text \<open>What a path holds before and after its hole.\<close>

fun before :: "'a path \<Rightarrow> 'a list" where
  "before [] = []"
| "before (LeftOf _ _ _ # p) = before p"
| "before (RightOf _ x l # p) = before p @ inorder l @ [x]"

fun after :: "'a path \<Rightarrow> 'a list" where
  "after [] = []"
| "after (LeftOf _ x r # p) = x # inorder r @ after p"
| "after (RightOf _ _ _ # p) = after p"

lemma inorder_paint [simp]: "inorder (paint c t) = inorder t"
  by (cases t) auto

lemma inorder_plug [simp]: "inorder (plug t p) = before p @ inorder t @ after p"
proof (induction p arbitrary: t)
  case (Cons s p)
  then show ?case by (cases s) auto
qed simp

lemma before_append [simp]: "before (p @ q) = before q @ before p"
  by (induction p rule: before.induct) auto

lemma after_append [simp]: "after (p @ q) = after p @ after q"
  by (induction p rule: after.induct) auto

lemma left_rotate_inorder:
  "ngx_rbtree_left_rotate t = Some t' \<Longrightarrow> inorder t' = inorder t"
  by (cases t rule: ngx_rbtree_left_rotate.cases) auto

lemma right_rotate_inorder:
  "ngx_rbtree_right_rotate t = Some t' \<Longrightarrow> inorder t' = inorder t"
  by (cases t rule: ngx_rbtree_right_rotate.cases) auto

lemma up_inorder: "inorder (up t s) = before [s] @ inorder t @ after [s]"
  by (cases s) auto

lemmas rotate_inorder = left_rotate_inorder right_rotate_inorder

lemma insert_fixup_inorder:
  "insert_fixup t p = Some u \<Longrightarrow> inorder u = before p @ inorder t @ after p"
proof (induction t p rule: insert_fixup.induct)
  case (1 t)
  then have "u = paint Black t" by simp
  then show ?case by simp
next
  case (2 t s p)
  then show ?case
    by (cases s)
      (auto simp: bind_eq_Some_conv split: if_splits list.splits step.splits dest!: rotate_inorder)
qed

lemma delete_last_inorder:
  "delete_last_left t pc px w p = Some u \<Longrightarrow>
     inorder u = before p @ inorder t @ px # inorder w @ after p"
  "delete_last_right t pc px w p = Some u \<Longrightarrow>
     inorder u = before p @ inorder w @ px # inorder t @ after p"
  by (cases w; auto simp: bind_eq_Some_conv dest!: rotate_inorder)+

fun fix_inorder :: "'a rbt \<times> 'a path + 'a rbt \<Rightarrow> 'a list" where
  "fix_inorder (Inl (t, p)) = inorder (plug t p)"
| "fix_inorder (Inr t) = inorder t"

lemma delete_fix_inorder:
  "delete_fix_left t pc px w p = Some z \<Longrightarrow>
     fix_inorder z = before p @ inorder t @ px # inorder w @ after p"
  "delete_fix_right t pc px w p = Some z \<Longrightarrow>
     fix_inorder z = before p @ inorder w @ px # inorder t @ after p"
  by (cases w; auto simp: bind_eq_Some_conv split: if_splits
      dest!: rotate_inorder delete_last_inorder)+

lemma delete_round_inorder:
  "delete_round t s p = Some z \<Longrightarrow> fix_inorder z = inorder (plug t (s # p))"
  by (cases s)
    (auto simp del: delete_fix_left.simps delete_fix_right.simps
      split: rbt.split_asm color.split_asm dest!: delete_fix_inorder)

lemma delete_fixup_inorder:
  "delete_fixup t p = Some u \<Longrightarrow> inorder u = inorder (plug t p)"
proof (induction t p rule: delete_fixup.induct)
  case (1 t)
  then have "u = paint Black t" by simp
  then show ?case by simp
next
  case (2 t s p)
  then show ?case
    by (auto split: if_splits option.splits sum.splits dest!: delete_round_inorder
        simp del: delete_round.simps plug.simps)
qed

lemma unlink_inorder: "unlink t c p = Some u \<Longrightarrow> inorder u = inorder (plug t p)"
  by (auto simp: unlink_def split: if_splits dest: delete_fixup_inorder)

lemma min_inorder:
  "ngx_rbtree_min t p = Some (u, q) \<Longrightarrow>
     \<exists>c y r p'. u = Node c Leaf y r \<and> q = p' @ p \<and> inorder t = y # inorder r @ after p' \<and> before p' = []"
proof (induction t p rule: ngx_rbtree_min.induct)
  case (2 c l x r p)
  show ?case
  proof (cases "l = Leaf")
    case True
    with 2 show ?thesis by auto
  next
    case False
    with 2 obtain d y r' p' where "u = Node d Leaf y r'" "q = p' @ LeftOf c x r # p"
      "inorder l = y # inorder r' @ after p'" "before p' = []"
      by fastforce
    then show ?thesis by (intro exI [of _ d] exI [of _ y] exI [of _ r'] exI [of _ "p' @ [LeftOf c x r]"]) simp
  qed
qed simp

lemma min_total: "t \<noteq> Leaf \<Longrightarrow> \<exists>u q. ngx_rbtree_min t p = Some (u, q)"
  by (induction t p rule: ngx_rbtree_min.induct) auto

lemma delete_at_inorder:
  "delete_at (Node c l x r) p = Some u \<Longrightarrow> inorder u = before p @ inorder l @ inorder r @ after p"
  by (auto split: if_splits option.splits rbt.splits dest!: unlink_inorder min_inorder)

lemma locate_Some:
  "locate k t p = Some (u, q) \<Longrightarrow>
     (\<exists>c l r. u = Node c l k r) \<and> plug u q = plug t p"
proof (induction t arbitrary: p)
  case (Node c l x r)
  then show ?case by (auto split: if_splits option.splits)
qed simp

lemma locate_None: "locate k t p = None \<longleftrightarrow> k \<notin> set (inorder t)"
  by (induction k t p rule: locate.induct) (auto split: option.splits)

lemma locate_root:
  assumes "k \<in> set (inorder t)"
  obtains c l r p where "locate k t [] = Some (Node c l k r, p)" "t = plug (Node c l k r) p"
proof -
  from assms obtain u p where *: "locate k t [] = Some (u, p)"
    using locate_None [of k t "[]"] by (cases "locate k t []") auto
  from locate_Some [OF this] obtain c l r where "u = Node c l k r" "plug u p = t" by auto
  with * that show ?thesis by blast
qed

lemma replace_inorder [simp]:
  "inorder (ngx_rbtree_replace t y z) = map (\<lambda>x. if x = z then y else x) (inorder t)"
  by (induction t) auto

section \<open>Colours and black height\<close>

text \<open>
  \<open>rbtree n t\<close>: no red node has a red child and every way down passes \<open>n\<close> black nodes.
  \<open>rbpath n c p\<close>: filling the hole of \<open>p\<close> with such a tree of root colour \<open>c\<close> gives one with a
  black root.
\<close>

fun rbtree :: "nat \<Rightarrow> 'a rbt \<Rightarrow> bool" where
  "rbtree n Leaf = (n = 0)"
| "rbtree n (Node Red l x r) =
     (rbtree n l \<and> rbtree n r \<and> \<not> ngx_rbt_is_red l \<and> \<not> ngx_rbt_is_red r)"
| "rbtree n (Node Black l x r) = (0 < n \<and> rbtree (n - 1) l \<and> rbtree (n - 1) r)"

fun step_sibling :: "'a step \<Rightarrow> 'a rbt" where
  "step_sibling (LeftOf _ _ t) = t"
| "step_sibling (RightOf _ _ t) = t"

fun rbpath :: "nat \<Rightarrow> color \<Rightarrow> 'a path \<Rightarrow> bool" where
  "rbpath n c [] = (c = Black)"
| "rbpath n c (s # p) =
     (rbtree n (step_sibling s) \<and>
      (if step_color s = Red
       then c = Black \<and> \<not> ngx_rbt_is_red (step_sibling s) \<and> rbpath n Red p
       else rbpath (Suc n) Black p))"

definition rb :: "'a rbt \<Rightarrow> bool" where
  "rb t \<longleftrightarrow> \<not> ngx_rbt_is_red t \<and> (\<exists>n. rbtree n t)"

fun root_color :: "'a rbt \<Rightarrow> color" where
  "root_color Leaf = Black"
| "root_color (Node c _ _ _) = c"

lemma root_color_red [simp]: "ngx_rbt_is_red t \<Longrightarrow> root_color t = Red"
  by (cases t) auto

lemma root_color_black [simp]: "\<not> ngx_rbt_is_red t \<Longrightarrow> root_color t = Black"
  by (cases t) (auto intro: color.exhaust)

lemma not_Red [simp]: "c \<noteq> Red \<longleftrightarrow> c = Black"
  by (cases c) auto

lemma is_red_black [simp]: "\<not> ngx_rbt_is_red (paint Black t)"
  by (cases t) auto

lemma rbpath_weaken: "rbpath n c p \<Longrightarrow> rbpath n Black p"
  by (cases p) (auto split: if_splits)

lemma rbtree_paint_Black:
  "rbtree n t \<Longrightarrow> rbtree (if ngx_rbt_is_red t then Suc n else n) (paint Black t)"
  by (induction n t rule: rbtree.induct) auto

lemma plug_rb: "rbtree n t \<Longrightarrow> rbpath n (root_color t) p \<Longrightarrow> rb (plug t p)"
proof (induction p arbitrary: t n)
  case Nil
  then show ?case by (auto simp: rb_def)
next
  case (Cons s p)
  show ?case
  proof (cases "step_color s")
    case Red
    with Cons.prems have "rbtree n (up t s)" "root_color (up t s) = Red"
      by (cases s; auto)+
    with Cons Red show ?thesis by (metis plug.simps(2) rbpath.simps(2))
  next
    case Black
    with Cons.prems have "rbtree (Suc n) (up t s)" "root_color (up t s) = Black"
      by (cases s; auto)+
    with Cons Black show ?thesis by (metis color.distinct(1) plug.simps(2) rbpath.simps(2))
  qed
qed

lemma plug_rbD: "rb (plug t p) \<Longrightarrow> \<exists>n. rbtree n t \<and> rbpath n (root_color t) p"
proof (induction p arbitrary: t)
  case Nil
  then show ?case by (auto simp: rb_def)
next
  case (Cons s p)
  then obtain n where n: "rbtree n (up t s)" "rbpath n (root_color (up t s)) p" by auto
  show ?case
  proof (cases "step_color s")
    case Red
    with n show ?thesis by (cases s) (auto intro!: exI [of _ n])
  next
    case Black
    with n show ?thesis by (cases s; cases n) (auto intro!: exI [of _ "n - 1"])
  qed
qed

lemma rb_paint: "rb t \<Longrightarrow> rb (paint Black t)"
  by (cases t) (auto simp: rb_def)

lemma rb_Leaf [simp]: "rb Leaf"
  by (auto simp: rb_def)

lemma rb_singleton [simp]: "rb (Node Black Leaf x Leaf)"
  by (auto simp: rb_def)

lemma rbpath_Red_step:
  assumes "rbpath n Black (s # p)" "step_color s = Red"
  obtains g p' where "p = g # p'" "step_color g = Black" "rbtree n (step_sibling g)"
    "rbpath (Suc n) Black p'" "rbtree n (step_sibling s)" "\<not> ngx_rbt_is_red (step_sibling s)"
  using assms by (cases p) (auto split: if_splits)

lemma insert_fixup_rb:
  assumes "rbtree n t" "ngx_rbt_is_red t" "rbpath n Black p"
  shows "\<exists>u. insert_fixup t p = Some u \<and> rb u"
  using assms
proof (induction t p arbitrary: n rule: insert_fixup.induct)
  case (1 t)
  then show ?case using rbtree_paint_Black [of n t] by (auto simp: rb_def)
next
  case (2 t s p)
  obtain tl tx tr where t: "t = Node Red tl tx tr" using "2.prems"(2) by (cases t) auto
  show ?case
  proof (cases "step_color s")
    case Black
    then have "rb (plug t (s # p))" using "2.prems" by (intro plug_rb [of n]) auto
    with Black show ?thesis by (simp del: plug.simps add: rb_paint)
  next
    case Red
    from rbpath_Red_step [OF "2.prems"(3) Red] obtain g p' where
      p: "p = g # p'" "step_color g = Black" and g: "rbtree n (step_sibling g)"
      and p': "rbpath (Suc n) Black p'"
      and sib: "rbtree n (step_sibling s)" "\<not> ngx_rbt_is_red (step_sibling s)" .
    have par: "rbtree (Suc n) (paint Black (up t s))"
      using sib "2.prems" by (cases s) auto
    show ?thesis
    proof (cases "ngx_rbt_is_red (step_sibling g)")
      case True
      then have "rbtree (Suc n) (paint Black (step_sibling g))"
        using rbtree_paint_Black [OF g] by simp
      with 2 Red p p' par True show ?thesis by (cases g) auto
    next
      case False
      have "rb (paint Black (plug u p'))" if "rbtree (Suc n) u" "root_color u = Black" for u
        using that p' by (intro rb_paint plug_rb [of "Suc n"]) auto
      with False Red p g sib "2.prems"(1) t show ?thesis by (cases g; cases s) auto
    qed
  qed
qed

text \<open>
  During a delete, the subtree at the pointer is one black node short; a red root makes up for
  it when it is painted black.
\<close>

definition deficient :: "nat \<Rightarrow> 'a rbt \<Rightarrow> bool" where
  "deficient n t \<longleftrightarrow> (if ngx_rbt_is_red t then rbtree (Suc n) (paint Black t) else rbtree n t)"

fun fix_ok :: "'a rbt \<times> 'a path + 'a rbt \<Rightarrow> bool" where
  "fix_ok (Inl (t, p)) = (\<exists>n. deficient n t \<and> rbpath (Suc n) Black p)"
| "fix_ok (Inr t) = rb t"

lemma rbtree_deficient: "rbtree n t \<Longrightarrow> deficient n t"
  using rbtree_paint_Black [of n t] by (auto simp: deficient_def)

lemma black_Suc:
  "rbtree (Suc n) w \<Longrightarrow> \<not> ngx_rbt_is_red w \<Longrightarrow> \<exists>l x r. w = Node Black l x r \<and> rbtree n l \<and> rbtree n r"
  by (cases w) (auto intro: color.exhaust)

lemma color_cases:
  obtains "t = Leaf" | l x r where "t = Node Red l x r" | l x r where "t = Node Black l x r"
  by (cases t) (auto intro: color.exhaust)

lemma delete_fix_ok:
  assumes t: "rbtree n t" "\<not> ngx_rbt_is_red t" and w: "rbtree (Suc n) w" "\<not> ngx_rbt_is_red w"
    and p: "rbpath (if pc = Red then Suc n else Suc (Suc n)) pc p"
  shows "\<exists>z. delete_fix_left t pc px w p = Some z \<and> fix_ok z"
    and "\<exists>z. delete_fix_right t pc px w p = Some z \<and> fix_ok z"
proof -
  from black_Suc [OF w] obtain wl wx wr where
    w': "w = Node Black wl wx wr" "rbtree n wl" "rbtree n wr" by blast
  have fin: "rb (paint Black (plug u p))"
    if "rbtree (if pc = Red then Suc n else Suc (Suc n)) u" "root_color u = pc" for u
    using that p by (intro rb_paint plug_rb) auto
  have again: "fix_ok (Inl (u, p))"
    if "ngx_rbt_is_red u \<longleftrightarrow> pc = Red" "rbtree (Suc n) (paint Black u)" for u
  proof (cases "pc = Red")
    case True
    with that p show ?thesis by (auto simp: deficient_def intro!: exI [of _ n] dest: rbpath_weaken)
  next
    case False
    then have "paint Black u = u" using that by (cases u) auto
    with False that p show ?thesis by (auto simp: deficient_def intro!: exI [of _ "Suc n"])
  qed
  have sub: "rbtree (if pc = Red then Suc n else Suc (Suc n)) (Node pc a x b)"
    if "rbtree (Suc n) a" "rbtree (Suc n) b" "\<not> ngx_rbt_is_red a" "\<not> ngx_rbt_is_red b" for a b x
    using that by (cases pc) auto
  have red: "rbtree (Suc n) (paint Black v)" if "ngx_rbt_is_red v" "rbtree n v" for v
    using rbtree_paint_Black [OF that(2)] that(1) by simp
  show "\<exists>z. delete_fix_left t pc px w p = Some z \<and> fix_ok z"
  proof (cases "ngx_rbt_is_red wr")
    case True
    with t w' show ?thesis by (auto intro!: fin sub red)
  next
    case False
    with t w' show ?thesis
      by (cases wl rule: color_cases) (auto intro!: fin sub again simp del: fix_ok.simps(1))
  qed
  show "\<exists>z. delete_fix_right t pc px w p = Some z \<and> fix_ok z"
  proof (cases "ngx_rbt_is_red wl")
    case True
    with t w' show ?thesis by (auto intro!: fin sub red)
  next
    case False
    with t w' show ?thesis
      by (cases wr rule: color_cases) (auto intro!: fin sub again simp del: fix_ok.simps(1))
  qed
qed

lemma delete_round_ok:
  assumes "rbtree n t" "\<not> ngx_rbt_is_red t" "rbpath (Suc n) Black (s # p)"
  shows "\<exists>z. delete_round t s p = Some z \<and> fix_ok z"
proof (cases "ngx_rbt_is_red (step_sibling s)")
  case False
  with assms show ?thesis
    by (cases s; cases "step_sibling s" rule: color_cases)
      (auto simp del: delete_fix_left.simps delete_fix_right.simps intro!: delete_fix_ok
        split: if_splits)
next
  case True
  with assms have p: "step_color s = Black" "rbpath (Suc (Suc n)) Black p" by (auto split: if_splits)
  from True obtain l x r where w: "step_sibling s = Node Red l x r"
    by (cases "step_sibling s" rule: color_cases) auto
  with assms have "rbtree (Suc n) l" "\<not> ngx_rbt_is_red l" "rbtree (Suc n) r" "\<not> ngx_rbt_is_red r"
    by auto
  with p w assms(1,2) show ?thesis
    by (cases s) (auto simp del: delete_fix_left.simps delete_fix_right.simps intro!: delete_fix_ok)
qed

lemma delete_fixup_rb:
  assumes "deficient n t" "rbpath (Suc n) Black p"
  shows "\<exists>u. delete_fixup t p = Some u \<and> rb u"
  using assms
proof (induction t p arbitrary: n rule: delete_fixup.induct)
  case (1 t)
  then show ?case by (cases t) (auto simp: deficient_def rb_def split: if_splits)
next
  case (2 t s p)
  show ?case
  proof (cases "ngx_rbt_is_red t")
    case True
    with "2.prems" have "rb (plug (paint Black t) (s # p))"
      by (intro plug_rb [of "Suc n"]) (auto simp: deficient_def)
    with True show ?thesis by simp
  next
    case False
    with "2.prems" obtain z where z: "delete_round t s p = Some z" "fix_ok z"
      using delete_round_ok [of n t s p] by (auto simp: deficient_def)
    show ?thesis
    proof (cases z)
      case (Inl tp)
      with z "2.IH" [OF False z(1)] False show ?thesis by (cases tp) (auto simp del: delete_round.simps)
    next
      case (Inr u)
      with z False show ?thesis by (auto simp del: delete_round.simps)
    qed
  qed
qed

lemma rbtree_0: "rbtree 0 t \<Longrightarrow> \<not> ngx_rbt_is_red t \<Longrightarrow> t = Leaf"
  by (cases t rule: color_cases) auto

lemma unlink_rb:
  assumes "rbtree n (Node c l x r)" "rbpath n c p" "l = Leaf \<and> t = r \<or> r = Leaf \<and> t = l"
  shows "\<exists>u. unlink t c p = Some u \<and> rb u"
proof (cases c)
  case Red
  with assms have "p \<noteq> []" "t = Leaf" "rb (plug t p)"
    by (auto intro!: plug_rb dest: rbpath_weaken rbtree_0)
  with Red show ?thesis by (auto simp: unlink_def)
next
  case Black
  with assms obtain m where m: "n = Suc m" "rbtree m t" "rbpath (Suc m) Black p"
    by (cases n) auto
  then have "rb (paint Black t)"
    using rbtree_paint_Black [OF m(2)] by (auto simp: rb_def)
  with delete_fixup_rb [OF rbtree_deficient [OF m(2)] m(3)] Black show ?thesis
    by (auto simp: unlink_def)
qed

lemma min_path: "ngx_rbtree_min t (p @ q) = map_option (\<lambda>(u, p'). (u, p' @ q)) (ngx_rbtree_min t p)"
  by (induction t p rule: ngx_rbtree_min.induct) (auto simp flip: append_Cons)

lemma min_rb:
  assumes "rbtree n t" "rbpath n (root_color t) p" "ngx_rbtree_min t p = Some (u, q)"
  shows "\<exists>m. rbtree m u \<and> rbpath m (root_color u) q"
  using assms
proof (induction t p arbitrary: n rule: ngx_rbtree_min.induct)
  case (2 c l x r p)
  show ?case
  proof (cases "l = Leaf")
    case True
    with 2 show ?thesis by auto
  next
    case False
    have "\<exists>m. rbtree m l \<and> rbpath m (root_color l) (LeftOf c x r # p)"
      using "2.prems" by (cases c) (auto intro: exI [of _ n] exI [of _ "n - 1"])
    with 2 False show ?thesis by auto
  qed
qed simp

lemma delete_at_rb:
  assumes "rb (plug (Node c l x r) p)"
  shows "\<exists>u. delete_at (Node c l x r) p = Some u \<and> rb u"
proof -
  from plug_rbD [OF assms] obtain n where n: "rbtree n (Node c l x r)" "rbpath n c p" by auto
  show ?thesis
  proof (cases "l = Leaf \<or> r = Leaf")
    case True
    then show ?thesis using unlink_rb [OF n] by auto
  next
    case False
    then obtain v q where v: "ngx_rbtree_min r [] = Some (v, q)" using min_total by blast
    from min_inorder [OF this] obtain d y s where d: "v = Node d Leaf y s" by auto
    obtain k where k: "rbtree k r" "rbpath k (root_color r) (RightOf c y l # p)"
      using n by (cases c) (auto intro: that [of n] that [of "n - 1"])
    have "ngx_rbtree_min r (RightOf c y l # p) = Some (v, q @ RightOf c y l # p)"
      using v min_path [of r "[]"] by auto
    from min_rb [OF k this] obtain m where
      "rbtree m (Node d Leaf y s)" "rbpath m d (q @ RightOf c y l # p)"
      unfolding d by auto
    from unlink_rb [OF this, of s] d v False show ?thesis by auto
  qed
qed

section \<open>The operations on whole trees\<close>

lemma insert_linked:
  assumes "rb (get s)" "get s = plug Leaf p" "get s \<noteq> Leaf" "cb (get s) k s = Some (Linked p, s')"
  shows "\<exists>u. ngx_rbtree_insert get put cb k s = Some (put u s') \<and> rb u \<and>
             inorder u = before p @ k # after p"
proof -
  from plug_rbD [of Leaf p] assms have "rbpath 0 Black p" by auto
  then obtain u where "insert_fixup (Node Red Leaf k Leaf) p = Some u" "rb u"
    using insert_fixup_rb [of 0 "Node Red Leaf k Leaf" p] by auto
  with assms insert_fixup_inorder [OF this(1)] show ?thesis
    by (auto simp: ngx_rbtree_insert_def)
qed

lemma delete_node:
  assumes "rb root" "inorder root = xs @ k # ys" "k \<notin> set xs" "k \<notin> set ys"
  shows "\<exists>u. ngx_rbtree_delete root k = Some u \<and> rb u \<and> inorder u = xs @ ys"
proof -
  have "k \<in> set (inorder root)" using assms(2) by simp
  from locate_root [OF this] obtain c l r p where
    z: "locate k root [] = Some (Node c l k r, p)" "root = plug (Node c l k r) p" .
  then obtain u where u: "delete_at (Node c l k r) p = Some u" "rb u"
    using delete_at_rb [of c l k r p] assms(1) by auto
  have "xs = before p @ inorder l \<and> ys = inorder r @ after p"
    using append_Cons_eq_iff [OF assms(3,4), of "before p @ inorder l" "inorder r @ after p"]
      z(2) assms(2) by simp
  with delete_at_inorder [OF u(1)] u z show ?thesis by (auto simp: ngx_rbtree_delete_def)
qed

lemma climb_next_after: "climb_next p = (case after p of [] \<Rightarrow> None | y # _ \<Rightarrow> Some y)"
  by (induction p rule: climb_next.induct) auto

lemma next_node:
  assumes "inorder root = xs @ k # ys" "k \<notin> set xs" "k \<notin> set ys"
  shows "ngx_rbtree_next root k = Some (case ys of [] \<Rightarrow> None | y # _ \<Rightarrow> Some y)"
proof -
  have "k \<in> set (inorder root)" using assms(1) by simp
  from locate_root [OF this] obtain c l r p where
    z: "locate k root [] = Some (Node c l k r, p)" "root = plug (Node c l k r) p" .
  have ys: "ys = inorder r @ after p"
    using append_Cons_eq_iff [OF assms(2,3), of "before p @ inorder l" "inorder r @ after p"]
      z(2) assms(1) by simp
  show ?thesis
  proof (cases "r = Leaf")
    case True
    with z ys show ?thesis by (simp add: ngx_rbtree_next_def climb_next_after)
  next
    case False
    then obtain v q where v: "ngx_rbtree_min r [] = Some (v, q)" using min_total by blast
    from min_inorder [OF this] z ys False v show ?thesis by (auto simp: ngx_rbtree_next_def)
  qed
qed

lemma replace_rbtree [simp]:
  "ngx_rbt_is_red (ngx_rbtree_replace t y z) = ngx_rbt_is_red t"
  "rbtree n (ngx_rbtree_replace t y z) = rbtree n t"
  "rb (ngx_rbtree_replace t y z) = rb t"
proof -
  show red: "ngx_rbt_is_red (ngx_rbtree_replace t y z) = ngx_rbt_is_red t" for t
    by (cases t) auto
  show *: "rbtree n (ngx_rbtree_replace t y z) = rbtree n t" for n
    by (induction n t rule: rbtree.induct) (auto simp: red)
  show "rb (ngx_rbtree_replace t y z) = rb t"
    by (simp add: rb_def * red)
qed

section \<open>The interface its clients rely on\<close>

text \<open>
  An ordered index holds a list of distinct entries in a fixed order: an entry can be removed,
  asked for its successor, and replaced in place by another one.
\<close>

locale ordered_index =
  fixes content :: "'t \<Rightarrow> 'a list"
    and ok :: "'t \<Rightarrow> bool"
    and del :: "'t \<Rightarrow> 'a \<Rightarrow> 't option"
    and succ :: "'t \<Rightarrow> 'a \<Rightarrow> 'a option option"
    and repl :: "'t \<Rightarrow> 'a \<Rightarrow> 'a \<Rightarrow> 't"
  assumes del_law: "\<lbrakk>ok t; content t = xs @ k # ys; k \<notin> set xs; k \<notin> set ys\<rbrakk>
      \<Longrightarrow> \<exists>u. del t k = Some u \<and> ok u \<and> content u = xs @ ys"
    and succ_law: "\<lbrakk>content t = xs @ k # ys; k \<notin> set xs; k \<notin> set ys\<rbrakk>
      \<Longrightarrow> succ t k = Some (case ys of [] \<Rightarrow> None | y # _ \<Rightarrow> Some y)"
    and repl_content: "content (repl t y z) = map (\<lambda>x. if x = z then y else x) (content t)"
    and repl_ok: "ok (repl t y z) = ok t"
begin

lemma del_member:
  assumes "ok t" "distinct (content t)" "k \<in> set (content t)"
  shows "\<exists>u. del t k = Some u \<and> ok u \<and> content u = remove1 k (content t)"
proof -
  from assms(3) obtain xs ys where "content t = xs @ k # ys" by (auto simp: in_set_conv_decomp)
  with assms del_law [of t xs k ys] show ?thesis by (auto simp: remove1_append)
qed

lemma repl_split:
  assumes "content t = xs @ z # ys" "z \<notin> set xs" "z \<notin> set ys"
  shows "content (repl t y z) = xs @ y # ys"
  using assms by (auto simp: repl_content intro: map_idI)

end

interpretation rbi: ordered_index inorder rb ngx_rbtree_delete ngx_rbtree_next ngx_rbtree_replace
  by unfold_locales (auto intro: delete_node next_node)

end
