(* ===== verification/RbTreeThms.thy ===== *)
theory RbTreeThms
  imports RbTree
begin

text \<open>
  The theorems about the red-black tree: deleting and linking an entry keep the tree balanced and
  its order, a walk along \<open>ngx_rbtree_next\<close> visits every entry once, and a balanced tree is
  logarithmically high.
\<close>

section \<open>Height\<close>

fun depth :: "'a rbt \<Rightarrow> nat" where
  "depth Leaf = 0"
| "depth (Node c l x r) = Suc (max (depth l) (depth r))"

lemma rbtree_size: "rbtree n t \<Longrightarrow> 2 ^ n \<le> Suc (length (inorder t))"
proof (induction n t rule: rbtree.induct)
  case (3 n l x r)
  then obtain m where "n = Suc m" by (cases n) auto
  with 3 show ?case by simp
qed simp_all

lemma rbtree_depth: "rbtree n t \<Longrightarrow> depth t \<le> 2 * n + (if ngx_rbt_is_red t then 1 else 0)"
proof (induction n t rule: rbtree.induct)
  case (3 n l x r)
  then obtain m where "n = Suc m" by (cases n) auto
  with 3 show ?case by (fastforce split: if_splits)
qed auto

section \<open>Walking\<close>

text \<open>The entries met from \<open>k\<close> on, following at most \<open>fuel\<close> steps.\<close>

fun walk_from :: "nat \<Rightarrow> 'a rbt \<Rightarrow> 'a \<Rightarrow> 'a list" where
  "walk_from 0 t k = [k]"
| "walk_from (Suc fuel) t k =
     k # (case ngx_rbtree_next t k of Some (Some y) \<Rightarrow> walk_from fuel t y | _ \<Rightarrow> [])"

lemma walk_from_suffix:
  assumes "inorder t = xs @ k # ys" "distinct (inorder t)" "length ys \<le> fuel"
  shows "walk_from fuel t k = k # ys"
  using assms
proof (induction ys arbitrary: xs k fuel)
  case Nil
  then show ?case using rbi.succ_law [of t xs k "[]"] by (cases fuel) auto
next
  case (Cons y ys)
  then obtain f where f: "fuel = Suc f" by (cases fuel) auto
  have "walk_from f t y = y # ys" using Cons.IH [of "xs @ [k]" y f] Cons.prems f by simp
  moreover have "ngx_rbtree_next t k = Some (Some y)"
    using rbi.succ_law [of t xs k "y # ys"] Cons.prems by simp
  ultimately show ?case using f by simp
qed

section \<open>Properties\<close>

text \<open>An example: four entries, the lowest one red.\<close>

definition four :: "nat rbt" where
  "four = Node Black (Node Black (Node Red Leaf 1 Leaf) 2 Leaf) 3 (Node Black Leaf 4 Leaf)"

lemma four_ok: "rb four" "inorder four = [1, 2, 3, 4]"
  by (auto simp: rb_def four_def intro: exI [of _ 2])

text \<open>
  (C32) \<open>ngx_rbtree_delete\<close> of an entry of the tree succeeds, removes this entry and keeps the order
  of the others; the result is again a red-black tree with a black root.
\<close>

theorem rbtree_delete_entry:
  assumes "rb t" "distinct (inorder t)" "k \<in> set (inorder t)"
  shows "\<exists>u. ngx_rbtree_delete t k = Some u \<and> rb u \<and> inorder u = remove1 k (inorder t)"
  using rbi.del_member [OF assms] .

theorem rbtree_delete_entry_witness:
  "\<exists>u. ngx_rbtree_delete four 3 = Some u \<and> rb u \<and> inorder u = [1, 2, 4]"
  using rbtree_delete_entry [of four 3] four_ok by simp

text \<open>
  (C35) \<open>ngx_rbtree_insert\<close> with a callback that links the node below an empty place of the tree puts
  the entry at that place of the order and rebalances: the result is again a red-black tree.
\<close>

theorem rbtree_insert_entry:
  assumes "rb (get s)" "get s = plug Leaf p" "p \<noteq> []" "cb (get s) k s = Some (Linked p, s')"
  shows "\<exists>u. ngx_rbtree_insert get put cb k s = Some (put u s') \<and> rb u \<and> inorder u = before p @ k # after p"
proof -
  obtain x q where p: "p = x # q" using assms(3) by (cases p) auto
  have "inorder (plug Leaf p) \<noteq> []" unfolding p by (cases x) auto
  then have "get s \<noteq> Leaf" using assms(2) by (metis inorder.simps(1))
  with assms insert_linked [of get s p cb k s' put] show ?thesis by blast
qed

theorem rbtree_insert_entry_witness:
  "\<exists>u. ngx_rbtree_insert (\<lambda>t. t) (\<lambda>u t. u)
         (\<lambda>t k s. Some (Linked [LeftOf Red 1 Leaf, LeftOf Black 2 Leaf, LeftOf Black 3 (Node Black Leaf 4 Leaf)], s)) 0 four = Some u \<and>
       rb u \<and> inorder u = [0, 1, 2, 3, 4]"
  using rbtree_insert_entry [of "\<lambda>t. t" four "[LeftOf Red 1 Leaf, LeftOf Black 2 Leaf, LeftOf Black 3 (Node Black Leaf 4 Leaf)]"
      "\<lambda>t k s. Some (Linked [LeftOf Red 1 Leaf, LeftOf Black 2 Leaf, LeftOf Black 3 (Node Black Leaf 4 Leaf)], s)" 0 four "\<lambda>u t. u"]
    four_ok by (simp add: four_def)

text \<open>
  (C34) Starting at the node \<open>ngx_rbtree_min\<close> delivers, a walk along \<open>ngx_rbtree_next\<close> visits every
  entry exactly once, in order, and ends.
\<close>

theorem rbtree_walk_complete:
  assumes "distinct (inorder t)" "t \<noteq> Leaf" "length (inorder t) \<le> Suc fuel"
  shows "\<exists>c l k r p. ngx_rbtree_min t [] = Some (Node c l k r, p) \<and> walk_from fuel t k = inorder t"
proof -
  obtain u q where m: "ngx_rbtree_min t [] = Some (u, q)" using min_total assms(2) by blast
  from min_inorder [OF m] obtain c x r where "u = Node c Leaf x r" "inorder t = x # tl (inorder t)"
    by (auto simp: neq_Nil_conv)
  with m walk_from_suffix [of t "[]" x "tl (inorder t)" fuel] assms show ?thesis by fastforce
qed

theorem rbtree_walk_complete_witness:
  "\<exists>c l k r p. ngx_rbtree_min four [] = Some (Node c l k r, p) \<and> walk_from 5 four k = [1, 2, 3, 4]"
  using rbtree_walk_complete [of four 5] four_ok by (auto simp: four_def)

text \<open>
  A red-black tree with \<open>n\<close> entries has at most \<open>2 * log 2 (n + 1)\<close> levels; all operations
  follow one path, so this bounds the rounds of their loops.
\<close>

theorem rbtree_depth_bound:
  assumes "rb t"
  shows "2 ^ depth t \<le> (length (inorder t) + 1)\<^sup>2"
proof -
  from assms obtain n where n: "rbtree n t" "\<not> ngx_rbt_is_red t" by (auto simp: rb_def)
  have "2 ^ depth t \<le> (2 :: nat) ^ (2 * n)" using rbtree_depth [OF n(1)] n(2) by (intro power_increasing) auto
  also have "\<dots> = (2 ^ n)\<^sup>2" by (simp add: power_mult mult.commute flip: power_mult)
  also have "\<dots> \<le> (length (inorder t) + 1)\<^sup>2" using rbtree_size [OF n(1)] by (intro power_mono) auto
  finally show ?thesis .
qed

theorem rbtree_depth_bound_witness: "2 ^ depth four \<le> (5 :: nat)\<^sup>2"
  using rbtree_depth_bound [OF four_ok(1)] four_ok(2) by (simp add: power2_eq_square)

end
