(* ===== verification/BdmAllocator.thy ===== *)
theory BdmAllocator
  imports RbTree
begin

text \<open>
  The chunk allocator of \<^verbatim>\<open>disk/common/bdm_allocator.c\<close>.

  The data area of a disk is divided into \<open>chunkNum\<close> units of \<open>minChunkSize\<close> bytes. A chunk is
  a run of units named by the number of its first unit. The free chunks are kept in a red-black
  tree ordered by position, and in 1024 lists by length (the last one holds all longer ones).
  Every unit has a \<open>BdmChunkMeta\<close> record, in memory and on the disk; the records of chunk heads
  describe how the area is divided and survive a restart.

  The array \<open>chunkList\<close> is the pair of functions \<open>cidx\<close> and \<open>clen\<close> (the fields \<open>index\<close> and
  \<open>length\<close> of its elements; tree and list links of an element are its occurrences in \<open>tree\<close> and
  \<open>freeL\<close>). Writing and reading a metadata record goes through the function pointers of
  \<open>metaOps\<close>, which act on a world of type \<open>'w\<close>; that world is passed through every operation.

  The result \<open>None\<close> of an operation means that the C function does not return normally: it
  follows an invalid pointer, leaves an array, or loops for ever.
\<close>

section \<open>Data\<close>

abbreviation BDM_CODE_OK :: int where "BDM_CODE_OK \<equiv> 0"
abbreviation BDM_CODE_ERR :: int where "BDM_CODE_ERR \<equiv> - 1"
abbreviation BDM_CODE_ERR_IO :: int where "BDM_CODE_ERR_IO \<equiv> 5"
abbreviation BDM_CODE_INVALID_PARAM :: int where "BDM_CODE_INVALID_PARAM \<equiv> - 110"
abbreviation BDM_CODE_NOT_EXIST :: int where "BDM_CODE_NOT_EXIST \<equiv> - 109"
abbreviation BDM_CODE_EXIST :: int where "BDM_CODE_EXIST \<equiv> - 108"
abbreviation BDM_CODE_CACHELIST_FULL :: int where "BDM_CODE_CACHELIST_FULL \<equiv> - 107"
abbreviation BDM_CODE_CROSS_BOUND :: int where "BDM_CODE_CROSS_BOUND \<equiv> - 106"
abbreviation BDM_CODE_INVALID_CHUNK_ID :: int where "BDM_CODE_INVALID_CHUNK_ID \<equiv> - 105"
abbreviation BDM_CODE_INVALID_BDM_ID :: int where "BDM_CODE_INVALID_BDM_ID \<equiv> - 104"
abbreviation BDM_CODE_SCAN_OFF :: int where "BDM_CODE_SCAN_OFF \<equiv> - 103"

abbreviation BDM_FREE_LIST_NUM :: nat where "BDM_FREE_LIST_NUM \<equiv> 1024"
abbreviation BDM_ALIGN_SIZE :: nat where "BDM_ALIGN_SIZE \<equiv> 2097152"

text \<open>The size of a \<open>BdmChunkMeta\<close>: a 4-byte bit field, 4 bytes of padding, two 8-byte fields.\<close>

abbreviation sizeof_BdmChunkMeta :: nat where "sizeof_BdmChunkMeta \<equiv> 24"

record chunk_meta =
  mhead :: bool
  mfree :: bool
  mrestore :: bool
  mlength :: nat      \<comment> \<open>a 21-bit field\<close>
  mbucketId :: nat
  mbucketOffset :: nat

text \<open>
  The callbacks take the world, a byte offset and a length; \<open>readMeta\<close> delivers the records of
  the table.
\<close>

record 'w meta_ops =
  writeMeta :: "('w \<Rightarrow> nat \<Rightarrow> chunk_meta \<Rightarrow> nat \<Rightarrow> int \<times> 'w) option"
  readMeta :: "('w \<Rightarrow> nat \<Rightarrow> nat \<Rightarrow> int \<times> (nat \<Rightarrow> chunk_meta) \<times> 'w) option"

record 'w alloc =
  tree :: "nat rbt"
  freeL :: "nat \<Rightarrow> nat list"
  freeC :: "nat \<Rightarrow> nat"
  metaOps :: "'w meta_ops"
  metas :: "nat \<Rightarrow> chunk_meta"
  minChunkSize :: nat
  maxChunkSize :: nat
  totalSize :: nat
  usedSize :: nat
  scanIndex :: nat
  chunkNum :: nat
  cidx :: "nat \<Rightarrow> nat"
  clen :: "nat \<Rightarrow> nat"

section \<open>Sizes\<close>

definition ROUND_UP :: "nat \<Rightarrow> nat \<Rightarrow> nat" where
  "ROUND_UP x align = (let y = sub64 (add64 x align) 1 in y - y mod align)"

definition BdmAllocatorGetSplitSize :: "nat \<Rightarrow> nat \<Rightarrow> nat \<Rightarrow> int \<times> (nat \<times> nat) option" where
  "BdmAllocatorGetSplitSize head chunkSize totalSz =
     (let elemSize = sizeof_BdmChunkMeta in
      if add64 (add64 head chunkSize) elemSize > totalSz then (BDM_CODE_ERR, None)
      else
        let calcNum = sub64 totalSz head div add64 elemSize chunkSize;
            metaSize1 = ROUND_UP (add64 (mul64 elemSize calcNum) head) BDM_ALIGN_SIZE;
            dataSize1 = mul64 chunkSize calcNum
        in if add64 metaSize1 dataSize1 > totalSz
           then if calcNum \<le> 1 then (BDM_CODE_ERR, None)
                else let calcNum' = calcNum - 1;
                         metaSize2 = mul64 elemSize calcNum';
                         dataSize2 = mul64 chunkSize calcNum'
                     in (BDM_CODE_OK, Some (sub64 metaSize2 head, dataSize2))
           else (BDM_CODE_OK, Some (sub64 metaSize1 head, dataSize1)))"

section \<open>Metadata and free lists\<close>

definition BdmAllocatorUpdateMeta ::
  "nat \<Rightarrow> nat \<Rightarrow> nat \<Rightarrow> bool \<Rightarrow> 'w alloc \<Rightarrow> 'w \<Rightarrow> (int \<times> 'w alloc \<times> 'w) option" where
  "BdmAllocatorUpdateMeta bucketId bucketOffset chunk isFree a w =
     (if cidx a chunk \<ge> chunkNum a then None
      else
        let meta = \<lparr>mhead = True, mfree = isFree, mrestore = True, mlength = clen a chunk mod 2 ^ 21,
                    mbucketId = bucketId, mbucketOffset = bucketOffset\<rparr>;
            a' = a\<lparr>metas := (metas a)(cidx a chunk := meta)\<rparr>
        in case writeMeta (metaOps a) of
             None \<Rightarrow> Some (BDM_CODE_OK, a', w)
           | Some wr \<Rightarrow>
               (case wr w (cidx a chunk * sizeof_BdmChunkMeta) meta sizeof_BdmChunkMeta of
                  (ret, w') \<Rightarrow>
                    if ret \<noteq> BDM_CODE_OK then Some (ret, a', w') else Some (BDM_CODE_OK, a', w')))"

text \<open>\<open>MIN(length, BDM_FREE_LIST_NUM) - 1\<close>; for length 0 it wraps far outside the array \<open>free\<close>.\<close>

definition freeIndex :: "nat \<Rightarrow> nat option" where
  "freeIndex len = (if len = 0 then None else Some (min len BDM_FREE_LIST_NUM - 1))"

text \<open>\<open>DListDel(&chunk->head)\<close> takes the chunk out of whichever list links it.\<close>

definition DListDel :: "nat \<Rightarrow> 'w alloc \<Rightarrow> 'w alloc" where
  "DListDel chunk a = a\<lparr>freeL := (\<lambda>i. remove1 chunk (freeL a i))\<rparr>"

definition FreeListDel :: "nat \<Rightarrow> 'w alloc \<Rightarrow> 'w alloc option" where
  "FreeListDel chunk a =
     (case freeIndex (clen a chunk) of
        None \<Rightarrow> None
      | Some i \<Rightarrow> Some ((DListDel chunk a)\<lparr>freeC := (freeC a)(i := sub64 (freeC a i) 1)\<rparr>))"

definition FreeListAdd :: "nat \<Rightarrow> 'w alloc \<Rightarrow> 'w alloc option" where
  "FreeListAdd chunk a =
     (case freeIndex (clen a chunk) of
        None \<Rightarrow> None
      | Some i \<Rightarrow> Some (a\<lparr>freeL := (freeL a)(i := freeL a i @ [chunk]),
                         freeC := (freeC a)(i := add64 (freeC a i) 1)\<rparr>))"

definition set_length :: "nat \<Rightarrow> nat \<Rightarrow> 'w alloc \<Rightarrow> 'w alloc" where
  "set_length chunk n a = a\<lparr>clen := (clen a)(chunk := n)\<rparr>"

section \<open>Returning a chunk\<close>

text \<open>\<open>chunk\<close> ends where the free chunk \<open>next\<close> begins: it takes over the place of \<open>next\<close>.\<close>

definition BdmAllocatorInsertPre ::
  "nat \<Rightarrow> nat \<Rightarrow> 'w alloc \<Rightarrow> 'w \<Rightarrow> (int \<times> 'w alloc \<times> 'w) option" where
  "BdmAllocatorInsertPre chunk nxt a w =
     (if clen a nxt = 0 then Some (BDM_CODE_INVALID_PARAM, a, w)
      else do {
        a1 \<leftarrow> FreeListDel nxt a;
        let a2 = set_length chunk (add64 (clen a1 chunk) (clen a1 nxt)) a1;
        if clen a2 chunk = 0 then Some (BDM_CODE_INVALID_PARAM, a2, w)
        else do {
          a3 \<leftarrow> FreeListAdd chunk a2;
          (ret, a4, w') \<leftarrow> BdmAllocatorUpdateMeta 0 0 chunk True a3 w;
          if ret \<noteq> BDM_CODE_OK then Some (ret, a4, w')
          else Some (BDM_CODE_OK, a4\<lparr>tree := ngx_rbtree_replace (tree a4) chunk nxt\<rparr>, w') } })"

text \<open>
  The free chunk \<open>prev\<close> ends where \<open>chunk\<close> begins: it grows over \<open>chunk\<close>, and over its
  successor when that follows immediately. The second component of the result is \<open>eraseNode\<close>.
\<close>

definition BdmAllocatorInsertNext_tail ::
  "nat \<Rightarrow> nat \<Rightarrow> 'w alloc \<Rightarrow> 'w \<Rightarrow> (int \<times> nat option \<times> 'w alloc \<times> 'w) option" where
  "BdmAllocatorInsertNext_tail chunk prev a w =
     (if clen a prev = 0 then Some (BDM_CODE_INVALID_PARAM, None, a, w)
      else do {
        a1 \<leftarrow> FreeListAdd prev a;
        (ret, a2, w') \<leftarrow> BdmAllocatorUpdateMeta 0 0 chunk True a1 w;
        Some (ret, None, a2, w') })"

definition BdmAllocatorInsertNext_merge ::
  "nat \<Rightarrow> nat \<Rightarrow> 'w alloc \<Rightarrow> 'w \<Rightarrow> (int \<times> nat option \<times> 'w alloc \<times> 'w) option" where
  "BdmAllocatorInsertNext_merge prev neigh a w =
     (if clen a neigh = 0 then Some (BDM_CODE_INVALID_PARAM, None, a, w)
      else do {
        a1 \<leftarrow> FreeListDel neigh a;
        let a2 = set_length prev (add64 (clen a1 prev) (clen a1 neigh)) a1;
        if clen a2 prev = 0 then Some (BDM_CODE_INVALID_PARAM, None, a2, w)
        else do {
          a3 \<leftarrow> FreeListAdd prev a2;
          (ret, a4, w') \<leftarrow> BdmAllocatorUpdateMeta 0 0 prev True a3 w;
          if ret \<noteq> BDM_CODE_OK then Some (ret, None, a4, w')
          else Some (BDM_CODE_OK, Some neigh, a4, w') } })"

definition BdmAllocatorInsertNext ::
  "nat \<Rightarrow> nat \<Rightarrow> 'w alloc \<Rightarrow> 'w \<Rightarrow> (int \<times> nat option \<times> 'w alloc \<times> 'w) option" where
  "BdmAllocatorInsertNext chunk prev a w =
     (if clen a prev = 0 then Some (BDM_CODE_INVALID_PARAM, None, a, w)
      else do {
        a1 \<leftarrow> FreeListDel prev a;
        let a2 = set_length prev (add64 (clen a1 prev) (clen a1 chunk)) a1;
        neighb \<leftarrow> ngx_rbtree_next (tree a2) prev;
        (case neighb of
           Some neigh \<Rightarrow>
             if add64 (cidx a2 chunk) (clen a2 chunk) = cidx a2 neigh
             then BdmAllocatorInsertNext_merge prev neigh a2 w
             else BdmAllocatorInsertNext_tail chunk prev a2 w
         | None \<Rightarrow> BdmAllocatorInsertNext_tail chunk prev a2 w) })"

text \<open>The way down the tree in \<open>BdmAllocatorInsertCallback\<close>.\<close>

datatype place = After nat | Before nat | Overlap | Slot "nat path"

fun descend :: "(nat \<Rightarrow> nat) \<Rightarrow> (nat \<Rightarrow> nat) \<Rightarrow> nat \<Rightarrow> nat rbt \<Rightarrow> nat path \<Rightarrow> place" where
  "descend idx len node Leaf p = Slot p"
| "descend idx len node (Node c l x r) p =
     (if idx node = add64 (idx x) (len x) then After x
      else if add64 (idx node) (len node) = idx x then Before x
      else if add64 (idx node) (len node) < idx x then descend idx len node l (LeftOf c x r # p)
      else if idx node > add64 (idx x) (len x) then descend idx len node r (RightOf c x l # p)
      else Overlap)"

text \<open>The state the callback sees: \<open>context->result\<close>, \<open>context->eraseNode\<close>, allocator, world.\<close>

type_synonym 'w insert_ctx = "int \<times> nat option \<times> 'w alloc \<times> 'w"

fun BdmAllocatorInsertCallback ::
  "nat rbt \<Rightarrow> nat \<Rightarrow> 'w insert_ctx \<Rightarrow> (nat linked \<times> 'w insert_ctx) option" where
  "BdmAllocatorInsertCallback current node (res, er, a, w) =
     (if current = Leaf
      then do { a' \<leftarrow> FreeListAdd node a; Some (Linked [], (res, er, a', w)) }
      else case descend (cidx a) (clen a) node current [] of
             After x \<Rightarrow> do {
               (res', er', a', w') \<leftarrow> BdmAllocatorInsertNext node x a w;
               Some (Stopped, (res', er', a', w')) }
           | Before x \<Rightarrow> do {
               (res', a', w') \<leftarrow> BdmAllocatorInsertPre node x a w;
               Some (Stopped, (res', er, a', w')) }
           | Overlap \<Rightarrow> Some (Stopped, (BDM_CODE_ERR, er, a, w))
           | Slot p \<Rightarrow> do { a' \<leftarrow> FreeListAdd node a; Some (Linked p, (res, er, a', w)) })"

fun ctx_tree :: "'w insert_ctx \<Rightarrow> nat rbt" where
  "ctx_tree (res, er, a, w) = tree a"

fun ctx_put :: "nat rbt \<Rightarrow> 'w insert_ctx \<Rightarrow> 'w insert_ctx" where
  "ctx_put t (res, er, a, w) = (res, er, a\<lparr>tree := t\<rparr>, w)"

definition BdmAllocatorRestoreInsert ::
  "nat \<Rightarrow> 'w alloc \<Rightarrow> 'w \<Rightarrow> (int \<times> 'w alloc \<times> 'w) option" where
  "BdmAllocatorRestoreInsert chunk a w = do {
     (res, er, a1, w1) \<leftarrow>
       ngx_rbtree_insert ctx_tree ctx_put BdmAllocatorInsertCallback chunk (BDM_CODE_OK, None, a, w);
     if res \<noteq> BDM_CODE_OK then Some (res, a1, w1)
     else (case er of
             None \<Rightarrow> Some (BDM_CODE_OK, a1, w1)
           | Some n \<Rightarrow> do {
               t \<leftarrow> ngx_rbtree_delete (tree a1) n;
               Some (BDM_CODE_OK, a1\<lparr>tree := t\<rparr>, w1) }) }"

definition BdmAllocatorInsert ::
  "nat \<Rightarrow> 'w alloc \<Rightarrow> 'w \<Rightarrow> (int \<times> 'w alloc \<times> 'w) option" where
  "BdmAllocatorInsert chunk a w = do {
     (res, er, a1, w1) \<leftarrow>
       ngx_rbtree_insert ctx_tree ctx_put BdmAllocatorInsertCallback chunk (BDM_CODE_OK, None, a, w);
     if res \<noteq> BDM_CODE_OK then Some (res, a1, w1)
     else do {
       a2 \<leftarrow> (case er of
                None \<Rightarrow> Some a1
              | Some n \<Rightarrow> do { t \<leftarrow> ngx_rbtree_delete (tree a1) n; Some (a1\<lparr>tree := t\<rparr>) });
       BdmAllocatorUpdateMeta 0 0 chunk True a2 w1 } }"

section \<open>Taking a chunk\<close>

text \<open>The operations that take a chunk also return what they stored in \<open>*index\<close>, if anything.\<close>

definition BdmAllocatorRemoveSameLen ::
  "nat \<Rightarrow> nat \<Rightarrow> nat \<Rightarrow> nat \<Rightarrow> 'w alloc \<Rightarrow> 'w \<Rightarrow> (int \<times> nat option \<times> 'w alloc \<times> 'w) option" where
  "BdmAllocatorRemoveSameLen chunk bucketId bucketOffset freeIdx a w = do {
     let a1 = (DListDel chunk a)\<lparr>freeC := (freeC a)(freeIdx := sub64 (freeC a freeIdx) 1)\<rparr>;
     (ret, a2, w') \<leftarrow> BdmAllocatorUpdateMeta bucketId bucketOffset chunk False a1 w;
     if ret \<noteq> BDM_CODE_OK then Some (ret, Some (cidx a chunk), a2, w')
     else do {
       t \<leftarrow> ngx_rbtree_delete (tree a2) chunk;
       Some (BDM_CODE_OK, Some (cidx a chunk), a2\<lparr>tree := t\<rparr>, w') } }"

definition BdmAllocatorRemoveDiffLen ::
  "nat \<Rightarrow> nat \<Rightarrow> nat \<Rightarrow> nat \<Rightarrow> 'w alloc \<Rightarrow> 'w \<Rightarrow> (int \<times> nat option \<times> 'w alloc \<times> 'w) option" where
  "BdmAllocatorRemoveDiffLen chunk bucketId bucketOffset len a w = do {
     let neigh = chunk + len;
     let a1 = a\<lparr>cidx := (cidx a)(neigh := add64 (cidx a chunk) len),
                clen := (clen a)(neigh := sub64 (clen a chunk) len)\<rparr>;
     a2 \<leftarrow> FreeListAdd neigh a1;
     (ret, a3, w') \<leftarrow> BdmAllocatorUpdateMeta 0 0 neigh True a2 w;
     if ret \<noteq> BDM_CODE_OK then Some (ret, Some (cidx a chunk), a3, w')
     else do {
       a4 \<leftarrow> FreeListDel chunk a3;
       let a5 = set_length chunk (sub64 (clen a4 chunk) (clen a4 neigh)) a4;
       (ret2, a6, w'') \<leftarrow> BdmAllocatorUpdateMeta bucketId bucketOffset chunk False a5 w';
       if ret2 \<noteq> BDM_CODE_OK then Some (ret2, Some (cidx a chunk), a6, w'')
       else Some (BDM_CODE_OK, Some (cidx a chunk),
                  a6\<lparr>tree := ngx_rbtree_replace (tree a6) neigh chunk\<rparr>, w'') } }"

text \<open>The search: first list that holds a long enough chunk, first such chunk in it.\<close>

fun scan_list :: "(nat \<Rightarrow> nat) \<Rightarrow> nat \<Rightarrow> nat list \<Rightarrow> nat option" where
  "scan_list len n [] = None"
| "scan_list len n (c # cs) = (if len c \<ge> n then Some c else scan_list len n cs)"

function scan_free :: "(nat \<Rightarrow> nat) \<Rightarrow> (nat \<Rightarrow> nat list) \<Rightarrow> nat \<Rightarrow> nat \<Rightarrow> (nat \<times> nat) option" where
  "scan_free len fl n i =
     (if i < BDM_FREE_LIST_NUM
      then case scan_list len n (fl i) of
             Some c \<Rightarrow> Some (i, c)
           | None \<Rightarrow> scan_free len fl n (Suc i)
      else None)"
  by pat_completeness auto
termination
  by (relation "measure (\<lambda>(len, fl, n, i). BDM_FREE_LIST_NUM - i)") auto

definition BdmAllocatorRemove ::
  "nat \<Rightarrow> nat \<Rightarrow> nat \<Rightarrow> 'w alloc \<Rightarrow> 'w \<Rightarrow> (int \<times> nat option \<times> 'w alloc \<times> 'w) option" where
  "BdmAllocatorRemove bucketId bucketOffset chunkSize a w =
     (if minChunkSize a = 0 then Some (BDM_CODE_ERR, None, a, w)
      else
        let len = chunkSize div minChunkSize a in
        if len = 0 then Some (BDM_CODE_INVALID_PARAM, None, a, w)
        else case scan_free (clen a) (freeL a) len (min len BDM_FREE_LIST_NUM - 1) of
               None \<Rightarrow> Some (BDM_CODE_ERR, None, a, w)
             | Some (i, chunk) \<Rightarrow>
                 if clen a chunk = len
                 then BdmAllocatorRemoveSameLen chunk bucketId bucketOffset i a w
                 else BdmAllocatorRemoveDiffLen chunk bucketId bucketOffset len a w)"

section \<open>The interface of the allocator\<close>

text \<open>A handle of value 0 is rejected by every operation that takes one; see the disk layer.\<close>

definition BdmAllocatorAllocChunk ::
  "nat \<Rightarrow> nat \<Rightarrow> nat \<Rightarrow> 'w alloc \<Rightarrow> 'w \<Rightarrow> (int \<times> nat option \<times> 'w alloc \<times> 'w) option" where
  "BdmAllocatorAllocChunk bucketId bucketOffset chunkSize a w = do {
     (ret, chunkId, a', w') \<leftarrow> BdmAllocatorRemove bucketId bucketOffset chunkSize a w;
     if ret \<noteq> BDM_CODE_OK then Some (ret, chunkId, a', w')
     else Some (BDM_CODE_OK, chunkId, a'\<lparr>usedSize := add64 (usedSize a') chunkSize\<rparr>, w') }"

definition BdmAllocatorFreeChunk ::
  "nat \<Rightarrow> nat \<Rightarrow> 'w alloc \<Rightarrow> 'w \<Rightarrow> (int \<times> 'w alloc \<times> 'w) option" where
  "BdmAllocatorFreeChunk chunkSize chunkId a w =
     (if chunkId \<ge> chunkNum a then Some (BDM_CODE_ERR, a, w)
      else if chunkSize \<noteq> mul64 (clen a chunkId) (minChunkSize a)
      then Some (BDM_CODE_INVALID_PARAM, a, w)
      else do {
        (ret, a', w') \<leftarrow> BdmAllocatorInsert chunkId a w;
        if ret \<noteq> BDM_CODE_OK then Some (ret, a', w')
        else Some (BDM_CODE_OK, a'\<lparr>usedSize := sub64 (usedSize a') chunkSize\<rparr>, w') })"

definition BdmAllocatorCheckChunk :: "nat \<Rightarrow> nat \<Rightarrow> nat \<Rightarrow> 'w alloc \<Rightarrow> int" where
  "BdmAllocatorCheckChunk chunkId offset len a =
     (if chunkId \<ge> chunkNum a then BDM_CODE_INVALID_CHUNK_ID
      else let meta = metas a chunkId in
        if \<not> mhead meta \<or> mfree meta then BDM_CODE_INVALID_CHUNK_ID
        else if add64 offset len > mul64 (mlength meta) (minChunkSize a) then BDM_CODE_CROSS_BOUND
        else BDM_CODE_OK)"

definition BdmAllocatorResetChunk :: "'w alloc \<Rightarrow> int \<times> 'w alloc" where
  "BdmAllocatorResetChunk a = (BDM_CODE_OK, a\<lparr>scanIndex := 0\<rparr>)"

text \<open>
  The scan over chunk heads. A head of length 0 would be visited for ever. \<open>Inl\<close> is the unit
  of a used chunk, \<open>Inr\<close> a return code.
\<close>

partial_function (option) scan_used ::
  "(nat \<Rightarrow> chunk_meta) \<Rightarrow> nat \<Rightarrow> nat \<Rightarrow> (nat + int) option" where
  "scan_used m n i =
     (if i < n
      then if \<not> mhead (m i) then Some (Inr BDM_CODE_ERR)
           else if \<not> mfree (m i) then Some (Inl i)
           else scan_used m n (i + mlength (m i))
      else Some (Inr BDM_CODE_SCAN_OFF))"

text \<open>The result holds \<open>*chunkId\<close>, \<open>*chunkSize\<close>, \<open>*bucketId\<close> and \<open>*bucketOffset\<close>.\<close>

definition BdmAllocatorGetNextChunk ::
  "'w alloc \<Rightarrow> (int \<times> (nat \<times> nat \<times> nat \<times> nat) option \<times> 'w alloc) option" where
  "BdmAllocatorGetNextChunk a = do {
     r \<leftarrow> scan_used (metas a) (chunkNum a) (scanIndex a);
     (case r of
        Inl i \<Rightarrow>
          (let meta = metas a i in
           Some (BDM_CODE_OK,
                 Some (i, mul64 (mlength meta) (minChunkSize a), mbucketId meta, mbucketOffset meta),
                 a\<lparr>scanIndex := i + mlength meta\<rparr>))
      | Inr ret \<Rightarrow>
          Some (ret, None,
                if ret = BDM_CODE_SCAN_OFF then a\<lparr>scanIndex := chunkNum a\<rparr> else a)) }"

definition BdmAllocatorGetCap :: "'w alloc \<Rightarrow> int \<times> nat \<times> nat" where
  "BdmAllocatorGetCap a = (BDM_CODE_OK, totalSize a, usedSize a)"

section \<open>Creating an allocator\<close>

definition BdmAllocatorCreateImpl :: "'w alloc \<Rightarrow> 'w \<Rightarrow> (int \<times> 'w alloc \<times> 'w) option" where
  "BdmAllocatorCreateImpl a w = do {
     let a1 = a\<lparr>cidx := (cidx a)(0 := 0), clen := (clen a)(0 := chunkNum a)\<rparr>;
     (ret, a2, w') \<leftarrow> BdmAllocatorInsert 0 a1 w;
     if ret \<noteq> BDM_CODE_OK then Some (BDM_CODE_ERR, a2, w') else Some (BDM_CODE_OK, a2, w') }"

text \<open>The loop of \<open>BdmAllocatorRestoreImpl\<close> over the chunk heads read from the disk.\<close>

partial_function (option) restore_loop ::
  "nat \<Rightarrow> 'w alloc \<Rightarrow> 'w \<Rightarrow> (int \<times> 'w alloc \<times> 'w) option" where
  "restore_loop i a w =
     (if i < chunkNum a
      then let meta = metas a i;
               a1 = a\<lparr>cidx := (cidx a)(i := i), clen := (clen a)(i := mlength meta)\<rparr>
           in if \<not> mhead meta then Some (BDM_CODE_ERR, a, w)
              else if mfree meta \<or> \<not> mrestore meta
              then Option.bind (BdmAllocatorRestoreInsert i a1 w)
                     (\<lambda>r. if fst r \<noteq> BDM_CODE_OK then Some (BDM_CODE_ERR, snd r)
                          else restore_loop (i + mlength meta) (fst (snd r)) (snd (snd r)))
              else restore_loop (i + mlength meta)
                     (a1\<lparr>usedSize := add64 (usedSize a1) (mul64 (minChunkSize a) (mlength meta))\<rparr>) w
      else Some (BDM_CODE_OK, a, w))"

definition BdmAllocatorRestoreImpl :: "'w alloc \<Rightarrow> 'w \<Rightarrow> (int \<times> 'w alloc \<times> 'w) option" where
  "BdmAllocatorRestoreImpl a w =
     (case readMeta (metaOps a) of
        None \<Rightarrow> Some (BDM_CODE_ERR, a, w)
      | Some rd \<Rightarrow>
          (case rd w 0 (mul64 sizeof_BdmChunkMeta (chunkNum a)) of
             (ret, tab, w') \<Rightarrow>
               if ret \<noteq> BDM_CODE_OK then Some (ret, a\<lparr>metas := tab\<rparr>, w')
               else restore_loop 0 (a\<lparr>metas := tab\<rparr>) w'))"

record 'w alloc_para =
  paraOps :: "'w meta_ops"
  paraMinChunkSize :: nat
  paraMaxChunkSize :: nat
  paraTotalSize :: nat

text \<open>
  What \<open>malloc\<close> delivers: whether each of the two allocations succeeds, and the uninitialised
  contents of the chunk array and of the metadata table.
\<close>

record heap_block =
  structOk :: bool
  tableOk :: bool
  junkIdx :: "nat \<Rightarrow> nat"
  junkLen :: "nat \<Rightarrow> nat"
  junkMeta :: "nat \<Rightarrow> chunk_meta"

text \<open>A result without allocator is the handle \<open>0L\<close>.\<close>

definition BdmAllocatorCreate ::
  "'w alloc_para \<Rightarrow> bool \<Rightarrow> heap_block \<Rightarrow> 'w \<Rightarrow> ('w alloc option \<times> 'w) option" where
  "BdmAllocatorCreate para isRestore h w =
     (if paraMinChunkSize para = 0 then Some (None, w)
      else if \<not> structOk h then Some (None, w)
      else if \<not> tableOk h then Some (None, w)
      else do {
        let realize = \<lparr>tree = Leaf, freeL = (\<lambda>_. []), freeC = (\<lambda>_. 0), metaOps = paraOps para,
              metas = junkMeta h, minChunkSize = paraMinChunkSize para,
              maxChunkSize = paraMaxChunkSize para, totalSize = paraTotalSize para, usedSize = 0,
              scanIndex = 0, chunkNum = paraTotalSize para div paraMinChunkSize para,
              cidx = junkIdx h, clen = junkLen h\<rparr>;
        (ret, a, w') \<leftarrow> (if isRestore then BdmAllocatorRestoreImpl realize w
                       else BdmAllocatorCreateImpl realize w);
        if ret \<noteq> BDM_CODE_OK then Some (None, w') else Some (Some a, w') })"

end
