(* ===== verification/Tiling.thy ===== *)
theory Tiling
  imports Prelude
begin

text \<open>
  Dividing the units \<open>0 ..< n\<close> into consecutive chunks: \<open>H\<close> is the set of first units, \<open>len\<close>
  their lengths. The allocator only ever splits a chunk in two or joins two adjacent chunks;
  the lemmas here say that both keep the division gapless and free of overlaps.
\<close>

definition tiling :: "nat \<Rightarrow> nat set \<Rightarrow> (nat \<Rightarrow> nat) \<Rightarrow> bool" where
  "tiling n H len \<longleftrightarrow>
     (\<forall>k\<in>H. 0 < len k \<and> k + len k \<le> n) \<and>
     (\<forall>x<n. \<exists>k\<in>H. x \<in> seg k (len k)) \<and>
     (\<forall>j\<in>H. \<forall>k\<in>H. j < k \<longrightarrow> j + len j \<le> k)"

lemma tilingD:
  assumes "tiling n H len"
  shows "k \<in> H \<Longrightarrow> 0 < len k" "k \<in> H \<Longrightarrow> k + len k \<le> n" "k \<in> H \<Longrightarrow> k < n"
    "\<lbrakk>j \<in> H; k \<in> H; j < k\<rbrakk> \<Longrightarrow> j + len j \<le> k" "x < n \<Longrightarrow> \<exists>k\<in>H. x \<in> seg k (len k)"
proof -
  have "0 < len k \<and> k + len k \<le> n" if "k \<in> H" for k using assms that by (simp add: tiling_def)
  then show "k \<in> H \<Longrightarrow> 0 < len k" "k \<in> H \<Longrightarrow> k + len k \<le> n" "k \<in> H \<Longrightarrow> k < n" by force+
qed (use assms in \<open>simp_all add: tiling_def\<close>)

lemma tiling_subset: "tiling n H len \<Longrightarrow> H \<subseteq> {..<n}"
  using tilingD(3) [of n H len] by auto

lemma tiling_finite: "tiling n H len \<Longrightarrow> finite H"
  by (rule finite_subset [OF tiling_subset]) simp_all

lemma tiling_cong: "(\<And>k. k \<in> H \<Longrightarrow> len k = len' k) \<Longrightarrow> tiling n H len = tiling n H len'"
  by (auto simp: tiling_def)

lemma tiling_empty [simp]: "tiling 0 {} len"
  by (simp add: tiling_def)

lemma tiling_whole: "0 < n \<Longrightarrow> len 0 = n \<Longrightarrow> tiling n {0} len"
  by (auto simp: tiling_def)

lemma tiling_extend:
  assumes "tiling n H len" "0 < l" "len' n = l" "\<And>k. k \<in> H \<Longrightarrow> len' k = len k"
  shows "tiling (n + l) (insert n H) len'"
  unfolding tiling_def
proof (intro conjI allI ballI impI)
  fix x assume "x < n + l"
  show "\<exists>k\<in>insert n H. x \<in> seg k (len' k)"
  proof (cases "x < n")
    case True
    with tilingD(5) [OF assms(1)] obtain k where "k \<in> H" "x \<in> seg k (len k)" by blast
    with assms(4) show ?thesis by (intro bexI [of _ k]) auto
  next
    case False
    with \<open>x < n + l\<close> assms(3) show ?thesis by (intro bexI [of _ n]) auto
  qed
next
  fix k assume "k \<in> insert n H"
  then show "0 < len' k" "k + len' k \<le> n + l"
    using assms tilingD(1,2) [OF assms(1), of k] by fastforce+
next
  fix j k assume "j \<in> insert n H" "k \<in> insert n H" "j < k"
  then show "j + len' j \<le> k"
    using assms tilingD(2,3,4) [OF assms(1), of j] tilingD(3) [OF assms(1), of k] by fastforce
qed

lemma tiling_zero: "tiling n H len \<Longrightarrow> 0 < n \<Longrightarrow> 0 \<in> H"
  using tilingD(5) [of n H len 0] by auto

lemma tiling_next:
  assumes "tiling n H len" "k \<in> H" "k + len k < n"
  shows "k + len k \<in> H"
proof -
  obtain j where j: "j \<in> H" "j \<le> k + len k" "k + len k < j + len j"
    using tilingD(5) [OF assms(1,3)] by auto
  have "\<not> j < k" using tilingD(4) [OF assms(1) j(1) assms(2)] j(3) by auto
  moreover have "j \<noteq> k" using j(3) by auto
  ultimately have "k + len k \<le> j" using tilingD(4) [OF assms(1,2) j(1)] by auto
  with j show ?thesis by auto
qed

lemma tiling_unique:
  assumes "tiling n H len" "j \<in> H" "k \<in> H" "x \<in> seg j (len j)" "x \<in> seg k (len k)"
  shows "j = k"
proof (rule ccontr)
  assume "j \<noteq> k"
  then have "j + len j \<le> k \<or> k + len k \<le> j"
    using tilingD(4) [OF assms(1-3)] tilingD(4) [OF assms(1) assms(3,2)] by linarith
  with assms(4,5) show False by auto
qed

lemma tiling_disjoint:
  "tiling n H len \<Longrightarrow> j \<in> H \<Longrightarrow> k \<in> H \<Longrightarrow> j \<noteq> k \<Longrightarrow> seg j (len j) \<inter> seg k (len k) = {}"
  using tiling_unique by blast

lemma tiling_split:
  assumes t: "tiling n H len" and "k \<in> H" "0 < l" "l < len k"
  shows "tiling n (insert (k + l) H) (len(k := l, k + l := len k - l))" (is "tiling n ?H ?len")
  unfolding tiling_def
proof (intro conjI allI ballI impI)
  have old: "j \<in> H \<Longrightarrow> j \<noteq> k + l" for j
    using tiling_unique [OF t, of j k "k + l"] tilingD(1) [OF t, of j] assms by auto
  fix j assume "j \<in> ?H"
  then show "0 < ?len j" "j + ?len j \<le> n"
    using tilingD(1,2) [OF t, of j] tilingD(2) [OF t \<open>k \<in> H\<close>] assms by auto
  {
    fix i assume "i \<in> ?H" "j < i"
    then show "j + ?len j \<le> i"
      using tilingD(4) [OF t, of j i] tilingD(4) [OF t, of k i] tilingD(4) [OF t, of j k]
        tilingD(4) [OF t, of k j] \<open>j \<in> ?H\<close> assms by (cases "j < k") (auto dest: old)
  }
next
  fix x assume "x < n"
  with tilingD(5) [OF t] obtain j where "j \<in> H" "x \<in> seg j (len j)" by blast
  moreover have "x \<in> seg k (len k) \<Longrightarrow> x \<in> seg k l \<or> x \<in> seg (k + l) (len k - l)" by auto
  moreover have "j \<in> H \<Longrightarrow> j \<noteq> k + l" for j
    using tiling_unique [OF t, of j k "k + l"] tilingD(1) [OF t, of j] assms by auto
  ultimately show "\<exists>j\<in>?H. x \<in> seg j (?len j)" using assms
    by (cases "j = k") (auto intro: bexI [of _ j])
qed

lemma tiling_join:
  assumes t: "tiling n H len" and "j \<in> H" "j + len j \<in> H"
  shows "tiling n (H - {j + len j}) (len(j := len j + len (j + len j)))" (is "tiling n ?H ?len")
  unfolding tiling_def
proof (intro conjI allI ballI impI)
  fix i assume i: "i \<in> ?H"
  then show "0 < ?len i" "i + ?len i \<le> n"
    using tilingD(1,2) [OF t, of i] tilingD(2) [OF t \<open>j + len j \<in> H\<close>] by (auto split: if_splits)
  fix i' assume i': "i' \<in> ?H" "i < i'"
  show "i + ?len i \<le> i'"
  proof (cases "i = j")
    case True
    then have "j + len j \<le> i'" using tilingD(4) [OF t, of j i'] i i' assms by auto
    with i' have "j + len j < i'" by auto
    then show ?thesis using tilingD(4) [OF t assms(3), of i'] i' True by auto
  next
    case False
    then show ?thesis using tilingD(4) [OF t, of i i'] i i' by auto
  qed
next
  fix x assume "x < n"
  with tilingD(5) [OF t] obtain i where "i \<in> H" "x \<in> seg i (len i)" by blast
  moreover have "0 < len j" using tilingD(1) [OF t assms(2)] .
  ultimately show "\<exists>i\<in>?H. x \<in> seg i (?len i)" using assms(2)
    by (cases "i = j + len j") (auto intro: bexI [of _ i] bexI [of _ j])
qed

lemma tiling_sum:
  assumes "tiling n H len"
  shows "(\<Sum>k\<in>H. len k) = n"
proof -
  have "(\<Sum>k\<in>H. len k) = (\<Sum>k\<in>H. card (seg k (len k)))" by (simp add: seg_def)
  also have "\<dots> = card (\<Union>k\<in>H. seg k (len k))"
    using tiling_finite [OF assms] tiling_disjoint [OF assms]
    by (subst card_UN_disjoint) auto
  also have "(\<Union>k\<in>H. seg k (len k)) = {..<n}"
    using tilingD(5) [OF assms] tilingD(2) [OF assms] by fastforce
  finally show ?thesis by simp
qed

end
