(* ===== verification/BdmAllocatorInv.thy ===== *)
theory BdmAllocatorInv
  imports BdmAllocator Tiling
begin

text \<open>
  What the allocator keeps: the invariant that ties the tree, the free lists, the chunk array
  and the two copies of the metadata table (in memory and on the disk) to an abstract state, the
  map from used chunks to their length and owner. This theory holds the invariant, the contract
  of the metadata store, and the lemmas about the building blocks of the operations.
\<close>

section \<open>Free lists\<close>

definition lists_ok :: "nat set \<Rightarrow> (nat \<Rightarrow> nat) \<Rightarrow> (nat \<Rightarrow> nat list) \<Rightarrow> (nat \<Rightarrow> nat) \<Rightarrow> bool" where
  "lists_ok F len fl fc \<longleftrightarrow>
     F \<subseteq> {..<2 ^ 63} \<and>
     (\<forall>i. distinct (fl i) \<and> set (fl i) = {k \<in> F. min (len k) BDM_FREE_LIST_NUM - 1 = i} \<and>
          fc i = length (fl i))"

lemma lists_okD:
  assumes "lists_ok F len fl fc"
  shows "distinct (fl i)" "set (fl i) = {k \<in> F. min (len k) BDM_FREE_LIST_NUM - 1 = i}"
    "fc i = length (fl i)" "F \<subseteq> {..<2 ^ 63}"
  using assms by (auto simp: lists_ok_def)

lemma lists_ok_cong:
  "(\<And>k. k \<in> F \<Longrightarrow> len k = len' k) \<Longrightarrow> lists_ok F len fl fc = lists_ok F len' fl fc"
proof -
  assume "\<And>k. k \<in> F \<Longrightarrow> len k = len' k"
  then have "{k \<in> F. min (len k) BDM_FREE_LIST_NUM - 1 = i} =
             {k \<in> F. min (len' k) BDM_FREE_LIST_NUM - 1 = i}" for i by auto
  then show ?thesis by (simp add: lists_ok_def)
qed

lemma lists_ok_empty: "lists_ok {} len (\<lambda>_. []) (\<lambda>_. 0)"
  by (simp add: lists_ok_def)

lemma lists_ok_length: "lists_ok F len fl fc \<Longrightarrow> length (fl i) \<le> 2 ^ 63"
proof -
  assume ok: "lists_ok F len fl fc"
  then have "set (fl i) \<subseteq> {..<2 ^ 63}" using lists_okD(2,4) by fastforce
  then have "card (set (fl i)) \<le> card {..<(2::nat) ^ 63}" by (intro card_mono) auto
  then show ?thesis using distinct_card [OF lists_okD(1) [OF ok]] by simp
qed

lemma FreeListDel_ok:
  assumes ok: "lists_ok F (clen a) (freeL a) (freeC a)" and k: "k \<in> F" "0 < clen a k"
  shows "\<exists>fl fc. FreeListDel k a = Some (a\<lparr>freeL := fl, freeC := fc\<rparr>) \<and>
                 lists_ok (F - {k}) (clen a) fl fc"
proof -
  define i where "i = min (clen a k) BDM_FREE_LIST_NUM - 1"
  define fl where "fl = (\<lambda>j. remove1 k (freeL a j))"
  define fc where "fc = (freeC a)(i := sub64 (freeC a i) 1)"
  have mem: "k \<in> set (freeL a j) \<longleftrightarrow> j = i" for j
    using lists_okD(2) [OF ok, of j] k by (auto simp: i_def)
  from mem [of i] have pos: "1 \<le> length (freeL a i)" by (cases "freeL a i") auto
  have cnt: "fc i = length (freeL a i) - 1"
    using lists_ok_length [OF ok, of i] lists_okD(3) [OF ok, of i] pos
    by (simp add: fc_def sub64_exact)
  have "lists_ok (F - {k}) (clen a) fl fc"
    unfolding lists_ok_def
  proof (intro conjI allI)
    fix j
    show "distinct (fl j)" using lists_okD(1) [OF ok, of j] by (simp add: fl_def)
    show "set (fl j) = {n \<in> F - {k}. min (clen a n) BDM_FREE_LIST_NUM - 1 = j}"
      using lists_okD(1,2) [OF ok, of j] by (auto simp: fl_def)
    show "fc j = length (fl j)"
      using lists_okD(3) [OF ok, of j] mem [of j] cnt
      by (cases "j = i") (auto simp: fl_def fc_def length_remove1)
  qed (use lists_okD(4) [OF ok] in auto)
  moreover have "FreeListDel k a = Some (a\<lparr>freeL := fl, freeC := fc\<rparr>)"
    using k by (simp add: FreeListDel_def freeIndex_def DListDel_def fl_def fc_def i_def)
  ultimately show ?thesis by blast
qed

lemma FreeListAdd_ok:
  assumes ok: "lists_ok F (clen a) (freeL a) (freeC a)"
    and k: "k \<notin> F" "0 < clen a k" "k < 2 ^ 63"
  shows "\<exists>fl fc. FreeListAdd k a = Some (a\<lparr>freeL := fl, freeC := fc\<rparr>) \<and>
                 lists_ok (insert k F) (clen a) fl fc"
proof -
  define i where "i = min (clen a k) BDM_FREE_LIST_NUM - 1"
  define fl where "fl = (freeL a)(i := freeL a i @ [k])"
  define fc where "fc = (freeC a)(i := add64 (freeC a i) 1)"
  have cnt: "fc i = Suc (length (freeL a i))"
    using lists_ok_length [OF ok, of i] lists_okD(3) [OF ok, of i]
    by (simp add: fc_def add64_exact)
  have "lists_ok (insert k F) (clen a) fl fc"
    unfolding lists_ok_def
  proof (intro conjI allI)
    fix j
    show "distinct (fl j)" using lists_okD(1,2) [OF ok] k by (simp add: fl_def)
    show "set (fl j) = {n \<in> insert k F. min (clen a n) BDM_FREE_LIST_NUM - 1 = j}"
      using lists_okD(2) [OF ok, of j] by (auto simp: fl_def i_def)
    show "fc j = length (fl j)"
      using lists_okD(3) [OF ok, of j] cnt by (cases "j = i") (auto simp: fl_def fc_def)
  qed (use lists_okD(4) [OF ok] k in auto)
  moreover have "FreeListAdd k a = Some (a\<lparr>freeL := fl, freeC := fc\<rparr>)"
    using k by (simp add: FreeListAdd_def freeIndex_def fl_def fc_def i_def)
  ultimately show ?thesis by blast
qed

text \<open>The same for the states in the middle of an operation.\<close>

lemma FreeListDel_mid:
  assumes "lists_ok F ln fl1 fc1" "k \<in> F" "0 < ln k"
  shows "\<exists>fl fc. FreeListDel k (a\<lparr>freeL := fl1, freeC := fc1, clen := ln\<rparr>) =
                   Some (a\<lparr>freeL := fl, freeC := fc, clen := ln\<rparr>) \<and> lists_ok (F - {k}) ln fl fc"
  using FreeListDel_ok [of F "a\<lparr>freeL := fl1, freeC := fc1, clen := ln\<rparr>" k] assms by (cases a) auto

lemma FreeListAdd_mid:
  assumes "lists_ok F ln fl1 fc1" "k \<notin> F" "0 < ln k" "k < 2 ^ 63"
  shows "\<exists>fl fc. FreeListAdd k (a\<lparr>freeL := fl1, freeC := fc1, clen := ln\<rparr>) =
                   Some (a\<lparr>freeL := fl, freeC := fc, clen := ln\<rparr>) \<and> lists_ok (insert k F) ln fl fc"
  using FreeListAdd_ok [of F "a\<lparr>freeL := fl1, freeC := fc1, clen := ln\<rparr>" k] assms by (cases a) auto

section \<open>Finding the place of a chunk\<close>

text \<open>
  \<open>descend\<close> on a sorted tree whose areas do not meet the new one: it ends at a neighbour, or
  at the leaf where the new area belongs.
\<close>

definition place_ok :: "(nat \<Rightarrow> nat) \<Rightarrow> nat \<Rightarrow> nat rbt \<Rightarrow> place \<Rightarrow> bool" where
  "place_ok len k t r \<longleftrightarrow>
     (case r of
        After x \<Rightarrow> x \<in> set (inorder t) \<and> k = x + len x
      | Before x \<Rightarrow> x \<in> set (inorder t) \<and> x = k + len k
      | Overlap \<Rightarrow> False
      | Slot p \<Rightarrow> t = plug Leaf p \<and> (\<forall>x\<in>set (before p). x < k) \<and> (\<forall>x\<in>set (after p). k < x))"

lemma descend_ok:
  assumes "sorted_wrt (<) (inorder (plug t p))"
    and "\<forall>x\<in>set (inorder t). idx x = x \<and> 0 < len x \<and> x + len x < 2 ^ 64 \<and>
           (x + len x \<le> k \<or> k + len k \<le> x)"
    and "idx k = k" "0 < len k" "k + len k < 2 ^ 64"
    and "\<forall>x\<in>set (before p). x < k" "\<forall>x\<in>set (after p). k < x"
  shows "place_ok len k (plug t p) (descend idx len k t p)"
  using assms
proof (induction idx len k t p rule: descend.induct)
  case (1 idx len node p)
  then show ?case by (simp add: place_ok_def)
next
  case (2 idx len k c l x r p)
  have x: "idx x = x" "0 < len x" "x + len x < 2 ^ 64" "x + len x \<le> k \<or> k + len k \<le> x"
    using "2.prems"(2) by auto
  have e: "add64 (idx x) (len x) = x + len x" "add64 (idx k) (len k) = k + len k"
    using x "2.prems"(3,5) by (auto simp: add64_exact)
  have sorted: "\<forall>y\<in>set (inorder l). y < x" "\<forall>y\<in>set (inorder r). x < y"
    using "2.prems"(1) by (auto simp: sorted_wrt_append)
  consider "k = x + len x" | "x = k + len k" | "k + len k < x" | "x + len x < k" using x(4) by linarith
  then show ?case
  proof cases
    case 1
    then show ?thesis using e "2.prems"(3) by (simp add: place_ok_def)
  next
    case 2
    then show ?thesis using e "2.prems"(3,4) x by (simp add: place_ok_def)
  next
    case 3
    have "place_ok len k (plug l (LeftOf c x r # p)) (descend idx len k l (LeftOf c x r # p))"
    proof (rule "2.IH"(1))
      show "\<forall>x\<in>set (after (LeftOf c x r # p)). k < x"
        using 3 sorted "2.prems"(7) by fastforce
    qed (use 3 e x "2.prems" in auto)
    then show ?thesis using e x 3 "2.prems"(3,4) by simp
  next
    case 4
    have "place_ok len k (plug r (RightOf c x l # p)) (descend idx len k r (RightOf c x l # p))"
    proof (rule "2.IH"(2))
      show "\<forall>y\<in>set (before (RightOf c x l # p)). y < k"
        using 4 sorted "2.prems"(6) by fastforce
    qed (use 4 e x "2.prems" in auto)
    then show ?thesis using e x 4 "2.prems"(3,4) by simp
  qed
qed

section \<open>Metadata\<close>

abbreviation free_rec :: "nat \<Rightarrow> chunk_meta" where
  "free_rec l \<equiv> \<lparr>mhead = True, mfree = True, mrestore = True, mlength = l, mbucketId = 0, mbucketOffset = 0\<rparr>"

fun used_rec :: "nat \<times> nat \<times> nat \<Rightarrow> chunk_meta" where
  "used_rec (l, b, off) =
     \<lparr>mhead = True, mfree = False, mrestore = True, mlength = l, mbucketId = b, mbucketOffset = off\<rparr>"

text \<open>The records from \<open>i\<close> on describe free chunks that end exactly at \<open>e\<close>.\<close>

inductive free_run :: "(nat \<Rightarrow> chunk_meta) \<Rightarrow> nat \<Rightarrow> nat \<Rightarrow> bool" for m where
  free_run_end: "free_run m e e"
| free_run_step: "\<lbrakk>mhead (m i); mfree (m i); 0 < mlength (m i); free_run m (i + mlength (m i)) e\<rbrakk>
    \<Longrightarrow> free_run m i e"

lemma free_run_le: "free_run m i e \<Longrightarrow> i \<le> e"
  by (induction rule: free_run.induct) auto

lemma free_run_cong:
  "free_run m i e \<Longrightarrow> (\<And>x. i \<le> x \<Longrightarrow> x < e \<Longrightarrow> m' x = m x) \<Longrightarrow> free_run m' i e"
proof (induction rule: free_run.induct)
  case (free_run_step i e)
  from free_run_le [OF free_run_step(4)] free_run_step(3) have "i < e" by simp
  with free_run_step.prems have eq: "m' i = m i" by simp
  have "free_run m' (i + mlength (m i)) e"
    using free_run_step.IH free_run_step.prems by simp
  with eq free_run_step.hyps show ?case by (auto intro: free_run.free_run_step)
qed (rule free_run_end)

lemma free_run_trans: "free_run m i j \<Longrightarrow> free_run m j e \<Longrightarrow> free_run m i e"
  by (induction rule: free_run.induct) (auto intro: free_run.free_run_step)

lemma free_run_tile: "m i = free_rec l \<Longrightarrow> 0 < l \<Longrightarrow> e = i + l \<Longrightarrow> free_run m i e"
  by (rule free_run.free_run_step) (auto intro: free_run_end)

definition runs :: "nat set \<Rightarrow> (nat \<Rightarrow> nat) \<Rightarrow> (nat \<Rightarrow> chunk_meta) \<Rightarrow> bool" where
  "runs F len m \<longleftrightarrow> (\<forall>k\<in>F. free_run m k (k + len k))"

lemma runs_cong:
  assumes "runs F len m" "\<And>k. k \<in> F \<Longrightarrow> len' k = len k"
    "\<And>k x. k \<in> F \<Longrightarrow> x \<in> seg k (len k) \<Longrightarrow> m' x = m x"
  shows "runs F len' m'"
  using assms unfolding runs_def by (fastforce intro: free_run_cong)

section \<open>The metadata store\<close>

text \<open>The values a \<open>BdmChunkMeta\<close> can hold.\<close>

definition wf_meta :: "chunk_meta \<Rightarrow> bool" where
  "wf_meta m \<longleftrightarrow> mlength m < 2 ^ 21 \<and> mbucketId m < 2 ^ 64 \<and> mbucketOffset m < 2 ^ 64"

text \<open>
  The contract the allocator relies on: a record written for unit \<open>i\<close> is what a later read of
  the table delivers for unit \<open>i\<close>, and writing it changes no other record. \<open>content\<close> is the
  table the world holds, \<open>good\<close> says that the device works.
\<close>

locale meta_store =
  fixes wr :: "'w \<Rightarrow> nat \<Rightarrow> chunk_meta \<Rightarrow> nat \<Rightarrow> int \<times> 'w"
    and rd :: "'w \<Rightarrow> nat \<Rightarrow> nat \<Rightarrow> int \<times> (nat \<Rightarrow> chunk_meta) \<times> 'w"
    and content :: "'w \<Rightarrow> nat \<Rightarrow> chunk_meta"
    and good :: "'w \<Rightarrow> bool"
    and num :: nat
  assumes wr_law: "\<lbrakk>good w; i < num; wf_meta m\<rbrakk> \<Longrightarrow>
      \<exists>w'. wr w (i * sizeof_BdmChunkMeta) m sizeof_BdmChunkMeta = (BDM_CODE_OK, w') \<and> good w' \<and>
           content w' = (content w)(i := m)"
    and rd_law: "good w \<Longrightarrow>
      \<exists>tab w'. rd w 0 (sizeof_BdmChunkMeta * num) = (BDM_CODE_OK, tab, w') \<and> good w' \<and>
           content w' = content w \<and> (\<forall>i<num. tab i = content w i)"
begin

definition wired :: "'w alloc \<Rightarrow> 'w \<Rightarrow> bool" where
  "wired a w \<longleftrightarrow> metaOps a = \<lparr>writeMeta = Some wr, readMeta = Some rd\<rparr> \<and> chunkNum a = num \<and>
     num < 2 ^ 21 \<and> good w"

lemma UpdateMeta_ok:
  assumes "wired a w" "cidx a k = k" "k < num" "clen a k \<le> num" "b < 2 ^ 64" "off < 2 ^ 64"
    and r: "r = \<lparr>mhead = True, mfree = f, mrestore = True, mlength = clen a k, mbucketId = b, mbucketOffset = off\<rparr>"
  shows "\<exists>w'. BdmAllocatorUpdateMeta b off k f a w = Some (BDM_CODE_OK, a\<lparr>metas := (metas a)(k := r)\<rparr>, w') \<and>
           good w' \<and> content w' = (content w)(k := r)"
proof -
  have len: "clen a k mod 2 ^ 21 = clen a k" using assms by (simp add: wired_def)
  have "wf_meta r" using assms by (simp add: wired_def wf_meta_def)
  from wr_law [OF _ assms(3) this, of w] obtain w' where
    "wr w (k * sizeof_BdmChunkMeta) r sizeof_BdmChunkMeta = (BDM_CODE_OK, w')" "good w'"
    "content w' = (content w)(k := r)" using assms(1) by (auto simp: wired_def)
  with assms len show ?thesis
    by (simp add: BdmAllocatorUpdateMeta_def wired_def Let_def)
qed

end

section \<open>The invariant\<close>

abbreviation free_heads :: "'w alloc \<Rightarrow> nat set" where
  "free_heads a \<equiv> set (inorder (tree a))"

text \<open>The structure in memory: \<open>V\<close> are the heads of used chunks, \<open>n\<close> the units accounted for.\<close>

definition shape :: "nat \<Rightarrow> nat set \<Rightarrow> 'w alloc \<Rightarrow> bool" where
  "shape n V a \<longleftrightarrow>
     rb (tree a) \<and> sorted_wrt (<) (inorder (tree a)) \<and>
     lists_ok (free_heads a) (clen a) (freeL a) (freeC a) \<and>
     free_heads a \<inter> V = {} \<and> tiling n (free_heads a \<union> V) (clen a) \<and>
     (\<forall>k\<in>free_heads a \<union> V. cidx a k = k) \<and> n \<le> chunkNum a \<and> chunkNum a < 2 ^ 21"

lemma shapeD:
  assumes "shape n V a"
  shows "rb (tree a)" "sorted_wrt (<) (inorder (tree a))"
    "lists_ok (free_heads a) (clen a) (freeL a) (freeC a)"
    "k \<in> free_heads a \<Longrightarrow> k \<notin> V" "tiling n (free_heads a \<union> V) (clen a)"
    "k \<in> free_heads a \<Longrightarrow> cidx a k = k" "k \<in> V \<Longrightarrow> cidx a k = k"
    "n \<le> chunkNum a" "chunkNum a < 2 ^ 21"
  using assms by (auto simp: shape_def)

lemma shape_bounds:
  assumes "shape n V a" "k \<in> free_heads a \<or> k \<in> V"
  shows "0 < clen a k" "k + clen a k \<le> n" "k < n"
  using tilingD(1-3) [OF shapeD(5) [OF assms(1)], of k] assms(2) by auto

lemma sorted_distinct: "sorted_wrt (<) (xs :: nat list) \<Longrightarrow> distinct xs"
  using strict_sorted_iff by blast

text \<open>What an operation may change of the allocator while it links a chunk.\<close>

definition same_frame :: "'w alloc \<Rightarrow> 'w alloc \<Rightarrow> bool" where
  "same_frame a b \<longleftrightarrow>
     b = a\<lparr>freeL := freeL b, freeC := freeC b, clen := clen b, metas := metas b, tree := tree b\<rparr>"

lemma same_frameD:
  assumes "same_frame a b"
  shows "metaOps b = metaOps a" "minChunkSize b = minChunkSize a" "maxChunkSize b = maxChunkSize a"
    "totalSize b = totalSize a" "usedSize b = usedSize a" "scanIndex b = scanIndex a"
    "chunkNum b = chunkNum a" "cidx b = cidx a"
  using assms by (subst assms [unfolded same_frame_def], simp)+

text \<open>The fields no operation on chunks touches.\<close>

definition same_config :: "'w alloc \<Rightarrow> 'w alloc \<Rightarrow> bool" where
  "same_config a b \<longleftrightarrow>
     metaOps b = metaOps a \<and> minChunkSize b = minChunkSize a \<and> maxChunkSize b = maxChunkSize a \<and>
     totalSize b = totalSize a \<and> scanIndex b = scanIndex a \<and> chunkNum b = chunkNum a"

lemma same_frame_config: "same_frame a b \<Longrightarrow> same_config a b"
  by (simp add: same_config_def same_frameD)

end
