(* ===== verification/BdmAllocatorFree.thy ===== *)
theory BdmAllocatorFree
  imports BdmAllocatorInv
begin

text \<open>
  Linking a chunk into the free structure: the branches of \<open>BdmAllocatorInsertCallback\<close>
  (joining with the following area, with the preceding one, with both, or none), and
  \<open>BdmAllocatorInsert\<close> and \<open>BdmAllocatorRestoreInsert\<close> built on it.
\<close>

section \<open>The division of the units\<close>

lemma sorted_split_less:
  assumes "sorted_wrt (<) (xs @ (x::nat) # ys)"
  shows "y \<in> set xs \<Longrightarrow> y < x" "y \<in> set ys \<Longrightarrow> x < y" "x \<notin> set xs" "x \<notin> set ys"
  using assms by (auto simp: sorted_wrt_append)

lemma shape_before:
  assumes s: "shape n V a" and k: "k \<in> V" and x: "x \<in> free_heads a" "x = k + clen a k"
    and io: "inorder (tree a) = xs @ x # ys"
    and b: "rb t" "inorder t = xs @ k # ys" "lists_ok (insert k (free_heads a - {x})) ln fl fc"
    and ln: "ln = (clen a)(k := clen a k + clen a x)"
  shows "shape n (V - {k}) (a\<lparr>freeL := fl, freeC := fc, clen := ln, metas := ms, tree := t\<rparr>)"
proof -
  have srt: "sorted_wrt (<) (xs @ x # ys)" using shapeD(2) [OF s] io by simp
  have kF: "k \<notin> free_heads a" using shapeD(4) [OF s] k by auto
  have "y < k" if "y \<in> set xs" for y
  proof -
    have "y < x" "y \<in> free_heads a" using that srt io by (auto simp: sorted_wrt_append)
    moreover have "\<not> k < y"
      using tilingD(4) [OF shapeD(5) [OF s], of k y] k x \<open>y < x\<close> \<open>y \<in> free_heads a\<close> by auto
    ultimately show ?thesis using kF by (cases "y = k") auto
  qed
  moreover have "k < y" if "y \<in> set ys" for y
    using sorted_split_less(2) [OF srt that] x by simp
  ultimately have "sorted_wrt (<) (inorder t)" using srt b(2) by (auto simp: sorted_wrt_append)
  moreover have F': "set (inorder t) = insert k (free_heads a - {x})"
    using b(2) io sorted_split_less(3,4) [OF srt] by auto
  moreover have "insert k (free_heads a - {x}) \<union> (V - {k}) = (free_heads a \<union> V) - {x}"
    using k kF x(1) shapeD(4) [OF s] by auto
  moreover have "tiling n ((free_heads a \<union> V) - {x}) ln"
    using tiling_join [OF shapeD(5) [OF s], of k] k x ln by simp
  moreover have "insert k (free_heads a - {x}) \<inter> (V - {k}) = {}"
    using shapeD(4) [OF s] by auto
  ultimately show ?thesis
    using b shapeD(6-9) [OF s] k by (auto simp: shape_def)
qed

lemma shape_after:
  assumes s: "shape n V a" and k: "k \<in> V" "k = x + clen a x" and x: "x \<in> free_heads a"
    and l: "lists_ok (free_heads a) ln fl fc" and ln: "ln = (clen a)(x := clen a x + clen a k)"
  shows "shape n (V - {k}) (a\<lparr>freeL := fl, freeC := fc, clen := ln, metas := ms\<rparr>)"
proof -
  have "free_heads a \<union> (V - {k}) = (free_heads a \<union> V) - {x + clen a x}"
    using k shapeD(4) [OF s] by auto
  moreover have "tiling n ((free_heads a \<union> V) - {x + clen a x}) ln"
    using tiling_join [OF shapeD(5) [OF s], of x] k x ln by simp
  ultimately show ?thesis
    using l shapeD(1-4,6-9) [OF s] by (auto simp: shape_def)
qed

lemma shape_both:
  assumes s: "shape n V a" and k: "k \<in> V" "k = x + clen a x" and x: "x \<in> free_heads a"
    and y: "y \<in> free_heads a" "y = k + clen a k"
    and b: "rb t" "inorder t = remove1 y (inorder (tree a))" "lists_ok (free_heads a - {y}) ln fl fc"
    and ln: "ln = (clen a)(x := clen a x + clen a k + clen a y)"
  shows "shape n (V - {k}) (a\<lparr>freeL := fl, freeC := fc, clen := ln, metas := ms, tree := t\<rparr>)"
proof -
  let ?H = "free_heads a \<union> V" and ?l1 = "(clen a)(x := clen a x + clen a k)"
  have pos: "0 < clen a x" "0 < clen a k" using shape_bounds(1) [OF s] k x by auto
  then have ne: "y \<noteq> x" "k \<noteq> x" "y \<noteq> k" using k y by auto
  have t1: "tiling n (?H - {k}) ?l1"
    using tiling_join [OF shapeD(5) [OF s], of x] k x by simp
  have "tiling n (?H - {k} - {y}) (?l1(x := ?l1 x + ?l1 y))"
    using tiling_join [OF t1, of x] k x y ne by (simp add: ac_simps)
  moreover have "?l1(x := ?l1 x + ?l1 y) = ln" using ln ne by auto
  moreover have "?H - {k} - {y} = (free_heads a - {y}) \<union> (V - {k})"
    using k y shapeD(4) [OF s] by auto
  moreover have d: "set (inorder t) = free_heads a - {y}"
    using sorted_distinct [OF shapeD(2) [OF s]] b(2) by simp
  moreover have "sorted_wrt (<) (inorder t)"
    using shapeD(2) [OF s] b(2) sorted_remove1 [of "inorder (tree a)" y]
      distinct_remove1 [of "inorder (tree a)" y] by (simp add: strict_sorted_iff)
  ultimately show ?thesis using b shapeD(4,6-9) [OF s] by (auto simp: shape_def)
qed

lemma shape_slot:
  assumes s: "shape n V a" and k: "k \<in> V"
    and b: "rb t" "inorder t = xs @ k # ys" "inorder (tree a) = xs @ ys"
      "\<forall>x\<in>set xs. x < k" "\<forall>x\<in>set ys. k < x"
      "lists_ok (insert k (free_heads a)) (clen a) fl fc"
  shows "shape n (V - {k}) (a\<lparr>freeL := fl, freeC := fc, tree := t\<rparr>)"
proof -
  have "sorted_wrt (<) (inorder t)"
    using shapeD(2) [OF s] b by (auto simp: sorted_wrt_append)
  moreover have "set (inorder t) = insert k (free_heads a)" using b by auto
  moreover have "insert k (free_heads a) \<union> (V - {k}) = free_heads a \<union> V" using k by auto
  moreover have "insert k (free_heads a) \<inter> (V - {k}) = {}" using shapeD(4) [OF s] by auto
  ultimately show ?thesis using b shapeD(5-9) [OF s] k by (auto simp: shape_def)
qed

section \<open>The records\<close>

lemma shape_seg_disjoint:
  assumes "shape n V a" "j \<in> free_heads a \<union> V" "k \<in> free_heads a \<union> V" "j \<noteq> k" "x \<in> seg j (clen a j)"
  shows "x \<notin> seg k (clen a k)"
  using tiling_unique [OF shapeD(5) [OF assms(1)] assms(2,3)] assms(4,5) by blast

lemma free_seg_used:
  assumes "shape n V a" "j \<in> free_heads a" "k \<in> V" "x \<in> seg j (clen a j)"
  shows "x \<noteq> k"
proof -
  have "j \<noteq> k" using shapeD(4) [OF assms(1,2)] assms(3) by auto
  then have "x \<notin> seg k (clen a k)" using shape_seg_disjoint [OF assms(1), of j k x] assms by auto
  with shape_bounds(1) [OF assms(1), of k] assms(3) show ?thesis by auto
qed

lemma runs_frame:
  assumes s: "shape n V a" and k: "k \<in> V" and r: "runs (free_heads a) (clen a) m"
    and F: "F \<subseteq> free_heads a"
  shows "runs F (clen a) (m(k := r'))"
proof (rule runs_cong [of F "clen a" m])
  show "runs F (clen a) m" using r F by (auto simp: runs_def)
  fix j x assume "j \<in> F" "x \<in> seg j (clen a j)"
  with F have "x \<noteq> k" by (intro free_seg_used [OF s _ k, of j]) auto
  then show "(m(k := r')) x = m x" by simp
qed simp

lemma runs_before:
  assumes s: "shape n V a" and k: "k \<in> V" and x: "x = k + clen a k"
    and r: "runs (free_heads a) (clen a) m" and l: "l = clen a k + clen a x"
  shows "runs (insert k (free_heads a - {x})) ((clen a)(k := l)) (m(k := free_rec l))"
proof -
  have "free_run (m(k := free_rec l)) k (k + l)"
    using shape_bounds(1) [OF s, of k] k l by (intro free_run_tile) auto
  moreover have "runs (free_heads a - {x}) (clen a) (m(k := free_rec l))"
    by (rule runs_frame [OF s k r]) auto
  moreover have "k \<notin> free_heads a" using shapeD(4) [OF s] k by auto
  ultimately show ?thesis by (auto simp: runs_def)
qed

lemma runs_after:
  assumes s: "shape n V a" and k: "k \<in> V" "k = x + clen a x" and x: "x \<in> free_heads a"
    and r: "runs (free_heads a) (clen a) m"
  shows "runs (free_heads a) ((clen a)(x := clen a x + clen a k)) (m(k := free_rec (clen a k)))"
    (is "runs _ _ ?m")
proof -
  have old: "runs (free_heads a) (clen a) ?m"
    by (rule runs_frame [OF s k(1) r]) auto
  moreover have "free_run ?m k (k + clen a k)"
    using shape_bounds(1) [OF s, of k] k by (intro free_run_tile) auto
  ultimately have "free_run ?m x (x + (clen a x + clen a k))"
    using free_run_trans [of ?m x k] x k by (auto simp: runs_def ac_simps)
  with old show ?thesis by (auto simp: runs_def)
qed

lemma runs_both:
  assumes s: "shape n V a" and x: "x \<in> free_heads a" and r: "runs (free_heads a) (clen a) m"
    and l: "l = clen a x + d"
  shows "runs (free_heads a - {y}) ((clen a)(x := l)) (m(x := free_rec l))"
proof -
  have "free_run (m(x := free_rec l)) x (x + l)"
    using shape_bounds(1) [OF s, of x] x l by (intro free_run_tile) auto
  moreover have "runs (free_heads a - {x}) (clen a) (m(x := free_rec l))"
  proof (rule runs_cong [of _ "clen a" m])
    show "runs (free_heads a - {x}) (clen a) m" using r by (auto simp: runs_def)
    fix k z assume "k \<in> free_heads a - {x}" "z \<in> seg k (clen a k)"
    then have "z \<noteq> x"
      using shape_seg_disjoint [OF s, of k x z] x shape_bounds(1) [OF s, of x] by auto
    then show "(m(x := free_rec l)) z = m z" by simp
  qed auto
  ultimately show ?thesis by (auto simp: runs_def)
qed

lemma runs_slot:
  assumes s: "shape n V a" and k: "k \<in> V" and r: "runs (free_heads a) (clen a) m"
  shows "runs (insert k (free_heads a)) (clen a) (m(k := free_rec (clen a k)))"
    and "free_run m k (k + clen a k) \<Longrightarrow> runs (insert k (free_heads a)) (clen a) m"
proof -
  have "free_run (m(k := free_rec (clen a k))) k (k + clen a k)"
    using shape_bounds(1) [OF s, of k] k by (intro free_run_tile) auto
  moreover have "runs (free_heads a) (clen a) (m(k := free_rec (clen a k)))"
    by (rule runs_frame [OF s k r]) auto
  ultimately show "runs (insert k (free_heads a)) (clen a) (m(k := free_rec (clen a k)))"
    by (auto simp: runs_def)
  show "free_run m k (k + clen a k) \<Longrightarrow> runs (insert k (free_heads a)) (clen a) m"
    using r by (auto simp: runs_def)
qed

section \<open>The branches of the insert callback\<close>

context meta_store
begin

text \<open>
  Chunk \<open>k\<close> has become free: \<open>g\<close> is what the callback did to the records, in both copies of
  the table; with the record of \<open>k\<close> marked free, the records describe the new free areas.
\<close>

definition absorbed :: "nat \<Rightarrow> nat set \<Rightarrow> nat \<Rightarrow> 'w alloc \<Rightarrow> 'w \<Rightarrow> 'w alloc \<Rightarrow> 'w \<Rightarrow> bool" where
  "absorbed n V k a w a' w' \<longleftrightarrow>
     shape n (V - {k}) a' \<and> same_frame a a' \<and> good w' \<and> (\<forall>j\<in>V - {k}. clen a' j = clen a j) \<and>
     k + clen a' k \<le> n \<and>
     (\<exists>g. metas a' = g (metas a) \<and> content w' = g (content w) \<and>
          (\<forall>m j. j \<in> V - {k} \<or> n \<le> j \<longrightarrow> g m j = m j) \<and>
          (\<forall>m. runs (free_heads a) (clen a) m \<longrightarrow>
             runs (free_heads a') (clen a') ((g m)(k := free_rec (clen a' k))) \<and>
             (free_run m k (k + clen a k) \<longrightarrow> runs (free_heads a') (clen a') (g m))))"

lemma InsertPre_ok:
  assumes s: "shape n V a" and wi: "wired a w" and k: "k \<in> V"
    and x: "x \<in> free_heads a" "x = k + clen a k"
  shows "\<exists>a' w'. BdmAllocatorInsertPre k x a w = Some (BDM_CODE_OK, a', w') \<and> absorbed n V k a w a' w'"
proof -
  let ?F = "free_heads a" and ?l = "clen a k + clen a x"
  let ?ln = "(clen a)(k := ?l)"
  have b: "0 < clen a k" "0 < clen a x" "k < n" "x < n" "x + clen a x \<le> n" "n < 2 ^ 21" "n \<le> num"
    "chunkNum a = num"
    using shape_bounds [OF s, of k] shape_bounds [OF s, of x] k x shapeD(8,9) [OF s] wi
    by (auto simp: wired_def)
  have kF: "k \<notin> ?F" using shapeD(4) [OF s] k by auto
  from FreeListDel_ok [OF shapeD(3) [OF s] x(1)] b obtain fl1 fc1 where
    1: "FreeListDel x a = Some (a\<lparr>freeL := fl1, freeC := fc1\<rparr>)" "lists_ok (?F - {x}) (clen a) fl1 fc1"
    by auto
  have "lists_ok (?F - {x}) ?ln fl1 fc1"
    using 1(2) kF by (subst lists_ok_cong [of _ _ "clen a"]) auto
  with FreeListAdd_mid [of "?F - {x}" ?ln fl1 fc1 k a] b kF
  obtain fl fc where
    2: "FreeListAdd k (a\<lparr>freeL := fl1, freeC := fc1, clen := ?ln\<rparr>) =
          Some (a\<lparr>freeL := fl, freeC := fc, clen := ?ln\<rparr>)" "lists_ok (insert k (?F - {x})) ?ln fl fc"
    by auto
  from UpdateMeta_ok [of "a\<lparr>freeL := fl, freeC := fc, clen := ?ln\<rparr>" w k 0 0 "free_rec ?l" True]
    wi shapeD(7) [OF s k] b x obtain w' where
    3: "BdmAllocatorUpdateMeta 0 0 k True (a\<lparr>freeL := fl, freeC := fc, clen := ?ln\<rparr>) w =
          Some (BDM_CODE_OK, a\<lparr>freeL := fl, freeC := fc, clen := ?ln, metas := (metas a)(k := free_rec ?l)\<rparr>, w')"
    "good w'" "content w' = (content w)(k := free_rec ?l)" by (auto simp: wired_def)
  define t where "t = ngx_rbtree_replace (tree a) k x"
  define a' where "a' = a\<lparr>freeL := fl, freeC := fc, clen := ?ln, metas := (metas a)(k := free_rec ?l), tree := t\<rparr>"
  obtain xs ys where io: "inorder (tree a) = xs @ x # ys" using x(1) by (auto simp: in_set_conv_decomp)
  then have srt: "sorted_wrt (<) (xs @ x # ys)" using shapeD(2) [OF s] by simp
  have t: "rb t" "inorder t = xs @ k # ys"
    using shapeD(1) [OF s] rbi.repl_split [OF io sorted_split_less(3,4) [OF srt]] by (auto simp: t_def)
  have F': "free_heads a' = insert k (?F - {x})"
    using io t sorted_split_less(3,4) [OF srt] by (auto simp: a'_def)
  have "shape n (V - {k}) a'" unfolding a'_def
    by (rule shape_before [OF s k x io t 2(2) refl])
  moreover have "BdmAllocatorInsertPre k x a w = Some (BDM_CODE_OK, a', w')"
    using b 1(1) 2(1) 3(1) add64_exact [of "clen a k" "clen a x"] x
    by (simp add: BdmAllocatorInsertPre_def set_length_def Let_def a'_def t_def)
  moreover have "same_frame a a'" by (simp add: same_frame_def a'_def)
  moreover have "\<forall>m. runs ?F (clen a) m \<longrightarrow> runs (free_heads a') (clen a') (m(k := free_rec ?l))"
    unfolding F' using runs_before [OF s k x(2)] by (simp add: a'_def)
  ultimately show ?thesis using 3 b kF x
    by (intro exI [of _ a'] exI [of _ w'], unfold absorbed_def)
      (intro conjI exI [of _ "\<lambda>m. m(k := free_rec ?l)"], auto simp: a'_def)
qed

lemma InsertNext_tail_ok:
  assumes s: "shape n V a" and wi: "wired a w" and k: "k \<in> V" "k = x + clen a x" and x: "x \<in> free_heads a"
    and fl1: "lists_ok (free_heads a - {x}) (clen a) fl1 fc1" and ln: "ln = (clen a)(x := clen a x + clen a k)"
  shows "\<exists>a' w'. BdmAllocatorInsertNext_tail k x (a\<lparr>freeL := fl1, freeC := fc1, clen := ln\<rparr>) w =
                   Some (BDM_CODE_OK, None, a', w') \<and> absorbed n V k a w a' w' \<and> tree a' = tree a"
proof -
  let ?F = "free_heads a"
  have b: "0 < clen a k" "0 < clen a x" "k + clen a k \<le> n" "x < n" "n < 2 ^ 21" "n \<le> num" "chunkNum a = num"
    using shape_bounds [OF s, of k] shape_bounds [OF s, of x] k x shapeD(8,9) [OF s] wi
    by (auto simp: wired_def)
  then have ne: "k \<noteq> x" using k by auto
  have "lists_ok (?F - {x}) ln fl1 fc1"
    using fl1 by (subst lists_ok_cong [of _ _ "clen a"]) (auto simp: ln)
  with FreeListAdd_mid [of "?F - {x}" ln fl1 fc1 x a] b
  obtain fl fc where
    2: "FreeListAdd x (a\<lparr>freeL := fl1, freeC := fc1, clen := ln\<rparr>) =
          Some (a\<lparr>freeL := fl, freeC := fc, clen := ln\<rparr>)" "lists_ok (insert x (?F - {x})) ln fl fc"
    by (auto simp: ln)
  have F: "insert x (?F - {x}) = ?F" using x by auto
  from UpdateMeta_ok [of "a\<lparr>freeL := fl, freeC := fc, clen := ln\<rparr>" w k 0 0 "free_rec (clen a k)" True]
    wi shapeD(7) [OF s k(1)] b ne obtain w' where
    3: "BdmAllocatorUpdateMeta 0 0 k True (a\<lparr>freeL := fl, freeC := fc, clen := ln\<rparr>) w =
          Some (BDM_CODE_OK, a\<lparr>freeL := fl, freeC := fc, clen := ln, metas := (metas a)(k := free_rec (clen a k))\<rparr>, w')"
    "good w'" "content w' = (content w)(k := free_rec (clen a k))" by (auto simp: wired_def ln)
  define a' where "a' = a\<lparr>freeL := fl, freeC := fc, clen := ln, metas := (metas a)(k := free_rec (clen a k))\<rparr>"
  have "shape n (V - {k}) a'" unfolding a'_def
    by (rule shape_after [OF s k x _ ln]) (use 2(2) F in simp)
  moreover have "BdmAllocatorInsertNext_tail k x (a\<lparr>freeL := fl1, freeC := fc1, clen := ln\<rparr>) w =
      Some (BDM_CODE_OK, None, a', w')"
    using b 2(1) 3(1) by (simp add: BdmAllocatorInsertNext_tail_def a'_def ln)
  moreover have "same_frame a a'" by (simp add: same_frame_def a'_def)
  moreover have "\<forall>m. runs ?F (clen a) m \<longrightarrow> runs (free_heads a') (clen a') (m(k := free_rec (clen a k)))"
    using runs_after [OF s k x] by (simp add: a'_def ln)
  moreover have "tree a' = tree a" "clen a' k = clen a k" using ne by (simp_all add: a'_def ln)
  ultimately show ?thesis using 3 b ne shapeD(4) [OF s x]
    by (intro exI [of _ a'] exI [of _ w'], unfold absorbed_def)
      (intro conjI exI [of _ "\<lambda>m. m(k := free_rec (clen a k))"], auto simp: a'_def ln)
qed

lemma InsertNext_merge_ok:
  assumes s: "shape n V a" and wi: "wired a w" and k: "k \<in> V" "k = x + clen a x" and x: "x \<in> free_heads a"
    and y: "y \<in> free_heads a" "y = k + clen a k"
    and fl1: "lists_ok (free_heads a - {x}) (clen a) fl1 fc1" and ln: "ln = (clen a)(x := clen a x + clen a k)"
  shows "\<exists>a' w' t. BdmAllocatorInsertNext_merge x y (a\<lparr>freeL := fl1, freeC := fc1, clen := ln\<rparr>) w =
                   Some (BDM_CODE_OK, Some y, a', w') \<and> ngx_rbtree_delete (tree a') y = Some t \<and>
                   absorbed n V k a w (a'\<lparr>tree := t\<rparr>) w' \<and> tree a' = tree a"
proof -
  let ?F = "free_heads a" and ?l = "clen a x + clen a k + clen a y"
  let ?ln = "(clen a)(x := ?l)"
  have b: "0 < clen a k" "0 < clen a x" "0 < clen a y" "x < n" "y + clen a y \<le> n" "n < 2 ^ 21" "n \<le> num"
    "chunkNum a = num"
    using shape_bounds [OF s, of k] shape_bounds [OF s, of x] shape_bounds [OF s, of y] k x y
      shapeD(8,9) [OF s] wi by (auto simp: wired_def)
  then have ne: "k \<noteq> x" "y \<noteq> x" "y \<noteq> k" using k y by auto
  have "lists_ok (?F - {x}) ln fl1 fc1"
    using fl1 by (subst lists_ok_cong [of _ _ "clen a"]) (auto simp: ln)
  with FreeListDel_mid [of "?F - {x}" ln fl1 fc1 y a] b ne y(1) obtain fl2 fc2 where
    1: "FreeListDel y (a\<lparr>freeL := fl1, freeC := fc1, clen := ln\<rparr>) =
          Some (a\<lparr>freeL := fl2, freeC := fc2, clen := ln\<rparr>)" "lists_ok (?F - {x} - {y}) ln fl2 fc2"
    by (auto simp: ln)
  have "lists_ok (?F - {x} - {y}) ?ln fl2 fc2"
    using 1(2) by (subst lists_ok_cong [of _ _ ln]) (auto simp: ln)
  with FreeListAdd_mid [of "?F - {x} - {y}" ?ln fl2 fc2 x a] b obtain fl fc where
    2: "FreeListAdd x (a\<lparr>freeL := fl2, freeC := fc2, clen := ?ln\<rparr>) =
          Some (a\<lparr>freeL := fl, freeC := fc, clen := ?ln\<rparr>)" "lists_ok (insert x (?F - {x} - {y})) ?ln fl fc"
    by auto
  have F: "insert x (?F - {x} - {y}) = ?F - {y}" using x ne by auto
  from UpdateMeta_ok [of "a\<lparr>freeL := fl, freeC := fc, clen := ?ln\<rparr>" w x 0 0 "free_rec ?l" True]
    wi shapeD(6) [OF s x] b k y obtain w' where
    3: "BdmAllocatorUpdateMeta 0 0 x True (a\<lparr>freeL := fl, freeC := fc, clen := ?ln\<rparr>) w =
          Some (BDM_CODE_OK, a\<lparr>freeL := fl, freeC := fc, clen := ?ln, metas := (metas a)(x := free_rec ?l)\<rparr>, w')"
    "good w'" "content w' = (content w)(x := free_rec ?l)" by (auto simp: wired_def)
  from rbi.del_member [OF shapeD(1) [OF s] sorted_distinct [OF shapeD(2) [OF s]] y(1)] obtain t where
    t: "ngx_rbtree_delete (tree a) y = Some t" "rb t" "inorder t = remove1 y (inorder (tree a))" by auto
  have F': "set (inorder t) = ?F - {y}" using t(3) sorted_distinct [OF shapeD(2) [OF s]] by simp
  define a1 where "a1 = a\<lparr>freeL := fl, freeC := fc, clen := ?ln, metas := (metas a)(x := free_rec ?l)\<rparr>"
  define a' where "a' = a1\<lparr>tree := t\<rparr>"
  have "shape n (V - {k}) a'" unfolding a'_def a1_def
    by (rule shape_both [OF s k x y t(2,3) _ refl]) (use 2(2) F in simp)
  moreover have "BdmAllocatorInsertNext_merge x y (a\<lparr>freeL := fl1, freeC := fc1, clen := ln\<rparr>) w =
      Some (BDM_CODE_OK, Some y, a1, w')"
    using b 1(1) 2(1) 3(1) ne add64_exact [of "clen a x + clen a k" "clen a y"] k y
    by (simp add: BdmAllocatorInsertNext_merge_def set_length_def Let_def a1_def ln)
  moreover have "same_frame a a'" by (simp add: same_frame_def a'_def a1_def)
  moreover have "runs (free_heads a') (clen a') (m(x := free_rec ?l))"
    "runs (free_heads a') (clen a') (m(x := free_rec ?l, k := r))" if "runs ?F (clen a) m" for m r
  proof -
    have 4: "runs (?F - {y}) ?ln (m(x := free_rec ?l))"
      using runs_both [OF s x that, of ?l "clen a k + clen a y" y] by simp
    then show "runs (free_heads a') (clen a') (m(x := free_rec ?l))" by (simp add: a'_def a1_def F')
    have "free_run (m(x := free_rec ?l, k := r)) x (x + ?l)"
      using b ne by (intro free_run_tile) auto
    moreover have "runs (?F - {x}) (clen a) (m(x := free_rec ?l, k := r))"
    proof (rule runs_cong [of _ "clen a" "m(x := free_rec ?l)"])
      have "runs (?F - {x}) (clen a) m" using that by (simp add: runs_def)
      moreover have "z \<noteq> x" if "j \<in> ?F - {x}" "z \<in> seg j (clen a j)" for j z
        using shape_seg_disjoint [OF s, of j x z] that x b by auto
      ultimately show "runs (?F - {x}) (clen a) (m(x := free_rec ?l))"
        by - (rule runs_cong [of _ "clen a" m], auto)
      fix j z assume "j \<in> ?F - {x}" "z \<in> seg j (clen a j)"
      then have "z \<noteq> k" by (intro free_seg_used [OF s _ k(1), of j]) auto
      then show "(m(x := free_rec ?l, k := r)) z = (m(x := free_rec ?l)) z" by simp
    qed simp
    ultimately show "runs (free_heads a') (clen a') (m(x := free_rec ?l, k := r))"
      by (auto simp: a'_def a1_def F' runs_def)
  qed
  moreover have "tree a1 = tree a" by (simp add: a1_def)
  moreover have "x \<notin> V" using shapeD(4) [OF s x] .
  ultimately show ?thesis using 3 b ne t y(2)
    by (intro exI [of _ a1] exI [of _ w'] exI [of _ t], fold a'_def, unfold absorbed_def)
      (intro conjI exI [of _ "\<lambda>m. m(x := free_rec ?l)"], auto simp: a'_def a1_def)
qed

text \<open>What \<open>BdmAllocatorRestoreInsert\<close> does after the callback has stopped.\<close>

lemma RestoreInsert_stopped:
  assumes "tree a \<noteq> Leaf"
    "BdmAllocatorInsertCallback (tree a) k (BDM_CODE_OK, None, a, w) = Some (Stopped, (BDM_CODE_OK, er, a1, w1))"
    "case er of None \<Rightarrow> a' = a1 | Some y \<Rightarrow> \<exists>t. ngx_rbtree_delete (tree a1) y = Some t \<and> a' = a1\<lparr>tree := t\<rparr>"
  shows "BdmAllocatorRestoreInsert k a w = Some (BDM_CODE_OK, a', w1)"
  using assms by (auto simp: BdmAllocatorRestoreInsert_def ngx_rbtree_insert_def split: option.splits)

lemma InsertNext_ok:
  assumes s: "shape n V a" and wi: "wired a w" and k: "k \<in> V" "k = x + clen a x" and x: "x \<in> free_heads a"
  shows "\<exists>er a1 a' w'. BdmAllocatorInsertNext k x a w = Some (BDM_CODE_OK, er, a1, w') \<and>
     absorbed n V k a w a' w' \<and>
     (case er of None \<Rightarrow> a' = a1 | Some y \<Rightarrow> \<exists>t. ngx_rbtree_delete (tree a1) y = Some t \<and> a' = a1\<lparr>tree := t\<rparr>)"
proof -
  let ?F = "free_heads a"
  define ln where "ln = (clen a)(x := clen a x + clen a k)"
  have b: "0 < clen a k" "0 < clen a x" "k + clen a k \<le> n" "n < 2 ^ 21"
    using shape_bounds [OF s, of k] shape_bounds [OF s, of x] k x shapeD(8,9) [OF s] by auto
  from FreeListDel_ok [OF shapeD(3) [OF s] x] b obtain fl1 fc1 where
    1: "FreeListDel x a = Some (a\<lparr>freeL := fl1, freeC := fc1\<rparr>)" "lists_ok (?F - {x}) (clen a) fl1 fc1"
    by auto
  define a2 where "a2 = a\<lparr>freeL := fl1, freeC := fc1, clen := ln\<rparr>"
  obtain xs ys where io: "inorder (tree a) = xs @ x # ys" using x by (auto simp: in_set_conv_decomp)
  then have srt: "sorted_wrt (<) (xs @ x # ys)" using shapeD(2) [OF s] by simp
  have nxt: "ngx_rbtree_next (tree a) x = Some (case ys of [] \<Rightarrow> None | y # _ \<Rightarrow> Some y)"
    using rbi.succ_law [OF io sorted_split_less(3,4) [OF srt]] .
  have e: "add64 (clen a x) (clen a k) = clen a x + clen a k" "add64 k (clen a k) = k + clen a k" "k \<noteq> x"
    using b k by (auto simp: add64_exact)
  have step: "BdmAllocatorInsertNext k x a w =
      (case ys of
         [] \<Rightarrow> BdmAllocatorInsertNext_tail k x a2 w
       | y # _ \<Rightarrow> if k + clen a k = y then BdmAllocatorInsertNext_merge x y a2 w
                else BdmAllocatorInsertNext_tail k x a2 w)"
  proof -
    have "cidx a y = y" if "ys = y # zs" for y zs using shapeD(6) [OF s] io that by simp
    then show ?thesis
      using b 1(1) nxt e shapeD(7) [OF s k(1)]
      by (auto simp: BdmAllocatorInsertNext_def set_length_def Let_def a2_def ln_def split: list.splits)
  qed
  note tail = InsertNext_tail_ok [OF s wi k x 1(2) ln_def, folded a2_def]
  note merge = InsertNext_merge_ok [OF s wi k x _ _ 1(2) ln_def, folded a2_def]
  show ?thesis
  proof (cases "\<exists>zs. ys = (k + clen a k) # zs")
    case True
    then have "k + clen a k \<in> ?F" using io by auto
    with merge [OF this refl] step True show ?thesis by fastforce
  next
    case False
    then have "BdmAllocatorInsertNext k x a w = BdmAllocatorInsertNext_tail k x a2 w"
      using step by (auto split: list.splits)
    with tail show ?thesis by fastforce
  qed
qed

lemma RestoreInsert_ok:
  assumes s: "shape n V a" and wi: "wired a w" and k: "k \<in> V"
  shows "\<exists>a' w'. BdmAllocatorRestoreInsert k a w = Some (BDM_CODE_OK, a', w') \<and> absorbed n V k a w a' w'"
proof -
  have kF: "k \<notin> free_heads a" using shapeD(4) [OF s] k by auto
  have b: "0 < clen a k" "k + clen a k \<le> n" "k < n" "n < 2 ^ 21" "cidx a k = k"
    using shape_bounds [OF s, of k] k shapeD(8,9) [OF s] shapeD(7) [OF s k] by auto
  have slot: "absorbed n V k a w (a\<lparr>freeL := fl, freeC := fc, tree := t\<rparr>) w"
    if "rb t" "inorder t = xs @ k # ys" "inorder (tree a) = xs @ ys"
      "\<forall>x\<in>set xs. x < k" "\<forall>x\<in>set ys. k < x" "lists_ok (insert k (free_heads a)) (clen a) fl fc"
    for t fl fc xs ys
  proof -
    have F': "set (inorder t) = insert k (free_heads a)" using that by auto
    show ?thesis
      unfolding absorbed_def
      using shape_slot [OF s k that] runs_slot [OF s k] wi b F'
      by (intro conjI exI [of _ "\<lambda>m. m"]) (auto simp: same_frame_def wired_def)
  qed
  from FreeListAdd_ok [OF shapeD(3) [OF s] kF] b obtain fl fc where
    add: "FreeListAdd k a = Some (a\<lparr>freeL := fl, freeC := fc\<rparr>)"
      "lists_ok (insert k (free_heads a)) (clen a) fl fc" by auto
  show ?thesis
  proof (cases "tree a = Leaf")
    case True
    let ?t = "Node Black Leaf k Leaf"
    have "FreeListAdd k (a\<lparr>tree := ?t\<rparr>) = Some (a\<lparr>freeL := fl, freeC := fc, tree := ?t\<rparr>)"
      using add(1) by (cases a) (auto simp: FreeListAdd_def split: option.splits)
    then have "BdmAllocatorRestoreInsert k a w =
        Some (BDM_CODE_OK, a\<lparr>freeL := fl, freeC := fc, tree := ?t\<rparr>, w)"
      using True by (simp add: BdmAllocatorRestoreInsert_def ngx_rbtree_insert_def)
    moreover have "absorbed n V k a w (a\<lparr>freeL := fl, freeC := fc, tree := ?t\<rparr>) w"
      using add(2) True by (intro slot [of _ "[]" "[]"]) auto
    ultimately show ?thesis by blast
  next
    case False
    have "\<forall>x\<in>set (inorder (tree a)). cidx a x = x \<and> 0 < clen a x \<and> x + clen a x < 2 ^ 64 \<and>
             (x + clen a x \<le> k \<or> k + clen a k \<le> x)"
    proof
      fix x assume x: "x \<in> set (inorder (tree a))"
      then have "x \<noteq> k" using kF by auto
      then have "x + clen a x \<le> k \<or> k + clen a k \<le> x"
        using tilingD(4) [OF shapeD(5) [OF s], of x k] tilingD(4) [OF shapeD(5) [OF s], of k x] x k
        by (cases "x < k") auto
      then show "cidx a x = x \<and> 0 < clen a x \<and> x + clen a x < 2 ^ 64 \<and>
             (x + clen a x \<le> k \<or> k + clen a k \<le> x)"
        using shape_bounds [OF s, of x] shapeD(6) [OF s x] x b by auto
    qed
    then have "place_ok (clen a) k (tree a) (descend (cidx a) (clen a) k (tree a) [])"
      using descend_ok [of "tree a" "[]" "cidx a" "clen a" k] shapeD(2) [OF s] b by simp
    then consider
        x where "descend (cidx a) (clen a) k (tree a) [] = After x" "x \<in> free_heads a" "k = x + clen a x"
      | x where "descend (cidx a) (clen a) k (tree a) [] = Before x" "x \<in> free_heads a" "x = k + clen a k"
      | p where "descend (cidx a) (clen a) k (tree a) [] = Slot p" "tree a = plug Leaf p"
          "\<forall>x\<in>set (before p). x < k" "\<forall>x\<in>set (after p). k < x"
      by (auto simp: place_ok_def split: place.splits)
    then show ?thesis
    proof cases
      case (1 x)
      from InsertNext_ok [OF s wi k 1(3,2)] obtain er a1 a' w' where
        r: "BdmAllocatorInsertNext k x a w = Some (BDM_CODE_OK, er, a1, w')" "absorbed n V k a w a' w'"
          "case er of None \<Rightarrow> a' = a1 | Some y \<Rightarrow> \<exists>t. ngx_rbtree_delete (tree a1) y = Some t \<and> a' = a1\<lparr>tree := t\<rparr>"
        by blast
      have "BdmAllocatorRestoreInsert k a w = Some (BDM_CODE_OK, a', w')"
        by (rule RestoreInsert_stopped [OF False _ r(3)]) (use False 1 r(1) in simp)
      with r show ?thesis by blast
    next
      case (2 x)
      from InsertPre_ok [OF s wi k 2(2,3)] obtain a' w' where
        r: "BdmAllocatorInsertPre k x a w = Some (BDM_CODE_OK, a', w')" "absorbed n V k a w a' w'" by blast
      have "BdmAllocatorRestoreInsert k a w = Some (BDM_CODE_OK, a', w')"
        by (rule RestoreInsert_stopped [OF False, where er = None and ?a1.0 = a'])
          (use False 2 r(1) in simp_all)
      with r show ?thesis by blast
    next
      case (3 p)
      have cb: "BdmAllocatorInsertCallback (tree a) k (BDM_CODE_OK, None, a, w) =
          Some (Linked p, (BDM_CODE_OK, None, a\<lparr>freeL := fl, freeC := fc\<rparr>, w))"
        using False 3 add by simp
      from insert_linked [where get = ctx_tree and put = ctx_put and s = "(BDM_CODE_OK, None, a, w)" and p = p
          and cb = BdmAllocatorInsertCallback and k = k] 3 False shapeD(1) [OF s] cb
      obtain u where u: "ngx_rbtree_insert ctx_tree ctx_put BdmAllocatorInsertCallback k (BDM_CODE_OK, None, a, w) =
          Some (BDM_CODE_OK, None, a\<lparr>freeL := fl, freeC := fc, tree := u\<rparr>, w)"
        "rb u" "inorder u = before p @ k # after p" by auto
      have "absorbed n V k a w (a\<lparr>freeL := fl, freeC := fc, tree := u\<rparr>) w"
        using 3 by (intro slot [OF u(2,3)] add(2)) auto
      moreover have "BdmAllocatorRestoreInsert k a w =
          Some (BDM_CODE_OK, a\<lparr>freeL := fl, freeC := fc, tree := u\<rparr>, w)"
        using u(1) by (simp add: BdmAllocatorRestoreInsert_def)
      ultimately show ?thesis by blast
    qed
  qed
qed

end

end
