(* ===== verification/BdmAllocatorSpec.thy ===== *)
theory BdmAllocatorSpec
  imports BdmAllocatorFree
begin

text \<open>
  The contract of the allocator's interface. The abstract state is a map \<open>U\<close> from the used
  chunks to their length in units, bucket and bucket offset; \<open>alloc_inv\<close> relates it to the
  allocator and to the table on the disk. Each operation is shown to carry out its change of
  \<open>U\<close> and to keep the invariant, and restoring from the disk gives back \<open>U\<close>.
\<close>

type_synonym used_map = "nat \<rightharpoonup> nat \<times> nat \<times> nat"

abbreviation used_len :: "used_map \<Rightarrow> nat \<Rightarrow> nat" where
  "used_len U k \<equiv> fst (the (U k))"

definition recorded :: "nat set \<Rightarrow> (nat \<Rightarrow> nat) \<Rightarrow> used_map \<Rightarrow> (nat \<Rightarrow> chunk_meta) \<Rightarrow> bool" where
  "recorded F len U m \<longleftrightarrow> runs F len m \<and> (\<forall>k\<in>dom U. m k = used_rec (the (U k)))"

definition alloc_inv :: "nat \<Rightarrow> used_map \<Rightarrow> 'w alloc \<Rightarrow> (nat \<Rightarrow> chunk_meta) \<Rightarrow> bool" where
  "alloc_inv n U a disk \<longleftrightarrow>
     shape n (dom U) a \<and> (\<forall>k\<in>dom U. clen a k = used_len U k) \<and>
     recorded (free_heads a) (clen a) U (metas a) \<and> recorded (free_heads a) (clen a) U disk"

lemma alloc_invD:
  assumes "alloc_inv n U a disk"
  shows "shape n (dom U) a" "k \<in> dom U \<Longrightarrow> clen a k = used_len U k"
    "recorded (free_heads a) (clen a) U (metas a)" "recorded (free_heads a) (clen a) U disk"
  using assms by (auto simp: alloc_inv_def)

text \<open>Chunks of the abstract state lie inside the disk and do not overlap.\<close>

lemma alloc_inv_used:
  assumes "alloc_inv n U a disk" "U k = Some (l, b, off)"
  shows "0 < l" "k + l \<le> n" "\<lbrakk>U k' = Some (l', b', off'); k' \<noteq> k\<rbrakk> \<Longrightarrow> seg k l \<inter> seg k' l' = {}"
proof -
  note s = alloc_invD(1) [OF assms(1)]
  have k: "k \<in> dom U" "clen a k = l" using assms alloc_invD(2) [OF assms(1), of k] by auto
  show "0 < l" "k + l \<le> n" using shape_bounds(1,2) [OF s, of k] k by auto
  assume k': "U k' = Some (l', b', off')" "k' \<noteq> k"
  then have "clen a k' = l'" using alloc_invD(2) [OF assms(1), of k'] by auto
  with tiling_disjoint [OF shapeD(5) [OF s], of k k'] k k' show "seg k l \<inter> seg k' l' = {}" by auto
qed

lemma shape_metas [simp]: "shape n V (a\<lparr>metas := m\<rparr>) = shape n V a"
  by (simp add: shape_def)

lemma same_frame_metas: "same_frame a b \<Longrightarrow> same_frame a (b\<lparr>metas := m\<rparr>)"
  by (cases a; cases b) (simp add: same_frame_def)

lemma alloc_inv_field [simp]:
  "alloc_inv n U (a\<lparr>usedSize := u\<rparr>) disk = alloc_inv n U a disk"
  "alloc_inv n U (a\<lparr>scanIndex := i\<rparr>) disk = alloc_inv n U a disk"
  by (simp_all add: alloc_inv_def shape_def)

text \<open>Only the records of units count.\<close>

lemma alloc_inv_disk_cong:
  assumes "alloc_inv n U a disk" "\<And>j. j < n \<Longrightarrow> disk' j = disk j"
  shows "alloc_inv n U a disk'"
proof -
  note s = alloc_invD(1) [OF assms(1)]
  have "runs (free_heads a) (clen a) disk'"
  proof (rule runs_cong [of _ "clen a" disk])
    show "runs (free_heads a) (clen a) disk" using alloc_invD(4) [OF assms(1)] by (simp add: recorded_def)
    fix k x assume "k \<in> free_heads a" "x \<in> seg k (clen a k)"
    then show "disk' x = disk x" using shape_bounds(2) [OF s, of k] by (intro assms(2)) auto
  qed simp
  moreover have "disk' k = disk k" if "k \<in> dom U" for k
    using shape_bounds(3) [OF s, of k] that by (intro assms(2)) auto
  ultimately show ?thesis using assms(1) by (auto simp: alloc_inv_def recorded_def)
qed

section \<open>The walk over the chunk heads\<close>

inductive walk :: "(nat \<Rightarrow> chunk_meta) \<Rightarrow> used_map \<Rightarrow> nat \<Rightarrow> nat \<Rightarrow> bool" for m U n where
  walk_end: "walk m U n n"
| walk_free: "\<lbrakk>mhead (m i); mfree (m i); 0 < mlength (m i); walk m U n (i + mlength (m i));
    \<forall>j\<in>dom U. \<not> (i \<le> j \<and> j < i + mlength (m i))\<rbrakk> \<Longrightarrow> walk m U n i"
| walk_used: "\<lbrakk>U i = Some (l, b, off); m i = used_rec (l, b, off); 0 < l; walk m U n (i + l);
    \<forall>j\<in>dom U. \<not> (i < j \<and> j < i + l)\<rbrakk> \<Longrightarrow> walk m U n i"

lemma walk_le: "walk m U n i \<Longrightarrow> i \<le> n"
  by (induction rule: walk.induct) auto

lemma walk_cong:
  "walk m U n i \<Longrightarrow> (\<And>x. i \<le> x \<Longrightarrow> x < n \<Longrightarrow> m' x = m x) \<Longrightarrow> walk m' U n i"
proof (induction rule: walk.induct)
  case (walk_free i)
  from walk_le [OF walk_free(4)] walk_free.hyps(3) have "i < n" by simp
  with walk_free.prems have eq: "m' i = m i" by simp
  have "walk m' U n (i + mlength (m i))" using walk_free.IH walk_free.prems by simp
  with eq walk_free.hyps show ?case by - (rule walk.walk_free, simp_all)
next
  case (walk_used i l b off)
  from walk_le [OF walk_used(4)] walk_used.hyps(3) have "i < n" by simp
  with walk_used.prems have "m' i = m i" by simp
  moreover have "walk m' U n (i + l)" using walk_used.IH walk_used.prems by simp
  ultimately show ?case using walk_used.hyps by - (rule walk.walk_used, auto)
qed (rule walk_end)

lemma free_run_walk:
  "free_run m i e \<Longrightarrow> walk m U n e \<Longrightarrow> \<forall>j\<in>dom U. \<not> (i \<le> j \<and> j < e) \<Longrightarrow> walk m U n i"
proof (induction rule: free_run.induct)
  case (free_run_step i e)
  have "\<forall>j\<in>dom U. \<not> (i \<le> j \<and> j < i + mlength (m i))"
    using free_run_step.prems(2) free_run_le [OF free_run_step.hyps(4)] by (meson order_less_le_trans)
  moreover have "walk m U n (i + mlength (m i))"
    using free_run_step.prems by (intro free_run_step.IH) auto
  ultimately show ?case using free_run_step.hyps by - (rule walk_free)
qed

lemma alloc_inv_walk:
  assumes s: "shape n (dom U) a" and l: "\<forall>k\<in>dom U. clen a k = used_len U k"
    and r: "recorded (free_heads a) (clen a) U m"
  shows "k \<in> free_heads a \<union> dom U \<or> k = n \<Longrightarrow> walk m U n k"
proof (induction "n - k" arbitrary: k rule: less_induct)
  case less
  note t = shapeD(5) [OF s]
  show ?case
  proof (cases "k = n")
    case False
    then have k: "k \<in> free_heads a \<union> dom U" using less.prems by simp
    have "k + clen a k \<in> free_heads a \<union> dom U \<or> k + clen a k = n"
      using tiling_next [OF t k] tilingD(2) [OF t k] by linarith
    then have w: "walk m U n (k + clen a k)"
      using less.hyps tilingD(1,3) [OF t k] by auto
    have between: "\<not> (k < j \<and> j < k + clen a k)" if "j \<in> dom U" for j
      using tilingD(4) [OF t k, of j] that by fastforce
    show ?thesis
    proof (cases "k \<in> dom U")
      case True
      then obtain len b off where "U k = Some (len, b, off)" by auto
      with w l r True between tilingD(1) [OF t k] show ?thesis
        by - (rule walk_used [of U k len b off], auto simp: recorded_def)
    next
      case False
      then have "free_run m k (k + clen a k)" using k r by (auto simp: recorded_def runs_def)
      moreover have "\<forall>j\<in>dom U. \<not> (k \<le> j \<and> j < k + clen a k)"
        using between False by (metis le_eq_less_or_eq)
      ultimately show ?thesis using w free_run_walk by blast
    qed
  qed (simp add: walk_end)
qed

section \<open>Taking and returning chunks\<close>

lemma scan_list_Some: "scan_list len n cs = Some c \<Longrightarrow> c \<in> set cs \<and> n \<le> len c"
  by (induction cs) (auto split: if_splits)

lemma scan_list_None: "scan_list len n cs = None \<longleftrightarrow> (\<forall>c\<in>set cs. len c < n)"
  by (induction cs) auto

declare scan_free.simps [simp del]

lemma scan_free_Some:
  "scan_free len fl n i = Some (j, c) \<Longrightarrow> c \<in> set (fl j) \<and> n \<le> len c"
proof (induction len fl n i rule: scan_free.induct)
  case (1 len fl n i)
  then show ?case
    by (subst (asm) scan_free.simps) (auto split: if_splits option.splits dest: scan_list_Some)
qed

lemma scan_free_None:
  "scan_free len fl n i = None \<longleftrightarrow> (\<forall>j. i \<le> j \<and> j < BDM_FREE_LIST_NUM \<longrightarrow> (\<forall>c\<in>set (fl j). len c < n))"
proof (induction len fl n i rule: scan_free.induct)
  case (1 len fl n i)
  show ?case
  proof (cases "i < BDM_FREE_LIST_NUM")
    case True
    have "(\<forall>j. i \<le> j \<and> j < BDM_FREE_LIST_NUM \<longrightarrow> P j) \<longleftrightarrow>
          P i \<and> (\<forall>j. Suc i \<le> j \<and> j < BDM_FREE_LIST_NUM \<longrightarrow> P j)" for P
      using True by (metis Suc_leD Suc_le_eq le_refl le_eq_less_or_eq)
    note split = this [of "\<lambda>j. \<forall>c\<in>set (fl j). len c < n"]
    show ?thesis
    proof (cases "scan_list len n (fl i)")
      case None
      then show ?thesis unfolding split
        by (subst scan_free.simps) (simp add: True 1 [OF True None] iffD1 [OF scan_list_None None])
    next
      case (Some c)
      then have "\<not> (\<forall>c\<in>set (fl i). len c < n)" using scan_list_None [of len n "fl i"] by auto
      with Some True show ?thesis unfolding split by (subst scan_free.simps) simp
    qed
  qed (auto simp: scan_free.simps [of len fl n i])
qed

text \<open>The search finds a long enough free chunk exactly when there is one.\<close>

lemma scan_free_spec:
  assumes "lists_ok F len fl fc" "0 < n"
  shows "scan_free len fl n (min n BDM_FREE_LIST_NUM - 1) = Some (i, c) \<Longrightarrow>
           c \<in> F \<and> n \<le> len c \<and> i = min (len c) BDM_FREE_LIST_NUM - 1"
    and "scan_free len fl n (min n BDM_FREE_LIST_NUM - 1) = None \<longleftrightarrow> (\<forall>k\<in>F. len k < n)"
proof -
  show "scan_free len fl n (min n BDM_FREE_LIST_NUM - 1) = Some (i, c) \<Longrightarrow>
           c \<in> F \<and> n \<le> len c \<and> i = min (len c) BDM_FREE_LIST_NUM - 1"
    using scan_free_Some [of len fl n _ i c] lists_okD(2) [OF assms(1), of i] by auto
  have "k \<in> set (fl (min (len k) BDM_FREE_LIST_NUM - 1))" if "k \<in> F" for k
    using lists_okD(2) [OF assms(1)] that by auto
  moreover have "min n BDM_FREE_LIST_NUM - 1 \<le> min l BDM_FREE_LIST_NUM - 1"
    "min l BDM_FREE_LIST_NUM - 1 < BDM_FREE_LIST_NUM" if "n \<le> l" for l
    using that by (auto simp: min_def)
  moreover have "set (fl j) \<subseteq> F" for j using lists_okD(2) [OF assms(1), of j] by auto
  ultimately show "scan_free len fl n (min n BDM_FREE_LIST_NUM - 1) = None \<longleftrightarrow> (\<forall>k\<in>F. len k < n)"
    unfolding scan_free_None by (meson leI subsetD)
qed

context meta_store
begin

lemma Insert_ok:
  assumes s: "shape n V a" and wi: "wired a w" and k: "k \<in> V"
  shows "\<exists>a' w' h. BdmAllocatorInsert k a w = Some (BDM_CODE_OK, a', w') \<and>
     shape n (V - {k}) a' \<and> same_frame a a' \<and> good w' \<and> (\<forall>j\<in>V - {k}. clen a' j = clen a j) \<and>
     metas a' = h (metas a) \<and> content w' = h (content w) \<and>
     (\<forall>m j. j \<in> V - {k} \<longrightarrow> h m j = m j) \<and>
     (\<forall>m. runs (free_heads a) (clen a) m \<longrightarrow> runs (free_heads a') (clen a') (h m))"
proof -
  from RestoreInsert_ok [OF assms] obtain a1 w1 where
    1: "BdmAllocatorRestoreInsert k a w = Some (BDM_CODE_OK, a1, w1)" "absorbed n V k a w a1 w1" by blast
  then obtain g where g: "metas a1 = g (metas a)" "content w1 = g (content w)"
    "\<forall>m j. j \<in> V - {k} \<or> n \<le> j \<longrightarrow> g m j = m j"
    "\<forall>m. runs (free_heads a) (clen a) m \<longrightarrow> runs (free_heads a1) (clen a1) ((g m)(k := free_rec (clen a1 k)))"
    by (auto simp: absorbed_def)
  have a1: "shape n (V - {k}) a1" "same_frame a a1" "good w1" "\<forall>j\<in>V - {k}. clen a1 j = clen a j"
    "k + clen a1 k \<le> n" using 1(2) by (auto simp: absorbed_def)
  have "wired a1 w1" using wi a1(3) same_frameD(1,7) [OF a1(2)] by (simp add: wired_def)
  from UpdateMeta_ok [OF this, of k 0 0 "free_rec (clen a1 k)" True] obtain w' where
    2: "BdmAllocatorUpdateMeta 0 0 k True a1 w1 =
          Some (BDM_CODE_OK, a1\<lparr>metas := (metas a1)(k := free_rec (clen a1 k))\<rparr>, w')"
      "good w'" "content w' = (content w1)(k := free_rec (clen a1 k))"
    using same_frameD(8) [OF a1(2)] shapeD(7,8) [OF s] k a1(5) wi shape_bounds(3) [OF s, of k]
    by (auto simp: wired_def)
  have "BdmAllocatorInsert k a w = Option.bind (BdmAllocatorRestoreInsert k a w)
      (\<lambda>(ret, b, v). if ret \<noteq> BDM_CODE_OK then Some (ret, b, v) else BdmAllocatorUpdateMeta 0 0 k True b v)"
    by (simp add: BdmAllocatorInsert_def BdmAllocatorRestoreInsert_def split: bind_split option.split)
  with 1 2 have "BdmAllocatorInsert k a w =
      Some (BDM_CODE_OK, a1\<lparr>metas := (metas a1)(k := free_rec (clen a1 k))\<rparr>, w')" by simp
  with 2 a1 g show ?thesis
    by (intro exI [of _ "a1\<lparr>metas := (metas a1)(k := free_rec (clen a1 k))\<rparr>"] exI [of _ w']
        exI [of _ "\<lambda>m. (g m)(k := free_rec (clen a1 k))"]) (auto intro: same_frame_metas)
qed

text \<open>Returning a used chunk removes it from the abstract state.\<close>

lemma FreeChunk_ok:
  assumes inv: "alloc_inv num U a (content w)" and wi: "wired a w" and U: "U k = Some (l, b, off)"
    and c: "minChunkSize a * num < 2 ^ 64"
  shows "\<exists>a' w'. BdmAllocatorFreeChunk (l * minChunkSize a) k a w =
              Some (BDM_CODE_OK, a'\<lparr>usedSize := sub64 (usedSize a) (l * minChunkSize a)\<rparr>, w') \<and>
           alloc_inv num (U(k := None)) a' (content w') \<and> same_frame a a' \<and> good w'"
proof -
  note s = alloc_invD(1) [OF inv]
  have k: "k \<in> dom U" "clen a k = l" using U alloc_invD(2) [OF inv, of k] by auto
  have "l \<le> num" "k < num" using alloc_inv_used(1,2) [OF inv U] by auto
  then have "l * minChunkSize a \<le> minChunkSize a * num" by (simp add: mult.commute)
  with c have "l * minChunkSize a < 2 ^ 64" by linarith
  then have m: "mul64 (clen a k) (minChunkSize a) = l * minChunkSize a" using k by (simp add: mul64_exact)
  from Insert_ok [OF s wi k(1)] obtain a' w' h where
    r: "BdmAllocatorInsert k a w = Some (BDM_CODE_OK, a', w')" "shape num (dom U - {k}) a'"
      "same_frame a a'" "good w'" "\<forall>j\<in>dom U - {k}. clen a' j = clen a j"
      "metas a' = h (metas a)" "content w' = h (content w)" "\<forall>m j. j \<in> dom U - {k} \<longrightarrow> h m j = m j"
      "\<forall>m. runs (free_heads a) (clen a) m \<longrightarrow> runs (free_heads a') (clen a') (h m)" by blast
  have "recorded (free_heads a') (clen a') (U(k := None)) (h m)"
    if "recorded (free_heads a) (clen a) U m" for m
    using that r(8,9) by (auto simp: recorded_def)
  then have "alloc_inv num (U(k := None)) a' (content w')"
    using r alloc_invD(2-4) [OF inv] by (auto simp: alloc_inv_def)
  moreover have "BdmAllocatorFreeChunk (l * minChunkSize a) k a w =
      Some (BDM_CODE_OK, a'\<lparr>usedSize := sub64 (usedSize a) (l * minChunkSize a)\<rparr>, w')"
    using r(1) m \<open>k < num\<close> wi same_frameD(5) [OF r(3)]
    by (simp add: BdmAllocatorFreeChunk_def wired_def)
  ultimately show ?thesis using r by blast
qed

lemma RemoveSameLen_ok:
  assumes inv: "alloc_inv num U a (content w)" and wi: "wired a w"
    and c: "c \<in> free_heads a" "i = min (clen a c) BDM_FREE_LIST_NUM - 1" and bo: "b < 2 ^ 64" "off < 2 ^ 64"
  shows "\<exists>a' w'. BdmAllocatorRemoveSameLen c b off i a w = Some (BDM_CODE_OK, Some c, a', w') \<and>
           alloc_inv num (U(c \<mapsto> (clen a c, b, off))) a' (content w') \<and>
           same_config a a' \<and> usedSize a' = usedSize a \<and> good w'"
proof -
  let ?F = "free_heads a" and ?U = "U(c \<mapsto> (clen a c, b, off))"
  let ?r = "used_rec (clen a c, b, off)"
  note s = alloc_invD(1) [OF inv]
  have bd: "0 < clen a c" "c + clen a c \<le> num" "c < num" "cidx a c = c" "c \<notin> dom U"
    using shape_bounds [OF s, of c] c shapeD(4,6) [OF s c(1)] by auto
  from FreeListDel_ok [OF shapeD(3) [OF s] c(1) bd(1)] obtain fl fc where
    1: "FreeListDel c a = Some (a\<lparr>freeL := fl, freeC := fc\<rparr>)" "lists_ok (?F - {c}) (clen a) fl fc" by blast
  have d: "(DListDel c a)\<lparr>freeC := (freeC a)(i := sub64 (freeC a i) 1)\<rparr> = a\<lparr>freeL := fl, freeC := fc\<rparr>"
    using 1(1) bd(1) c(2) by (simp add: FreeListDel_def freeIndex_def)
  from UpdateMeta_ok [of "a\<lparr>freeL := fl, freeC := fc\<rparr>" w c b off ?r False] wi bd bo obtain w' where
    2: "BdmAllocatorUpdateMeta b off c False (a\<lparr>freeL := fl, freeC := fc\<rparr>) w =
          Some (BDM_CODE_OK, a\<lparr>freeL := fl, freeC := fc, metas := (metas a)(c := ?r)\<rparr>, w')"
      "good w'" "content w' = (content w)(c := ?r)" by (auto simp: wired_def)
  from rbi.del_member [OF shapeD(1) [OF s] sorted_distinct [OF shapeD(2) [OF s]] c(1)] obtain t where
    t: "ngx_rbtree_delete (tree a) c = Some t" "rb t" "inorder t = remove1 c (inorder (tree a))" by auto
  have F': "set (inorder t) = ?F - {c}" using t(3) sorted_distinct [OF shapeD(2) [OF s]] by simp
  define a' where "a' = a\<lparr>freeL := fl, freeC := fc, metas := (metas a)(c := ?r), tree := t\<rparr>"
  have "sorted_wrt (<) (inorder t)"
    using shapeD(2) [OF s] t(3) by (simp add: strict_sorted_iff sorted_remove1)
  moreover have "(?F - {c}) \<union> dom ?U = ?F \<union> dom U" using c by auto
  ultimately have "shape num (dom ?U) a'"
    using s t(2) 1(2) F' bd by (auto simp: shape_def a'_def)
  moreover have "recorded (?F - {c}) (clen a) ?U (m(c := ?r))" if "recorded ?F (clen a) U m" for m
  proof -
    have "runs (?F - {c}) (clen a) (m(c := ?r))"
    proof (rule runs_cong [of _ "clen a" m])
      show "runs (?F - {c}) (clen a) m" using that by (simp add: recorded_def runs_def)
      fix j x assume "j \<in> ?F - {c}" "x \<in> seg j (clen a j)"
      then have "x \<noteq> c" using shape_seg_disjoint [OF s, of j c x] c bd by auto
      then show "(m(c := ?r)) x = m x" by simp
    qed simp
    with that bd show ?thesis by (auto simp: recorded_def)
  qed
  ultimately have "alloc_inv num ?U a' (content w')"
    using alloc_invD(2-4) [OF inv] 2(3) bd F' by (auto simp: alloc_inv_def a'_def)
  moreover have "BdmAllocatorRemoveSameLen c b off i a w = Some (BDM_CODE_OK, Some c, a', w')"
    using 2(1) d t(1) bd by (simp add: BdmAllocatorRemoveSameLen_def Let_def a'_def)
  moreover have "same_config a a'" "usedSize a' = usedSize a" by (simp_all add: same_config_def a'_def)
  ultimately show ?thesis using 2(2) by blast
qed

text \<open>The front of a longer free chunk is taken, its rest stays free.\<close>

lemma shape_split:
  assumes s: "shape n V a" and c: "c \<in> free_heads a" and l: "0 < l" "l < clen a c" and e: "e = c + l"
    and ln: "ln = (clen a)(e := clen a c - l, c := l)"
    and lo: "lists_ok (insert e (free_heads a - {c})) ln fl fc"
  shows "shape n (insert c V) (a\<lparr>cidx := (cidx a)(e := e), freeL := fl, freeC := fc, clen := ln,
             metas := ms, tree := ngx_rbtree_replace (tree a) e c\<rparr>)" (is "shape n _ ?a")
    and "set (inorder (ngx_rbtree_replace (tree a) e c)) = insert e (free_heads a - {c})"
    and "e \<notin> free_heads a \<union> V"
proof -
  let ?t = "ngx_rbtree_replace (tree a) e c"
  note t = shapeD(5) [OF s]
  show fresh: "e \<notin> free_heads a \<union> V"
  proof
    assume "e \<in> free_heads a \<union> V"
    with shape_seg_disjoint [OF s this, of c e] shape_bounds(1) [OF s, of e] c l e show False by auto
  qed
  obtain xs ys where io: "inorder (tree a) = xs @ c # ys" using c by (auto simp: in_set_conv_decomp)
  then have srt: "sorted_wrt (<) (xs @ c # ys)" using shapeD(2) [OF s] by simp
  have t': "rb ?t" "inorder ?t = xs @ e # ys"
    using shapeD(1) [OF s] rbi.repl_split [OF io sorted_split_less(3,4) [OF srt]] by auto
  show F': "set (inorder ?t) = insert e (free_heads a - {c})"
    unfolding t' io using sorted_split_less(3,4) [OF srt] by auto
  have "e < y" if "y \<in> set ys" for y
    using tilingD(4) [OF t, of c y] sorted_split_less(2) [OF srt that] that io l e c by auto
  moreover have "y < e" if "y \<in> set xs" for y using sorted_split_less(1) [OF srt that] e by simp
  ultimately have "sorted_wrt (<) (inorder ?t)" using srt unfolding t' by (auto simp: sorted_wrt_append)
  moreover have "tiling n (insert e (free_heads a - {c}) \<union> insert c V) ln"
  proof -
    have "insert e (free_heads a - {c}) \<union> insert c V = insert (c + l) (free_heads a \<union> V)"
      using c e by auto
    moreover have "ln = (clen a)(c := l, c + l := clen a c - l)" using l by (auto simp: ln e)
    ultimately show ?thesis using tiling_split [OF t, of c l] c l by simp
  qed
  moreover have "insert e (free_heads a - {c}) \<inter> insert c V = {}"
    using fresh l e shapeD(4) [OF s] by auto
  ultimately show "shape n (insert c V) ?a"
    using t'(1) lo shapeD(6-9) [OF s] F' fresh l(1) e c unfolding shape_def by auto
qed

lemma recorded_split:
  assumes s: "shape n (dom U) a" and c: "c \<in> free_heads a" and l: "0 < l" "l < clen a c" and e: "e = c + l"
    and r: "recorded (free_heads a) (clen a) U m" and ln: "ln = (clen a)(e := clen a c - l, c := l)"
  shows "recorded (insert e (free_heads a - {c})) ln (U(c \<mapsto> (l, b, off)))
           (m(e := free_rec (clen a c - l), c := used_rec (l, b, off)))" (is "recorded ?F' _ _ ?m")
proof -
  have "free_run ?m e (e + (clen a c - l))" 
    using l e by (intro free_run_tile [where l = "clen a c - l"]) auto
  moreover have "runs (free_heads a - {c}) (clen a) ?m"
  proof (rule runs_cong [of _ "clen a" m])
    show "runs (free_heads a - {c}) (clen a) m" using r by (simp add: recorded_def runs_def)
    fix j x assume "j \<in> free_heads a - {c}" "x \<in> seg j (clen a j)"
    then have "x \<notin> seg c (clen a c)" using shape_seg_disjoint [OF s, of j c x] c by auto
    then show "?m x = m x" using l e by auto
  qed simp
  moreover have "e \<notin> free_heads a \<union> dom U"
  proof
    assume "e \<in> free_heads a \<union> dom U"
    with shape_seg_disjoint [OF s this, of c e] shape_bounds(1) [OF s, of e] c l e show False by auto
  qed
  ultimately show ?thesis using r l e by (auto simp: recorded_def runs_def ln dom_def)
qed

lemma RemoveDiffLen_ok:
  assumes inv: "alloc_inv num U a (content w)" and wi: "wired a w"
    and c: "c \<in> free_heads a" and l: "0 < l" "l < clen a c" and bo: "b < 2 ^ 64" "off < 2 ^ 64"
  shows "\<exists>a' w'. BdmAllocatorRemoveDiffLen c b off l a w = Some (BDM_CODE_OK, Some c, a', w') \<and>
           alloc_inv num (U(c \<mapsto> (l, b, off))) a' (content w') \<and>
           same_config a a' \<and> usedSize a' = usedSize a \<and> good w'"
proof -
  let ?F = "free_heads a" and ?U = "U(c \<mapsto> (l, b, off))"
  define e where "e = c + l"
  note s = alloc_invD(1) [OF inv]
  have bd: "0 < clen a c" "c + clen a c \<le> num" "c < num" "cidx a c = c" "c \<notin> dom U" "num < 2 ^ 21"
    using shape_bounds [OF s, of c] c shapeD(4,6) [OF s c(1)] wi by (auto simp: wired_def)
  have fresh: "e \<notin> ?F \<union> dom U"
  proof
    assume "e \<in> ?F \<union> dom U"
    with shape_seg_disjoint [OF s this, of c e] shape_bounds(1) [OF s, of e] c l e_def show False by auto
  qed
  define ci where "ci = (cidx a)(e := e)"
  define l1 where "l1 = (clen a)(e := clen a c - l)"
  define l2 where "l2 = (clen a)(e := clen a c - l, c := l)"
  have l12: "l2 = l1(c := l)" "c \<noteq> e" "l1 c = clen a c" "l1 e = clen a c - l"
    using l by (auto simp: l1_def l2_def e_def)
  define a0 where "a0 = a\<lparr>cidx := ci\<rparr>"
  have a1: "a\<lparr>cidx := (cidx a)(e := add64 (cidx a c) l), clen := (clen a)(e := sub64 (clen a c) l)\<rparr> =
      a0\<lparr>freeL := freeL a, freeC := freeC a, clen := l1\<rparr>"
    using bd l by (cases a) (simp add: a0_def ci_def l1_def e_def add64_exact sub64_exact)
  have "lists_ok ?F l1 (freeL a) (freeC a)"
    using shapeD(3) [OF s] fresh by (subst lists_ok_cong [of _ _ "clen a"]) (auto simp: l1_def)
  from FreeListAdd_mid [OF this, of e a0] fresh l12 l bd obtain fl1 fc1 where
    2: "FreeListAdd e (a0\<lparr>freeL := freeL a, freeC := freeC a, clen := l1\<rparr>) =
          Some (a0\<lparr>freeL := fl1, freeC := fc1, clen := l1\<rparr>)" "lists_ok (insert e ?F) l1 fl1 fc1"
    by (auto simp: e_def)
  let ?fr = "free_rec (clen a c - l)" and ?ur = "used_rec (l, b, off)"
  have "wired (a0\<lparr>freeL := fl1, freeC := fc1, clen := l1\<rparr>) w" "ci e = e" "e < num" "l1 e \<le> num"
    using wi bd l l12(4) by (auto simp: wired_def a0_def ci_def e_def)
  with UpdateMeta_ok [of "a0\<lparr>freeL := fl1, freeC := fc1, clen := l1\<rparr>" w e 0 0 ?fr True] l12(4)
  obtain w1 where
    3: "BdmAllocatorUpdateMeta 0 0 e True (a0\<lparr>freeL := fl1, freeC := fc1, clen := l1\<rparr>) w =
          Some (BDM_CODE_OK, a0\<lparr>freeL := fl1, freeC := fc1, clen := l1, metas := (metas a)(e := ?fr)\<rparr>, w1)"
      "good w1" "content w1 = (content w)(e := ?fr)"
    by (auto simp: a0_def)
  define a3 where "a3 = a0\<lparr>metas := (metas a)(e := ?fr)\<rparr>"
  have a3: "a0\<lparr>freeL := fl1, freeC := fc1, clen := l1, metas := (metas a)(e := ?fr)\<rparr> =
      a3\<lparr>freeL := fl1, freeC := fc1, clen := l1\<rparr>" by (cases a) (simp add: a3_def a0_def)
  from FreeListDel_mid [OF 2(2), of c a3] c l12 bd obtain fl fc where
    4: "FreeListDel c (a3\<lparr>freeL := fl1, freeC := fc1, clen := l1\<rparr>) =
          Some (a3\<lparr>freeL := fl, freeC := fc, clen := l1\<rparr>)" "lists_ok (insert e ?F - {c}) l1 fl fc" by auto
  have "insert e ?F - {c} = insert e (?F - {c})" using l12 by auto
  with 4(2) have 5: "lists_ok (insert e (?F - {c})) l2 fl fc"
    using l12 by (subst lists_ok_cong [of _ _ l1]) auto
  have len: "set_length c (sub64 (l1 c) (l1 e)) (a3\<lparr>freeL := fl, freeC := fc, clen := l1\<rparr>) =
      a3\<lparr>freeL := fl, freeC := fc, clen := l2\<rparr>"
    using bd l l12 by (simp add: set_length_def sub64_exact)
  from UpdateMeta_ok [of "a3\<lparr>freeL := fl, freeC := fc, clen := l2\<rparr>" w1 c b off ?ur False] wi 3(2) bd bo l l12
  obtain w2 where
    6: "BdmAllocatorUpdateMeta b off c False (a3\<lparr>freeL := fl, freeC := fc, clen := l2\<rparr>) w1 =
          Some (BDM_CODE_OK, a3\<lparr>freeL := fl, freeC := fc, clen := l2, metas := (metas a)(e := ?fr, c := ?ur)\<rparr>, w2)"
      "good w2" "content w2 = (content w)(e := ?fr, c := ?ur)"
    using 3(3) by (auto simp: wired_def a3_def a0_def ci_def)
  define a' where "a' = a\<lparr>cidx := (cidx a)(e := e), freeL := fl, freeC := fc, clen := l2,
      metas := (metas a)(e := ?fr, c := ?ur), tree := ngx_rbtree_replace (tree a) e c\<rparr>"
  have "shape num (dom ?U) a'" "free_heads a' = insert e (?F - {c})"
    using shape_split(1,2) [OF s c l e_def l2_def 5] by (simp_all add: a'_def)
  moreover have "recorded (insert e (?F - {c})) l2 ?U (m(e := ?fr, c := ?ur))"
    if "recorded ?F (clen a) U m" for m
    using recorded_split [OF s c l e_def that l2_def] .
  ultimately have "alloc_inv num ?U a' (content w2)"
    using alloc_invD(2-4) [OF inv] 6(3) bd fresh by (auto simp: alloc_inv_def a'_def l2_def)
  moreover have "BdmAllocatorRemoveDiffLen c b off l a w = Some (BDM_CODE_OK, Some c, a', w2)"
  proof -
    have "a3\<lparr>freeL := fl, freeC := fc, clen := l2, metas := (metas a)(e := ?fr, c := ?ur),
        tree := ngx_rbtree_replace (tree a) e c\<rparr> = a'"
      by (cases a) (simp add: a'_def a3_def a0_def ci_def)
    moreover have "tree a3 = tree a" by (simp add: a3_def a0_def)
    ultimately show ?thesis
      using a1 2(1) 3(1) a3 4(1) len 6(1) bd(4)
      by (simp add: BdmAllocatorRemoveDiffLen_def Let_def flip: e_def)
  qed
  moreover have "same_config a a'" "usedSize a' = usedSize a" by (simp_all add: same_config_def a'_def)
  ultimately show ?thesis using 6(2) by blast
qed

text \<open>
  Taking a chunk: it succeeds exactly when some free area is long enough; the new chunk is
  added to the abstract state, its units were free before.
\<close>

lemma Remove_ok:
  assumes inv: "alloc_inv num U a (content w)" and wi: "wired a w" and bo: "b < 2 ^ 64" "off < 2 ^ 64"
    and ms: "0 < minChunkSize a" and l: "0 < l" "sz div minChunkSize a = l"
    and ex: "\<exists>k\<in>free_heads a. l \<le> clen a k"
  shows "\<exists>c a' w'. BdmAllocatorRemove b off sz a w = Some (BDM_CODE_OK, Some c, a', w') \<and>
           c \<in> free_heads a \<and> l \<le> clen a c \<and>
           alloc_inv num (U(c \<mapsto> (l, b, off))) a' (content w') \<and>
           same_config a a' \<and> usedSize a' = usedSize a \<and> good w'"
proof -
  note lo = shapeD(3) [OF alloc_invD(1) [OF inv]]
  obtain i c where sc: "scan_free (clen a) (freeL a) l (min l BDM_FREE_LIST_NUM - 1) = Some (i, c)"
    using scan_free_spec(2) [OF lo l(1)] ex by fastforce
  from scan_free_spec(1) [OF lo l(1) sc]
  have c: "c \<in> free_heads a" "l \<le> clen a c" "i = min (clen a c) BDM_FREE_LIST_NUM - 1" by auto
  have step: "BdmAllocatorRemove b off sz a w =
      (if clen a c = l then BdmAllocatorRemoveSameLen c b off i a w
       else BdmAllocatorRemoveDiffLen c b off l a w)"
    using ms l sc by (simp add: BdmAllocatorRemove_def)
  show ?thesis
  proof (cases "clen a c = l")
    case True
    with RemoveSameLen_ok [OF inv wi c(1,3) bo] step c show ?thesis by auto
  next
    case False
    with c have "l < clen a c" by simp
    from RemoveDiffLen_ok [OF inv wi c(1) l(1) this bo] step False c show ?thesis by auto
  qed
qed

lemma Remove_none:
  assumes inv: "alloc_inv num U a disk"
    and ms: "0 < minChunkSize a" and l: "0 < l" "sz div minChunkSize a = l"
    and no: "\<forall>k\<in>free_heads a. clen a k < l"
  shows "BdmAllocatorRemove b off sz a w = Some (BDM_CODE_ERR, None, a, w)"
  using scan_free_spec(2) [OF shapeD(3) [OF alloc_invD(1) [OF inv]] l(1)] no ms l
  by (simp add: BdmAllocatorRemove_def)

end

section \<open>Enumerating the used chunks\<close>

lemma scan_used_ok:
  assumes "walk m U n i" "dom U \<subseteq> {..<n}"
  shows "(\<exists>k. scan_used m n i = Some (Inl k) \<and> k \<in> dom U \<and> i \<le> k \<and> (\<forall>j\<in>dom U. i \<le> j \<longrightarrow> k \<le> j) \<and>
            m k = used_rec (the (U k)) \<and> walk m U n (k + used_len U k) \<and>
            (\<forall>j\<in>dom U. \<not> (k < j \<and> j < k + used_len U k)) \<and> 0 < used_len U k) \<or>
         scan_used m n i = Some (Inr BDM_CODE_SCAN_OFF) \<and> (\<forall>j\<in>dom U. j < i)"
  using assms
proof (induction rule: walk.induct)
  case walk_end
  then show ?case by (subst (2) scan_used.simps) auto
next
  case (walk_free i)
  have "i < n" using walk_le [OF walk_free.hyps(4)] walk_free.hyps(3) by simp
  then have eq: "scan_used m n i = scan_used m n (i + mlength (m i))"
    using walk_free.hyps by (subst scan_used.simps) simp
  have "i \<le> j \<longleftrightarrow> i + mlength (m i) \<le> j" if "j \<in> dom U" for j
    using walk_free.hyps(5) that by (meson le_add1 not_le order_trans)
  with walk_free.IH [OF walk_free.prems] show ?case unfolding eq by (meson not_le)
next
  case (walk_used i l b off)
  have "i < n" using walk_le [OF walk_used.hyps(4)] walk_used.hyps(3) by simp
  then have "scan_used m n i = Some (Inl i)"
    using walk_used.hyps by (subst scan_used.simps) simp
  with walk_used.hyps show ?case by (intro disjI1 exI [of _ i]) auto
qed

text \<open>The loop of a client of \<open>BdmAllocatorGetNextChunk\<close>: call it until it reports the end.\<close>

fun scan_all :: "nat \<Rightarrow> 'w alloc \<Rightarrow> (nat \<times> nat \<times> nat \<times> nat) list option" where
  "scan_all 0 a = None"
| "scan_all (Suc fuel) a =
     (case BdmAllocatorGetNextChunk a of
        None \<Rightarrow> None
      | Some (ret, out, a') \<Rightarrow>
          if ret = BDM_CODE_OK then map_option (Cons (the out)) (scan_all fuel a')
          else if ret = BDM_CODE_SCAN_OFF then Some [] else None)"

definition chunk_info :: "nat \<Rightarrow> used_map \<Rightarrow> nat \<Rightarrow> nat \<times> nat \<times> nat \<times> nat" where
  "chunk_info unit U k = (k, used_len U k * unit, snd (the (U k)))"

lemma GetNextChunk_ok:
  assumes "walk (metas a) U (chunkNum a) (scanIndex a)" "dom U \<subseteq> {..<chunkNum a}"
    and c: "minChunkSize a * chunkNum a < 2 ^ 64"
  shows "(\<exists>k. BdmAllocatorGetNextChunk a =
              Some (BDM_CODE_OK, Some (chunk_info (minChunkSize a) U k), a\<lparr>scanIndex := k + used_len U k\<rparr>) \<and>
            k \<in> dom U \<and> scanIndex a \<le> k \<and> (\<forall>j\<in>dom U. scanIndex a \<le> j \<longrightarrow> k \<le> j) \<and>
            walk (metas a) U (chunkNum a) (k + used_len U k) \<and>
            (\<forall>j\<in>dom U. \<not> (k < j \<and> j < k + used_len U k)) \<and> 0 < used_len U k) \<or>
         BdmAllocatorGetNextChunk a = Some (BDM_CODE_SCAN_OFF, None, a\<lparr>scanIndex := chunkNum a\<rparr>) \<and>
           (\<forall>j\<in>dom U. j < scanIndex a)"
  using scan_used_ok [OF assms(1,2)]
proof (elim disjE exE conjE)
  fix k
  assume k: "scan_used (metas a) (chunkNum a) (scanIndex a) = Some (Inl k)" "k \<in> dom U" "scanIndex a \<le> k"
    "\<forall>j\<in>dom U. scanIndex a \<le> j \<longrightarrow> k \<le> j" "metas a k = used_rec (the (U k))"
    "walk (metas a) U (chunkNum a) (k + used_len U k)" "\<forall>j\<in>dom U. \<not> (k < j \<and> j < k + used_len U k)"
    "0 < used_len U k"
  obtain l b off where U: "U k = Some (l, b, off)" using k(2) by auto
  have "l \<le> chunkNum a" using walk_le [OF k(6)] U by simp
  then have "l * minChunkSize a \<le> minChunkSize a * chunkNum a" by simp
  with c have "l * minChunkSize a < 2 ^ 64" by linarith
  then have "BdmAllocatorGetNextChunk a =
      Some (BDM_CODE_OK, Some (chunk_info (minChunkSize a) U k), a\<lparr>scanIndex := k + used_len U k\<rparr>)"
    using k(1,5) U by (simp add: BdmAllocatorGetNextChunk_def chunk_info_def mul64_exact)
  with k show ?thesis by blast
qed (simp add: BdmAllocatorGetNextChunk_def)

lemma scan_all_ok:
  assumes "walk (metas a) U (chunkNum a) (scanIndex a)" "dom U \<subseteq> {..<chunkNum a}"
    "minChunkSize a * chunkNum a < 2 ^ 64" "S = {k \<in> dom U. scanIndex a \<le> k}" "card S < fuel"
  shows "scan_all fuel a = Some (map (chunk_info (minChunkSize a) U) (sorted_list_of_set S))"
  using assms
proof (induction fuel arbitrary: a S)
  case (Suc fuel)
  have fin: "finite S" using Suc.prems(2,4) finite_subset [of S "{..<chunkNum a}"] by auto
  from GetNextChunk_ok [OF Suc.prems(1-3)] show ?case
  proof (elim disjE exE conjE)
    fix k
    assume k: "BdmAllocatorGetNextChunk a =
              Some (BDM_CODE_OK, Some (chunk_info (minChunkSize a) U k), a\<lparr>scanIndex := k + used_len U k\<rparr>)"
      "k \<in> dom U" "scanIndex a \<le> k" "\<forall>j\<in>dom U. scanIndex a \<le> j \<longrightarrow> k \<le> j"
      "walk (metas a) U (chunkNum a) (k + used_len U k)" "\<forall>j\<in>dom U. \<not> (k < j \<and> j < k + used_len U k)"
      "0 < used_len U k"
    have kS: "k \<in> S" "\<forall>j\<in>S. k \<le> j" using k Suc.prems(4) by auto
    have S': "S - {k} = {j \<in> dom U. k + used_len U k \<le> j}"
    proof (intro set_eqI iffI)
      fix j assume "j \<in> S - {k}"
      then have "j \<in> dom U" "k < j" using kS Suc.prems(4) by (auto simp: less_le)
      with k(6) show "j \<in> {j \<in> dom U. k + used_len U k \<le> j}" by force
    qed (use k(3,7) Suc.prems(4) in auto)
    have "Min S = k" using kS fin by (intro Min_eqI) auto
    then have "sorted_list_of_set S = k # sorted_list_of_set (S - {k})"
      using sorted_list_of_set_nonempty [OF fin] kS by auto
    moreover have "card (S - {k}) < fuel" 
      using Suc.prems(5) card_Diff1_less [OF fin kS(1)] by linarith
    then have "scan_all fuel (a\<lparr>scanIndex := k + used_len U k\<rparr>) =
        Some (map (chunk_info (minChunkSize a) U) (sorted_list_of_set (S - {k})))"
      using Suc.IH [of "a\<lparr>scanIndex := k + used_len U k\<rparr>" "S - {k}"] k(5) Suc.prems(2,3) S' by simp
    ultimately show ?thesis using k(1) by simp
  next
    assume r: "BdmAllocatorGetNextChunk a = Some (BDM_CODE_SCAN_OFF, None, a\<lparr>scanIndex := chunkNum a\<rparr>)"
      "\<forall>j\<in>dom U. j < scanIndex a"
    have "\<not> scanIndex a \<le> j" if "j \<in> dom U" for j using r(2) that by (simp add: not_le)
    then have "S = {}" using Suc.prems(4) by blast
    with r(1) show ?thesis by simp
  qed
qed simp

section \<open>Creating and restoring\<close>

definition used_units :: "used_map \<Rightarrow> nat \<Rightarrow> nat" where
  "used_units U i = (\<Sum>k\<in>dom U \<inter> {..<i}. used_len U k)"

lemma used_units_step:
  assumes "\<forall>j\<in>dom U. \<not> (i \<le> j \<and> j < e)" "i \<le> (e :: nat)"
  shows "dom U \<inter> {..<e} = dom U \<inter> {..<i}"
proof -
  have "j < e \<longleftrightarrow> j < i" if "j \<in> dom U" for j
    using assms(1) [THEN bspec, OF that] assms(2) by auto
  then show ?thesis by blast
qed

lemma restrict_dom_eq:
  assumes "dom U \<inter> A = dom U \<inter> B"
  shows "U |` A = U |` B"
proof
  fix x
  have "x \<in> dom U \<Longrightarrow> x \<in> A \<longleftrightarrow> x \<in> B" using assms by blast
  then show "(U |` A) x = (U |` B) x"
    by (cases "x \<in> dom U") (auto simp: restrict_map_def domIff)
qed

lemma used_units_used:
  assumes "U i = Some (l, b, off)" "\<forall>j\<in>dom U. \<not> (i < j \<and> j < i + l)" "0 < l"
  shows "dom U \<inter> {..<i + l} = insert i (dom U \<inter> {..<i})" "used_units U (i + l) = used_units U i + l"
proof -
  show *: "dom U \<inter> {..<i + l} = insert i (dom U \<inter> {..<i})"
  proof (intro set_eqI iffI)
    fix j assume "j \<in> dom U \<inter> {..<i + l}"
    then have j: "j \<in> dom U" "j < i + l" by auto
    from assms(2) [THEN bspec, OF j(1)] j show "j \<in> insert i (dom U \<inter> {..<i})" by fastforce
  qed (use assms in auto)
  show "used_units U (i + l) = used_units U i + l" unfolding used_units_def * using assms by simp
qed

lemma shape_extend:
  assumes s: "shape i V a" and l: "0 < l" "i + l \<le> chunkNum a" and V: "V \<subseteq> {..<i}"
  shows "shape (i + l) (insert i V) (a\<lparr>cidx := (cidx a)(i := i), clen := (clen a)(i := l)\<rparr>)"
proof -
  have F: "free_heads a \<subseteq> {..<i}" using shape_bounds(3) [OF s] by auto
  then have ni: "i \<notin> free_heads a" by auto
  have "lists_ok (free_heads a) ((clen a)(i := l)) (freeL a) (freeC a)"
    using shapeD(3) [OF s] ni by (subst lists_ok_cong [of _ _ "clen a"]) auto
  moreover have "tiling (i + l) (insert i (free_heads a \<union> V)) ((clen a)(i := l))"
    using F V by (intro tiling_extend [OF shapeD(5) [OF s] l(1)]) auto
  ultimately show ?thesis using shapeD(1,2,4,6,7,9) [OF s] l ni by (auto simp: shape_def)
qed

context meta_store
begin

text \<open>The state of \<open>restore_loop\<close> at unit \<open>i\<close>: the units before it are done, the rest of the table is as read.\<close>

definition restoring :: "used_map \<Rightarrow> (nat \<Rightarrow> chunk_meta) \<Rightarrow> nat \<Rightarrow> 'w alloc \<Rightarrow> 'w \<Rightarrow> bool" where
  "restoring U D i a w \<longleftrightarrow>
     wired a w \<and> shape i (dom U \<inter> {..<i}) a \<and>
     (\<forall>k\<in>dom U \<inter> {..<i}. clen a k = used_len U k) \<and>
     (\<forall>m\<in>{metas a, content w}. recorded (free_heads a) (clen a) (U |` {..<i}) m \<and>
        (\<forall>j. i \<le> j \<and> j < num \<longrightarrow> m j = D j)) \<and>
     usedSize a = minChunkSize a * used_units U i \<and> minChunkSize a * num < 2 ^ 64"

lemma restoring_free:
  assumes r: "restoring U D i a w" and l: "l = mlength (D i)" "0 < l" "mhead (D i)" "mfree (D i)" "i + l \<le> num"
    and no: "\<forall>j\<in>dom U. \<not> (i \<le> j \<and> j < i + l)"
    and a1: "a1 = a\<lparr>cidx := (cidx a)(i := i), clen := (clen a)(i := l)\<rparr>"
  shows "\<exists>a' w'. BdmAllocatorRestoreInsert i a1 w = Some (BDM_CODE_OK, a', w') \<and>
           restoring U D (i + l) a' w' \<and> same_config a a'"
proof -
  let ?V = "dom U \<inter> {..<i}"
  have wi: "wired a w" and s: "shape i ?V a" using r by (auto simp: restoring_def)
  have F: "k \<in> free_heads a \<Longrightarrow> k < i" for k using shape_bounds(3) [OF s, of k] by auto
  have V: "dom U \<inter> {..<i + l} = ?V" using no by (intro used_units_step) auto
  have s1: "shape (i + l) (insert i ?V) a1" unfolding a1
    using l wi by (intro shape_extend [OF s]) (auto simp: wired_def)
  have "wired a1 w" using wi by (simp add: wired_def a1)
  from RestoreInsert_ok [OF s1 this, of i] obtain a' w' where
    2: "BdmAllocatorRestoreInsert i a1 w = Some (BDM_CODE_OK, a', w')"
       "absorbed (i + l) (insert i ?V) i a1 w a' w'" by auto
  have Vi: "insert i ?V - {i} = ?V" by auto
  from 2(2) obtain g where g: "metas a' = g (metas a1)" "content w' = g (content w)"
    "\<forall>m j. j \<in> ?V \<or> i + l \<le> j \<longrightarrow> g m j = m j"
    "\<forall>m. runs (free_heads a1) (clen a1) m \<longrightarrow> free_run m i (i + clen a1 i) \<longrightarrow> runs (free_heads a') (clen a') (g m)"
    unfolding absorbed_def Vi by blast
  have a': "shape (i + l) ?V a'" "same_frame a1 a'" "good w'" "\<forall>j\<in>?V. clen a' j = clen a1 j"
    using 2(2) unfolding absorbed_def Vi by blast+
  have "wired a' w'" using wi a'(3) same_frameD(1,7) [OF a'(2)] by (simp add: wired_def a1)
  moreover have "recorded (free_heads a') (clen a') (U |` {..<i + l}) (g m) \<and>
      (\<forall>j. i + l \<le> j \<and> j < num \<longrightarrow> g m j = D j)"
    if m: "recorded (free_heads a) (clen a) (U |` {..<i}) m" "\<forall>j. i \<le> j \<and> j < num \<longrightarrow> m j = D j" for m
  proof -
    have "m i = D i" using m(2) l by auto
    then have "free_run m i (i + l)"
      using l by - (rule free_run_step, auto intro: free_run_end)
    moreover have "runs (free_heads a1) (clen a1) m"
      using m(1) F by (auto simp: a1 recorded_def runs_def)
    ultimately have "runs (free_heads a') (clen a') (g m)" using g(4) by (simp add: a1)
    moreover have "U |` {..<i + l} = U |` {..<i}"
      by (rule restrict_dom_eq [OF V])
    moreover have "\<forall>k\<in>?V. g m k = m k" using g(3) by blast
    ultimately show ?thesis using m g(3) by (auto simp: recorded_def)
  qed
  moreover have "\<forall>k\<in>?V. clen a' k = used_len U k"
    using a'(4) r by (auto simp: restoring_def a1)
  moreover have "used_units U (i + l) = used_units U i" by (simp add: used_units_def V)
  ultimately have "restoring U D (i + l) a' w'"
    using r a'(1) g(1,2) same_frameD(2,5) [OF a'(2)] unfolding restoring_def V by (auto simp: a1)
  moreover have "same_config a a'"
    using same_frame_config [OF a'(2)] by (simp add: same_config_def a1)
  ultimately show ?thesis using 2(1) by blast
qed

lemma restoring_used:
  assumes r: "restoring U D i a w" and U: "U i = Some (l, b, off)" and D: "D i = used_rec (l, b, off)"
    and l: "0 < l" "i + l \<le> num" and no: "\<forall>j\<in>dom U. \<not> (i < j \<and> j < i + l)"
  shows "restoring U D (i + l) (a\<lparr>cidx := (cidx a)(i := i), clen := (clen a)(i := l),
             usedSize := add64 (usedSize a) (mul64 (minChunkSize a) l)\<rparr>) w" (is "restoring _ _ _ ?a _")
proof -
  let ?V = "dom U \<inter> {..<i}"
  have wi: "wired a w" and s: "shape i ?V a" and c: "minChunkSize a * num < 2 ^ 64"
    using r by (auto simp: restoring_def)
  have V: "dom U \<inter> {..<i + l} = insert i ?V" "used_units U (i + l) = used_units U i + l"
    using used_units_used [OF U no l(1)] by auto
  have F: "k \<in> free_heads a \<Longrightarrow> k < i" for k using shape_bounds(3) [OF s, of k] by auto
  have "shape (i + l) (insert i ?V) ?a"
    using shape_extend [OF s l(1)] l wi by (auto simp: wired_def shape_def)
  moreover have "wired ?a w" using wi by (simp add: wired_def)
  moreover have "recorded (free_heads a) ((clen a)(i := l)) (U |` {..<i + l}) m"
    if m: "recorded (free_heads a) (clen a) (U |` {..<i}) m" "\<forall>j. i \<le> j \<and> j < num \<longrightarrow> m j = D j" for m
  proof -
    have "m i = used_rec (l, b, off)" using m(2) l D by auto
    moreover have "runs (free_heads a) ((clen a)(i := l)) m"
      using m(1) F by (auto simp: recorded_def runs_def)
    moreover have "m k = used_rec (the (U k))" if "k \<in> ?V" for k
      using m(1) that by (auto simp: recorded_def)
    ultimately show ?thesis using V(1) U by (auto simp: recorded_def)
  qed
  moreover have "usedSize ?a = minChunkSize a * used_units U (i + l)"
  proof -
    have "used_units U i \<le> i"
    proof -
      have "used_units U i = (\<Sum>k\<in>?V. clen a k)"
        using r by (auto simp: used_units_def restoring_def)
      also have "\<dots> \<le> (\<Sum>k\<in>free_heads a \<union> ?V. clen a k)"
        by (rule sum_mono2) (auto simp: tiling_finite [OF shapeD(5) [OF s]])
      also have "\<dots> = i" by (rule tiling_sum [OF shapeD(5) [OF s]])
      finally show ?thesis .
    qed
    then have "minChunkSize a * (used_units U i + l) \<le> minChunkSize a * num" using l by simp
    with c have "minChunkSize a * used_units U i + minChunkSize a * l < 2 ^ 64" by (simp add: distrib_left)
    then show ?thesis using r V(2)
      by (simp add: restoring_def add64_exact mul64_exact distrib_left)
  qed
  ultimately show ?thesis using r U unfolding restoring_def V by auto
qed

lemma restore_loop_ok:
  assumes "walk D U num i" "restoring U D i a w"
  shows "\<exists>a' w'. restore_loop i a w = Some (BDM_CODE_OK, a', w') \<and> restoring U D num a' w' \<and> same_config a a'"
  using assms
proof (induction arbitrary: a w rule: walk.induct)
  case walk_end
  then have "restore_loop num a w = Some (BDM_CODE_OK, a, w)"
    by (subst restore_loop.simps) (simp add: restoring_def wired_def)
  with walk_end show ?case by (auto simp: same_config_def)
next
  case (walk_free i)
  let ?l = "mlength (D i)" and ?a1 = "a\<lparr>cidx := (cidx a)(i := i), clen := (clen a)(i := mlength (D i))\<rparr>"
  have i: "i < num" "i + ?l \<le> num" using walk_le [OF walk_free.hyps(4)] walk_free.hyps(3) by auto
  have m: "metas a i = D i" "chunkNum a = num"
    using walk_free.prems i by (auto simp: restoring_def wired_def)
  from restoring_free [OF walk_free.prems refl walk_free.hyps(3,1,2) i(2) walk_free.hyps(5) refl]
  obtain a1 w1 where 1: "BdmAllocatorRestoreInsert i ?a1 w = Some (BDM_CODE_OK, a1, w1)"
    "restoring U D (i + ?l) a1 w1" "same_config a a1" by blast
  from walk_free.IH [OF 1(2)] obtain a' w' where
    2: "restore_loop (i + ?l) a1 w1 = Some (BDM_CODE_OK, a', w')" "restoring U D num a' w'" "same_config a1 a'"
    by blast
  have "restore_loop i a w = Some (BDM_CODE_OK, a', w')"
    using i m 1(1) 2(1) walk_free.hyps by (subst restore_loop.simps) simp
  with 1(3) 2 show ?case by (auto simp: same_config_def)
next
  case (walk_used i l b off)
  let ?a1 = "a\<lparr>cidx := (cidx a)(i := i), clen := (clen a)(i := l),
             usedSize := add64 (usedSize a) (mul64 (minChunkSize a) l)\<rparr>"
  have i: "i < num" "i + l \<le> num" using walk_le [OF walk_used.hyps(4)] walk_used.hyps(3) by auto
  have m: "metas a i = D i" "chunkNum a = num"
    using walk_used.prems i by (auto simp: restoring_def wired_def)
  from walk_used.IH [OF restoring_used [OF walk_used.prems walk_used.hyps(1-3) i(2) walk_used.hyps(5)]]
  obtain a' w' where
    2: "restore_loop (i + l) ?a1 w = Some (BDM_CODE_OK, a', w')" "restoring U D num a' w'" "same_config ?a1 a'"
    by blast
  have "restore_loop i a w = Some (BDM_CODE_OK, a', w')"
    using i m 2(1) walk_used.hyps by (subst restore_loop.simps) simp
  with 2 show ?case by (auto simp: same_config_def)
qed

lemma restoring_inv:
  assumes "restoring U D num a w" "dom U \<subseteq> {..<num}"
  shows "alloc_inv num U a (content w)" "usedSize a = minChunkSize a * used_units U num"
proof -
  have d: "dom U \<inter> {..<num} = dom U" using assms(2) by auto
  moreover have "U |` {..<num} = U"
    using restrict_dom_eq [of U "{..<num}" UNIV] d by (simp add: restrict_map_def)
  ultimately show "alloc_inv num U a (content w)" "usedSize a = minChunkSize a * used_units U num"
    using assms(1) by (auto simp: restoring_def alloc_inv_def)
qed

lemma restoring_start:
  assumes "wired a w" "tree a = Leaf" "freeL a = (\<lambda>_. [])" "freeC a = (\<lambda>_. 0)" "usedSize a = 0"
    "minChunkSize a * num < 2 ^ 64" "\<forall>j<num. metas a j = D j \<and> content w j = D j"
  shows "restoring U D 0 a w"
  using assms by (auto simp: restoring_def shape_def lists_ok_empty recorded_def runs_def used_units_def wired_def)

text \<open>
  A new allocator owns one free area and no used chunk; a restored one has the used chunks the
  records on the disk describe.
\<close>

lemma Create_new:
  assumes p: "paraOps para = \<lparr>writeMeta = Some wr, readMeta = Some rd\<rparr>" "0 < paraMinChunkSize para"
      "paraTotalSize para div paraMinChunkSize para = num"
    and h: "structOk h" "tableOk h" and w: "good w" and n: "0 < num" "num < 2 ^ 21"
  shows "\<exists>a w'. BdmAllocatorCreate para False h w = Some (Some a, w') \<and>
           alloc_inv num Map.empty a (content w') \<and> wired a w' \<and> usedSize a = 0 \<and> scanIndex a = 0 \<and>
           minChunkSize a = paraMinChunkSize para \<and> totalSize a = paraTotalSize para"
proof -
  define r where "r = \<lparr>tree = Leaf, freeL = (\<lambda>_. []), freeC = (\<lambda>_. 0), metaOps = paraOps para,
      metas = junkMeta h, minChunkSize = paraMinChunkSize para,
      maxChunkSize = paraMaxChunkSize para, totalSize = paraTotalSize para, usedSize = 0,
      scanIndex = 0, chunkNum = num, cidx = junkIdx h, clen = junkLen h\<rparr>"
  define a1 where "a1 = r\<lparr>cidx := (junkIdx h)(0 := 0), clen := (junkLen h)(0 := num)\<rparr>"
  have s: "shape num {0} a1"
    using n by (auto simp: shape_def a1_def r_def lists_ok_empty intro!: tiling_whole)
  have wi: "wired a1 w" using p w n by (simp add: wired_def a1_def r_def)
  from Insert_ok [OF s wi] obtain a w' hh where
    1: "BdmAllocatorInsert 0 a1 w = Some (BDM_CODE_OK, a, w')" "shape num ({0} - {0}) a" "same_frame a1 a" "good w'"
      "metas a = hh (metas a1)" "content w' = hh (content w)"
      "\<forall>m. runs (free_heads a1) (clen a1) m \<longrightarrow> runs (free_heads a) (clen a) (hh m)" by auto
  have "runs (free_heads a1) (clen a1) m" for m by (simp add: runs_def a1_def r_def)
  with 1 have "alloc_inv num Map.empty a (content w')" by (simp add: alloc_inv_def recorded_def)
  moreover have "BdmAllocatorCreate para False h w = Some (Some a, w')"
    using p h 1(1) by (simp add: BdmAllocatorCreate_def BdmAllocatorCreateImpl_def r_def a1_def)
  moreover have "wired a w'" "usedSize a = 0" "scanIndex a = 0" "minChunkSize a = paraMinChunkSize para"
    "totalSize a = paraTotalSize para"
    using wi 1(4) same_frameD [OF 1(3)] by (simp_all add: wired_def a1_def r_def)
  ultimately show ?thesis by blast
qed

lemma Create_restore:
  assumes p: "paraOps para = \<lparr>writeMeta = Some wr, readMeta = Some rd\<rparr>" "0 < paraMinChunkSize para"
      "paraTotalSize para div paraMinChunkSize para = num" "paraTotalSize para < 2 ^ 64"
    and h: "structOk h" "tableOk h" and w: "good w" and n: "num < 2 ^ 21"
    and U: "walk (content w) U num 0" "dom U \<subseteq> {..<num}"
  shows "\<exists>a w'. BdmAllocatorCreate para True h w = Some (Some a, w') \<and>
           alloc_inv num U a (content w') \<and> wired a w' \<and>
           usedSize a = paraMinChunkSize para * used_units U num \<and> scanIndex a = 0 \<and>
           minChunkSize a = paraMinChunkSize para \<and> totalSize a = paraTotalSize para"
proof -
  from rd_law [OF w] obtain tab w1 where
    rd: "rd w 0 (sizeof_BdmChunkMeta * num) = (BDM_CODE_OK, tab, w1)" "good w1" "content w1 = content w"
      "\<forall>i<num. tab i = content w i" by blast
  define r where "r = \<lparr>tree = Leaf, freeL = (\<lambda>_. []), freeC = (\<lambda>_. 0), metaOps = paraOps para,
      metas = tab, minChunkSize = paraMinChunkSize para,
      maxChunkSize = paraMaxChunkSize para, totalSize = paraTotalSize para, usedSize = 0,
      scanIndex = 0, chunkNum = num, cidx = junkIdx h, clen = junkLen h\<rparr>"
  have wi: "wired r w1" using p rd n by (simp add: wired_def r_def)
  have "paraMinChunkSize para * num \<le> paraTotalSize para" using p(3) by (simp add: times_div_less_eq_dividend flip: p(3))
  then have "restoring U (content w) 0 r w1"
    using p rd wi by (intro restoring_start) (auto simp: r_def)
  from restore_loop_ok [OF U(1) this] obtain a w' where
    1: "restore_loop 0 r w1 = Some (BDM_CODE_OK, a, w')" "restoring U (content w) num a w'" "same_config r a" by blast
  have "BdmAllocatorCreate para True h w = Some (Some a, w')"
    using p h rd(1) 1(1) n by (simp add: BdmAllocatorCreate_def BdmAllocatorRestoreImpl_def r_def mul64_exact)
  moreover have "alloc_inv num U a (content w')" "usedSize a = minChunkSize a * used_units U num"
    using restoring_inv [OF 1(2) U(2)] by auto
  moreover have "wired a w'" using 1(2) by (simp add: restoring_def)
  moreover have "scanIndex a = 0" "minChunkSize a = paraMinChunkSize para" "totalSize a = paraTotalSize para"
    using 1(3) by (simp_all add: same_config_def r_def)
  ultimately show ?thesis by auto
qed

end

end
