(* ===== verification/BdmAllocatorProps.thy ===== *)
theory BdmAllocatorProps
  imports BdmAllocatorSpec
begin

text \<open>
  The properties of the chunk allocator, stated on its interface functions. \<open>serving\<close> collects
  what holds of an allocator between two calls; \<open>U\<close> is its abstract state. The metadata store is
  any one that obeys the contract \<open>meta_store\<close>; the disk layer provides one.
\<close>

definition serving ::
  "('w \<Rightarrow> nat \<Rightarrow> chunk_meta \<Rightarrow> nat \<Rightarrow> int \<times> 'w) \<Rightarrow> ('w \<Rightarrow> nat \<Rightarrow> nat \<Rightarrow> int \<times> (nat \<Rightarrow> chunk_meta) \<times> 'w) \<Rightarrow>
   ('w \<Rightarrow> nat \<Rightarrow> chunk_meta) \<Rightarrow> ('w \<Rightarrow> bool) \<Rightarrow> used_map \<Rightarrow> 'w alloc \<Rightarrow> 'w \<Rightarrow> bool" where
  "serving wr rd content good U a w \<longleftrightarrow>
     metaOps a = \<lparr>writeMeta = Some wr, readMeta = Some rd\<rparr> \<and> good w \<and>
     alloc_inv (chunkNum a) U a (content w) \<and>
     0 < minChunkSize a \<and> minChunkSize a * chunkNum a < 2 ^ 64 \<and>
     usedSize a = minChunkSize a * used_units U (chunkNum a)"

lemma servingD:
  assumes "serving wr rd content good U a w"
  shows "metaOps a = \<lparr>writeMeta = Some wr, readMeta = Some rd\<rparr>" "good w"
    "alloc_inv (chunkNum a) U a (content w)" "0 < minChunkSize a" "minChunkSize a * chunkNum a < 2 ^ 64"
    "usedSize a = minChunkSize a * used_units U (chunkNum a)" "chunkNum a < 2 ^ 21"
  using assms shapeD(9) [OF alloc_invD(1)] by (auto simp: serving_def)

lemma dom_bound: "alloc_inv n U a disk \<Longrightarrow> dom U \<subseteq> {..<n}"
  using shape_bounds(3) [OF alloc_invD(1)] by blast

lemma used_units_all: "dom U \<subseteq> {..<n} \<Longrightarrow> used_units U n = (\<Sum>k\<in>dom U. used_len U k)"
  by (simp add: used_units_def Int_absorb2)

lemma used_units_insert:
  assumes "dom U \<subseteq> {..<n}" "c < n" "c \<notin> dom U"
  shows "used_units (U(c \<mapsto> (l, b, off))) n = used_units U n + l"
proof -
  have "finite (dom U)" using assms(1) finite_subset by blast
  moreover have "(\<Sum>k\<in>dom U. used_len (U(c \<mapsto> (l, b, off))) k) = (\<Sum>k\<in>dom U. used_len U k)"
    using assms(3) by (intro sum.cong) auto
  ultimately show ?thesis using assms by (simp add: used_units_all)
qed

lemma used_units_delete:
  assumes "dom U \<subseteq> {..<n}" "U c = Some (l, b, off)"
  shows "used_units U n = used_units (U(c := None)) n + l"
proof -
  have "finite (dom U)" using assms(1) finite_subset by blast
  moreover have "(\<Sum>k\<in>dom U - {c}. used_len (U(c := None)) k) = (\<Sum>k\<in>dom U - {c}. used_len U k)"
    by (intro sum.cong) auto
  moreover have "c \<in> dom U" using assms(2) by auto
  moreover have "dom (U(c := None)) \<subseteq> {..<n}" using assms(1) by auto
  ultimately show ?thesis
    using assms by (simp add: used_units_all sum.remove [of "dom U" c])
qed

lemma used_units_le:
  assumes "alloc_inv n U a disk"
  shows "used_units U n + (\<Sum>k\<in>free_heads a. clen a k) = n"
proof -
  note s = alloc_invD(1) [OF assms]
  have "(\<Sum>k\<in>free_heads a \<union> dom U. clen a k) = (\<Sum>k\<in>free_heads a. clen a k) + (\<Sum>k\<in>dom U. clen a k)"
    using shapeD(4) [OF s] tiling_finite [OF shapeD(5) [OF s]] by (intro sum.union_disjoint) auto
  moreover have "(\<Sum>k\<in>dom U. clen a k) = used_units U n"
    using alloc_invD(2) [OF assms] by (simp add: used_units_all [OF dom_bound [OF assms]])
  ultimately show ?thesis using tiling_sum [OF shapeD(5) [OF s]] by simp
qed

lemma free_fits:
  assumes inv: "alloc_inv n U a disk" and c: "c \<in> free_heads a" "l \<le> clen a c"
  shows "c \<notin> dom U" "c + l \<le> n" "k \<in> dom U \<Longrightarrow> seg c l \<inter> seg k (used_len U k) = {}"
proof -
  note s = alloc_invD(1) [OF inv]
  show "c \<notin> dom U" using shapeD(4) [OF s c(1)] .
  show "c + l \<le> n" using shape_bounds(2) [OF s, of c] c by auto
  assume k: "k \<in> dom U"
  with \<open>c \<notin> dom U\<close> have "seg c (clen a c) \<inter> seg k (clen a k) = {}"
    using tiling_disjoint [OF shapeD(5) [OF s], of c k] c by auto
  moreover have "seg c l \<subseteq> seg c (clen a c)" using c(2) by auto
  ultimately show "seg c l \<inter> seg k (used_len U k) = {}" using alloc_invD(2) [OF inv k] by auto
qed

lemma free_units:
  assumes "alloc_inv n U a disk"
  shows "(\<Union>j\<in>free_heads a. seg j (clen a j)) = {..<n} - (\<Union>j\<in>dom U. seg j (used_len U j))"
proof -
  note t = shapeD(5) [OF alloc_invD(1) [OF assms]]
  have "(\<Union>j\<in>free_heads a. seg j (clen a j)) \<union> (\<Union>j\<in>dom U. seg j (clen a j)) = {..<n}"
    using tilingD(5) [OF t] tilingD(2) [OF t] by fastforce
  moreover have "(\<Union>j\<in>free_heads a. seg j (clen a j)) \<inter> (\<Union>j\<in>dom U. seg j (clen a j)) = {}"
  proof -
    have "seg j (clen a j) \<inter> seg k (clen a k) = {}" if "j \<in> free_heads a" "k \<in> dom U" for j k
      using tiling_disjoint [OF t, of j k] that shapeD(4) [OF alloc_invD(1) [OF assms] that(1)] by blast
    then show ?thesis by blast
  qed
  moreover have "(\<Union>j\<in>dom U. seg j (clen a j)) = (\<Union>j\<in>dom U. seg j (used_len U j))"
    using alloc_invD(2) [OF assms] by simp
  moreover have "A \<union> B = N \<Longrightarrow> A \<inter> B = {} \<Longrightarrow> A = N - B" for A B N :: "nat set" by blast
  ultimately show ?thesis by metis
qed

lemma free_units_released:
  assumes "alloc_inv n U a disk" "alloc_inv n (U(k := None)) a' disk'" "U k = Some (l, b, off)"
  shows "(\<Union>j\<in>free_heads a'. seg j (clen a' j)) = (\<Union>j\<in>free_heads a. seg j (clen a j)) \<union> seg k l"
proof -
  let ?A = "\<Union>j\<in>dom U - {k}. seg j (used_len U j)"
  have "(\<Union>j\<in>dom (U(k := None)). seg j (used_len (U(k := None)) j)) = ?A" by auto
  moreover have "dom U = insert k (dom U - {k})" using assms(3) by auto
  then have "(\<Union>j\<in>dom U. seg j (used_len U j)) = seg k (used_len U k) \<union> ?A" by blast
  then have "(\<Union>j\<in>dom U. seg j (used_len U j)) = ?A \<union> seg k l" using assms(3) by auto
  moreover have "?A \<inter> seg k l = {}"
  proof -
    have "seg k l \<inter> seg j (used_len U j) = {}" if j: "j \<in> dom U - {k}" for j
    proof -
      obtain l' b' off' where "U j = Some (l', b', off')" "j \<noteq> k" using j by auto
      with alloc_inv_used(3) [OF assms(1,3) this] show ?thesis by simp
    qed
    then show ?thesis by blast
  qed
  moreover have "seg k l \<subseteq> {..<n}" using alloc_inv_used(2) [OF assms(1,3)] by auto
  moreover have "A \<inter> S = {} \<Longrightarrow> S \<subseteq> N \<Longrightarrow> N - A = (N - (A \<union> S)) \<union> S" for A S N :: "nat set" by blast
  ultimately show ?thesis unfolding free_units [OF assms(1)] free_units [OF assms(2)] by presburger
qed

context meta_store
begin

lemma alloc_chunk:
  assumes n: "chunkNum a = num" and sv: "serving wr rd content good U a w" and l: "0 < l"
    and bo: "b < 2 ^ 64" "off < 2 ^ 64" and ex: "\<exists>k\<in>free_heads a. l \<le> clen a k"
  shows "\<exists>c a' w'. BdmAllocatorAllocChunk b off (l * minChunkSize a) a w = Some (BDM_CODE_OK, Some c, a', w') \<and>
           c \<in> free_heads a \<and> l \<le> clen a c \<and>
           serving wr rd content good (U(c \<mapsto> (l, b, off))) a' w' \<and> same_config a a'"
proof -
  note d = servingD [OF sv]
  have wi: "wired a w" using d n by (simp add: wired_def)
  have dv: "l * minChunkSize a div minChunkSize a = l" using d(4) by simp
  from Remove_ok [OF d(3) [unfolded n] wi bo d(4) l dv ex] obtain c a1 w' where
    r: "BdmAllocatorRemove b off (l * minChunkSize a) a w = Some (BDM_CODE_OK, Some c, a1, w')"
      "c \<in> free_heads a" "l \<le> clen a c" "alloc_inv num (U(c \<mapsto> (l, b, off))) a1 (content w')"
      "same_config a a1" "usedSize a1 = usedSize a" "good w'" by blast
  define a' where "a' = a1\<lparr>usedSize := add64 (usedSize a1) (l * minChunkSize a)\<rparr>"
  have c: "c \<notin> dom U" "c + l \<le> num" using free_fits(1,2) [OF d(3) r(2,3)] n by auto
  have un: "used_units (U(c \<mapsto> (l, b, off))) num = used_units U num + l"
    using c l n dom_bound [OF d(3)] by (intro used_units_insert) auto
  have "used_units U num + l \<le> num"
    using used_units_le [OF r(4)] un by simp
  then have "minChunkSize a * (used_units U num + l) \<le> minChunkSize a * num" by (rule mult_le_mono2)
  then have "minChunkSize a * (used_units U num + l) < 2 ^ 64" using d(5) unfolding n by (rule le_less_trans)
  then have "add64 (usedSize a1) (l * minChunkSize a) = minChunkSize a * (used_units U num + l)"
    using r(6) d(6) n by (simp add: add64_exact distrib_left mult.commute)
  then have "serving wr rd content good (U(c \<mapsto> (l, b, off))) a' w'"
    using r d un n unfolding serving_def by (simp add: a'_def same_config_def)
  moreover have "BdmAllocatorAllocChunk b off (l * minChunkSize a) a w = Some (BDM_CODE_OK, Some c, a', w')"
    using r(1) by (simp add: BdmAllocatorAllocChunk_def a'_def)
  moreover have "same_config a a'" using r(5) by (simp add: same_config_def a'_def)
  ultimately show ?thesis using r(2,3) by blast
qed

lemma free_chunk:
  assumes n: "chunkNum a = num" and sv: "serving wr rd content good U a w" and U: "U k = Some (l, b, off)"
  shows "\<exists>a' w'. BdmAllocatorFreeChunk (l * minChunkSize a) k a w = Some (BDM_CODE_OK, a', w') \<and>
           serving wr rd content good (U(k := None)) a' w' \<and> same_config a a'"
proof -
  note d = servingD [OF sv]
  have wi: "wired a w" using d n by (simp add: wired_def)
  from FreeChunk_ok [OF d(3) [unfolded n] wi U] d(5) n obtain a1 w' where
    r: "BdmAllocatorFreeChunk (l * minChunkSize a) k a w =
          Some (BDM_CODE_OK, a1\<lparr>usedSize := sub64 (usedSize a) (l * minChunkSize a)\<rparr>, w')"
      "alloc_inv num (U(k := None)) a1 (content w')" "same_frame a a1" "good w'" by auto
  have un: "used_units U num = used_units (U(k := None)) num + l"
    using used_units_delete [OF dom_bound [OF d(3)] U] n by simp
  have "used_units U num \<le> num" using used_units_le [OF d(3)] n by simp
  then have "minChunkSize a * used_units U num \<le> minChunkSize a * num" by (rule mult_le_mono2)
  then have "minChunkSize a * used_units U num < 2 ^ 64" using d(5) unfolding n by (rule le_less_trans)
  then have "sub64 (usedSize a) (l * minChunkSize a) = minChunkSize a * used_units (U(k := None)) num"
    using d(6) n un by (subst sub64_exact) (auto simp: distrib_left mult.commute)
  then have "serving wr rd content good (U(k := None)) (a1\<lparr>usedSize := sub64 (usedSize a) (l * minChunkSize a)\<rparr>) w'"
    using r d n same_frameD [OF r(3)] unfolding serving_def by simp
  moreover have "same_config a (a1\<lparr>usedSize := sub64 (usedSize a) (l * minChunkSize a)\<rparr>)"
    using same_frame_config [OF r(3)] by (simp add: same_config_def)
  ultimately show ?thesis using r(1) by blast
qed

end

section \<open>Requests\<close>

text \<open>
  A client's requests, with sizes in units. \<open>Enumerate\<close> resets the scan and asks for the next
  used chunk until the end; \<open>Restart\<close> drops the allocator and builds a new one from the disk, as
  after a crash, \<open>h\<close> being the memory the new one gets.
\<close>

datatype request = Alloc nat nat nat | Free nat | Enumerate | Restart heap_block

datatype response = Chunk nat | NoSpace | Freed | Found "(nat \<times> nat \<times> nat \<times> nat) list" | Restarted

text \<open>What a client that only knows the map of used chunks may see.\<close>

inductive spec_step ::
  "nat \<Rightarrow> nat \<Rightarrow> used_map \<Rightarrow> request \<Rightarrow> response \<Rightarrow> used_map \<Rightarrow> bool" for unit n where
  spec_alloc: "\<lbrakk>c \<notin> dom U; c + l \<le> n; \<forall>k\<in>dom U. seg c l \<inter> seg k (used_len U k) = {}\<rbrakk> \<Longrightarrow>
    spec_step unit n U (Alloc b off l) (Chunk c) (U(c \<mapsto> (l, b, off)))"
| spec_nospace: "spec_step unit n U (Alloc b off l) NoSpace U"
| spec_free: "k \<in> dom U \<Longrightarrow> spec_step unit n U (Free k) Freed (U(k := None))"
| spec_enumerate: "spec_step unit n U Enumerate (Found (map (chunk_info unit U) (sorted_list_of_set (dom U)))) U"
| spec_restart: "spec_step unit n U (Restart h) Restarted U"

text \<open>
  Carrying out a request with the functions of the allocator. A client frees a chunk with the
  size it was given; \<open>None\<close> is a memory error, an endless loop, or an answer the specification
  does not know.
\<close>

fun perform ::
  "request \<Rightarrow> used_map \<Rightarrow> 'w alloc \<Rightarrow> 'w \<Rightarrow> (response \<times> 'w alloc \<times> 'w) option" where
  "perform (Alloc b off l) U a w =
     (case BdmAllocatorAllocChunk b off (l * minChunkSize a) a w of
        Some (ret, Some c, a', w') \<Rightarrow> if ret = BDM_CODE_OK then Some (Chunk c, a', w') else None
      | Some (ret, None, a', w') \<Rightarrow> if ret = BDM_CODE_ERR then Some (NoSpace, a', w') else None
      | None \<Rightarrow> None)"
| "perform (Free k) U a w =
     (case BdmAllocatorFreeChunk (used_len U k * minChunkSize a) k a w of
        Some (ret, a', w') \<Rightarrow> if ret = BDM_CODE_OK then Some (Freed, a', w') else None
      | None \<Rightarrow> None)"
| "perform Enumerate U a w =
     (case scan_all (Suc (chunkNum a)) (snd (BdmAllocatorResetChunk a)) of
        Some xs \<Rightarrow> Some (Found xs, a, w)
      | None \<Rightarrow> None)"
| "perform (Restart h) U a w =
     (case BdmAllocatorCreate \<lparr>paraOps = metaOps a, paraMinChunkSize = minChunkSize a,
             paraMaxChunkSize = maxChunkSize a, paraTotalSize = totalSize a\<rparr> True h w of
        Some (Some a', w') \<Rightarrow> Some (Restarted, a', w')
      | _ \<Rightarrow> None)"

fun legal :: "used_map \<Rightarrow> request \<Rightarrow> bool" where
  "legal U (Alloc b off l) = (0 < l \<and> b < 2 ^ 64 \<and> off < 2 ^ 64)"
| "legal U (Free k) = (k \<in> dom U)"
| "legal U Enumerate = True"
| "legal U (Restart h) = (structOk h \<and> tableOk h)"

definition sized :: "'w alloc \<Rightarrow> bool" where
  "sized a \<longleftrightarrow> totalSize a div minChunkSize a = chunkNum a \<and> totalSize a < 2 ^ 64"

lemma sized_config: "same_config a b \<Longrightarrow> sized b = sized a"
  by (simp add: sized_def same_config_def)

lemma serving_scan:
  assumes "serving wr rd content good U a w"
  shows "scan_all (Suc (chunkNum a)) (snd (BdmAllocatorResetChunk a)) =
           Some (map (chunk_info (minChunkSize a) U) (sorted_list_of_set (dom U)))"
proof -
  note d = servingD [OF assms]
  note s = alloc_invD(1) [OF d(3)]
  have "walk (metas a) U (chunkNum a) 0"
    using alloc_inv_walk [OF s _ alloc_invD(3) [OF d(3)], of 0] alloc_invD(2) [OF d(3)]
      tiling_zero [OF shapeD(5) [OF s]] by auto
  moreover have "card (dom U) < Suc (chunkNum a)"
    using card_mono [OF _ dom_bound [OF d(3)]] by simp
  ultimately show ?thesis
    using scan_all_ok [of "a\<lparr>scanIndex := 0\<rparr>" U "dom U" "Suc (chunkNum a)"] dom_bound [OF d(3)] d(5)
    by (simp add: BdmAllocatorResetChunk_def)
qed

context meta_store
begin

lemma restart:
  assumes n: "chunkNum a = num" and sv: "serving wr rd content good U a w" "sized a"
    and h: "structOk h" "tableOk h"
  shows "\<exists>a' w'. BdmAllocatorCreate \<lparr>paraOps = metaOps a, paraMinChunkSize = minChunkSize a,
             paraMaxChunkSize = maxChunkSize a, paraTotalSize = totalSize a\<rparr> True h w = Some (Some a', w') \<and>
           serving wr rd content good U a' w' \<and> sized a' \<and>
           minChunkSize a' = minChunkSize a \<and> chunkNum a' = chunkNum a"
proof -
  note d = servingD [OF sv(1)]
  note s = alloc_invD(1) [OF d(3) [unfolded n]]
  have wk: "walk (content w) U num 0"
    using alloc_inv_walk [OF s _ alloc_invD(4) [OF d(3)], of 0] alloc_invD(2) [OF d(3)]
      tiling_zero [OF shapeD(5) [OF s]] by auto
  let ?para = "\<lparr>paraOps = metaOps a, paraMinChunkSize = minChunkSize a,
             paraMaxChunkSize = maxChunkSize a, paraTotalSize = totalSize a\<rparr>"
  from Create_restore [of ?para h w U] d sv(2) h wk dom_bound [OF d(3)] n obtain a' w' where
    r: "BdmAllocatorCreate ?para True h w = Some (Some a', w')" "alloc_inv num U a' (content w')" "wired a' w'"
      "usedSize a' = minChunkSize a * used_units U num" "minChunkSize a' = minChunkSize a"
      "totalSize a' = totalSize a" by (auto simp: sized_def)
  have "chunkNum a' = num" "good w'" using r(3) by (auto simp: wired_def)
  with r d n sv(2) show ?thesis
    by (intro exI [of _ a'] exI [of _ w']) (simp add: serving_def wired_def sized_def)
qed

text \<open>Every legal request is answered, as the specification says.\<close>

lemma perform_refines:
  assumes n: "chunkNum a = num" and sv: "serving wr rd content good U a w" "sized a" and lg: "legal U q"
  shows "\<exists>r a' w' U'. perform q U a w = Some (r, a', w') \<and> spec_step (minChunkSize a) num U q r U' \<and>
           serving wr rd content good U' a' w' \<and> sized a' \<and>
           minChunkSize a' = minChunkSize a \<and> chunkNum a' = num"
proof (cases q)
  case (Alloc b off l)
  note d = servingD [OF sv(1)]
  show ?thesis
  proof (cases "\<exists>k\<in>free_heads a. l \<le> clen a k")
    case True
    from alloc_chunk [OF n sv(1) _ _ _ True, of b off] lg Alloc obtain c a' w' where
      r: "BdmAllocatorAllocChunk b off (l * minChunkSize a) a w = Some (BDM_CODE_OK, Some c, a', w')"
        "c \<in> free_heads a" "l \<le> clen a c" "serving wr rd content good (U(c \<mapsto> (l, b, off))) a' w'"
        "same_config a a'" by auto
    have "spec_step (minChunkSize a) num U q (Chunk c) (U(c \<mapsto> (l, b, off)))"
      unfolding Alloc using free_fits [OF d(3) r(2,3)] n by (intro spec_alloc) auto
    moreover have "perform q U a w = Some (Chunk c, a', w')" using r(1) by (simp add: Alloc)
    ultimately show ?thesis using r(4,5) sv(2) sized_config [OF r(5)] n by (auto simp: same_config_def)
  next
    case False
    then have "BdmAllocatorRemove b off (l * minChunkSize a) a w = Some (BDM_CODE_ERR, None, a, w)"
      using lg Alloc d by (intro Remove_none [OF d(3) [unfolded n], of l]) (auto simp: not_le)
    then have "perform q U a w = Some (NoSpace, a, w)" by (simp add: Alloc BdmAllocatorAllocChunk_def)
    then show ?thesis using sv n Alloc spec_nospace by blast
  qed
next
  case (Free k)
  then obtain l b off where U: "U k = Some (l, b, off)" using lg by auto
  from free_chunk [OF n sv(1) U] obtain a' w' where
    r: "BdmAllocatorFreeChunk (l * minChunkSize a) k a w = Some (BDM_CODE_OK, a', w')"
      "serving wr rd content good (U(k := None)) a' w'" "same_config a a'" by blast
  have "spec_step (minChunkSize a) num U q Freed (U(k := None))" using U Free by (auto intro: spec_free)
  moreover have "perform q U a w = Some (Freed, a', w')" using r(1) U by (simp add: Free)
  ultimately show ?thesis using r(2,3) sv(2) sized_config [OF r(3)] n by (auto simp: same_config_def)
next
  case Enumerate
  with sv n serving_scan [OF sv(1)] show ?thesis by (auto intro: spec_enumerate)
next
  case (Restart h)
  with restart [OF n sv, of h] lg obtain a' w' where
    "perform q U a w = Some (Restarted, a', w')" "serving wr rd content good U a' w'" "sized a'"
    "minChunkSize a' = minChunkSize a" "chunkNum a' = chunkNum a" by auto
  with n Restart show ?thesis using spec_restart by blast
qed

end

text \<open>A client that issues the legal ones among the requests of a list and keeps track of what it holds.\<close>

fun track :: "used_map \<Rightarrow> request \<Rightarrow> response \<Rightarrow> used_map" where
  "track U (Alloc b off l) (Chunk c) = U(c \<mapsto> (l, b, off))"
| "track U (Free k) Freed = U(k := None)"
| "track U _ _ = U"

fun serve ::
  "request list \<Rightarrow> used_map \<Rightarrow> 'w alloc \<Rightarrow> 'w \<Rightarrow> (response list \<times> used_map \<times> 'w alloc \<times> 'w) option" where
  "serve [] U a w = Some ([], U, a, w)"
| "serve (q # qs) U a w =
     (if legal U q
      then case perform q U a w of
             None \<Rightarrow> None
           | Some (r, a', w') \<Rightarrow> map_option (\<lambda>(rs, z). (r # rs, z)) (serve qs (track U q r) a' w')
      else serve qs U a w)"

inductive spec_run :: "nat \<Rightarrow> nat \<Rightarrow> used_map \<Rightarrow> request list \<Rightarrow> response list \<Rightarrow> used_map \<Rightarrow> bool"
  for unit n where
  spec_run_Nil: "spec_run unit n U [] [] U"
| spec_run_step: "\<lbrakk>legal U q; spec_step unit n U q r U'; spec_run unit n U' qs rs U''\<rbrakk> \<Longrightarrow>
    spec_run unit n U (q # qs) (r # rs) U''"
| spec_run_skip: "\<lbrakk>\<not> legal U q; spec_run unit n U qs rs U'\<rbrakk> \<Longrightarrow> spec_run unit n U (q # qs) rs U'"

lemma spec_step_track: "spec_step unit n U q r U' \<Longrightarrow> track U q r = U'"
  by (induction rule: spec_step.induct) auto

context meta_store
begin

lemma serve_refines:
  assumes "chunkNum a = num" "serving wr rd content good U a w" "sized a"
  shows "\<exists>rs U' a' w'. serve qs U a w = Some (rs, U', a', w') \<and>
           spec_run (minChunkSize a) num U qs rs U' \<and> serving wr rd content good U' a' w'"
  using assms
proof (induction qs arbitrary: U a w)
  case Nil
  then show ?case using spec_run_Nil by auto
next
  case (Cons q qs)
  show ?case
  proof (cases "legal U q")
    case True
    from perform_refines [OF Cons.prems True] obtain r a1 w1 U1 where
      1: "perform q U a w = Some (r, a1, w1)" "spec_step (minChunkSize a) num U q r U1"
        "serving wr rd content good U1 a1 w1" "sized a1" "minChunkSize a1 = minChunkSize a"
        "chunkNum a1 = num" by blast
    from Cons.IH [OF 1(6,3,4)] obtain rs U' a' w' where
      "serve qs U1 a1 w1 = Some (rs, U', a', w')" "spec_run (minChunkSize a) num U1 qs rs U'"
      "serving wr rd content good U' a' w'" using 1(5) by auto
    with 1 True spec_step_track [OF 1(2)] spec_run_step [OF True 1(2)] show ?thesis by auto
  next
    case False
    with Cons spec_run_skip [OF False] show ?thesis by fastforce
  qed
qed

end

section \<open>A store in memory\<close>

text \<open>The simplest store that obeys the contract: the table itself. The examples below use it.\<close>

definition mem_write :: "(nat \<Rightarrow> chunk_meta) \<Rightarrow> nat \<Rightarrow> chunk_meta \<Rightarrow> nat \<Rightarrow> int \<times> (nat \<Rightarrow> chunk_meta)" where
  "mem_write w off m len = (BDM_CODE_OK, w(off div sizeof_BdmChunkMeta := m))"

definition mem_read :: "(nat \<Rightarrow> chunk_meta) \<Rightarrow> nat \<Rightarrow> nat \<Rightarrow> int \<times> (nat \<Rightarrow> chunk_meta) \<times> (nat \<Rightarrow> chunk_meta)" where
  "mem_read w off len = (BDM_CODE_OK, w, w)"

lemma mem_store: "meta_store mem_write mem_read (\<lambda>w. w) (\<lambda>_. True) n"
  by unfold_locales (auto simp: mem_write_def mem_read_def)

definition mem_para :: "nat \<Rightarrow> (nat \<Rightarrow> chunk_meta) alloc_para" where
  "mem_para n = \<lparr>paraOps = \<lparr>writeMeta = Some mem_write, readMeta = Some mem_read\<rparr>,
     paraMinChunkSize = 4096, paraMaxChunkSize = 4096, paraTotalSize = n * 4096\<rparr>"

definition mem_table :: "nat \<Rightarrow> chunk_meta" where
  "mem_table _ = free_rec 0"

definition mem_heap :: heap_block where
  "mem_heap = \<lparr>structOk = True, tableOk = True, junkIdx = (\<lambda>_. 0), junkLen = (\<lambda>_. 0), junkMeta = (\<lambda>_. free_rec 0)\<rparr>"

lemma mem_para_simps [simp]:
  "paraOps (mem_para n) = \<lparr>writeMeta = Some mem_write, readMeta = Some mem_read\<rparr>"
  "paraMinChunkSize (mem_para n) = 4096" "paraTotalSize (mem_para n) = n * 4096"
  "structOk mem_heap" "tableOk mem_heap"
  by (simp_all add: mem_para_def mem_heap_def)

text \<open>A new allocator over \<open>n\<close> units, and one from which a first chunk was taken.\<close>

lemma mem_new:
  assumes "0 < n" "n < 2 ^ 21"
  shows "\<exists>a w. BdmAllocatorCreate (mem_para n) False mem_heap mem_table = Some (Some a, w) \<and>
           serving mem_write mem_read (\<lambda>w. w) (\<lambda>_. True) Map.empty a w \<and> sized a \<and>
           chunkNum a = n \<and> minChunkSize a = 4096"
proof -
  from meta_store.Create_new [OF mem_store, of "mem_para n" n mem_heap mem_table] assms obtain a w where
    "BdmAllocatorCreate (mem_para n) False mem_heap mem_table = Some (Some a, w)"
    "alloc_inv n Map.empty a w" "meta_store.wired mem_write mem_read (\<lambda>_. True) n a w" "usedSize a = 0"
    "minChunkSize a = 4096" "totalSize a = n * 4096" by auto
  with assms show ?thesis
    by (auto simp: serving_def sized_def meta_store.wired_def [OF mem_store] used_units_def)
qed

lemma mem_new_free:
  assumes "serving mem_write mem_read (\<lambda>w. w) (\<lambda>_. True) Map.empty a w" "0 < chunkNum a"
  shows "\<exists>k\<in>free_heads a. 1 \<le> clen a k"
proof -
  note s = alloc_invD(1) [OF servingD(3) [OF assms(1)]]
  have "0 \<in> free_heads a" using tiling_zero [OF shapeD(5) [OF s] assms(2)] by simp
  with shape_bounds(1) [OF s, of 0] show ?thesis by (auto simp: Suc_le_eq)
qed

lemma mem_one:
  assumes "0 < n" "n < 2 ^ 21"
  shows "\<exists>a w c. serving mem_write mem_read (\<lambda>w. w) (\<lambda>_. True) [c \<mapsto> (1, 7, 0)] a w \<and> sized a \<and>
           chunkNum a = n \<and> minChunkSize a = 4096"
proof -
  from mem_new [OF assms] obtain a w where a: "serving mem_write mem_read (\<lambda>w. w) (\<lambda>_. True) Map.empty a w"
    "sized a" "chunkNum a = n" "minChunkSize a = 4096" by blast
  from meta_store.alloc_chunk [OF mem_store refl a(1), of 1 7 0] mem_new_free [OF a(1)] a(3) assms
  obtain c a' w' where "serving mem_write mem_read (\<lambda>w. w) (\<lambda>_. True) [c \<mapsto> (1, 7, 0)] a' w'" "same_config a a'"
    by auto
  with a sized_config show ?thesis by (fastforce simp: same_config_def)
qed

section \<open>Properties\<close>

text \<open>
  (C1) The allocator implements its specification. On a new allocator over any metadata store
  that keeps the contract, every sequence of requests (allocations, frees of held chunks,
  enumerations, restarts from the disk) is answered without memory error or endless loop, and
  the answers are those of an abstract map of used chunks: allocated chunks lie on the disk and
  are disjoint from all chunks in use, an enumeration lists exactly the chunks in use in
  ascending order with size and owner, and a restart loses and invents nothing.
\<close>

theorem allocator_refines_spec:
  assumes "meta_store wr rd content good num"
    and "paraOps para = \<lparr>writeMeta = Some wr, readMeta = Some rd\<rparr>" "0 < paraMinChunkSize para"
    and "paraTotalSize para div paraMinChunkSize para = num" "paraTotalSize para < 2 ^ 64"
    and "structOk h" "tableOk h" "good w" "0 < num" "num < 2 ^ 21"
  shows "\<exists>a w1. BdmAllocatorCreate para False h w = Some (Some a, w1) \<and>
    (\<forall>qs. \<exists>rs U a' w'. serve qs Map.empty a w1 = Some (rs, U, a', w') \<and>
       spec_run (paraMinChunkSize para) num Map.empty qs rs U \<and> serving wr rd content good U a' w')"
proof -
  from meta_store.Create_new [OF assms(1-4,6-10)] obtain a w1 where
    a: "BdmAllocatorCreate para False h w = Some (Some a, w1)" "alloc_inv num Map.empty a (content w1)"
      "meta_store.wired wr rd good num a w1" "usedSize a = 0" "minChunkSize a = paraMinChunkSize para"
      "totalSize a = paraTotalSize para" by auto
  have "paraMinChunkSize para * num \<le> paraTotalSize para" by (simp flip: assms(4))
  with a assms have "serving wr rd content good Map.empty a w1" "sized a" "chunkNum a = num"
    by (auto simp: serving_def sized_def meta_store.wired_def [OF assms(1)] used_units_def)
  from meta_store.serve_refines [OF assms(1) this(3,1,2)] a(1,5) show ?thesis by auto
qed

theorem allocator_refines_spec_witness:
  "\<exists>a w1 rs U a' w'. BdmAllocatorCreate (mem_para 6) False mem_heap mem_table = Some (Some a, w1) \<and>
     serve [Alloc 1 2 3, Free 0, Enumerate, Restart mem_heap] Map.empty a w1 = Some (rs, U, a', w') \<and>
     spec_run 4096 6 Map.empty [Alloc 1 2 3, Free 0, Enumerate, Restart mem_heap] rs U"
  using allocator_refines_spec [OF mem_store [of 6], of "mem_para 6" mem_heap mem_table] by fastforce

text \<open>
  \<open>BdmAllocatorAllocChunk\<close> succeeds whenever some free area is long enough. The chunk it
  returns was not in use, lies inside the data area, and shares no unit with a chunk in use; it
  is recorded, with its owner, in memory and on the disk, and the used size grows by its size.
\<close>

theorem alloc_chunk_fresh:
  assumes "meta_store wr rd content good (chunkNum a)" "serving wr rd content good U a w"
    and "0 < l" "b < 2 ^ 64" "off < 2 ^ 64" "k \<in> free_heads a" "l \<le> clen a k"
  shows "\<exists>c a' w'. BdmAllocatorAllocChunk b off (l * minChunkSize a) a w = Some (BDM_CODE_OK, Some c, a', w') \<and>
    c \<notin> dom U \<and> c + l \<le> chunkNum a \<and> (\<forall>j\<in>dom U. seg c l \<inter> seg j (used_len U j) = {}) \<and>
    serving wr rd content good (U(c \<mapsto> (l, b, off))) a' w'"
proof -
  have "\<exists>k\<in>free_heads a. l \<le> clen a k" using assms(6,7) by blast
  from meta_store.alloc_chunk [OF assms(1) refl assms(2-5) this] obtain c a' w' where
    "BdmAllocatorAllocChunk b off (l * minChunkSize a) a w = Some (BDM_CODE_OK, Some c, a', w')"
    "c \<in> free_heads a" "l \<le> clen a c" "serving wr rd content good (U(c \<mapsto> (l, b, off))) a' w'" by blast
  with free_fits [OF servingD(3) [OF assms(2)] this(2,3)] show ?thesis by blast
qed

theorem alloc_chunk_fresh_witness:
  "\<exists>a w c a' w'. BdmAllocatorCreate (mem_para 6) False mem_heap mem_table = Some (Some a, w) \<and>
     BdmAllocatorAllocChunk 7 8 (1 * minChunkSize a) a w = Some (BDM_CODE_OK, Some c, a', w') \<and>
     serving mem_write mem_read (\<lambda>w. w) (\<lambda>_. True) [c \<mapsto> (1, 7, 8)] a' w'"
proof -
  obtain a w where a: "BdmAllocatorCreate (mem_para 6) False mem_heap mem_table = Some (Some a, w)"
    "serving mem_write mem_read (\<lambda>w. w) (\<lambda>_. True) Map.empty a w" "chunkNum a = 6"
    using mem_new [of 6] by auto
  then obtain k where "k \<in> free_heads a" "1 \<le> clen a k" using mem_new_free [OF a(2)] by auto
  from alloc_chunk_fresh [OF mem_store a(2) _ _ _ this, of 7 8] a(1) show ?thesis by auto
qed

text \<open>
  When no free area is long enough, \<open>BdmAllocatorAllocChunk\<close> returns an error and leaves
  the allocator and the disk as they were.
\<close>

theorem alloc_chunk_no_space:
  assumes "serving wr rd content good U a w" "0 < l" "\<forall>k\<in>free_heads a. clen a k < l"
  shows "BdmAllocatorAllocChunk b off (l * minChunkSize a) a w = Some (BDM_CODE_ERR, None, a, w)"
proof -
  note d = servingD [OF assms(1)]
  have "scan_free (clen a) (freeL a) l (min l BDM_FREE_LIST_NUM - 1) = None"
    using scan_free_spec(2) [OF shapeD(3) [OF alloc_invD(1) [OF d(3)]] assms(2)] assms(3) by simp
  with d(4) assms(2) show ?thesis by (simp add: BdmAllocatorAllocChunk_def BdmAllocatorRemove_def)
qed

theorem alloc_chunk_no_space_witness:
  "\<exists>a w. BdmAllocatorCreate (mem_para 6) False mem_heap mem_table = Some (Some a, w) \<and>
     BdmAllocatorAllocChunk 7 8 (7 * minChunkSize a) a w = Some (BDM_CODE_ERR, None, a, w)"
proof -
  obtain a w where a: "BdmAllocatorCreate (mem_para 6) False mem_heap mem_table = Some (Some a, w)"
    "serving mem_write mem_read (\<lambda>w. w) (\<lambda>_. True) Map.empty a w" "chunkNum a = 6"
    using mem_new [of 6] by auto
  have "\<forall>k\<in>free_heads a. clen a k < 7"
    using shape_bounds(2) [OF alloc_invD(1) [OF servingD(3) [OF a(2)]]] a(3) by fastforce
  from alloc_chunk_no_space [OF a(2) _ this, of 7 8] a(1) show ?thesis by auto
qed

text \<open>
  \<open>BdmAllocatorFreeChunk\<close>, called for a chunk in use with the size it was allocated with,
  succeeds: the chunk, and only it, leaves the set of used chunks, its units become free, and
  the used size shrinks by its size.
\<close>

theorem free_chunk_releases:
  assumes "meta_store wr rd content good (chunkNum a)" "serving wr rd content good U a w"
    and "U k = Some (l, b, off)"
  shows "\<exists>a' w'. BdmAllocatorFreeChunk (l * minChunkSize a) k a w = Some (BDM_CODE_OK, a', w') \<and>
    serving wr rd content good (U(k := None)) a' w' \<and>
    (\<Union>j\<in>free_heads a'. seg j (clen a' j)) = (\<Union>j\<in>free_heads a. seg j (clen a j)) \<union> seg k l"
proof -
  from meta_store.free_chunk [OF assms(1) refl assms(2,3)] obtain a' w' where
    r: "BdmAllocatorFreeChunk (l * minChunkSize a) k a w = Some (BDM_CODE_OK, a', w')"
      "serving wr rd content good (U(k := None)) a' w'" "same_config a a'" by blast
  have "alloc_inv (chunkNum a) (U(k := None)) a' (content w')"
    using servingD(3) [OF r(2)] r(3) by (simp add: same_config_def)
  from free_units_released [OF servingD(3) [OF assms(2)] this assms(3)] r show ?thesis by blast
qed

theorem free_chunk_releases_witness:
  "\<exists>a w a' w' U k. U k = Some (1, 7, 0) \<and> serving mem_write mem_read (\<lambda>w. w) (\<lambda>_. True) U a w \<and>
     BdmAllocatorFreeChunk (1 * minChunkSize a) k a w = Some (BDM_CODE_OK, a', w') \<and>
     (\<Union>j\<in>free_heads a'. seg j (clen a' j)) = (\<Union>j\<in>free_heads a. seg j (clen a j)) \<union> seg k 1"
proof -
  obtain a w c where a: "serving mem_write mem_read (\<lambda>w. w) (\<lambda>_. True) [c \<mapsto> (1, 7, 0)] a w"
    using mem_one [of 6] by auto
  from free_chunk_releases [OF mem_store this, of c 1 7 0] obtain a' w' where
    "BdmAllocatorFreeChunk (1 * minChunkSize a) c a w = Some (BDM_CODE_OK, a', w')"
    "(\<Union>j\<in>free_heads a'. seg j (clen a' j)) = (\<Union>j\<in>free_heads a. seg j (clen a j)) \<union> seg c 1" by auto
  with a show ?thesis
    by (intro exI [of _ a] exI [of _ w] exI [of _ a'] exI [of _ w'] exI [of _ "[c \<mapsto> (1, 7, 0)]"] exI [of _ c])
      simp
qed

text \<open>
  Restarting: an allocator built from the disk (\<open>isRestore\<close>) after any history has exactly
  the used chunks, with their sizes and owners, and the used size of the one it replaces,
  whatever the contents of the memory it is given.
\<close>

theorem restore_recovers_chunks:
  assumes "meta_store wr rd content good (chunkNum a)" "serving wr rd content good U a w" "sized a"
    and "structOk h" "tableOk h"
  shows "\<exists>a' w'. BdmAllocatorCreate \<lparr>paraOps = metaOps a, paraMinChunkSize = minChunkSize a,
             paraMaxChunkSize = maxChunkSize a, paraTotalSize = totalSize a\<rparr> True h w = Some (Some a', w') \<and>
           serving wr rd content good U a' w' \<and> usedSize a' = usedSize a"
proof -
  from meta_store.restart [OF assms(1) refl assms(2-5)] obtain a' w' where
    r: "BdmAllocatorCreate \<lparr>paraOps = metaOps a, paraMinChunkSize = minChunkSize a,
             paraMaxChunkSize = maxChunkSize a, paraTotalSize = totalSize a\<rparr> True h w = Some (Some a', w')"
      "serving wr rd content good U a' w'" "minChunkSize a' = minChunkSize a" "chunkNum a' = chunkNum a" by blast
  then show ?thesis using servingD(6) [OF r(2)] servingD(6) [OF assms(2)] by auto
qed

theorem restore_recovers_chunks_witness:
  "\<exists>a w c a' w'. serving mem_write mem_read (\<lambda>w. w) (\<lambda>_. True) [c \<mapsto> (1, 7, 0)] a w \<and>
     BdmAllocatorCreate \<lparr>paraOps = metaOps a, paraMinChunkSize = minChunkSize a,
             paraMaxChunkSize = maxChunkSize a, paraTotalSize = totalSize a\<rparr> True mem_heap w = Some (Some a', w') \<and>
     serving mem_write mem_read (\<lambda>w. w) (\<lambda>_. True) [c \<mapsto> (1, 7, 0)] a' w'"
proof -
  obtain a w c where a: "serving mem_write mem_read (\<lambda>w. w) (\<lambda>_. True) [c \<mapsto> (1, 7, 0)] a w" "sized a"
    using mem_one [of 6] by auto
  from restore_recovers_chunks [OF mem_store a, of mem_heap] obtain a' w' where
    "BdmAllocatorCreate \<lparr>paraOps = metaOps a, paraMinChunkSize = minChunkSize a,
             paraMaxChunkSize = maxChunkSize a, paraTotalSize = totalSize a\<rparr> True mem_heap w = Some (Some a', w')"
    "serving mem_write mem_read (\<lambda>w. w) (\<lambda>_. True) [c \<mapsto> (1, 7, 0)] a' w'" by auto
  with a(1) show ?thesis by blast
qed

text \<open>
  A scan with \<open>BdmAllocatorResetChunk\<close> and repeated \<open>BdmAllocatorGetNextChunk\<close> ends after at
  most one call per unit and returns every used chunk exactly once, in ascending order, with
  its size in bytes, bucket and bucket offset.
\<close>

theorem scan_lists_used_chunks:
  assumes "serving wr rd content good U a w"
  shows "scan_all (Suc (chunkNum a)) (snd (BdmAllocatorResetChunk a)) =
           Some (map (\<lambda>k. (k, used_len U k * minChunkSize a, snd (the (U k)))) (sorted_list_of_set (dom U)))"
  using serving_scan [OF assms] by (simp add: chunk_info_def [abs_def])

theorem scan_lists_used_chunks_witness:
  "\<exists>a w c. serving mem_write mem_read (\<lambda>w. w) (\<lambda>_. True) [c \<mapsto> (1, 7, 0)] a w \<and>
     scan_all 7 (snd (BdmAllocatorResetChunk a)) = Some [(c, 4096, 7, 0)]"
proof -
  obtain a w c where a: "serving mem_write mem_read (\<lambda>w. w) (\<lambda>_. True) [c \<mapsto> (1, 7, 0)] a w"
    "chunkNum a = 6" "minChunkSize a = 4096" using mem_one [of 6] by auto
  from scan_lists_used_chunks [OF a(1)] a show ?thesis
    by (intro exI [of _ a] exI [of _ w] exI [of _ c]) simp
qed

text \<open>
  (C33) \<open>BdmAllocatorCheckChunk\<close> answers by the chunks in use: a chunk in use is admitted exactly when the end of the access, which is
  computed with 64 bits, is at most the size of the chunk, and refused with \<open>CROSS_BOUND\<close> otherwise; the head of a free area
  and every number outside the table are refused as invalid. An admitted access whose end does not wrap around
  touches only units of the chunk, while one whose end wraps around is admitted as well when the rest is small enough.
\<close>

theorem check_chunk_bounds:
  assumes "serving wr rd content good U a w"
  shows "(\<forall>l b off. U k = Some (l, b, off) \<longrightarrow>
       BdmAllocatorCheckChunk k offset len a =
         (if (offset + len) mod 2 ^ 64 \<le> l * minChunkSize a then BDM_CODE_OK else BDM_CODE_CROSS_BOUND) \<and>
       (BdmAllocatorCheckChunk k offset len a = BDM_CODE_OK \<and> offset + len < 2 ^ 64 \<longrightarrow>
         (\<forall>x<len. (k * minChunkSize a + offset + x) div minChunkSize a \<in> seg k l))) \<and>
     (k \<in> free_heads a \<or> chunkNum a \<le> k \<longrightarrow> BdmAllocatorCheckChunk k offset len a = BDM_CODE_INVALID_CHUNK_ID)"
proof (intro conjI allI impI)
  note d = servingD [OF assms]
  fix l b off
  assume U: "U k = Some (l, b, off)"
  have k: "k < chunkNum a" "l \<le> chunkNum a" using alloc_inv_used(1,2) [OF d(3) U] by auto
  have "k \<in> dom U" using U by auto
  then have m: "metas a k = used_rec (l, b, off)" using alloc_invD(3) [OF d(3)] U by (auto simp: recorded_def)
  have "l * minChunkSize a \<le> minChunkSize a * chunkNum a" using k(2) by simp
  then have "l * minChunkSize a < 2 ^ 64" using d(5) by (rule le_less_trans)
  then show eq: "BdmAllocatorCheckChunk k offset len a =
         (if (offset + len) mod 2 ^ 64 \<le> l * minChunkSize a then BDM_CODE_OK else BDM_CODE_CROSS_BOUND)"
    using k m by (simp add: BdmAllocatorCheckChunk_def mul64_exact not_less add64_def)
  fix x
  assume "BdmAllocatorCheckChunk k offset len a = BDM_CODE_OK \<and> offset + len < 2 ^ 64" "x < len"
  then have "offset + x < l * minChunkSize a" using eq by (simp split: if_splits)
  then have "(offset + x) div minChunkSize a < l" by (simp add: less_mult_imp_div_less)
  moreover have "(k * minChunkSize a + offset + x) div minChunkSize a = k + (offset + x) div minChunkSize a"
    using d(4) by (simp add: add.assoc)
  ultimately show "(k * minChunkSize a + offset + x) div minChunkSize a \<in> seg k l" by simp
next
  note d = servingD [OF assms]
  assume "k \<in> free_heads a \<or> chunkNum a \<le> k"
  then show "BdmAllocatorCheckChunk k offset len a = BDM_CODE_INVALID_CHUNK_ID"
  proof
    assume "k \<in> free_heads a"
    then have "free_run (metas a) k (k + clen a k)" "0 < clen a k"
      using alloc_invD(3) [OF d(3)] shape_bounds [OF alloc_invD(1) [OF d(3)]] by (auto simp: recorded_def runs_def)
    then have "mfree (metas a k)" by (cases rule: free_run.cases) simp_all
    then show ?thesis by (simp add: BdmAllocatorCheckChunk_def)
  qed (simp add: BdmAllocatorCheckChunk_def)
qed

theorem check_chunk_bounds_witness:
  "\<exists>a w c. serving mem_write mem_read (\<lambda>w. w) (\<lambda>_. True) [c \<mapsto> (1, 7, 0)] a w \<and>
     BdmAllocatorCheckChunk c 96 4000 a = BDM_CODE_OK \<and> BdmAllocatorCheckChunk c 97 4000 a = BDM_CODE_CROSS_BOUND \<and>
     BdmAllocatorCheckChunk c (2 ^ 64 - 1) 2 a = BDM_CODE_OK \<and> BdmAllocatorCheckChunk 6 0 1 a = BDM_CODE_INVALID_CHUNK_ID \<and>
     (c * minChunkSize a + 96 + 3999) div minChunkSize a \<in> seg c 1"
proof -
  obtain a w c where a: "serving mem_write mem_read (\<lambda>w. w) (\<lambda>_. True) [c \<mapsto> (1, 7, 0)] a w"
    "chunkNum a = 6" "minChunkSize a = 4096" using mem_one [of 6] by auto
  then show ?thesis
    using check_chunk_bounds [OF a(1), of c 96 4000] check_chunk_bounds [OF a(1), of c 97 4000]
      check_chunk_bounds [OF a(1), of c "2 ^ 64 - 1" 2] check_chunk_bounds [OF a(1), of 6 0 1]
    by (intro exI [of _ a] exI [of _ w] exI [of _ c]) simp
qed

text \<open>
  Accounting: the size reported as used is the total size of the chunks in use, and the
  units in use and the units in the free areas together are all units of the data area.
\<close>

theorem capacity_accounted:
  assumes "serving wr rd content good U a w"
  shows "BdmAllocatorGetCap a = (BDM_CODE_OK, totalSize a, (\<Sum>k\<in>dom U. used_len U k * minChunkSize a)) \<and>
    (\<Sum>k\<in>dom U. used_len U k) + (\<Sum>k\<in>free_heads a. clen a k) = chunkNum a"
  using servingD(6) [OF assms] used_units_le [OF servingD(3) [OF assms]]
    used_units_all [OF dom_bound [OF servingD(3) [OF assms]]]
  by (simp add: BdmAllocatorGetCap_def sum_distrib_left mult.commute)

theorem capacity_accounted_witness:
  "\<exists>a w c. serving mem_write mem_read (\<lambda>w. w) (\<lambda>_. True) [c \<mapsto> (1, 7, 0)] a w \<and>
     BdmAllocatorGetCap a = (BDM_CODE_OK, totalSize a, 4096)"
proof -
  obtain a w c where a: "serving mem_write mem_read (\<lambda>w. w) (\<lambda>_. True) [c \<mapsto> (1, 7, 0)] a w"
    "chunkNum a = 6" "minChunkSize a = 4096" using mem_one [of 6] by auto
  with capacity_accounted [OF a(1)] show ?thesis
    by (intro exI [of _ a] exI [of _ w] exI [of _ c]) simp
qed

section \<open>Dividing a disk\<close>

lemma ROUND_UP_div:
  "x + BDM_ALIGN_SIZE < 2 ^ 64 \<Longrightarrow> ROUND_UP x BDM_ALIGN_SIZE = (x + 2097151) div BDM_ALIGN_SIZE * BDM_ALIGN_SIZE"
  by (simp add: ROUND_UP_def Let_def add64_exact sub64_exact minus_mod_eq_div_mult)

lemma ROUND_UP_bounds:
  assumes "x + BDM_ALIGN_SIZE < 2 ^ 64"
  shows "x \<le> ROUND_UP x BDM_ALIGN_SIZE" "ROUND_UP x BDM_ALIGN_SIZE < x + BDM_ALIGN_SIZE"
    "BDM_ALIGN_SIZE dvd ROUND_UP x BDM_ALIGN_SIZE"
proof -
  have "(x + 2097151) mod BDM_ALIGN_SIZE < BDM_ALIGN_SIZE"
    "(x + 2097151) div BDM_ALIGN_SIZE * BDM_ALIGN_SIZE + (x + 2097151) mod BDM_ALIGN_SIZE = x + 2097151"
    by simp_all
  then show "x \<le> ROUND_UP x BDM_ALIGN_SIZE" "ROUND_UP x BDM_ALIGN_SIZE < x + BDM_ALIGN_SIZE"
    unfolding ROUND_UP_div [OF assms] by linarith+
qed (simp add: ROUND_UP_div [OF assms])

lemma ROUND_UP_aligned:
  "x + BDM_ALIGN_SIZE < 2 ^ 64 \<Longrightarrow> BDM_ALIGN_SIZE dvd x \<Longrightarrow> ROUND_UP x BDM_ALIGN_SIZE = x"
  by (elim dvdE) (simp add: ROUND_UP_div)

lemma split_size_exact:
  assumes "0 < chunkSize" "head + chunkSize + sizeof_BdmChunkMeta \<le> totalSz" "totalSz < 2 ^ 63"
    and n: "n = (totalSz - head) div (sizeof_BdmChunkMeta + chunkSize)"
    and R: "R = ROUND_UP (sizeof_BdmChunkMeta * n + head) BDM_ALIGN_SIZE" "R + chunkSize * n \<le> totalSz"
  shows "BdmAllocatorGetSplitSize head chunkSize totalSz = (BDM_CODE_OK, Some (R - head, chunkSize * n))"
    "0 < n" "sizeof_BdmChunkMeta * n + head \<le> R" "ROUND_UP R BDM_ALIGN_SIZE = R"
proof -
  have "n * (sizeof_BdmChunkMeta + chunkSize) \<le> totalSz - head"
    unfolding n by (rule div_times_less_eq_dividend)
  then have nn: "sizeof_BdmChunkMeta * n + chunkSize * n \<le> totalSz - head" by (simp add: algebra_simps)
  then have small: "sizeof_BdmChunkMeta * n + head \<le> totalSz" "chunkSize * n \<le> totalSz"
    using assms(2) by linarith+
  show "0 < n" using assms(2,1) unfolding n by (simp add: div_greater_zero_iff)
  show R1: "sizeof_BdmChunkMeta * n + head \<le> R"
    using ROUND_UP_bounds(1) [of "sizeof_BdmChunkMeta * n + head"] small assms(3) R(1) by simp
  have R2: "BDM_ALIGN_SIZE dvd R" "R \<le> totalSz"
    using ROUND_UP_bounds(3) [of "sizeof_BdmChunkMeta * n + head"] small assms(3) R by auto
  show "BdmAllocatorGetSplitSize head chunkSize totalSz = (BDM_CODE_OK, Some (R - head, chunkSize * n))"
    using assms small R1 R2 nn
    by (simp add: BdmAllocatorGetSplitSize_def Let_def u64_simps not_less flip: n)
  show "ROUND_UP R BDM_ALIGN_SIZE = R" using R2 assms(3) by (intro ROUND_UP_aligned) auto
qed

text \<open>
  \<open>BdmAllocatorGetSplitSize\<close>, when the metadata of all units fits in front of the data: head,
  metadata and data fit in the disk in this order, there is a metadata record for every unit,
  and the data starts at an aligned offset.
\<close>

theorem split_size_fits:
  assumes "0 < chunkSize" "head + chunkSize + sizeof_BdmChunkMeta \<le> totalSz" "totalSz < 2 ^ 63"
    and "n = (totalSz - head) div (sizeof_BdmChunkMeta + chunkSize)"
    and "ROUND_UP (sizeof_BdmChunkMeta * n + head) BDM_ALIGN_SIZE + chunkSize * n \<le> totalSz"
  shows "\<exists>m d. BdmAllocatorGetSplitSize head chunkSize totalSz = (BDM_CODE_OK, Some (m, d)) \<and>
           0 < n \<and> d = chunkSize * n \<and> sizeof_BdmChunkMeta * n \<le> m \<and> head + m + d \<le> totalSz \<and>
           ROUND_UP (head + m) BDM_ALIGN_SIZE = head + m"
  using split_size_exact [OF assms(1-4) refl assms(5)] assms(5) by auto

theorem split_size_fits_witness:
  "\<exists>m d. BdmAllocatorGetSplitSize 248 4194304 44040192 = (BDM_CODE_OK, Some (m, d)) \<and>
     d = 4194304 * 10 \<and> sizeof_BdmChunkMeta * 10 \<le> m \<and> 248 + m + d \<le> 44040192"
  using split_size_fits [of 4194304 248 44040192 10] by (auto simp: ROUND_UP_div)

text \<open>
  For units of at least 2 MB, whenever \<open>BdmAllocatorGetSplitSize\<close> succeeds, the data area,
  placed at the aligned offset the disk layer computes from the sizes, ends on the disk.
\<close>

theorem split_size_data_on_disk:
  assumes "BDM_ALIGN_SIZE \<le> chunkSize" "chunkSize < 2 ^ 32" "head < 2 ^ 32" "totalSz < 2 ^ 63"
    and "BdmAllocatorGetSplitSize head chunkSize totalSz = (BDM_CODE_OK, Some (m, d))"
  shows "ROUND_UP (add64 head m) BDM_ALIGN_SIZE + d \<le> totalSz"
proof -
  define n where "n = (totalSz - head) div (sizeof_BdmChunkMeta + chunkSize)"
  let ?R = "ROUND_UP (sizeof_BdmChunkMeta * n + head) BDM_ALIGN_SIZE"
  have le: "head + chunkSize + sizeof_BdmChunkMeta \<le> totalSz"
    using assms(2,3,5) by (simp add: BdmAllocatorGetSplitSize_def Let_def u64_simps split: if_splits)
  have "n * (sizeof_BdmChunkMeta + chunkSize) \<le> totalSz - head"
    unfolding n_def by (rule div_times_less_eq_dividend)
  then have "sizeof_BdmChunkMeta * n + chunkSize * n \<le> totalSz - head" by (simp add: algebra_simps)
  then have nn: "sizeof_BdmChunkMeta * n + chunkSize * n + head \<le> totalSz" using le by linarith
  have R: "sizeof_BdmChunkMeta * n + head \<le> ?R" "BDM_ALIGN_SIZE dvd ?R" "?R < sizeof_BdmChunkMeta * n + head + BDM_ALIGN_SIZE"
    using ROUND_UP_bounds [of "sizeof_BdmChunkMeta * n + head"] nn assms(4) by auto
  have calc: "sub64 totalSz head div add64 sizeof_BdmChunkMeta chunkSize = n"
    using le assms(2,4) by (simp add: n_def u64_simps)
  have z: "add64 (mul64 sizeof_BdmChunkMeta n) head = sizeof_BdmChunkMeta * n + head"
    "mul64 chunkSize n = chunkSize * n" "add64 ?R (chunkSize * n) = ?R + chunkSize * n"
    using nn R assms(2,4) by (auto simp: u64_simps)
  have r: "(if totalSz < ?R + chunkSize * n
      then if n \<le> 1 then (BDM_CODE_ERR, None)
           else (BDM_CODE_OK, Some (sub64 (mul64 sizeof_BdmChunkMeta (n - 1)) head, mul64 chunkSize (n - 1)))
      else (BDM_CODE_OK, Some (sub64 ?R head, chunkSize * n))) = (BDM_CODE_OK, Some (m, d))"
    using assms(2,3,5) le unfolding BdmAllocatorGetSplitSize_def Let_def calc z
    by (simp add: u64_simps z)
  show ?thesis
  proof (cases "totalSz < ?R + chunkSize * n")
    case False
    then have "m = ?R - head" "d = chunkSize * n" using r R nn assms(4) by (auto simp: sub64_exact)
    then have "add64 head m = ?R" using R False assms(4) by (simp add: add64_exact)
    with False \<open>d = chunkSize * n\<close> show ?thesis
      using ROUND_UP_aligned [OF _ R(2)] assms(4) by simp
  next
    case True
    then have n1: "1 < n" and md: "m = sub64 (mul64 sizeof_BdmChunkMeta (n - 1)) head" "d = mul64 chunkSize (n - 1)"
      using r by (auto split: if_splits)
    have cn: "chunkSize * (n - 1) + chunkSize = chunkSize * n" using n1 by (simp add: algebra_simps)
    have d: "d = chunkSize * (n - 1)" using md(2) cn nn assms(4) by (subst (asm) mul64_exact) auto
    have "mul64 sizeof_BdmChunkMeta (n - 1) = sizeof_BdmChunkMeta * (n - 1)"
      using nn assms(4) by (intro mul64_exact) simp
    then have "add64 head m = sizeof_BdmChunkMeta * (n - 1)"
      using md(1) add64_sub64 [of "sizeof_BdmChunkMeta * (n - 1)" head] nn assms(3,4) by simp
    then have "ROUND_UP (add64 head m) BDM_ALIGN_SIZE < sizeof_BdmChunkMeta * (n - 1) + BDM_ALIGN_SIZE"
      using ROUND_UP_bounds(2) [of "sizeof_BdmChunkMeta * (n - 1)"] nn assms(4) by simp
    then show ?thesis using d cn nn assms(1) by linarith
  qed
qed

theorem split_size_data_on_disk_witness:
  "ROUND_UP (add64 248 2096904) BDM_ALIGN_SIZE + 41943040 \<le> 44040192"
  using split_size_data_on_disk [of 4194304 248 44040192 2096904 41943040]
  by (simp add: BdmAllocatorGetSplitSize_def Let_def u64_simps ROUND_UP_div)

text \<open>
  Smaller units are not safe: for a disk of 9.5 MB in units of 1 MB the fall-back of
  \<open>BdmAllocatorGetSplitSize\<close>, one unit less, forgets the head and the alignment. It reports a
  metadata size that has wrapped around, and the data area ends behind the end of the disk.
\<close>

theorem split_size_overruns:
  "BdmAllocatorGetSplitSize 248 1048576 9961472 = (BDM_CODE_OK, Some (18446744073709551560, 8388608)) \<and>
   9961472 < ROUND_UP (add64 248 18446744073709551560) BDM_ALIGN_SIZE + 8388608"
proof -
  have "sub64 192 248 = 18446744073709551560" "add64 248 18446744073709551560 = 192"
    by (simp_all add: sub64_def add64_def)
  then show ?thesis by (simp add: BdmAllocatorGetSplitSize_def Let_def u64_simps ROUND_UP_div)
qed

section \<open>Limits\<close>

lemmas alloc_eval = BdmAllocatorCreate_def BdmAllocatorCreateImpl_def BdmAllocatorInsert_def
  ngx_rbtree_insert_def FreeListAdd_def FreeListDel_def DListDel_def freeIndex_def set_length_def
  BdmAllocatorUpdateMeta_def BdmAllocatorInsertPre_def BdmAllocatorInsertNext_def
  BdmAllocatorInsertNext_tail_def BdmAllocatorInsertNext_merge_def BdmAllocatorRemove_def
  BdmAllocatorRemoveSameLen_def BdmAllocatorRemoveDiffLen_def BdmAllocatorAllocChunk_def
  BdmAllocatorFreeChunk_def mem_para_def mem_write_def mem_read_def mem_heap_def mem_table_def
  add64_def sub64_def mul64_def ngx_rbtree_delete_def ngx_rbtree_next_def unlink_def scan_free.simps Let_def

text \<open>
  Free neighbours are not always joined: a chunk that ends where a free area begins is
  joined with that area only. On six units, taking three chunks of one unit and freeing the
  first, the third and the second leaves the free areas 0 to 0 and 1 to 5, and a request for
  all six units fails although nothing is in use.
\<close>

theorem free_areas_stay_split:
  "(case BdmAllocatorCreate (mem_para 6) False mem_heap mem_table of
      Some (Some a, w) \<Rightarrow>
        (case serve [Alloc 0 0 1, Alloc 0 0 1, Alloc 0 0 1, Free 0, Free 2, Free 1, Alloc 0 0 6] Map.empty a w of
           Some (rs, U, a', w') \<Rightarrow> Some (rs, usedSize a', map (\<lambda>k. (k, clen a' k)) (inorder (tree a')))
         | None \<Rightarrow> None)
    | _ \<Rightarrow> None) =
   Some ([Chunk 0, Chunk 1, Chunk 2, Freed, Freed, Freed, NoSpace], 0, [(0, 1), (1, 5)])"
  by (simp add: alloc_eval)

text \<open>
  The length field of a metadata record has 21 bits. An allocator over \<open>2 ^ 21\<close> units (2 TB in
  units of 1 MB) can be created, but its single free area is recorded with length 0, and
  restoring it from the disk leaves the array of free lists.
\<close>

theorem restore_breaks_at_21_bits:
  "\<exists>a w. BdmAllocatorCreate (mem_para (2 ^ 21)) False mem_heap mem_table = Some (Some a, w) \<and>
     BdmAllocatorCreate (mem_para (2 ^ 21)) True mem_heap w = None"
  by (simp add: alloc_eval BdmAllocatorRestoreImpl_def BdmAllocatorRestoreInsert_def restore_loop.simps [of 0])

end
