(* ===== verification/BdmObj.thy ===== *)
theory BdmObj
  imports BdmAllocatorProps
begin

text \<open>
  The table of block devices of \<^verbatim>\<open>disk/common/bdm_obj.c\<close>: at most 1024 objects, each named by
  the number of its slot, with the functions that reserve and release a slot and that create,
  destroy and reset the object in it through registered callbacks.

  The state of the whole disk layer is the record \<open>bdm\<close>. What an allocator can change while it
  writes metadata is its part \<open>io\<close>: the operating system's side of the devices (a value of type
  \<open>'d\<close>), and the flags of the slots, because a failed transfer marks the slot of its disk as
  unused. The spin lock around the table makes each function atomic.
\<close>

abbreviation BDM_MAX_NUM :: nat where "BDM_MAX_NUM \<equiv> 1024"
abbreviation BDM_INVALID_ID :: nat where "BDM_INVALID_ID \<equiv> 1024"

definition inc32 :: "nat \<Rightarrow> nat" where "inc32 x = (x + 1) mod 2 ^ 32"

definition dec32 :: "nat \<Rightarrow> nat" where "dec32 x = (x + (2 ^ 32 - 1)) mod 2 ^ 32"

lemma dec32_exact: "0 < x \<Longrightarrow> x < 2 ^ 32 \<Longrightarrow> dec32 x = x - 1"
proof -
  assume "0 < x" "x < 2 ^ 32"
  then obtain y where y: "x = Suc y" "y < 2 ^ 32" by (cases x) auto
  then have "dec32 x = (y + 2 ^ 32) mod 2 ^ 32" by (simp add: dec32_def)
  with y show ?thesis by simp
qed

text \<open>\<open>used\<close> is the field of that name of the slots, \<open>present\<close> says that \<open>obj\<close> is not \<open>NULL\<close>.\<close>

record 'd io =
  env :: 'd
  used :: "nat \<Rightarrow> bool"
  present :: "nat \<Rightarrow> bool"

text \<open>An allocator handle: 0, an address that has been freed, or an allocator.\<close>

datatype 'd handle = Null | Dangling | Live "'d io alloc"

record 'd disk_item =
  ialloc :: "'d handle"
  ibdmId :: nat
  iminChunkSize :: nat
  imaxChunkSize :: nat
  itotalSize :: nat
  imetaOffset :: nat
  imetaLength :: nat
  idataOffset :: nat
  idataLength :: nat
  iname :: string
  isn :: string
  ioffset :: nat
  iheadSize :: nat
  ifd :: int
  iasyncfd :: "nat \<Rightarrow> int"

text \<open>\<open>opsSet\<close>: the function pointers in \<open>ops\<close> are set; they are set together.\<close>

record 'd bdm_obj =
  obdmId :: nat
  ototalSize :: nat
  ominChunkSize :: nat
  omaxChunkSize :: nat
  opsSet :: bool
  opsInfo :: "'d disk_item option"

record 'd bdm =
  bio :: "'d io"
  mgrIndex :: nat
  mgrNum :: nat
  objs :: "nat \<Rightarrow> 'd bdm_obj"
  diskNum :: nat
  diskList :: "nat list"
  submitIndex :: nat
  bdmIndex :: nat
  opsRegistered :: bool
  g_bdmInit :: bool
  g_bdmStart :: bool
  g_bdmCount :: nat

record create_para =
  pname :: string
  psn :: string
  poffset :: nat
  plength :: nat
  pbdmId :: nat
  pminChunkSize :: nat
  pmaxChunkSize :: nat

section \<open>Slots\<close>

abbreviation slot_used :: "'d bdm \<Rightarrow> nat \<Rightarrow> bool" where
  "slot_used s i \<equiv> used (bio s) i"

definition set_used :: "nat \<Rightarrow> bool \<Rightarrow> 'd bdm \<Rightarrow> 'd bdm" where
  "set_used i b s = s\<lparr>bio := (bio s)\<lparr>used := (used (bio s))(i := b)\<rparr>\<rparr>"

text \<open>The search for a free slot, starting where the last one ended; \<open>fuel\<close> counts the rounds left.\<close>

fun find_slot :: "nat \<Rightarrow> 'd bdm \<Rightarrow> nat \<times> 'd bdm" where
  "find_slot 0 s = (BDM_INVALID_ID, s)"
| "find_slot (Suc fuel) s =
     (if \<not> slot_used s (mgrIndex s)
      then (mgrIndex s, (set_used (mgrIndex s) True s)
              \<lparr>mgrIndex := (mgrIndex s + 1) mod BDM_MAX_NUM, mgrNum := inc32 (mgrNum s)\<rparr>)
      else find_slot fuel (s\<lparr>mgrIndex := (mgrIndex s + 1) mod BDM_MAX_NUM\<rparr>))"

definition BdmObjAllocBdmId :: "nat \<Rightarrow> 'd bdm \<Rightarrow> nat \<times> 'd bdm" where
  "BdmObjAllocBdmId bdmId s =
     (if mgrNum s = BDM_MAX_NUM then (BDM_INVALID_ID, s)
      else if bdmId < BDM_INVALID_ID \<and> slot_used s bdmId then (BDM_INVALID_ID, s)
      else if bdmId < BDM_INVALID_ID \<and> \<not> slot_used s bdmId
      then (bdmId, (set_used bdmId True s)\<lparr>mgrNum := inc32 (mgrNum s)\<rparr>)
      else find_slot BDM_MAX_NUM s)"

definition BdmObjFreeBdmId :: "nat \<Rightarrow> 'd bdm \<Rightarrow> 'd bdm" where
  "BdmObjFreeBdmId bdmId s =
     (if bdmId \<ge> BDM_MAX_NUM then s
      else if \<not> slot_used s bdmId then s
      else let s1 = set_used bdmId False s in
        s1\<lparr>bio := (bio s1)\<lparr>present := (present (bio s1))(bdmId := False)\<rparr>, mgrNum := dec32 (mgrNum s1)\<rparr>)"

definition BdmObjInsert :: "'d bdm_obj \<Rightarrow> 'd bdm \<Rightarrow> 'd bdm" where
  "BdmObjInsert obj s =
     s\<lparr>bio := (bio s)\<lparr>present := (present (bio s))(obdmId obj := True)\<rparr>,
       objs := (objs s)(obdmId obj := obj)\<rparr>"

text \<open>\<open>BdmSetDiskUsedStatus\<close> acts on the flags only, so it can be called from within a transfer.\<close>

definition BdmSetDiskUsedStatus :: "nat \<Rightarrow> bool \<Rightarrow> 'd io \<Rightarrow> 'd io" where
  "BdmSetDiskUsedStatus bdmId status w =
     (if bdmId \<ge> BDM_MAX_NUM then w
      else if \<not> present w bdmId then w
      else w\<lparr>used := (used w)(bdmId := status)\<rparr>)"

definition BdmObjInit :: "'d bdm \<Rightarrow> int \<times> 'd bdm" where
  "BdmObjInit s =
     (BDM_CODE_OK, s\<lparr>mgrIndex := 0, mgrNum := 0,
        bio := (bio s)\<lparr>used := (\<lambda>i. if i < BDM_MAX_NUM then False else used (bio s) i),
                       present := (\<lambda>i. if i < BDM_MAX_NUM then False else present (bio s) i)\<rparr>\<rparr>)"

section \<open>Objects\<close>

text \<open>\<open>BdmGetBdmObj\<close> delivers \<open>None\<close> for \<open>NULL\<close>.\<close>

definition BdmGetBdmObj :: "nat \<Rightarrow> 'd bdm \<Rightarrow> 'd bdm_obj option" where
  "BdmGetBdmObj bdmId s =
     (if bdmId \<ge> BDM_MAX_NUM \<or> \<not> slot_used s bdmId then None
      else if present (bio s) bdmId then Some (objs s bdmId) else None)"

datatype disk_state = BDM_DISK_STATE_NORMAL | BDM_DISK_STATE_FAULT

definition BdmGetBdmStatus :: "nat \<Rightarrow> 'd bdm \<Rightarrow> disk_state" where
  "BdmGetBdmStatus bdmId s =
     (if bdmId \<ge> BDM_MAX_NUM \<or> \<not> slot_used s bdmId \<or> \<not> present (bio s) bdmId
      then BDM_DISK_STATE_FAULT else BDM_DISK_STATE_NORMAL)"

text \<open>
  The registered callbacks are arguments: \<open>create\<close> delivers the new object or \<open>NULL\<close>, \<open>destroy\<close> and
  \<open>reset\<close> a return code. The object in a slot is passed by its number, because the callbacks
  change it in place; \<open>None\<close> for the number is a \<open>NULL\<close> pointer.
\<close>

definition BdmCreate ::
  "(nat \<Rightarrow> create_para \<Rightarrow> 'd bdm \<Rightarrow> ('d bdm_obj option \<times> 'd bdm) option) \<Rightarrow>
   create_para \<Rightarrow> 'd bdm \<Rightarrow> (int \<times> nat \<times> 'd bdm) option" where
  "BdmCreate create para s =
     (if \<not> opsRegistered s then Some (BDM_CODE_ERR, 0, s)
      else case BdmObjAllocBdmId (pbdmId para) s of (bdmId, s1) \<Rightarrow>
        if bdmId = BDM_INVALID_ID then Some (BDM_CODE_CACHELIST_FULL, bdmId, s1)
        else do {
          (obj, s2) \<leftarrow> create bdmId para s1;
          (case obj of
             None \<Rightarrow> Some (BDM_CODE_ERR, bdmId, BdmObjFreeBdmId bdmId s2)
           | Some b \<Rightarrow> Some (BDM_CODE_OK, bdmId, BdmObjInsert b s2)) })"

definition BdmDestroy ::
  "(nat option \<Rightarrow> 'd bdm \<Rightarrow> (int \<times> 'd bdm) option) \<Rightarrow> nat \<Rightarrow> 'd bdm \<Rightarrow> (int \<times> 'd bdm) option" where
  "BdmDestroy destroy bdmId s =
     (if bdmId \<ge> BDM_MAX_NUM \<or> \<not> slot_used s bdmId then Some (BDM_CODE_NOT_EXIST, s)
      else if \<not> opsRegistered s then Some (BDM_CODE_ERR, s)
      else do {
        (ret, s1) \<leftarrow> destroy (if present (bio s) bdmId then Some bdmId else None) s;
        if ret \<noteq> BDM_CODE_OK then Some (ret, s1)
        else Some (BDM_CODE_OK, BdmObjFreeBdmId bdmId s1) })"

definition BdmResetDisk ::
  "(nat \<Rightarrow> 'd bdm \<Rightarrow> (int \<times> 'd bdm) option) \<Rightarrow> nat \<Rightarrow> 'd bdm \<Rightarrow> (int \<times> 'd bdm) option" where
  "BdmResetDisk reset diskId s =
     (case BdmGetBdmObj diskId s of
        None \<Rightarrow> Some (BDM_CODE_NOT_EXIST, s)
      | Some _ \<Rightarrow>
          if \<not> opsRegistered s then Some (BDM_CODE_ERR, s)
          else do {
            (ret, s1) \<leftarrow> reset diskId s;
            if ret \<noteq> BDM_CODE_OK then Some (ret, s1) else Some (BDM_CODE_OK, s1) })"

section \<open>The slot table stays consistent\<close>

text \<open>\<open>num\<close> counts the used slots and \<open>index\<close> is a slot.\<close>

definition mgr_ok :: "'d bdm \<Rightarrow> bool" where
  "mgr_ok s \<longleftrightarrow> mgrNum s = card {i. i < BDM_MAX_NUM \<and> slot_used s i} \<and> mgrIndex s < BDM_MAX_NUM"

lemma set_used_simps [simp]:
  "mgrIndex (set_used i b s) = mgrIndex s" "mgrNum (set_used i b s) = mgrNum s"
  "slot_used (set_used i b s) j = (if j = i then b else slot_used s j)"
  "present (bio (set_used i b s)) = present (bio s)"
  by (simp_all add: set_used_def)

lemma used_count_less:
  assumes "i < BDM_MAX_NUM" "\<not> P i"
  shows "card {j. j < BDM_MAX_NUM \<and> P j} < BDM_MAX_NUM"
proof -
  have "{j. j < BDM_MAX_NUM \<and> P j} \<subset> {..<BDM_MAX_NUM}" using assms by auto
  from psubset_card_mono [OF _ this] show ?thesis by simp
qed

lemma used_count_le: "card {j. j < BDM_MAX_NUM \<and> P j} \<le> BDM_MAX_NUM"
  using card_mono [of "{..<BDM_MAX_NUM}" "{j. j < BDM_MAX_NUM \<and> P j}"] by auto

lemma reserve_ok:
  assumes "mgr_ok s" "i < BDM_MAX_NUM" "\<not> slot_used s i" "n < BDM_MAX_NUM"
  shows "mgr_ok ((set_used i True s)\<lparr>mgrIndex := n, mgrNum := inc32 (mgrNum s)\<rparr>)"
proof -
  have "{j. j < BDM_MAX_NUM \<and> (if j = i then True else slot_used s j)} = insert i {j. j < BDM_MAX_NUM \<and> slot_used s j}"
    using assms(2) by auto
  moreover have "i \<notin> {j. j < BDM_MAX_NUM \<and> slot_used s j}" using assms(3) by simp
  moreover have "card {j. j < BDM_MAX_NUM \<and> slot_used s j} < BDM_MAX_NUM"
    using used_count_less [of i "slot_used s"] assms(2,3) .
  ultimately show ?thesis using assms(1,4) by (simp add: mgr_ok_def inc32_def)
qed

text \<open>A search of 1024 rounds visits every slot.\<close>

lemma find_slot_ok:
  assumes "mgr_ok s" "fuel \<le> BDM_MAX_NUM"
  shows "case find_slot fuel s of (i, s') \<Rightarrow>
     mgr_ok s' \<and>
     (if i = BDM_INVALID_ID
      then (\<forall>k<fuel. slot_used s ((mgrIndex s + k) mod BDM_MAX_NUM)) \<and> slot_used s' = slot_used s
      else i < BDM_MAX_NUM \<and> \<not> slot_used s i \<and> slot_used s' = (slot_used s)(i := True))"
  using assms
proof (induction fuel s rule: find_slot.induct)
  case (2 fuel s)
  let ?n = "(mgrIndex s + 1) mod BDM_MAX_NUM"
  have idx: "mgrIndex s < BDM_MAX_NUM" using "2.prems"(1) by (simp add: mgr_ok_def)
  show ?case
  proof (cases "slot_used s (mgrIndex s)")
    case False
    with reserve_ok [OF "2.prems"(1) idx False, of ?n] idx show ?thesis by auto
  next
    case True
    let ?s = "s\<lparr>mgrIndex := ?n\<rparr>"
    have ok: "mgr_ok ?s" using "2.prems"(1) by (simp add: mgr_ok_def)
    have rest: "(\<forall>k<Suc fuel. slot_used s ((mgrIndex s + k) mod BDM_MAX_NUM)) \<longleftrightarrow>
        (\<forall>k<fuel. slot_used s ((?n + k) mod BDM_MAX_NUM))"
      using True idx by (auto simp: less_Suc_eq_0_disj mod_add_left_eq)
    obtain i s' where r: "find_slot fuel ?s = (i, s')" by (cases "find_slot fuel ?s") auto
    with "2.IH" [OF _ ok] "2.prems"(2) True rest show ?thesis by (auto split: if_splits)
  qed
qed simp

lemma alloc_id_full:
  assumes "mgr_ok s" "mgrNum s = BDM_MAX_NUM" "i < BDM_MAX_NUM"
  shows "slot_used s i"
proof (rule ccontr)
  assume "\<not> slot_used s i"
  with used_count_less [of i "slot_used s"] assms show False by (simp add: mgr_ok_def)
qed

lemma all_slots_visited:
  assumes "\<forall>k<BDM_MAX_NUM. P ((n + k) mod BDM_MAX_NUM)" "i < BDM_MAX_NUM"
  shows "P i"
proof -
  let ?k = "(i + BDM_MAX_NUM - n mod BDM_MAX_NUM) mod BDM_MAX_NUM"
  have "(n + ?k) mod BDM_MAX_NUM = (n mod BDM_MAX_NUM + (i + BDM_MAX_NUM - n mod BDM_MAX_NUM)) mod BDM_MAX_NUM"
    by (metis mod_add_left_eq mod_add_right_eq)
  also have "n mod BDM_MAX_NUM + (i + BDM_MAX_NUM - n mod BDM_MAX_NUM) = i + BDM_MAX_NUM"
    using mod_less_divisor [of BDM_MAX_NUM n] by linarith
  finally have "(n + ?k) mod BDM_MAX_NUM = i" using assms(2) by simp
  with assms(1) [rule_format, of ?k] show ?thesis by simp
qed

text \<open>
  \<open>BdmObjAllocBdmId\<close> hands out a slot that was free and in range, marks it and nothing else,
  and keeps the count of used slots; it honours a requested slot number. It fails, without
  changing a slot, exactly when the requested slot is taken or, with no valid request, when all
  1024 slots are taken.
\<close>

theorem alloc_bdm_id:
  assumes "mgr_ok s" "BdmObjAllocBdmId req s = (i, s')"
  shows "mgr_ok s' \<and>
    (if i = BDM_INVALID_ID
     then slot_used s' = slot_used s \<and>
          (if req < BDM_INVALID_ID then slot_used s req else \<forall>j<BDM_MAX_NUM. slot_used s j)
     else i < BDM_MAX_NUM \<and> \<not> slot_used s i \<and> slot_used s' = (slot_used s)(i := True) \<and>
          (req < BDM_INVALID_ID \<longrightarrow> i = req))"
proof -
  consider "mgrNum s = BDM_MAX_NUM"
    | "mgrNum s \<noteq> BDM_MAX_NUM" "req < BDM_INVALID_ID" "slot_used s req"
    | "mgrNum s \<noteq> BDM_MAX_NUM" "req < BDM_INVALID_ID" "\<not> slot_used s req"
    | "mgrNum s \<noteq> BDM_MAX_NUM" "\<not> req < BDM_INVALID_ID" by blast
  then show ?thesis
  proof cases
    case 1
    then show ?thesis
      using assms alloc_id_full [OF assms(1)] by (auto simp: BdmObjAllocBdmId_def)
  next
    case 2
    then show ?thesis using assms by (auto simp: BdmObjAllocBdmId_def)
  next
    case 3
    then have "i = req" "s' = (set_used req True s)\<lparr>mgrIndex := mgrIndex s, mgrNum := inc32 (mgrNum s)\<rparr>"
      using assms(2) by (auto simp: BdmObjAllocBdmId_def set_used_def)
    moreover have "mgrIndex s < BDM_MAX_NUM" using assms(1) by (simp add: mgr_ok_def)
    ultimately show ?thesis using 3 reserve_ok [OF assms(1) 3(2,3)] by auto
  next
    case 4
    then have r: "find_slot BDM_MAX_NUM s = (i, s')" using assms(2) by (simp add: BdmObjAllocBdmId_def)
    note f = find_slot_ok [OF assms(1) order_refl, unfolded r prod.case]
    show ?thesis
    proof (cases "i = BDM_INVALID_ID")
      case True
      then have "\<forall>j<BDM_MAX_NUM. slot_used s j"
        using f all_slots_visited [of "slot_used s" "mgrIndex s"] by auto
      with f True 4 show ?thesis by auto
    next
      case False
      with f 4 show ?thesis by auto
    qed
  qed
qed

definition empty_io :: "unit io" where
  "empty_io = \<lparr>env = (), used = (\<lambda>_. False), present = (\<lambda>_. False)\<rparr>"

definition empty_bdm :: "unit bdm" where
  "empty_bdm = \<lparr>bio = empty_io, mgrIndex = 0, mgrNum = 0,
     objs = (\<lambda>_. \<lparr>obdmId = 0, ototalSize = 0, ominChunkSize = 0, omaxChunkSize = 0, opsSet = False, opsInfo = None\<rparr>),
     diskNum = 0, diskList = [], submitIndex = 0, bdmIndex = 0, opsRegistered = False,
     g_bdmInit = False, g_bdmStart = False, g_bdmCount = 0\<rparr>"

theorem alloc_bdm_id_witness:
  "mgr_ok (snd (BdmObjAllocBdmId 3 empty_bdm)) \<and> fst (BdmObjAllocBdmId 3 empty_bdm) = 3"
proof -
  have ok: "mgr_ok empty_bdm" by (simp add: mgr_ok_def empty_bdm_def empty_io_def)
  obtain i s' where r: "BdmObjAllocBdmId 3 empty_bdm = (i, s')" by (cases "BdmObjAllocBdmId 3 empty_bdm") auto
  from alloc_bdm_id [OF ok r] r show ?thesis
    by (auto simp: empty_bdm_def empty_io_def split: if_splits)
qed

text \<open>
  \<open>BdmObjFreeBdmId\<close> releases a used slot, clears its object and keeps the count; freeing a free
  slot or a number out of range changes nothing. So a slot that was reserved and released can
  be reserved again.
\<close>

theorem free_bdm_id:
  assumes "mgr_ok s"
  shows "mgr_ok (BdmObjFreeBdmId i s) \<and>
    (i < BDM_MAX_NUM \<longrightarrow> \<not> slot_used (BdmObjFreeBdmId i s) i) \<and>
    (\<forall>j. j \<noteq> i \<longrightarrow> slot_used (BdmObjFreeBdmId i s) j = slot_used s j) \<and>
    (i < BDM_MAX_NUM \<and> slot_used s i \<longrightarrow> BdmGetBdmObj i (BdmObjFreeBdmId i s) = None)"
proof (cases "i < BDM_MAX_NUM \<and> slot_used s i")
  case True
  let ?A = "{j. j < BDM_MAX_NUM \<and> slot_used s j}"
  have "{j. j < BDM_MAX_NUM \<and> (if j = i then False else slot_used s j)} = ?A - {i}" by auto
  moreover have "card (?A - {i}) = card ?A - 1" using True by (intro card_Diff_singleton) auto
  moreover have "0 < card ?A" using True by (auto simp: card_gt_0_iff)
  moreover have "card ?A \<le> BDM_MAX_NUM" by (rule used_count_le)
  ultimately have "dec32 (card ?A) = card (?A - {i})" by (simp add: dec32_exact)
  with True assms \<open>_ = ?A - {i}\<close> show ?thesis
    by (auto simp: BdmObjFreeBdmId_def mgr_ok_def BdmGetBdmObj_def Let_def)
next
  case False
  with assms show ?thesis by (auto simp: BdmObjFreeBdmId_def)
qed

theorem free_bdm_id_witness:
  "mgr_ok (BdmObjFreeBdmId 5 empty_bdm) \<and> \<not> slot_used (BdmObjFreeBdmId 5 empty_bdm) 5"
proof -
  have ok: "mgr_ok empty_bdm" by (simp add: mgr_ok_def empty_bdm_def empty_io_def)
  from free_bdm_id [OF ok, of 5] show ?thesis by simp
qed

text \<open>
  \<open>BdmSetDiskUsedStatus\<close> clears the flag of a slot without adjusting \<open>num\<close>: after a disk failed
  in a table with one device, \<open>num\<close> is 1 with no slot in use, and \<open>BdmObjFreeBdmId\<close> does not correct
  it any more.
\<close>

theorem set_used_status_breaks_count:
  "let s1 = BdmObjInsert (objs empty_bdm 0) (snd (BdmObjAllocBdmId 0 empty_bdm));
       s2 = s1\<lparr>bio := BdmSetDiskUsedStatus 0 False (bio s1)\<rparr>
   in mgr_ok s1 \<and> \<not> mgr_ok s2 \<and> mgrNum (BdmObjFreeBdmId 0 s2) = 1 \<and> (\<forall>i. \<not> slot_used s2 i)"
proof -
  have "{i. i < BDM_MAX_NUM \<and> i = 0} = {0 :: nat}" by auto
  then show ?thesis
    by (simp add: Let_def BdmObjAllocBdmId_def BdmObjInsert_def BdmSetDiskUsedStatus_def BdmObjFreeBdmId_def
        mgr_ok_def set_used_def inc32_def empty_bdm_def empty_io_def)
qed

end
