(* ===== verification/BdmDisk.thy ===== *)
theory BdmDisk
  imports BdmObj
begin

text \<open>
  The disk backend of \<^verbatim>\<open>disk/common/bdm_disk.c\<close>: transfers with retries, the metadata callbacks of
  the allocator, the operations on chunks, the disk head, creating, restoring, destroying and
  resetting a disk, and the completion of asynchronous requests.

  Everything outside the repository is an argument: the record \<open>os\<close> holds the system calls, the
  report to the cluster manager, the submission of asynchronous requests and the outcome of
  \<open>malloc\<close>, all acting on the state \<open>'d\<close>. As POSIX says, a call of \<open>pread\<close> or \<open>pwrite\<close> transfers
  at most the bytes it was asked for. The trace points around some calls do nothing in a
  production build and are left out.
\<close>

type_synonym byte = "8 word"

abbreviation BDM_DISK_MAGIC :: nat where "BDM_DISK_MAGIC \<equiv> 0xFFDDCBAABCDDFF"
abbreviation BDM_IO_RETRY_NUM :: nat where "BDM_IO_RETRY_NUM \<equiv> 3"
abbreviation BDM_AYSNC_IO_FD_NUM :: nat where "BDM_AYSNC_IO_FD_NUM \<equiv> 8"
abbreviation BDM_WORKER_THREAD_NUM :: nat where "BDM_WORKER_THREAD_NUM \<equiv> 8"
abbreviation BDM_BLOCK_SIZE :: nat where "BDM_BLOCK_SIZE \<equiv> 4096"
abbreviation BDM_NAME_LEN :: nat where "BDM_NAME_LEN \<equiv> 128"
abbreviation BDM_SN_LEN :: nat where "BDM_SN_LEN \<equiv> 32"
abbreviation BDM_RESTORE_META_SIZE :: nat where "BDM_RESTORE_META_SIZE \<equiv> 2097152"
abbreviation sizeof_BdmDiskHead :: nat where "sizeof_BdmDiskHead \<equiv> 248"

record io_context =
  iolen :: nat
  iochunkId :: nat
  iooffset :: nat
  ioretryNum :: nat
  ioisRead :: bool
  iobdmId :: nat

text \<open>
  \<open>os_open\<close> has the flag \<open>__O_DIRECT\<close> as argument; \<open>os_submit\<close> is \<open>io_submit\<close> of prepared requests
  (descriptor, direction, length, file offset), \<open>os_resubmit\<close> of a single request once more.
\<close>

record 'd os =
  os_pread :: "int \<Rightarrow> nat \<Rightarrow> nat \<Rightarrow> 'd \<Rightarrow> byte list option \<times> 'd"
  os_pwrite :: "int \<Rightarrow> byte list \<Rightarrow> nat \<Rightarrow> 'd \<Rightarrow> int \<times> 'd"
  os_open :: "string \<Rightarrow> bool \<Rightarrow> 'd \<Rightarrow> int \<times> 'd"
  os_close :: "int \<Rightarrow> 'd \<Rightarrow> 'd"
  os_lseek_end :: "int \<Rightarrow> 'd \<Rightarrow> int"
  os_malloc :: "'d \<Rightarrow> bool \<times> 'd"
  os_heap :: "'d \<Rightarrow> heap_block \<times> 'd"
  os_submit :: "nat \<Rightarrow> (int \<times> bool \<times> nat \<times> nat) list \<Rightarrow> 'd \<Rightarrow> int \<times> 'd"
  os_resubmit :: "nat \<Rightarrow> io_context \<Rightarrow> 'd \<Rightarrow> int \<times> 'd"
  os_pool_add :: "nat \<Rightarrow> io_context \<Rightarrow> 'd \<Rightarrow> int \<times> 'd"
  os_io_callback :: "io_context \<Rightarrow> int \<Rightarrow> 'd \<Rightarrow> 'd"
  CmReportDiskStatus :: "nat \<Rightarrow> 'd \<Rightarrow> int \<times> 'd"

section \<open>Layout of the structures on the disk\<close>

text \<open>Little-endian integers.\<close>

fun le_bytes :: "nat \<Rightarrow> nat \<Rightarrow> byte list" where
  "le_bytes 0 x = []"
| "le_bytes (Suc k) x = of_nat (x mod 256) # le_bytes k (x div 256)"

fun le_val :: "byte list \<Rightarrow> nat" where
  "le_val [] = 0"
| "le_val (b # bs) = unat b + 256 * le_val bs"

text \<open>A \<open>BdmChunkMeta\<close>: the bit field, lowest bit first, padding, the two 64-bit fields.\<close>

definition meta_bytes :: "chunk_meta \<Rightarrow> byte list" where
  "meta_bytes m =
     le_bytes 4 (of_bool (mhead m) + 2 * of_bool (mfree m) + 4 * of_bool (mrestore m) + 8 * (mlength m mod 2 ^ 21))
     @ replicate 4 0 @ le_bytes 8 (mbucketId m) @ le_bytes 8 (mbucketOffset m)"

definition bytes_meta :: "byte list \<Rightarrow> chunk_meta" where
  "bytes_meta bs =
     (let f = le_val (take 4 bs) in
      \<lparr>mhead = odd f, mfree = odd (f div 2), mrestore = odd (f div 4), mlength = f div 8 mod 2 ^ 21,
       mbucketId = le_val (take 8 (drop 8 bs)), mbucketOffset = le_val (take 8 (drop 16 bs))\<rparr>)"

record disk_head =
  hmagic :: nat
  hbdmId :: nat
  hminChunkSize :: nat
  hmaxChunkSize :: nat
  htotalSize :: nat
  hmetaOffset :: nat
  hmetaLength :: nat
  hdataOffset :: nat
  hdataLength :: nat
  hname :: string
  hsn :: string
  hoffset :: nat
  hheadSize :: nat

definition string_bytes :: "nat \<Rightarrow> string \<Rightarrow> byte list" where
  "string_bytes n s = take n (map (\<lambda>c. of_nat (of_char c)) s @ replicate n 0)"

definition head_bytes :: "disk_head \<Rightarrow> byte list" where
  "head_bytes h =
     le_bytes 8 (hmagic h) @ le_bytes 4 (hbdmId h) @ replicate 4 0 @
     le_bytes 8 (hminChunkSize h) @ le_bytes 8 (hmaxChunkSize h) @ le_bytes 8 (htotalSize h) @
     le_bytes 8 (hmetaOffset h) @ le_bytes 8 (hmetaLength h) @
     le_bytes 8 (hdataOffset h) @ le_bytes 8 (hdataLength h) @
     string_bytes BDM_NAME_LEN (hname h) @ string_bytes BDM_SN_LEN (hsn h) @
     le_bytes 8 (hoffset h) @ le_bytes 8 (hheadSize h)"

text \<open>The fields of a head that are read back; the names in it are not looked at.\<close>

definition field :: "nat \<Rightarrow> nat \<Rightarrow> byte list \<Rightarrow> nat" where
  "field pos n bs = le_val (take n (drop pos bs))"

definition bytes_head :: "byte list \<Rightarrow> disk_head" where
  "bytes_head bs =
     \<lparr>hmagic = field 0 8 bs, hbdmId = field 8 4 bs, hminChunkSize = field 16 8 bs,
      hmaxChunkSize = field 24 8 bs, htotalSize = field 32 8 bs, hmetaOffset = field 40 8 bs,
      hmetaLength = field 48 8 bs, hdataOffset = field 56 8 bs, hdataLength = field 64 8 bs,
      hname = [], hsn = [], hoffset = field 232 8 bs, hheadSize = field 240 8 bs\<rparr>"

section \<open>Transfers\<close>

text \<open>
  The loop of \<open>BdmDiskInnerReadWriteImpl\<close>: the bytes still to transfer, the buffer, and the state;
  the result has the number of bytes left.
\<close>

function rw_loop ::
  "'d os \<Rightarrow> int \<Rightarrow> nat \<Rightarrow> nat \<Rightarrow> bool \<Rightarrow> nat \<Rightarrow> byte list \<Rightarrow> 'd \<Rightarrow> nat \<times> byte list \<times> 'd" where
  "rw_loop os fd len off isRead remain buff d =
     (if remain = 0 then (remain, buff, d)
      else let pos = len - remain in
        if isRead
        then (case os_pread os fd remain (add64 off pos) d of
                (None, d') \<Rightarrow> (remain, buff, d')
              | (Some bs, d') \<Rightarrow>
                  let bs' = take remain bs in
                  if bs' = [] then (remain, buff, d')
                  else rw_loop os fd len off isRead (remain - length bs')
                         (take pos buff @ bs' @ drop (pos + length bs') buff) d')
        else (case os_pwrite os fd (take remain (drop pos buff)) (add64 off pos) d of
                (rc, d') \<Rightarrow>
                  if rc \<le> 0 then (remain, buff, d')
                  else rw_loop os fd len off isRead (remain - min (nat rc) remain) buff d'))"
  by pat_completeness auto
termination
  by (relation "measure (\<lambda>(os, fd, len, off, isRead, remain, buff, d). remain)") auto

definition BdmDiskInnerReadWriteImpl ::
  "'d os \<Rightarrow> int \<Rightarrow> byte list \<Rightarrow> nat \<Rightarrow> nat \<Rightarrow> bool \<Rightarrow> 'd \<Rightarrow> nat \<times> byte list \<times> 'd" where
  "BdmDiskInnerReadWriteImpl os fd buff len off isRead d =
     (case rw_loop os fd len off isRead len buff d of (remain, buff', d') \<Rightarrow> (len - remain, buff', d'))"

text \<open>The attempts of \<open>BdmDiskInnerReadWrite\<close>; \<open>Inr\<close> is success.\<close>

fun rw_attempts ::
  "nat \<Rightarrow> 'd os \<Rightarrow> int \<Rightarrow> byte list \<Rightarrow> nat \<Rightarrow> nat \<Rightarrow> bool \<Rightarrow> 'd \<Rightarrow> bool \<times> byte list \<times> 'd" where
  "rw_attempts 0 os fd buff len off isRead d = (False, buff, d)"
| "rw_attempts (Suc k) os fd buff len off isRead d =
     (case BdmDiskInnerReadWriteImpl os fd buff len off isRead d of
        (rwLen, buff', d') \<Rightarrow>
          if rwLen = len then (True, buff', d') else rw_attempts k os fd buff' len off isRead d')"

text \<open>
  The common part of \<open>BdmDiskInnerReadWrite\<close> and \<open>BdmDiskInnerReadWriteDirect\<close>, which differ in
  the descriptor only: up to four attempts, then the disk is reported and its slot given up.
\<close>

definition rw_or_fault ::
  "'d os \<Rightarrow> nat \<Rightarrow> int \<Rightarrow> byte list \<Rightarrow> nat \<Rightarrow> nat \<Rightarrow> bool \<Rightarrow> 'd io \<Rightarrow> int \<times> byte list \<times> 'd io" where
  "rw_or_fault os bdmId fd buff len off isRead w =
     (case rw_attempts (Suc BDM_IO_RETRY_NUM) os fd buff len off isRead (env w) of
        (True, buff', d') \<Rightarrow> (BDM_CODE_OK, buff', w\<lparr>env := d'\<rparr>)
      | (False, buff', d') \<Rightarrow>
          (case CmReportDiskStatus os (bdmId mod 2 ^ 16) d' of
             (ret, d'') \<Rightarrow> (BDM_CODE_ERR_IO, buff', BdmSetDiskUsedStatus bdmId False (w\<lparr>env := d''\<rparr>))))"

definition BdmDiskInnerReadWrite ::
  "'d os \<Rightarrow> 'd disk_item \<Rightarrow> byte list \<Rightarrow> nat \<Rightarrow> nat \<Rightarrow> bool \<Rightarrow> 'd io \<Rightarrow> int \<times> byte list \<times> 'd io" where
  "BdmDiskInnerReadWrite os item buff len off isRead w =
     rw_or_fault os (ibdmId item) (ifd item) buff len off isRead w"

text \<open>\<open>idx\<close> is the new value of the static counter \<open>submitIndex\<close>.\<close>

definition BdmDiskInnerReadWriteDirect ::
  "'d os \<Rightarrow> 'd disk_item \<Rightarrow> nat \<Rightarrow> byte list \<Rightarrow> nat \<Rightarrow> nat \<Rightarrow> bool \<Rightarrow> 'd io \<Rightarrow> int \<times> byte list \<times> 'd io" where
  "BdmDiskInnerReadWriteDirect os item idx buff len off isRead w =
     rw_or_fault os (ibdmId item) (iasyncfd item (idx mod BDM_AYSNC_IO_FD_NUM)) buff len off isRead w"

text \<open>
  The metadata callbacks. The pointer \<open>itemPtr\<close> they are registered with is dereferenced at every
  call; the fields they read do not change while the allocator lives.
\<close>

definition BdmDiskWriteMeta ::
  "'d os \<Rightarrow> 'd disk_item \<Rightarrow> 'd io \<Rightarrow> nat \<Rightarrow> chunk_meta \<Rightarrow> nat \<Rightarrow> int \<times> 'd io" where
  "BdmDiskWriteMeta os item w offset m len =
     (let rwOffset = add64 (add64 (ioffset item) (imetaOffset item)) offset in
      case BdmDiskInnerReadWrite os item (meta_bytes m) len rwOffset False w of
        (ret, _, w') \<Rightarrow> if ret \<noteq> BDM_CODE_OK then (ret, w') else (BDM_CODE_OK, w'))"

definition BdmDiskReadMeta ::
  "'d os \<Rightarrow> 'd disk_item \<Rightarrow> 'd io \<Rightarrow> nat \<Rightarrow> nat \<Rightarrow> int \<times> (nat \<Rightarrow> chunk_meta) \<times> 'd io" where
  "BdmDiskReadMeta os item w offset len =
     (let rwOffset = add64 (add64 (ioffset item) (imetaOffset item)) offset in
      case BdmDiskInnerReadWrite os item (replicate len 0) len rwOffset True w of
        (ret, buff, w') \<Rightarrow>
          (let tab = (\<lambda>i. bytes_meta (take sizeof_BdmChunkMeta (drop (sizeof_BdmChunkMeta * i) buff))) in
           if ret \<noteq> BDM_CODE_OK then (ret, tab, w') else (BDM_CODE_OK, tab, w')))"

section \<open>Operations on chunks\<close>

definition put_item :: "nat \<Rightarrow> 'd disk_item \<Rightarrow> 'd bdm \<Rightarrow> 'd bdm" where
  "put_item i item s = s\<lparr>objs := (objs s)(i := (objs s i)\<lparr>opsInfo := Some item\<rparr>)\<rparr>"

text \<open>The argument \<open>i\<close> is the slot of the object \<open>objPtr\<close> points to.\<close>

definition BdmDiskAlloc ::
  "nat \<Rightarrow> nat \<Rightarrow> nat \<Rightarrow> nat \<Rightarrow> 'd bdm \<Rightarrow> (int \<times> nat option \<times> 'd bdm) option" where
  "BdmDiskAlloc i bucketId bucketOffset len s =
     (case opsInfo (objs s i) of
        None \<Rightarrow> Some (BDM_CODE_ERR, None, s)
      | Some item \<Rightarrow>
          if len = 0 \<or> iminChunkSize item = 0 \<or> len mod iminChunkSize item \<noteq> 0
          then Some (BDM_CODE_INVALID_PARAM, None, s)
          else (case ialloc item of
                  Null \<Rightarrow> Some (BDM_CODE_INVALID_PARAM, None, s)
                | Dangling \<Rightarrow> None
                | Live a \<Rightarrow> do {
                    (ret, chunkId, a', w') \<leftarrow> BdmAllocatorAllocChunk bucketId bucketOffset len a (bio s);
                    Some (ret, chunkId, put_item i (item\<lparr>ialloc := Live a'\<rparr>) (s\<lparr>bio := w'\<rparr>)) }))"

definition BdmDiskFree :: "nat \<Rightarrow> nat \<Rightarrow> nat \<Rightarrow> 'd bdm \<Rightarrow> (int \<times> 'd bdm) option" where
  "BdmDiskFree i len chunkId s =
     (case opsInfo (objs s i) of
        None \<Rightarrow> Some (BDM_CODE_ERR, s)
      | Some item \<Rightarrow>
          (case ialloc item of
             Null \<Rightarrow> Some (BDM_CODE_INVALID_PARAM, s)
           | Dangling \<Rightarrow> None
           | Live a \<Rightarrow> do {
               (ret, a', w') \<leftarrow> BdmAllocatorFreeChunk len chunkId a (bio s);
               Some (ret, put_item i (item\<lparr>ialloc := Live a'\<rparr>) (s\<lparr>bio := w'\<rparr>)) }))"

definition CheckHandle :: "'d handle \<Rightarrow> nat \<Rightarrow> nat \<Rightarrow> nat \<Rightarrow> int option" where
  "CheckHandle h chunkId offset len =
     (case h of
        Null \<Rightarrow> Some BDM_CODE_INVALID_PARAM
      | Dangling \<Rightarrow> None
      | Live a \<Rightarrow> Some (BdmAllocatorCheckChunk chunkId offset len a))"

definition rwOffset :: "'d disk_item \<Rightarrow> nat \<Rightarrow> nat \<Rightarrow> nat" where
  "rwOffset item chunkId offset =
     add64 (add64 (add64 (ioffset item) (idataOffset item)) (mul64 (iminChunkSize item) chunkId)) offset"

text \<open>
  \<open>BdmDiskRead\<close> and \<open>BdmDiskWrite\<close> differ in the direction only. \<open>buf\<close> is the address of the
  buffer, \<open>buff\<close> its contents.
\<close>

definition BdmDiskTransfer ::
  "'d os \<Rightarrow> bool \<Rightarrow> nat \<Rightarrow> nat \<Rightarrow> nat \<Rightarrow> nat \<Rightarrow> byte list \<Rightarrow> nat \<Rightarrow> 'd bdm \<Rightarrow>
     (int \<times> byte list \<times> 'd bdm) option" where
  "BdmDiskTransfer os isRead i chunkId offset buf buff len s =
     (case opsInfo (objs s i) of
        None \<Rightarrow> Some (BDM_CODE_ERR, buff, s)
      | Some item \<Rightarrow> do {
          ret \<leftarrow> CheckHandle (ialloc item) chunkId offset len;
          if ret \<noteq> BDM_CODE_OK then Some (ret, buff, s)
          else let off = rwOffset item chunkId offset in
            if buf mod BDM_BLOCK_SIZE = 0 \<and> len mod BDM_BLOCK_SIZE = 0 \<and> off mod BDM_BLOCK_SIZE = 0
            then let idx = add64 (submitIndex s) 1 in
              (case BdmDiskInnerReadWriteDirect os item idx buff len off isRead (bio s) of
                 (ret, buff', w') \<Rightarrow> Some (ret, buff', s\<lparr>bio := w', submitIndex := idx\<rparr>))
            else (case BdmDiskInnerReadWrite os item buff len off isRead (bio s) of
                    (ret, buff', w') \<Rightarrow> Some (ret, buff', s\<lparr>bio := w'\<rparr>)) })"

definition BdmDiskRead ::
  "'d os \<Rightarrow> nat \<Rightarrow> nat \<Rightarrow> nat \<Rightarrow> nat \<Rightarrow> byte list \<Rightarrow> nat \<Rightarrow> 'd bdm \<Rightarrow> (int \<times> byte list \<times> 'd bdm) option" where
  "BdmDiskRead os i chunkId offset buf buff len s = BdmDiskTransfer os True i chunkId offset buf buff len s"

definition BdmDiskWrite ::
  "'d os \<Rightarrow> nat \<Rightarrow> nat \<Rightarrow> nat \<Rightarrow> nat \<Rightarrow> byte list \<Rightarrow> nat \<Rightarrow> 'd bdm \<Rightarrow> (int \<times> byte list \<times> 'd bdm) option" where
  "BdmDiskWrite os i chunkId offset buf buff len s = BdmDiskTransfer os False i chunkId offset buf buff len s"

definition BdmDiskAllocatorReset :: "nat \<Rightarrow> 'd bdm \<Rightarrow> (int \<times> 'd bdm) option" where
  "BdmDiskAllocatorReset i s =
     (case opsInfo (objs s i) of
        None \<Rightarrow> Some (BDM_CODE_ERR, s)
      | Some item \<Rightarrow>
          (case ialloc item of
             Live a \<Rightarrow> (case BdmAllocatorResetChunk a of
                          (ret, a') \<Rightarrow> Some (ret, put_item i (item\<lparr>ialloc := Live a'\<rparr>) s))
           | _ \<Rightarrow> None))"

definition BdmDiskGetNextChunk ::
  "nat \<Rightarrow> 'd bdm \<Rightarrow> (int \<times> (nat \<times> nat \<times> nat \<times> nat) option \<times> 'd bdm) option" where
  "BdmDiskGetNextChunk i s =
     (case opsInfo (objs s i) of
        None \<Rightarrow> Some (BDM_CODE_ERR, None, s)
      | Some item \<Rightarrow>
          (case ialloc item of
             Null \<Rightarrow> Some (BDM_CODE_INVALID_PARAM, None, s)
           | Dangling \<Rightarrow> None
           | Live a \<Rightarrow> do {
               (ret, out, a') \<leftarrow> BdmAllocatorGetNextChunk a;
               Some (ret, out, put_item i (item\<lparr>ialloc := Live a'\<rparr>) s) }))"

definition BdmDiskGetCap :: "nat \<Rightarrow> 'd bdm \<Rightarrow> (int \<times> (nat \<times> nat) option) option" where
  "BdmDiskGetCap i s =
     (case opsInfo (objs s i) of
        None \<Rightarrow> Some (BDM_CODE_ERR, None)
      | Some item \<Rightarrow>
          (case ialloc item of
             Live a \<Rightarrow> (case BdmAllocatorGetCap a of (ret, cap) \<Rightarrow> Some (ret, Some cap))
           | _ \<Rightarrow> None))"

section \<open>Asynchronous requests\<close>

text \<open>
  \<open>BdmDiskSubmitAIO\<close> prepares the requests of a batch, all on the descriptor the counter selects,
  and submits them. \<open>items\<close> are the disks of the requests.
\<close>

definition BdmDiskSubmitAIO ::
  "'d os \<Rightarrow> nat \<Rightarrow> nat \<Rightarrow> (io_context \<times> 'd disk_item) list \<Rightarrow> 'd \<Rightarrow> int \<times> 'd" where
  "BdmDiskSubmitAIO os thread idx reqs d =
     (let fdIdx = idx mod BDM_AYSNC_IO_FD_NUM;
          iocbs = map (\<lambda>(c, item). (iasyncfd item fdIdx, ioisRead c, iolen c,
                                     rwOffset item (iochunkId c) (iooffset c))) reqs
      in case os_submit os thread iocbs d of
           (ret, d') \<Rightarrow> if ret \<noteq> int (length reqs) then (BDM_CODE_ERR, d') else (BDM_CODE_OK, d'))"

text \<open>\<open>BdmDiskReadAsync\<close> and \<open>BdmDiskWriteAsync\<close>; \<open>g_bdmAioIsDirect\<close> is constantly false.\<close>

definition BdmDiskHandleAIO ::
  "'d os \<Rightarrow> bool \<Rightarrow> nat \<Rightarrow> nat \<Rightarrow> nat \<Rightarrow> nat \<Rightarrow> 'd bdm \<Rightarrow> (int \<times> 'd bdm) option" where
  "BdmDiskHandleAIO os isRead i chunkId offset len s =
     (case opsInfo (objs s i) of
        None \<Rightarrow> Some (BDM_CODE_ERR, s)
      | Some item \<Rightarrow> do {
          ret \<leftarrow> CheckHandle (ialloc item) chunkId offset len;
          if ret \<noteq> BDM_CODE_OK then Some (ret, s)
          else let c = \<lparr>iolen = len, iochunkId = chunkId, iooffset = offset, ioretryNum = 0,
                        ioisRead = isRead, iobdmId = ibdmId item\<rparr>;
                   idx = add64 (bdmIndex s) 1
               in (case os_pool_add os (idx mod BDM_WORKER_THREAD_NUM) c (env (bio s)) of
                     (ret, d') \<Rightarrow> Some (ret, s\<lparr>bdmIndex := idx, bio := (bio s)\<lparr>env := d'\<rparr>\<rparr>)) })"

text \<open>\<open>EAGAIN\<close> is 11 on Linux. The loop may go on as long as the kernel is busy.\<close>

partial_function (option) BdmDiskRetryIo ::
  "'d os \<Rightarrow> nat \<Rightarrow> io_context \<Rightarrow> 'd \<Rightarrow> (int \<times> 'd) option" where
  "BdmDiskRetryIo os thread c d =
     (let r = os_resubmit os thread c d in
      if fst r = 1 then Some (0, snd r)
      else if fst r = - 11 then BdmDiskRetryIo os thread c (snd r)
      else Some (- 1, snd r))"

text \<open>
  \<open>BdmCompleteIOHandler\<close> for a request whose completion reports \<open>res\<close> and \<open>res2\<close>. The result is
  the request as it is resubmitted, or nothing when its callback has been called.
\<close>

definition BdmCompleteIOHandler ::
  "'d os \<Rightarrow> nat \<Rightarrow> io_context \<Rightarrow> int \<Rightarrow> int \<Rightarrow> 'd \<Rightarrow> (io_context option \<times> 'd) option" where
  "BdmCompleteIOHandler os thread c res res2 d =
     (if res \<le> 0 \<or> res2 \<noteq> 0
      then if ioretryNum c < BDM_IO_RETRY_NUM
           then let c' = c\<lparr>ioretryNum := ioretryNum c + 1\<rparr> in do {
             (r, d') \<leftarrow> BdmDiskRetryIo os thread c' d;
             if r = 0 then Some (Some c', d')
             else (case CmReportDiskStatus os (iobdmId c mod 2 ^ 16) d' of
                     (_, d'') \<Rightarrow> Some (None, os_io_callback os c' BDM_CODE_ERR_IO d'')) }
           else Some (None, os_io_callback os c BDM_CODE_ERR_IO d)
      else Some (None, os_io_callback os c 0 d))"

section \<open>Opening and closing\<close>

definition BdmDiskCreateCheck :: "create_para \<Rightarrow> int" where
  "BdmDiskCreateCheck para =
     (if pname para = [] \<or> psn para = [] then BDM_CODE_INVALID_PARAM
      else if plength para = 0 then BDM_CODE_INVALID_PARAM
      else if pminChunkSize para = 0 then BDM_CODE_INVALID_PARAM
      else if pmaxChunkSize para = 0 then BDM_CODE_INVALID_PARAM
      else BDM_CODE_OK)"

text \<open>Closing the descriptors for asynchronous requests from index \<open>k\<close> on.\<close>

fun close_async :: "'d os \<Rightarrow> nat list \<Rightarrow> 'd disk_item \<times> 'd \<Rightarrow> 'd disk_item \<times> 'd" where
  "close_async os [] (item, d) = (item, d)"
| "close_async os (k # ks) (item, d) =
     close_async os ks
       (if iasyncfd item k \<ge> 0
        then (item\<lparr>iasyncfd := (iasyncfd item)(k := - 1)\<rparr>, os_close os (iasyncfd item k) d)
        else (item, d))"

definition BdmDiskCloseDisk :: "'d os \<Rightarrow> 'd disk_item \<Rightarrow> 'd \<Rightarrow> 'd disk_item \<times> 'd" where
  "BdmDiskCloseDisk os item d =
     close_async os [0..<BDM_AYSNC_IO_FD_NUM]
       (if ifd item \<ge> 0 then (item\<lparr>ifd := - 1\<rparr>, os_close os (ifd item) d) else (item, d))"

fun open_async :: "'d os \<Rightarrow> nat list \<Rightarrow> 'd disk_item \<Rightarrow> 'd \<Rightarrow> int \<times> 'd disk_item \<times> 'd" where
  "open_async os [] item d = (BDM_CODE_OK, item, d)"
| "open_async os (k # ks) item d =
     (case os_open os (iname item) True d of
        (fd, d') \<Rightarrow>
          (let item' = item\<lparr>iasyncfd := (iasyncfd item)(k := fd)\<rparr> in
           if fd < 0 then (case BdmDiskCloseDisk os item' d' of (item'', d'') \<Rightarrow> (BDM_CODE_ERR, item'', d''))
           else open_async os ks item' d'))"

text \<open>Opening the device and its eight descriptors for direct transfers.\<close>

definition BdmReopenDisk :: "'d os \<Rightarrow> 'd disk_item \<Rightarrow> 'd \<Rightarrow> int \<times> 'd disk_item \<times> 'd" where
  "BdmReopenDisk os item d =
     (case os_open os (iname item) False d of
        (fd, d') \<Rightarrow>
          (let item' = item\<lparr>ifd := fd\<rparr> in
           if fd < 0 then (BDM_CODE_ERR, item', d')
           else open_async os [0..<BDM_AYSNC_IO_FD_NUM] item' d'))"

definition BdmDiskOpenDisk ::
  "'d os \<Rightarrow> create_para \<Rightarrow> 'd disk_item \<Rightarrow> 'd \<Rightarrow> int \<times> 'd disk_item \<times> 'd" where
  "BdmDiskOpenDisk os para item d =
     BdmReopenDisk os (item\<lparr>itotalSize := plength para, ioffset := poffset para,
         iheadSize := sizeof_BdmDiskHead, ifd := - 1, iasyncfd := (\<lambda>k. - 1),
         iname := take (BDM_NAME_LEN - 1) (pname para), isn := take (BDM_SN_LEN - 1) (psn para)\<rparr>) d"

section \<open>The disk head\<close>

definition BdmDiskCheckItem :: "disk_head \<Rightarrow> 'd disk_item \<Rightarrow> bool" where
  "BdmDiskCheckItem head item \<longleftrightarrow>
     hmagic head = BDM_DISK_MAGIC \<and> hbdmId head = ibdmId item \<and> hminChunkSize head = iminChunkSize item \<and>
     hmaxChunkSize head = imaxChunkSize item \<and> htotalSize head = itotalSize item \<and>
     hmetaOffset head = imetaOffset item \<and> hmetaLength head = imetaLength item \<and>
     hdataOffset head = idataOffset item \<and> hdataLength head = idataLength item \<and>
     hoffset head = ioffset item \<and> hheadSize head = iheadSize item"

text \<open>The comparison is between signed 64-bit offsets.\<close>

definition to_off :: "nat \<Rightarrow> int" where
  "to_off x = (if x < 2 ^ 63 then int x else int x - 2 ^ 64)"

definition BdmDiskPreCheckFileLen :: "'d os \<Rightarrow> int \<Rightarrow> nat \<Rightarrow> 'd \<Rightarrow> int" where
  "BdmDiskPreCheckFileLen os fd len d =
     (if os_lseek_end os fd d < to_off len then BDM_CODE_ERR else BDM_CODE_OK)"

text \<open>The four offsets and lengths, set the same way when a disk is formatted and when it is restored.\<close>

definition set_layout :: "nat \<Rightarrow> nat \<Rightarrow> 'd disk_item \<Rightarrow> 'd disk_item" where
  "set_layout metaSize dataSize item =
     item\<lparr>imetaOffset := iheadSize item, imetaLength := metaSize,
       idataOffset := ROUND_UP (add64 (iheadSize item) metaSize) BDM_ALIGN_SIZE, idataLength := dataSize\<rparr>"

definition BdmDiskRestoreCheckOK :: "'d os \<Rightarrow> 'd disk_item \<Rightarrow> 'd \<Rightarrow> int \<times> 'd disk_item \<times> 'd" where
  "BdmDiskRestoreCheckOK os item d =
     (let ret = BdmDiskPreCheckFileLen os (ifd item) (add64 (iheadSize item) (ioffset item)) d in
      if ret \<noteq> BDM_CODE_OK then (ret, item, d)
      else case BdmDiskInnerReadWriteImpl os (ifd item) (replicate (iheadSize item) 0) (iheadSize item) (ioffset item) True d of
        (rwLen, head, d1) \<Rightarrow>
          if rwLen \<noteq> iheadSize item then (BDM_CODE_ERR, item, d1)
          else case BdmAllocatorGetSplitSize (iheadSize item) (iminChunkSize item) (itotalSize item) of
            (ret, None) \<Rightarrow> (ret, item, d1)
          | (ret, Some (metaSize, dataSize)) \<Rightarrow>
              (let item' = set_layout metaSize dataSize item in
               if \<not> BdmDiskCheckItem (bytes_head head) item' then (BDM_CODE_ERR, item', d1)
               else case BdmDiskInnerReadWriteImpl os (ifd item) head (iheadSize item) (ioffset item) False d1 of
                 (rwLen, _, d2) \<Rightarrow>
                   if rwLen \<noteq> iheadSize item then (BDM_CODE_ERR, item', d2) else (BDM_CODE_OK, item', d2)))"

definition item_para :: "'d os \<Rightarrow> 'd disk_item \<Rightarrow> 'd io alloc_para" where
  "item_para os item =
     \<lparr>paraOps = \<lparr>writeMeta = Some (BdmDiskWriteMeta os item), readMeta = Some (BdmDiskReadMeta os item)\<rparr>,
      paraMinChunkSize = iminChunkSize item, paraMaxChunkSize = imaxChunkSize item,
      paraTotalSize = idataLength item\<rparr>"

text \<open>Creating the allocator of a disk whose layout is set; \<open>isRestore\<close> as in \<open>BdmAllocatorCreate\<close>.\<close>

definition make_allocator ::
  "'d os \<Rightarrow> bool \<Rightarrow> 'd disk_item \<Rightarrow> 'd io \<Rightarrow> (int \<times> 'd disk_item \<times> 'd io) option" where
  "make_allocator os isRestore item w =
     (case os_heap os (env w) of
        (h, d) \<Rightarrow> do {
          (al, w') \<leftarrow> BdmAllocatorCreate (item_para os item) isRestore h (w\<lparr>env := d\<rparr>);
          (case al of
             None \<Rightarrow> Some (BDM_CODE_ERR, item\<lparr>ialloc := Null\<rparr>, w')
           | Some a \<Rightarrow> Some (BDM_CODE_OK, item\<lparr>ialloc := Live a\<rparr>, w')) })"

definition BdmDiskRestoreAllocator ::
  "'d os \<Rightarrow> 'd disk_item \<Rightarrow> 'd io \<Rightarrow> (int \<times> 'd disk_item \<times> 'd io) option" where
  "BdmDiskRestoreAllocator os item w =
     (case BdmDiskRestoreCheckOK os item (env w) of
        (ret, item', d) \<Rightarrow>
          if ret \<noteq> BDM_CODE_OK then Some (ret, item', w\<lparr>env := d\<rparr>)
          else make_allocator os True item' (w\<lparr>env := d\<rparr>))"

definition BdmDiskFillDiskHead :: "'d disk_item \<Rightarrow> disk_head" where
  "BdmDiskFillDiskHead item =
     \<lparr>hmagic = BDM_DISK_MAGIC, hbdmId = ibdmId item, hminChunkSize = iminChunkSize item,
      hmaxChunkSize = imaxChunkSize item, htotalSize = itotalSize item, hmetaOffset = imetaOffset item,
      hmetaLength = imetaLength item, hdataOffset = idataOffset item, hdataLength = idataLength item,
      hname = take (BDM_NAME_LEN - 1) (iname item), hsn = take (BDM_SN_LEN - 1) (isn item),
      hoffset = ioffset item, hheadSize = iheadSize item\<rparr>"

definition BdmDiskStoreDiskHead :: "'d os \<Rightarrow> 'd disk_item \<Rightarrow> 'd \<Rightarrow> int \<times> 'd" where
  "BdmDiskStoreDiskHead os item d =
     (case os_malloc os d of
        (ok, d1) \<Rightarrow>
          if \<not> ok then (BDM_CODE_ERR, d1)
          else let buff = head_bytes (BdmDiskFillDiskHead item) @
                            replicate (BDM_RESTORE_META_SIZE - sizeof_BdmDiskHead) 0
            in case BdmDiskInnerReadWriteImpl os (ifd item) buff BDM_RESTORE_META_SIZE (ioffset item) False d1 of
                 (rwLen, _, d2) \<Rightarrow> if rwLen \<noteq> BDM_RESTORE_META_SIZE then (BDM_CODE_ERR, d2) else (BDM_CODE_OK, d2))"

definition BdmDiskNewAllocator ::
  "'d os \<Rightarrow> 'd disk_item \<Rightarrow> 'd io \<Rightarrow> (int \<times> 'd disk_item \<times> 'd io) option" where
  "BdmDiskNewAllocator os item w =
     (case BdmAllocatorGetSplitSize (iheadSize item) (iminChunkSize item) (itotalSize item) of
        (ret, None) \<Rightarrow> Some (ret, item, w)
      | (ret, Some (metaSize, dataSize)) \<Rightarrow>
          (let item' = set_layout metaSize dataSize item in
           case BdmDiskStoreDiskHead os item' (env w) of
             (ret, d) \<Rightarrow>
               if ret \<noteq> BDM_CODE_OK then Some (ret, item', w\<lparr>env := d\<rparr>)
               else make_allocator os False item' (w\<lparr>env := d\<rparr>)))"

definition BdmDiskCreateAllocator ::
  "'d os \<Rightarrow> 'd disk_item \<Rightarrow> 'd io \<Rightarrow> (int \<times> 'd disk_item \<times> 'd io) option" where
  "BdmDiskCreateAllocator os item w = do {
     (ret, item', w') \<leftarrow> BdmDiskRestoreAllocator os item w;
     if ret = BDM_CODE_OK then Some (ret, item', w') else BdmDiskNewAllocator os item' w' }"

text \<open>
  \<open>BdmAllocatorDestroy\<close> frees the allocator; the handle in the item keeps its value. Destroying a
  dangling handle is a double free.
\<close>

definition BdmDiskDestroyAllocator :: "'d disk_item \<Rightarrow> 'd disk_item option" where
  "BdmDiskDestroyAllocator item =
     (case ialloc item of
        Null \<Rightarrow> Some item
      | Dangling \<Rightarrow> None
      | Live a \<Rightarrow> Some (item\<lparr>ialloc := Dangling\<rparr>))"

section \<open>Creating, destroying and resetting a disk\<close>

definition BdmDiskFillBdmObj :: "'d disk_item \<Rightarrow> 'd bdm_obj" where
  "BdmDiskFillBdmObj item =
     \<lparr>obdmId = ibdmId item, ototalSize = itotalSize item, ominChunkSize = iminChunkSize item,
      omaxChunkSize = imaxChunkSize item, opsSet = True, opsInfo = Some item\<rparr>"

text \<open>A fresh item; the fields that are not set here are set before they are used.\<close>

definition BdmDiskFillItem :: "create_para \<Rightarrow> nat \<Rightarrow> 'd disk_item" where
  "BdmDiskFillItem para bdmId =
     \<lparr>ialloc = Null, ibdmId = bdmId, iminChunkSize = pminChunkSize para, imaxChunkSize = pmaxChunkSize para,
      itotalSize = 0, imetaOffset = 0, imetaLength = 0, idataOffset = 0, idataLength = 0,
      iname = [], isn = [], ioffset = 0, iheadSize = 0, ifd = - 1, iasyncfd = (\<lambda>_. - 1)\<rparr>"

definition set_env :: "'d \<Rightarrow> 'd bdm \<Rightarrow> 'd bdm" where
  "set_env d s = s\<lparr>bio := (bio s)\<lparr>env := d\<rparr>\<rparr>"

definition BdmDiskCreate ::
  "'d os \<Rightarrow> nat \<Rightarrow> create_para \<Rightarrow> 'd bdm \<Rightarrow> ('d bdm_obj option \<times> 'd bdm) option" where
  "BdmDiskCreate os bdmId para s =
     (if BdmDiskCreateCheck para \<noteq> BDM_CODE_OK then Some (None, s)
      else case os_malloc os (env (bio s)) of (ok, d1) \<Rightarrow>
        if \<not> ok then Some (None, set_env d1 s)
        else case BdmDiskOpenDisk os para (BdmDiskFillItem para bdmId) d1 of (ret, item, d2) \<Rightarrow>
          if ret \<noteq> BDM_CODE_OK then Some (None, set_env d2 s)
          else do {
            (ret, item, w3) \<leftarrow> BdmDiskCreateAllocator os item ((bio s)\<lparr>env := d2\<rparr>);
            if ret \<noteq> BDM_CODE_OK
            then Some (None, set_env (snd (BdmDiskCloseDisk os item (env w3))) (s\<lparr>bio := w3\<rparr>))
            else case os_malloc os (env w3) of (ok, d4) \<Rightarrow>
              if \<not> ok
              then do {
                item' \<leftarrow> BdmDiskDestroyAllocator item;
                Some (None, set_env (snd (BdmDiskCloseDisk os item' d4)) (s\<lparr>bio := w3\<rparr>)) }
              else Some (Some (BdmDiskFillBdmObj item),
                         (set_env d4 (s\<lparr>bio := w3\<rparr>))\<lparr>diskList := diskList s @ [bdmId], diskNum := inc32 (diskNum s)\<rparr>) })"

definition BdmDiskDestroy :: "'d os \<Rightarrow> nat option \<Rightarrow> 'd bdm \<Rightarrow> (int \<times> 'd bdm) option" where
  "BdmDiskDestroy os obj s =
     (case obj of
        None \<Rightarrow> Some (BDM_CODE_OK, s)
      | Some i \<Rightarrow> do {
          item \<leftarrow> opsInfo (objs s i);
          item \<leftarrow> BdmDiskDestroyAllocator item;
          Some (BDM_CODE_OK,
                (set_env (snd (BdmDiskCloseDisk os item (env (bio s)))) s)
                  \<lparr>diskList := remove1 i (diskList s), diskNum := dec32 (diskNum s)\<rparr>) })"

definition BdmDiskReset :: "'d os \<Rightarrow> nat \<Rightarrow> 'd bdm \<Rightarrow> (int \<times> 'd bdm) option" where
  "BdmDiskReset os i s =
     (case opsInfo (objs s i) of
        None \<Rightarrow> Some (BDM_CODE_ERR, s)
      | Some item \<Rightarrow> do {
          item \<leftarrow> BdmDiskDestroyAllocator item;
          (case BdmDiskCloseDisk os item (env (bio s)) of
             (item, d1) \<Rightarrow>
               (case BdmReopenDisk os item d1 of
                  (ret, item, d2) \<Rightarrow>
                    if ret \<noteq> BDM_CODE_OK then Some (BDM_CODE_ERR, put_item i item (set_env d2 s))
                    else do {
                      (ret, item, w) \<leftarrow> BdmDiskNewAllocator os item ((bio s)\<lparr>env := d2\<rparr>);
                      Some (if ret \<noteq> BDM_CODE_OK then BDM_CODE_ERR else BDM_CODE_OK,
                            put_item i item (s\<lparr>bio := w\<rparr>)) })) })"

definition BdmGetNormalDiskNum :: "'d bdm \<Rightarrow> nat" where
  "BdmGetNormalDiskNum s = diskNum s"

definition BdmSetNormalDiskNum :: "nat \<Rightarrow> 'd bdm \<Rightarrow> 'd bdm" where
  "BdmSetNormalDiskNum n s = s\<lparr>diskNum := n\<rparr>"

text \<open>\<open>poolRet\<close> is the result of starting the worker threads.\<close>

definition BdmDiskInit :: "int \<Rightarrow> 'd bdm \<Rightarrow> int \<times> 'd bdm" where
  "BdmDiskInit poolRet s = (poolRet, s\<lparr>diskList := [], diskNum := 0, opsRegistered := True\<rparr>)"

end
