(* ===== verification/BdmDiskProps.thy ===== *)
theory BdmDiskProps
  imports BdmDisk
begin

text \<open>
  Properties of the disk backend. \<open>block_device\<close> states what a working device does; on such a
  device the transfers of \<^verbatim>\<open>bdm_disk.c\<close> are complete, its metadata callbacks are a store as the
  allocator needs it, and a disk that is opened again has the chunks it had.
\<close>

section \<open>Layout\<close>

lemma length_le_bytes [simp]: "length (le_bytes k x) = k"
  by (induction k arbitrary: x) auto

lemma le_val_bytes: "le_val (le_bytes k x) = x mod 256 ^ k"
proof (induction k arbitrary: x)
  case (Suc k)
  have "unat (of_nat (x mod 256) :: byte) = x mod 256" by (simp add: unat_of_nat)
  then show ?case using Suc by (simp add: mod_mult2_eq)
qed simp

lemma le_val_bytes8: "x < 2 ^ 64 \<Longrightarrow> le_val (le_bytes 8 x) = x"
  by (simp add: le_val_bytes)

lemma length_meta_bytes [simp]: "length (meta_bytes m) = sizeof_BdmChunkMeta"
  by (simp add: meta_bytes_def)

lemma bit_fields:
  fixes a b c x :: nat
  assumes "a \<le> 1" "b \<le> 1" "c \<le> 1"
  shows "(a + 2 * b + 4 * c + 8 * x) mod 2 = a" "(a + 2 * b + 4 * c + 8 * x) div 2 mod 2 = b"
    "(a + 2 * b + 4 * c + 8 * x) div 4 mod 2 = c" "(a + 2 * b + 4 * c + 8 * x) div 8 = x"
  using assms by presburger+

lemma meta_roundtrip:
  assumes "wf_meta m"
  shows "bytes_meta (meta_bytes m) = m"
proof -
  let ?f = "of_bool (mhead m) + 2 * of_bool (mfree m) + 4 * of_bool (mrestore m) + 8 * mlength m :: nat"
  have l: "mlength m < 2 ^ 21" "mbucketId m < 2 ^ 64" "mbucketOffset m < 2 ^ 64"
    using assms by (auto simp: wf_meta_def)
  then have f: "le_val (le_bytes 4 ?f) = ?f" by (simp add: le_val_bytes of_bool_def)
  have "odd ?f = mhead m" "odd (?f div 2) = mfree m" "odd (?f div 4) = mrestore m" "?f div 8 = mlength m"
    using bit_fields [of "of_bool (mhead m)" "of_bool (mfree m)" "of_bool (mrestore m)" "mlength m"]
    unfolding odd_iff_mod_2_eq_one by simp_all
  with l f show ?thesis
    by (simp add: bytes_meta_def meta_bytes_def Let_def le_val_bytes8)
qed

lemma length_string_bytes [simp]: "length (string_bytes n s) = n"
  by (simp add: string_bytes_def)

lemma length_head_bytes [simp]: "length (head_bytes h) = sizeof_BdmDiskHead"
  by (simp add: head_bytes_def)

definition wf_head :: "disk_head \<Rightarrow> bool" where
  "wf_head h \<longleftrightarrow> hmagic h < 2 ^ 64 \<and> hbdmId h < 2 ^ 32 \<and> hminChunkSize h < 2 ^ 64 \<and> hmaxChunkSize h < 2 ^ 64 \<and>
     htotalSize h < 2 ^ 64 \<and> hmetaOffset h < 2 ^ 64 \<and> hmetaLength h < 2 ^ 64 \<and> hdataOffset h < 2 ^ 64 \<and>
     hdataLength h < 2 ^ 64 \<and> hoffset h < 2 ^ 64 \<and> hheadSize h < 2 ^ 64"

lemma field_first:
  "length xs = n \<Longrightarrow> field 0 n (xs @ ys) = le_val xs" "length xs = n \<Longrightarrow> field 0 n xs = le_val xs"
  by (simp_all add: field_def)

lemma field_skip: "length xs \<le> pos \<Longrightarrow> field pos n (xs @ ys) = field (pos - length xs) n ys"
  by (simp add: field_def)

lemma head_roundtrip:
  assumes "wf_head h"
  shows "bytes_head (head_bytes h) = h\<lparr>hname := [], hsn := []\<rparr>"
  using assms
  by (cases h) (simp add: bytes_head_def head_bytes_def wf_head_def field_first field_skip le_val_bytes)

section \<open>A working device\<close>

definition write_at :: "nat \<Rightarrow> byte list \<Rightarrow> (nat \<Rightarrow> byte) \<Rightarrow> nat \<Rightarrow> byte" where
  "write_at off bs f x = (if off \<le> x \<and> x < off + length bs then bs ! (x - off) else f x)"

lemma write_at_Nil [simp]: "write_at off [] f = f"
  by (rule ext) (auto simp: write_at_def)

lemma write_at_append:
  "write_at (off + k) (drop k bs) (write_at off (take k bs) f) = write_at off bs f" if "k \<le> length bs"
  using that by (auto simp: write_at_def fun_eq_iff)

lemma write_at_read: "map (write_at off bs f) [off..<off + length bs] = bs"
  by (rule nth_equalityI) (auto simp: write_at_def)

lemma write_at_other:
  assumes "\<And>x. x \<in> set xs \<Longrightarrow> x < off \<or> off + length bs \<le> x"
  shows "map (write_at off bs f) xs = map f xs"
proof -
  have "write_at off bs f x = f x" if "x \<in> set xs" for x
    using assms [OF that] by (auto simp: write_at_def)
  then show ?thesis by simp
qed

text \<open>
  \<open>data\<close> are the bytes of the device, \<open>cap\<close> their number, \<open>good\<close> says that it works and \<open>fdok\<close> that a descriptor is open
  on it. A transfer inside the device may be short, but it makes progress; nothing is said about transfers
  beyond its end.
\<close>

locale block_device =
  fixes os :: "'d os"
    and data :: "'d \<Rightarrow> nat \<Rightarrow> byte"
    and good :: "'d \<Rightarrow> bool"
    and fdok :: "int \<Rightarrow> bool"
    and cap :: nat
  assumes cap_law: "cap < 2 ^ 63"
    and size_law: "\<lbrakk>good d; fdok fd\<rbrakk> \<Longrightarrow> os_lseek_end os fd d = int cap"
    and pread_law: "\<lbrakk>good d; fdok fd; 0 < n; off + n \<le> cap\<rbrakk> \<Longrightarrow>
      \<exists>k d'. 0 < k \<and> k \<le> n \<and> os_pread os fd n off d = (Some (map (data d) [off..<off + k]), d') \<and>
             good d' \<and> data d' = data d"
    and pwrite_law: "\<lbrakk>good d; fdok fd; bs \<noteq> []; off + length bs \<le> cap\<rbrakk> \<Longrightarrow>
      \<exists>k d'. 0 < k \<and> k \<le> length bs \<and> os_pwrite os fd bs off d = (int k, d') \<and>
             good d' \<and> data d' = write_at off (take k bs) (data d)"
    and heap_law: "good d \<Longrightarrow> \<exists>h d'. os_heap os d = (h, d') \<and> structOk h \<and> tableOk h \<and> good d' \<and> data d' = data d"
    and malloc_law: "good d \<Longrightarrow> \<exists>d'. os_malloc os d = (True, d') \<and> good d' \<and> data d' = data d"
begin

declare rw_loop.simps [simp del]

lemma rw_loop_read:
  assumes "good d" "fdok fd" "remain \<le> len" "length buff = len" "off + len \<le> cap"
  shows "\<exists>d'. rw_loop os fd len off True remain buff d =
           (0, take (len - remain) buff @ map (data d) [off + (len - remain)..<off + len], d') \<and>
         good d' \<and> data d' = data d"
  using assms
proof (induction remain arbitrary: buff d rule: less_induct)
  case (less remain)
  show ?case
  proof (cases "remain = 0")
    case True
    with less.prems show ?thesis by (subst rw_loop.simps) auto
  next
    case False
    let ?pos = "len - remain"
    have ad: "add64 off ?pos = off + ?pos" using less.prems cap_law by (intro add64_exact) auto
    from pread_law [OF less.prems(1,2), of remain "off + ?pos"] False less.prems obtain k d1 where
      k: "0 < k" "k \<le> remain" "os_pread os fd remain (off + ?pos) d = (Some (map (data d) [off + ?pos..<off + ?pos + k]), d1)"
        "good d1" "data d1 = data d" by auto
    define bs where "bs = map (data d) [off + ?pos..<off + ?pos + k]"
    define buff' where "buff' = take ?pos buff @ bs @ drop (?pos + length bs) buff"
    have bs: "length bs = k" "take remain bs = bs" "bs \<noteq> []" using k by (auto simp: bs_def)
    have step: "rw_loop os fd len off True remain buff d = rw_loop os fd len off True (remain - k) buff' d1"
      using False k bs ad by (subst rw_loop.simps) (simp add: Let_def buff'_def flip: bs_def)
    have lb: "length buff' = len" using less.prems k bs by (auto simp: buff'_def)
    have lt: "remain - k < remain" "remain - k \<le> len" using k less.prems by auto
    obtain d' where
      r: "rw_loop os fd len off True (remain - k) buff' d1 =
           (0, take (len - (remain - k)) buff' @ map (data d1) [off + (len - (remain - k))..<off + len], d')"
        "good d'" "data d' = data d1"
      using less.IH [OF lt(1) k(4) less.prems(2) lt(2) lb less.prems(5)] by blast
    have p1: "len - (remain - k) = ?pos + k" using k less.prems by simp
    have p2: "take (?pos + k) buff' = take ?pos buff @ bs"
      using bs less.prems k by (simp add: buff'_def)
    have p3: "bs @ map (data d) [off + (?pos + k)..<off + len] = map (data d) [off + ?pos..<off + len]"
    proof -
      have "[off + ?pos..<off + len] = [off + ?pos..<off + ?pos + k] @ [off + ?pos + k..<off + len]"
        using k less.prems upt_add_eq_append [of "off + ?pos" "off + ?pos + k" "remain - k"] by simp
      then show ?thesis by (simp add: bs_def add.assoc)
    qed
    have "rw_loop os fd len off True remain buff d =
        (0, take ?pos buff @ map (data d) [off + ?pos..<off + len], d')"
      unfolding step r(1) p1 p2 k(5) append_assoc p3 ..
    with r(2,3) k(5) show ?thesis by metis
  qed
qed

lemma rw_loop_write:
  assumes "good d" "fdok fd" "remain \<le> len" "length buff = len" "off + len \<le> cap"
  shows "\<exists>d'. rw_loop os fd len off False remain buff d = (0, buff, d') \<and>
         good d' \<and> data d' = write_at (off + (len - remain)) (drop (len - remain) buff) (data d)"
  using assms
proof (induction remain arbitrary: d rule: less_induct)
  case (less remain)
  show ?case
  proof (cases "remain = 0")
    case True
    with less.prems show ?thesis by (subst rw_loop.simps) auto
  next
    case False
    let ?pos = "len - remain"
    let ?bs = "drop ?pos buff"
    have ad: "add64 off ?pos = off + ?pos" using less.prems cap_law by (intro add64_exact) auto
    have bs: "take remain ?bs = ?bs" "length ?bs = remain" "?bs \<noteq> []" using False less.prems by auto
    from pwrite_law [OF less.prems(1,2) bs(3), of "off + ?pos"] less.prems bs(2) obtain k d1 where
      k: "0 < k" "k \<le> remain" "os_pwrite os fd ?bs (off + ?pos) d = (int k, d1)"
        "good d1" "data d1 = write_at (off + ?pos) (take k ?bs) (data d)" by auto
    have step: "rw_loop os fd len off False remain buff d = rw_loop os fd len off False (remain - k) buff d1"
      using False k bs ad by (subst rw_loop.simps) (simp add: Let_def min_absorb1)
    have lt: "remain - k < remain" "remain - k \<le> len" using k less.prems by auto
    from less.IH [OF lt(1) k(4) less.prems(2) lt(2) less.prems(4,5)] obtain d' where
      r: "rw_loop os fd len off False (remain - k) buff d1 = (0, buff, d')" "good d'"
        "data d' = write_at (off + (len - (remain - k))) (drop (len - (remain - k)) buff) (data d1)" by auto
    have "len - (remain - k) = ?pos + k" using k less.prems by simp
    then have "data d' = write_at (off + ?pos + k) (drop k ?bs) (write_at (off + ?pos) (take k ?bs) (data d))"
      using r(3) k(5) by (simp add: add.commute add.left_commute)
    also have "\<dots> = write_at (off + ?pos) ?bs (data d)" using k bs by (intro write_at_append) simp
    finally show ?thesis using r step by simp
  qed
qed

lemma Impl_read:
  assumes "good d" "fdok fd" "length buff = len" "off + len \<le> cap"
  shows "\<exists>d'. BdmDiskInnerReadWriteImpl os fd buff len off True d = (len, map (data d) [off..<off + len], d') \<and>
         good d' \<and> data d' = data d"
  using rw_loop_read [OF assms(1,2) order_refl assms(3,4)] by (auto simp: BdmDiskInnerReadWriteImpl_def)

lemma Impl_write:
  assumes "good d" "fdok fd" "length buff = len" "off + len \<le> cap"
  shows "\<exists>d'. BdmDiskInnerReadWriteImpl os fd buff len off False d = (len, buff, d') \<and>
         good d' \<and> data d' = write_at off buff (data d)"
  using rw_loop_write [OF assms(1,2) order_refl assms(3,4)] by (auto simp: BdmDiskInnerReadWriteImpl_def)

lemma rw_attempts_first:
  "\<lbrakk>0 < k; BdmDiskInnerReadWriteImpl os fd buff len off isRead d = (len, buff', d')\<rbrakk> \<Longrightarrow>
     rw_attempts k os fd buff len off isRead d = (True, buff', d')"
  by (cases k) auto

lemma rw_read:
  assumes "good (env w)" "fdok fd" "length buff = len" "off + len \<le> cap"
  shows "\<exists>d'. rw_or_fault os i fd buff len off True w =
           (BDM_CODE_OK, map (data (env w)) [off..<off + len], w\<lparr>env := d'\<rparr>) \<and> good d' \<and> data d' = data (env w)"
  using Impl_read [OF assms] rw_attempts_first [of 4] by (fastforce simp: rw_or_fault_def)

lemma rw_write:
  assumes "good (env w)" "fdok fd" "length buff = len" "off + len \<le> cap"
  shows "\<exists>d'. rw_or_fault os i fd buff len off False w = (BDM_CODE_OK, buff, w\<lparr>env := d'\<rparr>) \<and>
           good d' \<and> data d' = write_at off buff (data (env w))"
  using Impl_write [OF assms] rw_attempts_first [of 4] by (fastforce simp: rw_or_fault_def)

end

section \<open>The metadata callbacks as a store\<close>

text \<open>The table of records on a device, and what the store leaves alone: all other bytes and the slot flags.\<close>

definition meta_base :: "'d disk_item \<Rightarrow> nat" where
  "meta_base item = ioffset item + imetaOffset item"

definition meta_table :: "('d \<Rightarrow> nat \<Rightarrow> byte) \<Rightarrow> 'd disk_item \<Rightarrow> 'd io \<Rightarrow> nat \<Rightarrow> chunk_meta" where
  "meta_table data item w i =
     (let p = meta_base item + i * sizeof_BdmChunkMeta in
      bytes_meta (map (data (env w)) [p..<p + sizeof_BdmChunkMeta]))"

definition healthy ::
  "('d \<Rightarrow> nat \<Rightarrow> byte) \<Rightarrow> ('d \<Rightarrow> bool) \<Rightarrow> 'd disk_item \<Rightarrow> nat \<Rightarrow> (nat \<Rightarrow> byte) \<Rightarrow> (nat \<Rightarrow> bool) \<Rightarrow>
   (nat \<Rightarrow> bool) \<Rightarrow> 'd io \<Rightarrow> bool" where
  "healthy data good item num D us ps w \<longleftrightarrow>
     good (env w) \<and> used w = us \<and> present w = ps \<and>
     (\<forall>x. x < meta_base item \<or> meta_base item + num * sizeof_BdmChunkMeta \<le> x \<longrightarrow> data (env w) x = D x)"

locale disk_store = block_device os data good fdok cap
  for os :: "'d os" and data :: "'d \<Rightarrow> nat \<Rightarrow> byte" and good :: "'d \<Rightarrow> bool" and fdok :: "int \<Rightarrow> bool" and cap :: nat +
  fixes item :: "'d disk_item"
    and num :: nat
    and D :: "nat \<Rightarrow> byte"
    and us :: "nat \<Rightarrow> bool"
    and ps :: "nat \<Rightarrow> bool"
  assumes fd: "fdok (ifd item)"
    and bound: "meta_base item + num * sizeof_BdmChunkMeta \<le> cap"

sublocale disk_store \<subseteq> ms: meta_store "BdmDiskWriteMeta os item" "BdmDiskReadMeta os item"
  "meta_table data item" "healthy data good item num D us ps" num
proof
  fix w i m
  assume w: "healthy data good item num D us ps w" and i: "i < num" and m: "wf_meta m"
  let ?p = "meta_base item + i * sizeof_BdmChunkMeta"
  have "(i + 1) * sizeof_BdmChunkMeta \<le> num * sizeof_BdmChunkMeta" using i by (intro mult_le_mono1) simp
  then have b: "?p + sizeof_BdmChunkMeta \<le> meta_base item + num * sizeof_BdmChunkMeta" by (simp add: algebra_simps)
  then have bc: "?p + sizeof_BdmChunkMeta \<le> cap" using bound by linarith
  then have off: "add64 (add64 (ioffset item) (imetaOffset item)) (i * sizeof_BdmChunkMeta) = ?p"
    using cap_law by (simp add: add64_exact meta_base_def)
  obtain d' where r: "rw_or_fault os (ibdmId item) (ifd item) (meta_bytes m) sizeof_BdmChunkMeta ?p False w =
      (BDM_CODE_OK, meta_bytes m, w\<lparr>env := d'\<rparr>)" "good d'" "data d' = write_at ?p (meta_bytes m) (data (env w))"
    using rw_write [of w "ifd item" "meta_bytes m" sizeof_BdmChunkMeta ?p "ibdmId item"] w fd bc
    by (auto simp: healthy_def)
  have "BdmDiskWriteMeta os item w (i * sizeof_BdmChunkMeta) m sizeof_BdmChunkMeta = (BDM_CODE_OK, w\<lparr>env := d'\<rparr>)"
    using r(1) by (simp add: BdmDiskWriteMeta_def BdmDiskInnerReadWrite_def off)
  moreover have "healthy data good item num D us ps (w\<lparr>env := d'\<rparr>)"
    using w r(2,3) b by (auto simp: healthy_def write_at_def)
  moreover have "meta_table data item (w\<lparr>env := d'\<rparr>) = (meta_table data item w)(i := m)"
  proof
    fix j
    let ?q = "meta_base item + j * sizeof_BdmChunkMeta"
    show "meta_table data item (w\<lparr>env := d'\<rparr>) j = ((meta_table data item w)(i := m)) j"
    proof (cases "j = i")
      case True
      with r(3) write_at_read [of ?p "meta_bytes m" "data (env w)"] meta_roundtrip [OF m] show ?thesis
        by (simp add: meta_table_def Let_def)
    next
      case False
      then have "j * sizeof_BdmChunkMeta + sizeof_BdmChunkMeta \<le> i * sizeof_BdmChunkMeta \<or>
          i * sizeof_BdmChunkMeta + sizeof_BdmChunkMeta \<le> j * sizeof_BdmChunkMeta" by arith
      then have "map (write_at ?p (meta_bytes m) (data (env w))) [?q..<?q + sizeof_BdmChunkMeta] =
          map (data (env w)) [?q..<?q + sizeof_BdmChunkMeta]" by (intro write_at_other) auto
      with False r(3) show ?thesis by (simp add: meta_table_def Let_def del: map_eq_conv)
    qed
  qed
  ultimately show "\<exists>w'. BdmDiskWriteMeta os item w (i * sizeof_BdmChunkMeta) m sizeof_BdmChunkMeta = (BDM_CODE_OK, w') \<and>
      healthy data good item num D us ps w' \<and> meta_table data item w' = (meta_table data item w)(i := m)" by blast
next
  fix w
  assume w: "healthy data good item num D us ps w"
  let ?len = "sizeof_BdmChunkMeta * num" and ?b = "meta_base item"
  have off: "add64 (add64 (ioffset item) (imetaOffset item)) 0 = ?b"
    using bound cap_law by (simp add: add64_exact meta_base_def)
  obtain d' where r: "rw_or_fault os (ibdmId item) (ifd item) (replicate ?len 0) ?len ?b True w =
      (BDM_CODE_OK, map (data (env w)) [?b..<?b + ?len], w\<lparr>env := d'\<rparr>)" "good d'" "data d' = data (env w)"
    using rw_read [of w "ifd item" "replicate ?len 0" ?len ?b "ibdmId item"] w fd bound
    by (auto simp: healthy_def mult.commute)
  define tab where "tab = (\<lambda>i. bytes_meta (take sizeof_BdmChunkMeta
      (drop (sizeof_BdmChunkMeta * i) (map (data (env w)) [?b..<?b + ?len]))))"
  have "BdmDiskReadMeta os item w 0 ?len = (BDM_CODE_OK, tab, w\<lparr>env := d'\<rparr>)"
    using r(1) by (simp add: BdmDiskReadMeta_def BdmDiskInnerReadWrite_def off tab_def)
  moreover have "tab i = meta_table data item w i" if "i < num" for i
  proof -
    have "sizeof_BdmChunkMeta * i + sizeof_BdmChunkMeta \<le> ?len" using that by simp
    then show ?thesis by (simp add: tab_def meta_table_def Let_def take_map drop_map take_upt mult.commute add.commute add.left_commute)
  qed
  moreover have "healthy data good item num D us ps (w\<lparr>env := d'\<rparr>)"
    using w r(2,3) by (auto simp: healthy_def)
  moreover have "meta_table data item (w\<lparr>env := d'\<rparr>) = meta_table data item w"
    by (rule ext) (simp add: meta_table_def r(3))
  ultimately show "\<exists>tab w'. BdmDiskReadMeta os item w 0 ?len = (BDM_CODE_OK, tab, w') \<and>
      healthy data good item num D us ps w' \<and> meta_table data item w' = meta_table data item w \<and>
      (\<forall>i<num. tab i = meta_table data item w i)" by blast
qed

section \<open>A mounted disk\<close>

text \<open>
  Slot \<open>i\<close> holds a disk whose allocator serves the used chunks \<open>U\<close>; the metadata table lies in front
  of the data area, and both on the device of \<open>cap\<close> bytes. \<open>D\<close> gives the bytes of the device outside the table.
\<close>

definition mounted ::
  "'d os \<Rightarrow> ('d \<Rightarrow> nat \<Rightarrow> byte) \<Rightarrow> ('d \<Rightarrow> bool) \<Rightarrow> (int \<Rightarrow> bool) \<Rightarrow> nat \<Rightarrow> (nat \<Rightarrow> byte) \<Rightarrow> (nat \<Rightarrow> bool) \<Rightarrow> (nat \<Rightarrow> bool) \<Rightarrow>
   used_map \<Rightarrow> nat \<Rightarrow> 'd disk_item \<Rightarrow> 'd io alloc \<Rightarrow> 'd bdm \<Rightarrow> bool" where
  "mounted os data good fdok cap D us ps U i item a s \<longleftrightarrow>
     opsInfo (objs s i) = Some item \<and> ialloc item = Live a \<and> minChunkSize a = iminChunkSize item \<and>
     serving (BdmDiskWriteMeta os item) (BdmDiskReadMeta os item) (meta_table data item)
       (healthy data good item (chunkNum a) D us ps) U a (bio s) \<and>
     fdok (ifd item) \<and> (\<forall>k<BDM_AYSNC_IO_FD_NUM. fdok (iasyncfd item k)) \<and>
     meta_base item + chunkNum a * sizeof_BdmChunkMeta \<le> ioffset item + idataOffset item \<and>
     ioffset item + idataOffset item + chunkNum a * iminChunkSize item \<le> cap \<and> cap < 2 ^ 63"

lemma mountedD:
  assumes "mounted os data good fdok cap D us ps U i item a s"
  shows "opsInfo (objs s i) = Some item" "ialloc item = Live a" "minChunkSize a = iminChunkSize item"
    "serving (BdmDiskWriteMeta os item) (BdmDiskReadMeta os item) (meta_table data item)
       (healthy data good item (chunkNum a) D us ps) U a (bio s)"
    "fdok (ifd item)" "k < BDM_AYSNC_IO_FD_NUM \<Longrightarrow> fdok (iasyncfd item k)"
    "meta_base item + chunkNum a * sizeof_BdmChunkMeta \<le> ioffset item + idataOffset item"
    "ioffset item + idataOffset item + chunkNum a * iminChunkSize item \<le> cap" "cap < 2 ^ 63"
  using assms by (auto simp: mounted_def)

lemma item_alloc_irrelevant [simp]:
  "BdmDiskWriteMeta os (item\<lparr>ialloc := h\<rparr>) = BdmDiskWriteMeta os item"
  "BdmDiskReadMeta os (item\<lparr>ialloc := h\<rparr>) = BdmDiskReadMeta os item"
  "meta_table data (item\<lparr>ialloc := h\<rparr>) = meta_table data item"
  "healthy data good (item\<lparr>ialloc := h\<rparr>) n D us ps = healthy data good item n D us ps"
  "meta_base (item\<lparr>ialloc := h\<rparr>) = meta_base item"
  by (auto simp: fun_eq_iff BdmDiskWriteMeta_def BdmDiskReadMeta_def BdmDiskInnerReadWrite_def
      meta_table_def healthy_def meta_base_def)

lemma put_item_simps [simp]:
  "opsInfo (objs (put_item i item s) i) = Some item" "bio (put_item i item s) = bio s"
  by (simp_all add: put_item_def)

text \<open>The bytes of a chunk on the device.\<close>

definition chunk_pos :: "'d disk_item \<Rightarrow> nat \<Rightarrow> nat \<Rightarrow> nat" where
  "chunk_pos item k offset = ioffset item + idataOffset item + iminChunkSize item * k + offset"

lemma chunk_pos_bounds:
  assumes m: "mounted os data good fdok cap D us ps U i item a s" and U: "U k = Some (l, b, off)"
    and len: "offset + len \<le> l * iminChunkSize item"
  shows "chunk_pos item k offset + len \<le> cap" "rwOffset item k offset = chunk_pos item k offset"
    "meta_base item + chunkNum a * sizeof_BdmChunkMeta \<le> chunk_pos item k offset"
    "BdmAllocatorCheckChunk k offset len a = BDM_CODE_OK"
proof -
  note d = servingD [OF mountedD(4) [OF m]]
  have kl: "k + l \<le> chunkNum a" "k < chunkNum a" "l \<le> chunkNum a"
    using alloc_inv_used(1,2) [OF d(3) U] by auto
  have "iminChunkSize item * k + l * iminChunkSize item \<le> chunkNum a * iminChunkSize item"
    using mult_le_mono1 [OF kl(1), of "iminChunkSize item"] by (simp add: algebra_simps)
  then show b: "chunk_pos item k offset + len \<le> cap"
    using mountedD(8) [OF m] len by (simp add: chunk_pos_def)
  then have "mul64 (iminChunkSize item) k = iminChunkSize item * k"
    using mountedD(9) [OF m] by (intro mul64_exact) (simp add: chunk_pos_def)
  then show "rwOffset item k offset = chunk_pos item k offset"
    using b mountedD(9) [OF m] by (simp add: rwOffset_def chunk_pos_def add64_exact)
  show "meta_base item + chunkNum a * sizeof_BdmChunkMeta \<le> chunk_pos item k offset"
    using mountedD(7) [OF m] by (simp add: chunk_pos_def)
  have "k \<in> dom U" using U by auto
  then have "metas a k = used_rec (l, b, off)"
    using alloc_invD(3) [OF d(3)] U by (auto simp: recorded_def)
  moreover have "l * iminChunkSize item \<le> chunkNum a * iminChunkSize item" using kl by simp
  then have "l * iminChunkSize item \<le> cap" using mountedD(8) [OF m] by linarith
  then have "l * iminChunkSize item < 2 ^ 64" using mountedD(9) [OF m] by simp
  ultimately show "BdmAllocatorCheckChunk k offset len a = BDM_CODE_OK"
    using kl len mountedD(3) [OF m] by (simp add: BdmAllocatorCheckChunk_def add64_exact mul64_exact)
qed

lemma chunks_apart:
  assumes m: "mounted os data good fdok cap D us ps U i item a s"
    and U: "U k = Some (l, b, off)" "U k' = Some (l', b', off')" "k \<noteq> k'"
    and len: "offset + len \<le> l * iminChunkSize item" "offset' + len' \<le> l' * iminChunkSize item"
  shows "chunk_pos item k offset + len \<le> chunk_pos item k' offset' \<or>
         chunk_pos item k' offset' + len' \<le> chunk_pos item k offset"
proof -
  note i = servingD(3) [OF mountedD(4) [OF m]]
  have "k + l \<le> k' \<or> k' + l' \<le> k"
    using alloc_inv_used(3) [OF i U(1,2)] U(3) alloc_inv_used(1) [OF i U(1)] alloc_inv_used(1) [OF i U(2)]
      seg_disjoint_iff [of l l' k k'] by auto
  then show ?thesis
  proof
    assume "k + l \<le> k'"
    then have "iminChunkSize item * (k + l) \<le> iminChunkSize item * k'" by (rule mult_le_mono2)
    then have "iminChunkSize item * k + l * iminChunkSize item \<le> iminChunkSize item * k'"
      by (simp add: algebra_simps)
    with len(1) show ?thesis unfolding chunk_pos_def by linarith
  next
    assume "k' + l' \<le> k"
    then have "iminChunkSize item * (k' + l') \<le> iminChunkSize item * k" by (rule mult_le_mono2)
    then have "iminChunkSize item * k' + l' * iminChunkSize item \<le> iminChunkSize item * k"
      by (simp add: algebra_simps)
    with len(2) show ?thesis unfolding chunk_pos_def by linarith
  qed
qed

text \<open>A transfer inside a used chunk goes to the chunk's bytes, over a descriptor of the disk.\<close>

lemma transfer_step:
  assumes m: "mounted os data good fdok cap D us ps U i item a s" and U: "U k = Some (l, b, off)"
    and len: "offset + len \<le> l * iminChunkSize item"
  shows "\<exists>fd n. fdok fd \<and> BdmDiskTransfer os isRead i k offset buf buff len s =
           (case rw_or_fault os (ibdmId item) fd buff len (chunk_pos item k offset) isRead (bio s) of
              (ret, buff', w') \<Rightarrow> Some (ret, buff', s\<lparr>bio := w', submitIndex := n\<rparr>))"
proof -
  note c = chunk_pos_bounds [OF m U len] and md = mountedD [OF m]
  let ?idx = "add64 (submitIndex s) 1"
  have step: "BdmDiskTransfer os isRead i k offset buf buff len s =
      (if buf mod BDM_BLOCK_SIZE = 0 \<and> len mod BDM_BLOCK_SIZE = 0 \<and> chunk_pos item k offset mod BDM_BLOCK_SIZE = 0
       then case rw_or_fault os (ibdmId item) (iasyncfd item (?idx mod BDM_AYSNC_IO_FD_NUM)) buff len
                   (chunk_pos item k offset) isRead (bio s) of
              (ret, buff', w') \<Rightarrow> Some (ret, buff', s\<lparr>bio := w', submitIndex := ?idx\<rparr>)
       else case rw_or_fault os (ibdmId item) (ifd item) buff len (chunk_pos item k offset) isRead (bio s) of
              (ret, buff', w') \<Rightarrow> Some (ret, buff', s\<lparr>bio := w'\<rparr>))"
    using md(1,2) c(2,4)
    by (simp add: BdmDiskTransfer_def CheckHandle_def BdmDiskInnerReadWrite_def BdmDiskInnerReadWriteDirect_def Let_def)
  show ?thesis
  proof (cases "buf mod BDM_BLOCK_SIZE = 0 \<and> len mod BDM_BLOCK_SIZE = 0 \<and> chunk_pos item k offset mod BDM_BLOCK_SIZE = 0")
    case True
    have "?idx mod BDM_AYSNC_IO_FD_NUM < BDM_AYSNC_IO_FD_NUM" by simp
    then have "fdok (iasyncfd item (?idx mod BDM_AYSNC_IO_FD_NUM))" by (rule md(6))
    with True show ?thesis unfolding step
      by (intro exI [of _ "iasyncfd item (?idx mod BDM_AYSNC_IO_FD_NUM)"] exI [of _ ?idx]) auto
  next
    case False
    have "s\<lparr>bio := w, submitIndex := submitIndex s\<rparr> = s\<lparr>bio := w\<rparr>" for w by (cases s) simp
    with md(5) False show ?thesis unfolding step
      by (intro exI [of _ "ifd item"] exI [of _ "submitIndex s"]) auto
  qed
qed

context block_device
begin

lemma transfer_read:
  assumes m: "mounted os data good fdok cap D us ps U i item a s" and U: "U k = Some (l, b, off)"
    and len: "offset + len \<le> l * iminChunkSize item" "length buff = len"
  shows "\<exists>d' n. BdmDiskRead os i k offset buf buff len s =
           Some (BDM_CODE_OK, map (data (env (bio s))) [chunk_pos item k offset..<chunk_pos item k offset + len],
                 s\<lparr>bio := (bio s)\<lparr>env := d'\<rparr>, submitIndex := n\<rparr>) \<and>
         good d' \<and> data d' = data (env (bio s))"
proof -
  have g: "good (env (bio s))" using servingD(2) [OF mountedD(4) [OF m]] by (simp add: healthy_def)
  from transfer_step [OF m U len(1), of True buf buff] obtain fd n where
    1: "fdok fd" "BdmDiskTransfer os True i k offset buf buff len s =
           (case rw_or_fault os (ibdmId item) fd buff len (chunk_pos item k offset) True (bio s) of
              (ret, buff', w') \<Rightarrow> Some (ret, buff', s\<lparr>bio := w', submitIndex := n\<rparr>))" by blast
  from rw_read [OF g 1(1) len(2) chunk_pos_bounds(1) [OF m U len(1)], of "ibdmId item"] obtain d' where
    2: "rw_or_fault os (ibdmId item) fd buff len (chunk_pos item k offset) True (bio s) =
      (BDM_CODE_OK, map (data (env (bio s))) [chunk_pos item k offset..<chunk_pos item k offset + len], (bio s)\<lparr>env := d'\<rparr>)"
      "good d'" "data d' = data (env (bio s))" by blast
  show ?thesis unfolding BdmDiskRead_def 1(2) 2(1) using 2(2,3) by auto
qed

lemma transfer_write:
  assumes m: "mounted os data good fdok cap D us ps U i item a s" and U: "U k = Some (l, b, off)"
    and len: "offset + len \<le> l * iminChunkSize item" "length buff = len"
  shows "\<exists>d' n. BdmDiskWrite os i k offset buf buff len s =
           Some (BDM_CODE_OK, buff, s\<lparr>bio := (bio s)\<lparr>env := d'\<rparr>, submitIndex := n\<rparr>) \<and>
         good d' \<and> data d' = write_at (chunk_pos item k offset) buff (data (env (bio s)))"
proof -
  have g: "good (env (bio s))" using servingD(2) [OF mountedD(4) [OF m]] by (simp add: healthy_def)
  from transfer_step [OF m U len(1), of False buf buff] obtain fd n where
    1: "fdok fd" "BdmDiskTransfer os False i k offset buf buff len s =
           (case rw_or_fault os (ibdmId item) fd buff len (chunk_pos item k offset) False (bio s) of
              (ret, buff', w') \<Rightarrow> Some (ret, buff', s\<lparr>bio := w', submitIndex := n\<rparr>))" by blast
  from rw_write [OF g 1(1) len(2) chunk_pos_bounds(1) [OF m U len(1)], of "ibdmId item"] obtain d' where
    2: "rw_or_fault os (ibdmId item) fd buff len (chunk_pos item k offset) False (bio s) =
      (BDM_CODE_OK, buff, (bio s)\<lparr>env := d'\<rparr>)"
      "good d'" "data d' = write_at (chunk_pos item k offset) buff (data (env (bio s)))" by blast
  show ?thesis unfolding BdmDiskWrite_def 1(2) 2(1) using 2(2,3) by auto
qed

text \<open>The disk stays mounted; only the bytes written change.\<close>

lemma mounted_write:
  assumes m: "mounted os data good fdok cap D us ps U i item a s" and U: "U k = Some (l, b, off)"
    and len: "offset + len \<le> l * iminChunkSize item" "length buff = len"
    and d: "good d'" "data d' = write_at (chunk_pos item k offset) buff (data (env (bio s)))"
  shows "mounted os data good fdok cap (write_at (chunk_pos item k offset) buff D) us ps U i item a
           (s\<lparr>bio := (bio s)\<lparr>env := d'\<rparr>, submitIndex := n\<rparr>)"
proof -
  let ?p = "chunk_pos item k offset" and ?w = "(bio s)\<lparr>env := d'\<rparr>" and ?n = "chunkNum a"
  note c = chunk_pos_bounds [OF m U len(1)] and md = mountedD [OF m] and sd = servingD [OF mountedD(4) [OF m]]
  have "meta_table data item ?w j = meta_table data item (bio s) j" if "j < ?n" for j
  proof -
    let ?q = "meta_base item + j * sizeof_BdmChunkMeta"
    have "(j + 1) * sizeof_BdmChunkMeta \<le> ?n * sizeof_BdmChunkMeta" using that by (intro mult_le_mono1) simp
    then have "?q + sizeof_BdmChunkMeta \<le> ?p" using c(3) by simp
    then have "map (write_at ?p buff (data (env (bio s)))) [?q..<?q + sizeof_BdmChunkMeta] =
        map (data (env (bio s))) [?q..<?q + sizeof_BdmChunkMeta]" by (intro write_at_other) auto
    with d(2) show ?thesis by (simp add: meta_table_def Let_def del: map_eq_conv)
  qed
  then have "alloc_inv ?n U a (meta_table data item ?w)"
    using alloc_inv_disk_cong [OF sd(3)] by blast
  moreover have "healthy data good item ?n (write_at ?p buff D) us ps ?w"
    using sd(2) c(3) d by (auto simp: healthy_def write_at_def)
  ultimately show ?thesis using md sd by (simp add: mounted_def serving_def)
qed

end

section \<open>Formatting and reopening\<close>

text \<open>
  The disk has the head that describes it, its layout is the one computed from its size, and
  that layout has room for all metadata in front of the data.
\<close>

definition laid_out :: "nat \<Rightarrow> 'd disk_item \<Rightarrow> nat \<Rightarrow> bool" where
  "laid_out cap item n \<longleftrightarrow>
     BdmAllocatorGetSplitSize (iheadSize item) (iminChunkSize item) (itotalSize item) =
       (BDM_CODE_OK, Some (imetaLength item, idataLength item)) \<and>
     imetaOffset item = iheadSize item \<and>
     idataOffset item = ROUND_UP (add64 (iheadSize item) (imetaLength item)) BDM_ALIGN_SIZE \<and>
     iheadSize item = sizeof_BdmDiskHead \<and> 0 < iminChunkSize item \<and> 0 < n \<and> n < 2 ^ 21 \<and>
     idataLength item = iminChunkSize item * n \<and>
     imetaOffset item + n * sizeof_BdmChunkMeta \<le> idataOffset item \<and>
     ioffset item + idataOffset item + idataLength item \<le> cap \<and> cap < 2 ^ 63 \<and> wf_head (BdmDiskFillDiskHead item)"

definition head_on :: "(nat \<Rightarrow> byte) \<Rightarrow> 'd disk_item \<Rightarrow> bool" where
  "head_on D item \<longleftrightarrow>
     map D [ioffset item..<ioffset item + sizeof_BdmDiskHead] = head_bytes (BdmDiskFillDiskHead item)"

lemma laid_outD:
  assumes "laid_out cap item n"
  shows "iheadSize item = sizeof_BdmDiskHead" "imetaOffset item = sizeof_BdmDiskHead" "0 < iminChunkSize item"
    "0 < n" "n < 2 ^ 21" "idataLength item = iminChunkSize item * n"
    "imetaOffset item + n * sizeof_BdmChunkMeta \<le> idataOffset item"
    "ioffset item + idataOffset item + idataLength item \<le> cap" "wf_head (BdmDiskFillDiskHead item)"
    "BdmAllocatorGetSplitSize sizeof_BdmDiskHead (iminChunkSize item) (itotalSize item) =
       (BDM_CODE_OK, Some (imetaLength item, idataLength item))"
    "idataOffset item = ROUND_UP (add64 sizeof_BdmDiskHead (imetaLength item)) BDM_ALIGN_SIZE" "cap < 2 ^ 63"
  using assms unfolding laid_out_def by auto

lemma laid_out_para:
  assumes "laid_out cap item n"
  shows "paraTotalSize (item_para os item) div paraMinChunkSize (item_para os item) = n"
    "paraTotalSize (item_para os item) < 2 ^ 64" "0 < paraMinChunkSize (item_para os item)"
    "paraOps (item_para os item) = \<lparr>writeMeta = Some (BdmDiskWriteMeta os item), readMeta = Some (BdmDiskReadMeta os item)\<rparr>"
    "meta_base item + n * sizeof_BdmChunkMeta \<le> cap"
proof -
  note l = laid_outD [OF assms]
  show "paraTotalSize (item_para os item) div paraMinChunkSize (item_para os item) = n"
    using l(3,6) by (simp add: item_para_def)
  show "paraTotalSize (item_para os item) < 2 ^ 64" using l(8,12) by (simp add: item_para_def)
  show "meta_base item + n * sizeof_BdmChunkMeta \<le> cap" using l(7,8) by (simp add: meta_base_def)
qed (use laid_outD(3) [OF assms] in \<open>simp_all add: item_para_def\<close>)

lemma alloc_irrelevant_head [simp]:
  "BdmDiskFillDiskHead (item\<lparr>ialloc := h\<rparr>) = BdmDiskFillDiskHead item"
  "laid_out cap (item\<lparr>ialloc := h\<rparr>) n = laid_out cap item n" "head_on D (item\<lparr>ialloc := h\<rparr>) = head_on D item"
  by (simp_all add: BdmDiskFillDiskHead_def laid_out_def head_on_def)

text \<open>The layout the formatted disk gets, from its size alone.\<close>

lemma set_layout_laid_out:
  assumes item: "iheadSize item = sizeof_BdmDiskHead" "0 < iminChunkSize item"
      "sizeof_BdmDiskHead + iminChunkSize item + sizeof_BdmChunkMeta \<le> itotalSize item"
      "ioffset item + itotalSize item \<le> cap" "cap < 2 ^ 63" "ibdmId item < 2 ^ 32" "imaxChunkSize item < 2 ^ 64"
    and n: "n = (itotalSize item - sizeof_BdmDiskHead) div (sizeof_BdmChunkMeta + iminChunkSize item)" "n < 2 ^ 21"
    and R: "R = ROUND_UP (sizeof_BdmChunkMeta * n + sizeof_BdmDiskHead) BDM_ALIGN_SIZE"
      "R + iminChunkSize item * n \<le> itotalSize item"
  shows "laid_out cap (set_layout (R - sizeof_BdmDiskHead) (iminChunkSize item * n) item) n"
    "BdmAllocatorGetSplitSize (iheadSize item) (iminChunkSize item) (itotalSize item) =
       (BDM_CODE_OK, Some (R - sizeof_BdmDiskHead, iminChunkSize item * n))"
proof -
  have "itotalSize item < 2 ^ 63" using item(4,5) by simp
  note e = split_size_exact [OF item(2,3) this n(1) R]
  show "BdmAllocatorGetSplitSize (iheadSize item) (iminChunkSize item) (itotalSize item) =
       (BDM_CODE_OK, Some (R - sizeof_BdmDiskHead, iminChunkSize item * n))" using e(1) item(1) by simp
  have "add64 sizeof_BdmDiskHead (R - sizeof_BdmDiskHead) = R"
    using e(3) R(2) item(4,5) by (subst add64_exact) auto
  moreover have "R < 2 ^ 63" "iminChunkSize item * n < 2 ^ 63" "ioffset item + R + iminChunkSize item * n \<le> cap"
    "ioffset item + R + iminChunkSize item * n < 2 ^ 63" "iminChunkSize item < 2 ^ 63"
    using R(2) item(3-5) by linarith+
  ultimately show "laid_out cap (set_layout (R - sizeof_BdmDiskHead) (iminChunkSize item * n) item) n"
    using e item n(2) R(2)
    by (simp add: laid_out_def set_layout_def wf_head_def BdmDiskFillDiskHead_def mult.commute)
qed

lemma head_check:
  assumes "laid_out cap item n"
  shows "BdmDiskCheckItem (bytes_head (head_bytes (BdmDiskFillDiskHead item))) item"
  using head_roundtrip [OF laid_outD(9) [OF assms]]
  by (simp add: BdmDiskCheckItem_def BdmDiskFillDiskHead_def)

text \<open>An item as it is after opening the disk: the layout is not known, there is no allocator yet.\<close>

definition opened_as :: "'d disk_item \<Rightarrow> 'd disk_item \<Rightarrow> bool" where
  "opened_as item0 item \<longleftrightarrow> (\<exists>m d. set_layout m d item0 = set_layout m d item \<lparr>ialloc := ialloc item0\<rparr>)"

lemma opened_as_layout:
  assumes "opened_as item0 item" "laid_out cap item n"
  shows "set_layout (imetaLength item) (idataLength item) item0 = item\<lparr>ialloc := ialloc item0\<rparr>"
    "iheadSize item0 = sizeof_BdmDiskHead" "iminChunkSize item0 = iminChunkSize item"
    "itotalSize item0 = itotalSize item" "ioffset item0 = ioffset item" "ifd item0 = ifd item"
  using assms(1) laid_outD(1,2,11) [OF assms(2)]
  by (cases item0; cases item; auto simp: opened_as_def set_layout_def)+

context disk_store
begin

lemma store:
  "meta_store (BdmDiskWriteMeta os item) (BdmDiskReadMeta os item) (meta_table data item)
     (healthy data good item num D us ps) num"
  by (rule ms.meta_store_axioms)

end

context block_device
begin

lemma item_store:
  assumes "laid_out cap item n" "fdok (ifd item)"
  shows "meta_store (BdmDiskWriteMeta os item) (BdmDiskReadMeta os item) (meta_table data item)
     (healthy data good item n D us ps) n"
proof (rule disk_store.store [of os data good fdok cap])
  show "disk_store os data good fdok cap item n"
    using assms(2) laid_out_para(5) [OF assms(1)] block_device_axioms
    by (intro disk_store.intro disk_store_axioms.intro)
qed

lemma healthy_self: "good (env w) \<Longrightarrow> healthy data good item n (data (env w)) (used w) (present w) w"
  by (simp add: healthy_def)

lemma serving_created:
  assumes "meta_store wr rd content gd n" "alloc_inv n U a (content w)" "meta_store.wired wr rd gd n a w"
    "usedSize a = c * used_units U n" "minChunkSize a = c" "0 < c" "c * n < 2 ^ 64"
  shows "serving wr rd content gd U a w" "chunkNum a = n"
  using assms by (auto simp: serving_def meta_store.wired_def [OF assms(1)])

lemma make_new:
  assumes lo: "laid_out cap item n" and fd: "fdok (ifd item)" and g: "good (env w)"
  shows "\<exists>a w'. make_allocator os False item w = Some (BDM_CODE_OK, item\<lparr>ialloc := Live a\<rparr>, w') \<and>
     serving (BdmDiskWriteMeta os item) (BdmDiskReadMeta os item) (meta_table data item)
       (healthy data good item n (data (env w)) (used w) (present w)) Map.empty a w' \<and>
     chunkNum a = n \<and> minChunkSize a = iminChunkSize item \<and> sized a"
proof -
  from heap_law [OF g] obtain h d' where
    h: "os_heap os (env w) = (h, d')" "structOk h" "tableOk h" "good d'" "data d' = data (env w)" by blast
  let ?w = "w\<lparr>env := d'\<rparr>" and ?gd = "healthy data good item n (data (env w)) (used w) (present w)"
  have hw: "?gd ?w" using h(4,5) by (simp add: healthy_def)
  note ms = item_store [OF lo fd, of "data (env w)" "used w" "present w"]
  note p = laid_out_para(1-4) [OF lo, of os]
  from meta_store.Create_new [OF ms p(4,3,1) h(2,3) hw laid_outD(4,5) [OF lo]] obtain a w' where
    r: "BdmAllocatorCreate (item_para os item) False h ?w = Some (Some a, w')"
      "alloc_inv n Map.empty a (meta_table data item w')" "meta_store.wired (BdmDiskWriteMeta os item) (BdmDiskReadMeta os item) ?gd n a w'"
      "usedSize a = 0" "minChunkSize a = iminChunkSize item" "totalSize a = idataLength item"
    by (auto simp: item_para_def)
  have c: "0 < iminChunkSize item" "iminChunkSize item * n < 2 ^ 64"
    using laid_outD(3,6,8,12) [OF lo] by auto
  from serving_created [OF ms r(2,3) _ r(5) c] r(4)
  have "serving (BdmDiskWriteMeta os item) (BdmDiskReadMeta os item) (meta_table data item) ?gd Map.empty a w'"
    "chunkNum a = n" by (auto simp: used_units_def)
  moreover from this(2) have "sized a"
    using r(5,6) c laid_outD(6) [OF lo] by (simp add: sized_def)
  moreover have "make_allocator os False item w = Some (BDM_CODE_OK, item\<lparr>ialloc := Live a\<rparr>, w')"
    using h(1) r(1) by (simp add: make_allocator_def)
  ultimately show ?thesis using r(5) by blast
qed

lemma make_restored:
  assumes lo: "laid_out cap item n" and fd: "fdok (ifd item)" and g: "good (env w)"
    and U: "walk (meta_table data item w) U n 0" "dom U \<subseteq> {..<n}"
  shows "\<exists>a w'. make_allocator os True item w = Some (BDM_CODE_OK, item\<lparr>ialloc := Live a\<rparr>, w') \<and>
     serving (BdmDiskWriteMeta os item) (BdmDiskReadMeta os item) (meta_table data item)
       (healthy data good item n (data (env w)) (used w) (present w)) U a w' \<and>
     chunkNum a = n \<and> minChunkSize a = iminChunkSize item \<and> sized a"
proof -
  from heap_law [OF g] obtain h d' where
    h: "os_heap os (env w) = (h, d')" "structOk h" "tableOk h" "good d'" "data d' = data (env w)" by blast
  let ?w = "w\<lparr>env := d'\<rparr>" and ?gd = "healthy data good item n (data (env w)) (used w) (present w)"
  have hw: "?gd ?w" using h(4,5) by (simp add: healthy_def)
  have "meta_table data item ?w = meta_table data item w" by (rule ext) (simp add: meta_table_def h(5))
  with U(1) have wk: "walk (meta_table data item ?w) U n 0" by simp
  note ms = item_store [OF lo fd, of "data (env w)" "used w" "present w"]
  note p = laid_out_para(1-4) [OF lo, of os]
  from meta_store.Create_restore [OF ms p(4,3,1,2) h(2,3) hw laid_outD(5) [OF lo] wk U(2)] obtain a w' where
    r: "BdmAllocatorCreate (item_para os item) True h ?w = Some (Some a, w')"
      "alloc_inv n U a (meta_table data item w')" "meta_store.wired (BdmDiskWriteMeta os item) (BdmDiskReadMeta os item) ?gd n a w'"
      "usedSize a = iminChunkSize item * used_units U n" "minChunkSize a = iminChunkSize item" "totalSize a = idataLength item"
    by (auto simp: item_para_def)
  have c: "0 < iminChunkSize item" "iminChunkSize item * n < 2 ^ 64"
    using laid_outD(3,6,8,12) [OF lo] by auto
  from serving_created [OF ms r(2,3,4,5) c]
  have "serving (BdmDiskWriteMeta os item) (BdmDiskReadMeta os item) (meta_table data item) ?gd U a w'" "chunkNum a = n" .
  moreover from this(2) have "sized a" using r(5,6) c laid_outD(6) [OF lo] by (simp add: sized_def)
  moreover have "make_allocator os True item w = Some (BDM_CODE_OK, item\<lparr>ialloc := Live a\<rparr>, w')"
    using h(1) r(1) by (simp add: make_allocator_def)
  ultimately show ?thesis using r(5) by blast
qed

lemma StoreDiskHead_ok:
  assumes "fdok (ifd item)" "good d" "ioffset item + BDM_RESTORE_META_SIZE \<le> cap"
  shows "\<exists>d'. BdmDiskStoreDiskHead os item d = (BDM_CODE_OK, d') \<and> good d' \<and> head_on (data d') item"
proof -
  let ?buff = "head_bytes (BdmDiskFillDiskHead item) @ replicate (BDM_RESTORE_META_SIZE - sizeof_BdmDiskHead) 0"
  from malloc_law [OF assms(2)] obtain d1 where m: "os_malloc os d = (True, d1)" "good d1" "data d1 = data d" by blast
  from Impl_write [OF m(2) assms(1), of ?buff BDM_RESTORE_META_SIZE "ioffset item"] assms(3) obtain d' where
    w: "BdmDiskInnerReadWriteImpl os (ifd item) ?buff BDM_RESTORE_META_SIZE (ioffset item) False d1 = (BDM_RESTORE_META_SIZE, ?buff, d')"
      "good d'" "data d' = write_at (ioffset item) ?buff (data d1)" by auto
  have "head_on (data d') item"
    unfolding head_on_def w(3)
    by (rule nth_equalityI) (auto simp: write_at_def nth_append)
  with m w show ?thesis by (simp add: BdmDiskStoreDiskHead_def Let_def)
qed

text \<open>A disk whose head matches is taken as it is: the head is written back unchanged.\<close>

lemma RestoreCheckOK_ok:
  assumes lo: "laid_out cap item n" and op: "opened_as item0 item" and fd: "fdok (ifd item)" and g: "good d"
    and hd: "head_on (data d) item"
  shows "\<exists>d'. BdmDiskRestoreCheckOK os item0 d = (BDM_CODE_OK, item\<lparr>ialloc := ialloc item0\<rparr>, d') \<and> good d' \<and> data d' = data d"
proof -
  note o = opened_as_layout [OF op lo]
  let ?h = "head_bytes (BdmDiskFillDiskHead item)"
  have l: "ioffset item + sizeof_BdmDiskHead \<le> cap" using laid_outD(2,7,8) [OF lo] by linarith
  from Impl_read [OF g fd _ l, of "replicate sizeof_BdmDiskHead 0"] hd obtain d1 where
    1: "BdmDiskInnerReadWriteImpl os (ifd item) (replicate sizeof_BdmDiskHead 0) sizeof_BdmDiskHead (ioffset item) True d =
      (sizeof_BdmDiskHead, ?h, d1)" "good d1" "data d1 = data d" by (auto simp: head_on_def)
  from Impl_write [OF 1(2) fd _ l, of ?h] obtain d2 where
    2: "BdmDiskInnerReadWriteImpl os (ifd item) ?h sizeof_BdmDiskHead (ioffset item) False d1 = (sizeof_BdmDiskHead, ?h, d2)"
      "good d2" "data d2 = write_at (ioffset item) ?h (data d1)" by auto
  have "write_at (ioffset item) ?h (data d) = data d"
  proof
    fix x
    have "?h ! (x - ioffset item) = data d x" if "ioffset item \<le> x" "x < ioffset item + sizeof_BdmDiskHead"
      unfolding hd [unfolded head_on_def, symmetric] using that by simp
    then show "write_at (ioffset item) ?h (data d) x = data d x" by (auto simp: write_at_def)
  qed
  moreover have "BdmDiskPreCheckFileLen os (ifd item) (add64 sizeof_BdmDiskHead (ioffset item)) d = BDM_CODE_OK"
    using size_law [OF g fd] l cap_law by (simp add: BdmDiskPreCheckFileLen_def add64_exact to_off_def)
  moreover have "BdmDiskCheckItem (bytes_head ?h) (item\<lparr>ialloc := ialloc item0\<rparr>)"
    using head_check [OF lo] by (simp add: BdmDiskCheckItem_def)
  ultimately show ?thesis
    using 1 2 o laid_outD(10) [OF lo] by (simp add: BdmDiskRestoreCheckOK_def Let_def)
qed

end

end
