(* ===== verification/BdmDiskThms.thy ===== *)
theory BdmDiskThms
  imports BdmDiskProps
begin

text \<open>
  The theorems about the disk backend: data written to a chunk is read back, transfers and
  allocations do not disturb other chunks, a formatted disk is recovered when it is opened
  again, and what happens when transfers or a reset fail.
\<close>

section \<open>A device in memory\<close>

text \<open>
  The simplest device that works: its bytes, transferred completely up to the end of the device. A read beyond the end delivers
  nothing, a write there fails.
\<close>

abbreviation mem_size :: nat where "mem_size \<equiv> 44040192"

definition mem_os :: "(nat \<Rightarrow> byte) os" where
  "mem_os =
     \<lparr>os_pread = (\<lambda>fd n off d. (Some (map d [off..<min (off + n) mem_size]), d)),
      os_pwrite = (\<lambda>fd bs off d. let k = min (length bs) (mem_size - off) in if k = 0 \<and> bs \<noteq> [] then (- 1, d) else (int k, write_at off (take k bs) d)),
      os_open = (\<lambda>name direct d. (3, d)), os_close = (\<lambda>fd d. d), os_lseek_end = (\<lambda>fd d. int mem_size),
      os_malloc = (\<lambda>d. (True, d)), os_heap = (\<lambda>d. (mem_heap, d)),
      os_submit = (\<lambda>t xs d. (int (length xs), d)), os_resubmit = (\<lambda>t c d. (1, d)),
      os_pool_add = (\<lambda>t c d. (0, d)), os_io_callback = (\<lambda>c r d. d),
      CmReportDiskStatus = (\<lambda>i d. (0, d))\<rparr>"

interpretation mem_dev: block_device mem_os "\<lambda>d. d" "\<lambda>_. True" "\<lambda>fd. 0 \<le> fd" mem_size
proof
  fix d fd n off
  assume "0 < (n::nat)" "off + n \<le> mem_size"
  then show "\<exists>k d'. 0 < k \<and> k \<le> n \<and> os_pread mem_os fd n off d = (Some (map d [off..<off + k]), d') \<and> True \<and> d' = d"
    by (intro exI [of _ n]) (simp add: mem_os_def min_absorb1)
next
  fix d fd off and bs :: "byte list"
  assume "bs \<noteq> []" "off + length bs \<le> mem_size"
  then show "\<exists>k d'. 0 < k \<and> k \<le> length bs \<and> os_pwrite mem_os fd bs off d = (int k, d') \<and> True \<and>
      d' = write_at off (take k bs) d"
    by (intro exI [of _ "length bs"]) (simp add: mem_os_def min_absorb1 Let_def)
qed (simp_all add: mem_os_def mem_heap_def)

definition mem_item :: "(nat \<Rightarrow> byte) disk_item" where
  "mem_item = \<lparr>ialloc = Null, ibdmId = 0, iminChunkSize = 4194304, imaxChunkSize = 4194304,
     itotalSize = 44040192, imetaOffset = 0, imetaLength = 0, idataOffset = 0, idataLength = 0,
     iname = ''disk'', isn = ''sn'', ioffset = 0, iheadSize = sizeof_BdmDiskHead, ifd = 3, iasyncfd = (\<lambda>_. 4)\<rparr>"

definition mem_io :: "(nat \<Rightarrow> byte) io" where
  "mem_io = \<lparr>env = (\<lambda>_. 0), used = (\<lambda>i. i = 0), present = (\<lambda>i. i = 0)\<rparr>"

definition mem_bdm :: "(nat \<Rightarrow> byte) disk_item \<Rightarrow> (nat \<Rightarrow> byte) io \<Rightarrow> (nat \<Rightarrow> byte) bdm" where
  "mem_bdm item w = \<lparr>bio = w, mgrIndex = 1, mgrNum = 1, objs = (\<lambda>_. BdmDiskFillBdmObj item),
     diskNum = 1, diskList = [0], submitIndex = 0, bdmIndex = 0, opsRegistered = True,
     g_bdmInit = True, g_bdmStart = True, g_bdmCount = 1\<rparr>"

lemma mem_laid_out:
  "BdmAllocatorGetSplitSize sizeof_BdmDiskHead 4194304 44040192 = (BDM_CODE_OK, Some (2096904, 41943040))"
  "laid_out mem_size (set_layout 2096904 41943040 mem_item) 10"
  using set_layout_laid_out [of mem_item mem_size 10 2097152] by (simp_all add: mem_item_def ROUND_UP_div)

section \<open>Formatting\<close>

context block_device
begin

lemma NewAllocator_ok:
  assumes split: "BdmAllocatorGetSplitSize (iheadSize item) (iminChunkSize item) (itotalSize item) = (BDM_CODE_OK, Some (m, d))"
    and lo: "laid_out cap (set_layout m d item) n" and fd: "fdok (ifd item)" and g: "good (env w)"
    and off: "ioffset item + BDM_RESTORE_META_SIZE \<le> cap"
  shows "\<exists>a w' D. BdmDiskNewAllocator os item w = Some (BDM_CODE_OK, (set_layout m d item)\<lparr>ialloc := Live a\<rparr>, w') \<and>
     head_on D (set_layout m d item) \<and>
     serving (BdmDiskWriteMeta os (set_layout m d item)) (BdmDiskReadMeta os (set_layout m d item))
       (meta_table data (set_layout m d item)) (healthy data good (set_layout m d item) n D (used w) (present w)) Map.empty a w' \<and>
     chunkNum a = n \<and> minChunkSize a = iminChunkSize item \<and> sized a"
proof -
  let ?item = "set_layout m d item"
  have i: "ifd ?item = ifd item" "ioffset ?item = ioffset item" "iminChunkSize ?item = iminChunkSize item"
    by (simp_all add: set_layout_def)
  from StoreDiskHead_ok [of ?item "env w"] fd g off i obtain d1 where
    1: "BdmDiskStoreDiskHead os ?item (env w) = (BDM_CODE_OK, d1)" "good d1" "head_on (data d1) ?item" by auto
  from make_new [OF lo, of "w\<lparr>env := d1\<rparr>"] fd 1(2) i obtain a w' where
    2: "make_allocator os False ?item (w\<lparr>env := d1\<rparr>) = Some (BDM_CODE_OK, ?item\<lparr>ialloc := Live a\<rparr>, w')"
      "serving (BdmDiskWriteMeta os ?item) (BdmDiskReadMeta os ?item) (meta_table data ?item)
        (healthy data good ?item n (data d1) (used w) (present w)) Map.empty a w'"
      "chunkNum a = n" "minChunkSize a = iminChunkSize item" "sized a" by auto
  with 1 split show ?thesis
    by (intro exI [of _ a] exI [of _ w'] exI [of _ "data d1"]) (simp add: BdmDiskNewAllocator_def Let_def)
qed

lemma laid_out_mounted:
  assumes "laid_out cap item (chunkNum a)" "minChunkSize a = iminChunkSize item" "fdok (ifd item)"
    "\<forall>k<BDM_AYSNC_IO_FD_NUM. fdok (iasyncfd item k)"
    "serving (BdmDiskWriteMeta os item) (BdmDiskReadMeta os item) (meta_table data item)
       (healthy data good item (chunkNum a) D us ps) U a w"
    "opsInfo (objs s i) = Some (item\<lparr>ialloc := Live a\<rparr>)" "bio s = w"
  shows "mounted os data good fdok cap D us ps U i (item\<lparr>ialloc := Live a\<rparr>) a s"
  using assms laid_outD(6,7,8,12) [OF assms(1)]
  by (simp add: mounted_def meta_base_def mult.commute)

end

context block_device
begin

lemma mounted_store:
  assumes "mounted os data good fdok cap D us ps U i item a s"
  shows "meta_store (BdmDiskWriteMeta os item) (BdmDiskReadMeta os item) (meta_table data item)
     (healthy data good item (chunkNum a) D us ps) (chunkNum a)"
proof (rule disk_store.store [of os data good fdok cap])
  have "meta_base item + chunkNum a * sizeof_BdmChunkMeta \<le> cap"
    using mountedD(7,8) [OF assms] by linarith
  then show "disk_store os data good fdok cap item (chunkNum a)"
    using mountedD(5) [OF assms] block_device_axioms by (intro disk_store.intro disk_store_axioms.intro)
qed

text \<open>Taking a chunk on a mounted disk.\<close>

lemma mounted_alloc:
  assumes m: "mounted os data good fdok cap D us ps U i item a s"
    and l: "0 < l" "b < 2 ^ 64" "off < 2 ^ 64" and ex: "\<exists>k\<in>free_heads a. l \<le> clen a k"
  shows "\<exists>c a' w'. BdmDiskAlloc i b off (l * iminChunkSize item) s =
             Some (BDM_CODE_OK, Some c, put_item i (item\<lparr>ialloc := Live a'\<rparr>) (s\<lparr>bio := w'\<rparr>)) \<and>
           c \<in> free_heads a \<and> l \<le> clen a c \<and> same_config a a' \<and>
           mounted os data good fdok cap D us ps (U(c \<mapsto> (l, b, off))) i (item\<lparr>ialloc := Live a'\<rparr>) a'
             (put_item i (item\<lparr>ialloc := Live a'\<rparr>) (s\<lparr>bio := w'\<rparr>))"
proof -
  note md = mountedD [OF m] and sd = servingD [OF mountedD(4) [OF m]]
  from meta_store.alloc_chunk [OF mounted_store [OF m] refl md(4) l ex] obtain c a' w' where
    r: "BdmAllocatorAllocChunk b off (l * minChunkSize a) a (bio s) = Some (BDM_CODE_OK, Some c, a', w')"
      "c \<in> free_heads a" "l \<le> clen a c"
      "serving (BdmDiskWriteMeta os item) (BdmDiskReadMeta os item) (meta_table data item)
        (healthy data good item (chunkNum a) D us ps) (U(c \<mapsto> (l, b, off))) a' w'" "same_config a a'" by blast
  let ?s = "put_item i (item\<lparr>ialloc := Live a'\<rparr>) (s\<lparr>bio := w'\<rparr>)"
  have "BdmDiskAlloc i b off (l * iminChunkSize item) s = Some (BDM_CODE_OK, Some c, ?s)"
    using r(1) md(1-3) l(1) sd(4) by (simp add: BdmDiskAlloc_def)
  moreover have "mounted os data good fdok cap D us ps (U(c \<mapsto> (l, b, off))) i (item\<lparr>ialloc := Live a'\<rparr>) a' ?s"
    using m r(4,5) by (simp add: mounted_def same_config_def)
  ultimately show ?thesis using r(2,3,5) by blast
qed

end

lemma space_left:
  assumes "serving wr rd content good U a w" "used_units U (chunkNum a) < chunkNum a"
  shows "\<exists>k\<in>free_heads a. 1 \<le> clen a k"
proof -
  have "(\<Sum>k\<in>free_heads a. clen a k) \<noteq> 0" using used_units_le [OF servingD(3) [OF assms(1)]] assms(2) by linarith
  then show ?thesis by (metis One_nat_def Suc_leI gr0I sum.neutral)
qed

text \<open>A formatted disk in memory, mounted empty or with some used chunks, for the examples.\<close>

definition mem_mounted :: "(nat \<Rightarrow> byte) \<Rightarrow> (nat \<Rightarrow> bool) \<Rightarrow> (nat \<Rightarrow> bool) \<Rightarrow> used_map \<Rightarrow> (nat \<Rightarrow> byte) disk_item \<Rightarrow>
    (nat \<Rightarrow> byte) io alloc \<Rightarrow> (nat \<Rightarrow> byte) bdm \<Rightarrow> bool" where
  "mem_mounted D us ps U item a s \<longleftrightarrow> mounted mem_os (\<lambda>d. d) (\<lambda>_. True) (\<lambda>fd. 0 \<le> fd) mem_size D us ps U 0 item a s \<and>
     laid_out mem_size item (chunkNum a) \<and> head_on D item \<and> ioffset item = 0 \<and> iminChunkSize item = 4194304 \<and>
     chunkNum a = 10 \<and> sized a"

lemma mem_mountedD:
  assumes "mem_mounted D us ps U item a s"
  shows "mounted mem_os (\<lambda>d. d) (\<lambda>_. True) (\<lambda>fd. 0 \<le> fd) mem_size D us ps U 0 item a s" "laid_out mem_size item (chunkNum a)"
    "head_on D item" "ioffset item = 0" "iminChunkSize item = 4194304" "chunkNum a = 10" "sized a"
  using assms unfolding mem_mounted_def by blast+

lemma mem_formatted:
  "\<exists>D item a s. mem_mounted D (used mem_io) (present mem_io) Map.empty item a s \<and> opsSet (objs s 0)"
proof -
  let ?item = "set_layout 2096904 41943040 mem_item"
  have split: "BdmAllocatorGetSplitSize (iheadSize mem_item) (iminChunkSize mem_item) (itotalSize mem_item) =
      (BDM_CODE_OK, Some (2096904, 41943040))" using mem_laid_out(1) by (simp add: mem_item_def)
  from mem_dev.NewAllocator_ok [OF split mem_laid_out(2), of mem_io] obtain a w D where
    1: "head_on D ?item" "serving (BdmDiskWriteMeta mem_os ?item) (BdmDiskReadMeta mem_os ?item)
       (meta_table (\<lambda>d. d) ?item) (healthy (\<lambda>d. d) (\<lambda>_. True) ?item 10 D (used mem_io) (present mem_io)) Map.empty a w"
      "chunkNum a = 10" "minChunkSize a = 4194304" "sized a" by (auto simp: mem_item_def)
  let ?it = "?item\<lparr>ialloc := Live a\<rparr>"
  have "mounted mem_os (\<lambda>d. d) (\<lambda>_. True) (\<lambda>fd. 0 \<le> fd) mem_size D (used mem_io) (present mem_io) Map.empty 0 ?it a (mem_bdm ?it w)"
    using mem_laid_out(2) 1 by (intro mem_dev.laid_out_mounted)
      (auto simp: set_layout_def mem_item_def mem_bdm_def BdmDiskFillBdmObj_def)
  moreover have "iminChunkSize ?it = 4194304" "ioffset ?it = 0" by (simp_all add: set_layout_def mem_item_def)
  moreover have "laid_out mem_size ?it (chunkNum a)" "head_on D ?it" using mem_laid_out(2) 1 by simp_all
  moreover have "opsSet (objs (mem_bdm ?it w) 0)" by (simp add: mem_bdm_def BdmDiskFillBdmObj_def)
  ultimately show ?thesis using 1(3,5) unfolding mem_mounted_def by blast
qed

lemma mem_empty: "\<exists>D us ps item a s. mem_mounted D us ps Map.empty item a s"
  using mem_formatted by blast

lemma mem_take:
  assumes "mem_mounted D us ps U item a s" "used_units U 10 < 10" "b < 2 ^ 64"
  obtains c item' a' s' where "c \<notin> dom U" "mem_mounted D us ps (U(c \<mapsto> (1, b, 0))) item' a' s'"
proof -
  note m = mem_mountedD [OF assms(1)]
  note sv = mountedD(4) [OF m(1)]
  have "\<exists>k\<in>free_heads a. 1 \<le> clen a k" using space_left [OF sv] assms(2) m(6) by simp
  from mem_dev.mounted_alloc [OF m(1) zero_less_one assms(3) _ this, of 0] obtain c a' w' where
    r: "c \<in> free_heads a" "1 \<le> clen a c" "same_config a a'"
      "mounted mem_os (\<lambda>d. d) (\<lambda>_. True) (\<lambda>fd. 0 \<le> fd) mem_size D us ps (U(c \<mapsto> (1, b, 0))) 0 (item\<lparr>ialloc := Live a'\<rparr>) a'
        (put_item 0 (item\<lparr>ialloc := Live a'\<rparr>) (s\<lparr>bio := w'\<rparr>))" by auto
  have "chunkNum a' = 10" "sized a'" using r(3) m(6,7) sized_config [OF r(3)] by (simp_all add: same_config_def)
  with r(4) m(2-6) have "mem_mounted D us ps (U(c \<mapsto> (1, b, 0))) (item\<lparr>ialloc := Live a'\<rparr>) a'
        (put_item 0 (item\<lparr>ialloc := Live a'\<rparr>) (s\<lparr>bio := w'\<rparr>))" by (simp add: mem_mounted_def)
  with free_fits(1) [OF servingD(3) [OF sv] r(1,2)] show thesis by (rule that)
qed

lemma units_one: "used_units [c \<mapsto> (1, b, off)] n \<le> 1"
  by (cases "c < n") (auto simp: used_units_def)

lemma mem_one_used: "\<exists>D us ps c item a s. mem_mounted D us ps [c \<mapsto> (1, 7, 0)] item a s"
proof -
  obtain D us ps item a s where "mem_mounted D us ps Map.empty item a s" using mem_empty by blast
  moreover have "used_units Map.empty 10 < 10" by (simp add: used_units_def)
  ultimately obtain c item' a' s' where "mem_mounted D us ps [c \<mapsto> (1, 7, 0)] item' a' s'"
    by (rule mem_take [where b = 7]) simp
  then show ?thesis by blast
qed

lemma mem_two_used:
  "\<exists>D us ps c c' item a s. c \<noteq> c' \<and> mem_mounted D us ps [c \<mapsto> (1, 7, 0), c' \<mapsto> (1, 8, 0)] item a s"
proof -
  obtain D us ps c item a s where "mem_mounted D us ps [c \<mapsto> (1, 7, 0)] item a s" using mem_one_used by blast
  moreover have "used_units [c \<mapsto> (1, 7, 0)] 10 < 10" using units_one [of c 7 0 10] by simp
  ultimately obtain c' item' a' s' where
    "c' \<notin> dom [c \<mapsto> (1 :: nat, 7 :: nat, 0 :: nat)]" "mem_mounted D us ps [c \<mapsto> (1, 7, 0), c' \<mapsto> (1, 8, 0)] item' a' s'"
    by (rule mem_take [where b = 8]) simp
  moreover from this(1) have "c \<noteq> c'" by simp
  ultimately show ?thesis by blast
qed

lemma serving_walk:
  assumes "serving wr rd content good U a w"
  shows "walk (content w) U (chunkNum a) 0"
proof -
  note i = servingD(3) [OF assms]
  note s = alloc_invD(1) [OF i]
  show ?thesis
    using alloc_inv_walk [OF s _ alloc_invD(4) [OF i], of 0] alloc_invD(2) [OF i]
      tiling_zero [OF shapeD(5) [OF s]] by auto
qed

lemma rw_attempts_success:
  "rw_attempts k os fd buff len off isRead d = (True, b, d') \<Longrightarrow>
     \<exists>b' d0. BdmDiskInnerReadWriteImpl os fd b' len off isRead d0 = (len, b, d')"
  by (induction k arbitrary: buff d) (auto split: prod.splits if_splits)

lemma close_async_keeps:
  "close_async os ks (item, d) = (item', d') \<Longrightarrow> ialloc item' = ialloc item \<and> iminChunkSize item' = iminChunkSize item"
  by (induction ks arbitrary: item d) (auto split: if_splits)

lemma CloseDisk_keeps:
  "BdmDiskCloseDisk os item d = (item', d') \<Longrightarrow> ialloc item' = ialloc item \<and> iminChunkSize item' = iminChunkSize item"
  by (auto simp: BdmDiskCloseDisk_def split: if_splits dest!: close_async_keeps)

section \<open>Properties\<close>

text \<open>
  Data written to a chunk in use is read back: on a working device, \<open>BdmDiskWrite\<close> of a range
  inside the chunk followed by \<open>BdmDiskRead\<close> of the same range delivers the bytes written,
  whatever the addresses of the two buffers, and so whether direct or buffered descriptors are used.
\<close>

theorem disk_write_then_read:
  assumes "block_device os data good fdok cap" "mounted os data good fdok cap D us ps U i item a s"
    and "U k = Some (l, b, off)" "offset + len \<le> l * iminChunkSize item" "length bs = len" "length bs0 = len"
  shows "\<exists>s1 s2. BdmDiskWrite os i k offset buf bs len s = Some (BDM_CODE_OK, bs, s1) \<and>
                 BdmDiskRead os i k offset buf' bs0 len s1 = Some (BDM_CODE_OK, bs, s2)"
proof -
  from block_device.transfer_write [OF assms(1-5), of buf] obtain d' n where
    1: "BdmDiskWrite os i k offset buf bs len s = Some (BDM_CODE_OK, bs, s\<lparr>bio := (bio s)\<lparr>env := d'\<rparr>, submitIndex := n\<rparr>)"
      "good d'" "data d' = write_at (chunk_pos item k offset) bs (data (env (bio s)))" by blast
  note m = block_device.mounted_write [OF assms(1-5) 1(2,3), of n]
  from block_device.transfer_read [OF assms(1) m assms(3,4,6), of buf'] 1 assms(5)
    write_at_read [of "chunk_pos item k offset" bs] show ?thesis by auto
qed

theorem disk_write_then_read_witness:
  "\<exists>item s s1 s2 c. iminChunkSize item = 4194304 \<and> opsInfo (objs s 0) = Some item \<and>
     BdmDiskWrite mem_os 0 c 100 4096 [1, 2, 3] 3 s = Some (BDM_CODE_OK, [1, 2, 3], s1) \<and>
     BdmDiskRead mem_os 0 c 100 5 [0, 0, 0] 3 s1 = Some (BDM_CODE_OK, [1, 2, 3], s2)"
proof -
  obtain D us ps c item a s where mm: "mem_mounted D us ps [c \<mapsto> (1, 7, 0)] item a s"
    using mem_one_used by blast
  note m = mem_mountedD(1,5) [OF mm]
  from disk_write_then_read [OF mem_dev.block_device_axioms m(1), of c 1 7 0 100 3 "[1, 2, 3]" "[0, 0, 0]" 4096 5] m(2)
  obtain s1 s2 where "BdmDiskWrite mem_os 0 c 100 4096 [1, 2, 3] 3 s = Some (BDM_CODE_OK, [1, 2, 3], s1)"
    "BdmDiskRead mem_os 0 c 100 5 [0, 0, 0] 3 s1 = Some (BDM_CODE_OK, [1, 2, 3], s2)" by auto
  with m(2) mountedD(1) [OF m(1)] show ?thesis by blast
qed

text \<open>
  (C8) A write stays inside its chunk: on a disk whose metadata and data lie on a working device, \<open>BdmDiskWrite\<close> to a chunk in use succeeds and leaves
  what \<open>BdmDiskRead\<close> delivers for every other chunk in use, the metadata of all chunks and the
  flags of the disk as they are.
\<close>

theorem disk_write_isolated:
  assumes "block_device os data good fdok cap" "mounted os data good fdok cap D us ps U i item a s"
    and "U k = Some (l, b, off)" "offset + len \<le> l * iminChunkSize item" "length bs = len"
    and "U k' = Some (l', b', off')" "k \<noteq> k'" "offset' + len' \<le> l' * iminChunkSize item" "length bs0 = len'"
  shows "\<exists>s1 r s2 s3 D'. BdmDiskWrite os i k offset buf bs len s = Some (BDM_CODE_OK, bs, s1) \<and>
           BdmDiskRead os i k' offset' buf' bs0 len' s = Some (BDM_CODE_OK, r, s2) \<and>
           BdmDiskRead os i k' offset' buf' bs0 len' s1 = Some (BDM_CODE_OK, r, s3) \<and>
           mounted os data good fdok cap D' us ps U i item a s1"
proof -
  from block_device.transfer_write [OF assms(1-5), of buf] obtain d' n where
    1: "BdmDiskWrite os i k offset buf bs len s = Some (BDM_CODE_OK, bs, s\<lparr>bio := (bio s)\<lparr>env := d'\<rparr>, submitIndex := n\<rparr>)"
      "good d'" "data d' = write_at (chunk_pos item k offset) bs (data (env (bio s)))" by blast
  note m = block_device.mounted_write [OF assms(1-5) 1(2,3), of n]
  let ?q = "chunk_pos item k' offset'"
  have "map (data d') [?q..<?q + len'] = map (data (env (bio s))) [?q..<?q + len']"
    unfolding 1(3) using chunks_apart [OF assms(2,3,6,7,4,8)] assms(5) by (intro write_at_other) auto
  with block_device.transfer_read [OF assms(1,2,6,8,9), of buf'] 1(1)
    block_device.transfer_read [OF assms(1) m assms(6,8,9), of buf'] m show ?thesis by fastforce
qed

theorem disk_write_isolated_witness:
  "\<exists>s s1 r s2 s3 c c'. c \<noteq> c' \<and> BdmDiskWrite mem_os 0 c 100 4096 [1, 2, 3] 3 s = Some (BDM_CODE_OK, [1, 2, 3], s1) \<and>
     BdmDiskRead mem_os 0 c' 100 5 [0, 0, 0] 3 s = Some (BDM_CODE_OK, r, s2) \<and>
     BdmDiskRead mem_os 0 c' 100 5 [0, 0, 0] 3 s1 = Some (BDM_CODE_OK, r, s3)"
proof -
  obtain D us ps c c' item a s where
    mm: "mem_mounted D us ps [c \<mapsto> (1, 7, 0), c' \<mapsto> (1, 8, 0)] item a s" and ne: "c \<noteq> c'" using mem_two_used by blast
  note m = mem_mountedD(1,5) [OF mm] ne
  from disk_write_isolated [OF mem_dev.block_device_axioms m(1), of c 1 7 0 100 3 "[1, 2, 3]" c' 1 8 0 100 3 "[0, 0, 0]" 4096 5] m(2,3)
  obtain s1 r s2 s3 where "BdmDiskWrite mem_os 0 c 100 4096 [1, 2, 3] 3 s = Some (BDM_CODE_OK, [1, 2, 3], s1)"
    "BdmDiskRead mem_os 0 c' 100 5 [0, 0, 0] 3 s = Some (BDM_CODE_OK, r, s2)"
    "BdmDiskRead mem_os 0 c' 100 5 [0, 0, 0] 3 s1 = Some (BDM_CODE_OK, r, s3)" by auto
  with m(3) show ?thesis by blast
qed

text \<open>
  Allocating through the disk: \<open>BdmDiskAlloc\<close> of a whole number of units for which there is a
  free area delivers a chunk that is not in use and records it; the disk stays mounted and every
  byte outside the metadata table, all data included, keeps its value.
\<close>

theorem disk_alloc_keeps_data:
  assumes "block_device os data good fdok cap" "mounted os data good fdok cap D us ps U i item a s"
    and "0 < l" "b < 2 ^ 64" "off < 2 ^ 64" "k \<in> free_heads a" "l \<le> clen a k"
  shows "\<exists>c item' a' s'. BdmDiskAlloc i b off (l * iminChunkSize item) s = Some (BDM_CODE_OK, Some c, s') \<and>
           c \<notin> dom U \<and> mounted os data good fdok cap D us ps (U(c \<mapsto> (l, b, off))) i item' a' s'"
proof -
  have "\<exists>k\<in>free_heads a. l \<le> clen a k" using assms(6,7) by blast
  from block_device.mounted_alloc [OF assms(1-5) this] free_fits(1) [OF servingD(3) [OF mountedD(4) [OF assms(2)]]]
  show ?thesis by blast
qed

theorem disk_alloc_keeps_data_witness:
  "\<exists>(s :: (nat \<Rightarrow> byte) bdm) c c' s' item. opsInfo (objs s 0) = Some item \<and> c' \<noteq> c \<and>
     BdmDiskAlloc 0 5 6 (1 * iminChunkSize item) s = Some (BDM_CODE_OK, Some c', s')"
proof -
  obtain D us ps c item a s where mm: "mem_mounted D us ps [c \<mapsto> (1, 7, 0)] item a s"
    using mem_one_used by blast
  note m = mem_mountedD(1,6) [OF mm]
  have "used_units [c \<mapsto> (1, 7, 0)] (chunkNum a) < chunkNum a" using m(2) units_one [of c 7 0 10] by simp
  then obtain k where "k \<in> free_heads a" "1 \<le> clen a k"
    using space_left [OF mountedD(4) [OF m(1)]] by blast
  from disk_alloc_keeps_data [OF mem_dev.block_device_axioms m(1) _ _ _ this, of 5 6] obtain c' s' where
    "BdmDiskAlloc 0 5 6 (1 * iminChunkSize item) s = Some (BDM_CODE_OK, Some c', s')" "c' \<noteq> c" by auto
  with mountedD(1) [OF m(1)] show ?thesis by blast
qed

text \<open>
  (C6) Opening a disk again: when the head on a formatted disk that lies on a working device matches, \<open>BdmDiskCreateAllocator\<close>
  takes the disk as it is. The new allocator has exactly the used chunks of the old one, with
  their owners, and no byte outside the metadata table changes.
\<close>

theorem disk_reopen_recovers:
  assumes "block_device os data good fdok cap" "mounted os data good fdok cap D us ps U i item a s"
    and "laid_out cap item (chunkNum a)" "head_on D item" "opened_as item0 item"
  shows "\<exists>a' w'. BdmDiskCreateAllocator os item0 (bio s) = Some (BDM_CODE_OK, item\<lparr>ialloc := Live a'\<rparr>, w') \<and>
     serving (BdmDiskWriteMeta os item) (BdmDiskReadMeta os item) (meta_table data item)
       (healthy data good item (chunkNum a) D us ps) U a' w'"
proof -
  let ?n = "chunkNum a" and ?item = "item\<lparr>ialloc := ialloc item0\<rparr>"
  note md = mountedD [OF assms(2)] and sd = servingD [OF mountedD(4) [OF assms(2)]]
  have h: "good (env (bio s))" "used (bio s) = us" "present (bio s) = ps"
      "\<forall>x. x < meta_base item \<or> meta_base item + ?n * sizeof_BdmChunkMeta \<le> x \<longrightarrow> data (env (bio s)) x = D x"
    using sd(2) by (auto simp: healthy_def)
  have hd: "head_on (data (env (bio s))) item"
  proof -
    have "map (data (env (bio s))) [ioffset item..<ioffset item + sizeof_BdmDiskHead] =
        map D [ioffset item..<ioffset item + sizeof_BdmDiskHead]"
      using h(4) laid_outD(2) [OF assms(3)] by (auto simp: meta_base_def)
    with assms(4) show ?thesis by (simp add: head_on_def del: map_eq_conv)
  qed
  from block_device.RestoreCheckOK_ok [OF assms(1,3,5) md(5) h(1) hd] obtain d1 where
    1: "BdmDiskRestoreCheckOK os item0 (env (bio s)) = (BDM_CODE_OK, ?item, d1)" "good d1" "data d1 = data (env (bio s))"
    by blast
  let ?w = "(bio s)\<lparr>env := d1\<rparr>"
  have "meta_table data ?item ?w = meta_table data item (bio s)" by (rule ext) (simp add: meta_table_def 1(3))
  moreover have "walk (meta_table data item (bio s)) U ?n 0"
    using serving_walk [OF md(4)] .
  ultimately have wk: "walk (meta_table data ?item ?w) U ?n 0" by simp
  have lo: "laid_out cap ?item ?n" "fdok (ifd ?item)" "good (env ?w)" using assms(3) md(5) 1(2) by simp_all
  from block_device.make_restored [OF assms(1) lo wk dom_bound [OF sd(3)]] obtain a' w' where
    2: "make_allocator os True ?item ?w = Some (BDM_CODE_OK, item\<lparr>ialloc := Live a'\<rparr>, w')"
      "serving (BdmDiskWriteMeta os item) (BdmDiskReadMeta os item) (meta_table data item)
        (healthy data good item ?n (data d1) us ps) U a' w'" "chunkNum a' = ?n" using h(2,3) by auto
  have "healthy data good item ?n D us ps w'"
    using servingD(2) [OF 2(2)] h(4) 1(3) by (auto simp: healthy_def)
  then have "serving (BdmDiskWriteMeta os item) (BdmDiskReadMeta os item) (meta_table data item)
        (healthy data good item ?n D us ps) U a' w'" using 2(2) by (simp add: serving_def)
  moreover have "BdmDiskCreateAllocator os item0 (bio s) = Some (BDM_CODE_OK, item\<lparr>ialloc := Live a'\<rparr>, w')"
    using 1(1) 2(1) by (simp add: BdmDiskCreateAllocator_def BdmDiskRestoreAllocator_def)
  ultimately show ?thesis by blast
qed

theorem disk_reopen_recovers_witness:
  "\<exists>item0 item a' w w' c. ialloc item0 = Null \<and>
     BdmDiskCreateAllocator mem_os item0 w = Some (BDM_CODE_OK, item\<lparr>ialloc := Live a'\<rparr>, w') \<and>
     alloc_inv (chunkNum a') [c \<mapsto> (1, 7, 0)] a' (meta_table (\<lambda>d. d) item w')"
proof -
  obtain D us ps c item a s where mm: "mem_mounted D us ps [c \<mapsto> (1, 7, 0)] item a s"
    using mem_one_used by blast
  note m = mem_mountedD(1-3) [OF mm]
  let ?item0 = "item\<lparr>ialloc := Null, imetaLength := 0, idataOffset := 0, idataLength := 0\<rparr>"
  have op: "opened_as ?item0 item" by (cases item) (auto simp: opened_as_def set_layout_def)
  from disk_reopen_recovers [OF mem_dev.block_device_axioms m(1-3) op] obtain a' w' where
    r: "BdmDiskCreateAllocator mem_os ?item0 (bio s) = Some (BDM_CODE_OK, item\<lparr>ialloc := Live a'\<rparr>, w')"
      "serving (BdmDiskWriteMeta mem_os item) (BdmDiskReadMeta mem_os item) (meta_table (\<lambda>d. d) item)
       (healthy (\<lambda>d. d) (\<lambda>_. True) item (chunkNum a) D us ps) [c \<mapsto> (1, 7, 0)] a' w'" by auto
  have "ialloc ?item0 = Null" by simp
  with r(1) servingD(3) [OF r(2)] show ?thesis by blast
qed

text \<open>
  A transfer that keeps failing gives the disk up. \<open>BdmDiskInnerReadWrite\<close> always returns; it
  reports success only after an attempt that moved all bytes, and then changes no flag. Otherwise
  it returns an I/O error, and a disk that was registered in its slot is in state fault.
\<close>

theorem transfer_success_or_fault:
  assumes "BdmDiskInnerReadWrite os item buff len off isRead (bio s) = (ret, buff', w')"
  shows "(ret = BDM_CODE_OK \<and> used w' = slot_used s \<and> present w' = present (bio s) \<and>
            (\<exists>b d d'. BdmDiskInnerReadWriteImpl os (ifd item) b len off isRead d = (len, buff', d') \<and> env w' = d')) \<or>
         (ret = BDM_CODE_ERR_IO \<and>
            BdmGetBdmStatus (ibdmId item) (s\<lparr>bio := w'\<rparr>) =
              (if ibdmId item < BDM_MAX_NUM \<and> present (bio s) (ibdmId item) then BDM_DISK_STATE_FAULT
               else BdmGetBdmStatus (ibdmId item) s))"
proof -
  obtain ok b d where r: "rw_attempts (Suc BDM_IO_RETRY_NUM) os (ifd item) buff len off isRead (env (bio s)) = (ok, b, d)"
    by (cases "rw_attempts (Suc BDM_IO_RETRY_NUM) os (ifd item) buff len off isRead (env (bio s))") auto
  show ?thesis
  proof (cases ok)
    case True
    then have ex: "\<exists>b' d0. BdmDiskInnerReadWriteImpl os (ifd item) b' len off isRead d0 = (len, b, d)"
      using r by (auto dest: rw_attempts_success simp del: rw_attempts.simps)
    from True r assms have "ret = BDM_CODE_OK" "buff' = b" "w' = (bio s)\<lparr>env := d\<rparr>"
      by (simp_all add: BdmDiskInnerReadWrite_def rw_or_fault_def)
    with ex show ?thesis by simp
  next
    case False
    with r assms show ?thesis
      by (auto simp: BdmDiskInnerReadWrite_def rw_or_fault_def BdmSetDiskUsedStatus_def BdmGetBdmStatus_def
          split: prod.splits if_splits)
  qed
qed

theorem transfer_success_or_fault_witness:
  "fst (BdmDiskInnerReadWrite mem_os mem_item [1, 2] 2 0 False (bio (mem_bdm mem_item mem_io))) = BDM_CODE_OK \<or>
   BdmGetBdmStatus 0 ((mem_bdm mem_item mem_io)\<lparr>bio :=
     snd (snd (BdmDiskInnerReadWrite mem_os mem_item [1, 2] 2 0 False (bio (mem_bdm mem_item mem_io))))\<rparr>) = BDM_DISK_STATE_FAULT"
proof -
  obtain r b w where e: "BdmDiskInnerReadWrite mem_os mem_item [1, 2] 2 0 False (bio (mem_bdm mem_item mem_io)) = (r, b, w)"
    by (cases "BdmDiskInnerReadWrite mem_os mem_item [1, 2] 2 0 False (bio (mem_bdm mem_item mem_io))") auto
  have "ibdmId mem_item = 0" "present (bio (mem_bdm mem_item mem_io)) 0"
    by (simp_all add: mem_item_def mem_bdm_def mem_io_def)
  with transfer_success_or_fault [OF e] show ?thesis unfolding e by auto
qed

text \<open>
  A failed reset leaves a dangling allocator: when the device cannot be opened again,
  \<open>BdmDiskReset\<close> returns an error after it has freed the allocator, the slot stays usable, and the
  next allocation on it uses the freed memory.
\<close>

theorem failed_reset_dangles:
  assumes "opsInfo (objs s i) = Some item" "ialloc item = Live a" "0 < iminChunkSize item"
    and "\<And>name d. fst (os_open os name False d) < 0"
  shows "\<exists>s'. BdmDiskReset os i s = Some (BDM_CODE_ERR, s') \<and> used (bio s') = used (bio s) \<and>
    BdmDiskAlloc i b off (iminChunkSize item) s' = None"
proof -
  let ?it = "item\<lparr>ialloc := Dangling\<rparr>"
  obtain it1 d1 where c: "BdmDiskCloseDisk os ?it (env (bio s)) = (it1, d1)"
    by (cases "BdmDiskCloseDisk os ?it (env (bio s))") auto
  have it1: "ialloc it1 = Dangling" "iminChunkSize it1 = iminChunkSize item"
    using CloseDisk_keeps [OF c] by simp_all
  obtain fd d2 where o: "os_open os (iname it1) False d1 = (fd, d2)" by (cases "os_open os (iname it1) False d1") auto
  with assms(4) [of "iname it1" d1] have "fd < 0" by simp
  with o have "BdmReopenDisk os it1 d1 = (BDM_CODE_ERR, it1\<lparr>ifd := fd\<rparr>, d2)" by (simp add: BdmReopenDisk_def)
  with assms c have "BdmDiskReset os i s = Some (BDM_CODE_ERR, put_item i (it1\<lparr>ifd := fd\<rparr>) (set_env d2 s))"
    by (simp add: BdmDiskReset_def BdmDiskDestroyAllocator_def)
  moreover have "BdmDiskAlloc i b off (iminChunkSize item) (put_item i (it1\<lparr>ifd := fd\<rparr>) (set_env d2 s)) = None"
    using it1 assms(3) by (simp add: BdmDiskAlloc_def)
  ultimately show ?thesis by (simp add: set_env_def)
qed

theorem failed_reset_dangles_witness:
  "\<exists>s s'. BdmDiskReset (mem_os\<lparr>os_open := (\<lambda>name direct d. (- 1, d))\<rparr>) 0 s = Some (BDM_CODE_ERR, s') \<and>
     BdmDiskAlloc 0 1 2 4194304 s' = None"
proof -
  obtain D us ps item a s where mm: "mem_mounted D us ps Map.empty item a s"
    using mem_empty by blast
  note m = mem_mountedD(1,5) [OF mm]
  from failed_reset_dangles [OF mountedD(1,2) [OF m(1)], of "mem_os\<lparr>os_open := (\<lambda>name direct d. (- 1, d))\<rparr>" 1 2] m(2)
  show ?thesis by auto
qed

end
