(* ===== verification/BdmCore.thy ===== *)
theory BdmCore
  imports BdmDiskThms
begin

text \<open>
  The interface of the disk layer, \<^verbatim>\<open>disk/common/bdm_core.c\<close>: chunk identifiers that carry the number
  of their device, the checks of the parameters, the dispatch to the device, and starting the
  layer on a list of disks.

  A pointer for a result is given as a flag that says it is not \<open>NULL\<close>; the address of a buffer
  is a number, 0 for \<open>NULL\<close>. As everywhere in the disk layer, \<open>None\<close> is undefined behaviour.
\<close>

unbundle bit_operations_syntax

abbreviation BDM_MAX_CHUNK_LENGTH :: nat where "BDM_MAX_CHUNK_LENGTH \<equiv> 16777216"
abbreviation DISK_DEV_NUM :: nat where "DISK_DEV_NUM \<equiv> 4"

section \<open>Chunk identifiers\<close>

definition CHUNK_ID_TO_BDMID :: "nat \<Rightarrow> nat" where
  "CHUNK_ID_TO_BDMID chunkId = drop_bit 48 chunkId AND 0xFFFF"

definition ENCODE_CHUNK_ID :: "nat \<Rightarrow> nat \<Rightarrow> nat" where
  "ENCODE_CHUNK_ID chunkId bdmId = push_bit 48 (bdmId AND 0xFFFF) OR (chunkId AND 0xFFFFFFFFFFFF)"

definition DENCODE_CHUNK_ID :: "nat \<Rightarrow> nat" where
  "DENCODE_CHUNK_ID chunkId = chunkId AND 0xFFFFFFFFFFFF"

section \<open>Operations on chunks\<close>

definition BdmAlloc ::
  "nat \<Rightarrow> nat \<Rightarrow> nat \<Rightarrow> nat \<Rightarrow> bool \<Rightarrow> 'd bdm \<Rightarrow> (int \<times> nat option \<times> 'd bdm) option" where
  "BdmAlloc bdmId bucketId bucketOffset len out s =
     (if len > BDM_MAX_CHUNK_LENGTH then Some (BDM_CODE_INVALID_PARAM, None, s)
      else if \<not> out then Some (BDM_CODE_ERR, None, s)
      else case BdmGetBdmObj bdmId s of
        None \<Rightarrow> Some (BDM_CODE_NOT_EXIST, None, s)
      | Some bdm \<Rightarrow>
          if \<not> opsSet bdm then Some (BDM_CODE_ERR, None, s)
          else do {
            (ret, chunkId, s') \<leftarrow> BdmDiskAlloc bdmId bucketId bucketOffset len s;
            if ret \<noteq> BDM_CODE_OK then Some (ret, chunkId, s')
            else Some (BDM_CODE_OK, map_option (\<lambda>c. ENCODE_CHUNK_ID c bdmId) chunkId, s') })"

definition BdmFree :: "nat \<Rightarrow> nat \<Rightarrow> nat \<Rightarrow> 'd bdm \<Rightarrow> (int \<times> 'd bdm) option" where
  "BdmFree bdmId len chunkId s =
     (case BdmGetBdmObj bdmId s of
        None \<Rightarrow> Some (BDM_CODE_NOT_EXIST, s)
      | Some bdm \<Rightarrow>
          if \<not> opsSet bdm then Some (BDM_CODE_ERR, s)
          else do {
            (ret, s') \<leftarrow> BdmDiskFree bdmId len (DENCODE_CHUNK_ID chunkId) s;
            if ret \<noteq> BDM_CODE_OK then Some (ret, s') else Some (BDM_CODE_OK, s') })"

text \<open>The check of length and offset that the four transfer functions make; the sum is one of 64 bits.\<close>

definition transfer_invalid :: "nat \<Rightarrow> nat \<Rightarrow> bool" where
  "transfer_invalid offset len \<longleftrightarrow>
     len = 0 \<or> len > BDM_MAX_CHUNK_LENGTH \<or> offset > BDM_MAX_CHUNK_LENGTH \<or> add64 len offset > BDM_MAX_CHUNK_LENGTH"

definition BdmRead ::
  "'d os \<Rightarrow> nat \<Rightarrow> nat \<Rightarrow> nat \<Rightarrow> byte list \<Rightarrow> nat \<Rightarrow> 'd bdm \<Rightarrow> (int \<times> byte list \<times> 'd bdm) option" where
  "BdmRead os chunkId offset buf buff len s =
     (if transfer_invalid offset len then Some (BDM_CODE_INVALID_PARAM, buff, s)
      else if buf = 0 then Some (BDM_CODE_ERR, buff, s)
      else let bdmId = CHUNK_ID_TO_BDMID chunkId in
        case BdmGetBdmObj bdmId s of
          None \<Rightarrow> Some (BDM_CODE_NOT_EXIST, buff, s)
        | Some bdm \<Rightarrow>
            if \<not> opsSet bdm then Some (BDM_CODE_ERR, buff, s)
            else do {
              (ret, buff', s') \<leftarrow> BdmDiskRead os bdmId (DENCODE_CHUNK_ID chunkId) offset buf buff len s;
              if ret \<noteq> BDM_CODE_OK then Some (ret, buff', s') else Some (BDM_CODE_OK, buff', s') })"

definition BdmWrite ::
  "'d os \<Rightarrow> nat \<Rightarrow> nat \<Rightarrow> nat \<Rightarrow> byte list \<Rightarrow> nat \<Rightarrow> 'd bdm \<Rightarrow> (int \<times> byte list \<times> 'd bdm) option" where
  "BdmWrite os chunkId offset buf buff len s =
     (if transfer_invalid offset len then Some (BDM_CODE_INVALID_PARAM, buff, s)
      else if buf = 0 then Some (BDM_CODE_ERR, buff, s)
      else let bdmId = CHUNK_ID_TO_BDMID chunkId in
        case BdmGetBdmObj bdmId s of
          None \<Rightarrow> Some (BDM_CODE_NOT_EXIST, buff, s)
        | Some bdm \<Rightarrow>
            if \<not> opsSet bdm then Some (BDM_CODE_ERR, buff, s)
            else do {
              (ret, buff', s') \<leftarrow> BdmDiskWrite os bdmId (DENCODE_CHUNK_ID chunkId) offset buf buff len s;
              if ret \<noteq> BDM_CODE_OK then Some (ret, buff', s') else Some (BDM_CODE_OK, buff', s') })"

text \<open>\<open>ctx\<close>: the pointer to the context of the request is not \<open>NULL\<close>.\<close>

definition BdmReadAsync ::
  "'d os \<Rightarrow> nat \<Rightarrow> nat \<Rightarrow> nat \<Rightarrow> nat \<Rightarrow> bool \<Rightarrow> 'd bdm \<Rightarrow> (int \<times> 'd bdm) option" where
  "BdmReadAsync os chunkId offset buf len ctx s =
     (if transfer_invalid offset len then Some (BDM_CODE_INVALID_PARAM, s)
      else if buf = 0 \<or> \<not> ctx then Some (BDM_CODE_ERR, s)
      else let bdmId = CHUNK_ID_TO_BDMID chunkId in
        case BdmGetBdmObj bdmId s of
          None \<Rightarrow> Some (BDM_CODE_NOT_EXIST, s)
        | Some bdm \<Rightarrow>
            if \<not> opsSet bdm then Some (BDM_CODE_ERR, s)
            else do {
              (ret, s') \<leftarrow> BdmDiskHandleAIO os True bdmId (DENCODE_CHUNK_ID chunkId) offset len s;
              if ret \<noteq> BDM_CODE_OK then Some (ret, s') else Some (BDM_CODE_OK, s') })"

definition BdmWriteAsync ::
  "'d os \<Rightarrow> nat \<Rightarrow> nat \<Rightarrow> nat \<Rightarrow> nat \<Rightarrow> bool \<Rightarrow> 'd bdm \<Rightarrow> (int \<times> 'd bdm) option" where
  "BdmWriteAsync os chunkId offset buf len ctx s =
     (if transfer_invalid offset len then Some (BDM_CODE_INVALID_PARAM, s)
      else if buf = 0 \<or> \<not> ctx then Some (BDM_CODE_ERR, s)
      else let bdmId = CHUNK_ID_TO_BDMID chunkId in
        case BdmGetBdmObj bdmId s of
          None \<Rightarrow> Some (BDM_CODE_NOT_EXIST, s)
        | Some bdm \<Rightarrow>
            if \<not> opsSet bdm then Some (BDM_CODE_ERR, s)
            else do {
              (ret, s') \<leftarrow> BdmDiskHandleAIO os False bdmId (DENCODE_CHUNK_ID chunkId) offset len s;
              if ret \<noteq> BDM_CODE_OK then Some (ret, s') else Some (BDM_CODE_OK, s') })"

definition BdmGetCapacity :: "nat \<Rightarrow> bool \<Rightarrow> 'd bdm \<Rightarrow> (int \<times> (nat \<times> nat) option) option" where
  "BdmGetCapacity bdmId out s =
     (if \<not> out then Some (BDM_CODE_ERR, None)
      else case BdmGetBdmObj bdmId s of
        None \<Rightarrow> Some (BDM_CODE_NOT_EXIST, None)
      | Some bdm \<Rightarrow>
          if \<not> opsSet bdm then Some (BDM_CODE_ERR, None)
          else do {
            (ret, cap) \<leftarrow> BdmDiskGetCap bdmId s;
            if ret \<noteq> BDM_CODE_OK then Some (ret, cap) else Some (BDM_CODE_OK, cap) })"

definition BdmResetScanPool :: "nat \<Rightarrow> 'd bdm \<Rightarrow> (int \<times> 'd bdm) option" where
  "BdmResetScanPool bdmId s =
     (case BdmGetBdmObj bdmId s of
        None \<Rightarrow> Some (BDM_CODE_NOT_EXIST, s)
      | Some bdm \<Rightarrow>
          if \<not> opsSet bdm then Some (BDM_CODE_ERR, s)
          else do {
            (ret, s') \<leftarrow> BdmDiskAllocatorReset bdmId s;
            if ret \<noteq> BDM_CODE_OK then Some (ret, s') else Some (BDM_CODE_OK, s') })"

definition BdmGetDiskStatus :: "nat \<Rightarrow> 'd bdm \<Rightarrow> disk_state" where
  "BdmGetDiskStatus bdmId s = BdmGetBdmStatus bdmId s"

text \<open>The result has the identifier, the size, the bucket and the offset in the bucket.\<close>

definition BdmGetNextUsedChunkId ::
  "nat \<Rightarrow> bool \<Rightarrow> 'd bdm \<Rightarrow> (int \<times> (nat \<times> nat \<times> nat \<times> nat) option \<times> 'd bdm) option" where
  "BdmGetNextUsedChunkId bdmId out s =
     (if \<not> out then Some (BDM_CODE_ERR, None, s)
      else case BdmGetBdmObj bdmId s of
        None \<Rightarrow> Some (BDM_CODE_NOT_EXIST, None, s)
      | Some bdm \<Rightarrow>
          if \<not> opsSet bdm then Some (BDM_CODE_ERR, None, s)
          else do {
            (ret, res, s') \<leftarrow> BdmDiskGetNextChunk bdmId s;
            if ret = BDM_CODE_SCAN_OFF then Some (ret, res, s')
            else if ret \<noteq> BDM_CODE_OK then Some (ret, res, s')
            else Some (BDM_CODE_OK, map_option (\<lambda>(c, rest). (ENCODE_CHUNK_ID c bdmId, rest)) res, s') })"

section \<open>Starting the disk layer\<close>

text \<open>\<open>cpuRet\<close> is the result of the check of the processor, \<open>poolRet\<close> that of starting the worker threads.\<close>

definition BdmInit :: "int \<Rightarrow> int \<Rightarrow> 'd bdm \<Rightarrow> int \<times> 'd bdm" where
  "BdmInit cpuRet poolRet s =
     (if cpuRet \<noteq> BDM_CODE_OK then (cpuRet, s)
      else if g_bdmInit s then (BDM_CODE_OK, s)
      else case BdmObjInit s of (ret, s1) \<Rightarrow>
        if ret \<noteq> BDM_CODE_OK then (ret, s1)
        else case BdmDiskInit poolRet s1 of (ret, s2) \<Rightarrow>
          if ret \<noteq> BDM_CODE_OK then (ret, s2) else (BDM_CODE_OK, s2\<lparr>g_bdmInit := True\<rparr>))"

text \<open>A number in decimal, as \<open>%u\<close> prints it.\<close>

fun decimal :: "nat \<Rightarrow> string" where
  "decimal n = (if n < 10 then [char_of (n + 48)] else decimal (n div 10) @ [char_of (n mod 10 + 48)])"

declare decimal.simps [simp del]

text \<open>
  \<open>name\<close> is \<open>None\<close> for \<open>NULL\<close>. \<open>strncpy_s\<close> is the function of the C standard's annex K: it fails
  when the destination cannot hold the string and its terminator. The serial number always fits.
\<close>

definition BdmDevicesCreate :: "'d os \<Rightarrow> nat \<Rightarrow> string option \<Rightarrow> nat \<Rightarrow> nat \<Rightarrow> 'd bdm \<Rightarrow> (int \<times> 'd bdm) option" where
  "BdmDevicesCreate os diskId name capacity chunkSize s =
     (case name of
        None \<Rightarrow> Some (BDM_CODE_ERR, s)
      | Some path \<Rightarrow>
          if length path \<ge> BDM_NAME_LEN then Some (BDM_CODE_ERR, s)
          else let para = \<lparr>pname = path, psn = ''bio_file_'' @ decimal diskId, poffset = 0, plength = capacity,
                           pbdmId = diskId, pminChunkSize = chunkSize, pmaxChunkSize = chunkSize\<rparr>
            in do {
              (ret, bdmId, s') \<leftarrow> BdmCreate (BdmDiskCreate os) para s;
              Some (ret, s') })"

record disk_devices =
  dnum :: nat
  diskCaps :: "nat list"
  dpaths :: "string list"

text \<open>
  The loop of \<open>BdmStart\<close> over the disks from \<open>diskId\<close> on; \<open>isDisk\<close> is \<open>IsDiskFile\<close>: the path names a
  block device. The arrays have four elements and reading behind them is undefined. The result is
  the number of failures and the last return code, or the code with which the loop gave up.
\<close>

fun start_loop ::
  "'d os \<Rightarrow> (string \<Rightarrow> bool) \<Rightarrow> disk_devices \<Rightarrow> nat \<Rightarrow> nat list \<Rightarrow> nat \<times> int \<Rightarrow> 'd bdm \<Rightarrow>
     ((int + nat \<times> int) \<times> 'd bdm) option" where
  "start_loop os isDisk dl chunkSize [] acc s = Some (Inr acc, s)"
| "start_loop os isDisk dl chunkSize (diskId # ids) (failCnt, ret) s =
     (if diskId \<ge> length (dpaths dl) \<or> diskId \<ge> length (diskCaps dl) then None
      else if \<not> isDisk (dpaths dl ! diskId) then Some (Inl BDM_CODE_ERR, s)
      else do {
        (ret, s') \<leftarrow> BdmDevicesCreate os diskId (Some (dpaths dl ! diskId)) (diskCaps dl ! diskId) chunkSize s;
        start_loop os isDisk dl chunkSize ids (if ret \<noteq> BDM_CODE_OK then failCnt + 1 else failCnt, ret) s' })"

definition BdmStart ::
  "'d os \<Rightarrow> (string \<Rightarrow> bool) \<Rightarrow> disk_devices option \<Rightarrow> nat \<Rightarrow> 'd bdm \<Rightarrow> (int \<times> 'd bdm) option" where
  "BdmStart os isDisk devices chunkSize s =
     (if chunkSize > BDM_MAX_CHUNK_LENGTH then Some (BDM_CODE_INVALID_PARAM, s)
      else if g_bdmStart s then Some (BDM_CODE_OK, s)
      else case devices of
        None \<Rightarrow> Some (BDM_CODE_ERR, s)
      | Some dl \<Rightarrow>
          if chunkSize < 1024 * 1024 \<or> chunkSize > 16 * 1024 * 1024 then Some (BDM_CODE_ERR, s)
          else do {
            (res, s') \<leftarrow> start_loop os isDisk dl chunkSize [0..<dnum dl] (0, BDM_CODE_OK) s;
            (case res of
               Inl ret \<Rightarrow> Some (ret, s')
             | Inr (failCnt, ret) \<Rightarrow>
                 if dnum dl \<noteq> 0 \<and> failCnt = dnum dl then Some (ret, s')
                 else Some (BDM_CODE_OK, s'\<lparr>g_bdmStart := True, g_bdmCount := dnum dl\<rparr>)) })"

definition BdmUpdate :: "'d os \<Rightarrow> string option \<Rightarrow> nat \<Rightarrow> nat \<Rightarrow> 'd bdm \<Rightarrow> (int \<times> 'd bdm) option" where
  "BdmUpdate os diskPath chunkSize diskCap s = do {
     (ret, s') \<leftarrow> BdmDevicesCreate os (g_bdmCount s) diskPath diskCap chunkSize s;
     if ret \<noteq> BDM_CODE_OK then Some (ret, s')
     else Some (BDM_CODE_OK, s'\<lparr>g_bdmCount := inc32 (g_bdmCount s')\<rparr>) }"

definition BdmGetDiskCount :: "'d bdm \<Rightarrow> nat" where
  "BdmGetDiskCount s = g_bdmCount s"

section \<open>Identifiers and dispatch\<close>

lemma id_masks: "(x :: nat) AND 0xFFFF = take_bit 16 x" "x AND 0xFFFFFFFFFFFF = take_bit 48 x"
  by (simp_all add: take_bit_eq_mask mask_eq_exp_minus_1)

lemma encode_decode:
  assumes "bdmId < 2 ^ 16" "chunkId < 2 ^ 48"
  shows "CHUNK_ID_TO_BDMID (ENCODE_CHUNK_ID chunkId bdmId) = bdmId"
    "DENCODE_CHUNK_ID (ENCODE_CHUNK_ID chunkId bdmId) = chunkId"
proof -
  have b: "take_bit 16 bdmId = bdmId" and c: "take_bit 48 chunkId = chunkId"
    using assms by (simp_all add: take_bit_nat_eq_self)
  have d: "drop_bit 48 chunkId = 0" using assms(2) by (simp add: drop_bit_eq_div)
  show "CHUNK_ID_TO_BDMID (ENCODE_CHUNK_ID chunkId bdmId) = bdmId"
    unfolding CHUNK_ID_TO_BDMID_def ENCODE_CHUNK_ID_def id_masks b c drop_bit_or d
    by (simp add: drop_bit_push_bit b)
  show "DENCODE_CHUNK_ID (ENCODE_CHUNK_ID chunkId bdmId) = chunkId"
    unfolding DENCODE_CHUNK_ID_def ENCODE_CHUNK_ID_def id_masks b c take_bit_or
    by (simp add: take_bit_push_bit c)
qed

text \<open>With both numbers at most 16M the 64-bit sum in the check does not wrap.\<close>

lemma transfer_invalid_iff: "transfer_invalid offset len \<longleftrightarrow> \<not> (0 < len \<and> offset + len \<le> BDM_MAX_CHUNK_LENGTH)"
proof (cases "len \<le> BDM_MAX_CHUNK_LENGTH \<and> offset \<le> BDM_MAX_CHUNK_LENGTH")
  case True
  then have "add64 len offset = len + offset" by (simp add: add64_def)
  with True show ?thesis by (auto simp: transfer_invalid_def)
qed (auto simp: transfer_invalid_def)

text \<open>A device that is registered in its slot and mounted.\<close>

lemma mounted_registered:
  assumes "mounted os data good fdok cap D us ps U i item a s" "i < BDM_MAX_NUM" "us i" "ps i"
  shows "BdmGetBdmObj i s = Some (objs s i)"
  using assms servingD(2) [OF mountedD(4) [OF assms(1)]] by (auto simp: BdmGetBdmObj_def healthy_def)

lemma core_alloc:
  assumes "block_device os data good fdok cap" "mounted os data good fdok cap D us ps U i item a s"
    and "i < BDM_MAX_NUM" "us i" "ps i" "opsSet (objs s i)"
    and "0 < l" "l * iminChunkSize item \<le> BDM_MAX_CHUNK_LENGTH" "b < 2 ^ 64" "off < 2 ^ 64"
    and "k \<in> free_heads a" "l \<le> clen a k"
  obtains c item' a' s' where
    "BdmAlloc i b off (l * iminChunkSize item) True s = Some (BDM_CODE_OK, Some (ENCODE_CHUNK_ID c i), s')"
    "c \<notin> dom U" "c < 2 ^ 48" "iminChunkSize item' = iminChunkSize item" "opsSet (objs s' i)"
    "mounted os data good fdok cap D us ps (U(c \<mapsto> (l, b, off))) i item' a' s'"
proof -
  have "\<exists>k\<in>free_heads a. l \<le> clen a k" using assms(11,12) by blast
  from block_device.mounted_alloc [OF assms(1,2,7,9,10) this] obtain c a' w' where
    1: "BdmDiskAlloc i b off (l * iminChunkSize item) s =
          Some (BDM_CODE_OK, Some c, put_item i (item\<lparr>ialloc := Live a'\<rparr>) (s\<lparr>bio := w'\<rparr>))"
      "c \<in> free_heads a" "l \<le> clen a c"
      "mounted os data good fdok cap D us ps (U(c \<mapsto> (l, b, off))) i (item\<lparr>ialloc := Live a'\<rparr>) a'
             (put_item i (item\<lparr>ialloc := Live a'\<rparr>) (s\<lparr>bio := w'\<rparr>))" by blast
  note sv = servingD [OF mountedD(4) [OF assms(2)]]
  from free_fits [OF sv(3) 1(2,3)] sv(7) have "c \<notin> dom U" "c < 2 ^ 48" by auto
  moreover have "BdmAlloc i b off (l * iminChunkSize item) True s =
      Some (BDM_CODE_OK, Some (ENCODE_CHUNK_ID c i), put_item i (item\<lparr>ialloc := Live a'\<rparr>) (s\<lparr>bio := w'\<rparr>))"
    using 1(1) mounted_registered [OF assms(2-5)] assms(6,8) by (simp add: BdmAlloc_def)
  ultimately show thesis using 1(4) assms(6)
    by (intro that [of c _ "item\<lparr>ialloc := Live a'\<rparr>" a']) (simp_all add: put_item_def)
qed

lemma start_loop_overruns:
  assumes "\<And>p. p \<in> set (dpaths dl) \<Longrightarrow> isDisk p" "\<exists>k\<in>set ids. k \<ge> length (dpaths dl)"
  shows "start_loop os isDisk dl chunkSize ids acc s = None"
  using assms(2)
proof (induction ids arbitrary: acc s)
  case (Cons k ks)
  show ?case
  proof (cases "k < length (dpaths dl)")
    case True
    then have "isDisk (dpaths dl ! k)" by (intro assms(1)) simp
    moreover have "\<exists>k\<in>set ks. k \<ge> length (dpaths dl)" using Cons.prems True by auto
    ultimately show ?thesis using Cons.IH
      by (cases acc; cases "BdmDevicesCreate os k (Some (dpaths dl ! k)) (diskCaps dl ! k) chunkSize s") auto
  qed (cases acc; simp)
qed simp

section \<open>Properties\<close>

text \<open>
  A chunk identifier determines its device and its chunk: for a device number of 16 bits and a
  chunk number of 48 bits, decoding what \<open>ENCODE_CHUNK_ID\<close> made gives both back, so identifiers of
  different devices or chunks differ.
\<close>

theorem chunk_id_roundtrip:
  assumes "bdmId < 2 ^ 16" "chunkId < 2 ^ 48" "bdmId' < 2 ^ 16" "chunkId' < 2 ^ 48"
  shows "CHUNK_ID_TO_BDMID (ENCODE_CHUNK_ID chunkId bdmId) = bdmId \<and>
     DENCODE_CHUNK_ID (ENCODE_CHUNK_ID chunkId bdmId) = chunkId \<and>
     (ENCODE_CHUNK_ID chunkId bdmId = ENCODE_CHUNK_ID chunkId' bdmId' \<longleftrightarrow> chunkId = chunkId' \<and> bdmId = bdmId')"
  using encode_decode [OF assms(1,2)] encode_decode [OF assms(3,4)] by metis

theorem chunk_id_roundtrip_witness:
  "CHUNK_ID_TO_BDMID (ENCODE_CHUNK_ID 77 3) = 3 \<and> ENCODE_CHUNK_ID 77 3 \<noteq> ENCODE_CHUNK_ID 77 2"
  using chunk_id_roundtrip [of 3 77 2 77] by simp

text \<open>
  (C4) From allocation to data: on a registered disk that lies on a working device, \<open>BdmAlloc\<close> of a size of at
  most 16 MB for which there is a free area returns an identifier with which \<open>BdmWrite\<close> of any range
  inside the chunk succeeds and \<open>BdmRead\<close> of that range delivers the bytes written.
\<close>

theorem core_alloc_write_read:
  assumes "block_device os data good fdok cap" "mounted os data good fdok cap D us ps U i item a s"
    and "i < BDM_MAX_NUM" "us i" "ps i" "opsSet (objs s i)"
    and "0 < l" "l * iminChunkSize item \<le> BDM_MAX_CHUNK_LENGTH" "b < 2 ^ 64" "off < 2 ^ 64"
    and "k \<in> free_heads a" "l \<le> clen a k"
    and "0 < len" "offset + len \<le> l * iminChunkSize item" "length bs = len" "length bs0 = len" "buf \<noteq> 0" "buf' \<noteq> 0"
  shows "\<exists>c s1 s2 s3. BdmAlloc i b off (l * iminChunkSize item) True s = Some (BDM_CODE_OK, Some c, s1) \<and>
           BdmWrite os c offset buf bs len s1 = Some (BDM_CODE_OK, bs, s2) \<and>
           BdmRead os c offset buf' bs0 len s2 = Some (BDM_CODE_OK, bs, s3)"
proof -
  from core_alloc [OF assms(1-12)] obtain c item' a' s1 where
    1: "BdmAlloc i b off (l * iminChunkSize item) True s = Some (BDM_CODE_OK, Some (ENCODE_CHUNK_ID c i), s1)"
      "c < 2 ^ 48" "iminChunkSize item' = iminChunkSize item" "opsSet (objs s1 i)"
      "mounted os data good fdok cap D us ps (U(c \<mapsto> (l, b, off))) i item' a' s1" .
  have rng: "offset + len \<le> l * iminChunkSize item'" using assms(14) 1(3) by simp
  from block_device.transfer_write [OF assms(1) 1(5) _ rng assms(15), of c b off buf] obtain d n where
    2: "BdmDiskWrite os i c offset buf bs len s1 = Some (BDM_CODE_OK, bs, s1\<lparr>bio := (bio s1)\<lparr>env := d\<rparr>, submitIndex := n\<rparr>)"
      "good d" "data d = write_at (chunk_pos item' c offset) bs (data (env (bio s1)))" by auto
  let ?s2 = "s1\<lparr>bio := (bio s1)\<lparr>env := d\<rparr>, submitIndex := n\<rparr>"
  have m2: "mounted os data good fdok cap (write_at (chunk_pos item' c offset) bs D) us ps (U(c \<mapsto> (l, b, off))) i item' a' ?s2"
    by (rule block_device.mounted_write [OF assms(1) 1(5) _ rng assms(15) 2(2,3)]) simp
  from block_device.transfer_read [OF assms(1) m2 _ rng assms(16), of c b off buf'] write_at_read [of _ bs] 2(3) assms(15)
  obtain s3 where 3: "BdmDiskRead os i c offset buf' bs0 len ?s2 = Some (BDM_CODE_OK, bs, s3)" by auto
  have id: "CHUNK_ID_TO_BDMID (ENCODE_CHUNK_ID c i) = i" "DENCODE_CHUNK_ID (ENCODE_CHUNK_ID c i) = c"
    using encode_decode [of i c] assms(3) 1(2) by simp_all
  have v: "\<not> transfer_invalid offset len" using assms(8,13,14) by (simp add: transfer_invalid_iff)
  have "BdmWrite os (ENCODE_CHUNK_ID c i) offset buf bs len s1 = Some (BDM_CODE_OK, bs, ?s2)"
    using 2(1) v assms(17) mounted_registered [OF 1(5) assms(3-5)] 1(4) by (simp add: BdmWrite_def id)
  moreover have "BdmRead os (ENCODE_CHUNK_ID c i) offset buf' bs0 len ?s2 = Some (BDM_CODE_OK, bs, s3)"
    using 3 v assms(18) mounted_registered [OF m2 assms(3-5)] 1(4) by (simp add: BdmRead_def id)
  ultimately show ?thesis using 1(1) by blast
qed

theorem core_alloc_write_read_witness:
  "\<exists>s c s1 s2 s3. BdmAlloc 0 5 6 (1 * 4194304) True s = Some (BDM_CODE_OK, Some c, s1) \<and>
     BdmWrite mem_os c 100 4096 [1, 2, 3] 3 s1 = Some (BDM_CODE_OK, [1, 2, 3], s2) \<and>
     BdmRead mem_os c 100 5 [0, 0, 0] 3 s2 = Some (BDM_CODE_OK, [1, 2, 3], s3)"
proof -
  obtain D item a s where mm: "mem_mounted D (used mem_io) (present mem_io) Map.empty item a s" and o: "opsSet (objs s 0)"
    using mem_formatted by blast
  note m = mem_mountedD [OF mm]
  have "used_units Map.empty (chunkNum a) < chunkNum a" using m(6) by (simp add: used_units_def)
  then obtain k where k: "k \<in> free_heads a" "1 \<le> clen a k" using space_left [OF mountedD(4) [OF m(1)]] by blast
  have sl: "used mem_io 0" "present mem_io 0" by (simp_all add: mem_io_def)
  have "\<exists>c s1 s2 s3. BdmAlloc 0 5 6 (1 * iminChunkSize item) True s = Some (BDM_CODE_OK, Some c, s1) \<and>
     BdmWrite mem_os c 100 4096 [1, 2, 3] 3 s1 = Some (BDM_CODE_OK, [1, 2, 3], s2) \<and>
     BdmRead mem_os c 100 5 [0, 0, 0] 3 s2 = Some (BDM_CODE_OK, [1, 2, 3], s3)"
    using m(5) by (intro core_alloc_write_read [OF mem_dev.block_device_axioms m(1) _ sl o zero_less_one _ _ _ k]) simp_all
  then show ?thesis unfolding m(5) by blast
qed

text \<open>
  Invalid requests: the four transfer functions refuse a length of 0 and every range that goes
  beyond 16 MB, computed without wrap-around, before they look at anything else, and refuse an
  identifier whose device is not registered; nothing changes in either case.
\<close>

theorem core_refuses:
  "(\<not> (0 < len \<and> offset + len \<le> BDM_MAX_CHUNK_LENGTH) \<longrightarrow>
      BdmRead os c offset buf bs len s = Some (BDM_CODE_INVALID_PARAM, bs, s) \<and>
      BdmWrite os c offset buf bs len s = Some (BDM_CODE_INVALID_PARAM, bs, s) \<and>
      BdmReadAsync os c offset buf len ctx s = Some (BDM_CODE_INVALID_PARAM, s) \<and>
      BdmWriteAsync os c offset buf len ctx s = Some (BDM_CODE_INVALID_PARAM, s)) \<and>
   (0 < len \<and> offset + len \<le> BDM_MAX_CHUNK_LENGTH \<and> buf \<noteq> 0 \<and> ctx \<and> BdmGetBdmObj (CHUNK_ID_TO_BDMID c) s = None \<longrightarrow>
      BdmRead os c offset buf bs len s = Some (BDM_CODE_NOT_EXIST, bs, s) \<and>
      BdmWrite os c offset buf bs len s = Some (BDM_CODE_NOT_EXIST, bs, s) \<and>
      BdmReadAsync os c offset buf len ctx s = Some (BDM_CODE_NOT_EXIST, s) \<and>
      BdmWriteAsync os c offset buf len ctx s = Some (BDM_CODE_NOT_EXIST, s))"
  by (auto simp: BdmRead_def BdmWrite_def BdmReadAsync_def BdmWriteAsync_def transfer_invalid_iff)

theorem core_refuses_witness:
  "BdmRead mem_os 5 0 4096 [] 0 (mem_bdm mem_item mem_io) = Some (BDM_CODE_INVALID_PARAM, [], mem_bdm mem_item mem_io) \<and>
   BdmWrite mem_os 5 16777216 4096 [1] 1 (mem_bdm mem_item mem_io) = Some (BDM_CODE_INVALID_PARAM, [1], mem_bdm mem_item mem_io)"
  using core_refuses [of 0 0 mem_os 5 4096 "[]" "mem_bdm mem_item mem_io"]
    core_refuses [of 1 16777216 mem_os 5 4096 "[1]" "mem_bdm mem_item mem_io"] by simp

text \<open>
  \<open>BdmStart\<close> does not check the number of disks against its arrays: for more disks than the four
  the arrays hold it reads behind them, unless an earlier path is not a block device.
\<close>

theorem start_overruns:
  assumes "length (dpaths dl) = DISK_DEV_NUM" "DISK_DEV_NUM < dnum dl"
    and "\<And>p. p \<in> set (dpaths dl) \<Longrightarrow> isDisk p" "\<not> g_bdmStart s"
    and "1024 * 1024 \<le> chunkSize" "chunkSize \<le> BDM_MAX_CHUNK_LENGTH"
  shows "BdmStart os isDisk (Some dl) chunkSize s = None"
proof -
  have "\<exists>k\<in>set [0..<dnum dl]. k \<ge> length (dpaths dl)"
    using assms(1,2) by (intro bexI [of _ DISK_DEV_NUM]) simp_all
  with assms(3) have "start_loop os isDisk dl chunkSize [0..<dnum dl] (0, BDM_CODE_OK) s = None"
    by (rule start_loop_overruns)
  with assms(4-6) show ?thesis by (simp add: BdmStart_def)
qed

theorem start_overruns_witness:
  "BdmStart mem_os (\<lambda>_. True) (Some \<lparr>dnum = 5, diskCaps = [0, 0, 0, 0], dpaths = [''a'', ''b'', ''c'', ''d'']\<rparr>)
     2097152 (mem_bdm mem_item mem_io\<lparr>g_bdmStart := False\<rparr>) = None"
  by (rule start_overruns) simp_all

end
