(* ===== verification/BdmThreadPool.thy ===== *)
theory BdmThreadPool
  imports BdmObj
begin

text \<open>
  The worker threads of the disk layer, \<^verbatim>\<open>disk/x86/bdm_threadpool_x86.c\<close> and
  \<^verbatim>\<open>disk/common/bdm_threadpool_common.c\<close>: a ring of tasks with one worker that takes them in
  batches. Any number of threads add tasks while one thread may destroy the worker.

  The functions on the ring are executed under \<open>queueMutex\<close>. How the threads interleave is the
  relation \<open>step\<close>: one step is what a thread does between two points where another one can act.
\<close>

abbreviation BDM_BATCH_HANDLE_NUM :: nat where "BDM_BATCH_HANDLE_NUM \<equiv> 16"
abbreviation BDM_THREAD_MAX_THREADS :: nat where "BDM_THREAD_MAX_THREADS \<equiv> 256"
abbreviation BDM_THREAD_MAX_QUEUE_SIZE :: nat where "BDM_THREAD_MAX_QUEUE_SIZE \<equiv> 32768"

datatype exit_flag = BDM_THREAD_RUNNING | BDM_THREAD_EXIT_DELAY | BDM_THREAD_EXIT_IMMEDIATELY

text \<open>An element of the ring is a task, \<open>'t\<close>: a handle and its argument. \<open>queue\<close> is \<open>None\<close> for \<open>NULL\<close>.\<close>

record 't thread =
  init :: bool
  exit :: exit_flag
  tname :: string
  tcpuid :: int
  queueSize :: nat
  queueHead :: nat
  queueTail :: nat
  queue :: "'t list option"
  enqueueCnt :: nat
  totalInvokeCnt :: nat
  queueFullCnt :: nat

section \<open>Operations on the ring\<close>

text \<open>The array is there as long as the thread has not been destroyed; writing to it afterwards is undefined.\<close>

definition BdmThreadPoolEnqueue :: "'t \<Rightarrow> 't thread \<Rightarrow> (int \<times> 't thread) option" where
  "BdmThreadPoolEnqueue task th =
     (if (queueTail th + 1) mod queueSize th = queueHead th then Some (BDM_CODE_ERR, th)
      else do {
        q \<leftarrow> queue th;
        Some (BDM_CODE_OK, th\<lparr>queueTail := (queueTail th + 1) mod queueSize th,
          queue := Some (q[queueTail th := task]), enqueueCnt := inc32 (enqueueCnt th)\<rparr>) })"

text \<open>The inner loop of \<open>BdmThreadBatchThread\<close>; the number is what the batch has room for.\<close>

fun take_batch :: "nat \<Rightarrow> 't list \<Rightarrow> 't thread \<Rightarrow> ('t list \<times> 't thread) option" where
  "take_batch 0 argList th = Some (argList, th)"
| "take_batch (Suc room) argList th =
     (if queueHead th = queueTail th then Some (argList, th)
      else do {
        q \<leftarrow> queue th;
        take_batch room (argList @ [q ! queueHead th])
          (th\<lparr>queueHead := (queueHead th + 1) mod queueSize th, totalInvokeCnt := inc32 (totalInvokeCnt th)\<rparr>) })"

definition BdmThreadParaCheck :: "nat \<Rightarrow> nat \<Rightarrow> int" where
  "BdmThreadParaCheck threadNum qsize =
     (if threadNum = 0 \<or> threadNum > BDM_THREAD_MAX_THREADS then BDM_CODE_ERR
      else if qsize = 0 \<or> qsize > BDM_THREAD_MAX_QUEUE_SIZE then BDM_CODE_ERR
      else BDM_CODE_OK)"

definition BdmThreadFreeRes :: "'t thread \<Rightarrow> 't thread" where
  "BdmThreadFreeRes th = th\<lparr>queue := None\<rparr>"

text \<open>
  \<open>zero\<close> is an element with all bytes 0, \<open>mallocOk\<close> and \<open>createRet\<close> the outcomes of \<open>malloc\<close> and
  \<open>pthread_create\<close>; \<open>poolName\<close> and \<open>batchCtx\<close> are \<open>None\<close> and false for \<open>NULL\<close>.
\<close>

definition BdmThreadCreate ::
  "'t \<Rightarrow> bool \<Rightarrow> int \<Rightarrow> nat \<Rightarrow> int \<Rightarrow> string option \<Rightarrow> bool \<Rightarrow> 't thread \<Rightarrow> int \<times> 't thread" where
  "BdmThreadCreate zero mallocOk createRet qsize cpuid poolName batchCtx th =
     (case poolName of
        None \<Rightarrow> (BDM_CODE_ERR, th)
      | Some name \<Rightarrow>
          if \<not> batchCtx then (BDM_CODE_ERR, th)
          else let th1 = th\<lparr>queueSize := qsize, tname := take 63 name, tcpuid := cpuid,
                            exit := BDM_THREAD_RUNNING, queueHead := 0, queueTail := 0\<rparr>
            in if \<not> mallocOk then (BDM_CODE_ERR, BdmThreadFreeRes (th1\<lparr>queue := None\<rparr>))
               else let th2 = th1\<lparr>queue := Some (replicate qsize zero)\<rparr>
                 in if createRet \<noteq> 0 then (BDM_CODE_ERR, BdmThreadFreeRes th2)
                    else (BDM_CODE_OK, th2\<lparr>init := True\<rparr>))"

text \<open>What \<open>BdmThreadDestroy\<close> writes before it wakes the worker and waits for its end.\<close>

definition set_exit :: "int \<Rightarrow> 't thread \<Rightarrow> 't thread" where
  "set_exit flags th = th\<lparr>exit := (if flags = 0 then BDM_THREAD_EXIT_DELAY else BDM_THREAD_EXIT_IMMEDIATELY)\<rparr>"

section \<open>The pool\<close>

record 't pool =
  pindex :: nat
  threadNum :: nat
  threadList :: "nat \<Rightarrow> 't thread"

text \<open>The pool is cleared when it is allocated.\<close>

definition zero_thread :: "'t thread" where
  "zero_thread = \<lparr>init = False, exit = BDM_THREAD_RUNNING, tname = [], tcpuid = 0, queueSize = 0, queueHead = 0,
     queueTail = 0, queue = None, enqueueCnt = 0, totalInvokeCnt = 0, queueFullCnt = 0\<rparr>"

text \<open>
  \<open>BdmThreadPoolDestroy\<close>: the threads that were started are told to end and, once they have
  ended, their resources are freed; then the pool is freed.
\<close>

definition BdmThreadPoolDestroy :: "int \<Rightarrow> 't pool option \<Rightarrow> int \<times> 't pool option" where
  "BdmThreadPoolDestroy flags p =
     (case p of
        None \<Rightarrow> (BDM_CODE_ERR, None)
      | Some pool \<Rightarrow>
          (BDM_CODE_OK, Some (pool\<lparr>threadList :=
             (\<lambda>i. if i < threadNum pool \<and> init (threadList pool i)
                  then BdmThreadFreeRes (set_exit flags (threadList pool i)) else threadList pool i)\<rparr>)))"

text \<open>
  The loop of \<open>BdmThreadPoolCreate\<close>. \<open>outcome\<close> gives, per thread, the results of \<open>malloc\<close> and
  \<open>pthread_create\<close>; \<open>binds\<close> the number of processors and their list, \<open>None\<close> for \<open>NULL\<close>.
\<close>

fun create_threads ::
  "'t \<Rightarrow> (nat \<Rightarrow> bool \<times> int) \<Rightarrow> nat \<Rightarrow> (nat \<times> (nat \<Rightarrow> int)) option \<Rightarrow> string option \<Rightarrow> bool \<Rightarrow> int \<Rightarrow> nat list \<Rightarrow>
     't pool \<Rightarrow> 't pool option" where
  "create_threads zero outcome qsize binds poolName batchCtx cpuid [] pool = Some pool"
| "create_threads zero outcome qsize binds poolName batchCtx cpuid (i # is) pool =
     (let cpuid' = (case binds of None \<Rightarrow> cpuid | Some (cpunum, cpus) \<Rightarrow> cpus (i mod cpunum)) in
      case BdmThreadCreate zero (fst (outcome i)) (snd (outcome i)) qsize cpuid' poolName batchCtx (threadList pool i) of
        (ret, th) \<Rightarrow>
          let pool' = pool\<lparr>threadList := (threadList pool)(i := th)\<rparr> in
          if ret \<noteq> 0 then (case BdmThreadPoolDestroy 0 (Some pool') of _ \<Rightarrow> None)
          else create_threads zero outcome qsize binds poolName batchCtx cpuid' is pool')"

definition BdmThreadPoolCreate ::
  "'t \<Rightarrow> bool \<Rightarrow> (nat \<Rightarrow> bool \<times> int) \<Rightarrow> nat \<Rightarrow> nat \<Rightarrow> (nat \<times> (nat \<Rightarrow> int)) option \<Rightarrow> string option \<Rightarrow> bool \<Rightarrow>
     't pool option" where
  "BdmThreadPoolCreate zero mallocOk outcome num qsize binds poolName batchCtx =
     (if BdmThreadParaCheck num qsize \<noteq> 0 then None
      else if \<not> mallocOk then None
      else create_threads zero outcome qsize binds poolName batchCtx (- 1) [0..<num]
             \<lparr>pindex = 0, threadNum = num, threadList = (\<lambda>_. zero_thread)\<rparr>)"

text \<open>
  \<open>BdmThreadPoolAdd\<close> selects the next thread and repeats \<open>BdmThreadPoolEnqueue\<close>, counting the
  failures, until the task is accepted. \<open>rounds\<close> is how often it tries before it is stopped: other
  threads do not act in between here, the relation below has the interleavings.
\<close>

fun add_rounds :: "nat \<Rightarrow> 't \<Rightarrow> 't thread \<Rightarrow> (bool \<times> 't thread) option" where
  "add_rounds 0 task th = Some (False, th)"
| "add_rounds (Suc n) task th = do {
     (ret, th') \<leftarrow> BdmThreadPoolEnqueue task th;
     if ret = BDM_CODE_OK then Some (True, th')
     else add_rounds n task (th'\<lparr>queueFullCnt := inc32 (queueFullCnt th')\<rparr>) }"

definition BdmThreadPoolAdd :: "nat \<Rightarrow> 't \<Rightarrow> 't pool option \<Rightarrow> (bool \<times> 't pool option) option" where
  "BdmThreadPoolAdd rounds task p =
     (case p of
        None \<Rightarrow> Some (False, None)
      | Some pool \<Rightarrow>
          let idx = inc32 (pindex pool); i = idx mod threadNum pool in do {
            (ok, th) \<leftarrow> add_rounds rounds task (threadList pool i);
            Some (ok, Some (pool\<lparr>pindex := idx, threadList := (threadList pool)(i := th)\<rparr>)) })"

section \<open>Interleavings\<close>

text \<open>
  Where the worker is: before locking; holding the mutex at the head of the waiting loop; holding it
  after the loop's condition was found true; in \<open>pthread_cond_wait\<close>; woken and acquiring the mutex
  again; in the handler with a batch; returned. The destroying thread has not started, has set
  \<open>exit\<close>, waits in \<open>pthread_join\<close>, or is done and has freed the ring.
\<close>

datatype 't worker_at = Unlocked | Looping | Sleepy | Waiting | Woken | Handling "'t list" | Returned

datatype destroyer_at = Idle | Flagged | Joining | Destroyed

text \<open>\<open>added\<close> and \<open>handled\<close> record the tasks accepted and the tasks passed to the handler so far.\<close>

record 't pool_state =
  thr :: "'t thread"
  worker :: "'t worker_at"
  destroyer :: destroyer_at
  added :: "'t list"
  handled :: "'t list"

text \<open>\<open>queueMutex\<close> can be taken by another thread.\<close>

fun unlocked :: "'t worker_at \<Rightarrow> bool" where
  "unlocked Looping = False"
| "unlocked Sleepy = False"
| "unlocked _ = True"

text \<open>\<open>pthread_cond_signal\<close> and \<open>pthread_cond_broadcast\<close>: they wake a thread that waits, and nothing else.\<close>

fun signal :: "'t worker_at \<Rightarrow> 't worker_at" where
  "signal Waiting = Woken"
| "signal w = w"

inductive step :: "'t pool_state \<Rightarrow> 't pool_state \<Rightarrow> bool" where
  add: "\<lbrakk>unlocked (worker s); BdmThreadPoolEnqueue task (thr s) = Some (BDM_CODE_OK, th)\<rbrakk> \<Longrightarrow>
     step s (s\<lparr>thr := th, worker := signal (worker s), added := added s @ [task]\<rparr>)"
| add_full: "\<lbrakk>unlocked (worker s); BdmThreadPoolEnqueue task (thr s) = Some (ret, th); ret \<noteq> BDM_CODE_OK\<rbrakk> \<Longrightarrow>
     step s (s\<lparr>thr := th\<lparr>queueFullCnt := inc32 (queueFullCnt th)\<rparr>\<rparr>)"
| lock: "worker s = Unlocked \<Longrightarrow> step s (s\<lparr>worker := Looping\<rparr>)"
| relock: "worker s = Woken \<Longrightarrow> step s (s\<lparr>worker := Looping\<rparr>)"
| spurious: "worker s = Waiting \<Longrightarrow> step s (s\<lparr>worker := Woken\<rparr>)"
| found_empty: "\<lbrakk>worker s = Looping; exit (thr s) = BDM_THREAD_RUNNING; queueHead (thr s) = queueTail (thr s)\<rbrakk> \<Longrightarrow>
     step s (s\<lparr>worker := Sleepy\<rparr>)"
| sleep: "worker s = Sleepy \<Longrightarrow> step s (s\<lparr>worker := Waiting\<rparr>)"
| return: "\<lbrakk>worker s = Looping;
      exit (thr s) = BDM_THREAD_EXIT_IMMEDIATELY \<or>
      exit (thr s) = BDM_THREAD_EXIT_DELAY \<and> queueHead (thr s) = queueTail (thr s)\<rbrakk> \<Longrightarrow>
     step s (s\<lparr>worker := Returned\<rparr>)"
| take: "\<lbrakk>worker s = Looping; exit (thr s) \<noteq> BDM_THREAD_EXIT_IMMEDIATELY; queueHead (thr s) \<noteq> queueTail (thr s);
      take_batch BDM_BATCH_HANDLE_NUM [] (thr s) = Some (batch, th)\<rbrakk> \<Longrightarrow>
     step s (s\<lparr>thr := th, worker := Handling batch\<rparr>)"
| handle: "worker s = Handling batch \<Longrightarrow>
     step s (s\<lparr>worker := Unlocked, handled := handled s @ batch\<rparr>)"
| set_exit: "destroyer s = Idle \<Longrightarrow> step s (s\<lparr>thr := set_exit flags (thr s), destroyer := Flagged\<rparr>)"
| broadcast: "destroyer s = Flagged \<Longrightarrow> step s (s\<lparr>worker := signal (worker s), destroyer := Joining\<rparr>)"
| join: "\<lbrakk>destroyer s = Joining; worker s = Returned\<rbrakk> \<Longrightarrow>
     step s (s\<lparr>thr := BdmThreadFreeRes (thr s), destroyer := Destroyed\<rparr>)"

inductive reachable :: "'t pool_state \<Rightarrow> 't pool_state \<Rightarrow> bool" where
  start: "reachable s s"
| next_step: "\<lbrakk>reachable s s'; step s' s''\<rbrakk> \<Longrightarrow> reachable s s''"

definition started :: "'t thread \<Rightarrow> 't pool_state" where
  "started th = \<lparr>thr = th, worker = Unlocked, destroyer = Idle, added = [], handled = []\<rparr>"

section \<open>The ring is a bounded queue\<close>

definition ring_ok :: "'t thread \<Rightarrow> bool" where
  "ring_ok th \<longleftrightarrow> 0 < queueSize th \<and> queueHead th < queueSize th \<and> queueTail th < queueSize th \<and>
     (\<exists>q. queue th = Some q \<and> length q = queueSize th)"

definition count :: "'t thread \<Rightarrow> nat" where
  "count th = (queueTail th + queueSize th - queueHead th) mod queueSize th"

definition contents :: "'t thread \<Rightarrow> 't list" where
  "contents th = map (\<lambda>i. the (queue th) ! ((queueHead th + i) mod queueSize th)) [0..<count th]"

text \<open>
  What the users of a queue rely on: a task is accepted exactly when there is room and then comes
  last, and the first task is taken.
\<close>

locale bounded_queue =
  fixes items :: "'q \<Rightarrow> 't list"
    and ok :: "'q \<Rightarrow> bool"
    and room :: "'q \<Rightarrow> nat"
    and enq :: "'t \<Rightarrow> 'q \<Rightarrow> (int \<times> 'q) option"
    and deq :: "nat \<Rightarrow> 't list \<Rightarrow> 'q \<Rightarrow> ('t list \<times> 'q) option"
  assumes enq_law: "ok q \<Longrightarrow> length (items q) < room q \<Longrightarrow>
      \<exists>q'. enq x q = Some (0, q') \<and> ok q' \<and> items q' = items q @ [x] \<and> room q' = room q"
    and full_law: "ok q \<Longrightarrow> \<not> length (items q) < room q \<Longrightarrow> enq x q = Some (- 1, q)"
    and deq_stop: "ok q \<Longrightarrow> n = 0 \<or> items q = [] \<Longrightarrow> deq n xs q = Some (xs, q)"
    and deq_law: "ok q \<Longrightarrow> items q = x # ys \<Longrightarrow>
      \<exists>q'. deq (Suc n) xs q = deq n (xs @ [x]) q' \<and> ok q' \<and> items q' = ys \<and> room q' = room q"
begin

lemma enq_cases:
  assumes "ok q" "enq x q = Some (ret, q')"
  shows "(ret = 0 \<and> length (items q) < room q \<and> ok q' \<and> items q' = items q @ [x] \<and> room q' = room q) \<or> (ret = - 1 \<and> q' = q)"
  using enq_law [OF assms(1), of x] full_law [OF assms(1), of x] assms(2) by fastforce

lemma deq_batch:
  assumes "ok q"
  shows "\<exists>q'. deq n xs q = Some (xs @ take n (items q), q') \<and> ok q' \<and> items q' = drop n (items q) \<and> room q' = room q"
  using assms
proof (induction n arbitrary: xs q)
  case 0
  then show ?case using deq_stop by simp
next
  case (Suc n)
  show ?case
  proof (cases "items q")
    case Nil
    then show ?thesis using deq_stop [OF Suc.prems] Suc.prems by simp
  next
    case (Cons y ys)
    from deq_law [OF Suc.prems Cons, of n xs] obtain q1 where
      1: "deq (Suc n) xs q = deq n (xs @ [y]) q1" "ok q1" "items q1 = ys" "room q1 = room q" by blast
    from Suc.IH [OF 1(2), of "xs @ [y]"] 1 Cons show ?thesis by auto
  qed
qed

end

lemma count_less: "0 < queueSize th \<Longrightarrow> count th < queueSize th"
  by (simp add: count_def)

lemma count_zero: "ring_ok th \<Longrightarrow> count th = 0 \<longleftrightarrow> queueHead th = queueTail th"
proof -
  assume ok: "ring_ok th"
  let ?n = "queueSize th" and ?h = "queueHead th" and ?t = "queueTail th"
  have b: "?h < ?n" "?t < ?n" using ok by (auto simp: ring_ok_def)
  show ?thesis
  proof (cases "?h \<le> ?t")
    case True
    then have "?t + ?n - ?h = (?t - ?h) + ?n" by simp
    then have "count th = ((?t - ?h) + ?n) mod ?n" by (simp only: count_def)
    then have "count th = ?t - ?h" using b by simp
    with True show ?thesis by auto
  next
    case False
    then have "count th = ?t + ?n - ?h" using b by (simp add: count_def)
    with False b show ?thesis by auto
  qed
qed

lemma tail_position:
  assumes "ring_ok th"
  shows "(queueHead th + count th) mod queueSize th = queueTail th"
proof -
  have "queueHead th + (queueTail th + queueSize th - queueHead th) = queueTail th + queueSize th"
    using assms by (auto simp: ring_ok_def)
  then show ?thesis using assms unfolding count_def ring_ok_def
    by (metis mod_add_right_eq mod_add_self2 mod_less)
qed

lemma slots_differ:
  assumes "ring_ok th" "i < j" "j < queueSize th"
  shows "(queueHead th + i) mod queueSize th \<noteq> (queueHead th + j) mod queueSize th"
proof
  assume "(queueHead th + i) mod queueSize th = (queueHead th + j) mod queueSize th"
  then have "queueSize th dvd (queueHead th + j) - (queueHead th + i)"
    using assms(2) by (intro mod_eq_dvd_iff_nat [THEN iffD1]) auto
  then have "queueSize th dvd j - i" by simp
  with assms show False by (auto dest: dvd_imp_le)
qed

text \<open>One more element: the tail moves on.\<close>

lemma count_tail:
  assumes "ring_ok th" "t' = (queueTail th + 1) mod queueSize th" "Suc (count th) < queueSize th"
  shows "(t' + queueSize th - queueHead th) mod queueSize th = Suc (count th)"
proof -
  let ?n = "queueSize th" and ?h = "queueHead th"
  have h: "?h < ?n" using assms(1) by (simp add: ring_ok_def)
  have "t' = (?h + Suc (count th)) mod ?n"
    using tail_position [OF assms(1)] assms(2) by (metis add_Suc_right mod_Suc_eq Suc_eq_plus1)
  then have "(t' + ?n - ?h) mod ?n = ((?h + Suc (count th)) + (?n - ?h)) mod ?n"
    using h by (metis Nat.add_diff_assoc less_imp_le_nat mod_add_left_eq)
  also have "(?h + Suc (count th)) + (?n - ?h) = Suc (count th) + ?n" using h by simp
  finally show ?thesis using assms(3) by (simp only: mod_add_self2 mod_less)
qed

lemma full_iff:
  assumes "ring_ok th"
  shows "(queueTail th + 1) mod queueSize th = queueHead th \<longleftrightarrow> \<not> count th < queueSize th - 1"
proof -
  let ?n = "queueSize th" and ?h = "queueHead th"
  have b: "?h < ?n" "0 < ?n" using assms by (auto simp: ring_ok_def)
  have e: "(queueTail th + 1) mod ?n = (?h + Suc (count th)) mod ?n"
    using tail_position [OF assms] by (metis add_Suc_right mod_Suc_eq Suc_eq_plus1)
  show ?thesis
  proof (cases "Suc (count th) < ?n")
    case True
    then have "(?h + 0) mod ?n \<noteq> (?h + Suc (count th)) mod ?n" using slots_differ [OF assms, of 0] by blast
    with e b True show ?thesis by auto
  next
    case False
    then have "Suc (count th) = ?n" using count_less [of th] b by simp
    then have "(?h + Suc (count th)) mod ?n = ?h" using b by simp
    with e False show ?thesis by auto
  qed
qed

lemma count_unique:
  assumes "h < n" "k < n" "(h + k) mod n = (t :: nat)"
  shows "(t + n - h) mod n = k"
proof -
  have "(t + n - h) mod n = ((h + k) + (n - h)) mod n"
    using assms(1,3) by (metis Nat.add_diff_assoc less_imp_le_nat mod_add_left_eq)
  also have "(h + k) + (n - h) = k + n" using assms(1) by simp
  finally show ?thesis using assms(2) by (simp only: mod_add_self2 mod_less)
qed

lemma enqueue_ok:
  assumes "ring_ok th" "count th < queueSize th - 1"
  shows "\<exists>th'. BdmThreadPoolEnqueue x th = Some (0, th') \<and> ring_ok th' \<and> contents th' = contents th @ [x] \<and>
           queueSize th' = queueSize th \<and> exit th' = exit th"
proof -
  let ?n = "queueSize th" and ?h = "queueHead th" and ?t = "queueTail th"
  obtain q where q: "queue th = Some q" "length q = ?n" using assms(1) by (auto simp: ring_ok_def)
  have b: "?h < ?n" "?t < ?n" using assms(1) by (auto simp: ring_ok_def)
  let ?th = "th\<lparr>queueTail := (?t + 1) mod ?n, queue := Some (q[?t := x]), enqueueCnt := inc32 (enqueueCnt th)\<rparr>"
  have c: "count ?th = Suc (count th)"
    unfolding count_def [of ?th] using count_tail [OF assms(1) refl] assms(2) by simp
  have tp: "(?h + count th) mod ?n = ?t" by (rule tail_position [OF assms(1)])
  have "q[?t := x] ! ((?h + i) mod ?n) = q ! ((?h + i) mod ?n)" if "i < count th" for i
    using slots_differ [OF assms(1) that] count_less [of th] b tp by auto
  then have "contents ?th = contents th @ [x]"
    unfolding contents_def c using tp q b by simp
  moreover have "ring_ok ?th" using b q by (auto simp: ring_ok_def)
  moreover have "(?t + 1) mod ?n \<noteq> ?h" using full_iff [OF assms(1)] assms(2) by simp
  ultimately show ?thesis using q by (intro exI [of _ ?th]) (simp add: BdmThreadPoolEnqueue_def)
qed

lemma take_one:
  assumes "ring_ok th" "contents th = x # ys"
  shows "\<exists>th'. take_batch (Suc n) xs th = take_batch n (xs @ [x]) th' \<and> ring_ok th' \<and> contents th' = ys \<and>
           queueSize th' = queueSize th \<and> exit th' = exit th"
proof -
  let ?n = "queueSize th" and ?h = "queueHead th" and ?t = "queueTail th"
  obtain q where q: "queue th = Some q" "length q = ?n" using assms(1) by (auto simp: ring_ok_def)
  have b: "?h < ?n" "?t < ?n" "0 < ?n" using assms(1) by (auto simp: ring_ok_def)
  obtain k where k: "count th = Suc k" using assms(2) by (cases "count th") (auto simp: contents_def)
  have "contents th = map (\<lambda>i. q ! ((?h + i) mod ?n)) (0 # map Suc [0..<k])"
    by (simp add: contents_def k q(1) upt_conv_Cons map_Suc_upt del: upt_Suc)
  then have cs: "x = q ! ?h" "ys = map (\<lambda>i. q ! ((?h + Suc i) mod ?n)) [0..<k]"
    using assms(2) b by (simp_all add: comp_def)
  let ?th = "th\<lparr>queueHead := (?h + 1) mod ?n, totalInvokeCnt := inc32 (totalInvokeCnt th)\<rparr>"
  have sh: "((?h + 1) mod ?n + i) mod ?n = (?h + Suc i) mod ?n" for i by (simp add: mod_add_left_eq)
  have "count ?th = k"
    unfolding count_def [of ?th]
    using count_unique [of "(?h + 1) mod ?n" ?n k ?t] sh [of k] tail_position [OF assms(1)] k count_less [OF b(3)] b
    by simp
  then have "contents ?th = ys" unfolding cs(2) by (simp add: contents_def q(1) mod_Suc_eq mod_add_left_eq flip: sh)
  moreover have "ring_ok ?th" using b q by (auto simp: ring_ok_def)
  moreover have "?h \<noteq> ?t" using count_zero [OF assms(1)] k by simp
  ultimately show ?thesis using q cs(1) by (intro exI [of _ ?th]) simp
qed

lemma contents_empty: "ring_ok th \<Longrightarrow> contents th = [] \<longleftrightarrow> queueHead th = queueTail th"
  using count_zero [of th] by (auto simp: contents_def)

interpretation ring: bounded_queue contents ring_ok "\<lambda>th. queueSize th - 1" BdmThreadPoolEnqueue take_batch
proof
  fix q :: "'a thread" and x n xs ys
  assume ok: "ring_ok q"
  show "length (contents q) < queueSize q - 1 \<Longrightarrow>
     \<exists>q'. BdmThreadPoolEnqueue x q = Some (0, q') \<and> ring_ok q' \<and> contents q' = contents q @ [x] \<and> queueSize q' - 1 = queueSize q - 1"
    using enqueue_ok [OF ok, of x] by (auto simp: contents_def [of q])
  show "\<not> length (contents q) < queueSize q - 1 \<Longrightarrow> BdmThreadPoolEnqueue x q = Some (- 1, q)"
    using full_iff [OF ok] by (simp add: BdmThreadPoolEnqueue_def contents_def)
  show "n = 0 \<or> contents q = [] \<Longrightarrow> take_batch n xs q = Some (xs, q)"
    using contents_empty [OF ok] by (cases n) auto
  show "contents q = x # ys \<Longrightarrow>
     \<exists>q'. take_batch (Suc n) xs q = take_batch n (xs @ [x]) q' \<and> ring_ok q' \<and> contents q' = ys \<and> queueSize q' - 1 = queueSize q - 1"
    using take_one [OF ok, of x ys n xs] by metis
qed

section \<open>The invariant of the interleavings\<close>

fun batch_of :: "'t worker_at \<Rightarrow> 't list" where
  "batch_of (Handling b) = b"
| "batch_of _ = []"

lemma signal_simps [simp]: "batch_of (signal w) = batch_of w" "signal w = Sleepy \<longleftrightarrow> w = Sleepy"
  "signal w \<noteq> Waiting" "signal w = Returned \<longleftrightarrow> w = Returned"
  by (cases w; simp)+

lemma ring_frame [simp]:
  "ring_ok (th\<lparr>queueFullCnt := n\<rparr>) = ring_ok th" "contents (th\<lparr>queueFullCnt := n\<rparr>) = contents th"
  "ring_ok (set_exit f th) = ring_ok th" "contents (set_exit f th) = contents th"
  "queueSize (set_exit f th) = queueSize th"
  by (simp_all add: ring_ok_def contents_def count_def set_exit_def)

text \<open>
  Until the ring is freed, the tasks accepted are those handled, those in the worker's hands and
  those in the ring, in this order; a sleeping worker leaves no task behind.
\<close>

definition pool_inv :: "nat \<Rightarrow> 't pool_state \<Rightarrow> bool" where
  "pool_inv n s \<longleftrightarrow>
     (destroyer s \<noteq> Destroyed \<longrightarrow>
        ring_ok (thr s) \<and> queueSize (thr s) = n \<and> handled s @ batch_of (worker s) @ contents (thr s) = added s \<and>
        (worker s = Sleepy \<or> worker s = Waiting \<longrightarrow> contents (thr s) = [])) \<and>
     (destroyer s = Destroyed \<longrightarrow> worker s = Returned \<and> queue (thr s) = None)"

lemma step_inv:
  assumes "step s s'" "pool_inv n s"
  shows "pool_inv n s'"
  using assms
proof cases
  case (add task th)
  show ?thesis
  proof (cases "destroyer s = Destroyed")
    case True
    then have "queue (thr s) = None" using assms(2) by (simp add: pool_inv_def)
    with add show ?thesis by (auto simp: BdmThreadPoolEnqueue_def split: if_splits)
  next
    case False
    then have i: "ring_ok (thr s)" "queueSize (thr s) = n" "handled s @ batch_of (worker s) @ contents (thr s) = added s"
      using assms(2) by (auto simp: pool_inv_def)
    note e = ring.enq_cases [OF i(1) add(3)]
    have "queueSize th = n" using add(3) i(2) by (auto simp: BdmThreadPoolEnqueue_def split: if_splits bind_splits)
    with e add i False show ?thesis by (auto simp: pool_inv_def)
  qed
next
  case (add_full task ret th)
  show ?thesis
  proof (cases "destroyer s = Destroyed")
    case True
    with add_full assms(2) show ?thesis
      by (auto simp: pool_inv_def BdmThreadPoolEnqueue_def split: if_splits)
  next
    case False
    then have "ring_ok (thr s)" using assms(2) by (simp add: pool_inv_def)
    from ring.enq_cases [OF this add_full(3)] add_full(4) have "th = thr s" by auto
    with add_full False assms(2) show ?thesis by (auto simp: pool_inv_def)
  qed
next
  case (take batch th)
  then have d: "destroyer s \<noteq> Destroyed" "ring_ok (thr s)" using assms(2) by (auto simp: pool_inv_def)
  from ring.deq_batch [OF d(2), of BDM_BATCH_HANDLE_NUM "[]"] take(5) have
    "batch = List.take BDM_BATCH_HANDLE_NUM (contents (thr s))" "ring_ok th"
    "contents th = drop BDM_BATCH_HANDLE_NUM (contents (thr s))" "queueSize th - 1 = queueSize (thr s) - 1"
    by auto
  moreover have "0 < queueSize th" "0 < queueSize (thr s)" using \<open>ring_ok th\<close> d(2) by (auto simp: ring_ok_def)
  ultimately show ?thesis using take d assms(2) by (auto simp: pool_inv_def)
qed (auto simp: pool_inv_def BdmThreadFreeRes_def contents_empty)

lemma reachable_inv: "reachable s s' \<Longrightarrow> pool_inv n s \<Longrightarrow> pool_inv n s'"
  by (induction rule: reachable.induct) (auto intro: step_inv)

lemma created_ring:
  assumes "BdmThreadCreate zero m c n cpuid name b th0 = (BDM_CODE_OK, th)" "0 < n"
  shows "ring_ok th" "contents th = []" "queueSize th = n" "exit th = BDM_THREAD_RUNNING"
    "queueHead th = 0" "queueTail th = 0"
  using assms by (auto simp: BdmThreadCreate_def ring_ok_def contents_def count_def Let_def split: option.splits if_splits)

lemma started_inv:
  assumes "BdmThreadCreate zero m c n cpuid name b th0 = (BDM_CODE_OK, th)" "0 < n"
  shows "pool_inv n (started th)"
  using created_ring [OF assms] by (simp add: pool_inv_def started_def)

section \<open>Properties\<close>

text \<open>A thread for the examples, with a ring of eight elements.\<close>

definition eight :: "nat thread" where
  "eight = snd (BdmThreadCreate 0 True 0 8 (- 1) (Some ''bdm_disk'') True zero_thread)"

lemma eight_created: "BdmThreadCreate 0 True 0 8 (- 1) (Some ''bdm_disk'') True zero_thread = (BDM_CODE_OK, eight)"
  by (simp add: eight_def BdmThreadCreate_def)

text \<open>
  (C26) No task is lost, duplicated or reordered: in every interleaving, until the ring is freed, the
  tasks accepted so far are those handled, those the worker is handling and those in the ring, in
  the order in which they were accepted; and while the worker sleeps the ring is empty.
\<close>

theorem pool_fifo:
  assumes "BdmThreadCreate zero m c n cpuid name b th0 = (BDM_CODE_OK, th)" "0 < n"
    and "reachable (started th) s" "destroyer s \<noteq> Destroyed"
  shows "added s = handled s @ batch_of (worker s) @ contents (thr s) \<and> length (contents (thr s)) < n \<and>
     (worker s = Waiting \<longrightarrow> contents (thr s) = [])"
proof -
  have "pool_inv n s" using reachable_inv [OF assms(3) started_inv [OF assms(1,2)]] .
  moreover from this have "length (contents (thr s)) < n"
    using assms(4) count_less [of "thr s"] assms(2) by (auto simp: pool_inv_def contents_def)
  ultimately show ?thesis using assms(4) by (auto simp: pool_inv_def)
qed

theorem pool_fifo_witness:
  "\<exists>s. reachable (started eight) s \<and> added s = [5] \<and> handled s @ contents (thr s) = [5]"
proof -
  obtain th where th: "BdmThreadPoolEnqueue 5 eight = Some (BDM_CODE_OK, th)"
    by (simp add: eight_def BdmThreadCreate_def BdmThreadPoolEnqueue_def)
  let ?s = "(started eight)\<lparr>thr := th, worker := signal (worker (started eight)), added := added (started eight) @ [5]\<rparr>"
  have r: "reachable (started eight) ?s"
    using th by (intro reachable.next_step [OF reachable.start] step.add) (simp_all add: started_def)
  from pool_fifo [OF eight_created _ r] have "handled ?s @ contents (thr ?s) = added ?s"
    by (simp add: started_def)
  with r show ?thesis by (intro exI [of _ ?s]) (simp add: started_def)
qed

text \<open>
  (C30) Delayed destruction: when the worker returns because of a delayed exit, every task accepted up
  to this moment has been handled.
\<close>

theorem delayed_exit_drains:
  assumes "BdmThreadCreate zero m c n cpuid name b th0 = (BDM_CODE_OK, th)" "0 < n"
    and "reachable (started th) s" "step s s'" "exit (thr s) = BDM_THREAD_EXIT_DELAY"
    and "worker s \<noteq> Returned" "worker s' = Returned"
  shows "handled s' = added s'"
proof -
  have i: "pool_inv n s" using reachable_inv [OF assms(3) started_inv [OF assms(1,2)]] .
  from assms(4-7) have "s' = s\<lparr>worker := Returned\<rparr>" "worker s = Looping" "queueHead (thr s) = queueTail (thr s)"
    by (auto elim!: step.cases)
  with i contents_empty [of "thr s"] show ?thesis by (auto simp: pool_inv_def)
qed

theorem delayed_exit_drains_witness:
  "\<exists>s s'. reachable (started eight) s \<and> step s s' \<and> worker s' = Returned \<and> handled s' = added s'"
proof -
  let ?s0 = "started eight"
  let ?s1 = "?s0\<lparr>worker := Looping\<rparr>"
  let ?s2 = "?s1\<lparr>thr := set_exit 0 (thr ?s1), destroyer := Flagged\<rparr>"
  have r: "reachable ?s0 ?s2"
    by (rule next_step [OF next_step [OF start step.lock] step.set_exit]) (simp_all add: started_def)
  have e: "exit (thr ?s2) = BDM_THREAD_EXIT_DELAY" "queueHead (thr ?s2) = queueTail (thr ?s2)"
    using created_ring [OF eight_created] by (simp_all add: started_def set_exit_def)
  then have st: "step ?s2 (?s2\<lparr>worker := Returned\<rparr>)" by (intro step.return) simp_all
  have "handled (?s2\<lparr>worker := Returned\<rparr>) = added (?s2\<lparr>worker := Returned\<rparr>)"
    by (rule delayed_exit_drains [OF eight_created _ r st e(1)]) simp_all
  with r st show ?thesis by (intro exI [of _ ?s2] exI [of _ "?s2\<lparr>worker := Returned\<rparr>"]) simp
qed

text \<open>
  A wake-up can be lost: \<open>BdmThreadDestroy\<close> sets \<open>exit\<close> and broadcasts without holding
  \<open>queueMutex\<close>. If it does so after the worker found the ring empty and before it waits, the
  worker sleeps, the destroying thread waits for its end, and nothing but a new task or a spurious
  wake-up gets either of them going again.
\<close>

theorem lost_wakeup:
  assumes "BdmThreadCreate zero m c n cpuid name b th0 = (BDM_CODE_OK, th)" "1 < n"
  shows "\<exists>s. reachable (started th) s \<and> worker s = Waiting \<and> destroyer s = Joining \<and>
     exit (thr s) = BDM_THREAD_EXIT_DELAY \<and>
     (\<forall>s'. step s s' \<longrightarrow> (\<exists>task. added s' = added s @ [task]) \<or> s' = s\<lparr>worker := Woken\<rparr>)"
proof -
  let ?s0 = "started th"
  let ?s1 = "?s0\<lparr>worker := Looping\<rparr>"
  let ?s2 = "?s1\<lparr>worker := Sleepy\<rparr>"
  let ?s3 = "?s2\<lparr>thr := set_exit 0 (thr ?s2), destroyer := Flagged\<rparr>"
  let ?s4 = "?s3\<lparr>worker := signal (worker ?s3), destroyer := Joining\<rparr>"
  let ?s5 = "?s4\<lparr>worker := Waiting\<rparr>"
  have "0 < n" using assms(2) by simp
  note c = created_ring [OF assms(1) this]
  have "step ?s0 ?s1" by (rule step.lock) (simp add: started_def)
  moreover have "step ?s1 ?s2" using c by (intro step.found_empty) (simp_all add: started_def)
  moreover have "step ?s2 ?s3" by (rule step.set_exit) (simp add: started_def)
  moreover have "step ?s3 ?s4" by (rule step.broadcast) simp
  moreover have "step ?s4 ?s5" by (rule step.sleep) simp
  ultimately have r: "reachable ?s0 ?s5" by (meson start next_step)
  have "thr ?s5 = set_exit 0 th" by (simp add: started_def)
  moreover have "\<exists>q. BdmThreadPoolEnqueue task (set_exit 0 th) = Some (BDM_CODE_OK, q)" for task
    using ring.enq_law [of "set_exit 0 th" task] c assms(2) by auto
  ultimately have "ret = BDM_CODE_OK" if "BdmThreadPoolEnqueue task (thr ?s5) = Some (ret, th')" for task ret th'
    using that by (metis option.inject prod.inject)
  then have "\<forall>s'. step ?s5 s' \<longrightarrow> (\<exists>task. added s' = added ?s5 @ [task]) \<or> s' = ?s5\<lparr>worker := Woken\<rparr>"
    by (auto elim!: step.cases)
  with r show ?thesis by (intro exI [of _ ?s5]) (simp add: set_exit_def)
qed

theorem lost_wakeup_witness:
  "\<exists>s. reachable (started eight) s \<and> worker s = Waiting \<and> destroyer s = Joining"
  using lost_wakeup [OF eight_created] by auto

text \<open>
  \<open>BdmThreadParaCheck\<close> admits a ring of one element, which never accepts a task: every round of
  \<open>BdmThreadPoolAdd\<close> fails, so it does not return.
\<close>

theorem ring_of_one:
  assumes "BdmThreadCreate zero m c 1 cpuid name b th0 = (BDM_CODE_OK, th)"
  shows "BdmThreadParaCheck 1 1 = BDM_CODE_OK \<and> (\<exists>th'. add_rounds rounds task th = Some (False, th'))"
proof -
  have "queueSize th = 1 \<Longrightarrow> queueHead th = 0 \<Longrightarrow> \<exists>th'. add_rounds rounds task th = Some (False, th')"
    by (induction rounds arbitrary: th) (auto simp: BdmThreadPoolEnqueue_def)
  with created_ring [OF assms] show ?thesis by (simp add: BdmThreadParaCheck_def)
qed

theorem ring_of_one_witness:
  "\<exists>th'. add_rounds 3 5 (snd (BdmThreadCreate 0 True 0 1 (- 1) (Some ''p'') True zero_thread)) = Some (False, th' :: nat thread)"
proof -
  have "BdmThreadCreate 0 True 0 1 (- 1) (Some ''p'') True zero_thread =
      (BDM_CODE_OK, snd (BdmThreadCreate 0 True 0 1 (- 1) (Some ''p'') True zero_thread))"
    by (simp add: BdmThreadCreate_def)
  from ring_of_one [OF this, of 3 5] show ?thesis by blast
qed

end
