(* ===== verification/CmTypes.thy ===== *)
theory CmTypes
  imports Prelude
begin

text \<open>
  The data of the cluster manager, from \<^verbatim>\<open>cluster/common/cm_inner.h\<close>: nodes with their disks and
  networks, and the table of partitions (PT) with their copies.

  A structure with a counter and an array is a list when only the counted part is used. The list of
  copies of a partition is the whole array: a partition has up to three copies, in the slots
  \<open>0..copyNum-1\<close>, and while copies move each slot has an extension slot \<open>maxCopyNum\<close> further on.
\<close>

abbreviation CM_OK :: int where "CM_OK \<equiv> 0"
abbreviation CM_ERR :: int where "CM_ERR \<equiv> - 1"
abbreviation PT_MAX_COPY_NUM :: nat where "PT_MAX_COPY_NUM \<equiv> 3"
abbreviation PT_MAX_COPY_INDEX :: nat where "PT_MAX_COPY_INDEX \<equiv> 6"
abbreviation DISK_LIST_NUM :: nat where "DISK_LIST_NUM \<equiv> 16"
abbreviation NODE_ID_INVALID :: nat where "NODE_ID_INVALID \<equiv> 0xFFFF"
abbreviation DISK_ID_INVALID :: nat where "DISK_ID_INVALID \<equiv> 0xFFFF"

datatype pt_state = PT_STATE_INIT | PT_STATE_NORMAL | PT_STATE_DEGRADE_LOSS1 | PT_STATE_DEGRADE_LOSS2
  | PT_STATE_FAULT | PT_STATE_LOSS1_BYPASS

datatype copy_state = PT_COPY_STATE_INIT | PT_COPY_STATE_RUNNING | PT_COPY_STATE_DOWN | PT_COPY_STATE_OUT
  | PT_COPY_STATE_RECOVERY

datatype node_updown = NODE_STATE_INVALID | NODE_STATE_UP | NODE_STATE_DOWN

datatype node_cluster = NODE_CLUSTER_STATE_INVALID | NODE_CLUSTER_STATE_OUT | NODE_CLUSTER_STATE_IN

datatype node_status = NODE_STATUS_OK | NODE_STATUS_UNOK

datatype net_state = NET_STATE_NORMAL | NET_STATE_FAULT

datatype disk_health = DISK_STATE_NORMAL | DISK_STATE_FAULT

datatype disk_cluster = DISK_CLUSTER_STATE_INVALID | DISK_CLUSTER_STATE_OUT | DISK_CLUSTER_STATE_IN

record pt_copy =
  cnode :: nat
  cdisk :: nat
  keepAlive :: bool
  cstate :: copy_state

record pt_entry =
  birthVersion :: nat
  ptId :: nat
  pstate :: pt_state
  masterNodeId :: nat
  masterDiskId :: nat
  referNum :: nat
  copyNum :: nat
  copyList :: "pt_copy list"

record pt_list =
  poolId :: nat
  ptNum :: nat
  maxCopyNum :: nat
  minCopyNum :: nat
  globalVersion :: nat
  changeVersion :: nat
  entries :: "pt_entry list"

record disk_info =
  diskId :: nat
  diskHealth :: disk_health

text \<open>
  The array of disks has the counted part \<open>ndisks\<close> and the rest \<open>nspare\<close>, which few functions read.
  \<open>naddr\<close> stands for the ports and addresses, which are only compared.
\<close>

record node_info =
  ndisks :: "disk_info list"
  nnets :: "net_state list"
  nspare :: "disk_info list"
  nid :: nat
  nstatus :: node_status
  naddr :: string

record node_state =
  nupdown :: node_updown
  ncluster :: node_cluster
  sdisks :: "disk_cluster list"
  sdiskIds :: "nat list"
  sdiskNum :: nat

section \<open>Helpers on entries\<close>

text \<open>Reference counts have 56 bits.\<close>

definition inc56 :: "nat \<Rightarrow> nat" where "inc56 x = (x + 1) mod 2 ^ 56"

definition inc64 :: "nat \<Rightarrow> nat" where "inc64 x = (x + 1) mod 2 ^ 64"

text \<open>A loop that changes the first \<open>n\<close> elements of an array, one by one.\<close>

definition map_first :: "nat \<Rightarrow> ('a \<Rightarrow> 'a) \<Rightarrow> 'a list \<Rightarrow> 'a list" where
  "map_first n f xs = map f (take n xs) @ drop n xs"

lemma length_map_first [simp]: "length (map_first n f xs) = length xs"
  by (simp add: map_first_def)

lemma nth_map_first: "i < length xs \<Longrightarrow> map_first n f xs ! i = (if i < n then f (xs ! i) else xs ! i)"
  by (auto simp: map_first_def nth_append min_def)

definition upd_copy :: "nat \<Rightarrow> (pt_copy \<Rightarrow> pt_copy) \<Rightarrow> pt_entry \<Rightarrow> pt_entry" where
  "upd_copy i f e = e\<lparr>copyList := (copyList e)[i := f (copyList e ! i)]\<rparr>"

text \<open>The running copies of an entry, as the code counts them.\<close>

definition running_at :: "pt_entry \<Rightarrow> nat \<Rightarrow> bool" where
  "running_at e i \<longleftrightarrow> cstate (copyList e ! i) = PT_COPY_STATE_RUNNING"

definition running_num :: "pt_entry \<Rightarrow> nat" where
  "running_num e = length (filter (running_at e) [0..<copyNum e])"

lemma running_num_card: "running_num e = card {i. i < copyNum e \<and> running_at e i}"
  by (simp add: running_num_def length_filter_conv_card cong: conj_cong)

lemma upd_copy_simps [simp]:
  "birthVersion (upd_copy i f e) = birthVersion e" "ptId (upd_copy i f e) = ptId e"
  "pstate (upd_copy i f e) = pstate e" "masterNodeId (upd_copy i f e) = masterNodeId e"
  "masterDiskId (upd_copy i f e) = masterDiskId e" "referNum (upd_copy i f e) = referNum e"
  "copyNum (upd_copy i f e) = copyNum e" "length (copyList (upd_copy i f e)) = length (copyList e)"
  by (simp_all add: upd_copy_def)

lemma upd_copy_nth:
  "j < length (copyList e) \<Longrightarrow> copyList (upd_copy i f e) ! j = (if j = i then f (copyList e ! j) else copyList e ! j)"
  by (simp add: upd_copy_def nth_list_update)

end
