(* ===== verification/PtState.thy ===== *)
theory PtState
  imports CmTypes
begin

text \<open>
  How the table of partitions follows the state of the nodes,
  \<^verbatim>\<open>cluster/server/pt/cm_pt_calc_fixed_state.c\<close>: a node goes down or comes up, a disk or all
  networks of a node fail, or a node reports that it has recovered its copies.

  \<open>None\<close> stands for an access outside an array.
\<close>

section \<open>One partition\<close>

definition ViewPtUpdateCopyKeepAlive :: "nat \<Rightarrow> pt_entry \<Rightarrow> pt_entry" where
  "ViewPtUpdateCopyKeepAlive minNum e =
     (let normNum = running_num e;
          set_all = (\<lambda>b e. e\<lparr>copyList := map_first (copyNum e)
             (\<lambda>c. if cstate c = PT_COPY_STATE_RUNNING then c\<lparr>keepAlive := b\<rparr> else c) (copyList e)\<rparr>);
          e1 = (if normNum = minNum then set_all True e else e)
      in if normNum > minNum then set_all False e1 else e1)"

definition ViewPtUpdateCopyState :: "nat \<Rightarrow> nat \<Rightarrow> pt_entry \<Rightarrow> pt_entry" where
  "ViewPtUpdateCopyState copyIndex minNum e =
     (let normNum = running_num e in
      if normNum \<ge> minNum then upd_copy copyIndex (\<lambda>c. c\<lparr>cstate := PT_COPY_STATE_RECOVERY\<rparr>) e
      else if keepAlive (copyList e ! copyIndex)
      then upd_copy copyIndex (\<lambda>c. c\<lparr>cstate := PT_COPY_STATE_RUNNING\<rparr>) e
      else upd_copy copyIndex (\<lambda>c. c\<lparr>cstate := PT_COPY_STATE_RECOVERY\<rparr>) e)"

text \<open>The state that a number of running copies means.\<close>

definition state_for :: "nat \<Rightarrow> nat \<Rightarrow> nat \<Rightarrow> pt_state" where
  "state_for minNum maxNum runningNum =
     (if runningNum < minNum then PT_STATE_FAULT
      else if runningNum = maxNum then PT_STATE_NORMAL
      else if runningNum + 1 = maxNum then PT_STATE_DEGRADE_LOSS1
      else if runningNum + 2 = maxNum then PT_STATE_DEGRADE_LOSS2
      else PT_STATE_FAULT)"

definition is_master :: "pt_entry \<Rightarrow> nat \<Rightarrow> bool" where
  "is_master e i \<longleftrightarrow> cnode (copyList e ! i) = masterNodeId e \<and> cdisk (copyList e ! i) = masterDiskId e"

definition ViewPtEntryUpdatePtState :: "pt_list \<Rightarrow> pt_entry \<Rightarrow> pt_entry" where
  "ViewPtEntryUpdatePtState l e =
     (let run = filter (running_at e) [0..<copyNum e];
          e1 = (if \<not> list_ex (is_master e) run \<and> run \<noteq> []
                then e\<lparr>masterNodeId := cnode (copyList e ! hd run), masterDiskId := cdisk (copyList e ! hd run)\<rparr>
                else e)
      in e1\<lparr>pstate := state_for (minCopyNum l) (maxCopyNum l) (length run)\<rparr>)"

definition down_copy :: "nat \<Rightarrow> pt_entry \<Rightarrow> pt_entry" where
  "down_copy i e = (upd_copy i (\<lambda>c. c\<lparr>cstate := PT_COPY_STATE_DOWN\<rparr>) e)\<lparr>referNum := inc56 (referNum e)\<rparr>"

text \<open>The inner loop of \<open>ViewPtEntryListUpdateNodeDown\<close> over the copies; the flag is \<open>pgChange\<close>.\<close>

fun down_entry :: "nat \<Rightarrow> pt_list \<Rightarrow> nat list \<Rightarrow> pt_entry \<Rightarrow> bool \<times> pt_entry" where
  "down_entry nodeId l [] e = (False, e)"
| "down_entry nodeId l (i # is) e =
     (let c = copyList e ! i in
      if cnode c \<noteq> nodeId then down_entry nodeId l is e
      else if cstate c = PT_COPY_STATE_RUNNING
      then (True, ViewPtEntryUpdatePtState l (ViewPtUpdateCopyKeepAlive (minCopyNum l) (down_copy i e)))
      else if cstate c = PT_COPY_STATE_RECOVERY then (True, down_copy i e)
      else down_entry nodeId l is e)"

text \<open>A loop over all partitions that updates each of them and collects the flag.\<close>

definition each_entry :: "(pt_entry \<Rightarrow> bool \<times> pt_entry) \<Rightarrow> bool \<Rightarrow> pt_list \<Rightarrow> bool \<times> pt_list" where
  "each_entry f change l =
     (change \<or> list_ex (\<lambda>e. fst (f e)) (take (ptNum l) (entries l)),
      l\<lparr>entries := map_first (ptNum l) (\<lambda>e. snd (f e)) (entries l)\<rparr>)"

definition ViewPtEntryListUpdateNodeDown :: "nat \<Rightarrow> bool \<Rightarrow> pt_list \<Rightarrow> bool \<times> pt_list" where
  "ViewPtEntryListUpdateNodeDown nodeId change l =
     each_entry (\<lambda>e. down_entry nodeId l [0..<copyNum e] e) change l"

definition ViewPtEntryCheckNetFault :: "node_info \<Rightarrow> bool" where
  "ViewPtEntryCheckNetFault info =
     (case nnets info of
        [] \<Rightarrow> False
      | st # rest \<Rightarrow> if list_ex (\<lambda>s. s \<noteq> st) rest then False else st = NET_STATE_FAULT)"

fun ViewPtEntryCheckDiskFault :: "disk_info list \<Rightarrow> nat \<Rightarrow> bool" where
  "ViewPtEntryCheckDiskFault [] d = False"
| "ViewPtEntryCheckDiskFault (x # xs) d =
     (if diskId x \<noteq> d then ViewPtEntryCheckDiskFault xs d else diskHealth x = DISK_STATE_FAULT)"

fun up_entry :: "nat \<Rightarrow> node_info \<Rightarrow> pt_list \<Rightarrow> nat list \<Rightarrow> pt_entry \<Rightarrow> bool \<times> pt_entry" where
  "up_entry nodeId info l [] e = (False, e)"
| "up_entry nodeId info l (i # is) e =
     (let c = copyList e ! i in
      if cnode c \<noteq> nodeId then up_entry nodeId info l is e
      else let diskfault = ViewPtEntryCheckDiskFault (ndisks info) (cdisk c) in
        if cstate c = PT_COPY_STATE_DOWN \<and> \<not> diskfault
        then (True, ViewPtEntryUpdatePtState l
                (ViewPtUpdateCopyState i (minCopyNum l) (e\<lparr>referNum := inc56 (referNum e)\<rparr>)))
        else if cstate c = PT_COPY_STATE_RUNNING \<and> diskfault
        then (True, ViewPtEntryUpdatePtState l (ViewPtUpdateCopyKeepAlive (minCopyNum l) (down_copy i e)))
        else if cstate c = PT_COPY_STATE_RECOVERY \<and> diskfault then (True, down_copy i e)
        else up_entry nodeId info l is e)"

definition ViewPtEntryListUpdateNodeUp :: "nat \<Rightarrow> node_info \<Rightarrow> bool \<Rightarrow> pt_list \<Rightarrow> bool \<times> pt_list" where
  "ViewPtEntryListUpdateNodeUp nodeId info change l =
     (if ViewPtEntryCheckNetFault info then ViewPtEntryListUpdateNodeDown nodeId change l
      else each_entry (\<lambda>e. up_entry nodeId info l [0..<copyNum e] e) change l)"

definition ViewPtEntryListUpdateNodeState ::
  "nat \<Rightarrow> node_updown \<Rightarrow> node_info \<Rightarrow> bool \<Rightarrow> pt_list \<Rightarrow> bool \<times> pt_list" where
  "ViewPtEntryListUpdateNodeState nodeId state info change l =
     (case state of
        NODE_STATE_DOWN \<Rightarrow> ViewPtEntryListUpdateNodeDown nodeId change l
      | NODE_STATE_UP \<Rightarrow> ViewPtEntryListUpdateNodeUp nodeId info change l
      | NODE_STATE_INVALID \<Rightarrow> (change, l))"

section \<open>Recovery finished\<close>

definition out_copy :: pt_copy where
  "out_copy = \<lparr>cnode = NODE_ID_INVALID, cdisk = DISK_ID_INVALID, keepAlive = False, cstate = PT_COPY_STATE_OUT\<rparr>"

text \<open>The loop of \<open>ViewPtEntryTrim\<close> that moves running copies from the extension slots to their slots.\<close>

fun trim_slots :: "nat \<Rightarrow> nat list \<Rightarrow> pt_entry \<Rightarrow> pt_entry" where
  "trim_slots n [] e = e"
| "trim_slots n (i # is) e =
     (if running_at e i then trim_slots n is e
      else if running_at e (i + n)
      then trim_slots n is (e\<lparr>copyList := (copyList e)[i := copyList e ! (i + n), i + n := out_copy]\<rparr>)
      else trim_slots n is e)"

text \<open>
  \<open>ViewPtEntryTrim\<close>: the flag, the entry and the master counts. The last index with the given node
  is taken.
\<close>

definition ViewPtEntryTrim ::
  "nat \<Rightarrow> nat \<Rightarrow> nat list \<Rightarrow> nat \<Rightarrow> nat \<Rightarrow> pt_entry \<Rightarrow> (bool \<times> pt_entry \<times> nat list) option" where
  "ViewPtEntryTrim n num masters nodeId validNum e =
     (if running_num e \<noteq> n then Some (False, e, masters)
      else let e1 = (trim_slots n [0..<n] e)\<lparr>pstate := PT_STATE_NORMAL, copyNum := n\<rparr> in
        if validNum = 0 then Some (True, e1, masters)
        else case filter (\<lambda>i. cnode (copyList e1 ! i) = nodeId) [0..<n] of
          [] \<Rightarrow> Some (True, e1, masters)
        | is \<Rightarrow>
            let nodeIndex = last is; m = masterNodeId e1 in
            if nodeId \<ge> length masters then None
            else if \<not> masters ! nodeId < num div validNum then Some (True, e1, masters)
            else if m \<ge> length masters then None
            else if masters ! m > num div validNum
            then let ms1 = masters[m := masters ! m - 1] in
              Some (True,
                e1\<lparr>masterNodeId := cnode (copyList e1 ! nodeIndex), masterDiskId := cdisk (copyList e1 ! nodeIndex),
                   referNum := inc56 (referNum e1)\<rparr>,
                ms1[nodeId := (ms1 ! nodeId + 1) mod 2 ^ 16])
            else Some (True, e1, masters))"

definition ViewPtSatisfiedCopyNum :: "nat \<Rightarrow> pt_entry \<Rightarrow> bool" where
  "ViewPtSatisfiedCopyNum minNum e = (running_num e \<ge> minNum)"

definition GenMasterList :: "nat \<Rightarrow> pt_list \<Rightarrow> nat list" where
  "GenMasterList nodeNum l =
     fold (\<lambda>e ms. if masterNodeId e < nodeNum
                  then ms[masterNodeId e := (ms ! masterNodeId e + 1) mod 2 ^ 16] else ms)
       (take (ptNum l) (entries l)) (replicate nodeNum 0)"

text \<open>A finished partition as a node reports it: the number of the partition and its version.\<close>

record pt_finish =
  fptId :: nat
  fbirthVersion :: nat

text \<open>The loop over the copies of one partition; the flag says that a copy was found.\<close>

definition finish_entry ::
  "nat \<Rightarrow> nat \<Rightarrow> pt_list \<Rightarrow> nat list \<Rightarrow> pt_entry \<Rightarrow> (bool \<times> pt_entry \<times> nat list) option" where
  "finish_entry nodeId validNum l masters e =
     (case find (\<lambda>i. cnode (copyList e ! i) = nodeId \<and> cstate (copyList e ! i) = PT_COPY_STATE_RECOVERY) [0..<copyNum e] of
        None \<Rightarrow> Some (False, e, masters)
      | Some i \<Rightarrow>
          let e1 = ViewPtUpdateCopyKeepAlive (minCopyNum l) (upd_copy i (\<lambda>c. c\<lparr>cstate := PT_COPY_STATE_RUNNING\<rparr>) e) in
          (case ViewPtEntryTrim (maxCopyNum l) (ptNum l) masters nodeId validNum e1 of
             None \<Rightarrow> None
           | Some (isUpdate, e2, masters') \<Rightarrow>
               Some (True, if isUpdate then e2 else ViewPtEntryUpdatePtState l e2, masters')))"

fun finish_loop ::
  "nat \<Rightarrow> nat \<Rightarrow> pt_finish list \<Rightarrow> nat list \<Rightarrow> bool \<Rightarrow> pt_list \<Rightarrow> (bool \<times> pt_list) option" where
  "finish_loop nodeId validNum [] masters change l = Some (change, l)"
| "finish_loop nodeId validNum (p # ps) masters change l =
     (if fptId p \<ge> ptNum l then finish_loop nodeId validNum ps masters change l
      else let e = entries l ! fptId p in
        if birthVersion e \<noteq> fbirthVersion p then finish_loop nodeId validNum ps masters change l
        else if \<not> ViewPtSatisfiedCopyNum (minCopyNum l) e then finish_loop nodeId validNum ps masters change l
        else case finish_entry nodeId validNum l masters e of
               None \<Rightarrow> None
             | Some (found, e', masters') \<Rightarrow>
                 finish_loop nodeId validNum ps masters' (change \<or> found) (l\<lparr>entries := (entries l)[fptId p := e']\<rparr>))"

definition ViewPtEntryListUpdateNodeFinish ::
  "bool \<Rightarrow> nat \<Rightarrow> pt_finish list \<Rightarrow> bool \<Rightarrow> nat \<Rightarrow> nat \<Rightarrow> pt_list \<Rightarrow> (bool \<times> pt_list) option" where
  "ViewPtEntryListUpdateNodeFinish mallocOk nodeId pts change nodeNum validNum l =
     (if \<not> mallocOk then Some (change, l)
      else finish_loop nodeId validNum pts (GenMasterList nodeNum l) change l)"

end
