(* ===== verification/PtCalc.thy ===== *)
theory PtCalc
  imports PtState
begin

text \<open>
  The calculation of the table of partitions, \<^verbatim>\<open>cluster/server/pt/cm_pt_calc_fixed.c\<close>: the first
  table for a new pool, the rebalancing after nodes or disks have left or joined, and the check
  whether rebalancing is needed.

  The lists \<open>busy\<close> and \<open>free\<close> of the calculator are the sequences of their elements; an element
  is the disk of a node with the number of copies placed on it, and the busy list is kept in the
  order of these numbers. The arrays of node infos and node states are indexed by the node number,
  and the number of nodes is the length of the list of states.
\<close>

abbreviation REFER_NUM_DIFFERENCE :: int where "REFER_NUM_DIFFERENCE \<equiv> 1"
abbreviation INT64_MAX :: int where "INT64_MAX \<equiv> 0x7FFFFFFFFFFFFFFF"

record calc_elem =
  enode :: nat
  edisk :: nat
  erefer :: int

record calc =
  nodeNum :: nat
  calcPtNum :: nat
  calcCopyNum :: nat
  calcMinCopyNum :: nat
  diskNum :: nat
  busy :: "calc_elem list"
  free :: "calc_elem list"

text \<open>
  \<open>CreateViewCalculator\<close>, with the outcome of the two calls of \<open>malloc\<close> and the contents of the
  fresh memory as arguments. The number of elements is computed in 16 bits.
\<close>

definition CreateViewCalculator ::
  "bool \<Rightarrow> bool \<Rightarrow> nat \<Rightarrow> (nat \<Rightarrow> calc_elem) \<Rightarrow> nat \<Rightarrow> nat \<Rightarrow> nat \<Rightarrow> nat \<Rightarrow> calc option" where
  "CreateViewCalculator mallocOk mallocOk' junkNum junk maxNodeNum maxPtNum copies minCopies =
     (if \<not> mallocOk then None
      else let num = (maxNodeNum * DISK_LIST_NUM) mod 2 ^ 16 in
        if \<not> mallocOk' then None
        else Some \<lparr>nodeNum = maxNodeNum, calcPtNum = maxPtNum, calcCopyNum = copies, calcMinCopyNum = minCopies,
               diskNum = junkNum, busy = [], free = map junk [0..<num]\<rparr>)"

section \<open>The disks in use\<close>

definition node_serves :: "node_state \<Rightarrow> bool" where
  "node_serves st \<longleftrightarrow> \<not> (nupdown st \<noteq> NODE_STATE_UP \<or> ncluster st \<noteq> NODE_CLUSTER_STATE_IN)"

definition disk_serves :: "node_info \<Rightarrow> node_state \<Rightarrow> nat \<Rightarrow> bool" where
  "disk_serves info st i \<longleftrightarrow>
     diskHealth (ndisks info ! i) = DISK_STATE_NORMAL \<and> sdisks st ! i = DISK_CLUSTER_STATE_IN"

definition ViewCalcNormNodeNum :: "node_info list \<Rightarrow> node_state list \<Rightarrow> nat" where
  "ViewCalcNormNodeNum nodes states =
     length (filter (\<lambda>n. node_serves (states ! n) \<and>
        list_ex (disk_serves (nodes ! n) (states ! n)) [0..<length (ndisks (nodes ! n))]) [0..<length states])"

text \<open>The inner loop of \<open>ViewCalcBuildBusyList\<close>; \<open>None\<close> says that the free list ran out, which ends the function.\<close>

fun busy_disks :: "nat \<Rightarrow> node_info \<Rightarrow> node_state \<Rightarrow> nat list \<Rightarrow> calc \<Rightarrow> bool \<times> calc" where
  "busy_disks n info st [] c = (False, c)"
| "busy_disks n info st (i # is) c =
     (if disk_serves info st i
      then case free c of
             [] \<Rightarrow> (True, c)
           | elem # rest \<Rightarrow>
               busy_disks n info st is
                 (c\<lparr>free := rest, busy := busy c @ [elem\<lparr>enode := n, edisk := diskId (ndisks info ! i), erefer := 0\<rparr>]\<rparr>)
      else busy_disks n info st is c)"

fun busy_nodes :: "node_info list \<Rightarrow> node_state list \<Rightarrow> nat list \<Rightarrow> calc \<Rightarrow> calc" where
  "busy_nodes nodes states [] c = c"
| "busy_nodes nodes states (n # ns) c =
     (if \<not> node_serves (states ! n) then busy_nodes nodes states ns c
      else case busy_disks n (nodes ! n) (states ! n) [0..<length (ndisks (nodes ! n))] c of
             (True, c') \<Rightarrow> c'
           | (False, c') \<Rightarrow> busy_nodes nodes states ns (c'\<lparr>diskNum := length (ndisks (nodes ! n))\<rparr>))"

definition ViewCalcBuildBusyList :: "node_info list \<Rightarrow> node_state list \<Rightarrow> calc \<Rightarrow> calc" where
  "ViewCalcBuildBusyList nodes states c = busy_nodes nodes states [0..<length states] c"

definition ViewCalcDestroyBusyList :: "calc \<Rightarrow> calc" where
  "ViewCalcDestroyBusyList c = c\<lparr>busy := [], free := rev (busy c) @ free c\<rparr>"

text \<open>
  \<open>ViewCalcFillUpdateBusyList\<close>: the element is taken out, its count changed, and it is put back
  before the first element with a larger count. On an overflow it is not put back.
\<close>

definition ViewCalcFillUpdateBusyList :: "nat \<Rightarrow> nat \<Rightarrow> int \<Rightarrow> calc_elem list \<Rightarrow> calc_elem list" where
  "ViewCalcFillUpdateBusyList n d diff xs =
     (case find (\<lambda>x. enode x = n \<and> edisk x = d) xs of
        None \<Rightarrow> xs
      | Some f \<Rightarrow>
          let ys = remove1 f xs in
          if INT64_MAX - erefer f < diff then ys
          else let f' = f\<lparr>erefer := erefer f + diff\<rparr> in
            takeWhile (\<lambda>x. erefer x \<le> erefer f') ys @ f' # dropWhile (\<lambda>x. erefer x \<le> erefer f') ys)"

definition ViewCalcCheckNodeIsNormal :: "node_info list \<Rightarrow> node_state list \<Rightarrow> nat \<Rightarrow> nat \<Rightarrow> bool" where
  "ViewCalcCheckNodeIsNormal nodes states n d =
     (if n = NODE_ID_INVALID \<or> d = DISK_ID_INVALID then False
      else if \<not> node_serves (states ! n) then False
      else case find (\<lambda>i. diskId (ndisks (nodes ! n) ! i) = d) [0..<length (ndisks (nodes ! n))] of
             None \<Rightarrow> False
           | Some i \<Rightarrow> disk_serves (nodes ! n) (states ! n) i)"

definition ViewCalcCheckNodeIsFault :: "node_info list \<Rightarrow> node_state list \<Rightarrow> nat \<Rightarrow> nat \<Rightarrow> bool" where
  "ViewCalcCheckNodeIsFault nodes states n d =
     (if n = NODE_ID_INVALID \<or> d = DISK_ID_INVALID then True
      else if ncluster (states ! n) = NODE_CLUSTER_STATE_OUT then True
      else case find (\<lambda>i. diskId (ndisks (nodes ! n) ! i) = d) [0..<length (ndisks (nodes ! n))] of
             None \<Rightarrow> False
           | Some i \<Rightarrow> sdisks (states ! n) ! i = DISK_CLUSTER_STATE_OUT)"

text \<open>The slot or the extension slot a copy is looked up in.\<close>

definition in_use :: "pt_entry \<Rightarrow> nat \<Rightarrow> bool" where
  "in_use e i \<longleftrightarrow> cstate (copyList e ! i) \<noteq> PT_COPY_STATE_INIT \<and> cstate (copyList e ! i) \<noteq> PT_COPY_STATE_OUT"

definition slot_index :: "calc \<Rightarrow> pt_entry \<Rightarrow> nat \<Rightarrow> nat" where
  "slot_index c e i = (if in_use e i then i else i + calcCopyNum c)"

definition count_copy ::
  "calc \<Rightarrow> node_info list \<Rightarrow> node_state list \<Rightarrow> nat \<Rightarrow> pt_entry \<Rightarrow> calc_elem list \<Rightarrow> calc_elem list" where
  "count_copy c nodes states i e xs =
     (let cp = copyList e ! slot_index c e i in
      if ViewCalcCheckNodeIsNormal nodes states (cnode cp) (cdisk cp)
      then ViewCalcFillUpdateBusyList (cnode cp) (cdisk cp) 1 xs else xs)"

definition ViewCalcFillBusyList :: "nat \<Rightarrow> node_info list \<Rightarrow> node_state list \<Rightarrow> pt_list \<Rightarrow> calc \<Rightarrow> calc" where
  "ViewCalcFillBusyList copyIndex nodes states l c =
     c\<lparr>busy := fold (\<lambda>p xs. count_copy c nodes states copyIndex (entries l ! p) xs) [0..<calcPtNum c] (busy c)\<rparr>"

text \<open>The loop at the end runs at least once and counts a 16-bit number down to 0.\<close>

definition ViewCalcResetBusyList :: "calc \<Rightarrow> calc" where
  "ViewCalcResetBusyList c =
     c\<lparr>busy := rotate (if diskNum c = 0 then 2 ^ 16 else diskNum c) (map (\<lambda>x. x\<lparr>erefer := 0\<rparr>) (busy c))\<rparr>"

section \<open>Preparing the table\<close>

definition init_copy :: pt_copy where
  "init_copy = \<lparr>cnode = NODE_ID_INVALID, cdisk = DISK_ID_INVALID, keepAlive = False, cstate = PT_COPY_STATE_INIT\<rparr>"

definition ViewCalcInitPtEntryList :: "calc \<Rightarrow> pt_list \<Rightarrow> pt_list" where
  "ViewCalcInitPtEntryList c l =
     (let v = inc64 (globalVersion l) in
      l\<lparr>maxCopyNum := calcCopyNum c, minCopyNum := calcMinCopyNum c, ptNum := calcPtNum c, globalVersion := v,
        entries := map (\<lambda>p. \<lparr>birthVersion = v, ptId = p, pstate = PT_STATE_INIT, masterNodeId = NODE_ID_INVALID,
            masterDiskId = DISK_ID_INVALID, referNum = 0, copyNum = calcCopyNum c,
            copyList = replicate PT_MAX_COPY_INDEX init_copy\<rparr>) [0..<calcPtNum c] @ drop (calcPtNum c) (entries l)\<rparr>)"

definition drop_copy :: "calc \<Rightarrow> node_info list \<Rightarrow> node_state list \<Rightarrow> nat \<Rightarrow> nat \<Rightarrow> pt_entry \<Rightarrow> pt_entry" where
  "drop_copy c nodes states version i e =
     (let k = slot_index c e i; cp = copyList e ! k in
      if ViewCalcCheckNodeIsFault nodes states (cnode cp) (cdisk cp)
      then (upd_copy k (\<lambda>_. out_copy) e)\<lparr>birthVersion := version\<rparr> else e)"

definition ViewCalcInitPtEntryList1 :: "calc \<Rightarrow> node_info list \<Rightarrow> node_state list \<Rightarrow> pt_list \<Rightarrow> pt_list" where
  "ViewCalcInitPtEntryList1 c nodes states l =
     (let v = inc64 (globalVersion l) in
      l\<lparr>globalVersion := v,
        entries := map_first (ptNum l) (fold (drop_copy c nodes states v) [0..<calcCopyNum c]) (entries l)\<rparr>)"

section \<open>Placing copies\<close>

text \<open>\<open>ViewCalcBuildPtEntry\<close>: the least used disk of a node that has no copy of this partition.\<close>

definition node_taken :: "pt_entry \<Rightarrow> nat \<Rightarrow> bool" where
  "node_taken e n = list_ex (\<lambda>i. in_use e i \<and> n = cnode (copyList e ! i)) [0..<copyNum e]"

definition ViewCalcBuildPtEntry ::
  "calc \<Rightarrow> nat \<Rightarrow> pt_entry \<Rightarrow> calc_elem list \<Rightarrow> int \<times> pt_entry \<times> calc_elem list" where
  "ViewCalcBuildPtEntry c i e xs =
     (case find (\<lambda>x. \<not> node_taken e (enode x)) xs of
        None \<Rightarrow> (CM_ERR, e, xs)
      | Some x \<Rightarrow>
          (CM_OK,
           if cstate (copyList e ! i) = PT_COPY_STATE_INIT
           then upd_copy i (\<lambda>cp. cp\<lparr>cnode := enode x, cdisk := edisk x, cstate := PT_COPY_STATE_RUNNING\<rparr>) e
           else (upd_copy (i + calcCopyNum c)
                  (\<lambda>cp. cp\<lparr>cnode := enode x, cdisk := edisk x, cstate := PT_COPY_STATE_RECOVERY\<rparr>) e)
                  \<lparr>copyNum := calcCopyNum c * 2\<rparr>,
           ViewCalcFillUpdateBusyList (enode x) (edisk x) 1 xs))"

definition ViewCalcUpdateCopyKeepAlive :: "calc \<Rightarrow> pt_entry \<Rightarrow> pt_entry" where
  "ViewCalcUpdateCopyKeepAlive c e =
     (if calcCopyNum c \<noteq> calcMinCopyNum c + 1 then e
      else e\<lparr>copyList := map_first (copyNum e)
             (\<lambda>cp. if cstate cp = PT_COPY_STATE_RUNNING then cp\<lparr>keepAlive := True\<rparr> else cp) (copyList e)\<rparr>)"

definition ViewCalcPtEntryHasNodeId :: "pt_entry \<Rightarrow> nat \<Rightarrow> bool" where
  "ViewCalcPtEntryHasNodeId e n = list_ex (\<lambda>i. cnode (copyList e ! i) = n) [0..<copyNum e]"

text \<open>\<open>None\<close> is the result \<open>CM_OK\<close>: nothing to do; otherwise the slot of the copy that may move.\<close>

definition ViewCalcBuildPreCheck :: "calc \<Rightarrow> nat \<Rightarrow> nat \<Rightarrow> pt_entry \<Rightarrow> nat option" where
  "ViewCalcBuildPreCheck c i version e =
     (if birthVersion e = version then None
      else if pstate e \<noteq> PT_STATE_NORMAL \<and> pstate e \<noteq> PT_STATE_DEGRADE_LOSS1 then None
      else let k = slot_index c e i; n = cnode (copyList e ! k); d = cdisk (copyList e ! k) in
        if masterNodeId e = n \<and> masterDiskId e = d then None
        else if n = NODE_ID_INVALID \<or> d = DISK_ID_INVALID then None
        else Some k)"

text \<open>The loop of \<open>ViewCalcBuildPtEntry1\<close> over the elements before \<open>start\<close>: the one the copy moves to.\<close>

fun move_target :: "pt_entry \<Rightarrow> calc_elem \<Rightarrow> calc_elem list \<Rightarrow> calc_elem option" where
  "move_target e start [] = None"
| "move_target e start (x # xs) =
     (if enode x = enode start \<and> edisk x = edisk start then None
      else if erefer x + REFER_NUM_DIFFERENCE \<ge> erefer start then None
      else if ViewCalcPtEntryHasNodeId e (enode x) then move_target e start xs
      else Some x)"

text \<open>
  \<open>ViewCalcBuildPtEntry1\<close> moves a copy from a disk with many copies to one with few. The search for
  the disk of the copy ends at the last element when the disk is not in the list. For an empty list
  the first and the last element are the same memory.
\<close>

definition ViewCalcBuildPtEntry1 ::
  "calc \<Rightarrow> nat \<Rightarrow> nat \<Rightarrow> pt_entry \<Rightarrow> calc_elem list \<Rightarrow> pt_entry \<times> calc_elem list" where
  "ViewCalcBuildPtEntry1 c i version e xs =
     (if xs = [] \<or> erefer (last xs) \<le> erefer (hd xs) + REFER_NUM_DIFFERENCE then (e, xs)
      else case ViewCalcBuildPreCheck c i version e of
        None \<Rightarrow> (e, xs)
      | Some k \<Rightarrow>
          let n = cnode (copyList e ! k); d = cdisk (copyList e ! k);
              start = (case find (\<lambda>x. enode x = n \<and> edisk x = d) xs of Some x \<Rightarrow> x | None \<Rightarrow> last xs)
          in if erefer start \<le> erefer (hd xs) + REFER_NUM_DIFFERENCE then (e, xs)
             else case move_target e start xs of
               None \<Rightarrow> (e, xs)
             | Some x \<Rightarrow>
                 let xs1 = ViewCalcFillUpdateBusyList n d (- 1) xs;
                     e1 = upd_copy i (\<lambda>cp. cp\<lparr>cnode := NODE_ID_INVALID, cdisk := DISK_ID_INVALID, cstate := PT_COPY_STATE_OUT\<rparr>) e;
                     e2 = upd_copy (i + calcCopyNum c)
                            (\<lambda>cp. cp\<lparr>cnode := enode x, cdisk := edisk x, cstate := PT_COPY_STATE_RECOVERY\<rparr>) e1;
                     e3 = ViewCalcUpdateCopyKeepAlive c (e2\<lparr>copyNum := calcCopyNum c * 2, birthVersion := version\<rparr>)
                 in (e3, ViewCalcFillUpdateBusyList (enode x) (edisk x) 1 xs1))"

text \<open>
  The loops over the partitions. A loop ends with the first error; \<open>skip\<close> is the condition under
  which it goes on to the next partition at once.
\<close>

fun build_pts ::
  "(pt_entry \<Rightarrow> bool) \<Rightarrow> calc \<Rightarrow> nat \<Rightarrow> nat list \<Rightarrow> pt_list \<Rightarrow> calc_elem list \<Rightarrow> int \<times> pt_list \<times> calc_elem list" where
  "build_pts skip c i [] l xs = (CM_OK, l, xs)"
| "build_pts skip c i (p # ps) l xs =
     (if skip (entries l ! p) then build_pts skip c i ps l xs
      else case ViewCalcBuildPtEntry c i (entries l ! p) xs of
        (ret, e, xs') \<Rightarrow>
          let l' = l\<lparr>entries := (entries l)[p := e]\<rparr> in
          if ret \<noteq> CM_OK then (ret, l', xs') else build_pts skip c i ps l' xs')"

fun build_copies :: "nat list \<Rightarrow> pt_list \<Rightarrow> calc \<Rightarrow> int \<times> pt_list \<times> calc" where
  "build_copies [] l c = (CM_OK, l, c)"
| "build_copies (i # is) l c =
     (case build_pts (\<lambda>e. in_use e i) c i [0..<calcPtNum c] l (busy c) of
        (ret, l', xs) \<Rightarrow>
          if ret \<noteq> CM_OK then (ret, l', c\<lparr>busy := xs\<rparr>)
          else build_copies is l' (ViewCalcResetBusyList (c\<lparr>busy := xs\<rparr>)))"

definition ViewCalcBuildPtEntryList :: "pt_list \<Rightarrow> calc \<Rightarrow> int \<times> pt_list \<times> calc" where
  "ViewCalcBuildPtEntryList l c = build_copies [0..<calcCopyNum c] l c"

definition move_copies :: "calc \<Rightarrow> nat \<Rightarrow> nat list \<Rightarrow> pt_list \<Rightarrow> calc_elem list \<Rightarrow> pt_list \<times> calc_elem list" where
  "move_copies c i ps l xs =
     fold (\<lambda>p (l, xs). case ViewCalcBuildPtEntry1 c i (globalVersion l) (entries l ! p) xs of
                         (e, xs') \<Rightarrow> (l\<lparr>entries := (entries l)[p := e]\<rparr>, xs')) ps (l, xs)"

fun rebalance_copies ::
  "node_info list \<Rightarrow> node_state list \<Rightarrow> nat list \<Rightarrow> pt_list \<Rightarrow> calc \<Rightarrow> int \<times> pt_list \<times> calc" where
  "rebalance_copies nodes states [] l c = (CM_OK, l, c)"
| "rebalance_copies nodes states (i # is) l c =
     (let c1 = ViewCalcFillBusyList i nodes states l c in
      case build_pts (\<lambda>e. in_use e i \<or> (i + calcCopyNum c < copyNum e \<and> in_use e (i + calcCopyNum c)))
             c i [0..<calcPtNum c] l (busy c1) of
        (ret, l1, xs1) \<Rightarrow>
          if ret \<noteq> CM_OK then (ret, l1, c1\<lparr>busy := xs1\<rparr>)
          else case move_copies c i [0..<calcPtNum c] l1 xs1 of
            (l2, xs2) \<Rightarrow> rebalance_copies nodes states is l2 (ViewCalcResetBusyList (c1\<lparr>busy := xs2\<rparr>)))"

definition ViewCalcBuildPtEntryList1 ::
  "node_info list \<Rightarrow> node_state list \<Rightarrow> pt_list \<Rightarrow> calc \<Rightarrow> int \<times> pt_list \<times> calc" where
  "ViewCalcBuildPtEntryList1 nodes states l c = rebalance_copies nodes states [0..<calcCopyNum c] l c"

section \<open>States and masters\<close>

definition ViewCalcUpdatePtEntryList :: "pt_list \<Rightarrow> pt_list" where
  "ViewCalcUpdatePtEntryList l =
     l\<lparr>entries := map_first (ptNum l)
        (\<lambda>e. (case filter (running_at e) [0..<copyNum e] of
                [] \<Rightarrow> e
              | k # _ \<Rightarrow> e\<lparr>masterNodeId := cnode (copyList e ! k), masterDiskId := cdisk (copyList e ! k)\<rparr>)
             \<lparr>pstate := PT_STATE_NORMAL\<rparr>) (entries l)\<rparr>"

definition UpdatePtState :: "pt_list option \<Rightarrow> pt_state \<Rightarrow> pt_state \<Rightarrow> pt_list option" where
  "UpdatePtState l from to =
     map_option (\<lambda>l. l\<lparr>entries := map_first (ptNum l)
        (\<lambda>e. if pstate e = from then e\<lparr>pstate := to\<rparr> else e) (entries l)\<rparr>) l"

text \<open>A copy with the data of the partition: running, or down and marked.\<close>

definition has_data :: "pt_entry \<Rightarrow> nat \<Rightarrow> bool" where
  "has_data e i \<longleftrightarrow> running_at e i \<or> (cstate (copyList e ! i) = PT_COPY_STATE_DOWN \<and> keepAlive (copyList e ! i))"

fun ViewCalcUpdatePtEntryList111 :: "nat list \<Rightarrow> nat \<Rightarrow> pt_entry \<Rightarrow> pt_entry" where
  "ViewCalcUpdatePtEntryList111 [] diffNum e = e"
| "ViewCalcUpdatePtEntryList111 (i # is) diffNum e =
     (if diffNum = 0 then e
      else if has_data e i then ViewCalcUpdatePtEntryList111 is diffNum e
      else if cstate (copyList e ! i) = PT_COPY_STATE_RECOVERY
      then ViewCalcUpdatePtEntryList111 is (diffNum - 1)
             (upd_copy i (\<lambda>cp. cp\<lparr>cstate := PT_COPY_STATE_RUNNING, keepAlive := True\<rparr>) e)
      else if cstate (copyList e ! i) = PT_COPY_STATE_DOWN
      then ViewCalcUpdatePtEntryList111 is (diffNum - 1) (upd_copy i (\<lambda>cp. cp\<lparr>keepAlive := True\<rparr>) e)
      else ViewCalcUpdatePtEntryList111 is diffNum e)"

definition ViewCalcUpdatePtEntryList11 :: "calc \<Rightarrow> pt_list \<Rightarrow> pt_list" where
  "ViewCalcUpdatePtEntryList11 c l =
     l\<lparr>entries := map_first (ptNum l)
        (\<lambda>e. let normNum = length (filter (\<lambda>i. has_data e i \<or> has_data e (i + calcCopyNum c)) [0..<calcCopyNum c]) in
             if normNum < calcMinCopyNum c
             then ViewCalcUpdatePtEntryList111 [0..<copyNum e] (calcMinCopyNum c - normNum) e else e) (entries l)\<rparr>"

text \<open>
  \<open>ViewCalcUpdatePtEntryList1\<close> chooses master and state as \<open>ViewPtEntryUpdatePtState\<close> does, with the
  numbers of the calculator. \<open>addDisk\<close>: the event is \<open>CM_EVENT_ADD_DISK\<close>.
\<close>

definition ViewCalcUpdatePtEntryList1 :: "calc \<Rightarrow> bool \<Rightarrow> pt_list \<Rightarrow> pt_list" where
  "ViewCalcUpdatePtEntryList1 c addDisk l =
     (let l1 = ViewCalcUpdatePtEntryList11 c l;
          l2 = l1\<lparr>entries := map_first (ptNum l1)
                 (ViewPtEntryUpdatePtState (l1\<lparr>minCopyNum := calcMinCopyNum c, maxCopyNum := calcCopyNum c\<rparr>)) (entries l1)\<rparr>
      in if addDisk then the (UpdatePtState (Some l2) PT_STATE_DEGRADE_LOSS1 PT_STATE_LOSS1_BYPASS) else l2)"

section \<open>The operations of the calculator\<close>

definition ViewCalculatorInitial ::
  "nat \<Rightarrow> node_info list \<Rightarrow> node_state list \<Rightarrow> pt_list \<Rightarrow> calc \<Rightarrow> int \<times> pt_list \<times> calc" where
  "ViewCalculatorInitial pool nodes states l c =
     (if ViewCalcNormNodeNum nodes states < calcCopyNum c then (CM_ERR, l, c)
      else let c1 = ViewCalcBuildBusyList nodes states c;
               l1 = ViewCalcInitPtEntryList c1 (l\<lparr>poolId := pool\<rparr>)
        in case ViewCalcBuildPtEntryList l1 c1 of
             (ret, l2, c2) \<Rightarrow>
               if ret \<noteq> CM_OK then (ret, l2, ViewCalcDestroyBusyList c2)
               else (CM_OK, ViewCalcUpdatePtEntryList l2, ViewCalcDestroyBusyList c2))"

definition ViewCalculatorRebalance ::
  "node_info list \<Rightarrow> node_state list \<Rightarrow> bool \<Rightarrow> pt_list \<Rightarrow> calc \<Rightarrow> int \<times> pt_list \<times> calc" where
  "ViewCalculatorRebalance nodes states addDisk l c =
     (if ViewCalcNormNodeNum nodes states < calcCopyNum c then (CM_ERR, l, c)
      else let c1 = ViewCalcBuildBusyList nodes states c;
               l1 = ViewCalcInitPtEntryList1 c1 nodes states l
        in case ViewCalcBuildPtEntryList1 nodes states l1 c1 of
             (ret, l2, c2) \<Rightarrow>
               if ret \<noteq> CM_OK then (ret, l2, ViewCalcDestroyBusyList c2)
               else (CM_OK, ViewCalcUpdatePtEntryList1 c2 addDisk l2, ViewCalcDestroyBusyList c2))"

definition ViewCalcCheckPtEntryList :: "calc \<Rightarrow> pt_list \<Rightarrow> node_info list \<Rightarrow> node_state list \<Rightarrow> bool" where
  "ViewCalcCheckPtEntryList c l nodes states =
     list_ex (\<lambda>p. list_ex (\<lambda>i.
        let cp = copyList (entries l ! p) ! slot_index c (entries l ! p) i
        in ViewCalcCheckNodeIsFault nodes states (cnode cp) (cdisk cp)) [0..<calcCopyNum c]) [0..<ptNum l]"

definition ViewCalcCheckPtEntryList1 :: "calc \<Rightarrow> node_info list \<Rightarrow> node_state list \<Rightarrow> pt_list \<Rightarrow> bool \<times> calc" where
  "ViewCalcCheckPtEntryList1 c nodes states l =
     (let normPtNum = length (filter (\<lambda>p. pstate (entries l ! p) = PT_STATE_NORMAL) [0..<calcPtNum c]);
          xs = fold (\<lambda>p xs. fold (\<lambda>i xs. count_copy c nodes states i (entries l ! p) xs) [0..<calcCopyNum c] xs)
                 [0..<calcPtNum c] (busy c)
      in (list_ex (\<lambda>x. erefer x = 0 \<and> normPtNum \<noteq> 0) xs, c\<lparr>busy := xs\<rparr>))"

definition ViewCalculatorNeedRebalance ::
  "node_info list \<Rightarrow> node_state list \<Rightarrow> pt_list \<Rightarrow> calc \<Rightarrow> bool \<times> calc" where
  "ViewCalculatorNeedRebalance nodes states l c =
     (if ptNum l = 0 then (False, c)
      else if ViewCalcNormNodeNum nodes states < calcCopyNum c then (False, c)
      else if ViewCalcCheckPtEntryList c l nodes states then (True, c)
      else let c1 = ViewCalcBuildBusyList nodes states c in
        case ViewCalcCheckPtEntryList1 c1 nodes states l of
          (ret, c2) \<Rightarrow> (ret, ViewCalcDestroyBusyList c2))"

end
