(* ===== verification/PtStateProps.thy ===== *)
theory PtStateProps
  imports PtState
begin

text \<open>
  The invariant of a partition under changes of the nodes: the slots and their extensions are used
  exclusively, copies are on different nodes, the state of the partition says how many copies run,
  and the master is a running copy. Every operation of the state file keeps it.
\<close>

section \<open>The invariant\<close>

definition active :: "copy_state \<Rightarrow> bool" where
  "active s \<longleftrightarrow> s \<noteq> PT_COPY_STATE_INIT \<and> s \<noteq> PT_COPY_STATE_OUT"

abbreviation active_at :: "pt_entry \<Rightarrow> nat \<Rightarrow> bool" where
  "active_at e i \<equiv> active (cstate (copyList e ! i))"

definition slots_ok :: "nat \<Rightarrow> pt_entry \<Rightarrow> bool" where
  "slots_ok m e \<longleftrightarrow>
     length (copyList e) = PT_MAX_COPY_INDEX \<and> 0 < m \<and> m \<le> PT_MAX_COPY_NUM \<and> (copyNum e = m \<or> copyNum e = 2 * m) \<and>
     (\<forall>i<m. \<not> (active_at e i \<and> active_at e (i + m))) \<and>
     (\<forall>i<PT_MAX_COPY_INDEX. copyNum e \<le> i \<longrightarrow> \<not> active_at e i) \<and>
     (\<forall>i<copyNum e. \<forall>j<copyNum e. i \<noteq> j \<longrightarrow> active_at e i \<longrightarrow> active_at e j \<longrightarrow>
        cnode (copyList e ! i) \<noteq> cnode (copyList e ! j))"

definition consistent :: "pt_list \<Rightarrow> pt_entry \<Rightarrow> bool" where
  "consistent l e \<longleftrightarrow>
     (let st = state_for (minCopyNum l) (maxCopyNum l) (running_num e) in
      pstate e = st \<or> (pstate e = PT_STATE_LOSS1_BYPASS \<and> st = PT_STATE_DEGRADE_LOSS1))"

definition master_ok :: "pt_entry \<Rightarrow> bool" where
  "master_ok e \<longleftrightarrow> running_num e \<noteq> 0 \<longrightarrow> (\<exists>i<copyNum e. running_at e i \<and> is_master e i)"

definition entry_ok :: "pt_list \<Rightarrow> pt_entry \<Rightarrow> bool" where
  "entry_ok l e \<longleftrightarrow> slots_ok (maxCopyNum l) e \<and> consistent l e \<and> master_ok e"

definition list_ok :: "pt_list \<Rightarrow> bool" where
  "list_ok l \<longleftrightarrow> 0 < minCopyNum l \<and> minCopyNum l \<le> maxCopyNum l \<and> ptNum l \<le> length (entries l) \<and>
     (\<forall>p<ptNum l. entry_ok l (entries l ! p))"

lemma slots_okD:
  assumes "slots_ok m e"
  shows "length (copyList e) = PT_MAX_COPY_INDEX" "0 < m" "m \<le> PT_MAX_COPY_NUM" "copyNum e = m \<or> copyNum e = 2 * m"
    "copyNum e \<le> PT_MAX_COPY_INDEX" "m \<le> copyNum e"
  using assms by (auto simp: slots_ok_def)

text \<open>The used places of an entry, counted by their slots.\<close>

lemma active_slots:
  assumes s: "slots_ok m e"
  shows "inj_on (\<lambda>j. j mod m) {j. j < copyNum e \<and> active_at e j}"
    "(\<lambda>j. j mod m) ` {j. j < copyNum e \<and> active_at e j} \<subseteq> {k. k < m \<and> (active_at e k \<or> active_at e (k + m))}"
proof -
  note d = slots_okD [OF s]
  let ?A = "{j. j < copyNum e \<and> active_at e j}"
  have pair: "\<not> (active_at e k \<and> active_at e (k + m))" if "k < m" for k using s that by (auto simp: slots_ok_def)
  have md: "(j < m \<and> j mod m = j) \<or> (\<exists>k<m. j = k + m \<and> j mod m = k)" if "j \<in> ?A" for j
  proof (cases "j < m")
    case False
    then have "j = (j - m) + m" "j - m < m" using that d by auto
    then show ?thesis by (metis mod_add_self2 mod_less)
  qed simp
  show "inj_on (\<lambda>j. j mod m) ?A"
  proof (rule inj_onI)
    fix x y assume xy: "x \<in> ?A" "y \<in> ?A" "x mod m = y mod m"
    then show "x = y" using md [OF xy(1)] md [OF xy(2)] pair by fastforce
  qed
  show "(\<lambda>j. j mod m) ` ?A \<subseteq> {k. k < m \<and> (active_at e k \<or> active_at e (k + m))}"
    using md by fastforce
qed

lemma active_num:
  assumes "slots_ok m e"
  shows "length (filter (active_at e) [0..<copyNum e]) \<le> m"
proof -
  let ?A = "{j. j < copyNum e \<and> active_at e j}"
  have "length (filter (active_at e) [0..<copyNum e]) = card ?A"
    by (simp add: length_filter_conv_card cong: conj_cong)
  also have "\<dots> \<le> card {..<m}"
    by (rule card_inj_on_le [OF active_slots(1) [OF assms]]) (use active_slots(2) [OF assms] in auto)
  finally show ?thesis by simp
qed

section \<open>Changes that keep the slots\<close>

text \<open>The same copies in the same slots, possibly in other active states.\<close>

definition moves :: "pt_entry \<Rightarrow> pt_entry \<Rightarrow> bool" where
  "moves e e' \<longleftrightarrow> copyNum e' = copyNum e \<and> length (copyList e') = length (copyList e) \<and>
     (\<forall>i<length (copyList e). cnode (copyList e' ! i) = cnode (copyList e ! i) \<and>
        cdisk (copyList e' ! i) = cdisk (copyList e ! i) \<and> active_at e' i = active_at e i)"

lemma moves_refl [simp]: "moves e e" by (simp add: moves_def)

lemma moves_trans: "moves a b \<Longrightarrow> moves b c \<Longrightarrow> moves a c" by (auto simp: moves_def)

lemma moves_slots_ok:
  assumes "moves e e'" "slots_ok m e"
  shows "slots_ok m e'"
proof -
  note d = slots_okD [OF assms(2)]
  have c: "copyNum e' = copyNum e" "length (copyList e') = PT_MAX_COPY_INDEX"
    using assms(1) d(1) by (auto simp: moves_def)
  have at: "cnode (copyList e' ! i) = cnode (copyList e ! i)" "active_at e' i = active_at e i"
    if "i < PT_MAX_COPY_INDEX" for i using that assms(1) d(1) by (auto simp: moves_def)
  have lim: "i < m \<Longrightarrow> i + m < PT_MAX_COPY_INDEX" "i < copyNum e \<Longrightarrow> i < PT_MAX_COPY_INDEX" for i
    using d by auto
  show ?thesis
    using assms(2) d c at lim unfolding slots_ok_def by (simp add: order_less_le_trans)
qed

lemma upd_copy_moves:
  assumes "i < length (copyList e)" "\<And>c. cnode (f c) = cnode c \<and> cdisk (f c) = cdisk c"
    "active (cstate (f (copyList e ! i))) = active_at e i"
  shows "moves e (upd_copy i f e)"
  using assms by (auto simp: moves_def upd_copy_nth)

lemma running_num_cong:
  assumes "copyNum e' = copyNum e" "\<And>i. i < copyNum e \<Longrightarrow> running_at e' i = running_at e i"
  shows "running_num e' = running_num e"
  using assms by (simp add: running_num_card cong: conj_cong)

lemma UpdateKeepAlive_nth:
  assumes "i < length (copyList e)"
  shows "cnode (copyList (ViewPtUpdateCopyKeepAlive n e) ! i) = cnode (copyList e ! i)"
    "cdisk (copyList (ViewPtUpdateCopyKeepAlive n e) ! i) = cdisk (copyList e ! i)"
    "cstate (copyList (ViewPtUpdateCopyKeepAlive n e) ! i) = cstate (copyList e ! i)"
  using assms by (auto simp: ViewPtUpdateCopyKeepAlive_def Let_def nth_map_first)

lemma UpdateKeepAlive_frame [simp]:
  "copyNum (ViewPtUpdateCopyKeepAlive n e) = copyNum e" "birthVersion (ViewPtUpdateCopyKeepAlive n e) = birthVersion e"
  "pstate (ViewPtUpdateCopyKeepAlive n e) = pstate e"
  "masterNodeId (ViewPtUpdateCopyKeepAlive n e) = masterNodeId e" "masterDiskId (ViewPtUpdateCopyKeepAlive n e) = masterDiskId e"
  "length (copyList (ViewPtUpdateCopyKeepAlive n e)) = length (copyList e)"
  by (simp_all add: ViewPtUpdateCopyKeepAlive_def Let_def)

lemma UpdateKeepAlive_moves: "moves e (ViewPtUpdateCopyKeepAlive n e)"
  by (simp add: moves_def UpdateKeepAlive_nth)

lemma UpdatePtState_frame [simp]:
  "copyNum (ViewPtEntryUpdatePtState l e) = copyNum e" "copyList (ViewPtEntryUpdatePtState l e) = copyList e"
  "birthVersion (ViewPtEntryUpdatePtState l e) = birthVersion e"
  "running_at (ViewPtEntryUpdatePtState l e) = running_at e"
  by (simp_all add: ViewPtEntryUpdatePtState_def Let_def running_at_def fun_eq_iff)

lemma UpdatePtState_moves: "moves e (ViewPtEntryUpdatePtState l e)"
  by (simp add: moves_def)

lemma UpdatePtState_ok:
  assumes "slots_ok (maxCopyNum l) e"
  shows "entry_ok l (ViewPtEntryUpdatePtState l e)"
proof -
  let ?e = "ViewPtEntryUpdatePtState l e" and ?run = "filter (running_at e) [0..<copyNum e]"
  have n: "running_num ?e = running_num e" by (rule running_num_cong) simp_all
  have "consistent l ?e" unfolding consistent_def n
    by (simp add: ViewPtEntryUpdatePtState_def Let_def running_num_def)
  moreover have "master_ok ?e" unfolding master_ok_def n
  proof
    assume "running_num e \<noteq> 0"
    then have ne: "?run \<noteq> []" by (auto simp: running_num_def)
    show "\<exists>i<copyNum ?e. running_at ?e i \<and> is_master ?e i"
    proof (cases "list_ex (is_master e) ?run")
      case True
      then show ?thesis by (auto simp: list_ex_iff ViewPtEntryUpdatePtState_def Let_def is_master_def running_at_def)
    next
      case False
      from ne have "hd ?run \<in> set ?run" by (rule list.set_sel(1))
      with False ne show ?thesis
        by (intro exI [of _ "hd ?run"]) (auto simp: ViewPtEntryUpdatePtState_def Let_def is_master_def running_at_def)
    qed
  qed
  ultimately show ?thesis using moves_slots_ok [OF UpdatePtState_moves assms] by (simp add: entry_ok_def)
qed

lemma down_copy_moves:
  assumes "i < length (copyList e)" "active_at e i"
  shows "moves e (down_copy i e)"
  using upd_copy_moves [OF assms(1), of "\<lambda>c. c\<lparr>cstate := PT_COPY_STATE_DOWN\<rparr>"] assms(2)
  by (simp add: down_copy_def moves_def active_def)

lemma down_copy_nth:
  "j < length (copyList e) \<Longrightarrow> copyList (down_copy i e) ! j =
     (if j = i then (copyList e ! j)\<lparr>cstate := PT_COPY_STATE_DOWN\<rparr> else copyList e ! j)"
  by (simp add: down_copy_def upd_copy_nth)

lemma down_recovery_ok:
  assumes "entry_ok l e" "i < copyNum e" "cstate (copyList e ! i) = PT_COPY_STATE_RECOVERY"
  shows "entry_ok l (down_copy i e)"
proof -
  have s: "slots_ok (maxCopyNum l) e" using assms(1) by (simp add: entry_ok_def)
  note d = slots_okD [OF s]
  have f: "copyNum (down_copy i e) = copyNum e" "masterNodeId (down_copy i e) = masterNodeId e"
    "masterDiskId (down_copy i e) = masterDiskId e" "pstate (down_copy i e) = pstate e" by (simp_all add: down_copy_def)
  have r: "running_at (down_copy i e) j = running_at e j" "is_master (down_copy i e) j = is_master e j"
    if "j < copyNum e" for j
    using that d assms(3) by (auto simp: running_at_def is_master_def down_copy_nth f)
  have n: "running_num (down_copy i e) = running_num e" by (rule running_num_cong) (simp_all add: f r)
  have "consistent l (down_copy i e)" using assms(1) by (simp add: entry_ok_def consistent_def n f)
  moreover have "master_ok (down_copy i e)" using assms(1) r by (auto simp: entry_ok_def master_ok_def n f)
  moreover have "slots_ok (maxCopyNum l) (down_copy i e)"
    using moves_slots_ok [OF down_copy_moves s] d assms(2,3) by (simp add: active_def)
  ultimately show ?thesis by (simp add: entry_ok_def)
qed

lemma down_running_ok:
  assumes "slots_ok (maxCopyNum l) e" "i < copyNum e" "cstate (copyList e ! i) = PT_COPY_STATE_RUNNING"
  shows "entry_ok l (ViewPtEntryUpdatePtState l (ViewPtUpdateCopyKeepAlive n (down_copy i e)))"
  using slots_okD [OF assms(1)] assms
  by (intro UpdatePtState_ok moves_slots_ok [OF UpdateKeepAlive_moves] moves_slots_ok [OF down_copy_moves assms(1)])
    (simp_all add: active_def)

lemma down_entry_ok:
  assumes "entry_ok l e" "set is \<subseteq> {..<copyNum e}"
  shows "entry_ok l (snd (down_entry nodeId l is e))"
  using assms
proof (induction "is")
  case (Cons i "is")
  have "slots_ok (maxCopyNum l) e" using Cons.prems(1) by (simp add: entry_ok_def)
  with Cons down_running_ok [of l e i "minCopyNum l"] down_recovery_ok [of l e i] show ?case by (auto simp: Let_def)
qed simp

lemma up_copy_moves:
  assumes "i < length (copyList e)" "active_at e i"
  shows "moves e (ViewPtUpdateCopyState i n (e\<lparr>referNum := r\<rparr>))"
  using assms by (auto simp: ViewPtUpdateCopyState_def Let_def moves_def upd_copy_nth active_def)

lemma up_entry_ok:
  assumes "entry_ok l e" "set is \<subseteq> {..<copyNum e}"
  shows "entry_ok l (snd (up_entry nodeId info l is e))"
  using assms
proof (induction "is")
  case (Cons i "is")
  have s: "slots_ok (maxCopyNum l) e" using Cons.prems(1) by (simp add: entry_ok_def)
  have i: "i < copyNum e" "i < length (copyList e)" using Cons.prems(2) slots_okD [OF s] by auto
  have "cstate (copyList e ! i) = PT_COPY_STATE_DOWN \<Longrightarrow>
      entry_ok l (ViewPtEntryUpdatePtState l (ViewPtUpdateCopyState i (minCopyNum l) (e\<lparr>referNum := inc56 (referNum e)\<rparr>)))"
    using i by (intro UpdatePtState_ok moves_slots_ok [OF up_copy_moves s]) (simp_all add: active_def)
  with Cons i s down_running_ok [of l e i "minCopyNum l"] down_recovery_ok [of l e i] show ?case
    by (auto simp: Let_def)
qed simp

lemma each_entry_ok:
  assumes "list_ok l" "\<And>e. entry_ok l e \<Longrightarrow> entry_ok l (snd (f e))"
  shows "list_ok (snd (each_entry f change l))"
proof -
  have eq: "entry_ok (l\<lparr>entries := es\<rparr>) = entry_ok l" for es
    by (simp add: fun_eq_iff entry_ok_def consistent_def)
  show ?thesis using assms by (simp add: list_ok_def each_entry_def eq nth_map_first)
qed

section \<open>Trimming\<close>

lemma trim_slots_frame [simp]:
  "copyNum (trim_slots n is e) = copyNum e" "birthVersion (trim_slots n is e) = birthVersion e"
  "masterNodeId (trim_slots n is e) = masterNodeId e" "masterDiskId (trim_slots n is e) = masterDiskId e"
  "length (copyList (trim_slots n is e)) = length (copyList e)"
  by (induction n "is" e rule: trim_slots.induct) simp_all

lemma out_copy_simps [simp]: "cstate out_copy = PT_COPY_STATE_OUT" "\<not> active PT_COPY_STATE_OUT"
  by (simp_all add: out_copy_def active_def)

lemma trim_slots_nth:
  assumes "2 * n \<le> length (copyList e)" "distinct is" "set is \<subseteq> {..<n}" "j < length (copyList e)"
  shows "copyList (trim_slots n is e) ! j =
     (if j \<in> set is \<and> \<not> running_at e j \<and> running_at e (j + n) then copyList e ! (j + n)
      else if n \<le> j \<and> j - n \<in> set is \<and> \<not> running_at e (j - n) \<and> running_at e j then out_copy
      else copyList e ! j)"
  using assms
proof (induction n "is" e rule: trim_slots.induct)
  case (2 n i "is" e)
  have i: "i < n" "i + n < length (copyList e)" "i \<notin> set is" using "2.prems" by auto
  show ?case
  proof (cases "\<not> running_at e i \<and> running_at e (i + n)")
    case False
    then have "trim_slots n (i # is) e = trim_slots n is e" by auto
    moreover have "copyList (trim_slots n is e) ! j =
       (if j \<in> set is \<and> \<not> running_at e j \<and> running_at e (j + n) then copyList e ! (j + n)
        else if n \<le> j \<and> j - n \<in> set is \<and> \<not> running_at e (j - n) \<and> running_at e j then out_copy else copyList e ! j)"
      using "2.IH" "2.prems" False by (cases "running_at e i") auto
    ultimately show ?thesis using False i by auto
  next
    case True
    let ?e = "e\<lparr>copyList := (copyList e)[i := copyList e ! (i + n), i + n := out_copy]\<rparr>"
    have nth: "copyList ?e ! k = (if k = i then copyList e ! (i + n) else if k = i + n then out_copy else copyList e ! k)"
      if "k < length (copyList e)" for k using that i by (auto simp: nth_list_update)
    have run: "running_at ?e k = (if k = i then True else if k = i + n then False else running_at e k)"
      if "k < length (copyList e)" for k using that True i by (auto simp: running_at_def nth)
    have "copyList (trim_slots n is ?e) ! j =
       (if j \<in> set is \<and> \<not> running_at ?e j \<and> running_at ?e (j + n) then copyList ?e ! (j + n)
        else if n \<le> j \<and> j - n \<in> set is \<and> \<not> running_at ?e (j - n) \<and> running_at ?e j then out_copy else copyList ?e ! j)"
      using "2.IH"(2) "2.prems" True by simp
    moreover have "k < n \<Longrightarrow> k < length (copyList e) \<and> k + n < length (copyList e)" for k using "2.prems"(1) by auto
    ultimately show ?thesis using True i "2.prems"(3,4) by (auto simp: nth run)
  qed
qed simp

text \<open>With one copy per slot or its extension, \<open>m\<close> running copies mean one for each slot.\<close>

lemma all_slots_run:
  assumes "slots_ok m e" "running_num e = m" "i < m"
  shows "running_at e i \<or> (running_at e (i + m) \<and> copyNum e = 2 * m)"
proof -
  note d = slots_okD [OF assms(1)]
  let ?R = "{i. i < copyNum e \<and> running_at e i}"
  have act: "running_at e i \<Longrightarrow> active_at e i" for i by (simp add: running_at_def active_def)
  have pair: "\<not> (running_at e k \<and> running_at e (k + m))" if "k < m" for k
    using assms(1) that act by (auto simp: slots_ok_def)
  have inj: "inj_on (\<lambda>i. i mod m) ?R"
  proof (rule inj_onI)
    fix x y assume h: "x \<in> ?R" "y \<in> ?R" "x mod m = y mod m"
    then have "x < 2 * m" "y < 2 * m" using d(4) by auto
    then have "x = x mod m \<or> x = x mod m + m" "y = y mod m \<or> y = y mod m + m"
      using d(2) by (auto simp: mod_if not_less split: if_splits)
    with h pair [of "x mod m"] d(2) show "x = y" by auto
  qed
  have "(\<lambda>i. i mod m) ` ?R \<subseteq> {..<m}" using d(2) by auto
  moreover have "card ((\<lambda>i. i mod m) ` ?R) = m" using card_image [OF inj] assms(2) by (simp add: running_num_card)
  ultimately have "(\<lambda>i. i mod m) ` ?R = {..<m}" by (intro card_subset_eq) auto
  with assms(3) obtain x where x: "x < copyNum e" "running_at e x" "x mod m = i" by (metis (no_types, lifting) imageE lessThan_iff mem_Collect_eq)
  show ?thesis
  proof (cases "x < m")
    case True
    with x show ?thesis by simp
  next
    case False
    with x(1) d(4) have c: "copyNum e = 2 * m" "x - m < m" by auto
    then have "x mod m = x - m" using False by (simp add: mod_if)
    with x False c(1) show ?thesis by auto
  qed
qed

text \<open>After trimming every slot holds a running copy, all extensions are unused.\<close>

lemma trim_full:
  assumes "slots_ok m e" "running_num e = m"
  defines "e1 \<equiv> (trim_slots m [0..<m] e)\<lparr>pstate := PT_STATE_NORMAL, copyNum := m\<rparr>"
  shows "i < m \<Longrightarrow> \<exists>k<copyNum e. running_at e k \<and> copyList e1 ! i = copyList e ! k \<and> k mod m = i"
    "m \<le> i \<Longrightarrow> i < PT_MAX_COPY_INDEX \<Longrightarrow> \<not> active_at e1 i"
    "slots_ok m e1" "running_num e1 = m"
    "running_at e k \<Longrightarrow> k < copyNum e \<Longrightarrow> \<exists>i<m. copyList e1 ! i = copyList e ! k"
proof -
  note d = slots_okD [OF assms(1)]
  have act: "running_at e i \<Longrightarrow> active_at e i" for i by (simp add: running_at_def active_def)
  have pair: "\<not> (active_at e k \<and> active_at e (k + m))" if "k < m" for k using assms(1) that by (auto simp: slots_ok_def)
  have len: "2 * m \<le> length (copyList e)" using d by simp
  have nth: "copyList e1 ! j =
     (if j \<in> set [0..<m] \<and> \<not> running_at e j \<and> running_at e (j + m) then copyList e ! (j + m)
      else if m \<le> j \<and> j - m \<in> set [0..<m] \<and> \<not> running_at e (j - m) \<and> running_at e j then out_copy
      else copyList e ! j)" if "j < PT_MAX_COPY_INDEX" for j
  proof -
    have "set [0..<m] \<subseteq> {..<m}" "j < length (copyList e)" using that d(1) by auto
    from trim_slots_nth [OF len distinct_upt this] show ?thesis by (simp add: e1_def)
  qed
  have lt: "i < m \<Longrightarrow> i < PT_MAX_COPY_INDEX \<and> i + m < PT_MAX_COPY_INDEX" for i using d by auto
  show base: "\<exists>k<copyNum e. running_at e k \<and> copyList e1 ! i = copyList e ! k \<and> k mod m = i" if "i < m" for i
  proof (cases "running_at e i")
    case True
    with that nth [of i] lt [of i] d show ?thesis by (intro exI [of _ i]) auto
  next
    case False
    with all_slots_run [OF assms(1,2) that] have "running_at e (i + m)" "copyNum e = 2 * m" by auto
    with False that nth [of i] lt [of i] show ?thesis by (intro exI [of _ "i + m"]) auto
  qed
  show ext: "\<not> active_at e1 i" if "m \<le> i" "i < PT_MAX_COPY_INDEX" for i
  proof (cases "i < 2 * m")
    case True
    define k where "k = i - m"
    then have k: "i = k + m" "k < m" using that True by auto
    show ?thesis
    proof (cases "running_at e k")
      case True
      with pair [OF k(2)] act nth [OF that(2)] k show ?thesis by auto
    next
      case False
      with all_slots_run [OF assms(1,2) k(2)] nth [OF that(2)] k show ?thesis by auto
    qed
  next
    case False
    then have "copyNum e \<le> i" using d(4) by auto
    then have "\<not> active_at e i" using assms(1) that(2) by (auto simp: slots_ok_def)
    moreover have "copyList e1 ! i = copyList e ! i" using nth [OF that(2)] False by auto
    ultimately show ?thesis by simp
  qed
  have run: "running_at e1 i" if "i < m" for i using base [OF that] by (auto simp: running_at_def)
  show "running_num e1 = m"
  proof -
    have "{i. i < copyNum e1 \<and> running_at e1 i} = {..<m}" using run by (auto simp: e1_def)
    then show ?thesis by (simp add: running_num_card)
  qed
  have f: "copyNum e1 = m" "length (copyList e1) = PT_MAX_COPY_INDEX" using d(1) by (simp_all add: e1_def)
  have nodes: "cnode (copyList e1 ! i) \<noteq> cnode (copyList e1 ! j)" if ij: "i < m" "j < m" "i \<noteq> j" for i j
  proof -
    obtain x y where "x < copyNum e" "running_at e x" "copyList e1 ! i = copyList e ! x" "x mod m = i"
      "y < copyNum e" "running_at e y" "copyList e1 ! j = copyList e ! y" "y mod m = j"
      using base [OF ij(1)] base [OF ij(2)] by blast
    moreover from this ij(3) have "x \<noteq> y" by auto
    ultimately show ?thesis using assms(1) act by (auto simp: slots_ok_def)
  qed
  show "slots_ok m e1" unfolding slots_ok_def f using d(2,3) ext lt nodes by auto
  show "\<exists>i<m. copyList e1 ! i = copyList e ! k" if "running_at e k" "k < copyNum e"
  proof (cases "k < m")
    case True
    with that nth [of k] lt show ?thesis by (intro exI [of _ k]) auto
  next
    case False
    with that(2) d(4) have k: "k - m < m" "k = (k - m) + m" by auto
    have "\<not> running_at e (k - m)" using pair [OF k(1)] act that(1) k(2) by auto
    with that k nth [of "k - m"] lt [OF k(1)] show ?thesis by (intro exI [of _ "k - m"]) auto
  qed
qed

section \<open>Recovery\<close>

text \<open>The nodes an entry mentions are nodes of the cluster.\<close>

definition nodes_in :: "nat \<Rightarrow> pt_entry \<Rightarrow> bool" where
  "nodes_in N e \<longleftrightarrow> masterNodeId e < N \<and> (\<forall>i<copyNum e. active_at e i \<longrightarrow> cnode (copyList e ! i) < N)"

lemma running_active: "running_at e i \<Longrightarrow> active_at e i"
  by (simp add: running_at_def active_def)

lemma moves_nodes_in:
  assumes "moves e e'" "masterNodeId e' = masterNodeId e" "nodes_in N e" "copyNum e \<le> length (copyList e)"
  shows "nodes_in N e'"
  using assms by (auto simp: moves_def nodes_in_def)

lemma UpdatePtState_nodes_in:
  assumes "nodes_in N e"
  shows "nodes_in N (ViewPtEntryUpdatePtState l e)"
proof -
  let ?run = "filter (running_at e) [0..<copyNum e]"
  have "masterNodeId (ViewPtEntryUpdatePtState l e) < N"
  proof (cases "\<not> list_ex (is_master e) ?run \<and> ?run \<noteq> []")
    case True
    then have "hd ?run \<in> set ?run" by (intro list.set_sel(1)) simp
    with assms True running_active [of e "hd ?run"] show ?thesis
      by (auto simp: ViewPtEntryUpdatePtState_def Let_def nodes_in_def)
  next
    case False
    with assms show ?thesis by (auto simp: ViewPtEntryUpdatePtState_def Let_def nodes_in_def)
  qed
  with assms show ?thesis by (simp add: nodes_in_def)
qed

lemma Trim_ok:
  assumes s: "slots_ok (maxCopyNum l) e" and full: "running_num e = maxCopyNum l" and mo: "master_ok e"
    and n: "nodes_in N e" "nodeId < N" "length masters = N" and mm: "minCopyNum l \<le> maxCopyNum l"
  shows "\<exists>e' ms. ViewPtEntryTrim (maxCopyNum l) num masters nodeId v e = Some (True, e', ms) \<and>
     entry_ok l e' \<and> nodes_in N e' \<and> length ms = N \<and> birthVersion e' = birthVersion e"
proof -
  let ?m = "maxCopyNum l"
  let ?e1 = "(trim_slots ?m [0..<?m] e)\<lparr>pstate := PT_STATE_NORMAL, copyNum := ?m\<rparr>"
  note d = slots_okD [OF s] and tf = trim_full [OF s full]
  have f: "masterNodeId ?e1 = masterNodeId e" "masterDiskId ?e1 = masterDiskId e" "birthVersion ?e1 = birthVersion e"
    "copyNum ?e1 = ?m" by simp_all
  have run: "running_at ?e1 i" if "i < ?m" for i using tf(1) [OF that] by (auto simp: running_at_def)
  have node: "cnode (copyList ?e1 ! i) < N" if "i < ?m" for i
    using tf(1) [OF that] n(1) by (auto simp: nodes_in_def running_active)
  have "running_num (?e1\<lparr>masterNodeId := a, masterDiskId := b, referNum := c\<rparr>) = running_num ?e1" for a b c
    by (rule running_num_cong) (simp_all add: running_at_def)
  then have cons: "consistent l (?e1\<lparr>masterNodeId := a, masterDiskId := b, referNum := c\<rparr>)" "consistent l ?e1" for a b c
    using tf(4) mm by (simp_all add: consistent_def state_for_def)
  have n1: "nodes_in N ?e1" using n(1) node by (simp add: nodes_in_def)
  obtain k where k: "k < copyNum e" "running_at e k" "is_master e k" using mo full d(2) by (auto simp: master_ok_def)
  from tf(5) [OF k(2,1)] obtain i where "i < ?m" "copyList ?e1 ! i = copyList e ! k" by blast
  with k(3) have "is_master ?e1 i" "i < ?m" by (simp_all add: is_master_def)
  with run have "master_ok ?e1" by (auto simp: master_ok_def)
  then have ok1: "entry_ok l ?e1" using tf(3) cons(2) by (simp add: entry_ok_def)
  let ?is = "filter (\<lambda>i. cnode (copyList ?e1 ! i) = nodeId) [0..<?m]"
  let ?e2 = "?e1\<lparr>masterNodeId := cnode (copyList ?e1 ! last ?is), masterDiskId := cdisk (copyList ?e1 ! last ?is),
      referNum := inc56 (referNum ?e1)\<rparr>"
  have ok2: "entry_ok l ?e2" "nodes_in N ?e2" if "?is \<noteq> []"
  proof -
    from that have "last ?is \<in> set ?is" by (rule last_in_set)
    then have li: "last ?is < ?m" by auto
    have "slots_ok ?m ?e2" by (rule moves_slots_ok [OF _ tf(3)]) (simp add: moves_def)
    moreover have "master_ok ?e2" using li run
      by (auto simp: master_ok_def is_master_def running_at_def intro!: exI [of _ "last ?is"])
    ultimately show "entry_ok l ?e2" using cons(1) by (simp add: entry_ok_def)
    show "nodes_in N ?e2" using node li by (simp add: nodes_in_def)
  qed
  show ?thesis
    using ok1 n1 ok2 n(1-3) full
    by (auto simp: ViewPtEntryTrim_def Let_def nodes_in_def split: list.split)
qed

lemma finish_entry_ok:
  assumes ok: "entry_ok l e" and n: "nodes_in N e" "nodeId < N" "length masters = N" and mm: "minCopyNum l \<le> maxCopyNum l"
    and pos: "running_num e \<noteq> 0"
  shows "\<exists>found e' ms. finish_entry nodeId v l masters e = Some (found, e', ms) \<and>
     entry_ok l e' \<and> nodes_in N e' \<and> length ms = N \<and> birthVersion e' = birthVersion e"
proof (cases "find (\<lambda>i. cnode (copyList e ! i) = nodeId \<and> cstate (copyList e ! i) = PT_COPY_STATE_RECOVERY) [0..<copyNum e]")
  case None
  with assms show ?thesis by (intro exI [of _ False] exI [of _ e] exI [of _ masters]) (simp add: finish_entry_def)
next
  case (Some i)
  then have i: "i < copyNum e" "cstate (copyList e ! i) = PT_COPY_STATE_RECOVERY" by (auto simp: find_Some_iff)
  have s: "slots_ok (maxCopyNum l) e" using ok by (simp add: entry_ok_def)
  note d = slots_okD [OF s]
  let ?u = "upd_copy i (\<lambda>c. c\<lparr>cstate := PT_COPY_STATE_RUNNING\<rparr>) e"
  let ?e1 = "ViewPtUpdateCopyKeepAlive (minCopyNum l) ?u"
  have mv: "moves e ?e1"
    using i d by (intro moves_trans [OF upd_copy_moves UpdateKeepAlive_moves]) (simp_all add: active_def)
  have s1: "slots_ok (maxCopyNum l) ?e1" using moves_slots_ok [OF mv s] .
  have n1: "nodes_in N ?e1" using moves_nodes_in [OF mv _ n(1)] d by simp
  show ?thesis
  proof (cases "running_num ?e1 = maxCopyNum l")
    case True
    have "master_ok ?e1"
    proof -
      have keep: "running_at ?e1 j" "is_master ?e1 j = is_master e j" if "running_at e j" "j < copyNum e" for j
        using that d i by (auto simp: running_at_def is_master_def UpdateKeepAlive_nth upd_copy_nth)
      with ok pos show ?thesis by (auto simp: entry_ok_def master_ok_def)
    qed
    from Trim_ok [OF s1 True this n1 n(2,3) mm, of "ptNum l" v] obtain e' ms where
      "ViewPtEntryTrim (maxCopyNum l) (ptNum l) masters nodeId v ?e1 = Some (True, e', ms)"
      "entry_ok l e'" "nodes_in N e'" "length ms = N" "birthVersion e' = birthVersion e" by auto
    with Some show ?thesis by (intro exI [of _ True] exI [of _ e'] exI [of _ ms]) (simp add: finish_entry_def)
  next
    case False
    then have "ViewPtEntryTrim (maxCopyNum l) (ptNum l) masters nodeId v ?e1 = Some (False, ?e1, masters)"
      by (simp add: ViewPtEntryTrim_def)
    with Some UpdatePtState_ok [OF s1] UpdatePtState_nodes_in [OF n1] n(3) show ?thesis
      by (auto simp: finish_entry_def)
  qed
qed

lemma entry_ok_entries [simp]: "entry_ok (l\<lparr>entries := es\<rparr>) = entry_ok l"
  by (simp add: fun_eq_iff entry_ok_def consistent_def)

lemma finish_loop_ok:
  assumes "list_ok l" "\<forall>p<ptNum l. nodes_in N (entries l ! p)" "nodeId < N" "length masters = N"
  shows "\<exists>ch l'. finish_loop nodeId v pts masters change l = Some (ch, l') \<and> list_ok l' \<and>
     (\<forall>p<ptNum l'. nodes_in N (entries l' ! p)) \<and> ptNum l' = ptNum l \<and> length (entries l') = length (entries l)"
  using assms
proof (induction pts arbitrary: masters change l)
  case (Cons p ps)
  let ?e = "entries l ! fptId p"
  show ?case
  proof (cases "fptId p < ptNum l \<and> birthVersion ?e = fbirthVersion p \<and> ViewPtSatisfiedCopyNum (minCopyNum l) ?e")
    case False
    then have "finish_loop nodeId v (p # ps) masters change l = finish_loop nodeId v ps masters change l"
      by (auto simp: Let_def)
    with Cons show ?thesis by auto
  next
    case True
    then have "entry_ok l ?e" "nodes_in N ?e" "minCopyNum l \<le> maxCopyNum l" "running_num ?e \<noteq> 0"
      using Cons.prems(1,2) by (auto simp: list_ok_def ViewPtSatisfiedCopyNum_def)
    from finish_entry_ok [OF this(1,2) Cons.prems(3,4) this(3,4), of v] obtain found e' ms where
      r: "finish_entry nodeId v l masters ?e = Some (found, e', ms)" "entry_ok l e'" "nodes_in N e'" "length ms = N" by blast
    let ?l = "l\<lparr>entries := (entries l)[fptId p := e']\<rparr>"
    have "list_ok ?l" "\<forall>q<ptNum ?l. nodes_in N (entries ?l ! q)"
      using Cons.prems(1,2) r True by (auto simp: list_ok_def nth_list_update)
    from Cons.IH [OF this Cons.prems(3) r(4), of "change \<or> found"] r(1) True show ?thesis by auto
  qed
qed simp

lemma GenMasterList_length: "length (GenMasterList n l) = n"
proof -
  have "length (fold (\<lambda>e ms. if masterNodeId e < n
      then ms[masterNodeId e := (ms ! masterNodeId e + 1) mod 2 ^ 16] else ms) es ms) = length ms" for es :: "pt_entry list" and ms :: "nat list"
    by (induction es arbitrary: ms) auto
  then show ?thesis unfolding GenMasterList_def by (simp only: length_replicate)
qed

section \<open>What a node's failure and return do to a copy\<close>

lemma down_entry_clears:
  assumes "slots_ok m e" "set is \<subseteq> {..<copyNum e}" "i \<in> set is" "cnode (copyList e ! i) = nodeId"
  shows "let e' = snd (down_entry nodeId l is e) in
     \<not> running_at e' i \<and> cstate (copyList e' ! i) \<noteq> PT_COPY_STATE_RECOVERY"
  using assms(2,3)
proof (induction "is")
  case (Cons k "is")
  note d = slots_okD [OF assms(1)]
  have lk: "k < length (copyList e)" "i < length (copyList e)" using Cons.prems d by auto
  have other: "\<not> active_at e i" if "k \<noteq> i" "active_at e k" "cnode (copyList e ! k) = nodeId"
    using assms(1,4) that Cons.prems unfolding slots_ok_def by auto
  let ?c = "copyList e ! k"
  consider "cnode ?c = nodeId" "cstate ?c = PT_COPY_STATE_RUNNING" | "cnode ?c = nodeId" "cstate ?c = PT_COPY_STATE_RECOVERY"
    | "cnode ?c \<noteq> nodeId \<or> (cstate ?c \<noteq> PT_COPY_STATE_RUNNING \<and> cstate ?c \<noteq> PT_COPY_STATE_RECOVERY)" by blast
  then show ?case
  proof cases
    case 1
    with other lk show ?thesis
      by (cases "k = i") (auto simp: Let_def running_at_def UpdateKeepAlive_nth down_copy_nth down_copy_def active_def upd_copy_nth)
  next
    case 2
    with other lk show ?thesis
      by (cases "k = i") (auto simp: Let_def running_at_def down_copy_nth active_def)
  next
    case 3
    then have skip: "down_entry nodeId l (k # is) e = down_entry nodeId l is e" by (auto simp: Let_def)
    show ?thesis
    proof (cases "i \<in> set is")
      case True
      with Cons skip show ?thesis by simp
    next
      case False
      with Cons.prems have "k = i" by auto
      with 3 assms(4) have st: "cstate (copyList e ! i) \<noteq> PT_COPY_STATE_RUNNING" "cstate (copyList e ! i) \<noteq> PT_COPY_STATE_RECOVERY" by auto
      have "cstate (copyList (snd (down_entry nodeId l ks e)) ! i) = cstate (copyList e ! i) \<or>
          cstate (copyList (snd (down_entry nodeId l ks e)) ! i) = PT_COPY_STATE_DOWN" if "set ks \<subseteq> {..<copyNum e}" for ks
        using that lk(2) by (induction ks) (auto simp: Let_def UpdateKeepAlive_nth down_copy_nth down_copy_def upd_copy_nth)
      from this [of "is"] Cons.prems(1) st skip show ?thesis by (auto simp: Let_def running_at_def)
    qed
  qed
qed simp

lemma up_entry_running:
  assumes "i < length (copyList e)" "running_at (snd (up_entry nodeId info l is e)) i"
  shows "running_at e i \<or>
    (cstate (copyList e ! i) = PT_COPY_STATE_DOWN \<and> cnode (copyList e ! i) = nodeId \<and>
     keepAlive (copyList e ! i) \<and> running_num e < minCopyNum l)"
  using assms
proof (induction "is")
  case (Cons k "is")
  have rn: "running_num (e\<lparr>referNum := r\<rparr>) = running_num e" for r
    by (rule running_num_cong) (simp_all add: running_at_def)
  show ?case using Cons
    by (cases "k = i")
      (auto simp: Let_def running_at_def UpdateKeepAlive_nth down_copy_nth down_copy_def upd_copy_nth
        ViewPtUpdateCopyState_def rn split: if_splits)
qed simp

lemma down_entry_running:
  assumes "i < length (copyList e)" "running_at (snd (down_entry nodeId l is e)) i"
  shows "running_at e i"
  using assms
  by (induction "is")
    (auto simp: Let_def running_at_def UpdateKeepAlive_nth down_copy_nth down_copy_def upd_copy_nth split: if_splits)

section \<open>Properties\<close>

text \<open>An example: two partitions with three copies on the nodes 0 to 2, of which two are needed.\<close>

definition no_disks :: node_info where
  "no_disks = \<lparr>ndisks = [], nnets = [], nspare = [], nid = 0, nstatus = NODE_STATUS_OK, naddr = []\<rparr>"

definition ex_copy :: "nat \<Rightarrow> copy_state \<Rightarrow> pt_copy" where
  "ex_copy n st = \<lparr>cnode = n, cdisk = 0, keepAlive = False, cstate = st\<rparr>"

definition ex_entry :: "pt_state \<Rightarrow> copy_state \<Rightarrow> pt_entry" where
  "ex_entry ps st = \<lparr>birthVersion = 1, ptId = 0, pstate = ps, masterNodeId = 1, masterDiskId = 0, referNum = 0,
     copyNum = 3, copyList = [ex_copy 0 st, ex_copy 1 PT_COPY_STATE_RUNNING, ex_copy 2 PT_COPY_STATE_RUNNING,
       out_copy, out_copy, out_copy]\<rparr>"

definition ex_list :: "pt_state \<Rightarrow> copy_state \<Rightarrow> pt_list" where
  "ex_list ps st = \<lparr>poolId = 0, ptNum = 2, maxCopyNum = 3, minCopyNum = 2, globalVersion = 1, changeVersion = 1,
     entries = [ex_entry ps st, ex_entry ps st]\<rparr>"

lemma all_less_3: "(\<forall>i<3. P i) \<longleftrightarrow> P 0 \<and> P 1 \<and> P (2 :: nat)"
  by (auto simp: numeral_3_eq_3 numeral_2_eq_2 less_Suc_eq)

lemma all_less_6: "(\<forall>i<6. P i) \<longleftrightarrow> P 0 \<and> P 1 \<and> P 2 \<and> P 3 \<and> P 4 \<and> P (5 :: nat)"
proof -
  have "i < 6 \<longleftrightarrow> i = 0 \<or> i = 1 \<or> i = 2 \<or> i = 3 \<or> i = 4 \<or> i = (5 :: nat)" for i by arith
  then show ?thesis by auto
qed

lemma ex_running: "running_num (ex_entry ps st) = (if st = PT_COPY_STATE_RUNNING then 3 else 2)"
  by (simp add: running_num_def running_at_def ex_entry_def ex_copy_def upt_rec)

lemma ex_slots: "slots_ok 3 (ex_entry ps st)"
  by (simp add: slots_ok_def ex_entry_def ex_copy_def out_copy_def all_less_3 all_less_6 active_def)

lemma ex_master: "master_ok (ex_entry ps st)"
  unfolding master_ok_def by (intro impI exI [of _ 1]) (simp add: ex_entry_def ex_copy_def running_at_def is_master_def)

lemma ex_list_ok:
  "list_ok (ex_list PT_STATE_NORMAL PT_COPY_STATE_RUNNING)"
  "list_ok (ex_list PT_STATE_DEGRADE_LOSS1 PT_COPY_STATE_RECOVERY)"
  using ex_running ex_slots ex_master
  by (auto simp: list_ok_def ex_list_def entry_ok_def consistent_def state_for_def less_2_cases_iff)
     (simp_all add: ex_entry_def)

lemma NodeState_ok:
  assumes "list_ok l"
  shows "list_ok (snd (ViewPtEntryListUpdateNodeState nodeId state info change l))"
proof -
  have d: "list_ok (snd (ViewPtEntryListUpdateNodeDown nodeId change l))"
    unfolding ViewPtEntryListUpdateNodeDown_def by (rule each_entry_ok [OF assms down_entry_ok]) auto
  have u: "list_ok (snd (ViewPtEntryListUpdateNodeUp nodeId info change l))"
    using d unfolding ViewPtEntryListUpdateNodeUp_def
    by (auto intro!: each_entry_ok [OF assms up_entry_ok])
  show ?thesis using d u assms by (cases state) (simp_all add: ViewPtEntryListUpdateNodeState_def)
qed

text \<open>The nodes of the table and its head do not change.\<close>

lemma moved_nodes_in:
  assumes "slots_ok m e" "moves e e'" "masterNodeId e' = masterNodeId e" "nodes_in N e"
  shows "nodes_in N e'"
  by (rule moves_nodes_in [OF assms(2-4)]) (use slots_okD [OF assms(1)] in simp)

lemma down_entry_nodes:
  assumes "slots_ok m e" "nodes_in N e" "set is \<subseteq> {..<copyNum e}"
  shows "nodes_in N (snd (down_entry nodeId l is e))"
  using assms
proof (induction "is")
  case (Cons i "is")
  have i: "i < length (copyList e)" using Cons.prems(3) slots_okD [OF assms(1)] by auto
  have "nodes_in N (down_copy i e)" if "active_at e i"
    by (rule moved_nodes_in [OF assms(1) down_copy_moves [OF i that] _ assms(2)]) (simp add: down_copy_def)
  moreover have "nodes_in N (ViewPtEntryUpdatePtState l (ViewPtUpdateCopyKeepAlive (minCopyNum l) (down_copy i e)))" if "active_at e i"
  proof -
    have "moves e (ViewPtUpdateCopyKeepAlive (minCopyNum l) (down_copy i e))"
      by (rule moves_trans [OF down_copy_moves [OF i that] UpdateKeepAlive_moves])
    from moved_nodes_in [OF assms(1) this _ assms(2)] show ?thesis
      by (intro UpdatePtState_nodes_in) (simp add: down_copy_def)
  qed
  ultimately show ?case using Cons by (auto simp: Let_def active_def)
qed simp

lemma up_entry_nodes:
  assumes "slots_ok m e" "nodes_in N e" "set is \<subseteq> {..<copyNum e}"
  shows "nodes_in N (snd (up_entry nodeId info l is e))"
  using assms
proof (induction "is")
  case (Cons i "is")
  have i: "i < length (copyList e)" "set [i] \<subseteq> {..<copyNum e}" using Cons.prems(3) slots_okD [OF assms(1)] by auto
  have "nodes_in N (ViewPtEntryUpdatePtState l (ViewPtUpdateCopyState i (minCopyNum l) (e\<lparr>referNum := inc56 (referNum e)\<rparr>)))"
    if "active_at e i"
    by (intro UpdatePtState_nodes_in moved_nodes_in [OF assms(1) up_copy_moves [OF i(1) that] _ assms(2)])
      (simp add: ViewPtUpdateCopyState_def Let_def)
  moreover have "nodes_in N (snd (down_entry (cnode (copyList e ! i)) l [i] e))"
    by (rule down_entry_nodes [OF assms(1,2) i(2)])
  ultimately show ?case using Cons by (auto simp: Let_def active_def split: if_splits)
qed simp

lemma NodeState_nodes:
  assumes "list_ok l" "\<forall>p<ptNum l. nodes_in N (entries l ! p)"
  shows "\<forall>p<ptNum l. nodes_in N (entries (snd (ViewPtEntryListUpdateNodeState nodeId state info change l)) ! p)"
proof -
  have "\<forall>p<ptNum l. slots_ok (maxCopyNum l) (entries l ! p) \<and> p < length (entries l)"
    using assms(1) by (auto simp: list_ok_def entry_ok_def)
  moreover have "set [0..<copyNum e] \<subseteq> {..<copyNum e}" for e by auto
  ultimately show ?thesis using assms(2)
    by (cases state) (auto intro!: down_entry_nodes up_entry_nodes simp: ViewPtEntryListUpdateNodeState_def ViewPtEntryListUpdateNodeUp_def
      ViewPtEntryListUpdateNodeDown_def each_entry_def nth_map_first)
qed

lemma NodeState_head:
  "\<exists>es. snd (ViewPtEntryListUpdateNodeState nodeId state info change l) = l\<lparr>entries := es\<rparr> \<and> length es = length (entries l)"
proof (cases state)
  case NODE_STATE_INVALID
  then show ?thesis by (intro exI [of _ "entries l"]) (simp add: ViewPtEntryListUpdateNodeState_def)
qed (auto simp: ViewPtEntryListUpdateNodeState_def ViewPtEntryListUpdateNodeUp_def ViewPtEntryListUpdateNodeDown_def each_entry_def)

lemma finish_head:
  assumes "finish_loop nodeId v pts masters change l = Some (ch, l')"
  shows "\<exists>es. l' = l\<lparr>entries := es\<rparr>"
  using assms
proof (induction pts arbitrary: masters change l)
  case (Cons p ps)
  show ?case
  proof (cases "finish_loop nodeId v (p # ps) masters change l = finish_loop nodeId v ps masters change l")
    case True
    then show ?thesis using Cons by simp
  next
    case False
    then obtain f e' ms where "finish_entry nodeId v l masters (entries l ! fptId p) = Some (f, e', ms)"
      "finish_loop nodeId v ps ms (change \<or> f) (l\<lparr>entries := (entries l)[fptId p := e']\<rparr>) = Some (ch, l')"
      using Cons.prems by (auto simp: Let_def split: if_splits option.splits)
    from Cons.IH [OF this(2)] show ?thesis by auto
  qed
qed (auto intro: exI [of _ "entries l'"])

text \<open>
  (C7) Node events keep the table consistent: after \<open>ViewPtEntryListUpdateNodeState\<close>, whatever the new
  state of the node, its disks and networks, every partition again uses each slot or its extension
  and not both, has its copies on different nodes, has the state that belongs to the number of
  running copies, and has a running copy as master if there is one.
\<close>

theorem node_state_keeps_table:
  assumes "list_ok l"
  shows "list_ok (snd (ViewPtEntryListUpdateNodeState nodeId state info change l))"
  by (rule NodeState_ok [OF assms])

theorem node_state_keeps_table_witness:
  "list_ok (snd (ViewPtEntryListUpdateNodeState 2 NODE_STATE_DOWN no_disks False
     (ex_list PT_STATE_NORMAL PT_COPY_STATE_RUNNING)))"
  using node_state_keeps_table [OF ex_list_ok(1)] .

text \<open>
  (C9) A report of finished recoveries keeps the table consistent and is processed completely: with
  nodes numbered below \<open>nodeNum\<close>, \<open>ViewPtEntryListUpdateNodeFinish\<close> stays inside the list of
  master counts, and afterwards the table satisfies the same conditions.
\<close>

theorem node_finish_keeps_table:
  assumes "list_ok l" "\<forall>p<ptNum l. nodes_in nodeNum (entries l ! p)" "nodeId < nodeNum"
  shows "\<exists>ch l'. ViewPtEntryListUpdateNodeFinish mallocOk nodeId pts change nodeNum validNum l = Some (ch, l') \<and>
     list_ok l' \<and> (\<forall>p<ptNum l'. nodes_in nodeNum (entries l' ! p))"
  using finish_loop_ok [OF assms GenMasterList_length [of nodeNum l], where v = validNum and pts = pts and change = change] assms
  by (auto simp: ViewPtEntryListUpdateNodeFinish_def)

theorem node_finish_keeps_table_witness:
  "\<exists>ch l'. ViewPtEntryListUpdateNodeFinish True 0 [\<lparr>fptId = 1, fbirthVersion = 1\<rparr>] False 3 3
       (ex_list PT_STATE_DEGRADE_LOSS1 PT_COPY_STATE_RECOVERY) = Some (ch, l') \<and> list_ok l'"
proof -
  have "\<forall>p<ptNum (ex_list PT_STATE_DEGRADE_LOSS1 PT_COPY_STATE_RECOVERY).
      nodes_in 3 (entries (ex_list PT_STATE_DEGRADE_LOSS1 PT_COPY_STATE_RECOVERY) ! p)"
    by (auto simp: ex_list_def ex_entry_def ex_copy_def nodes_in_def less_Suc_eq numeral_nat)
  from node_finish_keeps_table [OF ex_list_ok(2) this, where nodeId = 0 and mallocOk = True and change = False and validNum = 3
      and pts = "[\<lparr>fptId = 1, fbirthVersion = 1\<rparr>]"] show ?thesis by simp blast
qed

text \<open>
  A node that goes down serves nothing: after \<open>ViewPtEntryListUpdateNodeDown\<close> no copy on it is
  running or recovering, in any partition.
\<close>

theorem node_down_clears:
  assumes "list_ok l" "p < ptNum l" "i < copyNum (entries l ! p)" "cnode (copyList (entries l ! p) ! i) = nodeId"
  shows "let e' = entries (snd (ViewPtEntryListUpdateNodeDown nodeId change l)) ! p in
     \<not> running_at e' i \<and> cstate (copyList e' ! i) \<noteq> PT_COPY_STATE_RECOVERY"
proof -
  have "slots_ok (maxCopyNum l) (entries l ! p)" "p < length (entries l)"
    using assms(1,2) by (auto simp: list_ok_def entry_ok_def)
  moreover have "set [0..<copyNum (entries l ! p)] \<subseteq> {..<copyNum (entries l ! p)}" by auto
  ultimately show ?thesis
    using down_entry_clears [of "maxCopyNum l" "entries l ! p" "[0..<copyNum (entries l ! p)]" i nodeId l] assms
    by (simp add: ViewPtEntryListUpdateNodeDown_def each_entry_def nth_map_first)
qed

theorem node_down_clears_witness:
  "let e' = entries (snd (ViewPtEntryListUpdateNodeDown 2 False (ex_list PT_STATE_NORMAL PT_COPY_STATE_RUNNING))) ! 1 in
     \<not> running_at e' 2 \<and> cstate (copyList e' ! 2) \<noteq> PT_COPY_STATE_RECOVERY"
  by (rule node_down_clears [OF ex_list_ok(1)]) (simp_all add: ex_list_def ex_entry_def ex_copy_def)

text \<open>
  (C27) No stale copy is used: when the state of a node changes, a copy that was not running becomes
  running only if it was down on this node, is marked as one of the last copies that were alive,
  and fewer than the needed number of copies run. All other copies have to be recovered first.
\<close>

theorem node_state_no_stale_copy:
  assumes "ptNum l \<le> length (entries l)" "p < ptNum l" "i < length (copyList (entries l ! p))"
    and "running_at (entries (snd (ViewPtEntryListUpdateNodeState nodeId state info change l)) ! p) i"
    and "\<not> running_at (entries l ! p) i"
  shows "let c = copyList (entries l ! p) ! i in
     cstate c = PT_COPY_STATE_DOWN \<and> cnode c = nodeId \<and> keepAlive c \<and> running_num (entries l ! p) < minCopyNum l"
proof -
  let ?e = "entries l ! p"
  have dn: "\<not> running_at (entries (snd (ViewPtEntryListUpdateNodeDown nodeId change l)) ! p) i"
    using down_entry_running [OF assms(3), of nodeId l "[0..<copyNum ?e]"] assms(1,2,5)
    by (auto simp: ViewPtEntryListUpdateNodeDown_def each_entry_def nth_map_first)
  have st: "state = NODE_STATE_UP" "\<not> ViewPtEntryCheckNetFault info"
    using assms(4,5) dn
    by (cases state; auto simp: ViewPtEntryListUpdateNodeState_def ViewPtEntryListUpdateNodeUp_def split: if_splits)+
  then have "running_at (snd (up_entry nodeId info l [0..<copyNum ?e] ?e)) i"
    using assms(1,2,4) by (simp add: ViewPtEntryListUpdateNodeState_def ViewPtEntryListUpdateNodeUp_def each_entry_def nth_map_first)
  with up_entry_running [OF assms(3)] assms(5) show ?thesis by (auto simp: Let_def)
qed

theorem node_state_no_stale_copy_witness:
  "let l = (ex_list PT_STATE_NORMAL PT_COPY_STATE_DOWN)\<lparr>minCopyNum := 3,
         entries := [upd_copy 0 (\<lambda>c. c\<lparr>keepAlive := True\<rparr>) (ex_entry PT_STATE_FAULT PT_COPY_STATE_DOWN)], ptNum := 1\<rparr>
   in running_at (entries (snd (ViewPtEntryListUpdateNodeState 0 NODE_STATE_UP no_disks False l)) ! 0) 0 \<and>
      keepAlive (copyList (entries l ! 0) ! 0) \<and> running_num (entries l ! 0) < 3"
proof -
  let ?l = "(ex_list PT_STATE_NORMAL PT_COPY_STATE_DOWN)\<lparr>minCopyNum := 3,
         entries := [upd_copy 0 (\<lambda>c. c\<lparr>keepAlive := True\<rparr>) (ex_entry PT_STATE_FAULT PT_COPY_STATE_DOWN)], ptNum := 1\<rparr>"
  have r: "running_at (entries (snd (ViewPtEntryListUpdateNodeState 0 NODE_STATE_UP no_disks False ?l)) ! 0) 0"
    by (simp add: ViewPtEntryListUpdateNodeState_def ViewPtEntryListUpdateNodeUp_def ViewPtEntryCheckNetFault_def
        each_entry_def map_first_def ex_list_def ex_entry_def ex_copy_def upd_copy_def running_at_def running_num_def
        ViewPtUpdateCopyState_def no_disks_def upt_rec numeral_nat)
  have "\<not> running_at (entries ?l ! 0) 0" by (simp add: ex_entry_def ex_copy_def upd_copy_def running_at_def)
  with node_state_no_stale_copy [OF _ _ _ r] r show ?thesis
    by (simp add: Let_def ex_list_def ex_entry_def upd_copy_def)
qed

text \<open>
  Outdated reports are ignored: if every reported partition does not exist, has another version
  by now, or has fewer running copies than needed, \<open>ViewPtEntryListUpdateNodeFinish\<close> changes nothing.
\<close>

theorem finish_ignores_outdated:
  assumes "\<And>r. r \<in> set pts \<Longrightarrow> fptId r \<ge> ptNum l \<or> birthVersion (entries l ! fptId r) \<noteq> fbirthVersion r \<or>
     running_num (entries l ! fptId r) < minCopyNum l"
  shows "ViewPtEntryListUpdateNodeFinish mallocOk nodeId pts change nodeNum validNum l = Some (change, l)"
proof -
  have "finish_loop nodeId validNum pts ms change l = Some (change, l)" for ms
    using assms
  proof (induction pts)
    case (Cons r rs)
    have "finish_loop nodeId validNum rs ms change l = Some (change, l)" using Cons by simp
    moreover have "fptId r \<ge> ptNum l \<or> birthVersion (entries l ! fptId r) \<noteq> fbirthVersion r \<or>
        running_num (entries l ! fptId r) < minCopyNum l" using Cons.prems by simp
    ultimately show ?case by (auto simp: Let_def ViewPtSatisfiedCopyNum_def)
  qed simp
  then show ?thesis by (simp add: ViewPtEntryListUpdateNodeFinish_def)
qed

theorem finish_ignores_outdated_witness:
  "ViewPtEntryListUpdateNodeFinish True 0 [\<lparr>fptId = 1, fbirthVersion = 9\<rparr>, \<lparr>fptId = 5, fbirthVersion = 1\<rparr>] False 3 3
     (ex_list PT_STATE_DEGRADE_LOSS1 PT_COPY_STATE_RECOVERY) = Some (False, ex_list PT_STATE_DEGRADE_LOSS1 PT_COPY_STATE_RECOVERY)"
  by (rule finish_ignores_outdated) (auto simp: ex_list_def ex_entry_def)

end
