(* ===== verification/PtCalcProps.thy ===== *)
theory PtCalcProps
  imports PtCalc PtStateProps "HOL-Library.Multiset"
begin

text \<open>
  The theorems about the calculation of the table: the busy list stays ordered, the first table
  satisfies the invariant that the state changes keep, and rebalancing keeps it.
\<close>

section \<open>The busy list\<close>

definition key :: "calc_elem \<Rightarrow> nat \<times> nat" where
  "key x = (enode x, edisk x)"

lemma key_refer [simp]: "key (x\<lparr>erefer := r\<rparr>) = key x"
  by (simp add: key_def)

lemma find_key: "find (\<lambda>x. enode x = n \<and> edisk x = d) xs = find (\<lambda>x. key x = (n, d)) xs"
  by (simp add: key_def)

lemma takeWhile_sorted:
  fixes f :: "'a \<Rightarrow> int"
  assumes "sorted (map f xs)"
  shows "sorted (map f (takeWhile (\<lambda>x. f x \<le> f y) xs @ y # dropWhile (\<lambda>x. f x \<le> f y) xs))"
  using assms
proof (induction xs)
  case (Cons x xs)
  show ?case
  proof (cases "f x \<le> f y")
    case True
    have "f x \<le> f z" if "z \<in> set (takeWhile (\<lambda>x. f x \<le> f y) xs @ y # dropWhile (\<lambda>x. f x \<le> f y) xs)" for z
    proof -
      from that have "z \<in> set xs \<or> z = y" by (auto dest: set_takeWhileD set_dropWhileD)
      with Cons.prems True show ?thesis by auto
    qed
    with Cons True show ?thesis by (simp del: map_append set_append)
  next
    case False
    have "f y \<le> f z" if "z \<in> set (x # xs)" for z using that False Cons.prems by force
    with False Cons.prems show ?thesis by simp
  qed
qed simp

lemma Fill_present:
  assumes "find (\<lambda>x. key x = (n, d)) xs = Some f" "erefer f + diff \<le> INT64_MAX"
  shows "ViewCalcFillUpdateBusyList n d diff xs =
     (let f' = f\<lparr>erefer := erefer f + diff\<rparr> in
      takeWhile (\<lambda>x. erefer x \<le> erefer f') (remove1 f xs) @ f' # dropWhile (\<lambda>x. erefer x \<le> erefer f') (remove1 f xs))"
  using assms unfolding ViewCalcFillUpdateBusyList_def find_key by (simp add: Let_def)

lemma mset_takeWhile: "mset (takeWhile P xs @ y # dropWhile P xs) = add_mset y (mset xs)"
proof -
  have "mset (takeWhile P xs) + mset (dropWhile P xs) = mset xs" by (metis mset_append takeWhile_dropWhile_id)
  then show ?thesis by simp
qed

lemma Fill_mset:
  assumes "find (\<lambda>x. key x = (n, d)) xs = Some f" "erefer f + diff \<le> INT64_MAX"
  shows "mset (ViewCalcFillUpdateBusyList n d diff xs) = add_mset (f\<lparr>erefer := erefer f + diff\<rparr>) (mset xs - {#f#})"
  unfolding Fill_present [OF assms] Let_def mset_takeWhile by (simp add: mset_remove1)

lemma Fill_sorted:
  assumes "sorted (map erefer xs)"
  shows "sorted (map erefer (ViewCalcFillUpdateBusyList n d diff xs))"
proof (cases "find (\<lambda>x. enode x = n \<and> edisk x = d) xs")
  case (Some f)
  have r: "sorted (map erefer (remove1 f xs))" using assms by (rule sorted_map_remove1)
  from takeWhile_sorted [OF r, of "f\<lparr>erefer := erefer f + diff\<rparr>"] r Some show ?thesis
    by (simp add: ViewCalcFillUpdateBusyList_def Let_def del: map_append)
qed (use assms in \<open>simp add: ViewCalcFillUpdateBusyList_def\<close>)

text \<open>While the counts are far from the limit no disk is lost.\<close>

definition counts_below :: "int \<Rightarrow> calc_elem list \<Rightarrow> bool" where
  "counts_below k xs \<longleftrightarrow> (\<forall>x\<in>set xs. erefer x \<le> k)"

definition stock :: "(nat \<times> nat) multiset \<Rightarrow> int \<Rightarrow> calc_elem list \<Rightarrow> bool" where
  "stock K k xs \<longleftrightarrow> image_mset key (mset xs) = K \<and> counts_below k xs"

lemma stock_mem: "stock K k xs \<Longrightarrow> x \<in> set xs \<Longrightarrow> (enode x, edisk x) \<in># K"
  by (auto simp: stock_def key_def)

lemma stock_length: "stock K k xs \<Longrightarrow> length xs = size K"
  by (auto simp: stock_def)

lemma stock_mono: "stock K k xs \<Longrightarrow> k \<le> k' \<Longrightarrow> stock K k' xs"
  by (force simp: stock_def counts_below_def)

lemma Fill_stock:
  assumes "stock K k xs" "k < INT64_MAX" "diff \<le> 1"
  shows "stock K (k + 1) (ViewCalcFillUpdateBusyList n d diff xs)"
proof (cases "find (\<lambda>x. key x = (n, d)) xs")
  case None
  with assms show ?thesis using stock_mono [of K k xs "k + 1"] by (simp add: ViewCalcFillUpdateBusyList_def find_key)
next
  case (Some f)
  then have f: "f \<in> set xs" by (auto simp: find_Some_iff)
  with assms have e: "erefer f + diff \<le> INT64_MAX" "erefer f + diff \<le> k + 1" by (auto simp: stock_def counts_below_def)
  note m = Fill_mset [OF Some e(1)]
  have "\<forall>x\<in>#mset (ViewCalcFillUpdateBusyList n d diff xs). erefer x \<le> k + 1"
    unfolding m using assms(1) e(2) by (fastforce simp: stock_def counts_below_def dest: in_diffD)
  moreover have "image_mset key (mset (ViewCalcFillUpdateBusyList n d diff xs)) = image_mset key (add_mset f (mset xs - {#f#}))"
    unfolding m by simp
  ultimately show ?thesis using assms(1) f by (simp add: stock_def counts_below_def)
qed

lemma mset_rotate: "mset (rotate n xs) = mset xs"
  by (metis append_take_drop_id mset_append rotate_drop_take union_commute)

lemma Reset_stock: "stock K k (busy c) \<Longrightarrow> stock K 0 (busy (ViewCalcResetBusyList c))"
  by (auto simp: stock_def counts_below_def ViewCalcResetBusyList_def mset_rotate multiset.map_comp comp_def)

lemma count_copy_stock:
  "stock K k xs \<Longrightarrow> k < INT64_MAX \<Longrightarrow> stock K (k + 1) (count_copy c nodes states i e xs)"
  using stock_mono [of K k xs "k + 1"] by (simp add: count_copy_def Let_def Fill_stock)

lemma FillBusyList_stock:
  assumes "stock K 0 (busy c)" "int (calcPtNum c) < INT64_MAX"
  shows "stock K (int (calcPtNum c)) (busy (ViewCalcFillBusyList i nodes states l c))"
proof -
  have "stock K (k + int (length ps)) (fold (\<lambda>p. count_copy c nodes states i (entries l ! p)) ps xs)"
    if "stock K k xs" "k + int (length ps) < INT64_MAX" for ps k xs
    using that
  proof (induction ps arbitrary: k xs)
    case (Cons p ps)
    have "stock K (k + 1) (count_copy c nodes states i (entries l ! p) xs)" using Cons.prems by (intro count_copy_stock) auto
    from Cons.IH [OF this] Cons.prems(2) show ?case by (simp add: algebra_simps)
  qed simp
  from this [OF assms(1), of "[0..<calcPtNum c]"] assms(2) show ?thesis by (simp add: ViewCalcFillBusyList_def)
qed

section \<open>Placing a copy\<close>

lemma in_use_active: "in_use e i = active_at e i"
  by (simp add: in_use_def active_def)

text \<open>A change of one slot and its extension after which exactly one of them is used, by a new node.\<close>

lemma place_ok:
  assumes s: "slots_ok m e" and i: "i < m" and k: "k = i \<or> k = i + m"
    and len: "length (copyList e') = length (copyList e)"
    and same: "\<And>j. j < PT_MAX_COPY_INDEX \<Longrightarrow> j \<noteq> i \<Longrightarrow> j \<noteq> i + m \<Longrightarrow> copyList e' ! j = copyList e ! j"
    and used: "\<And>j. j = i \<or> j = i + m \<Longrightarrow> active_at e' j \<Longrightarrow> j = k"
    and num: "copyNum e' = copyNum e \<and> k < copyNum e \<or> copyNum e' = 2 * m"
    and node: "\<And>j. j < copyNum e \<Longrightarrow> j \<noteq> i \<Longrightarrow> j \<noteq> i + m \<Longrightarrow> active_at e j \<Longrightarrow> cnode (copyList e ! j) \<noteq> cnode (copyList e' ! k)"
  shows "slots_ok m e'"
proof -
  note d = slots_okD [OF s]
  have pair: "\<not> (active_at e j \<and> active_at e (j + m))" if "j < m" for j using s that by (auto simp: slots_ok_def)
  have tail: "\<not> active_at e j" if "copyNum e \<le> j" "j < PT_MAX_COPY_INDEX" for j using s that by (auto simp: slots_ok_def)
  have dist: "cnode (copyList e ! a) \<noteq> cnode (copyList e ! b)"
    if "a < copyNum e" "b < copyNum e" "a \<noteq> b" "active_at e a" "active_at e b" for a b
    using s that unfolding slots_ok_def by blast
  have lim: "j < m \<Longrightarrow> j + m < PT_MAX_COPY_INDEX" for j using d by auto
  have n': "copyNum e' = m \<or> copyNum e' = 2 * m" "copyNum e' \<le> PT_MAX_COPY_INDEX" "copyNum e \<le> copyNum e'"
    using num d by auto
  have kk: "k < copyNum e'" using num k i by auto
  have pair': "\<not> (active_at e' j \<and> active_at e' (j + m))" if "j < m" for j
  proof (cases "j = i")
    case True
    then show ?thesis using used [of i] used [of "i + m"] i d(2) by auto
  next
    case False
    have "j + m \<noteq> i" "j \<noteq> i + m" using that i by auto
    then show ?thesis using False that pair [OF that] lim [OF that] same [of j] same [of "j + m"] by auto
  qed
  have tail': "\<not> active_at e' j" if "copyNum e' \<le> j" "j < PT_MAX_COPY_INDEX" for j
  proof (cases "j = i \<or> j = i + m")
    case True
    with used [of j] kk that(1) show ?thesis by auto
  next
    case False
    with same [of j] tail [of j] n'(3) that show ?thesis by auto
  qed
  have old: "a < copyNum e \<and> copyList e' ! a = copyList e ! a"
    if "a < copyNum e'" "a \<noteq> i" "a \<noteq> i + m" "active_at e' a" for a
    using that same [of a] tail [of a] n'(2) by (cases "a < copyNum e") auto
  have dist': "cnode (copyList e' ! a) \<noteq> cnode (copyList e' ! b)"
    if ab: "a < copyNum e'" "b < copyNum e'" "a \<noteq> b" "active_at e' a" "active_at e' b" for a b
  proof -
    have fresh: "cnode (copyList e' ! j) \<noteq> cnode (copyList e' ! k)" if "j < copyNum e'" "active_at e' j" "j \<noteq> i" "j \<noteq> i + m" for j
      using old [OF that(1,3,4,2)] node [of j] that by auto
    consider "a = i \<or> a = i + m" | "b = i \<or> b = i + m" | "a \<noteq> i" "a \<noteq> i + m" "b \<noteq> i" "b \<noteq> i + m" by blast
    then show ?thesis
    proof cases
      case 1
      with used [of a] ab have "a = k" by blast
      moreover have "b \<noteq> i" "b \<noteq> i + m" using used [of b] ab \<open>a = k\<close> by auto
      ultimately show ?thesis using fresh [of b] ab by auto
    next
      case 2
      with used [of b] ab have "b = k" by blast
      moreover have "a \<noteq> i" "a \<noteq> i + m" using used [of a] ab \<open>b = k\<close> by auto
      ultimately show ?thesis using fresh [of a] ab by auto
    next
      case 3
      with old [of a] old [of b] dist [of a b] ab show ?thesis by auto
    qed
  qed
  show ?thesis unfolding slots_ok_def using d len n' pair' tail' dist' by auto
qed

lemma Build_slots_ok:
  assumes s: "slots_ok m e" and c: "calcCopyNum c = m" "i < m" and idle: "\<not> in_use e i" "\<not> in_use e (i + m)"
    and r: "ViewCalcBuildPtEntry c i e xs = (ret, e', xs')"
  shows "slots_ok m e'"
proof (cases "find (\<lambda>x. \<not> node_taken e (enode x)) xs")
  case None
  with s r show ?thesis by (auto simp: ViewCalcBuildPtEntry_def)
next
  case (Some x)
  note d = slots_okD [OF s]
  from Some have "\<not> node_taken e (enode x)" by (auto simp: find_Some_iff)
  then have node: "cnode (copyList e ! j) \<noteq> enode x" if "j < copyNum e" "active_at e j" for j
    using that by (auto simp: node_taken_def list_ex_iff in_use_active)
  have l: "i < length (copyList e)" "i + m < length (copyList e)" using d c(2) by auto
  show ?thesis
  proof (cases "cstate (copyList e ! i) = PT_COPY_STATE_INIT")
    case True
    then have e': "e' = upd_copy i (\<lambda>cp. cp\<lparr>cnode := enode x, cdisk := edisk x, cstate := PT_COPY_STATE_RUNNING\<rparr>) e"
      using Some r by (simp add: ViewCalcBuildPtEntry_def)
    show ?thesis
      by (rule place_ok [OF s c(2), of i])
        (use e' d l idle c node in \<open>auto simp: upd_copy_nth in_use_active\<close>)
  next
    case False
    then have e': "e' = (upd_copy (i + m) (\<lambda>cp. cp\<lparr>cnode := enode x, cdisk := edisk x, cstate := PT_COPY_STATE_RECOVERY\<rparr>) e)\<lparr>copyNum := m * 2\<rparr>"
      using Some r c by (simp add: ViewCalcBuildPtEntry_def)
    show ?thesis
      by (rule place_ok [OF s c(2), of "i + m"])
        (use e' d l idle c node in \<open>auto simp: upd_copy_nth in_use_active\<close>)
  qed
qed

lemma KeepAlive_moves: "moves e (ViewCalcUpdateCopyKeepAlive c e)"
  by (auto simp: ViewCalcUpdateCopyKeepAlive_def moves_def nth_map_first)

lemma move_target_mem: "move_target e start xs = Some x \<Longrightarrow> x \<in> set xs"
  by (induction xs) (auto split: if_splits)

lemma move_target_node: "move_target e start xs = Some x \<Longrightarrow> \<not> ViewCalcPtEntryHasNodeId e (enode x)"
  by (induction xs) (auto split: if_splits)

text \<open>The entry after a copy has moved from slot \<open>i\<close> to the disk of \<open>x\<close>.\<close>

definition moved :: "calc \<Rightarrow> nat \<Rightarrow> nat \<Rightarrow> calc_elem \<Rightarrow> pt_entry \<Rightarrow> pt_entry" where
  "moved c i v x e =
     (upd_copy (i + calcCopyNum c) (\<lambda>cp. cp\<lparr>cnode := enode x, cdisk := edisk x, cstate := PT_COPY_STATE_RECOVERY\<rparr>)
        (upd_copy i (\<lambda>cp. cp\<lparr>cnode := NODE_ID_INVALID, cdisk := DISK_ID_INVALID, cstate := PT_COPY_STATE_OUT\<rparr>) e))
      \<lparr>copyNum := calcCopyNum c * 2, birthVersion := v\<rparr>"

lemma Build1_cases:
  "fst (ViewCalcBuildPtEntry1 c i v e xs) = e \<or>
   (\<exists>x. ViewCalcBuildPreCheck c i v e \<noteq> None \<and> \<not> ViewCalcPtEntryHasNodeId e (enode x) \<and> x \<in> set xs \<and>
      fst (ViewCalcBuildPtEntry1 c i v e xs) = ViewCalcUpdateCopyKeepAlive c (moved c i v x e))"
  unfolding ViewCalcBuildPtEntry1_def Let_def moved_def
  by (auto split: if_split option.split dest: move_target_node move_target_mem)

lemma moved_slots_ok:
  assumes s: "slots_ok m e" and c: "calcCopyNum c = m" "i < m" and x: "\<not> ViewCalcPtEntryHasNodeId e (enode x)"
  shows "slots_ok m (moved c i v x e)"
proof -
  note d = slots_okD [OF s]
  have l: "i < length (copyList e)" "i + m < length (copyList e)" using d c(2) by auto
  have node: "cnode (copyList e ! j) \<noteq> enode x" if "j < copyNum e" for j
    using x that by (auto simp: ViewCalcPtEntryHasNodeId_def list_ex_iff)
  show ?thesis unfolding moved_def
    by (rule place_ok [OF s c(2), of "i + m"]) (use d l node c in \<open>auto simp: upd_copy_nth\<close>)
qed

section \<open>Copies on the nodes of the cluster\<close>

text \<open>The slots are used as they should, by copies on the nodes below \<open>N\<close>.\<close>

definition fit :: "nat \<Rightarrow> nat \<Rightarrow> pt_entry \<Rightarrow> bool" where
  "fit m N e \<longleftrightarrow> slots_ok m e \<and> nodes_in N e"

lemma fitD: "fit m N e \<Longrightarrow> slots_ok m e" "fit m N e \<Longrightarrow> nodes_in N e"
  by (simp_all add: fit_def)

lemma moves_fit: "moves e e' \<Longrightarrow> masterNodeId e' = masterNodeId e \<Longrightarrow> fit m N e \<Longrightarrow> fit m N e'"
  using moves_slots_ok [of e e' m] moves_nodes_in [of e e' N] slots_okD(1,5) [of m e] by (auto simp: fit_def)

text \<open>A change of one slot: the nodes stay in range if the new copy is.\<close>

lemma place_nodes:
  assumes f: "fit m N e" and e': "slots_ok m e'" "masterNodeId e' = masterNodeId e" and n: "n < N"
    and at: "\<And>j. j < PT_MAX_COPY_INDEX \<Longrightarrow> active_at e' j \<Longrightarrow> cnode (copyList e' ! j) = n \<or> copyList e' ! j = copyList e ! j"
  shows "fit m N e'"
proof -
  have "cnode (copyList e' ! j) < N" if j: "j < copyNum e'" "active_at e' j" for j
  proof -
    have l: "j < PT_MAX_COPY_INDEX" using j(1) slots_okD(5) [OF e'(1)] by simp
    from at [OF l j(2)] show ?thesis
    proof
      assume s: "copyList e' ! j = copyList e ! j"
      have "j < copyNum e" using f l j(2) s by (auto simp: fit_def slots_ok_def not_less [symmetric])
      with f s j(2) show ?thesis by (simp add: fit_def nodes_in_def)
    qed (use n in simp)
  qed
  with f e' show ?thesis by (simp add: fit_def nodes_in_def)
qed

section \<open>Rebalancing\<close>

text \<open>Giving up copies keeps the slots.\<close>

lemma deactivate_ok:
  assumes s: "slots_ok m e" and "copyNum e' = copyNum e" "length (copyList e') = length (copyList e)"
    and at: "\<And>j. j < PT_MAX_COPY_INDEX \<Longrightarrow> copyList e' ! j = copyList e ! j \<or> \<not> active_at e' j"
  shows "slots_ok m e'"
proof -
  note d = slots_okD [OF s]
  have a: "active_at e j \<and> copyList e' ! j = copyList e ! j" if "active_at e' j" "j < PT_MAX_COPY_INDEX" for j
    using at [OF that(2)] that(1) by auto
  have pair: "\<not> (active_at e' j \<and> active_at e' (j + m))" if "j < m" for j
    using a [of j] a [of "j + m"] that d s unfolding slots_ok_def by auto
  have dist: "cnode (copyList e' ! i) \<noteq> cnode (copyList e' ! j)"
    if "i < copyNum e" "j < copyNum e" "i \<noteq> j" "active_at e' i" "active_at e' j" for i j
    using a [of i] a [of j] that d s unfolding slots_ok_def by auto
  have tail: "\<not> active_at e' j" if "copyNum e \<le> j" "j < PT_MAX_COPY_INDEX" for j
    using a [of j] that s unfolding slots_ok_def by auto
  show ?thesis unfolding slots_ok_def using assms(2,3) d pair dist tail by simp
qed

lemma drop_copy_ok:
  assumes "slots_ok m e" "calcCopyNum c = m" "i < m"
  shows "slots_ok m (drop_copy c nodes states v i e)"
proof -
  have "slot_index c e i < length (copyList e)" using assms slots_okD [OF assms(1)] by (auto simp: slot_index_def)
  then have "slots_ok m ((upd_copy (slot_index c e i) (\<lambda>_. out_copy) e)\<lparr>birthVersion := v\<rparr>)"
    using slots_okD(1) [OF assms(1)] by (intro deactivate_ok [OF assms(1)]) (auto simp: upd_copy_nth)
  with assms(1) show ?thesis by (simp add: drop_copy_def Let_def)
qed

text \<open>A table whose partitions all fit, and what the loops leave alone.\<close>

definition all_fit :: "nat \<Rightarrow> nat \<Rightarrow> pt_list \<Rightarrow> bool" where
  "all_fit m N l \<longleftrightarrow> ptNum l \<le> length (entries l) \<and> (\<forall>p<ptNum l. fit m N (entries l ! p))"

definition same_shape :: "pt_list \<Rightarrow> pt_list \<Rightarrow> bool" where
  "same_shape l l' \<longleftrightarrow> ptNum l' = ptNum l \<and> maxCopyNum l' = maxCopyNum l \<and> minCopyNum l' = minCopyNum l"

lemma same_shape_refl [simp]: "same_shape l l" by (simp add: same_shape_def)

lemma same_shape_trans: "same_shape a b \<Longrightarrow> same_shape b c \<Longrightarrow> same_shape a c" by (simp add: same_shape_def)

lemma all_fit_upd:
  "all_fit m N l \<Longrightarrow> fit m N e \<Longrightarrow> all_fit m N (l\<lparr>entries := (entries l)[p := e]\<rparr>)"
  by (cases "p < length (entries l)") (auto simp: all_fit_def nth_list_update)

lemma rebalance_skip:
  assumes "slots_ok m e" "i < m"
    and "\<not> (in_use e i \<or> (i + m < copyNum e \<and> in_use e (i + m)))"
  shows "\<not> in_use e i \<and> \<not> in_use e (i + m)"
proof -
  have "\<not> active_at e (i + m)" if "copyNum e \<le> i + m"
    using assms(1,2) that slots_okD [OF assms(1)] by (auto simp: slots_ok_def)
  with assms(3) show ?thesis by (auto simp: in_use_active not_less)
qed

lemma calc_frame [simp]:
  "calcCopyNum (ViewCalcResetBusyList c) = calcCopyNum c" "calcPtNum (ViewCalcResetBusyList c) = calcPtNum c"
  "calcMinCopyNum (ViewCalcResetBusyList c) = calcMinCopyNum c"
  "calcCopyNum (ViewCalcFillBusyList i nodes states l c) = calcCopyNum c"
  "calcPtNum (ViewCalcFillBusyList i nodes states l c) = calcPtNum c"
  "calcMinCopyNum (ViewCalcFillBusyList i nodes states l c) = calcMinCopyNum c"
  by (simp_all add: ViewCalcResetBusyList_def ViewCalcFillBusyList_def)

definition same_calc :: "calc \<Rightarrow> calc \<Rightarrow> bool" where
  "same_calc c c' \<longleftrightarrow> calcCopyNum c' = calcCopyNum c \<and> calcPtNum c' = calcPtNum c \<and> calcMinCopyNum c' = calcMinCopyNum c \<and>
     free c' = free c"

lemma same_calc_refl [simp]: "same_calc c c" by (simp add: same_calc_def)

lemma same_calc_trans: "same_calc a b \<Longrightarrow> same_calc b c \<Longrightarrow> same_calc a c" by (simp add: same_calc_def)

lemma busy_disks_frame:
  "calcCopyNum (snd (busy_disks n info st is c)) = calcCopyNum c \<and> calcPtNum (snd (busy_disks n info st is c)) = calcPtNum c \<and>
   calcMinCopyNum (snd (busy_disks n info st is c)) = calcMinCopyNum c"
  by (induction n info st "is" c rule: busy_disks.induct) (auto split: list.split)

lemma BuildBusyList_frame [simp]:
  "calcCopyNum (ViewCalcBuildBusyList nodes states c) = calcCopyNum c"
  "calcPtNum (ViewCalcBuildBusyList nodes states c) = calcPtNum c"
  "calcMinCopyNum (ViewCalcBuildBusyList nodes states c) = calcMinCopyNum c"
proof -
  have "calcCopyNum (busy_nodes nodes states ns c) = calcCopyNum c \<and> calcPtNum (busy_nodes nodes states ns c) = calcPtNum c \<and>
      calcMinCopyNum (busy_nodes nodes states ns c) = calcMinCopyNum c" for ns
  proof (induction nodes states ns c rule: busy_nodes.induct)
    case (2 nodes states n ns c)
    then show ?case using busy_disks_frame [of n "nodes ! n" "states ! n" "[0..<length (ndisks (nodes ! n))]" c]
      by (auto split: prod.split bool.split)
  qed simp
  then show "calcCopyNum (ViewCalcBuildBusyList nodes states c) = calcCopyNum c"
    "calcPtNum (ViewCalcBuildBusyList nodes states c) = calcPtNum c"
    "calcMinCopyNum (ViewCalcBuildBusyList nodes states c) = calcMinCopyNum c"
    by (simp_all add: ViewCalcBuildBusyList_def)
qed

lemma List111_moves:
  assumes "set is \<subseteq> {..<length (copyList e)}"
  shows "moves e (ViewCalcUpdatePtEntryList111 is n e)"
  using assms
proof (induction "is" n e rule: ViewCalcUpdatePtEntryList111.induct)
  case (2 i "is" n e)
  have i: "i < length (copyList e)" using "2.prems" by simp
  let ?r = "upd_copy i (\<lambda>cp. cp\<lparr>cstate := PT_COPY_STATE_RUNNING, keepAlive := True\<rparr>) e"
    and ?k = "upd_copy i (\<lambda>cp. cp\<lparr>keepAlive := True\<rparr>) e"
  have r: "moves e ?r" if "cstate (copyList e ! i) = PT_COPY_STATE_RECOVERY"
    using that by (intro upd_copy_moves [OF i]) (simp_all add: active_def)
  have k: "moves e ?k" by (intro upd_copy_moves [OF i]) simp_all
  show ?case using 2 moves_trans [OF r] moves_trans [OF k] by auto
qed simp

lemma List111_master [simp]: "masterNodeId (ViewCalcUpdatePtEntryList111 is n e) = masterNodeId e"
  by (induction "is" n e rule: ViewCalcUpdatePtEntryList111.induct) simp_all

lemma List11_fit:
  assumes "all_fit m N l"
  shows "all_fit m N (ViewCalcUpdatePtEntryList11 c l) \<and> same_shape l (ViewCalcUpdatePtEntryList11 c l)"
proof -
  have "fit m N (ViewCalcUpdatePtEntryList111 [0..<copyNum e] n e)" if "fit m N e" for e n
    by (rule moves_fit [OF List111_moves _ that]) (use slots_okD(1,5) [OF fitD(1) [OF that]] in auto)
  with assms show ?thesis
    by (auto simp: ViewCalcUpdatePtEntryList11_def all_fit_def same_shape_def nth_map_first Let_def)
qed

lemma entry_ok_cong:
  "maxCopyNum l' = maxCopyNum l \<Longrightarrow> minCopyNum l' = minCopyNum l \<Longrightarrow> entry_ok l' = entry_ok l"
  by (simp add: fun_eq_iff entry_ok_def consistent_def)

text \<open>Marking the partitions that lost one copy while disks are added keeps the invariant.\<close>

lemma bypass_entry_ok:
  assumes "entry_ok l e" "pstate e = PT_STATE_DEGRADE_LOSS1"
  shows "entry_ok l (e\<lparr>pstate := PT_STATE_LOSS1_BYPASS\<rparr>)"
proof -
  let ?e = "e\<lparr>pstate := PT_STATE_LOSS1_BYPASS\<rparr>"
  have at: "running_at ?e = running_at e" "is_master ?e = is_master e" by (simp_all add: running_at_def is_master_def fun_eq_iff)
  have "running_num ?e = running_num e" by (rule running_num_cong) (simp_all add: at)
  moreover have "moves e ?e" by (simp add: moves_def)
  ultimately show ?thesis using assms at moves_slots_ok [of e ?e] by (simp add: entry_ok_def consistent_def master_ok_def Let_def)
qed

lemma List1_ok:
  assumes "all_fit (maxCopyNum l) N l" "0 < minCopyNum l" "minCopyNum l \<le> maxCopyNum l"
    and "calcCopyNum c = maxCopyNum l" "calcMinCopyNum c = minCopyNum l"
  shows "list_ok (ViewCalcUpdatePtEntryList1 c addDisk l) \<and> (\<forall>p<ptNum l. nodes_in N (entries (ViewCalcUpdatePtEntryList1 c addDisk l) ! p))"
proof -
  define l1 where "l1 = ViewCalcUpdatePtEntryList11 c l"
  define f where "f = ViewPtEntryUpdatePtState (l1\<lparr>minCopyNum := calcMinCopyNum c, maxCopyNum := calcCopyNum c\<rparr>)"
  define l2 where "l2 = l1\<lparr>entries := map_first (ptNum l1) f (entries l1)\<rparr>"
  have l1: "all_fit (maxCopyNum l) N l1" "same_shape l l1" using List11_fit [OF assms(1)] by (auto simp: l1_def)
  have f: "entry_ok l (f e) \<and> nodes_in N (f e)" if "fit (maxCopyNum l) N e" for e
    using UpdatePtState_ok [of "l1\<lparr>minCopyNum := calcMinCopyNum c, maxCopyNum := calcCopyNum c\<rparr>" e] fitD [OF that] assms(4,5)
      entry_ok_cong [of "l1\<lparr>minCopyNum := calcMinCopyNum c, maxCopyNum := calcCopyNum c\<rparr>" l] UpdatePtState_nodes_in
    by (simp add: f_def)
  have sh: "ptNum l2 = ptNum l" "maxCopyNum l2 = maxCopyNum l" "minCopyNum l2 = minCopyNum l" "ptNum l1 = ptNum l"
    using l1(2) by (simp_all add: l2_def same_shape_def)
  have e2: "entry_ok l (entries l2 ! p) \<and> nodes_in N (entries l2 ! p)" if "p < ptNum l" for p
    using f l1(1) that sh by (simp add: l2_def all_fit_def nth_map_first)
  have len: "ptNum l \<le> length (entries l2)" using l1(1) sh by (simp add: l2_def all_fit_def)
  have eq: "entry_ok (l2\<lparr>entries := es\<rparr>) = entry_ok l" "entry_ok l2 = entry_ok l" for es
    by (rule entry_ok_cong; simp add: sh)+
  have np: "nodes_in N (e\<lparr>pstate := s\<rparr>) = nodes_in N e" for e s by (simp add: nodes_in_def)
  have "ViewCalcUpdatePtEntryList1 c addDisk l =
      (if addDisk then the (UpdatePtState (Some l2) PT_STATE_DEGRADE_LOSS1 PT_STATE_LOSS1_BYPASS) else l2)"
    by (simp add: ViewCalcUpdatePtEntryList1_def Let_def l1_def f_def l2_def)
  then show ?thesis using e2 len assms(2,3) sh
    by (simp add: list_ok_def UpdatePtState_def eq nth_map_first bypass_entry_ok np)
qed

lemma drop_copies_fit:
  assumes "fit m N e" "calcCopyNum c = m" "set is \<subseteq> {..<m}"
  shows "fit m N (fold (drop_copy c nodes states v) is e)"
  using assms
proof (induction "is" arbitrary: e)
  case (Cons i "is")
  have s: "slots_ok m e" using Cons.prems(1) by (simp add: fit_def)
  have "slots_ok m (drop_copy c nodes states v i e)" using drop_copy_ok [OF s] Cons.prems by simp
  moreover have "nodes_in N (drop_copy c nodes states v i e)"
    using Cons.prems(1) slots_okD [OF s] by (auto simp: drop_copy_def Let_def nodes_in_def fit_def upd_copy_nth)
  ultimately show ?case using Cons by (simp add: fit_def)
qed simp

lemma InitList1_fit:
  assumes "all_fit m N l" "calcCopyNum c = m"
  shows "all_fit m N (ViewCalcInitPtEntryList1 c nodes states l) \<and> same_shape l (ViewCalcInitPtEntryList1 c nodes states l)"
  using assms drop_copies_fit [OF _ assms(2), of _ _ "[0..<m]"]
  by (auto simp: ViewCalcInitPtEntryList1_def all_fit_def same_shape_def nth_map_first Let_def atLeast0LessThan)

lemma list_ok_all_fit: "list_ok l \<Longrightarrow> \<forall>p<ptNum l. nodes_in N (entries l ! p) \<Longrightarrow> all_fit (maxCopyNum l) N l"
  by (auto simp: list_ok_def all_fit_def entry_ok_def fit_def)

section \<open>There is always a disk\<close>

text \<open>The disks at hand: enough different nodes, all of the cluster.\<close>

definition enough :: "nat \<Rightarrow> nat \<Rightarrow> (nat \<times> nat) multiset \<Rightarrow> bool" where
  "enough m N K \<longleftrightarrow> m \<le> card (fst ` set_mset K) \<and> (\<forall>k\<in>#K. fst k < N)"

text \<open>A partition with a free slot uses fewer nodes than it has slots.\<close>

lemma active_few:
  assumes s: "slots_ok m e" and i: "i < m" and idle: "\<not> active_at e i" "\<not> active_at e (i + m)"
  shows "card {j. j < copyNum e \<and> active_at e j} < m"
proof -
  have "card {j. j < copyNum e \<and> active_at e j} \<le> card ({..<m} - {i})"
    by (rule card_inj_on_le [OF active_slots(1) [OF s]]) (use active_slots(2) [OF s] idle in auto)
  also have "\<dots> < m" using i by simp
  finally show ?thesis .
qed

lemma Build_finds:
  assumes s: "slots_ok m e" and i: "i < m" and idle: "\<not> in_use e i" "\<not> in_use e (i + m)"
    and K: "stock K k xs" "m \<le> card (fst ` set_mset K)" "k < INT64_MAX"
  shows "\<exists>x e' xs'. x \<in> set xs \<and> ViewCalcBuildPtEntry c i e xs = (CM_OK, e', xs') \<and> stock K (k + 1) xs' \<and>
     e' = (if cstate (copyList e ! i) = PT_COPY_STATE_INIT
       then upd_copy i (\<lambda>cp. cp\<lparr>cnode := enode x, cdisk := edisk x, cstate := PT_COPY_STATE_RUNNING\<rparr>) e
       else (upd_copy (i + calcCopyNum c)
              (\<lambda>cp. cp\<lparr>cnode := enode x, cdisk := edisk x, cstate := PT_COPY_STATE_RECOVERY\<rparr>) e)
              \<lparr>copyNum := calcCopyNum c * 2\<rparr>)"
proof -
  let ?A = "{j. j < copyNum e \<and> active_at e j}" and ?T = "(\<lambda>j. cnode (copyList e ! j)) ` {j. j < copyNum e \<and> active_at e j}"
  have "card ?T \<le> card ?A" by (rule card_image_le) simp
  also have "\<dots> < m" using active_few [OF s i] idle by (simp add: in_use_active)
  finally have "card ?T < card (fst ` set_mset K)" using K(2) by simp
  then have "\<not> fst ` set_mset K \<subseteq> ?T" using card_mono [of ?T "fst ` set_mset K"] by auto
  then obtain n where n: "n \<in> fst ` set_mset K" "n \<notin> ?T" by blast
  then obtain y where y: "y \<in> set xs" "enode y \<notin> ?T" using K(1) by (auto simp: stock_def key_def)
  then have "\<not> node_taken e (enode y)" by (auto simp: node_taken_def list_ex_iff in_use_active)
  with y(1) obtain x where x: "find (\<lambda>x. \<not> node_taken e (enode x)) xs = Some x"
    by (cases "find (\<lambda>x. \<not> node_taken e (enode x)) xs") (auto simp: find_None_iff)
  then have "x \<in> set xs" by (auto simp: find_Some_iff)
  with x Fill_stock [OF K(1,3), of 1] show ?thesis by (intro exI [of _ x]) (simp add: ViewCalcBuildPtEntry_def)
qed

lemma Build_ok:
  assumes f: "fit m N e" and i: "i < m" and c: "calcCopyNum c = m" and idle: "\<not> in_use e i" "\<not> in_use e (i + m)"
    and K: "stock K k xs" "enough m N K" "k < INT64_MAX"
  shows "\<exists>e' xs'. ViewCalcBuildPtEntry c i e xs = (CM_OK, e', xs') \<and> stock K (k + 1) xs' \<and> fit m N e'"
proof -
  note s = fitD(1) [OF f]
  have cK: "m \<le> card (fst ` set_mset K)" using K(2) by (simp add: enough_def)
  obtain x e' xs' where x: "x \<in> set xs" and b: "ViewCalcBuildPtEntry c i e xs = (CM_OK, e', xs')" "stock K (k + 1) xs'"
    and e': "e' = (if cstate (copyList e ! i) = PT_COPY_STATE_INIT
       then upd_copy i (\<lambda>cp. cp\<lparr>cnode := enode x, cdisk := edisk x, cstate := PT_COPY_STATE_RUNNING\<rparr>) e
       else (upd_copy (i + calcCopyNum c)
              (\<lambda>cp. cp\<lparr>cnode := enode x, cdisk := edisk x, cstate := PT_COPY_STATE_RECOVERY\<rparr>) e)
              \<lparr>copyNum := calcCopyNum c * 2\<rparr>)"
    using Build_finds [OF s i idle K(1) cK K(3), of c] by blast
  have xN: "enode x < N" using stock_mem [OF K(1) x] K(2) by (force simp: enough_def)
  have "slots_ok m e'" by (rule Build_slots_ok [OF s c i idle b(1)])
  then have "fit m N e'"
    by (rule place_nodes [OF f _ _ xN]) (use e' slots_okD(1) [OF s] in \<open>auto simp: upd_copy_nth\<close>)
  with b show ?thesis by blast
qed

lemma build_pts_ok:
  assumes "all_fit m N l" "calcCopyNum c = m" "i < m" "set ps \<subseteq> {..<ptNum l}"
    and skip: "\<And>e. slots_ok m e \<Longrightarrow> \<not> skip e \<Longrightarrow> \<not> in_use e i \<and> \<not> in_use e (i + m)"
    and K: "stock K k xs" "enough m N K" "k + int (length ps) < INT64_MAX"
  shows "\<exists>l' xs'. build_pts skip c i ps l xs = (CM_OK, l', xs') \<and> stock K (k + int (length ps)) xs' \<and>
     all_fit m N l' \<and> same_shape l l'"
  using assms(1,4) K(1,3)
proof (induction ps arbitrary: l xs k)
  case (Cons p ps)
  let ?e = "entries l ! p"
  have f: "fit m N ?e" using Cons.prems by (auto simp: all_fit_def)
  show ?case
  proof (cases "skip ?e")
    case True
    have "stock K (k + 1) xs" by (rule stock_mono [OF Cons.prems(3)]) simp
    from Cons.IH [OF Cons.prems(1) _ this] Cons.prems(2,4) True show ?thesis by (auto simp: algebra_simps)
  next
    case False
    have k: "k < INT64_MAX" using Cons.prems(4) by simp
    from Build_ok [OF f assms(3,2) _ _ Cons.prems(3) K(2) k] skip [OF fitD(1) [OF f] False]
    obtain e ys where b: "ViewCalcBuildPtEntry c i ?e xs = (CM_OK, e, ys)" "stock K (k + 1) ys" "fit m N e" by blast
    let ?l = "l\<lparr>entries := (entries l)[p := e]\<rparr>"
    have l: "all_fit m N ?l" by (rule all_fit_upd [OF Cons.prems(1) b(3)])
    have "same_shape l ?l" by (simp add: same_shape_def)
    with Cons.IH [OF l _ b(2)] Cons.prems(2,4) False b(1) show ?thesis
      by (auto simp: algebra_simps intro: same_shape_trans)
  qed
qed simp

lemma Build1_ok:
  assumes f: "fit m N e" and c: "calcCopyNum c = m" "i < m" and K: "stock K k xs" "enough m N K" "k + 1 < INT64_MAX"
  shows "fit m N (fst (ViewCalcBuildPtEntry1 c i v e xs))" "stock K (k + 2) (snd (ViewCalcBuildPtEntry1 c i v e xs))"
proof -
  have "stock K (k + 2) xs" using stock_mono [OF K(1)] by simp
  moreover have "stock K (k + 2) (ViewCalcFillUpdateBusyList a b 1 (ViewCalcFillUpdateBusyList a' b' (- 1) xs))" for a b a' b'
    using Fill_stock [OF Fill_stock [OF K(1)], of "- 1" 1] K(3) by (simp add: algebra_simps)
  ultimately show "stock K (k + 2) (snd (ViewCalcBuildPtEntry1 c i v e xs))"
    by (simp add: ViewCalcBuildPtEntry1_def Let_def split: option.split)
  show "fit m N (fst (ViewCalcBuildPtEntry1 c i v e xs))"
    using Build1_cases [of c i v e xs]
  proof (elim disjE exE conjE)
    fix x
    assume x: "\<not> ViewCalcPtEntryHasNodeId e (enode x)" "x \<in> set xs"
      and r: "fst (ViewCalcBuildPtEntry1 c i v e xs) = ViewCalcUpdateCopyKeepAlive c (moved c i v x e)"
    have xN: "enode x < N" using stock_mem [OF K(1) x(2)] K(2) by (force simp: enough_def)
    note s = fitD(1) [OF f]
    have "fit m N (moved c i v x e)"
      by (rule place_nodes [OF f moved_slots_ok [OF s c x(1)] _ xN])
        (use slots_okD(1) [OF s] in \<open>auto simp: moved_def upd_copy_nth active_def\<close>)
    from moves_fit [OF KeepAlive_moves _ this, of c] show ?thesis by (simp add: r ViewCalcUpdateCopyKeepAlive_def)
  qed (use f in simp)
qed

lemma move_copies_ok:
  assumes "all_fit m N l" "calcCopyNum c = m" "i < m" "set ps \<subseteq> {..<ptNum l}"
    and "stock K k xs" "enough m N K" "k + 2 * int (length ps) < INT64_MAX"
  shows "\<exists>l' xs'. move_copies c i ps l xs = (l', xs') \<and> stock K (k + 2 * int (length ps)) xs' \<and> all_fit m N l' \<and> same_shape l l'"
  using assms(1,4,5,7)
proof (induction ps arbitrary: l xs k)
  case (Cons p ps)
  let ?r = "ViewCalcBuildPtEntry1 c i (globalVersion l) (entries l ! p) xs"
  let ?l = "l\<lparr>entries := (entries l)[p := fst ?r]\<rparr>"
  have f: "fit m N (entries l ! p)" using Cons.prems by (auto simp: all_fit_def)
  have k: "k + 1 < INT64_MAX" using Cons.prems(4) by simp
  note r = Build1_ok [OF f assms(2,3) Cons.prems(3) assms(6) k, where v = "globalVersion l"]
  have l: "all_fit m N ?l" by (rule all_fit_upd [OF Cons.prems(1) r(1)])
  have sh: "same_shape l ?l" by (simp add: same_shape_def)
  from Cons.IH [OF l _ r(2)] Cons.prems(2,4)
  obtain l' xs' where "move_copies c i ps ?l (snd ?r) = (l', xs')" "stock K (k + 2 + 2 * int (length ps)) xs'"
    "all_fit m N l'" "same_shape ?l l'" by auto
  with same_shape_trans [OF sh] show ?case by (simp add: move_copies_def case_prod_unfold algebra_simps)
qed (simp add: move_copies_def)

lemma rebalance_copies_ok:
  assumes "all_fit m N l" "calcCopyNum c = m" "calcPtNum c = ptNum l" "set is \<subseteq> {..<m}"
    and "stock K 0 (busy c)" "enough m N K" "calcPtNum c < 2 ^ 16"
  shows "\<exists>l' c'. rebalance_copies nodes states is l c = (CM_OK, l', c') \<and> all_fit m N l' \<and> same_shape l l' \<and>
     stock K 0 (busy c') \<and> same_calc c c'"
  using assms
proof (induction "is" arbitrary: l c)
  case (Cons i "is")
  let ?skip = "\<lambda>e. in_use e i \<or> (i + calcCopyNum c < copyNum e \<and> in_use e (i + calcCopyNum c))"
  let ?c1 = "ViewCalcFillBusyList i nodes states l c"
  have i: "i < m" and ps: "set [0..<calcPtNum c] \<subseteq> {..<ptNum l}" using Cons.prems(3,4) by auto
  have small: "int (calcPtNum c) < 2 ^ 16" using Cons.prems(7) by simp
  have skip: "\<not> in_use e i \<and> \<not> in_use e (i + m)" if "slots_ok m e" "\<not> ?skip e" for e
    using rebalance_skip [OF that(1) i] that(2) Cons.prems(2) by simp
  have "stock K (int (calcPtNum c)) (busy ?c1)" using small by (intro FillBusyList_stock [OF Cons.prems(5)]) simp
  from build_pts_ok [where skip = ?skip, OF Cons.prems(1,2) i ps skip this Cons.prems(6)] small
  obtain l1 xs1 where b: "build_pts ?skip c i [0..<calcPtNum c] l (busy ?c1) = (CM_OK, l1, xs1)"
    "stock K (2 * int (calcPtNum c)) xs1" "all_fit m N l1" "same_shape l l1" by auto
  have ps1: "set [0..<calcPtNum c] \<subseteq> {..<ptNum l1}" using ps b(4) by (simp add: same_shape_def)
  from move_copies_ok [OF b(3) Cons.prems(2) i ps1 b(2) Cons.prems(6)] small
  obtain l2 xs2 where mv: "move_copies c i [0..<calcPtNum c] l1 xs1 = (l2, xs2)" "stock K (4 * int (calcPtNum c)) xs2"
    "all_fit m N l2" "same_shape l1 l2" by auto
  let ?c2 = "ViewCalcResetBusyList (?c1\<lparr>busy := xs2\<rparr>)"
  have st: "stock K 0 (busy ?c2)" using mv(2) Reset_stock [of K _ "?c1\<lparr>busy := xs2\<rparr>"] by simp
  have pt: "calcPtNum ?c2 = ptNum l2" using Cons.prems(3) b(4) mv(4) by (simp add: same_shape_def)
  have sc: "same_calc c ?c2" by (simp add: same_calc_def ViewCalcResetBusyList_def ViewCalcFillBusyList_def)
  have is': "set is \<subseteq> {..<m}" using Cons.prems(4) by simp
  have "calcCopyNum ?c2 = m" "calcPtNum ?c2 < 2 ^ 16" using Cons.prems(2,7) by simp_all
  from Cons.IH [OF mv(3) this(1) pt is' st Cons.prems(6) this(2)]
  show ?case using b(1) mv(1) same_shape_trans [OF same_shape_trans [OF b(4) mv(4)]] same_calc_trans [OF sc] by (auto simp: Let_def)
qed simp

text \<open>The disks that may be used, in order, and the busy list made of them.\<close>

definition node_keys :: "node_info list \<Rightarrow> node_state list \<Rightarrow> nat \<Rightarrow> nat list \<Rightarrow> (nat \<times> nat) list" where
  "node_keys nodes states n is =
     map (\<lambda>i. (n, diskId (ndisks (nodes ! n) ! i))) (filter (disk_serves (nodes ! n) (states ! n)) is)"

definition serving_keys :: "node_info list \<Rightarrow> node_state list \<Rightarrow> nat list \<Rightarrow> (nat \<times> nat) list" where
  "serving_keys nodes states ns = concat (map (\<lambda>n. node_keys nodes states n [0..<length (ndisks (nodes ! n))])
     (filter (\<lambda>n. node_serves (states ! n)) ns))"

definition serving :: "node_info list \<Rightarrow> node_state list \<Rightarrow> (nat \<times> nat) set" where
  "serving nodes states = set (serving_keys nodes states [0..<length states])"

definition enough_elems :: "node_info list \<Rightarrow> node_state list \<Rightarrow> calc \<Rightarrow> bool" where
  "enough_elems nodes states c \<longleftrightarrow> (\<Sum>n\<leftarrow>[0..<length states]. length (ndisks (nodes ! n))) \<le> length (free c)"

lemma busy_disks_keys:
  assumes "length is \<le> length (free c)" "counts_below 0 (busy c)"
  shows "\<exists>c'. busy_disks n (nodes ! n) (states ! n) is c = (False, c') \<and> counts_below 0 (busy c') \<and>
     map key (busy c') = map key (busy c) @ node_keys nodes states n is \<and>
     length (free c') + length (busy c') = length (free c) + length (busy c) \<and> length (free c) \<le> length (free c') + length is"
  using assms
proof (induction "is" arbitrary: c)
  case Nil
  then show ?case by (simp add: node_keys_def)
next
  case (Cons i "is")
  show ?case
  proof (cases "disk_serves (nodes ! n) (states ! n) i")
    case True
    obtain x rest where f: "free c = x # rest" using Cons.prems(1) by (cases "free c") auto
    let ?c = "c\<lparr>free := rest, busy := busy c @ [x\<lparr>enode := n, edisk := diskId (ndisks (nodes ! n) ! i), erefer := 0\<rparr>]\<rparr>"
    have "counts_below 0 (busy ?c)" using Cons.prems(2) by (simp add: counts_below_def)
    with Cons.IH [of ?c] Cons.prems(1) f True show ?thesis by (auto simp: node_keys_def key_def)
  next
    case False
    with Cons.IH [of c] Cons.prems show ?thesis by (auto simp: node_keys_def)
  qed
qed

lemma busy_nodes_keys:
  assumes "(\<Sum>n\<leftarrow>ns. length (ndisks (nodes ! n))) \<le> length (free c)" "counts_below 0 (busy c)"
  shows "counts_below 0 (busy (busy_nodes nodes states ns c)) \<and>
     map key (busy (busy_nodes nodes states ns c)) = map key (busy c) @ serving_keys nodes states ns \<and>
     length (free (busy_nodes nodes states ns c)) + length (busy (busy_nodes nodes states ns c)) = length (free c) + length (busy c)"
  using assms
proof (induction ns arbitrary: c)
  case (Cons n ns)
  show ?case
  proof (cases "node_serves (states ! n)")
    case True
    obtain c' where c': "busy_disks n (nodes ! n) (states ! n) [0..<length (ndisks (nodes ! n))] c = (False, c')"
      "counts_below 0 (busy c')" "map key (busy c') = map key (busy c) @ node_keys nodes states n [0..<length (ndisks (nodes ! n))]"
      "length (free c') + length (busy c') = length (free c) + length (busy c)"
      "length (free c) \<le> length (free c') + length (ndisks (nodes ! n))"
      using busy_disks_keys [of "[0..<length (ndisks (nodes ! n))]" c n nodes states] Cons.prems by auto
    with Cons.IH [of "c'\<lparr>diskNum := length (ndisks (nodes ! n))\<rparr>"] Cons.prems(1) True show ?thesis
      by (simp add: serving_keys_def)
  next
    case False
    with Cons show ?thesis by (simp add: serving_keys_def)
  qed
qed (simp add: serving_keys_def)

lemma BuildBusyList_stock:
  assumes "busy c = []" "enough_elems nodes states c"
  shows "stock (mset (serving_keys nodes states [0..<length states])) 0 (busy (ViewCalcBuildBusyList nodes states c))"
    "length (free (ViewCalcBuildBusyList nodes states c)) + length (busy (ViewCalcBuildBusyList nodes states c)) = length (free c)"
  using busy_nodes_keys [where c = c and ns = "[0..<length states]" and nodes = nodes and states = states] assms
  by (simp_all add: stock_def counts_below_def enough_elems_def ViewCalcBuildBusyList_def flip: mset_map)

lemma NormNodeNum_card: "ViewCalcNormNodeNum nodes states = card (fst ` serving nodes states)"
proof -
  have "fst ` serving nodes states = {n. n < length states \<and> (node_serves (states ! n) \<and>
      list_ex (disk_serves (nodes ! n) (states ! n)) [0..<length (ndisks (nodes ! n))])}"
    by (force simp: serving_def serving_keys_def node_keys_def list_ex_iff)
  then show ?thesis
    by (simp add: ViewCalcNormNodeNum_def length_filter_conv_card cong: conj_cong)
qed

lemma enough_serving:
  "m \<le> ViewCalcNormNodeNum nodes states \<Longrightarrow> enough m (length states) (mset (serving_keys nodes states [0..<length states]))"
  by (auto simp: enough_def NormNodeNum_card serving_def serving_keys_def node_keys_def)

section \<open>The first table\<close>

text \<open>A partition of a new table with its first \<open>k\<close> copies placed.\<close>

definition placed :: "(nat \<times> nat) multiset \<Rightarrow> nat \<Rightarrow> nat \<Rightarrow> pt_entry \<Rightarrow> bool" where
  "placed K m k e \<longleftrightarrow> slots_ok m e \<and> copyNum e = m \<and>
     (\<forall>j<k. running_at e j \<and> (cnode (copyList e ! j), cdisk (copyList e ! j)) \<in># K) \<and>
     (\<forall>j<PT_MAX_COPY_INDEX. k \<le> j \<longrightarrow> copyList e ! j = init_copy)"

lemma init_copy_simps [simp]: "cstate init_copy = PT_COPY_STATE_INIT" "\<not> active PT_COPY_STATE_INIT"
  by (simp_all add: init_copy_def active_def)

lemma Build_placed:
  assumes e: "placed K m i e" and i: "i < m" and c: "calcCopyNum c = m"
    and K: "stock K k xs" "m \<le> card (fst ` set_mset K)" "k < INT64_MAX"
  shows "\<exists>e' xs'. ViewCalcBuildPtEntry c i e xs = (CM_OK, e', xs') \<and> placed K m (Suc i) e' \<and> stock K (k + 1) xs'"
proof -
  have s: "slots_ok m e" "copyNum e = m" using e by (auto simp: placed_def)
  note d = slots_okD [OF s(1)]
  have init: "copyList e ! j = init_copy" if "j < PT_MAX_COPY_INDEX" "i \<le> j" for j using e that by (auto simp: placed_def)
  have ii: "i < PT_MAX_COPY_INDEX" "i + m < PT_MAX_COPY_INDEX" using i d by auto
  have idle: "\<not> in_use e i" "\<not> in_use e (i + m)" using init [of i] init [of "i + m"] ii by (auto simp: in_use_active)
  obtain x e' xs' where x: "x \<in> set xs" "ViewCalcBuildPtEntry c i e xs = (CM_OK, e', xs')" "stock K (k + 1) xs'"
    "e' = upd_copy i (\<lambda>cp. cp\<lparr>cnode := enode x, cdisk := edisk x, cstate := PT_COPY_STATE_RUNNING\<rparr>) e"
    using Build_finds [OF s(1) i idle K, of c] init [of i] ii by auto
  have "(enode x, edisk x) \<in># K" by (rule stock_mem [OF K(1) x(1)])
  moreover have "slots_ok m e'" by (rule Build_slots_ok [OF s(1) c i idle x(2)])
  ultimately have "placed K m (Suc i) e'"
    using e x(4) d(1) ii by (auto simp: placed_def upd_copy_nth running_at_def less_Suc_eq)
  with x show ?thesis by blast
qed

lemma build_pts_placed:
  assumes "\<forall>p\<in>set ps. p < length (entries l) \<and> placed K m i (entries l ! p)" "distinct ps" "i < m" "calcCopyNum c = m"
    and "stock K k xs" "m \<le> card (fst ` set_mset K)" "k + int (length ps) < INT64_MAX"
  shows "\<exists>l' xs'. build_pts (\<lambda>e. in_use e i) c i ps l xs = (CM_OK, l', xs') \<and> stock K (k + int (length ps)) xs' \<and>
     same_shape l l' \<and> length (entries l') = length (entries l) \<and>
     (\<forall>p. entries l' ! p = entries l ! p \<or> p \<in> set ps) \<and> (\<forall>p\<in>set ps. placed K m (Suc i) (entries l' ! p))"
  using assms(1,2,5,7)
proof (induction ps arbitrary: l xs k)
  case (Cons p ps)
  have e: "placed K m i (entries l ! p)" and p: "p < length (entries l)" "p \<notin> set ps" using Cons.prems(1,2) by auto
  then have "copyList (entries l ! p) ! i = init_copy" using assms(3) slots_okD [of m "entries l ! p"] by (auto simp: placed_def)
  then have idle: "\<not> in_use (entries l ! p) i" by (simp add: in_use_active)
  have k: "k < INT64_MAX" using Cons.prems(4) by simp
  obtain e' ys where b: "ViewCalcBuildPtEntry c i (entries l ! p) xs = (CM_OK, e', ys)" "placed K m (Suc i) e'" "stock K (k + 1) ys"
    using Build_placed [OF e assms(3,4) Cons.prems(3) assms(6) k] by blast
  let ?l = "l\<lparr>entries := (entries l)[p := e']\<rparr>"
  have "\<forall>q\<in>set ps. q < length (entries ?l) \<and> placed K m i (entries ?l ! q)"
    using Cons.prems(1) p by (auto simp: nth_list_update)
  from Cons.IH [OF this _ b(3)] Cons.prems(2,4)
  obtain l' xs' where l': "build_pts (\<lambda>e. in_use e i) c i ps ?l ys = (CM_OK, l', xs')" "stock K (k + int (length (p # ps))) xs'"
    "same_shape ?l l'" "length (entries l') = length (entries l)"
    "\<And>q. entries l' ! q = entries ?l ! q \<or> q \<in> set ps" "\<And>q. q \<in> set ps \<Longrightarrow> placed K m (Suc i) (entries l' ! q)"
    by (auto simp: algebra_simps)
  have "entries l' ! q = entries l ! q \<or> q \<in> set (p # ps)" for q using l'(5) [of q] by (cases "q = p") auto
  moreover have "placed K m (Suc i) (entries l' ! q)" if "q \<in> set (p # ps)" for q
    using that l'(5) [of p] l'(6) [of q] b(2) p by auto
  moreover have "same_shape l l'" using l'(3) by (simp add: same_shape_def)
  ultimately show ?case using l'(1,2,4) idle b(1) by (simp add: Let_def)
qed simp

lemma build_copies_placed:
  assumes "is = [i..<m]" "i \<le> m" "calcCopyNum c = m" "calcPtNum c = ptNum l" "ptNum l \<le> length (entries l)"
    and "\<forall>p<ptNum l. placed K m i (entries l ! p)"
    and "stock K 0 (busy c)" "m \<le> card (fst ` set_mset K)" "calcPtNum c < 2 ^ 16"
  shows "\<exists>l' c'. build_copies is l c = (CM_OK, l', c') \<and> same_shape l l' \<and> ptNum l \<le> length (entries l') \<and>
     (\<forall>p<ptNum l. placed K m m (entries l' ! p)) \<and> stock K 0 (busy c') \<and> same_calc c c'"
  using assms
proof (induction "is" arbitrary: i l c)
  case (Cons i' "is")
  have i: "i' = i" "is = [Suc i..<m]" "i < m" using Cons.prems(1) [symmetric] by (auto simp: upt_eq_Cons_conv)
  have small: "int (calcPtNum c) < INT64_MAX" using Cons.prems(9) by simp
  have ps: "\<forall>p\<in>set [0..<calcPtNum c]. p < length (entries l) \<and> placed K m i (entries l ! p)" using Cons.prems(4,5,6) by auto
  from build_pts_placed [OF ps _ i(3) Cons.prems(3,7,8)] small
  obtain l1 xs1 where b: "build_pts (\<lambda>e. in_use e i) c i [0..<calcPtNum c] l (busy c) = (CM_OK, l1, xs1)"
    "stock K (int (calcPtNum c)) xs1" "same_shape l l1" "length (entries l1) = length (entries l)"
    "\<forall>p\<in>set [0..<calcPtNum c]. placed K m (Suc i) (entries l1 ! p)" by auto
  let ?c = "ViewCalcResetBusyList (c\<lparr>busy := xs1\<rparr>)"
  have st: "stock K 0 (busy ?c)" using Reset_stock [of K _ "c\<lparr>busy := xs1\<rparr>"] b(2) by simp
  have pt: "ptNum l1 = ptNum l" using b(3) by (simp add: same_shape_def)
  have "\<forall>p<ptNum l1. placed K m (Suc i) (entries l1 ! p)" using b(5) pt Cons.prems(4) by simp
  then have "\<exists>l' c'. build_copies is l1 ?c = (CM_OK, l', c') \<and> same_shape l1 l' \<and> ptNum l1 \<le> length (entries l') \<and>
      (\<forall>p<ptNum l1. placed K m m (entries l' ! p)) \<and> stock K 0 (busy c') \<and> same_calc ?c c'"
    using i b(4) pt Cons.prems(3,4,5,9) by (intro Cons.IH [OF i(2) _ _ _ _ _ st Cons.prems(8)]) auto
  moreover have "same_calc c ?c" by (simp add: same_calc_def ViewCalcResetBusyList_def)
  ultimately show ?case using b(1) i(1) pt same_shape_trans [OF b(3)] same_calc_trans [of c ?c] by (auto simp: Let_def)
next
  case Nil
  have "i = m" using Nil.prems(1) [symmetric] Nil.prems(2) by auto
  with Nil.prems show ?case by simp
qed

lemma placed_entry_ok:
  assumes e: "placed K m m e" and l: "maxCopyNum l = m" "0 < minCopyNum l" "minCopyNum l \<le> m"
  shows "entry_ok l ((case filter (running_at e) [0..<copyNum e] of
       [] \<Rightarrow> e
     | k # _ \<Rightarrow> e\<lparr>masterNodeId := cnode (copyList e ! k), masterDiskId := cdisk (copyList e ! k)\<rparr>)\<lparr>pstate := PT_STATE_NORMAL\<rparr>)"
proof -
  have s: "slots_ok m e" "copyNum e = m" and run: "\<And>j. j < m \<Longrightarrow> running_at e j" using e by (auto simp: placed_def)
  have m: "0 < m" using slots_okD(2) [OF s(1)] .
  have "filter (running_at e) [0..<copyNum e] = [0..<m]" using run s(2) by (simp add: filter_id_conv)
  then have f: "filter (running_at e) [0..<copyNum e] = 0 # [1..<m]" using m by (simp add: upt_conv_Cons)
  let ?e = "e\<lparr>masterNodeId := cnode (copyList e ! 0), masterDiskId := cdisk (copyList e ! 0), pstate := PT_STATE_NORMAL\<rparr>"
  have at: "running_at ?e = running_at e" by (simp add: running_at_def fun_eq_iff)
  have n: "running_num ?e = m" using run s(2) by (simp add: running_num_def at filter_id_conv)
  have "slots_ok m ?e" by (rule moves_slots_ok [OF _ s(1)]) (simp add: moves_def)
  moreover have "consistent l ?e" unfolding consistent_def n using l by (simp add: state_for_def)
  moreover have "master_ok ?e" unfolding master_ok_def using run [OF m] s(2) m by (auto simp: at is_master_def)
  ultimately show ?thesis using f l(1) by (simp add: entry_ok_def)
qed

section \<open>The operations of the calculator\<close>

text \<open>After an operation all elements are free again.\<close>

definition calc_kept :: "calc \<Rightarrow> calc \<Rightarrow> bool" where
  "calc_kept c c' \<longleftrightarrow> busy c' = [] \<and> length (free c') = length (free c) \<and> calcCopyNum c' = calcCopyNum c \<and>
     calcPtNum c' = calcPtNum c \<and> calcMinCopyNum c' = calcMinCopyNum c"

lemma Destroy_kept:
  assumes "busy c = []" "enough_elems nodes states c" "same_calc (ViewCalcBuildBusyList nodes states c) c'"
    and "stock (mset (serving_keys nodes states [0..<length states])) k (busy c')"
  shows "calc_kept c (ViewCalcDestroyBusyList c')"
proof -
  let ?c1 = "ViewCalcBuildBusyList nodes states c"
  have "length (busy c') = length (busy ?c1)"
    using stock_length [OF assms(4)] stock_length [OF BuildBusyList_stock(1) [OF assms(1,2)]] by simp
  with BuildBusyList_stock(2) [OF assms(1,2)] assms(3) show ?thesis
    by (simp add: calc_kept_def ViewCalcDestroyBusyList_def same_calc_def)
qed

lemma Rebalance_ok:
  assumes "list_ok l" "\<forall>p<ptNum l. nodes_in (length states) (entries l ! p)"
    and "calcCopyNum c = maxCopyNum l" "calcMinCopyNum c = minCopyNum l" "calcPtNum c = ptNum l"
    and "ptNum l < 2 ^ 16" "busy c = []" "enough_elems nodes states c"
    and "calcCopyNum c \<le> ViewCalcNormNodeNum nodes states"
  shows "\<exists>l' c'. ViewCalculatorRebalance nodes states addDisk l c = (CM_OK, l', c') \<and> list_ok l' \<and> same_shape l l' \<and>
     (\<forall>p<ptNum l'. nodes_in (length states) (entries l' ! p)) \<and> calc_kept c c'"
proof -
  let ?m = "maxCopyNum l" and ?N = "length states" and ?c1 = "ViewCalcBuildBusyList nodes states c"
    and ?K = "mset (serving_keys nodes states [0..<length states])"
  let ?l1 = "ViewCalcInitPtEntryList1 ?c1 nodes states l"
  have l1: "all_fit ?m ?N ?l1" "same_shape l ?l1"
    using InitList1_fit [OF list_ok_all_fit [OF assms(1,2)], of ?c1] assms(3) by auto
  have c1: "calcCopyNum ?c1 = ?m" "calcPtNum ?c1 = ptNum ?l1" "calcPtNum ?c1 < 2 ^ 16"
    using assms(3,5,6) l1(2) by (simp_all add: same_shape_def)
  have cs: "set [0..<?m] \<subseteq> {..<?m}" by auto
  have st: "stock ?K 0 (busy ?c1)" by (rule BuildBusyList_stock(1) [OF assms(7,8)])
  have en: "enough ?m ?N ?K" using enough_serving assms(3,9) by simp
  obtain l2 c2 where r: "rebalance_copies nodes states [0..<?m] ?l1 ?c1 = (CM_OK, l2, c2)"
    and l2: "all_fit ?m ?N l2" "same_shape ?l1 l2" "stock ?K 0 (busy c2)" "same_calc ?c1 c2"
    using rebalance_copies_ok [OF l1(1) c1(1,2) cs st en c1(3)] by blast
  let ?l3 = "ViewCalcUpdatePtEntryList1 c2 addDisk l2"
  have sh: "same_shape l l2" by (rule same_shape_trans [OF l1(2) l2(2)])
  then have ok: "list_ok ?l3 \<and> (\<forall>p<ptNum l2. nodes_in ?N (entries ?l3 ! p))"
    using assms(1,3,4) l2(1,4) c1(1) by (intro List1_ok) (auto simp: same_shape_def same_calc_def list_ok_def)
  have sh3: "same_shape l2 ?l3"
    by (simp add: same_shape_def ViewCalcUpdatePtEntryList1_def ViewCalcUpdatePtEntryList11_def UpdatePtState_def Let_def)
  have "calc_kept c (ViewCalcDestroyBusyList c2)" by (rule Destroy_kept [OF assms(7,8) l2(4,3)])
  then show ?thesis using r ok sh3 same_shape_trans [OF sh sh3] assms(3,9)
    by (simp add: ViewCalculatorRebalance_def ViewCalcBuildPtEntryList1_def Let_def same_shape_def)
qed

lemma Initial_ok:
  assumes "busy c = []" "enough_elems nodes states c" "calcPtNum c < 2 ^ 16"
    and "0 < calcMinCopyNum c" "calcMinCopyNum c \<le> calcCopyNum c" "calcCopyNum c \<le> PT_MAX_COPY_NUM"
    and "calcCopyNum c \<le> ViewCalcNormNodeNum nodes states"
  shows "\<exists>l' c'. ViewCalculatorInitial pool nodes states l c = (CM_OK, l', c') \<and> list_ok l' \<and> calc_kept c c' \<and>
     ptNum l' = calcPtNum c \<and> maxCopyNum l' = calcCopyNum c \<and> minCopyNum l' = calcMinCopyNum c \<and>
     (\<forall>p<ptNum l'. nodes_in (length states) (entries l' ! p)) \<and>
     (\<forall>p<ptNum l'. \<forall>j<maxCopyNum l'. running_at (entries l' ! p) j \<and>
        (cnode (copyList (entries l' ! p) ! j), cdisk (copyList (entries l' ! p) ! j)) \<in> serving nodes states)"
proof -
  let ?m = "calcCopyNum c" and ?K = "mset (serving_keys nodes states [0..<length states])"
    and ?c1 = "ViewCalcBuildBusyList nodes states c"
  let ?l1 = "ViewCalcInitPtEntryList ?c1 (l\<lparr>poolId := pool\<rparr>)"
  have l1: "ptNum ?l1 = calcPtNum c" "maxCopyNum ?l1 = ?m" "minCopyNum ?l1 = calcMinCopyNum c" "ptNum ?l1 \<le> length (entries ?l1)"
    by (simp_all add: ViewCalcInitPtEntryList_def Let_def)
  have "\<forall>p<ptNum ?l1. placed ?K ?m 0 (entries ?l1 ! p)"
    using assms(4,5,6) by (auto simp: ViewCalcInitPtEntryList_def Let_def nth_append placed_def slots_ok_def)
  then obtain l2 c2 where r: "build_copies [0..<?m] ?l1 ?c1 = (CM_OK, l2, c2)" "same_shape ?l1 l2"
    "ptNum ?l1 \<le> length (entries l2)" "\<And>p. p < ptNum ?l1 \<Longrightarrow> placed ?K ?m ?m (entries l2 ! p)"
    "stock ?K 0 (busy c2)" "same_calc ?c1 c2"
    using build_copies_placed [of "[0..<?m]" 0 ?m ?c1 ?l1 ?K] BuildBusyList_stock(1) [OF assms(1,2)] l1 assms(3,7)
      enough_serving [of ?m nodes states] by (auto simp: enough_def)
  let ?l3 = "ViewCalcUpdatePtEntryList l2"
  have sh: "ptNum ?l3 = calcPtNum c" "maxCopyNum ?l3 = ?m" "minCopyNum ?l3 = calcMinCopyNum c" "ptNum l2 = calcPtNum c"
    using r(2) l1 by (simp_all add: same_shape_def ViewCalcUpdatePtEntryList_def)
  have len: "calcPtNum c \<le> length (entries l2)" using r(3) l1(1) by simp
  have ok: "entry_ok ?l3 (entries ?l3 ! p)" if "p < calcPtNum c" for p
    using placed_entry_ok [of ?K ?m "entries l2 ! p" ?l3] r(4) [of p] l1 sh that len assms(4,5)
    by (simp add: ViewCalcUpdatePtEntryList_def nth_map_first)
  have cp: "copyList (entries ?l3 ! p) = copyList (entries l2 ! p)" "copyNum (entries ?l3 ! p) = copyNum (entries l2 ! p)"
    if "p < calcPtNum c" for p
    using that len sh(4) by (simp_all add: ViewCalcUpdatePtEntryList_def nth_map_first split: list.split)
  have run: "running_at (entries ?l3 ! p) j \<and> (cnode (copyList (entries ?l3 ! p) ! j), cdisk (copyList (entries ?l3 ! p) ! j)) \<in> serving nodes states"
    if "p < calcPtNum c" "j < ?m" for p j
    using r(4) [of p] cp [OF that(1)] that l1(1) by (simp add: placed_def running_at_def serving_def)
  have nodes: "nodes_in (length states) (entries ?l3 ! p)" if "p < calcPtNum c" for p
  proof -
    have n: "cnode (copyList (entries ?l3 ! p) ! j) < length states" if "j < ?m" for j
      using run [OF \<open>p < calcPtNum c\<close> that] by (auto simp: serving_def serving_keys_def node_keys_def)
    have "copyNum (entries ?l3 ! p) = ?m" using r(4) [of p] cp(2) [OF that] that l1(1) by (simp add: placed_def)
    moreover have "0 < running_num (entries ?l3 ! p)"
      using run [OF that, of 0] assms(4,5) \<open>copyNum (entries ?l3 ! p) = ?m\<close>
      by (auto simp: running_num_card card_gt_0_iff intro!: exI [of _ 0])
    ultimately obtain i where "i < ?m" "cnode (copyList (entries ?l3 ! p) ! i) = masterNodeId (entries ?l3 ! p)"
      using ok [OF \<open>p < calcPtNum c\<close>] by (auto simp: entry_ok_def master_ok_def is_master_def)
    with n [of i] n \<open>copyNum (entries ?l3 ! p) = ?m\<close> show ?thesis by (simp add: nodes_in_def)
  qed
  have "list_ok ?l3" using ok len sh assms(4,5) by (simp add: list_ok_def ViewCalcUpdatePtEntryList_def)
  moreover have "calc_kept c (ViewCalcDestroyBusyList c2)" by (rule Destroy_kept [OF assms(1,2) r(6,5)])
  ultimately show ?thesis
    using r(1) run nodes assms(7) sh by (simp add: ViewCalculatorInitial_def ViewCalcBuildPtEntryList_def Let_def)
qed

section \<open>Properties\<close>

text \<open>An example: four nodes with a disk each, of which node 0 has left the cluster.\<close>

definition ex_nodes :: "node_info list" where
  "ex_nodes = (let n = \<lparr>ndisks = [\<lparr>diskId = 0, diskHealth = DISK_STATE_NORMAL\<rparr>], nnets = [NET_STATE_NORMAL],
     nspare = [], nid = 0, nstatus = NODE_STATUS_OK, naddr = []\<rparr> in [n, n, n, n])"

definition ex_state :: "node_cluster \<Rightarrow> node_state" where
  "ex_state cl = \<lparr>nupdown = NODE_STATE_UP, ncluster = cl, sdisks = [DISK_CLUSTER_STATE_IN],
     sdiskIds = [0], sdiskNum = 1\<rparr>"

definition ex_states :: "node_state list" where
  "ex_states = [ex_state NODE_CLUSTER_STATE_OUT, ex_state NODE_CLUSTER_STATE_IN, ex_state NODE_CLUSTER_STATE_IN,
     ex_state NODE_CLUSTER_STATE_IN]"

definition ex_elem :: calc_elem where
  "ex_elem = \<lparr>enode = 0, edisk = 0, erefer = 0\<rparr>"

definition ex_calc :: calc where
  "ex_calc = \<lparr>nodeNum = 4, calcPtNum = 2, calcCopyNum = 3, calcMinCopyNum = 2, diskNum = 0, busy = [],
     free = [ex_elem, ex_elem, ex_elem, ex_elem]\<rparr>"

lemmas ex_calc_simps = ex_nodes_def ex_states_def ex_state_def ex_calc_def ex_elem_def ex_list_def ex_entry_def ex_copy_def
  node_serves_def disk_serves_def upt_rec numeral_nat Let_def

lemma ex_busy: "ViewCalcBuildBusyList ex_nodes ex_states ex_calc = ex_calc\<lparr>diskNum := 1,
     busy := [ex_elem\<lparr>enode := 1\<rparr>, ex_elem\<lparr>enode := 2\<rparr>, ex_elem\<lparr>enode := 3\<rparr>], free := [ex_elem]\<rparr>"
  by (simp add: ViewCalcBuildBusyList_def ex_calc_simps)

lemma ex_norm: "ViewCalcNormNodeNum ex_nodes ex_states = 3"
  by (simp add: ViewCalcNormNodeNum_def ex_calc_simps)

lemma ex_enough: "enough_elems ex_nodes ex_states ex_calc"
  by (simp add: enough_elems_def ex_calc_simps)

text \<open>
  (C5) A new pool gets a full table: with as many serving nodes as copies, \<open>ViewCalculatorInitial\<close>
  returns \<open>CM_OK\<close> and a consistent table with the configured numbers, in which every copy of every
  partition runs on a healthy disk of a node that is up and in the cluster.
\<close>

theorem initial_establishes_table:
  assumes "busy c = []" "enough_elems nodes states c" "calcPtNum c < 2 ^ 16"
    and "0 < calcMinCopyNum c" "calcMinCopyNum c \<le> calcCopyNum c" "calcCopyNum c \<le> PT_MAX_COPY_NUM"
    and "calcCopyNum c \<le> ViewCalcNormNodeNum nodes states"
  shows "\<exists>l' c'. ViewCalculatorInitial pool nodes states l c = (CM_OK, l', c') \<and> list_ok l' \<and>
     ptNum l' = calcPtNum c \<and> maxCopyNum l' = calcCopyNum c \<and>
     (\<forall>p<ptNum l'. \<forall>j<maxCopyNum l'. running_at (entries l' ! p) j \<and>
        (cnode (copyList (entries l' ! p) ! j), cdisk (copyList (entries l' ! p) ! j)) \<in> serving nodes states)"
  using Initial_ok [OF assms, of pool l] by blast

theorem initial_establishes_table_witness:
  "\<exists>l' c'. ViewCalculatorInitial 7 ex_nodes ex_states (ex_list PT_STATE_INIT PT_COPY_STATE_DOWN) ex_calc = (CM_OK, l', c') \<and>
     list_ok l' \<and> ptNum l' = 2"
  using initial_establishes_table [OF _ ex_enough, of 7 "ex_list PT_STATE_INIT PT_COPY_STATE_DOWN"]
  by (simp add: ex_norm) (simp add: ex_calc_def, blast)

text \<open>
  (C3) Rebalancing succeeds and keeps the table consistent: with as many serving nodes as copies and
  a calculator for this table, \<open>ViewCalculatorRebalance\<close> returns \<open>CM_OK\<close>, and afterwards every
  partition uses each slot or its extension and not both, has its copies on different nodes of the
  cluster, has the state that belongs to the number of running copies, and has a running copy as
  master if there is one.
\<close>

theorem rebalance_keeps_table:
  assumes "list_ok l" "\<forall>p<ptNum l. nodes_in (length states) (entries l ! p)"
    and "calcCopyNum c = maxCopyNum l" "calcMinCopyNum c = minCopyNum l" "calcPtNum c = ptNum l"
    and "ptNum l < 2 ^ 16" "busy c = []" "enough_elems nodes states c"
    and "calcCopyNum c \<le> ViewCalcNormNodeNum nodes states"
  shows "\<exists>l' c'. ViewCalculatorRebalance nodes states addDisk l c = (CM_OK, l', c') \<and> list_ok l' \<and>
     ptNum l' = ptNum l \<and> maxCopyNum l' = maxCopyNum l \<and> minCopyNum l' = minCopyNum l \<and>
     (\<forall>p<ptNum l'. nodes_in (length states) (entries l' ! p))"
  using Rebalance_ok [OF assms, of addDisk] by (simp add: same_shape_def) blast

lemma ex_nodes_in: "\<forall>p<ptNum (ex_list ps PT_COPY_STATE_RUNNING). nodes_in (length ex_states) (entries (ex_list ps PT_COPY_STATE_RUNNING) ! p)"
  by (auto simp: ex_list_def ex_entry_def ex_copy_def ex_states_def nodes_in_def less_Suc_eq numeral_nat)

theorem rebalance_keeps_table_witness:
  "\<exists>l' c'. ViewCalculatorRebalance ex_nodes ex_states True (ex_list PT_STATE_NORMAL PT_COPY_STATE_RUNNING) ex_calc = (CM_OK, l', c') \<and>
     list_ok l' \<and> ptNum l' = 2"
  using rebalance_keeps_table [OF ex_list_ok(1) ex_nodes_in _ _ _ _ _ ex_enough, of True]
  by (simp add: ex_norm) (simp add: ex_calc_def ex_list_def, blast)

text \<open>
  The busy list is a priority list: \<open>ViewCalcFillUpdateBusyList\<close> changes the count of the given
  disk and of no other, loses no element, and keeps the list in the order of the counts, so that its
  first element is always the disk with the fewest copies.
\<close>

theorem busy_list_update:
  assumes "sorted (map erefer xs)" "find (\<lambda>x. enode x = n \<and> edisk x = d) xs = Some f" "erefer f + diff \<le> INT64_MAX"
  shows "let ys = ViewCalcFillUpdateBusyList n d diff xs in
     sorted (map erefer ys) \<and> mset ys = add_mset (f\<lparr>erefer := erefer f + diff\<rparr>) (mset xs - {#f#}) \<and>
     (\<forall>y\<in>set ys. erefer (hd ys) \<le> erefer y)"
proof -
  let ?ys = "ViewCalcFillUpdateBusyList n d diff xs"
  have s: "sorted (map erefer ?ys)" by (rule Fill_sorted [OF assms(1)])
  then have "\<forall>y\<in>set ?ys. erefer (hd ?ys) \<le> erefer y" by (cases ?ys) auto
  with s Fill_mset [of n d xs f diff] assms(2,3) show ?thesis by (simp add: find_key)
qed

theorem busy_list_update_witness:
  "let ys = ViewCalcFillUpdateBusyList 1 0 1 [ex_elem\<lparr>enode := 1\<rparr>, ex_elem\<lparr>enode := 2\<rparr>] in sorted (map erefer ys) \<and> erefer (hd ys) = 0"
  using busy_list_update [of "[ex_elem\<lparr>enode := 1\<rparr>, ex_elem\<lparr>enode := 2\<rparr>]" 1 0 "ex_elem\<lparr>enode := 1\<rparr>" 1]
  by (simp add: ex_elem_def Let_def ViewCalcFillUpdateBusyList_def)

text \<open>
  The master stays: \<open>ViewCalcBuildPtEntry1\<close> moves copies from busy to idle disks, but never the
  copy that the clients use as master.
\<close>

theorem move_keeps_master:
  assumes "slots_ok (calcCopyNum c) e" "i < calcCopyNum c" "j < copyNum e" "active_at e j" "is_master e j"
  shows "let e' = fst (ViewCalcBuildPtEntry1 c i v e xs) in
     cnode (copyList e' ! j) = masterNodeId e' \<and> cdisk (copyList e' ! j) = masterDiskId e' \<and>
     cstate (copyList e' ! j) = cstate (copyList e ! j) \<and> masterNodeId e' = masterNodeId e \<and> masterDiskId e' = masterDiskId e"
  using Build1_cases [of c i v e xs]
proof (elim disjE exE conjE)
  fix x
  let ?m = "calcCopyNum c"
  assume pre: "ViewCalcBuildPreCheck c i v e \<noteq> None"
    and f: "fst (ViewCalcBuildPtEntry1 c i v e xs) = ViewCalcUpdateCopyKeepAlive c (moved c i v x e)"
  note d = slots_okD [OF assms(1)]
  have "\<not> is_master e (slot_index c e i)"
    using pre by (auto simp: ViewCalcBuildPreCheck_def Let_def is_master_def split: if_splits)
  moreover have "\<not> active_at e i \<or> \<not> active_at e (i + ?m)" using assms(1,2) by (auto simp: slots_ok_def)
  ultimately have "j \<noteq> i" "j \<noteq> i + ?m"
    using assms(4,5) by (auto simp: slot_index_def in_use_active split: if_splits)
  then show ?thesis using assms(3,5) d f
    by (auto simp: Let_def ViewCalcUpdateCopyKeepAlive_def moved_def upd_copy_nth nth_map_first is_master_def)
qed (use assms in \<open>simp add: is_master_def Let_def\<close>)

theorem move_keeps_master_witness:
  "let e = ex_entry PT_STATE_NORMAL PT_COPY_STATE_RUNNING; e' = fst (ViewCalcBuildPtEntry1 ex_calc 1 2 e
       [ex_elem\<lparr>enode := 3\<rparr>, ex_elem\<lparr>enode := 1, erefer := 9\<rparr>])
   in cnode (copyList e' ! 1) = masterNodeId e' \<and> masterNodeId e' = 1"
  using move_keeps_master [of ex_calc "ex_entry PT_STATE_NORMAL PT_COPY_STATE_RUNNING" 1 1 2
      "[ex_elem\<lparr>enode := 3\<rparr>, ex_elem\<lparr>enode := 1, erefer := 9\<rparr>]"] ex_slots [of PT_STATE_NORMAL PT_COPY_STATE_RUNNING]
  by (simp add: Let_def ex_calc_def) (simp add: ex_entry_def ex_copy_def active_def is_master_def)

text \<open>
  A copy that is only temporarily down is moved like one on the busiest disk: the search of
  \<open>ViewCalcBuildPtEntry1\<close> for the disk of the copy stops at the last element when the disk is not in
  the busy list, and the count of that other disk decides. Here the copy on node 0 is down and the
  busy list has the nodes 3 and 1; the copy on node 0 is given up for a new one on node 3.
\<close>

theorem move_absent_copy:
  "let e = ex_entry PT_STATE_DEGRADE_LOSS1 PT_COPY_STATE_DOWN;
       xs = [ex_elem\<lparr>enode := 3\<rparr>, ex_elem\<lparr>enode := 1, erefer := 9\<rparr>];
       e' = fst (ViewCalcBuildPtEntry1 ex_calc 0 2 e xs)
   in cnode (copyList e ! 0) \<notin> set (map enode xs) \<and> cstate (copyList e ! 0) = PT_COPY_STATE_DOWN \<and>
      cstate (copyList e' ! 0) = PT_COPY_STATE_OUT \<and> cnode (copyList e' ! 3) = 3 \<and>
      cstate (copyList e' ! 3) = PT_COPY_STATE_RECOVERY"
proof -
  let ?e = "ex_entry PT_STATE_DEGRADE_LOSS1 PT_COPY_STATE_DOWN"
  have pre: "ViewCalcBuildPreCheck ex_calc 0 2 ?e = Some 0"
    by (simp add: ViewCalcBuildPreCheck_def slot_index_def in_use_def ex_entry_def ex_copy_def Let_def)
  have has: "ViewCalcPtEntryHasNodeId ?e 3 = False"
    by (simp add: ViewCalcPtEntryHasNodeId_def ex_entry_def ex_copy_def upt_rec)
  show ?thesis
    by (simp add: ViewCalcBuildPtEntry1_def pre has Let_def ex_elem_def)
      (simp add: ex_entry_def ex_copy_def ex_calc_def upd_copy_def ViewCalcUpdateCopyKeepAlive_def map_first_def)
qed

end
