(* ===== verification/PtStore.thy ===== *)
theory PtStore
  imports CmTypes
begin

text \<open>
  The storer of the table, \<^verbatim>\<open>cluster/server/pt/cm_pt_store.c\<close>. It records the table in ZooKeeper when it
  differs from the last recorded one, and sorts the partitions by the nodes that have a copy.

  A list of elements is the sequence of the partitions they carry; \<open>sfree\<close> is the list of unused
  elements with their old contents. Recording is a call of the ZooKeeper adapter, an argument that
  acts on a state \<open>'z\<close>. \<open>CmServerZkRecordSubPtEntryList\<close> is empty in the source. \<open>None\<close> stands for an
  access outside an array.
\<close>

abbreviation CM_PT_STORE_EXPAND_NUM :: nat where "CM_PT_STORE_EXPAND_NUM \<equiv> 4"

record store =
  smaxNodeNum :: nat
  smaxPtNum :: nat
  sptList :: pt_list
  snodeList :: "pt_entry list list"
  snodeListBak :: "pt_entry list list"
  sfree :: "pt_entry list"

definition CmServerZkRecordSubPtEntryList :: "nat \<Rightarrow> nat \<Rightarrow> pt_list \<Rightarrow> int" where
  "CmServerZkRecordSubPtEntryList pool nodeId l = CM_OK"

text \<open>
  \<open>ViewCreateStorer\<close>: the outcome of the five allocations, the contents of the fresh memory, and the
  numbers. The product of the check and of the element number is computed in 32 bits; the check divides by
  the number of copies, so that with none there is no store.
\<close>

definition ViewCreateStorer ::
  "bool \<Rightarrow> bool \<Rightarrow> bool \<Rightarrow> bool \<Rightarrow> bool \<Rightarrow> pt_list \<Rightarrow> (nat \<Rightarrow> pt_entry) \<Rightarrow> nat \<Rightarrow> nat \<Rightarrow> nat \<Rightarrow> store option" where
  "ViewCreateStorer mStore mNodes mBak mPts mCache junkList junk maxNode maxPt maxCopy =
     (if \<not> mStore then None
      else if maxCopy = 0 \<or> maxPt > (2 ^ 32 - 1) div (CM_PT_STORE_EXPAND_NUM * maxCopy) then None
      else let elemNum = maxPt * maxCopy * CM_PT_STORE_EXPAND_NUM in
        if \<not> mNodes \<or> \<not> mBak \<or> \<not> mPts \<or> \<not> mCache then None
        else Some \<lparr>smaxNodeNum = maxNode, smaxPtNum = maxPt,
               sptList = junkList\<lparr>entries := map junk [0..<maxPt]\<rparr>,
               snodeList = replicate maxNode [], snodeListBak = replicate maxNode [], sfree = map junk [0..<elemNum]\<rparr>)"

section \<open>Partitions by node\<close>

text \<open>The inner loop of \<open>ViewStoreFillNodeList\<close> over the copies of a partition.\<close>

fun fill_copies :: "pt_entry \<Rightarrow> nat list \<Rightarrow> pt_entry list list \<Rightarrow> pt_entry list \<Rightarrow>
    (int \<times> pt_entry list list \<times> pt_entry list) option" where
  "fill_copies e [] ns fr = Some (CM_OK, ns, fr)"
| "fill_copies e (i # is) ns fr =
     (if cstate (copyList e ! i) = PT_COPY_STATE_INIT \<or> cstate (copyList e ! i) = PT_COPY_STATE_OUT
      then fill_copies e is ns fr
      else let n = cnode (copyList e ! i) in
        case fr of
          [] \<Rightarrow> Some (CM_ERR, ns, fr)
        | _ # fr' \<Rightarrow> if n \<ge> length ns then None else fill_copies e is (ns[n := ns ! n @ [e]]) fr')"

fun fill_pts :: "pt_entry list \<Rightarrow> pt_entry list list \<Rightarrow> pt_entry list \<Rightarrow>
    (int \<times> pt_entry list list \<times> pt_entry list) option" where
  "fill_pts [] ns fr = Some (CM_OK, ns, fr)"
| "fill_pts (e # es) ns fr =
     (case fill_copies e [0..<copyNum e] ns fr of
        None \<Rightarrow> None
      | Some (ret, ns', fr') \<Rightarrow> if ret \<noteq> CM_OK then Some (ret, ns', fr') else fill_pts es ns' fr')"

definition ViewStoreFillNodeList :: "bool \<Rightarrow> pt_list \<Rightarrow> store \<Rightarrow> (int \<times> store) option" where
  "ViewStoreFillNodeList bak l s =
     (case fill_pts (take (ptNum l) (entries l)) (if bak then snodeListBak s else snodeList s) (sfree s) of
        None \<Rightarrow> None
      | Some (ret, ns, fr) \<Rightarrow>
          Some (ret, (if bak then s\<lparr>snodeListBak := ns\<rparr> else s\<lparr>snodeList := ns\<rparr>)\<lparr>sfree := fr\<rparr>))"

text \<open>The lists of the nodes go back to the free list, each in front of it.\<close>

definition ViewStoreClearNodeList :: "store \<Rightarrow> store" where
  "ViewStoreClearNodeList s =
     s\<lparr>sfree := fold (@) (take (smaxNodeNum s) (snodeListBak s)) (fold (@) (take (smaxNodeNum s) (snodeList s)) (sfree s)),
       snodeList := map_first (smaxNodeNum s) (\<lambda>_. []) (snodeList s),
       snodeListBak := map_first (smaxNodeNum s) (\<lambda>_. []) (snodeListBak s)\<rparr>"

section \<open>Views of the nodes\<close>

text \<open>Partitions written to the start of the buffer, and their number.\<close>

definition put_entries :: "pt_entry list \<Rightarrow> pt_list \<Rightarrow> pt_list option" where
  "put_entries es l =
     (if length es > length (entries l) then None
      else Some (l\<lparr>entries := es @ drop (length es) (entries l), ptNum := length es mod 2 ^ 16\<rparr>))"

definition copy_head :: "pt_list \<Rightarrow> pt_list \<Rightarrow> pt_list" where
  "copy_head src dst =
     dst\<lparr>poolId := poolId src, maxCopyNum := maxCopyNum src, minCopyNum := minCopyNum src,
         globalVersion := globalVersion src, changeVersion := changeVersion src\<rparr>"

fun record_nodes :: "nat list \<Rightarrow> pt_list \<Rightarrow> store \<Rightarrow> (int \<times> store) option" where
  "record_nodes [] l s = Some (CM_OK, s)"
| "record_nodes (n # ns) l s =
     (if snodeList s ! n = [] then record_nodes ns l s
      else case put_entries (snodeList s ! n) (sptList s) of
        None \<Rightarrow> None
      | Some buf \<Rightarrow>
          let s' = s\<lparr>sptList := buf\<rparr>; ret = CmServerZkRecordSubPtEntryList (poolId l) n buf in
          if ret \<noteq> CM_OK then Some (ret, s') else record_nodes ns l s')"

definition ViewStoreRecordSubPtView :: "pt_list \<Rightarrow> store \<Rightarrow> (int \<times> store) option" where
  "ViewStoreRecordSubPtView l s =
     record_nodes [0..<smaxNodeNum s] l (s\<lparr>sptList := (copy_head l (sptList s))\<lparr>ptNum := 0\<rparr>\<rparr>)"

text \<open>\<open>memcpy_s\<close> of the head and the partitions of a table.\<close>

definition copy_list :: "pt_list \<Rightarrow> pt_list \<Rightarrow> pt_list option" where
  "copy_list src dst =
     (if ptNum src > length (entries dst) then None
      else Some (src\<lparr>entries := take (ptNum src) (entries src) @ drop (ptNum src) (entries dst)\<rparr>))"

definition ViewStoreInitial ::
  "(pt_list \<Rightarrow> 'z \<Rightarrow> int \<times> 'z) \<Rightarrow> pt_list \<Rightarrow> store \<Rightarrow> 'z \<Rightarrow> (int \<times> pt_list \<times> store \<times> 'z) option" where
  "ViewStoreInitial rec l s z =
     (let l' = l\<lparr>changeVersion := inc64 (changeVersion l)\<rparr> in
      case rec l' z of
        (ret, z') \<Rightarrow>
          if ret \<noteq> CM_OK then Some (ret, l', s, z')
          else case ViewStoreFillNodeList False l' s of
            None \<Rightarrow> None
          | Some (ret, s1) \<Rightarrow>
              if ret \<noteq> CM_OK then Some (ret, l', ViewStoreClearNodeList s1, z')
              else case ViewStoreRecordSubPtView l' s1 of
                None \<Rightarrow> None
              | Some (ret, s2) \<Rightarrow>
                  if ret \<noteq> CM_OK then Some (ret, l', ViewStoreClearNodeList s2, z')
                  else case copy_list l' (sptList s2) of
                    None \<Rightarrow> None
                  | Some buf \<Rightarrow> Some (CM_OK, l', ViewStoreClearNodeList (s2\<lparr>sptList := buf\<rparr>), z'))"

section \<open>Comparing tables\<close>

definition ViewStorePtEntryIsSame :: "pt_entry \<Rightarrow> pt_entry \<Rightarrow> bool" where
  "ViewStorePtEntryIsSame a b =
     (if ptId a \<noteq> ptId b \<or> pstate a \<noteq> pstate b \<or> birthVersion a \<noteq> birthVersion b \<or> masterNodeId a \<noteq> masterNodeId b \<or>
         masterDiskId a \<noteq> masterDiskId b \<or> referNum a \<noteq> referNum b \<or> copyNum a \<noteq> copyNum b then False
      else \<not> list_ex (\<lambda>i. cstate (copyList a ! i) \<noteq> cstate (copyList b ! i) \<or> cnode (copyList a ! i) \<noteq> cnode (copyList b ! i) \<or>
             cdisk (copyList a ! i) \<noteq> cdisk (copyList b ! i) \<or> keepAlive (copyList a ! i) \<noteq> keepAlive (copyList b ! i))
             [0..<copyNum a])"

text \<open>
  \<open>ViewStoreCheckSubPtView1\<close>: an element is written where the table ends or where it differs.
\<close>

fun check_view :: "nat \<Rightarrow> pt_entry list \<Rightarrow> bool \<Rightarrow> pt_list \<Rightarrow> (bool \<times> pt_list) option" where
  "check_view index [] upd l = Some (upd, l\<lparr>ptNum := index mod 2 ^ 16\<rparr>)"
| "check_view index (e # es) upd l =
     (if index \<ge> ptNum l
      then if index \<ge> length (entries l) then None
        else check_view (index + 1) es upd (l\<lparr>entries := (entries l)[index := e]\<rparr>)
      else if \<not> ViewStorePtEntryIsSame (entries l ! index) e
      then check_view (index + 1) es True (l\<lparr>entries := (entries l)[index := e]\<rparr>)
      else check_view (index + 1) es upd l)"

definition ViewStoreCheckSubPtView1 :: "pt_entry list \<Rightarrow> pt_list \<Rightarrow> (bool \<times> pt_list) option" where
  "ViewStoreCheckSubPtView1 es l = check_view 0 es (length es mod 2 ^ 16 \<noteq> ptNum l) l"

fun check_nodes :: "nat list \<Rightarrow> pt_list \<Rightarrow> store \<Rightarrow> (int \<times> store) option" where
  "check_nodes [] l s = Some (CM_OK, s)"
| "check_nodes (n # ns) l s =
     (let s0 = s\<lparr>sptList := (sptList s)\<lparr>ptNum := 0\<rparr>\<rparr> in
      if snodeList s0 ! n = [] \<and> ptNum (sptList s0) = 0 then check_nodes ns l s0
      else case ViewStoreCheckSubPtView1 (snodeList s0 ! n) (sptList s0) of
        None \<Rightarrow> None
      | Some (upd, buf) \<Rightarrow>
          if \<not> upd then check_nodes ns l (s0\<lparr>sptList := buf\<rparr>)
          else let s' = s0\<lparr>sptList := copy_head l buf\<rparr>; ret = CmServerZkRecordSubPtEntryList (poolId l) n (sptList s') in
            if ret \<noteq> CM_OK then Some (ret, s') else check_nodes ns l s')"

definition ViewStoreCheckSubPtView :: "pt_list \<Rightarrow> store \<Rightarrow> (int \<times> store) option" where
  "ViewStoreCheckSubPtView l s = check_nodes [0..<smaxNodeNum s] l s"

definition ViewStoreLoadCheck :: "pt_list \<Rightarrow> store \<Rightarrow> (int \<times> store) option" where
  "ViewStoreLoadCheck l s =
     (case ViewStoreFillNodeList False l s of
        None \<Rightarrow> None
      | Some (ret, s1) \<Rightarrow>
          if ret \<noteq> CM_OK then Some (ret, ViewStoreClearNodeList s1)
          else case ViewStoreCheckSubPtView l s1 of
            None \<Rightarrow> None
          | Some (ret, s2) \<Rightarrow>
              if ret \<noteq> CM_OK then Some (ret, ViewStoreClearNodeList s2)
              else case copy_list l (sptList s2) of
                None \<Rightarrow> None
              | Some buf \<Rightarrow> Some (CM_OK, ViewStoreClearNodeList (s2\<lparr>sptList := buf\<rparr>)))"

section \<open>Updates\<close>

text \<open>
  \<open>ViewStoreUpdateSubPtView1\<close> writes all partitions of the node and says whether one differs from the
  partition at the same place before. A longer or shorter list alone is not a difference.
\<close>

definition ViewStoreUpdateSubPtView1 :: "pt_entry list \<Rightarrow> pt_entry list \<Rightarrow> pt_list \<Rightarrow> (bool \<times> pt_list) option" where
  "ViewStoreUpdateSubPtView1 cur prev l =
     (case put_entries cur l of
        None \<Rightarrow> None
      | Some buf \<Rightarrow> Some (list_ex (\<lambda>(a, b). \<not> ViewStorePtEntryIsSame a b) (zip cur prev), buf))"

fun update_nodes :: "nat list \<Rightarrow> pt_list \<Rightarrow> store \<Rightarrow> (int \<times> store) option" where
  "update_nodes [] l s = Some (CM_OK, s)"
| "update_nodes (n # ns) l s =
     (case ViewStoreUpdateSubPtView1 (snodeList s ! n) (snodeListBak s ! n) (sptList s) of
        None \<Rightarrow> None
      | Some (upd, buf) \<Rightarrow>
          let s' = s\<lparr>sptList := buf\<rparr> in
          if \<not> upd then update_nodes ns l s'
          else let ret = CmServerZkRecordSubPtEntryList (poolId l) n buf in
            if ret \<noteq> CM_OK then Some (ret, s') else update_nodes ns l s')"

definition ViewStoreUpdateSubPtView :: "pt_list \<Rightarrow> store \<Rightarrow> (int \<times> store) option" where
  "ViewStoreUpdateSubPtView l s =
     update_nodes [0..<smaxNodeNum s] l (s\<lparr>sptList := (copy_head l (sptList s))\<lparr>ptNum := 0\<rparr>\<rparr>)"

definition ViewStoreIsNeedUpdate :: "pt_list \<Rightarrow> pt_list \<Rightarrow> int" where
  "ViewStoreIsNeedUpdate pre nex =
     (if globalVersion pre \<noteq> globalVersion nex \<or> changeVersion pre \<noteq> changeVersion nex \<or> ptNum pre \<noteq> ptNum nex then CM_OK
      else if list_ex (\<lambda>p. \<not> ViewStorePtEntryIsSame (entries pre ! p) (entries nex ! p)) [0..<ptNum pre] then CM_OK
      else CM_ERR)"

definition ViewStoreUpdate ::
  "(pt_list \<Rightarrow> 'z \<Rightarrow> int \<times> 'z) \<Rightarrow> pt_list \<Rightarrow> store \<Rightarrow> 'z \<Rightarrow> (int \<times> pt_list \<times> store \<times> 'z) option" where
  "ViewStoreUpdate rec l s z =
     (if ViewStoreIsNeedUpdate l (sptList s) \<noteq> CM_OK then Some (CM_OK, l, s, z)
      else let l' = l\<lparr>changeVersion := inc64 (changeVersion l)\<rparr> in
      case rec l' z of
        (ret, z') \<Rightarrow>
          if ret \<noteq> CM_OK then Some (ret, l', s, z')
          else case ViewStoreFillNodeList False l' s of
            None \<Rightarrow> None
          | Some (ret, s1) \<Rightarrow>
              if ret \<noteq> CM_OK then Some (ret, l', ViewStoreClearNodeList s1, z')
              else case ViewStoreFillNodeList True (sptList s1) s1 of
                None \<Rightarrow> None
              | Some (ret, s2) \<Rightarrow>
                  if ret \<noteq> CM_OK then Some (ret, l', ViewStoreClearNodeList s2, z')
                  else case ViewStoreUpdateSubPtView l' s2 of
                    None \<Rightarrow> None
                  | Some (ret, s3) \<Rightarrow>
                      if ret \<noteq> CM_OK then Some (ret, l', ViewStoreClearNodeList s3, z')
                      else case copy_list l' (sptList s3) of
                        None \<Rightarrow> None
                      | Some buf \<Rightarrow> Some (CM_OK, l', ViewStoreClearNodeList (s3\<lparr>sptList := buf\<rparr>), z'))"

end
