(* ===== verification/CmMonitor.thy ===== *)
theory CmMonitor
  imports CmTypes
begin

text \<open>
  The fault monitor, \<^verbatim>\<open>cluster/server/cm_server_monitor.c\<close>: nodes and disks that fail are recorded with
  the time, a return cancels the record, and a fault that lasts too long is reported so that the node
  or disk leaves the cluster.

  The state is the record of one pool; the pools are independent. The time is an argument of the
  operations that read the clock, and \<open>nodeT\<close> and \<open>diskT\<close> are the configured limits in seconds. The
  array of disk records with its counter is the list of the counted part; \<open>None\<close> stands for a write
  behind its 16 elements. Each operation holds the lock of the pool, so it is one step.
\<close>

datatype record_state = RECORD_STATE_NORMAL | RECORD_STATE_FAULT

record record_info =
  rstate :: record_state
  rid :: nat
  rtimes :: nat

record node_record =
  nused :: bool
  nnodeId :: nat
  nnode :: record_info
  ndiskRecs :: "record_info list"

record pool_record =
  pused :: bool
  activeNum :: nat
  idle :: bool
  nodeRecs :: "node_record list"

definition inc16 :: "nat \<Rightarrow> nat" where "inc16 x = (x + 1) mod 2 ^ 16"

definition dec16 :: "nat \<Rightarrow> nat" where "dec16 x = (x + (2 ^ 16 - 1)) mod 2 ^ 16"

definition upd_node :: "nat \<Rightarrow> (node_record \<Rightarrow> node_record) \<Rightarrow> pool_record \<Rightarrow> pool_record" where
  "upd_node n f r = r\<lparr>nodeRecs := (nodeRecs r)[n := f (nodeRecs r ! n)]\<rparr>"

section \<open>Faults\<close>

definition CmServerListenNodeFault :: "nat \<Rightarrow> nat \<Rightarrow> pool_record \<Rightarrow> pool_record" where
  "CmServerListenNodeFault now n r =
     (let x = nodeRecs r ! n; fault = \<lparr>rstate = RECORD_STATE_FAULT, rid = n, rtimes = now\<rparr> in
      if \<not> nused x
      then (upd_node n (\<lambda>x. x\<lparr>nused := True, nnode := fault\<rparr>) r)\<lparr>activeNum := inc16 (activeNum r)\<rparr>
      else if rstate (nnode x) = RECORD_STATE_FAULT then r
      else upd_node n (\<lambda>x. x\<lparr>nnode := fault, ndiskRecs := []\<rparr>) r)"

definition add_disk :: "nat \<Rightarrow> nat \<Rightarrow> node_record \<Rightarrow> node_record option" where
  "add_disk now d x =
     (if length (ndiskRecs x) \<ge> DISK_LIST_NUM then None
      else Some (x\<lparr>ndiskRecs := ndiskRecs x @ [\<lparr>rstate = RECORD_STATE_FAULT, rid = d, rtimes = now\<rparr>]\<rparr>))"

definition CmServerListenDiskFault :: "nat \<Rightarrow> nat \<Rightarrow> nat \<Rightarrow> pool_record \<Rightarrow> pool_record option" where
  "CmServerListenDiskFault now n d r =
     (let x = nodeRecs r ! n in
      if \<not> nused x
      then case add_disk now d (x\<lparr>nused := True\<rparr>) of
             None \<Rightarrow> None
           | Some x' \<Rightarrow> Some ((upd_node n (\<lambda>_. x') r)\<lparr>activeNum := inc16 (activeNum r)\<rparr>)
      else if rstate (nnode x) = RECORD_STATE_FAULT then Some r
      else if list_ex (\<lambda>y. rid y = d) (ndiskRecs x) then Some r
      else case add_disk now d x of
             None \<Rightarrow> None
           | Some x' \<Rightarrow> Some (upd_node n (\<lambda>_. x') r))"

definition reset_info :: "nat \<Rightarrow> record_info" where
  "reset_info n = \<lparr>rstate = RECORD_STATE_NORMAL, rid = n, rtimes = 0\<rparr>"

definition CmServerCancelNodeFault :: "nat \<Rightarrow> pool_record \<Rightarrow> pool_record" where
  "CmServerCancelNodeFault n r =
     (if \<not> nused (nodeRecs r ! n) then r
      else (upd_node n (\<lambda>x. x\<lparr>nused := False, nnode := reset_info n, ndiskRecs := []\<rparr>) r)\<lparr>activeNum := dec16 (activeNum r)\<rparr>)"

text \<open>The loop of \<open>CmServerCancelDiskFault\<close>: \<open>di\<close> is \<open>diskIndex\<close>, which is \<open>num\<close> until the disk is found.\<close>

fun cancel_loop :: "nat \<Rightarrow> nat \<Rightarrow> nat list \<Rightarrow> record_info list \<Rightarrow> nat \<Rightarrow> record_info list \<times> nat" where
  "cancel_loop d num [] xs di = (xs, di)"
| "cancel_loop d num (i # is) xs di =
     (if rid (xs ! i) = d then cancel_loop d num is xs i
      else if di \<noteq> num then cancel_loop d num is (xs[di := xs ! i]) (di + 1)
      else cancel_loop d num is xs di)"

definition CmServerCancelDiskFault :: "nat \<Rightarrow> nat \<Rightarrow> pool_record \<Rightarrow> pool_record" where
  "CmServerCancelDiskFault n d r =
     (let x = nodeRecs r ! n in
      if \<not> nused x then r
      else if rstate (nnode x) = RECORD_STATE_FAULT then r
      else case cancel_loop d (length (ndiskRecs x)) [0..<length (ndiskRecs x)] (ndiskRecs x) (length (ndiskRecs x)) of
        (xs, di) \<Rightarrow>
          let r' = upd_node n (\<lambda>x. x\<lparr>ndiskRecs := take di xs\<rparr>) r in
          if di = 0 then (upd_node n (\<lambda>x. x\<lparr>nused := False\<rparr>) r')\<lparr>activeNum := dec16 (activeNum r)\<rparr> else r')"

section \<open>Expiry\<close>

definition expired :: "nat \<Rightarrow> nat \<Rightarrow> record_info \<Rightarrow> bool" where
  "expired limit now x \<longleftrightarrow> add64 (rtimes x) limit \<le> now"

definition CmServerMonitorResetNode :: "nat \<Rightarrow> node_record \<Rightarrow> node_record" where
  "CmServerMonitorResetNode n x = x\<lparr>nused := False, nnodeId := n, nnode := reset_info n, ndiskRecs := []\<rparr>"

text \<open>The records whose indices are in \<open>list\<close> are moved to the front, one after the other and in place.\<close>

definition compact :: "nat list \<Rightarrow> record_info list \<Rightarrow> record_info list" where
  "compact list xs = take (length list) (fold (\<lambda>i xs. xs[i := xs ! (list ! i)]) [0..<length list] xs)"

text \<open>One round of \<open>CmServerMonitorPoolExpiredUpdate\<close>; the flag says that the record is no longer active.\<close>

definition expire_node :: "nat \<Rightarrow> nat \<Rightarrow> nat \<Rightarrow> nat \<Rightarrow> node_record \<Rightarrow> bool \<times> node_record" where
  "expire_node nodeT diskT now n x =
     (if \<not> nused x then (False, x)
      else if rstate (nnode x) = RECORD_STATE_FAULT
      then if expired nodeT now (nnode x) then (True, CmServerMonitorResetNode n x) else (False, x)
      else if ndiskRecs x = [] then (False, x)
      else let list = filter (\<lambda>i. \<not> expired diskT now (ndiskRecs x ! i)) [0..<length (ndiskRecs x)] in
        if list = [] then (True, CmServerMonitorResetNode n x) else (False, x\<lparr>ndiskRecs := compact list (ndiskRecs x)\<rparr>))"

definition expire_step :: "nat \<Rightarrow> nat \<Rightarrow> nat \<Rightarrow> nat \<Rightarrow> pool_record \<Rightarrow> pool_record" where
  "expire_step nodeT diskT now n r =
     (case expire_node nodeT diskT now n (nodeRecs r ! n) of
        (gone, x) \<Rightarrow> let r' = upd_node n (\<lambda>_. x) r in if gone then r'\<lparr>activeNum := dec16 (activeNum r)\<rparr> else r')"

definition CmServerMonitorPoolExpiredUpdate :: "nat \<Rightarrow> nat \<Rightarrow> nat \<Rightarrow> pool_record \<Rightarrow> pool_record" where
  "CmServerMonitorPoolExpiredUpdate nodeT diskT now r = fold (expire_step nodeT diskT now) [0..<length (nodeRecs r)] r"

text \<open>What \<open>CmServerMonitorPoolExpiredHandle\<close> reports, in order.\<close>

datatype expiry = ExpiredNode nat | ExpiredDisk nat nat

definition node_expiries :: "nat \<Rightarrow> nat \<Rightarrow> nat \<Rightarrow> nat \<Rightarrow> node_record \<Rightarrow> expiry list" where
  "node_expiries nodeT diskT now n x =
     (if \<not> nused x then []
      else if rstate (nnode x) = RECORD_STATE_FAULT
      then if expired nodeT now (nnode x) then [ExpiredNode n] else []
      else map (\<lambda>y. ExpiredDisk n (rid y)) (filter (expired diskT now) (ndiskRecs x)))"

definition expiries :: "nat \<Rightarrow> nat \<Rightarrow> nat \<Rightarrow> pool_record \<Rightarrow> expiry list" where
  "expiries nodeT diskT now r =
     concat (map (\<lambda>n. node_expiries nodeT diskT now n (nodeRecs r ! n)) [0..<length (nodeRecs r)])"

text \<open>
  \<open>CmServerMonitorPoolExpiredHandle\<close> with the three functions of the registered handle, which act on
  the state \<open>'v\<close> of the view.
\<close>

fun call_handle :: "(nat \<Rightarrow> 'v \<Rightarrow> 'v) \<Rightarrow> (nat \<Rightarrow> nat \<Rightarrow> 'v \<Rightarrow> 'v) \<Rightarrow> expiry \<Rightarrow> 'v \<Rightarrow> 'v" where
  "call_handle nodeSet diskSet (ExpiredNode n) v = nodeSet n v"
| "call_handle nodeSet diskSet (ExpiredDisk n d) v = diskSet n d v"

definition CmServerMonitorPoolExpiredHandle ::
  "(nat \<Rightarrow> 'v \<Rightarrow> 'v) \<Rightarrow> (nat \<Rightarrow> nat \<Rightarrow> 'v \<Rightarrow> 'v) \<Rightarrow> ('v \<Rightarrow> (int \<times> 'v) option) \<Rightarrow> nat \<Rightarrow> nat \<Rightarrow> nat \<Rightarrow>
   pool_record \<Rightarrow> 'v \<Rightarrow> (pool_record \<times> 'v) option" where
  "CmServerMonitorPoolExpiredHandle nodeSet diskSet commit nodeT diskT now r v =
     (case commit (fold (call_handle nodeSet diskSet) (expiries nodeT diskT now r) v) of
        None \<Rightarrow> None
      | Some (ret, v') \<Rightarrow>
          if ret \<noteq> CM_OK then Some (r\<lparr>idle := True\<rparr>, v')
          else Some ((CmServerMonitorPoolExpiredUpdate nodeT diskT now r)\<lparr>idle := True\<rparr>, v'))"

definition CmServerMonitorPoolIsExpired :: "nat \<Rightarrow> nat \<Rightarrow> nat \<Rightarrow> pool_record \<Rightarrow> bool" where
  "CmServerMonitorPoolIsExpired nodeT diskT now r =
     list_ex (\<lambda>n. let x = nodeRecs r ! n in
        nused x \<and> (if rstate (nnode x) = RECORD_STATE_FAULT then expired nodeT now (nnode x)
          else list_ex (\<lambda>y. rstate y = RECORD_STATE_FAULT \<and> expired diskT now y) (ndiskRecs x))) [0..<length (nodeRecs r)]"

text \<open>
  A round of \<open>CmServerMonitorDetectThread\<close> for one pool: whether the thread has something to watch, and
  whether a task is scheduled.
\<close>

definition detect_pool :: "nat \<Rightarrow> nat \<Rightarrow> nat \<Rightarrow> pool_record \<Rightarrow> bool \<times> bool \<times> pool_record" where
  "detect_pool nodeT diskT now r =
     (if \<not> pused r \<or> activeNum r = 0 then (False, False, r)
      else if \<not> idle r then (True, False, r)
      else let isExpired = CmServerMonitorPoolIsExpired nodeT diskT now r in
        (True, isExpired, if isExpired then r\<lparr>idle := False\<rparr> else r))"

section \<open>Setup\<close>

definition CmServerMonitorResetPool :: "nat \<Rightarrow> pool_record \<Rightarrow> pool_record" where
  "CmServerMonitorResetPool maxNodeNum r =
     r\<lparr>activeNum := 0, idle := True,
       nodeRecs := map (\<lambda>n. \<lparr>nused = False, nnodeId = n, nnode = reset_info n, ndiskRecs = []\<rparr>) [0..<maxNodeNum]\<rparr>"

definition CmServerMonitorLoadPool :: "bool \<Rightarrow> nat \<Rightarrow> pool_record \<Rightarrow> int \<times> pool_record" where
  "CmServerMonitorLoadPool mallocOk maxNodeNum r =
     (if \<not> mallocOk then (CM_ERR, r) else (CM_OK, CmServerMonitorResetPool maxNodeNum (r\<lparr>pused := True\<rparr>)))"

definition CmServerMonitorInitMgr :: pool_record where
  "CmServerMonitorInitMgr = \<lparr>pused = False, activeNum = 0, idle = True, nodeRecs = []\<rparr>"

definition CmServerMonitorReset :: "nat \<Rightarrow> pool_record \<Rightarrow> pool_record" where
  "CmServerMonitorReset maxNodeNum r = (if \<not> pused r then r else CmServerMonitorResetPool maxNodeNum r)"

text \<open>
  All pools: \<open>conf\<close> has the number of nodes of every configured pool. The functions of \<open>malloc\<close> and of
  the creation of the thread are arguments.
\<close>

definition CmServerMonitorExit :: "pool_record list \<Rightarrow> pool_record list" where
  "CmServerMonitorExit = map (\<lambda>r. if \<not> pused r then r else r\<lparr>pused := False, nodeRecs := []\<rparr>)"

fun load_pools :: "(nat \<Rightarrow> bool) \<Rightarrow> (nat \<times> nat option) list \<Rightarrow> pool_record list \<Rightarrow> int \<times> pool_record list" where
  "load_pools mallocOk [] rs = (CM_OK, rs)"
| "load_pools mallocOk ((i, None) # is) rs = load_pools mallocOk is rs"
| "load_pools mallocOk ((i, Some maxNodeNum) # is) rs =
     (case CmServerMonitorLoadPool (mallocOk i) maxNodeNum (rs ! i) of
        (ret, r) \<Rightarrow> if ret \<noteq> CM_OK then (ret, CmServerMonitorExit (rs[i := r])) else load_pools mallocOk is (rs[i := r]))"

definition CmServerMonitorInit :: "(nat \<Rightarrow> bool) \<Rightarrow> int \<Rightarrow> nat option list \<Rightarrow> int \<times> pool_record list" where
  "CmServerMonitorInit mallocOk threadRet conf =
     (case load_pools mallocOk (enumerate 0 conf) (map (\<lambda>_. CmServerMonitorInitMgr) conf) of
        (ret, rs) \<Rightarrow> if ret \<noteq> CM_OK then (ret, rs)
          else if threadRet \<noteq> CM_OK then (threadRet, CmServerMonitorExit rs) else (CM_OK, rs))"

text \<open>One round of the thread over all pools: the pools for which a task is scheduled.\<close>

definition CmServerMonitorDetectThread :: "nat \<Rightarrow> nat \<Rightarrow> nat \<Rightarrow> pool_record list \<Rightarrow> bool \<times> nat list \<times> pool_record list" where
  "CmServerMonitorDetectThread nodeT diskT now rs =
     (list_ex (\<lambda>r. fst (detect_pool nodeT diskT now r)) rs,
      filter (\<lambda>i. fst (snd (detect_pool nodeT diskT now (rs ! i)))) [0..<length rs],
      map (\<lambda>r. snd (snd (detect_pool nodeT diskT now r))) rs)"

end
