(* ===== verification/CmView.thy ===== *)
theory CmView
  imports PtCalc PtStore CmMonitor
begin

text \<open>
  The view, \<^verbatim>\<open>cluster/server/cm_server_view.c\<close>: the master server follows the nodes of a pool, keeps
  the table of partitions up to date and records both in ZooKeeper. It calls the calculation, the
  storer and the monitor.

  The state is that of one pool, with the record of the monitor for this pool. The events of a pool
  are handled one after the other by the thread of the pool. The adapter of ZooKeeper is a record of functions on a state
  \<open>'z\<close>; the clock is an argument. \<open>None\<close> stands for an access outside an array or through a null
  pointer.
\<close>

datatype redundance = PT_NONE | PT_REP_SINGLE | PT_REP_DOUBLE | PT_REP_TRIPLE

datatype server_role = CM_SERVER_MASTER | CM_SERVER_SLAVE

record pool_info =
  ppoolId :: nat
  predundance :: redundance
  pinitialNodeNum :: nat
  pmaxNodeNum :: nat
  pmaxPtNum :: nat

record server_pool =
  nodeChange :: bool
  stateChange :: bool
  ptChange :: bool
  isInitialOk :: bool
  isInitialDoing :: bool
  vnodes :: "node_info list"
  vstates :: "node_state list"
  vmasterNodeId :: nat
  vpts :: pt_list
  vcalc :: calc
  vstore :: "store option"
  vmon :: pool_record

record 'z zk_ops =
  CmServerZkGetNodeInfo :: "nat \<Rightarrow> 'z \<Rightarrow> int \<times> node_info \<times> 'z"
  CmServerZkGetNodeList :: "node_info list \<Rightarrow> 'z \<Rightarrow> int \<times> node_info list \<times> 'z"
  CmServerZkGetStateList :: "node_state list \<times> nat \<Rightarrow> 'z \<Rightarrow> int \<times> (node_state list \<times> nat) \<times> 'z"
  CmServerZkGetPtEntryList :: "pt_list \<Rightarrow> 'z \<Rightarrow> int \<times> pt_list \<times> 'z"
  CmServerZkRecordNodeList :: "node_info list \<Rightarrow> 'z \<Rightarrow> int \<times> 'z"
  CmServerZkRecordStateList :: "node_state list \<times> nat \<Rightarrow> 'z \<Rightarrow> int \<times> 'z"
  CmServerZkRecordPtEntryList :: "pt_list \<Rightarrow> 'z \<Rightarrow> int \<times> 'z"
  CmServerZkSubscribe :: "('z \<Rightarrow> int \<times> 'z) list"

definition zero_node :: node_info where
  "zero_node = \<lparr>ndisks = [], nnets = [], nspare = replicate DISK_LIST_NUM \<lparr>diskId = 0, diskHealth = DISK_STATE_NORMAL\<rparr>, nid = 0, nstatus = NODE_STATUS_OK, naddr = []\<rparr>"

definition zero_state :: node_state where
  "zero_state = \<lparr>nupdown = NODE_STATE_INVALID, ncluster = NODE_CLUSTER_STATE_INVALID,
     sdisks = replicate DISK_LIST_NUM DISK_CLUSTER_STATE_INVALID, sdiskIds = replicate DISK_LIST_NUM 0, sdiskNum = 0\<rparr>"

definition CmServerViewResetPool :: "pool_info \<Rightarrow> server_pool \<Rightarrow> server_pool" where
  "CmServerViewResetPool pool sp =
     sp\<lparr>stateChange := False, ptChange := False, isInitialOk := False, isInitialDoing := False,
        vnodes := replicate (pmaxNodeNum pool) zero_node, vstates := replicate (pmaxNodeNum pool) zero_state\<rparr>"

section \<open>The table\<close>

text \<open>The storer writes the table when it has changed.\<close>

definition write_table :: "'z zk_ops \<Rightarrow> server_pool \<Rightarrow> 'z \<Rightarrow> (int \<times> server_pool \<times> 'z) option" where
  "write_table zk sp z =
     (if \<not> ptChange sp then Some (CM_OK, sp, z)
      else case vstore sp of
        None \<Rightarrow> None
      | Some s \<Rightarrow>
          (case ViewStoreUpdate (CmServerZkRecordPtEntryList zk) (vpts sp) s z of
             None \<Rightarrow> None
           | Some (ret, l, s', z') \<Rightarrow>
               let sp' = sp\<lparr>vpts := l, vstore := Some s'\<rparr> in
               Some (ret, if ret \<noteq> CM_OK then sp' else sp'\<lparr>ptChange := False\<rparr>, z')))"

text \<open>\<open>addDisk\<close>: there is an event and it is \<open>CM_EVENT_ADD_DISK\<close>.\<close>

definition rebalance :: "pool_info \<Rightarrow> bool \<Rightarrow> server_pool \<Rightarrow> int \<times> server_pool" where
  "rebalance pool addDisk sp =
     (if predundance pool = PT_NONE then (CM_OK, sp)
      else case ViewCalculatorNeedRebalance (vnodes sp) (vstates sp) (vpts sp) (vcalc sp) of
        (isNeed, c) \<Rightarrow>
          if \<not> isNeed then (CM_OK, sp\<lparr>vcalc := c\<rparr>)
          else case ViewCalculatorRebalance (vnodes sp) (vstates sp) addDisk (vpts sp) c of
            (ret, l, c') \<Rightarrow>
              let sp' = sp\<lparr>vpts := l, vcalc := c'\<rparr> in
              (ret, if ret \<noteq> CM_OK then sp' else sp'\<lparr>ptChange := True\<rparr>))"

definition CmServerViewUpdatePtEntryList ::
  "pool_info \<Rightarrow> 'z zk_ops \<Rightarrow> bool \<Rightarrow> server_pool \<Rightarrow> 'z \<Rightarrow> (int \<times> server_pool \<times> 'z) option" where
  "CmServerViewUpdatePtEntryList pool zk addDisk sp z =
     (case rebalance pool addDisk sp of
        (ret, sp1) \<Rightarrow> if ret \<noteq> CM_OK then Some (ret, sp1, z) else write_table zk sp1 z)"

text \<open>The call of \<open>updateState\<close> of the calculator.\<close>

definition update_state :: "pool_info \<Rightarrow> nat \<Rightarrow> node_updown \<Rightarrow> server_pool \<Rightarrow> server_pool" where
  "update_state pool n st sp =
     (if predundance pool = PT_NONE then sp
      else case ViewPtEntryListUpdateNodeState n st (vnodes sp ! n) (ptChange sp) (vpts sp) of
        (change, l) \<Rightarrow> sp\<lparr>ptChange := change, vpts := l\<rparr>)"

section \<open>Expired faults\<close>

definition CmServerViewExpiredNodeSet :: "nat \<Rightarrow> server_pool \<Rightarrow> server_pool" where
  "CmServerViewExpiredNodeSet n sp =
     (if ncluster (vstates sp ! n) = NODE_CLUSTER_STATE_OUT then sp
      else sp\<lparr>vstates := (vstates sp)[n := (vstates sp ! n)\<lparr>ncluster := NODE_CLUSTER_STATE_OUT\<rparr>], stateChange := True\<rparr>)"

definition CmServerViewExpiredDiskSet :: "nat \<Rightarrow> nat \<Rightarrow> server_pool \<Rightarrow> server_pool" where
  "CmServerViewExpiredDiskSet n d sp =
     (let st = vstates sp ! n in
      case find (\<lambda>i. sdiskIds st ! i = d) [0..<sdiskNum st] of
        None \<Rightarrow> sp
      | Some i \<Rightarrow>
          if sdisks st ! i = DISK_CLUSTER_STATE_OUT then sp
          else sp\<lparr>vstates := (vstates sp)[n := st\<lparr>sdisks := (sdisks st)[i := DISK_CLUSTER_STATE_OUT]\<rparr>], stateChange := True\<rparr>)"

definition CmServerViewExpiredCommit ::
  "pool_info \<Rightarrow> 'z zk_ops \<Rightarrow> server_pool \<Rightarrow> 'z \<Rightarrow> (int \<times> server_pool \<times> 'z) option" where
  "CmServerViewExpiredCommit pool zk sp z =
     (if \<not> stateChange sp then Some (CM_OK, sp, z)
      else case CmServerZkRecordStateList zk (vstates sp, vmasterNodeId sp) z of
        (ret, z') \<Rightarrow>
          if ret \<noteq> CM_OK then Some (ret, sp, z')
          else CmServerViewUpdatePtEntryList pool zk False (sp\<lparr>stateChange := False\<rparr>) z')"

text \<open>The task of the monitor with the handle that \<open>CmServerViewRegisterExpiredHandle\<close> registers.\<close>

definition CmServerViewRegisterExpiredHandle ::
  "pool_info \<Rightarrow> 'z zk_ops \<Rightarrow> nat \<Rightarrow> nat \<Rightarrow> nat \<Rightarrow> server_pool \<Rightarrow> 'z \<Rightarrow> (server_pool \<times> 'z) option" where
  "CmServerViewRegisterExpiredHandle pool zk nodeT diskT now sp z =
     (case CmServerMonitorPoolExpiredHandle
             (\<lambda>n (sp, z). (CmServerViewExpiredNodeSet n sp, z)) (\<lambda>n d (sp, z). (CmServerViewExpiredDiskSet n d sp, z))
             (\<lambda>(sp, z). map_option (\<lambda>(ret, sp', z'). (ret, sp', z')) (CmServerViewExpiredCommit pool zk sp z))
             nodeT diskT now (vmon sp) (sp, z) of
        None \<Rightarrow> None
      | Some (r, sp', z') \<Rightarrow> Some (sp'\<lparr>vmon := r\<rparr>, z'))"

section \<open>Nodes\<close>

fun check_disks :: "nat \<Rightarrow> node_info \<Rightarrow> node_state \<Rightarrow> nat list \<Rightarrow> pool_record \<Rightarrow> pool_record option" where
  "check_disks now info st [] r = Some r"
| "check_disks now info st (i # is) r =
     (if i \<ge> length (sdisks st) \<or> nid info \<ge> length (nodeRecs r) then None
      else if diskHealth (ndisks info ! i) = DISK_STATE_FAULT \<and> sdisks st ! i = DISK_CLUSTER_STATE_IN
      then case CmServerListenDiskFault now (nid info) (diskId (ndisks info ! i)) r of
             None \<Rightarrow> None
           | Some r' \<Rightarrow> check_disks now info st is r'
      else check_disks now info st is (CmServerCancelDiskFault (nid info) (diskId (ndisks info ! i)) r))"

definition CmServerViewCheckDiskFault :: "nat \<Rightarrow> node_info \<Rightarrow> node_state \<Rightarrow> pool_record \<Rightarrow> pool_record option" where
  "CmServerViewCheckDiskFault now info st r = check_disks now info st [0..<length (ndisks info)] r"

definition can_lead :: "server_pool \<Rightarrow> nat \<Rightarrow> bool" where
  "can_lead sp n \<longleftrightarrow> nupdown (vstates sp ! n) = NODE_STATE_UP \<and> ncluster (vstates sp ! n) = NODE_CLUSTER_STATE_IN \<and>
     nstatus (vnodes sp ! n) = NODE_STATUS_OK"

definition CmServerViewUpdateMasterNodeId :: "server_pool \<Rightarrow> server_pool option" where
  "CmServerViewUpdateMasterNodeId sp =
     (let mst = vmasterNodeId sp in
      if mst \<noteq> NODE_ID_INVALID \<and> mst \<ge> length (vstates sp) then None
      else if mst \<noteq> NODE_ID_INVALID \<and> can_lead sp mst then Some sp
      else case find (can_lead sp) [0..<length (vstates sp)] of
        None \<Rightarrow> Some sp
      | Some n \<Rightarrow> Some (sp\<lparr>vmasterNodeId := n, stateChange := True\<rparr>))"

definition SyncDiskListToState :: "nat \<Rightarrow> node_info \<Rightarrow> server_pool \<Rightarrow> server_pool option" where
  "SyncDiskListToState n cache sp =
     (let st = vstates sp ! n; num = length (ndisks cache) in
      if num > length (sdisks st) \<or> num > length (sdiskIds st) then None
      else Some (sp\<lparr>vstates := (vstates sp)[n := st\<lparr>sdiskNum := num,
             sdiskIds := map diskId (ndisks cache) @ drop num (sdiskIds st),
             sdisks := replicate num DISK_CLUSTER_STATE_IN @ drop num (sdisks st)\<rparr>],
           stateChange := True, ptChange := True\<rparr>))"

definition CompareAndUpdateNodeInfo ::
  "'z zk_ops \<Rightarrow> nat \<Rightarrow> bool \<Rightarrow> server_pool \<Rightarrow> 'z \<Rightarrow> (int \<times> server_pool \<times> 'z) option" where
  "CompareAndUpdateNodeInfo zk n isInit sp z =
     (case CmServerZkGetNodeInfo zk n z of
        (ret, cache, z') \<Rightarrow>
          if ret \<noteq> CM_OK then Some (ret, sp, z')
          else if vnodes sp ! n = cache then Some (CM_OK, sp, z')
          else case (if isInit then Some sp else SyncDiskListToState n cache sp) of
            None \<Rightarrow> None
          | Some sp' \<Rightarrow> Some (CM_OK, sp'\<lparr>vnodes := (vnodes sp')[n := cache], nodeChange := True\<rparr>, z'))"

definition CmServerViewBuildNode ::
  "pool_info \<Rightarrow> 'z zk_ops \<Rightarrow> nat \<Rightarrow> nat \<Rightarrow> bool \<Rightarrow> server_pool \<Rightarrow> 'z \<Rightarrow> (int \<times> server_pool \<times> 'z) option" where
  "CmServerViewBuildNode pool zk now n isInit sp z =
     (if n \<ge> length (vstates sp) then None
      else if nupdown (vstates sp ! n) = NODE_STATE_INVALID then Some (CM_OK, sp, z)
      else case CompareAndUpdateNodeInfo zk n isInit sp z of
        None \<Rightarrow> None
      | Some (ret, sp1, z1) \<Rightarrow>
          if ret \<noteq> CM_OK then Some (ret, sp1, z1)
          else case CmServerViewUpdateMasterNodeId sp1 of
            None \<Rightarrow> None
          | Some sp2 \<Rightarrow>
              let st = vstates sp2 ! n in
              if nupdown st = NODE_STATE_DOWN \<and> ncluster st = NODE_CLUSTER_STATE_IN
              then if n \<ge> length (nodeRecs (vmon sp2)) then None
                else Some (CM_OK, update_state pool n NODE_STATE_DOWN (sp2\<lparr>vmon := CmServerListenNodeFault now n (vmon sp2)\<rparr>), z1)
              else if nupdown st = NODE_STATE_UP \<and> ncluster st = NODE_CLUSTER_STATE_IN
              then case CmServerViewCheckDiskFault now (vnodes sp2 ! n) st (vmon sp2) of
                     None \<Rightarrow> None
                   | Some r \<Rightarrow> Some (CM_OK, update_state pool n NODE_STATE_UP (sp2\<lparr>vmon := r\<rparr>), z1)
              else Some (CM_OK, sp2, z1))"

text \<open>What follows the changes of the nodes in three of the functions: recording the lists and the table.\<close>

definition record_changes ::
  "pool_info \<Rightarrow> 'z zk_ops \<Rightarrow> bool \<Rightarrow> server_pool \<Rightarrow> 'z \<Rightarrow> (int \<times> server_pool \<times> 'z) option" where
  "record_changes pool zk addDisk sp z =
     (case (if nodeChange sp then CmServerZkRecordNodeList zk (vnodes sp) z else (CM_OK, z)) of
        (ret, z1) \<Rightarrow>
          if ret \<noteq> CM_OK then Some (ret, sp, z1)
          else let sp1 = sp\<lparr>nodeChange := False\<rparr> in
          case (if stateChange sp1 then CmServerZkRecordStateList zk (vstates sp1, vmasterNodeId sp1) z1 else (CM_OK, z1)) of
            (ret, z2) \<Rightarrow>
              if ret \<noteq> CM_OK then Some (ret, sp1, z2)
              else CmServerViewUpdatePtEntryList pool zk addDisk (sp1\<lparr>stateChange := False\<rparr>) z2)"

fun build_nodes ::
  "pool_info \<Rightarrow> 'z zk_ops \<Rightarrow> nat \<Rightarrow> nat list \<Rightarrow> server_pool \<Rightarrow> 'z \<Rightarrow> (int \<times> server_pool \<times> 'z) option" where
  "build_nodes pool zk now [] sp z = Some (CM_OK, sp, z)"
| "build_nodes pool zk now (n # ns) sp z =
     (case CmServerViewBuildNode pool zk now n True sp z of
        None \<Rightarrow> None
      | Some (ret, sp', z') \<Rightarrow> if ret \<noteq> CM_OK then Some (ret, sp', z') else build_nodes pool zk now ns sp' z')"

definition CmServerViewBuildNodeList ::
  "pool_info \<Rightarrow> 'z zk_ops \<Rightarrow> nat \<Rightarrow> server_pool \<Rightarrow> 'z \<Rightarrow> (int \<times> server_pool \<times> 'z) option" where
  "CmServerViewBuildNodeList pool zk now sp z =
     (let sp0 = CmServerViewResetPool pool sp in
      case CmServerZkGetNodeList zk (vnodes sp0) z of
        (ret, nodes, z1) \<Rightarrow>
          let sp1 = sp0\<lparr>vnodes := nodes\<rparr> in
          if ret \<noteq> CM_OK then Some (ret, sp1, z1)
          else case CmServerZkGetStateList zk (vstates sp1, vmasterNodeId sp1) z1 of
            (ret, (states, mst), z2) \<Rightarrow>
              let sp2 = sp1\<lparr>vstates := states, vmasterNodeId := mst\<rparr> in
              if ret \<noteq> CM_OK then Some (ret, sp2, z2)
              else case build_nodes pool zk now [0..<length states] sp2 z2 of
                None \<Rightarrow> None
              | Some (ret, sp3, z3) \<Rightarrow>
                  if ret \<noteq> CM_OK then Some (ret, sp3, z3) else record_changes pool zk False sp3 z3)"

text \<open>The first place of a node in a list, or the length of the list.\<close>

fun CmServerViewFindNodeIndex :: "nat list \<Rightarrow> nat \<Rightarrow> nat" where
  "CmServerViewFindNodeIndex [] n = 0"
| "CmServerViewFindNodeIndex (x # xs) n = (if x = n then 0 else Suc (CmServerViewFindNodeIndex xs n))"

definition CmServerViewNodeOffline :: "pool_info \<Rightarrow> nat \<Rightarrow> nat \<Rightarrow> server_pool \<Rightarrow> server_pool option" where
  "CmServerViewNodeOffline pool now n sp =
     (let st = vstates sp ! n in
      if nupdown st = NODE_STATE_INVALID \<or> nupdown st = NODE_STATE_DOWN then Some sp
      else case CmServerViewUpdateMasterNodeId
             (sp\<lparr>stateChange := True, vstates := (vstates sp)[n := st\<lparr>nupdown := NODE_STATE_DOWN\<rparr>]\<rparr>) of
        None \<Rightarrow> None
      | Some sp1 \<Rightarrow>
          if ncluster (vstates sp1 ! n) = NODE_CLUSTER_STATE_IN
          then if n \<ge> length (nodeRecs (vmon sp1)) then None
            else Some (update_state pool n NODE_STATE_DOWN (sp1\<lparr>vmon := CmServerListenNodeFault now n (vmon sp1)\<rparr>))
          else Some sp1)"

text \<open>
  A node that was not in the cluster enters it with all its disks; then every disk is in or out of
  the cluster according to its health.
\<close>

definition CmServerViewOnlineUpdateState :: "node_info \<Rightarrow> node_state \<Rightarrow> node_state option" where
  "CmServerViewOnlineUpdateState info st =
     (let num = length (ndisks info);
          st1 = (if ncluster st = NODE_CLUSTER_STATE_IN then st\<lparr>nupdown := NODE_STATE_UP\<rparr>
                 else st\<lparr>nupdown := NODE_STATE_UP, ncluster := NODE_CLUSTER_STATE_IN, sdiskNum := num,
                   sdiskIds := map diskId (ndisks info) @ drop num (sdiskIds st),
                   sdisks := replicate num DISK_CLUSTER_STATE_IN @ drop num (sdisks st)\<rparr>)
      in if (ncluster st \<noteq> NODE_CLUSTER_STATE_IN \<and> (num > length (sdisks st) \<or> num > length (sdiskIds st))) \<or>
            sdiskNum st1 > length (ndisks info @ nspare info) \<or> sdiskNum st1 > length (sdisks st1) then None
         else Some (st1\<lparr>sdisks := map (\<lambda>i. if diskHealth ((ndisks info @ nspare info) ! i) = DISK_STATE_NORMAL
             then DISK_CLUSTER_STATE_IN else DISK_CLUSTER_STATE_OUT) [0..<sdiskNum st1] @ drop (sdiskNum st1) (sdisks st1)\<rparr>))"

text \<open>The second part of \<open>CmServerViewNodeOnline\<close>, after the information about the node has been read.\<close>

definition enter_node :: "pool_info \<Rightarrow> nat \<Rightarrow> nat \<Rightarrow> server_pool \<Rightarrow> server_pool option" where
  "enter_node pool now n sp1 =
     (case CmServerViewOnlineUpdateState (vnodes sp1 ! n) (vstates sp1 ! n) of
        None \<Rightarrow> None
      | Some st \<Rightarrow>
          (case CmServerViewUpdateMasterNodeId (sp1\<lparr>vstates := (vstates sp1)[n := st]\<rparr>) of
             None \<Rightarrow> None
           | Some sp2 \<Rightarrow>
               if ncluster (vstates sp2 ! n) = NODE_CLUSTER_STATE_IN
               then case CmServerViewCheckDiskFault now (vnodes sp2 ! n) (vstates sp2 ! n) (vmon sp2) of
                      None \<Rightarrow> None
                    | Some r \<Rightarrow> Some (update_state pool n NODE_STATE_UP (sp2\<lparr>vmon := r\<rparr>))
               else Some sp2))"

definition CmServerViewNodeOnline ::
  "pool_info \<Rightarrow> 'z zk_ops \<Rightarrow> nat \<Rightarrow> nat \<Rightarrow> server_pool \<Rightarrow> 'z \<Rightarrow> (int \<times> server_pool \<times> 'z) option" where
  "CmServerViewNodeOnline pool zk now n sp z =
     (if nupdown (vstates sp ! n) = NODE_STATE_UP then Some (CM_OK, sp, z)
      else if n \<ge> length (nodeRecs (vmon sp)) then None
      else let sp0 = sp\<lparr>stateChange := True, vmon := CmServerCancelNodeFault n (vmon sp)\<rparr> in
      case CmServerZkGetNodeInfo zk n z of
        (ret, cache, z1) \<Rightarrow>
          if ret \<noteq> CM_OK then Some (ret, sp0, z1)
          else let sp1 = (if vnodes sp0 ! n = cache then sp0
                          else sp0\<lparr>vnodes := (vnodes sp0)[n := cache], nodeChange := True\<rparr>) in
            map_option (\<lambda>sp'. (CM_OK, sp', z1)) (enter_node pool now n sp1))"

fun change_nodes ::
  "pool_info \<Rightarrow> 'z zk_ops \<Rightarrow> nat \<Rightarrow> nat list \<Rightarrow> nat list \<Rightarrow> server_pool \<Rightarrow> 'z \<Rightarrow> (int \<times> server_pool \<times> 'z) option" where
  "change_nodes pool zk now watch [] sp z = Some (CM_OK, sp, z)"
| "change_nodes pool zk now watch (n # ns) sp z =
     (case (if CmServerViewFindNodeIndex watch n = length watch
            then map_option (\<lambda>sp'. (CM_OK, sp', z)) (CmServerViewNodeOffline pool now n sp)
            else CmServerViewNodeOnline pool zk now n sp z) of
        None \<Rightarrow> None
      | Some (ret, sp', z') \<Rightarrow> if ret \<noteq> CM_OK then Some (ret, sp', z') else change_nodes pool zk now watch ns sp' z')"

definition CmServerViewNodeListChange ::
  "server_role \<Rightarrow> pool_info \<Rightarrow> 'z zk_ops \<Rightarrow> nat \<Rightarrow> nat list \<Rightarrow> server_pool \<Rightarrow> 'z \<Rightarrow> (int \<times> server_pool \<times> 'z) option" where
  "CmServerViewNodeListChange role pool zk now watch sp z =
     (if role \<noteq> CM_SERVER_MASTER then Some (CM_OK, sp, z)
      else case change_nodes pool zk now watch [0..<length (vnodes sp)] sp z of
        None \<Rightarrow> None
      | Some (ret, sp', z') \<Rightarrow>
          if ret \<noteq> CM_OK then Some (ret, sp', z') else record_changes pool zk False sp' z')"

section \<open>Events\<close>

fun CmServerViewCopyNum :: "redundance \<Rightarrow> nat" where
  "CmServerViewCopyNum PT_NONE = 3"
| "CmServerViewCopyNum PT_REP_SINGLE = 1"
| "CmServerViewCopyNum PT_REP_DOUBLE = 2"
| "CmServerViewCopyNum PT_REP_TRIPLE = 3"

fun CmServerViewMinCopyNum :: "redundance \<Rightarrow> nat" where
  "CmServerViewMinCopyNum PT_NONE = 3"
| "CmServerViewMinCopyNum PT_REP_SINGLE = 1"
| "CmServerViewMinCopyNum PT_REP_DOUBLE = 1"
| "CmServerViewMinCopyNum PT_REP_TRIPLE = 1"

definition CmServerViewNodeEvent ::
  "server_role \<Rightarrow> pool_info \<Rightarrow> 'z zk_ops \<Rightarrow> nat \<Rightarrow> bool \<Rightarrow> nat \<Rightarrow> server_pool \<Rightarrow> 'z \<Rightarrow> (int \<times> server_pool \<times> 'z) option" where
  "CmServerViewNodeEvent role pool zk now addDisk n sp z =
     (if role \<noteq> CM_SERVER_MASTER then Some (CM_OK, sp, z)
      else case CmServerViewBuildNode pool zk now n False sp z of
        None \<Rightarrow> None
      | Some (ret, sp', z') \<Rightarrow>
          if ret \<noteq> CM_OK then Some (ret, sp', z') else record_changes pool zk addDisk sp' z')"

definition CmServerViewPtEvent ::
  "server_role \<Rightarrow> pool_info \<Rightarrow> bool \<Rightarrow> nat \<Rightarrow> pt_finish list \<Rightarrow> server_pool \<Rightarrow> server_pool option" where
  "CmServerViewPtEvent role pool mallocOk n pts sp =
     (if role \<noteq> CM_SERVER_MASTER \<or> predundance pool = PT_NONE then Some sp
      else let validNum = length (filter (\<lambda>st. ncluster st = NODE_CLUSTER_STATE_IN) (vstates sp)) in
      case ViewPtEntryListUpdateNodeFinish mallocOk n pts (ptChange sp) (pmaxNodeNum pool) validNum (vpts sp) of
        None \<Rightarrow> None
      | Some (change, l) \<Rightarrow> Some (sp\<lparr>ptChange := change, vpts := l\<rparr>))"

definition CmServerViewPtEventCommit :: "'z zk_ops \<Rightarrow> server_pool \<Rightarrow> 'z \<Rightarrow> (int \<times> server_pool \<times> 'z) option" where
  "CmServerViewPtEventCommit zk sp z = write_table zk sp z"

section \<open>The first table\<close>

definition CmServerViewInitialThread :: "pool_info \<Rightarrow> 'z zk_ops \<Rightarrow> server_pool \<Rightarrow> 'z \<Rightarrow> (server_pool \<times> 'z) option" where
  "CmServerViewInitialThread pool zk sp z =
     (case ViewCalculatorInitial (ppoolId pool) (vnodes sp) (vstates sp) (vpts sp) (vcalc sp) of
        (ret, l, c) \<Rightarrow>
          let sp1 = sp\<lparr>vpts := l, vcalc := c\<rparr> in
          if ret \<noteq> CM_OK then Some (sp1\<lparr>isInitialDoing := False\<rparr>, z)
          else case vstore sp1 of
            None \<Rightarrow> None
          | Some s \<Rightarrow>
              (case ViewStoreInitial (CmServerZkRecordPtEntryList zk) l s z of
                 None \<Rightarrow> None
               | Some (ret, l', s', z') \<Rightarrow>
                   let sp2 = sp1\<lparr>vpts := l', vstore := Some s'\<rparr> in
                   Some (if ret \<noteq> CM_OK then sp2\<lparr>isInitialDoing := False\<rparr>
                         else sp2\<lparr>isInitialOk := True, isInitialDoing := False\<rparr>, z')))"

text \<open>A round of the detection thread, started at \<open>start\<close>: whether it goes on, and whether the task is scheduled.\<close>

definition CmServerViewInitialDetectThread ::
  "server_role \<Rightarrow> pool_info \<Rightarrow> nat \<Rightarrow> nat \<Rightarrow> server_pool \<Rightarrow> bool \<times> bool \<times> server_pool" where
  "CmServerViewInitialDetectThread role pool start now sp =
     (if role \<noteq> CM_SERVER_MASTER then (False, False, sp)
      else if isInitialDoing sp then (True, False, sp)
      else if isInitialOk sp then (False, False, sp)
      else let okNum = length (filter (\<lambda>st. nupdown st = NODE_STATE_UP \<and> ncluster st = NODE_CLUSTER_STATE_IN) (vstates sp)) in
        if okNum \<ge> pinitialNodeNum pool \<or>
           (okNum \<ge> CmServerViewCopyNum (predundance pool) \<and> now > add64 start 60)
        then (True, True, sp\<lparr>isInitialDoing := True\<rparr>) else (True, False, sp))"

text \<open>\<open>threadRet\<close> is the result of the creation of the detection thread.\<close>

definition CmServerViewBuildPtEntryList ::
  "pool_info \<Rightarrow> 'z zk_ops \<Rightarrow> int \<Rightarrow> server_pool \<Rightarrow> 'z \<Rightarrow> (int \<times> server_pool \<times> 'z) option" where
  "CmServerViewBuildPtEntryList pool zk threadRet sp z =
     (if predundance pool = PT_NONE then Some (CM_OK, sp, z)
      else case CmServerZkGetPtEntryList zk ((vpts sp)\<lparr>poolId := ppoolId pool, ptNum := pmaxPtNum pool\<rparr>) z of
        (ret, l, z1) \<Rightarrow>
          let sp1 = sp\<lparr>vpts := l\<rparr> in
          if ret \<noteq> CM_OK then Some (ret, sp1, z1)
          else if ptNum l = 0 then Some (threadRet, sp1, z1)
          else case vstore sp1 of
            None \<Rightarrow> None
          | Some s \<Rightarrow>
              (case ViewStoreLoadCheck l s of
                 None \<Rightarrow> None
               | Some (ret, s') \<Rightarrow> Some (ret, sp1\<lparr>vstore := Some s'\<rparr>, z1)))"

text \<open>The three subscriptions of \<open>CmServerViewBuildPool\<close>, one after the other until one fails.\<close>

fun subscribe :: "('z \<Rightarrow> int \<times> 'z) list \<Rightarrow> 'z \<Rightarrow> int \<times> 'z" where
  "subscribe [] z = (CM_OK, z)"
| "subscribe (f # fs) z = (case f z of (ret, z') \<Rightarrow> if ret \<noteq> CM_OK then (ret, z') else subscribe fs z')"

definition CmServerViewBuildPool ::
  "pool_info \<Rightarrow> 'z zk_ops \<Rightarrow> int \<Rightarrow> nat \<Rightarrow> server_pool \<Rightarrow> 'z \<Rightarrow> (int \<times> server_pool \<times> 'z) option" where
  "CmServerViewBuildPool pool zk threadRet now sp z =
     (case CmServerViewBuildPtEntryList pool zk threadRet sp z of
        None \<Rightarrow> None
      | Some (ret, sp1, z1) \<Rightarrow>
          if ret \<noteq> CM_OK then Some (ret, sp1, z1)
          else case CmServerViewBuildNodeList pool zk now sp1 z1 of
            None \<Rightarrow> None
          | Some (ret, sp2, z2) \<Rightarrow>
              if ret \<noteq> CM_OK then Some (ret, sp2, z2)
              else case subscribe (CmServerZkSubscribe zk) z2 of (ret, z3) \<Rightarrow> Some (ret, sp2, z3))"

fun CmServerViewToMaster ::
  "'z zk_ops \<Rightarrow> int \<Rightarrow> nat \<Rightarrow> (pool_info \<times> server_pool) list \<Rightarrow> 'z \<Rightarrow> (int \<times> (pool_info \<times> server_pool) list \<times> 'z) option" where
  "CmServerViewToMaster zk threadRet now [] z = Some (CM_OK, [], z)"
| "CmServerViewToMaster zk threadRet now ((pool, sp) # ps) z =
     (case CmServerViewBuildPool pool zk threadRet now sp z of
        None \<Rightarrow> None
      | Some (ret, sp', z') \<Rightarrow>
          if ret \<noteq> CM_OK then Some (ret, (pool, sp') # ps, z')
          else map_option (\<lambda>(ret, ps', z''). (ret, (pool, sp') # ps', z'')) (CmServerViewToMaster zk threadRet now ps z'))"

definition CmServerViewToSlave :: "(pool_info \<times> server_pool) list \<Rightarrow> (pool_info \<times> server_pool) list" where
  "CmServerViewToSlave = map (\<lambda>(pool, sp). (pool, sp\<lparr>vmon := CmServerMonitorReset (pmaxNodeNum pool) (vmon sp)\<rparr>))"

definition CmServerViewRoleChange ::
  "server_role \<Rightarrow> 'z zk_ops \<Rightarrow> int \<Rightarrow> nat \<Rightarrow> (pool_info \<times> server_pool) list \<Rightarrow> 'z \<Rightarrow>
   (int \<times> server_role \<times> (pool_info \<times> server_pool) list \<times> 'z) option" where
  "CmServerViewRoleChange role zk threadRet now ps z =
     (case role of
        CM_SERVER_MASTER \<Rightarrow> map_option (\<lambda>(ret, ps', z'). (ret, role, ps', z')) (CmServerViewToMaster zk threadRet now ps z)
      | CM_SERVER_SLAVE \<Rightarrow> Some (CM_OK, role, CmServerViewToSlave ps, z))"

section \<open>Setup\<close>

text \<open>
  \<open>CmServerViewInitPool\<close>: the lists and the table are cleared, calculator and storer are created. Their
  outcome is an argument (\<open>CreateViewCalculator\<close> and \<open>ViewCreateStorer\<close>).
\<close>

definition CmServerViewInitPool ::
  "bool \<Rightarrow> bool \<Rightarrow> (nat \<Rightarrow> nat \<Rightarrow> calc option) \<Rightarrow> (nat \<Rightarrow> store option) \<Rightarrow> pt_list \<Rightarrow> pool_info \<Rightarrow> server_pool \<Rightarrow> int \<times> server_pool" where
  "CmServerViewInitPool mallocNodes mallocPts createCalc createStore zeroPts pool sp =
     (if \<not> mallocNodes then (CM_ERR, sp)
      else let sp1 = sp\<lparr>vnodes := replicate (pmaxNodeNum pool) zero_node, vstates := replicate (pmaxNodeNum pool) zero_state,
                        vmasterNodeId := 0\<rparr> in
        if predundance pool = PT_NONE then (CM_OK, sp1)
        else if \<not> mallocPts then (CM_ERR, sp1)
        else let sp2 = sp1\<lparr>vpts := zeroPts\<rparr>; copyNum = CmServerViewCopyNum (predundance pool) in
          case createCalc copyNum (CmServerViewMinCopyNum (predundance pool)) of
            None \<Rightarrow> (CM_ERR, sp2)
          | Some c \<Rightarrow>
              (case createStore copyNum of
                 None \<Rightarrow> (CM_ERR, sp2\<lparr>vcalc := c\<rparr>)
               | Some s \<Rightarrow> (CM_OK, sp2\<lparr>vcalc := c, vstore := Some s\<rparr>)))"

text \<open>The query of the state of a node; \<open>None\<close> is the result \<open>CM_ERR\<close>.\<close>

definition CmServerViewGetNodeState :: "nat \<Rightarrow> nat \<Rightarrow> (pool_info \<times> server_pool) option list \<Rightarrow> node_state option" where
  "CmServerViewGetNodeState p n pools =
     (if p \<ge> length pools then None
      else case pools ! p of
        None \<Rightarrow> None
      | Some (pool, sp) \<Rightarrow> if n \<ge> pmaxNodeNum pool then None else Some (vstates sp ! n))"

end
