(* ===== verification/PtStoreProps.thy ===== *)
theory PtStoreProps
  imports PtStore PtCalcProps
begin

text \<open>
  The storer works on every consistent table: it stays inside its arrays and never runs out of
  elements, it records the table whenever it differs from the one recorded last, and it gives back
  all elements.
\<close>

section \<open>Filling the lists\<close>

definition uses :: "pt_entry \<Rightarrow> nat \<Rightarrow> nat list \<Rightarrow> nat list" where
  "uses e n is = filter (\<lambda>i. active_at e i \<and> cnode (copyList e ! i) = n) is"

lemma fill_copies_step:
  "\<not> active_at e i \<Longrightarrow> fill_copies e (i # is) ns fr = fill_copies e is ns fr"
  "active_at e i \<Longrightarrow> cnode (copyList e ! i) < length ns \<Longrightarrow>
     fill_copies e (i # is) ns (x # fr) =
       fill_copies e is (ns[cnode (copyList e ! i) := ns ! cnode (copyList e ! i) @ [e]]) fr"
  by (auto simp: active_def Let_def)

lemma fill_copies_ok:
  assumes "\<forall>i\<in>set is. active_at e i \<longrightarrow> cnode (copyList e ! i) < length ns"
    and "length (filter (active_at e) is) \<le> length fr"
  shows "fill_copies e is ns fr = Some (CM_OK,
     map (\<lambda>n. ns ! n @ replicate (length (uses e n is)) e) [0..<length ns], drop (length (filter (active_at e) is)) fr)"
  using assms
proof (induction "is" arbitrary: ns fr)
  case Nil
  then show ?case by (simp add: uses_def map_nth)
next
  case (Cons i "is")
  show ?case
  proof (cases "active_at e i")
    case False
    with Cons show ?thesis by (simp add: fill_copies_step uses_def del: fill_copies.simps)
  next
    case True
    obtain x fr' where fr: "fr = x # fr'" using Cons.prems(2) True by (cases fr) auto
    let ?n = "cnode (copyList e ! i)"
    let ?ns = "ns[?n := ns ! ?n @ [e]]"
    have n: "?n < length ns" using Cons.prems(1) True by simp
    have "fill_copies e is ?ns fr' = Some (CM_OK,
        map (\<lambda>m. ?ns ! m @ replicate (length (uses e m is)) e) [0..<length ?ns], drop (length (filter (active_at e) is)) fr')"
      by (rule Cons.IH) (use Cons.prems True fr in auto)
    moreover have "map (\<lambda>m. ?ns ! m @ replicate (length (uses e m is)) e) [0..<length ?ns] =
        map (\<lambda>m. ns ! m @ replicate (length (uses e m (i # is))) e) [0..<length ns]"
      using True n by (auto simp: uses_def nth_list_update replicate_app_Cons_same)
    ultimately show ?thesis using True n fr by (simp add: fill_copies_step del: fill_copies.simps)
  qed
qed

text \<open>All partitions: every node gets the ones it has a copy of.\<close>

definition copies_num :: "pt_entry list \<Rightarrow> nat" where
  "copies_num es = (\<Sum>e\<leftarrow>es. length (filter (active_at e) [0..<copyNum e]))"

definition node_view :: "nat \<Rightarrow> pt_entry list \<Rightarrow> pt_entry list" where
  "node_view n es = concat (map (\<lambda>e. replicate (length (uses e n [0..<copyNum e])) e) es)"

lemma fill_pts_ok:
  assumes "\<forall>e\<in>set es. \<forall>i<copyNum e. active_at e i \<longrightarrow> cnode (copyList e ! i) < length ns"
    and "copies_num es \<le> length fr"
  shows "fill_pts es ns fr = Some (CM_OK, map (\<lambda>n. ns ! n @ node_view n es) [0..<length ns], drop (copies_num es) fr)"
  using assms
proof (induction es ns fr rule: fill_pts.induct)
  case (1 ns fr)
  then show ?case by (simp add: node_view_def copies_num_def map_nth)
next
  case (2 e es ns fr)
  let ?k = "length (filter (active_at e) [0..<copyNum e])"
  let ?ns = "map (\<lambda>n. ns ! n @ replicate (length (uses e n [0..<copyNum e])) e) [0..<length ns]"
  have f: "fill_copies e [0..<copyNum e] ns fr = Some (CM_OK, ?ns, drop ?k fr)"
    by (rule fill_copies_ok) (use "2.prems" in \<open>auto simp: copies_num_def\<close>)
  have "fill_pts es ?ns (drop ?k fr) =
      Some (CM_OK, map (\<lambda>n. ?ns ! n @ node_view n es) [0..<length ?ns], drop (copies_num es) (drop ?k fr))"
    by (rule "2.IH" [OF f refl refl]) (use "2.prems" in \<open>auto simp: copies_num_def\<close>)
  moreover have "map (\<lambda>n. ?ns ! n @ node_view n es) [0..<length ?ns] = map (\<lambda>n. ns ! n @ node_view n (e # es)) [0..<length ns]"
    by (simp add: node_view_def)
  ultimately show ?case using f by (simp add: copies_num_def add.commute)
qed

text \<open>No element is lost.\<close>

definition elems :: "store \<Rightarrow> nat" where
  "elems s = length (sfree s) + sum_list (map length (snodeList s)) + sum_list (map length (snodeListBak s))"

lemma sum_length_append:
  "n < length ns \<Longrightarrow> sum_list (map length (ns[n := ns ! n @ [e]])) = Suc (sum_list (map length ns))"
proof (induction ns arbitrary: n)
  case (Cons x ns)
  then show ?case by (cases n) auto
qed simp

lemma fill_copies_elems:
  assumes "fill_copies e is ns fr = Some (r, ns', fr')"
  shows "length ns' = length ns \<and> length fr' + sum_list (map length ns') = length fr + sum_list (map length ns)"
  using assms
proof (induction "is" arbitrary: ns fr)
  case (Cons i "is")
  then show ?case by (auto simp: Let_def sum_length_append not_le split: if_splits list.splits)
qed simp

lemma fill_pts_elems:
  assumes "fill_pts es ns fr = Some (r, ns', fr')"
  shows "length ns' = length ns \<and> length fr' + sum_list (map length ns') = length fr + sum_list (map length ns)"
  using assms
proof (induction es arbitrary: ns fr)
  case (Cons e es)
  then show ?case using fill_copies_elems by (fastforce split: option.splits prod.splits if_splits)
qed simp

lemma length_fold_append: "length (fold (@) xss ys) = sum_list (map length xss) + length ys"
  by (induction xss arbitrary: ys) auto

definition idle_store :: "nat \<Rightarrow> nat \<Rightarrow> store \<Rightarrow> bool" where
  "idle_store N P s \<longleftrightarrow> smaxNodeNum s = N \<and> snodeList s = replicate N [] \<and> snodeListBak s = replicate N [] \<and>
     length (entries (sptList s)) = P"

lemma Clear_idle:
  assumes "smaxNodeNum s = N" "length (snodeList s) = N" "length (snodeListBak s) = N" "length (entries (sptList s)) = P"
  shows "idle_store N P (ViewStoreClearNodeList s)" "elems (ViewStoreClearNodeList s) = elems s"
    "sptList (ViewStoreClearNodeList s) = sptList s"
proof -
  have "map_first N (\<lambda>_. []) ns = replicate N []" if "length ns = N" for ns :: "pt_entry list list"
    using that by (simp add: map_first_def map_replicate_const)
  with assms show "idle_store N P (ViewStoreClearNodeList s)" "elems (ViewStoreClearNodeList s) = elems s"
    "sptList (ViewStoreClearNodeList s) = sptList s"
    by (simp_all add: idle_store_def ViewStoreClearNodeList_def elems_def length_fold_append sum_list_replicate)
qed

section \<open>Tables that fit\<close>

lemma uses_le_1:
  assumes "slots_ok m e"
  shows "length (uses e n [0..<copyNum e]) \<le> 1"
proof -
  have "card {i. i < copyNum e \<and> active_at e i \<and> cnode (copyList e ! i) = n} \<le> Suc 0"
    by (subst card_le_Suc0_iff_eq) (use assms in \<open>auto simp: slots_ok_def\<close>)
  then show ?thesis by (simp add: uses_def length_filter_conv_card cong: conj_cong)
qed

lemma node_view_length:
  assumes "\<forall>e\<in>set es. slots_ok m e"
  shows "length (node_view n es) \<le> length es"
  using assms
proof (induction es)
  case (Cons e es)
  then show ?case using uses_le_1 [of m e n] by (simp add: node_view_def)
qed (simp add: node_view_def)

lemma copies_num_le:
  assumes "\<forall>e\<in>set es. slots_ok m e"
  shows "copies_num es \<le> length es * m"
  using assms
proof (induction es)
  case (Cons e es)
  then show ?case using active_num [of m e] by (simp add: copies_num_def)
qed (simp add: copies_num_def)

lemma take_fit:
  assumes "all_fit m N l"
  shows "\<forall>e\<in>set (take (ptNum l) (entries l)). slots_ok m e \<and> (\<forall>i<copyNum e. active_at e i \<longrightarrow> cnode (copyList e ! i) < N)"
    "length (take (ptNum l) (entries l)) = ptNum l"
  using assms by (auto simp: all_fit_def fit_def nodes_in_def in_set_conv_nth)

lemma Fill_ok:
  assumes l: "all_fit m N l" "ptNum l * m \<le> length (sfree s)"
    and ns: "(if bak then snodeListBak s else snodeList s) = replicate N []"
  shows "\<exists>s'. ViewStoreFillNodeList bak l s = Some (CM_OK, s') \<and> elems s' = elems s \<and> sptList s' = sptList s \<and>
     smaxNodeNum s' = smaxNodeNum s \<and> length (sfree s) \<le> length (sfree s') + ptNum l * m \<and>
     (if bak then snodeList s' = snodeList s \<and> length (snodeListBak s') = N
      else snodeListBak s' = snodeListBak s \<and> length (snodeList s') = N \<and>
        (\<forall>n<N. snodeList s' ! n = node_view n (take (ptNum l) (entries l))))"
proof -
  let ?es = "take (ptNum l) (entries l)" and ?ns = "map (\<lambda>n. node_view n (take (ptNum l) (entries l))) [0..<N]"
  have num: "copies_num ?es \<le> ptNum l * m" using copies_num_le [of ?es m] take_fit [OF l(1)] by auto
  have f: "fill_pts ?es (replicate N []) (sfree s) = Some (CM_OK, ?ns, drop (copies_num ?es) (sfree s))"
    using fill_pts_ok [of ?es "replicate N []" "sfree s"] take_fit(1) [OF l(1)] num l(2) by simp
  have e: "length (drop (copies_num ?es) (sfree s)) + sum_list (map length ?ns) = length (sfree s)"
    using fill_pts_elems [OF f] by (simp add: sum_list_replicate del: length_drop)
  show ?thesis using f e ns num by (cases bak) (auto simp: ViewStoreFillNodeList_def elems_def sum_list_replicate)
qed

text \<open>The loops over the nodes only rewrite the buffer.\<close>

lemma put_entries_ok:
  "length es \<le> length (entries l) \<Longrightarrow> \<exists>b. put_entries es l = Some b \<and> length (entries b) = length (entries l)"
  by (simp add: put_entries_def)

lemma record_nodes_ok:
  assumes "\<forall>n\<in>set ns. length (snodeList s ! n) \<le> length (entries (sptList s))"
  shows "\<exists>b. record_nodes ns l s = Some (CM_OK, s\<lparr>sptList := b\<rparr>) \<and> length (entries b) = length (entries (sptList s))"
  using assms
proof (induction ns arbitrary: s)
  case (Cons n ns)
  obtain b where b: "put_entries (snodeList s ! n) (sptList s) = Some b" "length (entries b) = length (entries (sptList s))"
    using put_entries_ok [of "snodeList s ! n" "sptList s"] Cons.prems by auto
  show ?case using Cons.IH [of s] Cons.IH [of "s\<lparr>sptList := b\<rparr>"] Cons.prems b
    by (auto simp: Let_def CmServerZkRecordSubPtEntryList_def)
next
  case Nil
  show ?case by (rule exI [of _ "sptList s"]) simp
qed

lemma update_nodes_ok:
  assumes "\<forall>n\<in>set ns. length (snodeList s ! n) \<le> length (entries (sptList s))"
  shows "\<exists>b. update_nodes ns l s = Some (CM_OK, s\<lparr>sptList := b\<rparr>) \<and> length (entries b) = length (entries (sptList s))"
  using assms
proof (induction ns arbitrary: s)
  case (Cons n ns)
  obtain b where b: "put_entries (snodeList s ! n) (sptList s) = Some b" "length (entries b) = length (entries (sptList s))"
    using put_entries_ok [of "snodeList s ! n" "sptList s"] Cons.prems by auto
  show ?case using Cons.IH [of "s\<lparr>sptList := b\<rparr>"] Cons.prems b
    by (auto simp: Let_def CmServerZkRecordSubPtEntryList_def ViewStoreUpdateSubPtView1_def)
next
  case Nil
  show ?case by (rule exI [of _ "sptList s"]) simp
qed

lemma check_view_ok:
  assumes "index + length es \<le> length (entries l)"
  shows "\<exists>u b. check_view index es upd l = Some (u, b) \<and> length (entries b) = length (entries l)"
  using assms by (induction index es upd l rule: check_view.induct) (auto simp: Let_def)

lemma check_nodes_ok:
  assumes "\<forall>n\<in>set ns. length (snodeList s ! n) \<le> length (entries (sptList s))"
  shows "\<exists>b. check_nodes ns l s = Some (CM_OK, s\<lparr>sptList := b\<rparr>) \<and> length (entries b) = length (entries (sptList s))"
  using assms
proof (induction ns arbitrary: s)
  case (Cons n ns)
  let ?l = "(sptList s)\<lparr>ptNum := 0\<rparr>"
  obtain u b where b: "ViewStoreCheckSubPtView1 (snodeList s ! n) ?l = Some (u, b)" "length (entries b) = length (entries (sptList s))"
    using check_view_ok [of 0 "snodeList s ! n" ?l "length (snodeList s ! n) mod 2 ^ 16 \<noteq> 0"] Cons.prems
    by (auto simp: ViewStoreCheckSubPtView1_def)
  show ?case
    using Cons.IH [of "s\<lparr>sptList := ?l\<rparr>"] Cons.IH [of "s\<lparr>sptList := b\<rparr>"] Cons.IH [of "s\<lparr>sptList := copy_head l b\<rparr>"] Cons.prems b
    by (cases u) (auto simp: Let_def CmServerZkRecordSubPtEntryList_def copy_head_def)
next
  case Nil
  show ?case by (rule exI [of _ "sptList s"]) simp
qed

section \<open>The operations\<close>

text \<open>The buffer holds the head and the partitions of a table.\<close>

definition stored :: "pt_list \<Rightarrow> store \<Rightarrow> bool" where
  "stored l s \<longleftrightarrow> (\<exists>es. sptList s = l\<lparr>entries := take (ptNum l) (entries l) @ es\<rparr>)"

lemma stored_fit: "stored l s \<Longrightarrow> all_fit m N l \<Longrightarrow> all_fit m N (sptList s)"
  by (auto simp: stored_def all_fit_def nth_append)

lemma IsSame_refl [simp]: "ViewStorePtEntryIsSame e e"
  by (simp add: ViewStorePtEntryIsSame_def list_ex_iff)

lemma stored_same:
  assumes "stored l s" "ptNum l \<le> length (entries l)"
  shows "ViewStoreIsNeedUpdate l (sptList s) = CM_ERR"
proof -
  obtain es where s: "sptList s = l\<lparr>entries := take (ptNum l) (entries l) @ es\<rparr>" using assms(1) by (auto simp: stored_def)
  have "entries (sptList s) ! p = entries l ! p" if "p < ptNum l" for p using that assms(2) by (simp add: s nth_append)
  then show ?thesis by (simp add: ViewStoreIsNeedUpdate_def list_ex_iff) (simp add: s)
qed

lemma copy_list_ok:
  assumes "ptNum l \<le> length (entries b)" "ptNum l \<le> length (entries l)"
  shows "\<exists>b'. copy_list l b = Some b' \<and> length (entries b') = length (entries b) \<and> stored l (s\<lparr>sptList := b'\<rparr>)"
  using assms by (auto simp: copy_list_def stored_def)

lemma idle_elems: "idle_store N P s \<Longrightarrow> elems s = length (sfree s)"
  by (simp add: idle_store_def elems_def sum_list_replicate)

text \<open>The last steps of all three operations.\<close>

lemma finish_ok:
  assumes s: "smaxNodeNum s = N" "length (snodeList s) = N" "length (snodeListBak s) = N" "length (entries b) = P"
    and l: "ptNum l \<le> P" "ptNum l \<le> length (entries l)"
  shows "\<exists>b'. copy_list l b = Some b' \<and> (let s' = ViewStoreClearNodeList (s\<lparr>sptList := b'\<rparr>) in
     idle_store N P s' \<and> length (sfree s') = elems s \<and> stored l s')"
proof -
  obtain b' where b': "copy_list l b = Some b'" "length (entries b') = P" "stored l (s\<lparr>sptList := b'\<rparr>)"
    using copy_list_ok [of l b s] s(4) l by auto
  note c = Clear_idle [of "s\<lparr>sptList := b'\<rparr>" N P]
  show ?thesis using b' s c idle_elems [OF c(1)] by (auto simp: Let_def stored_def elems_def)
qed

lemma Initial_store_ok:
  assumes l: "all_fit m N l" "ptNum l \<le> P" and s: "idle_store N P s" "P * m \<le> length (sfree s)"
  defines "l1 \<equiv> l\<lparr>changeVersion := inc64 (changeVersion l)\<rparr>"
  assumes r: "rec l1 z = (CM_OK, z')"
  shows "\<exists>s'. ViewStoreInitial rec l s z = Some (CM_OK, l1, s', z') \<and>
     idle_store N P s' \<and> length (sfree s') = length (sfree s) \<and> stored l1 s'"
proof -
  have l1: "all_fit m N l1" "ptNum l1 \<le> P" using l by (simp_all add: l1_def all_fit_def)
  have "ptNum l1 * m \<le> length (sfree s)" using l1(2) s(2) by (meson le_trans mult_le_mono1)
  then obtain s1 where s1: "ViewStoreFillNodeList False l1 s = Some (CM_OK, s1)" "elems s1 = elems s" "sptList s1 = sptList s"
    "smaxNodeNum s1 = N" "snodeListBak s1 = replicate N []" "length (snodeList s1) = N"
    "\<forall>n<N. snodeList s1 ! n = node_view n (take (ptNum l1) (entries l1))"
    using Fill_ok [OF l1(1), of s False] s(1) by (auto simp: idle_store_def)
  have len: "length (snodeList s1 ! n) \<le> P" if "n < N" for n
    using node_view_length [of "take (ptNum l1) (entries l1)" m n] take_fit [OF l1(1)] s1(7) that l1(2) by auto
  let ?s = "s1\<lparr>sptList := (copy_head l1 (sptList s1))\<lparr>ptNum := 0\<rparr>\<rparr>"
  obtain b where b: "ViewStoreRecordSubPtView l1 s1 = Some (CM_OK, s1\<lparr>sptList := b\<rparr>)" "length (entries b) = P"
    using record_nodes_ok [of "[0..<N]" ?s l1] len s1(3,4) s(1)
    by (auto simp: ViewStoreRecordSubPtView_def copy_head_def idle_store_def)
  obtain b' where "copy_list l1 b = Some b'" "idle_store N P (ViewStoreClearNodeList (s1\<lparr>sptList := b'\<rparr>))"
    "length (sfree (ViewStoreClearNodeList (s1\<lparr>sptList := b'\<rparr>))) = elems s1" "stored l1 (ViewStoreClearNodeList (s1\<lparr>sptList := b'\<rparr>))"
    using finish_ok [of s1 N b P l1] s1 b(2) l1 by (auto simp: Let_def all_fit_def)
  then show ?thesis using s1(1,2) b r s(1) l1_def by (auto simp: ViewStoreInitial_def Let_def idle_elems)
qed

lemma LoadCheck_ok:
  assumes l: "all_fit m N l" "ptNum l \<le> P" and s: "idle_store N P s" "P * m \<le> length (sfree s)"
  shows "\<exists>s'. ViewStoreLoadCheck l s = Some (CM_OK, s') \<and> idle_store N P s' \<and> length (sfree s') = length (sfree s) \<and> stored l s'"
proof -
  have "ptNum l * m \<le> length (sfree s)" using l(2) s(2) by (meson le_trans mult_le_mono1)
  then obtain s1 where s1: "ViewStoreFillNodeList False l s = Some (CM_OK, s1)" "elems s1 = elems s" "sptList s1 = sptList s"
    "smaxNodeNum s1 = N" "snodeListBak s1 = replicate N []" "length (snodeList s1) = N"
    "\<forall>n<N. snodeList s1 ! n = node_view n (take (ptNum l) (entries l))"
    using Fill_ok [OF l(1), of s False] s(1) by (auto simp: idle_store_def)
  have len: "length (snodeList s1 ! n) \<le> P" if "n < N" for n
    using node_view_length [of "take (ptNum l) (entries l)" m n] take_fit [OF l(1)] s1(7) that l(2) by auto
  obtain b where b: "ViewStoreCheckSubPtView l s1 = Some (CM_OK, s1\<lparr>sptList := b\<rparr>)" "length (entries b) = P"
    using check_nodes_ok [of "[0..<N]" s1 l] len s1(3,4) s(1) by (auto simp: ViewStoreCheckSubPtView_def idle_store_def)
  obtain b' where "copy_list l b = Some b'" "idle_store N P (ViewStoreClearNodeList (s1\<lparr>sptList := b'\<rparr>))"
    "length (sfree (ViewStoreClearNodeList (s1\<lparr>sptList := b'\<rparr>))) = elems s1" "stored l (ViewStoreClearNodeList (s1\<lparr>sptList := b'\<rparr>))"
    using finish_ok [of s1 N b P l] s1 b(2) l by (auto simp: Let_def all_fit_def)
  then show ?thesis using s1(1,2) b s(1) by (auto simp: ViewStoreLoadCheck_def idle_elems)
qed

lemma Update_ok:
  assumes l: "all_fit m N l" "ptNum l \<le> P" and s: "idle_store N P s" "2 * P * m \<le> length (sfree s)" "all_fit m N (sptList s)"
    and need: "ViewStoreIsNeedUpdate l (sptList s) = CM_OK"
  defines "l1 \<equiv> l\<lparr>changeVersion := inc64 (changeVersion l)\<rparr>"
  assumes r: "rec l1 z = (CM_OK, z')"
  shows "\<exists>s'. ViewStoreUpdate rec l s z = Some (CM_OK, l1, s', z') \<and>
     idle_store N P s' \<and> length (sfree s') = length (sfree s) \<and> stored l1 s'"
proof -
  have l1: "all_fit m N l1" "ptNum l1 \<le> P" using l by (simp_all add: l1_def all_fit_def)
  have Pm: "ptNum l1 * m \<le> P * m" using l1(2) by simp
  then have "ptNum l1 * m \<le> length (sfree s)" using s(2) by linarith
  then obtain s1 where s1: "ViewStoreFillNodeList False l1 s = Some (CM_OK, s1)" "elems s1 = elems s" "sptList s1 = sptList s"
    "smaxNodeNum s1 = N" "snodeListBak s1 = replicate N []" "length (snodeList s1) = N"
    "\<forall>n<N. snodeList s1 ! n = node_view n (take (ptNum l1) (entries l1))"
    "length (sfree s) \<le> length (sfree s1) + ptNum l1 * m"
    using Fill_ok [OF l1(1), of s False] s(1) by (auto simp: idle_store_def)
  have "ptNum (sptList s) \<le> P" using s(1,3) by (simp add: idle_store_def all_fit_def)
  then have "ptNum (sptList s) * m \<le> P * m" by simp
  moreover have "2 * P * m = P * m + P * m" by simp
  ultimately have "ptNum (sptList s1) * m \<le> length (sfree s1)" unfolding s1(3) using s1(8) s(2) Pm by linarith
  then obtain s2 where s2: "ViewStoreFillNodeList True (sptList s1) s1 = Some (CM_OK, s2)" "elems s2 = elems s1" "sptList s2 = sptList s1"
    "smaxNodeNum s2 = N" "snodeList s2 = snodeList s1" "length (snodeListBak s2) = N"
    using Fill_ok [of m N "sptList s1" s1 True] s(3) s1(3,4,5) by auto
  have len: "length (snodeList s2 ! n) \<le> P" if "n < N" for n
    using node_view_length [of "take (ptNum l1) (entries l1)" m n] take_fit [OF l1(1)] s1(7) s2(5) that l1(2) by auto
  let ?s = "s2\<lparr>sptList := (copy_head l1 (sptList s2))\<lparr>ptNum := 0\<rparr>\<rparr>"
  obtain b where b: "ViewStoreUpdateSubPtView l1 s2 = Some (CM_OK, s2\<lparr>sptList := b\<rparr>)" "length (entries b) = P"
    using update_nodes_ok [of "[0..<N]" ?s l1] len s1(3) s2(3,4) s(1)
    by (auto simp: ViewStoreUpdateSubPtView_def copy_head_def idle_store_def)
  obtain b' where "copy_list l1 b = Some b'" "idle_store N P (ViewStoreClearNodeList (s2\<lparr>sptList := b'\<rparr>))"
    "length (sfree (ViewStoreClearNodeList (s2\<lparr>sptList := b'\<rparr>))) = elems s2" "stored l1 (ViewStoreClearNodeList (s2\<lparr>sptList := b'\<rparr>))"
    using finish_ok [of s2 N b P l1] s1(6) s2 b(2) l1 by (auto simp: Let_def all_fit_def)
  then show ?thesis using s1(1,2) s2(1,2) b r need s(1) l1_def by (auto simp: ViewStoreUpdate_def Let_def idle_elems)
qed

section \<open>Properties\<close>

text \<open>An example: a storer for three nodes and two partitions that has stored a table.\<close>

definition ex_store :: "pt_list \<Rightarrow> store" where
  "ex_store l = \<lparr>smaxNodeNum = 3, smaxPtNum = 2, sptList = l, snodeList = [[], [], []], snodeListBak = [[], [], []],
     sfree = replicate 24 (ex_entry PT_STATE_INIT PT_COPY_STATE_INIT)\<rparr>"

lemma ex_fit: "all_fit 3 3 (ex_list ps PT_COPY_STATE_RUNNING)"
  using ex_slots [of ps PT_COPY_STATE_RUNNING]
  by (auto simp: all_fit_def fit_def ex_list_def less_2_cases_iff nodes_in_def)
    (auto simp: ex_entry_def ex_copy_def less_Suc_eq numeral_nat)

lemma ex_idle: "idle_store 3 2 (ex_store (ex_list ps st))"
  by (simp add: idle_store_def ex_store_def ex_list_def numeral_3_eq_3)

text \<open>
  (C12) The storer keeps up with the table: on a consistent table that differs from the one it stored
  last, \<open>ViewStoreUpdate\<close> stays inside its arrays and never runs out of elements; if ZooKeeper accepts
  the table it succeeds with a new version, all its elements are free again, and a second update of
  the same table writes nothing.
\<close>

theorem store_update:
  assumes "all_fit m N l" "ptNum l \<le> P" "idle_store N P s" "2 * P * m \<le> length (sfree s)" "all_fit m N (sptList s)"
    and "ViewStoreIsNeedUpdate l (sptList s) = CM_OK"
    and "rec (l\<lparr>changeVersion := inc64 (changeVersion l)\<rparr>) z = (CM_OK, z')"
  shows "\<exists>l1 s'. ViewStoreUpdate rec l s z = Some (CM_OK, l1, s', z') \<and> l1 = l\<lparr>changeVersion := inc64 (changeVersion l)\<rparr> \<and>
     idle_store N P s' \<and> length (sfree s') = length (sfree s) \<and> all_fit m N (sptList s') \<and>
     ViewStoreUpdate rec l1 s' z' = Some (CM_OK, l1, s', z')"
proof -
  let ?l = "l\<lparr>changeVersion := inc64 (changeVersion l)\<rparr>"
  have fit: "all_fit m N ?l" using assms(1) by (simp add: all_fit_def)
  obtain s' where s': "ViewStoreUpdate rec l s z = Some (CM_OK, ?l, s', z')" "idle_store N P s'"
    "length (sfree s') = length (sfree s)" "stored ?l s'" using Update_ok [of m N l P s rec z z'] assms by blast
  have "ViewStoreIsNeedUpdate ?l (sptList s') = CM_ERR" using stored_same [OF s'(4)] fit by (simp add: all_fit_def)
  then have "ViewStoreUpdate rec ?l s' z' = Some (CM_OK, ?l, s', z')" by (simp add: ViewStoreUpdate_def)
  with s' stored_fit [OF s'(4) fit] show ?thesis by blast
qed

theorem store_update_witness:
  "\<exists>l1 s'. ViewStoreUpdate (\<lambda>l z. (CM_OK, Some l)) (ex_list PT_STATE_NORMAL PT_COPY_STATE_RUNNING)
       (ex_store (ex_list PT_STATE_FAULT PT_COPY_STATE_RUNNING)) None = Some (CM_OK, l1, s', Some l1)"
proof -
  let ?l = "ex_list PT_STATE_NORMAL PT_COPY_STATE_RUNNING" and ?s = "ex_store (ex_list PT_STATE_FAULT PT_COPY_STATE_RUNNING)"
    and ?rec = "\<lambda>l z. (CM_OK, Some l)"
  have "\<not> ViewStorePtEntryIsSame (ex_entry PT_STATE_NORMAL PT_COPY_STATE_RUNNING) (ex_entry PT_STATE_FAULT PT_COPY_STATE_RUNNING)"
    by (simp add: ViewStorePtEntryIsSame_def ex_entry_def)
  then have need: "ViewStoreIsNeedUpdate ?l (sptList ?s) = CM_OK"
    by (simp add: ViewStoreIsNeedUpdate_def ex_store_def ex_list_def upt_rec)
  have fit: "all_fit 3 3 (sptList ?s)" using ex_fit [of PT_STATE_FAULT] by (simp add: ex_store_def)
  have "\<exists>l1 s'. ViewStoreUpdate ?rec ?l ?s None = Some (CM_OK, l1, s', Some (?l\<lparr>changeVersion := inc64 (changeVersion ?l)\<rparr>)) \<and>
      l1 = ?l\<lparr>changeVersion := inc64 (changeVersion ?l)\<rparr>"
    using store_update [OF ex_fit _ ex_idle _ fit need, of ?rec None] by (simp add: ex_list_def ex_store_def) blast
  then show ?thesis by auto
qed

text \<open>
  An update before the first table reads memory that was never written: \<open>ViewCreateStorer\<close> does
  not clear the buffer of the storer, and \<open>ViewStoreUpdate\<close> sorts its contents by node, although no
  table was ever stored in it. With the fresh contents shown here the empty table of a new pool makes
  it write outside the array of the nodes.
\<close>

theorem update_reads_fresh_memory:
  "let s = the (ViewCreateStorer True True True True True (ex_list PT_STATE_INIT PT_COPY_STATE_INIT)
                 (\<lambda>_. ex_entry PT_STATE_INIT PT_COPY_STATE_INIT) 1 1 1);
       l = (ex_list PT_STATE_INIT PT_COPY_STATE_INIT)\<lparr>ptNum := 0\<rparr>
   in ViewCreateStorer True True True True True (ex_list PT_STATE_INIT PT_COPY_STATE_INIT)
        (\<lambda>_. ex_entry PT_STATE_INIT PT_COPY_STATE_INIT) 1 1 1 \<noteq> None \<and>
      ViewStoreUpdate (\<lambda>l z. (CM_OK, z)) l s () = None"
  by (simp add: ViewCreateStorer_def ViewStoreUpdate_def ViewStoreIsNeedUpdate_def ViewStoreFillNodeList_def
      ex_list_def ex_entry_def ex_copy_def upt_rec Let_def)

end
