(* ===== verification/CmViewTable.thy ===== *)
theory CmViewTable
  imports CmView PtStoreProps
begin

text \<open>
  The table under the hands of the view: what all operations on it keep, for the calculation and the
  storer together. \<open>N\<close> is the number of nodes and \<open>P\<close> the number of partitions.
\<close>

definition table_ok :: "nat \<Rightarrow> nat \<Rightarrow> pt_list \<Rightarrow> calc \<Rightarrow> store option \<Rightarrow> bool" where
  "table_ok N P l c st \<longleftrightarrow>
     list_ok l \<and> (\<forall>p<ptNum l. nodes_in N (entries l ! p)) \<and> ptNum l = P \<and> P < 2 ^ 16 \<and>
     calcCopyNum c = maxCopyNum l \<and> calcMinCopyNum c = minCopyNum l \<and> calcPtNum c = P \<and> busy c = [] \<and>
     N * DISK_LIST_NUM \<le> length (free c) \<and> maxCopyNum l \<le> PT_MAX_COPY_NUM \<and>
     (case st of None \<Rightarrow> False
      | Some s \<Rightarrow> idle_store N P s \<and> 2 * P * maxCopyNum l \<le> length (sfree s) \<and> all_fit (maxCopyNum l) N (sptList s))"

lemma table_okE:
  assumes "table_ok N P l c st"
  obtains s where "st = Some s" "idle_store N P s" "2 * P * maxCopyNum l \<le> length (sfree s)" "all_fit (maxCopyNum l) N (sptList s)"
  using assms by (auto simp: table_ok_def split: option.splits)

lemma table_ok_list:
  assumes "table_ok N P l c st" "list_ok l'" "\<forall>p<ptNum l'. nodes_in N (entries l' ! p)" "same_shape l l'"
  shows "table_ok N P l' c st"
  using assms by (cases st) (simp_all add: table_ok_def same_shape_def)

lemma table_ok_calc:
  assumes "table_ok N P l c st" "calc_kept c c'"
  shows "table_ok N P l c' st"
  using assms by (simp add: table_ok_def calc_kept_def)

section \<open>Changes of nodes\<close>

lemma NodeState_table:
  assumes "table_ok N P l c st"
  shows "table_ok N P (snd (ViewPtEntryListUpdateNodeState n state info change l)) c st"
proof -
  let ?l = "snd (ViewPtEntryListUpdateNodeState n state info change l)"
  obtain es where "?l = l\<lparr>entries := es\<rparr>" using NodeState_head by blast
  then have sh: "same_shape l ?l" by (simp add: same_shape_def)
  have l: "list_ok l" "\<forall>p<ptNum l. nodes_in N (entries l ! p)" using assms by (simp_all add: table_ok_def)
  have "\<forall>p<ptNum ?l. nodes_in N (entries ?l ! p)" using NodeState_nodes [OF l] sh by (simp add: same_shape_def)
  then show ?thesis by (rule table_ok_list [OF assms NodeState_ok [OF l(1)] _ sh])
qed

lemma NodeFinish_table:
  assumes "table_ok N P l c st" "n < N"
  shows "\<exists>ch l'. ViewPtEntryListUpdateNodeFinish mallocOk n pts change N validNum l = Some (ch, l') \<and> table_ok N P l' c st"
proof (cases mallocOk)
  case True
  have l: "list_ok l" "\<forall>p<ptNum l. nodes_in N (entries l ! p)" using assms(1) by (simp_all add: table_ok_def)
  obtain ch l' where r: "finish_loop n validNum pts (GenMasterList N l) change l = Some (ch, l')" "list_ok l'"
    "\<forall>p<ptNum l'. nodes_in N (entries l' ! p)"
    using finish_loop_ok [OF l assms(2) GenMasterList_length [of N l], where v = validNum and pts = pts and change = change] by blast
  have "same_shape l l'" using finish_head [OF r(1)] by (auto simp: same_shape_def)
  then show ?thesis using r True table_ok_list [OF assms(1) r(2,3)] by (simp add: ViewPtEntryListUpdateNodeFinish_def)
next
  case False
  then show ?thesis using assms(1) by (simp add: ViewPtEntryListUpdateNodeFinish_def)
qed

section \<open>Rebalancing\<close>

text \<open>The test leaves the calculator as it was, and it says yes only when there are enough nodes.\<close>

lemma counts_stock:
  assumes "stock K k xs" "k + int (length ps) * int (length is) < INT64_MAX"
  shows "stock K (k + int (length ps) * int (length is))
     (fold (\<lambda>p xs. fold (\<lambda>i xs. count_copy c nodes states i (entries l ! p) xs) is xs) ps xs)"
proof -
  have one: "stock K (k + int (length js)) (fold (\<lambda>i xs. count_copy c nodes states i e xs) js xs)"
    if "stock K k xs" "k + int (length js) < INT64_MAX" for e js k xs
    using that
  proof (induction js arbitrary: k xs)
    case (Cons j js)
    have "stock K (k + 1) (count_copy c nodes states j e xs)" using Cons.prems by (intro count_copy_stock) auto
    from Cons.IH [OF this] Cons.prems(2) show ?case by (simp add: algebra_simps)
  qed simp
  show ?thesis using assms
  proof (induction ps arbitrary: k xs)
    case (Cons p ps)
    have "k + int (length is) < INT64_MAX"
      using Cons.prems(2) by (simp add: algebra_simps) (smt (verit) mult_nonneg_nonneg of_nat_0_le_iff)
    from Cons.IH [OF one [OF Cons.prems(1) this]] Cons.prems(2) show ?case by (simp add: algebra_simps)
  qed simp
qed

lemma NeedRebalance_kept:
  assumes "busy c = []" "enough_elems nodes states c" "calcPtNum c < 2 ^ 16" "calcCopyNum c \<le> PT_MAX_COPY_NUM"
    and "ViewCalculatorNeedRebalance nodes states l c = (isNeed, c')"
  shows "calc_kept c c' \<and> (isNeed \<longrightarrow> calcCopyNum c \<le> ViewCalcNormNodeNum nodes states)"
proof -
  let ?c1 = "ViewCalcBuildBusyList nodes states c" and ?K = "mset (serving_keys nodes states [0..<length states])"
  let ?xs = "fold (\<lambda>p xs. fold (\<lambda>i xs. count_copy ?c1 nodes states i (entries l ! p) xs) [0..<calcCopyNum ?c1] xs)
                 [0..<calcPtNum ?c1] (busy ?c1)"
  have kept: "calc_kept c c" using assms(1) by (simp add: calc_kept_def)
  have "int (calcPtNum c) * int (calcCopyNum c) \<le> 2 ^ 16 * int PT_MAX_COPY_NUM"
    using assms(3,4) by (intro mult_mono) auto
  then have "stock ?K (0 + int (length [0..<calcPtNum ?c1]) * int (length [0..<calcCopyNum ?c1])) ?xs"
    by (intro counts_stock BuildBusyList_stock(1) [OF assms(1,2)]) simp
  then have "calc_kept c (ViewCalcDestroyBusyList (?c1\<lparr>busy := ?xs\<rparr>))"
    by (intro Destroy_kept [OF assms(1,2)]) (simp_all add: same_calc_def)
  then show ?thesis using assms(5) kept
    by (auto simp: ViewCalculatorNeedRebalance_def ViewCalcCheckPtEntryList1_def Let_def split: if_splits)
qed

lemma enough_nodes:
  assumes "length states = N" "\<forall>n<N. length (ndisks (nodes ! n)) \<le> DISK_LIST_NUM" "N * DISK_LIST_NUM \<le> length (free c)"
  shows "enough_elems nodes states c"
proof -
  have "(\<Sum>n\<leftarrow>[0..<N]. length (ndisks (nodes ! n))) \<le> (\<Sum>n\<leftarrow>[0..<N]. DISK_LIST_NUM)"
    using assms(2) by (intro sum_list_mono) auto
  then show ?thesis using assms(1,3) by (simp add: enough_elems_def sum_list_triv)
qed

lemma rebalance_table:
  assumes "table_ok N P (vpts sp) (vcalc sp) (vstore sp)" "length (vstates sp) = N"
    "\<forall>n<N. length (ndisks (vnodes sp ! n)) \<le> DISK_LIST_NUM"
  shows "\<exists>l c b. rebalance pool addDisk sp = (CM_OK, sp\<lparr>vpts := l, vcalc := c, ptChange := b\<rparr>) \<and> table_ok N P l c (vstore sp)"
proof (cases "predundance pool = PT_NONE")
  case True
  then show ?thesis using assms(1) by (intro exI [of _ "vpts sp"] exI [of _ "vcalc sp"] exI [of _ "ptChange sp"]) (simp add: rebalance_def)
next
  case False
  let ?l = "vpts sp" and ?c = "vcalc sp"
  have t: "list_ok ?l" "\<forall>p<ptNum ?l. nodes_in N (entries ?l ! p)" "calcCopyNum ?c = maxCopyNum ?l" "calcMinCopyNum ?c = minCopyNum ?l"
    "calcPtNum ?c = ptNum ?l" "ptNum ?l < 2 ^ 16" "busy ?c = []" "N * DISK_LIST_NUM \<le> length (free ?c)" "calcCopyNum ?c \<le> PT_MAX_COPY_NUM"
    using assms(1) by (simp_all add: table_ok_def)
  have en: "enough_elems (vnodes sp) (vstates sp) ?c" by (rule enough_nodes [OF assms(2,3) t(8)])
  obtain isNeed c1 where nr: "ViewCalculatorNeedRebalance (vnodes sp) (vstates sp) ?l ?c = (isNeed, c1)" by fastforce
  have pt: "calcPtNum ?c < 2 ^ 16" using t(5,6) by simp
  have k: "calc_kept ?c c1" "isNeed \<longrightarrow> calcCopyNum ?c \<le> ViewCalcNormNodeNum (vnodes sp) (vstates sp)"
    using NeedRebalance_kept [OF t(7) en pt t(9) nr] by auto
  have tc1: "table_ok N P ?l c1 (vstore sp)" by (rule table_ok_calc [OF assms(1) k(1)])
  show ?thesis
  proof (cases isNeed)
    case need: True
    have e1: "enough_elems (vnodes sp) (vstates sp) c1" using en k(1) by (simp add: enough_elems_def calc_kept_def)
    obtain l' c' where r: "ViewCalculatorRebalance (vnodes sp) (vstates sp) addDisk ?l c1 = (CM_OK, l', c')"
      "list_ok l'" "same_shape ?l l'" "\<forall>p<ptNum l'. nodes_in N (entries l' ! p)" "calc_kept c1 c'"
      using Rebalance_ok [of ?l "vstates sp" c1 "vnodes sp" addDisk] t e1 k need assms(2) by (auto simp: calc_kept_def)
    have "table_ok N P l' c' (vstore sp)" by (rule table_ok_calc [OF table_ok_list [OF tc1 r(2,4,3)] r(5)])
    then show ?thesis using r(1) nr need False by (simp add: rebalance_def Let_def) blast
  next
    case no: False
    then show ?thesis using nr False tc1
      by (intro exI [of _ ?l] exI [of _ c1] exI [of _ "ptChange sp"]) (simp add: rebalance_def)
  qed
qed

section \<open>Storing\<close>

lemma table_fit: "table_ok N P l c st \<Longrightarrow> all_fit (maxCopyNum l) N l"
  by (rule list_ok_all_fit) (simp_all add: table_ok_def)

lemma write_table_ok:
  assumes "table_ok N P (vpts sp) (vcalc sp) (vstore sp)"
  shows "\<exists>ret l s b z'. write_table zk sp z = Some (ret, sp\<lparr>vpts := l, vstore := Some s, ptChange := b\<rparr>, z') \<and>
     table_ok N P l (vcalc sp) (Some s)"
proof (cases "ptChange sp")
  case False
  from assms obtain s where "vstore sp = Some s" by (rule table_okE)
  then show ?thesis using False assms
    by (intro exI [of _ CM_OK] exI [of _ "vpts sp"] exI [of _ s] exI [of _ False] exI [of _ z]) (simp add: write_table_def)
next
  case ch: True
  let ?l = "vpts sp"
  let ?l1 = "?l\<lparr>changeVersion := inc64 (changeVersion ?l)\<rparr>"
  from assms obtain s where s: "vstore sp = Some s" "idle_store N P s" "2 * P * maxCopyNum ?l \<le> length (sfree s)"
    "all_fit (maxCopyNum ?l) N (sptList s)" by (rule table_okE)
  have fit: "all_fit (maxCopyNum ?l) N ?l" by (rule table_fit [OF assms])
  have l1: "table_ok N P ?l1 (vcalc sp) (Some s')" if "table_ok N P ?l (vcalc sp) (Some s')" for s'
    by (rule table_ok_list [OF that]) (use that in \<open>simp_all add: table_ok_def list_ok_def entry_ok_def consistent_def same_shape_def\<close>)
  show ?thesis
  proof (cases "ViewStoreIsNeedUpdate ?l (sptList s) = CM_OK")
    case need: True
    obtain ret z' where rec: "CmServerZkRecordPtEntryList zk ?l1 z = (ret, z')" by fastforce
    show ?thesis
    proof (cases "ret = CM_OK")
      case True
      then obtain s' where "ViewStoreUpdate (CmServerZkRecordPtEntryList zk) ?l s z = Some (CM_OK, ?l1, s', z')" "idle_store N P s'"
        "length (sfree s') = length (sfree s)" "stored ?l1 s'"
        using Update_ok [OF fit _ s(2,3,4) need, of "CmServerZkRecordPtEntryList zk" z z'] rec assms by (auto simp: table_ok_def)
      moreover have "table_ok N P ?l1 (vcalc sp) (Some s')"
      proof (rule l1)
        have "all_fit (maxCopyNum ?l) N ?l1" using fit by (simp add: all_fit_def)
        then show "table_ok N P ?l (vcalc sp) (Some s')"
          using assms calculation(2-4) s(3) stored_fit [OF calculation(4)] by (simp add: table_ok_def)
      qed
      ultimately show ?thesis using ch s(1) by (auto simp: write_table_def Let_def)
    next
      case False
      then have "ViewStoreUpdate (CmServerZkRecordPtEntryList zk) ?l s z = Some (ret, ?l1, s, z')"
        using need rec by (simp add: ViewStoreUpdate_def Let_def)
      then show ?thesis using ch s(1) assms l1 [of s] False
        by (intro exI [of _ ret] exI [of _ ?l1] exI [of _ s] exI [of _ True] exI [of _ z']) (simp add: write_table_def)
    qed
  next
    case False
    then show ?thesis using ch s(1) assms
      by (intro exI [of _ CM_OK] exI [of _ ?l] exI [of _ s] exI [of _ False] exI [of _ z]) (simp add: write_table_def ViewStoreUpdate_def)
  qed
qed

end
