(* ===== verification/CmMonitorProps.thy ===== *)
theory CmMonitorProps
  imports CmMonitor
begin

text \<open>
  The monitor counts its active records, drops exactly the faults it has reported, and reports a node
  when its fault has lasted for the configured time and not before.
\<close>

section \<open>The invariant\<close>

definition record_ok :: "node_record \<Rightarrow> bool" where
  "record_ok x \<longleftrightarrow>
     (if nused x
      then if rstate (nnode x) = RECORD_STATE_FAULT then ndiskRecs x = []
           else ndiskRecs x \<noteq> [] \<and> distinct (map rid (ndiskRecs x)) \<and> (\<forall>y\<in>set (ndiskRecs x). rstate y = RECORD_STATE_FAULT)
      else rstate (nnode x) = RECORD_STATE_NORMAL \<and> ndiskRecs x = [])"

definition used_num :: "pool_record \<Rightarrow> nat" where
  "used_num r = length (filter nused (nodeRecs r))"

definition mon_ok :: "pool_record \<Rightarrow> bool" where
  "mon_ok r \<longleftrightarrow> activeNum r = used_num r \<and> length (nodeRecs r) < 2 ^ 16 \<and> (\<forall>x\<in>set (nodeRecs r). record_ok x)"

lemma used_upd:
  assumes "n < length xs"
  shows "length (filter nused (xs[n := x])) + (if nused (xs ! n) then 1 else 0) =
     length (filter nused xs) + (if nused x then 1 else 0)"
  using assms
proof (induction xs arbitrary: n)
  case (Cons y ys)
  then show ?case by (cases n) auto
qed simp

lemma used_bound: "n < length xs \<Longrightarrow> nused (xs ! n) \<Longrightarrow> 0 < length (filter nused xs)"
  by (auto simp: filter_empty_conv)

text \<open>Every operation changes one record, and the counter follows.\<close>

definition set_node :: "nat \<Rightarrow> node_record \<Rightarrow> pool_record \<Rightarrow> pool_record" where
  "set_node n x r = r\<lparr>nodeRecs := (nodeRecs r)[n := x],
     activeNum := (if nused x \<and> \<not> nused (nodeRecs r ! n) then inc16 (activeNum r)
       else if \<not> nused x \<and> nused (nodeRecs r ! n) then dec16 (activeNum r) else activeNum r)\<rparr>"

lemma inc16_small: "Suc k < 2 ^ 16 \<Longrightarrow> inc16 k = Suc k" by (simp add: inc16_def)

lemma dec16_Suc: "k < 2 ^ 16 \<Longrightarrow> dec16 (Suc k) = k" by (simp add: dec16_def)

lemma set_node_ok:
  assumes r: "mon_ok r" "n < length (nodeRecs r)" and x: "record_ok x"
  shows "mon_ok (set_node n x r)"
proof -
  let ?xs = "nodeRecs r" and ?ys = "(nodeRecs r)[n := x]"
  have a: "activeNum r = length (filter nused ?xs)" and len: "length ?xs < 2 ^ 16" and ok: "\<forall>x\<in>set ?xs. record_ok x"
    using r(1) by (auto simp: mon_ok_def used_num_def)
  have "length (filter nused ?xs) < 2 ^ 16" "length (filter nused ?ys) < 2 ^ 16"
    by (rule le_less_trans [OF length_filter_le], simp add: len [simplified])+
  then have "activeNum (set_node n x r) = length (filter nused ?ys)"
    using used_upd [OF r(2), of x] inc16_small [of "length (filter nused ?xs)"] dec16_Suc [of "length (filter nused ?ys)"]
    by (cases "nused x"; cases "nused (?xs ! n)") (simp_all add: set_node_def a)
  moreover have "\<forall>y\<in>set ?ys. record_ok y" using ok x set_update_subset_insert [of ?xs n x] by auto
  ultimately show ?thesis using len by (simp add: mon_ok_def used_num_def set_node_def)
qed

lemma mon_okD: "mon_ok r \<Longrightarrow> n < length (nodeRecs r) \<Longrightarrow> record_ok (nodeRecs r ! n)"
  by (simp add: mon_ok_def)

text \<open>The operations as functions of one record.\<close>

definition listen_node :: "nat \<Rightarrow> nat \<Rightarrow> node_record \<Rightarrow> node_record" where
  "listen_node now n x =
     (let fault = \<lparr>rstate = RECORD_STATE_FAULT, rid = n, rtimes = now\<rparr> in
      if \<not> nused x then x\<lparr>nused := True, nnode := fault\<rparr>
      else if rstate (nnode x) = RECORD_STATE_FAULT then x else x\<lparr>nnode := fault, ndiskRecs := []\<rparr>)"

definition cancel_node :: "nat \<Rightarrow> node_record \<Rightarrow> node_record" where
  "cancel_node n x = (if \<not> nused x then x else x\<lparr>nused := False, nnode := reset_info n, ndiskRecs := []\<rparr>)"

definition listen_disk :: "nat \<Rightarrow> nat \<Rightarrow> node_record \<Rightarrow> node_record" where
  "listen_disk now d x =
     (let ys = ndiskRecs x @ [\<lparr>rstate = RECORD_STATE_FAULT, rid = d, rtimes = now\<rparr>] in
      if \<not> nused x then x\<lparr>nused := True, ndiskRecs := ys\<rparr>
      else if rstate (nnode x) = RECORD_STATE_FAULT \<or> d \<in> rid ` set (ndiskRecs x) then x else x\<lparr>ndiskRecs := ys\<rparr>)"

definition cancel_disk :: "nat \<Rightarrow> node_record \<Rightarrow> node_record" where
  "cancel_disk d x =
     (if \<not> nused x \<or> rstate (nnode x) = RECORD_STATE_FAULT then x
      else let ys = filter (\<lambda>y. rid y \<noteq> d) (ndiskRecs x) in
        if ys = [] then x\<lparr>ndiskRecs := ys, nused := False\<rparr> else x\<lparr>ndiskRecs := ys\<rparr>)"

lemma record_cases:
  assumes "record_ok x"
  obtains "\<not> nused x" "rstate (nnode x) = RECORD_STATE_NORMAL" "ndiskRecs x = []"
  | "nused x" "rstate (nnode x) = RECORD_STATE_FAULT" "ndiskRecs x = []"
  | "nused x" "rstate (nnode x) = RECORD_STATE_NORMAL" "ndiskRecs x \<noteq> []" "distinct (map rid (ndiskRecs x))"
      "\<forall>y\<in>set (ndiskRecs x). rstate y = RECORD_STATE_FAULT"
  using assms by (cases "rstate (nnode x)") (auto simp: record_ok_def split: if_splits)

lemma reset_ok: "record_ok (x\<lparr>nused := False, nnode := reset_info n, ndiskRecs := []\<rparr>)"
  by (simp add: record_ok_def reset_info_def)

lemma listen_node_ok: "record_ok x \<Longrightarrow> record_ok (listen_node now n x)"
  by (erule record_cases) (simp_all add: listen_node_def Let_def record_ok_def)

lemma cancel_node_ok: "record_ok x \<Longrightarrow> record_ok (cancel_node n x)"
  by (simp add: cancel_node_def reset_ok)

lemma cancel_disk_ok: "record_ok x \<Longrightarrow> record_ok (cancel_disk d x)"
  by (erule record_cases) (simp_all add: record_ok_def cancel_disk_def Let_def distinct_map_filter)

lemma listen_disk_ok:
  assumes "record_ok x"
  shows "record_ok (listen_disk now d x)"
  using assms
proof (rule record_cases)
  assume "nused x" "rstate (nnode x) = RECORD_STATE_NORMAL" "ndiskRecs x \<noteq> []" "distinct (map rid (ndiskRecs x))"
    "\<forall>y\<in>set (ndiskRecs x). rstate y = RECORD_STATE_FAULT"
  then show ?thesis by (cases "d \<in> rid ` set (ndiskRecs x)") (simp_all add: record_ok_def listen_disk_def Let_def)
qed (simp_all add: record_ok_def listen_disk_def Let_def)

lemmas one_record_ok = listen_node_ok cancel_node_ok listen_disk_ok cancel_disk_ok

lemma ListenNode_eq: "CmServerListenNodeFault now n r = set_node n (listen_node now n (nodeRecs r ! n)) r"
  by (simp add: CmServerListenNodeFault_def listen_node_def set_node_def upd_node_def Let_def)

lemma CancelNode_eq: "CmServerCancelNodeFault n r = set_node n (cancel_node n (nodeRecs r ! n)) r"
  by (simp add: CmServerCancelNodeFault_def cancel_node_def set_node_def upd_node_def)

lemma ListenDisk_eq:
  "CmServerListenDiskFault now n d r =
     (if listen_disk now d (nodeRecs r ! n) = nodeRecs r ! n \<or> length (ndiskRecs (nodeRecs r ! n)) < DISK_LIST_NUM
      then Some (set_node n (listen_disk now d (nodeRecs r ! n)) r) else None)"
proof -
  let ?x = "nodeRecs r ! n"
  have "listen_disk now d ?x \<noteq> ?x" if "\<not> nused ?x"
  proof
    assume "listen_disk now d ?x = ?x"
    then have "nused (listen_disk now d ?x) = nused ?x" by simp
    with that show False by (simp add: listen_disk_def Let_def)
  qed
  moreover have "listen_disk now d ?x \<noteq> ?x" if "nused ?x" "rstate (nnode ?x) \<noteq> RECORD_STATE_FAULT" "d \<notin> rid ` set (ndiskRecs ?x)"
  proof
    assume "listen_disk now d ?x = ?x"
    then have "length (ndiskRecs (listen_disk now d ?x)) = length (ndiskRecs ?x)" by simp
    with that show False by (simp add: listen_disk_def Let_def)
  qed
  ultimately show ?thesis
    by (cases "nused ?x"; cases "rstate (nnode ?x) = RECORD_STATE_FAULT \<or> d \<in> rid ` set (ndiskRecs ?x)")
      (auto simp: CmServerListenDiskFault_def listen_disk_def set_node_def upd_node_def Let_def add_disk_def list_ex_iff)
qed

section \<open>Cancelling a disk\<close>

text \<open>The loop with its moving index is a filter.\<close>

lemma cancel_loop_before:
  assumes "\<forall>i\<in>set is. rid (xs ! i) \<noteq> d" "num = di"
  shows "cancel_loop d num is xs di = (xs, di)"
  using assms by (induction "is") auto

lemma cancel_loop_after:
  assumes "k < length xs" "di < k" "take di xs = ys" "\<forall>i. k \<le> i \<longrightarrow> i < length xs \<longrightarrow> rid (xs ! i) \<noteq> d"
  shows "\<exists>xs'. cancel_loop d (length xs) [k..<length xs] xs di = (xs', di + (length xs - k)) \<and>
     take (di + (length xs - k)) xs' = ys @ drop k xs"
  using assms
proof (induction "length xs - k" arbitrary: k xs di ys)
  case (Suc m)
  let ?xs = "xs[di := xs ! k]"
  have k: "[k..<length xs] = k # [Suc k..<length xs]" using Suc.prems(1) by (simp add: upt_conv_Cons)
  have ne: "rid (xs ! k) \<noteq> d" "di \<noteq> length xs" using Suc.prems by auto
  have dr: "drop k xs = xs ! k # drop (Suc k) xs" using Suc.prems(1) by (simp add: Cons_nth_drop_Suc)
  have t: "take (Suc di) ?xs = ys @ [xs ! k]" using Suc.prems(1,2,3) by (simp add: take_Suc_conv_app_nth)
  show ?case
  proof (cases "Suc k < length xs")
    case True
    have "\<exists>xs'. cancel_loop d (length ?xs) [Suc k..<length ?xs] ?xs (Suc di) = (xs', Suc di + (length ?xs - Suc k)) \<and>
        take (Suc di + (length ?xs - Suc k)) xs' = (ys @ [xs ! k]) @ drop (Suc k) ?xs"
      by (rule Suc.hyps(1)) (use Suc.prems Suc.hyps(2) True t in \<open>auto simp: nth_list_update\<close>)
    moreover have "drop (Suc k) ?xs = drop (Suc k) xs" using Suc.prems(2) by (simp add: drop_update_cancel)
    ultimately show ?thesis using k ne dr True by (auto simp: Suc_diff_Suc)
  next
    case False
    then have e: "[Suc k..<length xs] = []" "length xs - k = 1" "drop (Suc k) xs = []" using Suc.prems(1) by auto
    show ?thesis using k e ne dr t by auto
  qed
qed simp

lemma cancel_loop_filter:
  assumes "distinct (map rid xs)"
  shows "\<exists>xs' di. cancel_loop d (length xs) [0..<length xs] xs (length xs) = (xs', di) \<and> take di xs' = filter (\<lambda>y. rid y \<noteq> d) xs \<and>
     (di = 0 \<longleftrightarrow> filter (\<lambda>y. rid y \<noteq> d) xs = [])"
proof (cases "\<exists>j<length xs. rid (xs ! j) = d")
  case False
  then have "filter (\<lambda>y. rid y \<noteq> d) xs = xs" by (auto simp: filter_id_conv in_set_conv_nth)
  with False show ?thesis using cancel_loop_before [of "[0..<length xs]" xs d "length xs"] by auto
next
  case True
  then obtain j where j: "j < length xs" "rid (xs ! j) = d" by blast
  have other: "i = j" if "rid (xs ! i) = d" "i < length xs" for i
    using assms that j by (auto simp: distinct_conv_nth)
  have f: "filter (\<lambda>y. rid y \<noteq> d) xs = take j xs @ drop (Suc j) xs"
  proof -
    have "filter (\<lambda>y. rid y \<noteq> d) (take j xs) = take j xs" "filter (\<lambda>y. rid y \<noteq> d) (drop (Suc j) xs) = drop (Suc j) xs"
      using j(1) by (auto simp: filter_id_conv in_set_conv_nth dest!: other [OF sym])
    with j show ?thesis
      by (subst id_take_nth_drop [OF j(1)]) simp
  qed
  have up: "[0..<length xs] = [0..<j] @ j # [Suc j..<length xs]"
    using upt_add_eq_append [of 0 j "length xs - j"] j(1) by (simp add: upt_conv_Cons)
  have app: "cancel_loop d num (is @ js) xs di = (case cancel_loop d num is xs di of (xs, di) \<Rightarrow> cancel_loop d num js xs di)"
    for num "is" js xs di by (induction "is" arbitrary: xs di) simp_all
  have b: "cancel_loop d (length xs) [0..<j] xs (length xs) = (xs, length xs)"
    using j(1) by (intro cancel_loop_before) (auto dest: other [OF sym])
  have start: "cancel_loop d (length xs) [0..<length xs] xs (length xs) = cancel_loop d (length xs) [Suc j..<length xs] xs j"
    unfolding up app b using j(2) by simp
  show ?thesis
  proof (cases "Suc j < length xs")
    case True
    have "\<forall>i. Suc j \<le> i \<longrightarrow> i < length xs \<longrightarrow> rid (xs ! i) \<noteq> d" by (auto dest: other [OF sym])
    then obtain xs' where "cancel_loop d (length xs) [Suc j..<length xs] xs j = (xs', j + (length xs - Suc j))"
      "take (j + (length xs - Suc j)) xs' = take j xs @ drop (Suc j) xs"
      using cancel_loop_after [OF True _ refl] by blast
    with True f start show ?thesis by auto
  next
    case False
    with j(1) f start show ?thesis by auto
  qed
qed

lemma CancelDisk_eq:
  assumes "mon_ok r" "n < length (nodeRecs r)"
  shows "CmServerCancelDiskFault n d r = set_node n (cancel_disk d (nodeRecs r ! n)) r"
proof -
  let ?x = "nodeRecs r ! n"
  have same: "set_node n ?x r = r" by (simp add: set_node_def)
  from mon_okD [OF assms] show ?thesis
  proof (rule record_cases)
    assume x: "nused ?x" "rstate (nnode ?x) = RECORD_STATE_NORMAL" "distinct (map rid (ndiskRecs ?x))"
    obtain xs di where "cancel_loop d (length (ndiskRecs ?x)) [0..<length (ndiskRecs ?x)] (ndiskRecs ?x) (length (ndiskRecs ?x)) = (xs, di)"
        "take di xs = filter (\<lambda>y. rid y \<noteq> d) (ndiskRecs ?x)" "di = 0 \<longleftrightarrow> filter (\<lambda>y. rid y \<noteq> d) (ndiskRecs ?x) = []"
      using cancel_loop_filter [OF x(3), of d] by blast
    with x(1,2) assms(2) show ?thesis
      by (cases "di = 0") (simp_all add: CmServerCancelDiskFault_def cancel_disk_def set_node_def upd_node_def Let_def)
  qed (simp_all add: CmServerCancelDiskFault_def cancel_disk_def same)
qed

section \<open>Expiry\<close>

text \<open>Moving the kept records to the front is a filter too.\<close>

lemma compact_steps:
  assumes "sorted_wrt (<) is" "\<forall>i\<in>set is. i < length xs" "k \<le> length is"
  shows "fold (\<lambda>i xs. xs[i := xs ! (is ! i)]) [0..<k] xs = map ((!) xs) (take k is) @ drop k xs"
  using assms(3)
proof (induction k)
  case (Suc k)
  have ge: "i \<le> is ! i" if "i < length is" for i
    using that
  proof (induction i)
    case (Suc i)
    then have "is ! i < is ! Suc i" using assms(1) by (simp add: sorted_wrt_iff_nth_less)
    with Suc show ?case by simp
  qed simp
  have k: "k < length is" "is ! k < length xs" using Suc.prems assms(2) by auto
  have lk: "k < length xs" using ge [OF k(1)] k(2) by simp
  have "(map ((!) xs) (take k is) @ drop k xs) ! (is ! k) = xs ! (is ! k)"
    using ge [OF k(1)] k by (simp add: nth_append)
  moreover have "(map ((!) xs) (take k is) @ drop k xs)[k := v] = map ((!) xs) (take k is) @ v # drop (Suc k) xs" for v
    using k(1) lk by (simp add: list_update_append Cons_nth_drop_Suc [symmetric])
  ultimately show ?case using Suc k(1) by (simp add: take_Suc_conv_app_nth)
qed simp

lemma filter_index: "map ((!) xs) (filter (\<lambda>i. P (xs ! i)) [0..<length xs]) = filter P xs"
proof -
  have "filter P (map ((!) xs) [0..<length xs]) = map ((!) xs) (filter (\<lambda>i. P (xs ! i)) [0..<length xs])"
    by (simp add: filter_map o_def)
  then show ?thesis by (simp add: map_nth)
qed

lemma compact_filter: "compact (filter (\<lambda>i. P (xs ! i)) [0..<length xs]) xs = filter P xs"
proof -
  define js where "js = filter (\<lambda>i. P (xs ! i)) [0..<length xs]"
  have "sorted_wrt (<) js" "\<forall>i\<in>set js. i < length xs" by (simp_all add: js_def sorted_wrt_filter)
  then have "compact js xs = map ((!) xs) js" by (simp add: compact_def compact_steps)
  then show ?thesis unfolding js_def by (simp only: filter_index)
qed

text \<open>What a round of the update leaves of a record.\<close>

definition after_expiry :: "nat \<Rightarrow> nat \<Rightarrow> nat \<Rightarrow> nat \<Rightarrow> node_record \<Rightarrow> node_record" where
  "after_expiry nodeT diskT now n x =
     (if \<not> nused x then x
      else if rstate (nnode x) = RECORD_STATE_FAULT
      then if expired nodeT now (nnode x) then CmServerMonitorResetNode n x else x
      else if \<forall>y\<in>set (ndiskRecs x). expired diskT now y then CmServerMonitorResetNode n x
      else x\<lparr>ndiskRecs := filter (\<lambda>y. \<not> expired diskT now y) (ndiskRecs x)\<rparr>)"

lemma expire_node_eq:
  assumes "record_ok x"
  shows "expire_node nodeT diskT now n x =
     (nused x \<and> \<not> nused (after_expiry nodeT diskT now n x), after_expiry nodeT diskT now n x)"
proof -
  have e: "filter (\<lambda>i. \<not> expired diskT now (ys ! i)) [0..<length ys] = [] \<longleftrightarrow> (\<forall>y\<in>set ys. expired diskT now y)" for ys
    by (auto simp: filter_empty_conv all_set_conv_all_nth)
  from assms show ?thesis
    by (rule record_cases) (simp_all add: expire_node_def after_expiry_def Let_def e compact_filter [of "\<lambda>y. \<not> expired diskT now y"] CmServerMonitorResetNode_def)
qed

lemma after_expiry_ok: "record_ok x \<Longrightarrow> record_ok (after_expiry nodeT diskT now n x)"
  by (erule record_cases)
    (simp_all add: record_ok_def after_expiry_def CmServerMonitorResetNode_def reset_info_def distinct_map_filter filter_empty_conv)

lemma expire_step_eq:
  assumes "record_ok (nodeRecs r ! n)"
  shows "expire_step nodeT diskT now n r = set_node n (after_expiry nodeT diskT now n (nodeRecs r ! n)) r"
proof -
  let ?x = "after_expiry nodeT diskT now n (nodeRecs r ! n)"
  have "nused (nodeRecs r ! n)" if "nused ?x" using that by (simp add: after_expiry_def split: if_splits)
  then show ?thesis
    by (cases "nused ?x") (simp_all add: expire_step_def expire_node_eq [OF assms] set_node_def upd_node_def Let_def)
qed

lemma update_loop:
  assumes "mon_ok r" "k \<le> length (nodeRecs r)"
  shows "mon_ok (fold (expire_step nodeT diskT now) [0..<k] r) \<and>
     pused (fold (expire_step nodeT diskT now) [0..<k] r) = pused r \<and>
     idle (fold (expire_step nodeT diskT now) [0..<k] r) = idle r \<and>
     nodeRecs (fold (expire_step nodeT diskT now) [0..<k] r) =
       map (\<lambda>n. after_expiry nodeT diskT now n (nodeRecs r ! n)) [0..<k] @ drop k (nodeRecs r)"
  using assms(2)
proof (induction k)
  case 0
  then show ?case using assms(1) by simp
next
  case (Suc k)
  let ?r = "fold (expire_step nodeT diskT now) [0..<k] r" and ?x = "after_expiry nodeT diskT now k (nodeRecs r ! k)"
  have IH: "mon_ok ?r" "pused ?r = pused r" "idle ?r = idle r"
    "nodeRecs ?r = map (\<lambda>n. after_expiry nodeT diskT now n (nodeRecs r ! n)) [0..<k] @ drop k (nodeRecs r)"
    using Suc by simp_all
  have k: "k < length (nodeRecs r)" and len: "length (nodeRecs ?r) = length (nodeRecs r)" using Suc.prems IH(4) by simp_all
  have x: "nodeRecs ?r ! k = nodeRecs r ! k" using k by (simp add: IH(4) nth_append)
  have ok: "record_ok (nodeRecs r ! k)" by (rule mon_okD [OF assms(1) k])
  have "fold (expire_step nodeT diskT now) [0..<Suc k] r = set_node k ?x ?r"
    using expire_step_eq [of ?r k nodeT diskT now] ok by (simp add: x)
  moreover have "mon_ok (set_node k ?x ?r)"
    using IH(1) k len ok by (intro set_node_ok after_expiry_ok) simp_all
  ultimately show ?case
    using IH(2,3) k by (simp add: set_node_def IH(4) list_update_append Cons_nth_drop_Suc [symmetric])
qed

lemma ExpiredUpdate_ok:
  assumes "mon_ok r"
  shows "mon_ok (CmServerMonitorPoolExpiredUpdate nodeT diskT now r)"
    "nodeRecs (CmServerMonitorPoolExpiredUpdate nodeT diskT now r) =
       map (\<lambda>n. after_expiry nodeT diskT now n (nodeRecs r ! n)) [0..<length (nodeRecs r)]"
    "idle (CmServerMonitorPoolExpiredUpdate nodeT diskT now r) = idle r"
    "pused (CmServerMonitorPoolExpiredUpdate nodeT diskT now r) = pused r"
  using update_loop [OF assms order.refl, of nodeT diskT now]
  by (simp_all add: CmServerMonitorPoolExpiredUpdate_def)

section \<open>The monitor as a map from faults to times\<close>

text \<open>
  What a client may know of the monitor: since when a node (\<open>None\<close>) or a disk of it (\<open>Some d\<close>) is
  recorded as failed.
\<close>

definition node_pending :: "node_record \<Rightarrow> nat option \<rightharpoonup> nat" where
  "node_pending x k =
     (if \<not> nused x then None
      else case k of
        None \<Rightarrow> if rstate (nnode x) = RECORD_STATE_FAULT then Some (rtimes (nnode x)) else None
      | Some d \<Rightarrow> if rstate (nnode x) = RECORD_STATE_FAULT then None
                  else map_of (map (\<lambda>y. (rid y, rtimes y)) (ndiskRecs x)) d)"

definition pending :: "pool_record \<Rightarrow> nat \<times> nat option \<rightharpoonup> nat" where
  "pending r = (\<lambda>(n, k). if n < length (nodeRecs r) then node_pending (nodeRecs r ! n) k else None)"

definition due :: "nat \<Rightarrow> nat \<Rightarrow> nat \<Rightarrow> nat option \<Rightarrow> nat \<Rightarrow> bool" where
  "due nodeT diskT now k t \<longleftrightarrow> add64 t (case k of None \<Rightarrow> nodeT | Some _ \<Rightarrow> diskT) \<le> now"

definition not_due :: "nat \<Rightarrow> nat \<Rightarrow> nat \<Rightarrow> (nat \<times> nat option \<rightharpoonup> nat) \<Rightarrow> (nat \<times> nat option \<rightharpoonup> nat)" where
  "not_due nodeT diskT now p = (\<lambda>(n, k). case p (n, k) of None \<Rightarrow> None | Some t \<Rightarrow> if due nodeT diskT now k t then None else Some t)"

datatype mon_event = NodeFault nat nat | DiskFault nat nat nat | NodeBack nat | DiskBack nat nat | Expiry nat

fun mon_step :: "nat \<Rightarrow> nat \<Rightarrow> mon_event \<Rightarrow> pool_record \<Rightarrow> pool_record option" where
  "mon_step nodeT diskT (NodeFault now n) r = Some (CmServerListenNodeFault now n r)"
| "mon_step nodeT diskT (DiskFault now n d) r = CmServerListenDiskFault now n d r"
| "mon_step nodeT diskT (NodeBack n) r = Some (CmServerCancelNodeFault n r)"
| "mon_step nodeT diskT (DiskBack n d) r = Some (CmServerCancelDiskFault n d r)"
| "mon_step nodeT diskT (Expiry now) r = Some (CmServerMonitorPoolExpiredUpdate nodeT diskT now r)"

fun map_step :: "nat \<Rightarrow> nat \<Rightarrow> mon_event \<Rightarrow> (nat \<times> nat option \<rightharpoonup> nat) \<Rightarrow> (nat \<times> nat option \<rightharpoonup> nat)" where
  "map_step nodeT diskT (NodeFault now n) p =
     (if p (n, None) \<noteq> None then p
      else (\<lambda>(m, k). if m = n then (if k = None then Some now else None) else p (m, k)))"
| "map_step nodeT diskT (DiskFault now n d) p =
     (if p (n, None) \<noteq> None \<or> p (n, Some d) \<noteq> None then p else p((n, Some d) \<mapsto> now))"
| "map_step nodeT diskT (NodeBack n) p = (\<lambda>(m, k). if m = n then None else p (m, k))"
| "map_step nodeT diskT (DiskBack n d) p = p((n, Some d) := None)"
| "map_step nodeT diskT (Expiry now) p = not_due nodeT diskT now p"

lemma pending_set_node:
  "n < length (nodeRecs r) \<Longrightarrow>
     pending (set_node n x r) = (\<lambda>(m, k). if m = n then node_pending x k else pending r (m, k))"
  by (auto simp: pending_def set_node_def fun_eq_iff)

lemma pending_node: "n < length (nodeRecs r) \<Longrightarrow> pending r (n, k) = node_pending (nodeRecs r ! n) k"
  by (simp add: pending_def)

lemma map_of_cancel: "map_of (map (\<lambda>y. (rid y, rtimes y)) (filter (\<lambda>y. rid y \<noteq> d) ys)) =
    (map_of (map (\<lambda>y. (rid y, rtimes y)) ys))(d := None)"
  by (induction ys) auto

lemma map_of_append_new:
  "rid y \<notin> rid ` set ys \<Longrightarrow> map_of (map (\<lambda>y. (rid y, rtimes y)) (ys @ [y])) =
    (map_of (map (\<lambda>y. (rid y, rtimes y)) ys))(rid y \<mapsto> rtimes y)"
  by (induction ys) (auto simp: fun_eq_iff)

lemma map_of_rid: "map_of (map (\<lambda>y. (rid y, rtimes y)) ys) d = None \<longleftrightarrow> d \<notin> rid ` set ys"
  by (simp add: map_of_eq_None_iff image_image)

lemma map_of_not_expired:
  "distinct (map rid ys) \<Longrightarrow> map_of (map (\<lambda>y. (rid y, rtimes y)) (filter (\<lambda>y. \<not> expired diskT now y) ys)) d =
     (case map_of (map (\<lambda>y. (rid y, rtimes y)) ys) d of None \<Rightarrow> None | Some t \<Rightarrow> if add64 t diskT \<le> now then None else Some t)"
proof (induction ys)
  case (Cons y ys)
  then show ?case by (auto simp: expired_def map_of_eq_None_iff image_image split: option.splits)
qed simp

lemma pending_listen_node:
  "record_ok x \<Longrightarrow> node_pending (listen_node now n x) k =
     (if node_pending x None \<noteq> None then node_pending x k else if k = None then Some now else None)"
  by (erule record_cases) (simp_all add: node_pending_def listen_node_def Let_def split: option.split)

lemma pending_cancel_node: "node_pending (cancel_node n x) k = None"
  by (simp add: node_pending_def cancel_node_def)

lemma pending_listen_disk:
  assumes "record_ok x"
  shows "node_pending (listen_disk now d x) k =
     (if node_pending x None \<noteq> None \<or> node_pending x (Some d) \<noteq> None then node_pending x k
      else if k = Some d then Some now else node_pending x k)"
  using assms
proof (rule record_cases)
  assume x: "nused x" "rstate (nnode x) = RECORD_STATE_NORMAL"
  show ?thesis
    using x map_of_rid [of "ndiskRecs x" d] map_of_append_new [of "\<lparr>rstate = RECORD_STATE_FAULT, rid = d, rtimes = now\<rparr>" "ndiskRecs x"]
    by (cases "d \<in> rid ` set (ndiskRecs x)") (simp_all add: node_pending_def listen_disk_def Let_def split: option.split)
qed (auto simp: node_pending_def listen_disk_def Let_def split: option.split)

lemma pending_cancel_disk:
  assumes "record_ok x"
  shows "node_pending (cancel_disk d x) k = (if k = Some d then None else node_pending x k)"
  using assms
proof (rule record_cases)
  assume x: "nused x" "rstate (nnode x) = RECORD_STATE_NORMAL"
  show ?thesis
  proof (cases k)
    case (Some e)
    then show ?thesis using x fun_cong [OF map_of_cancel [of d "ndiskRecs x"], of e]
      by (cases "filter (\<lambda>y. rid y \<noteq> d) (ndiskRecs x) = []") (auto simp: node_pending_def cancel_disk_def split: if_splits)
  qed (simp add: x node_pending_def cancel_disk_def Let_def)
qed (simp_all add: node_pending_def cancel_disk_def split: option.split)

lemma pending_after_expiry:
  assumes "record_ok x"
  shows "node_pending (after_expiry nodeT diskT now n x) k =
     (case node_pending x k of None \<Rightarrow> None | Some t \<Rightarrow> if due nodeT diskT now k t then None else Some t)"
  using assms
proof (rule record_cases)
  assume x: "nused x" "rstate (nnode x) = RECORD_STATE_NORMAL" "distinct (map rid (ndiskRecs x))"
  have all: "add64 s diskT \<le> now"
    if "\<forall>y\<in>set (ndiskRecs x). expired diskT now y" "map_of (map (\<lambda>y. (rid y, rtimes y)) (ndiskRecs x)) d = Some s" for d s
    using that by (auto dest!: map_of_SomeD simp: expired_def)
  show ?thesis
    using x(1,2) all
    by (cases k) (auto simp: node_pending_def after_expiry_def due_def CmServerMonitorResetNode_def map_of_not_expired [OF x(3)]
      split: option.split)
qed (auto simp: node_pending_def after_expiry_def due_def expired_def CmServerMonitorResetNode_def split: option.split)

fun event_node :: "mon_event \<Rightarrow> nat option" where
  "event_node (NodeFault now n) = Some n"
| "event_node (DiskFault now n d) = Some n"
| "event_node (NodeBack n) = Some n"
| "event_node (DiskBack n d) = Some n"
| "event_node (Expiry now) = None"

definition in_pool :: "nat \<Rightarrow> mon_event \<Rightarrow> bool" where
  "in_pool m e \<longleftrightarrow> (case event_node e of None \<Rightarrow> True | Some n \<Rightarrow> n < m)"

text \<open>Every operation but the expiry is \<open>set_node\<close> with a record that is again well formed.\<close>

definition next_record :: "mon_event \<Rightarrow> node_record \<Rightarrow> node_record" where
  "next_record e x =
     (case e of NodeFault now n \<Rightarrow> listen_node now n x | DiskFault now n d \<Rightarrow> listen_disk now d x
      | NodeBack n \<Rightarrow> cancel_node n x | DiskBack n d \<Rightarrow> cancel_disk d x | Expiry now \<Rightarrow> x)"

lemma step_record:
  assumes "mon_ok r" "event_node e = Some n" "n < length (nodeRecs r)" "mon_step nodeT diskT e r = Some r'"
  shows "r' = set_node n (next_record e (nodeRecs r ! n)) r"
  using assms by (cases e) (auto simp: next_record_def ListenNode_eq ListenDisk_eq CancelNode_eq CancelDisk_eq split: if_splits)

lemma step_pending:
  assumes "record_ok x" "event_node e = Some n" "\<And>k. p (n, k) = node_pending x k"
  shows "map_step nodeT diskT e p = (\<lambda>(m, k). if m = n then node_pending (next_record e x) k else p (m, k))"
  using assms
  by (cases e) (auto simp: fun_eq_iff next_record_def pending_listen_node pending_listen_disk pending_cancel_node pending_cancel_disk)

lemma mon_step_refines:
  assumes r: "mon_ok r" and e: "in_pool (length (nodeRecs r)) e" and step: "mon_step nodeT diskT e r = Some r'"
  shows "mon_ok r' \<and> length (nodeRecs r') = length (nodeRecs r) \<and> pending r' = map_step nodeT diskT e (pending r)"
proof (cases "event_node e")
  case (Some n)
  then have n: "n < length (nodeRecs r)" using e by (simp add: in_pool_def)
  let ?x = "nodeRecs r ! n"
  have x: "record_ok ?x" by (rule mon_okD [OF r n])
  have "record_ok (next_record e ?x)" using x by (cases e) (simp_all add: next_record_def one_record_ok)
  moreover have "r' = set_node n (next_record e ?x) r" by (rule step_record [OF r Some n step])
  moreover have "map_step nodeT diskT e (pending r) = (\<lambda>(m, k). if m = n then node_pending (next_record e ?x) k else pending r (m, k))"
    by (rule step_pending [OF x Some]) (rule pending_node [OF n])
  ultimately show ?thesis using set_node_ok [OF r n] by (simp add: pending_set_node [OF n]) (simp add: set_node_def)
next
  case None
  then obtain now where e: "e = Expiry now" by (cases e) simp_all
  then have r': "r' = CmServerMonitorPoolExpiredUpdate nodeT diskT now r" using step by simp
  have "pending r' = not_due nodeT diskT now (pending r)"
    using pending_after_expiry [OF mon_okD [OF r]]
    by (auto simp: fun_eq_iff pending_def not_due_def r' ExpiredUpdate_ok [OF r] split: option.split)
  then show ?thesis using e r' ExpiredUpdate_ok [OF r] by simp
qed

text \<open>A sequence of operations.\<close>

fun run_steps :: "('e \<Rightarrow> 's \<Rightarrow> 's option) \<Rightarrow> 'e list \<Rightarrow> 's \<Rightarrow> 's option" where
  "run_steps step [] s = Some s"
| "run_steps step (e # es) s = (case step e s of None \<Rightarrow> None | Some s' \<Rightarrow> run_steps step es s')"

text \<open>The contract of a monitor, and what follows from it for sequences of operations.\<close>

locale fault_log =
  fixes ok :: "'s \<Rightarrow> bool" and log :: "'s \<Rightarrow> nat \<times> nat option \<rightharpoonup> nat" and step :: "mon_event \<Rightarrow> 's \<Rightarrow> 's option"
    and good :: "mon_event \<Rightarrow> bool" and nodeT diskT :: nat
  assumes step_log: "ok s \<Longrightarrow> good e \<Longrightarrow> step e s = Some s' \<Longrightarrow> ok s' \<and> log s' = map_step nodeT diskT e (log s)"
begin

lemma run_log:
  "ok s \<Longrightarrow> list_all good es \<Longrightarrow> run_steps step es s = Some s' \<Longrightarrow>
     ok s' \<and> log s' = fold (map_step nodeT diskT) es (log s)"
proof (induction es arbitrary: s)
  case (Cons e es)
  then obtain s1 where s1: "step e s = Some s1" "run_steps step es s1 = Some s'" by (auto split: option.splits)
  have "ok s1 \<and> log s1 = map_step nodeT diskT e (log s)" by (rule step_log) (use Cons.prems s1 in simp_all)
  then show ?case using Cons.IH [of s1] Cons.prems s1 by simp
qed simp

text \<open>A recorded failure of a node keeps its time until the node is back or the failure is due.\<close>

lemma node_fault_stays:
  assumes "ok s" "list_all good es" "run_steps step es s = Some s'" "log s (n, None) = Some t"
    and "NodeBack n \<notin> set es" "\<And>now. Expiry now \<in> set es \<Longrightarrow> \<not> due nodeT diskT now None t"
  shows "log s' (n, None) = Some t"
proof -
  have "fold (map_step nodeT diskT) es p (n, None) = Some t" if "p (n, None) = Some t" for p
    using that assms(5,6)
  proof (induction es arbitrary: p)
    case (Cons e es)
    have "map_step nodeT diskT e p (n, None) = Some t"
      using Cons.prems by (cases e) (auto simp: not_due_def)
    then show ?case using Cons by simp
  qed simp
  then show ?thesis using run_log [OF assms(1-3)] assms(4) by simp
qed

end

interpretation mon: fault_log "\<lambda>r. mon_ok r \<and> length (nodeRecs r) = m" pending "mon_step nodeT diskT" "in_pool m" nodeT diskT
  for m nodeT diskT
  proof unfold_locales
  fix r e r'
  assume "mon_ok r \<and> length (nodeRecs r) = m" "in_pool m e" "mon_step nodeT diskT e r = Some r'"
  then show "(mon_ok r' \<and> length (nodeRecs r') = m) \<and> pending r' = map_step nodeT diskT e (pending r)"
    using mon_step_refines [of r e nodeT diskT r'] by blast
qed

lemma reset_pool:
  assumes "m < 2 ^ 16"
  shows "mon_ok (CmServerMonitorResetPool m r)" "pending (CmServerMonitorResetPool m r) = (\<lambda>_. None)"
    "length (nodeRecs (CmServerMonitorResetPool m r)) = m"
  using assms by (auto simp: CmServerMonitorResetPool_def mon_ok_def used_num_def record_ok_def reset_info_def pending_def
    node_pending_def fun_eq_iff filter_empty_conv)

section \<open>What is reported\<close>

fun report :: "nat \<times> nat option \<Rightarrow> expiry" where
  "report (n, None) = ExpiredNode n"
| "report (n, Some d) = ExpiredDisk n d"

lemma node_reports:
  assumes "record_ok x"
  shows "set (node_expiries nodeT diskT now n x) = report ` {(n, k) |k. \<exists>t. node_pending x k = Some t \<and> due nodeT diskT now k t}"
    (is "_ = report ` ?due")
  using assms
proof (rule record_cases)
  assume x: "nused x" "rstate (nnode x) = RECORD_STATE_NORMAL" "distinct (map rid (ndiskRecs x))"
  have eq: "map_of (map (\<lambda>y. (rid y, rtimes y)) (ndiskRecs x)) d = Some t \<longleftrightarrow> (\<exists>y\<in>set (ndiskRecs x). rid y = d \<and> rtimes y = t)" for d t
    using x(3) by (auto simp: map_of_eq_Some_iff comp_def)
  have "?due = (\<lambda>y. (n, Some (rid y))) ` {y \<in> set (ndiskRecs x). expired diskT now y}"
    using x(1,2) by (auto simp: node_pending_def due_def expired_def eq split: option.splits if_splits)
  then show ?thesis using x(1,2) by (simp add: node_expiries_def image_image)
qed (auto simp: node_expiries_def node_pending_def due_def expired_def split: option.splits)

lemma reports:
  assumes "mon_ok r"
  shows "set (expiries nodeT diskT now r) = report ` {k. \<exists>t. pending r k = Some t \<and> due nodeT diskT now (snd k) t}"
proof -
  have "set (expiries nodeT diskT now r) =
      (\<Union>n<length (nodeRecs r). report ` {(n, k) |k. \<exists>t. node_pending (nodeRecs r ! n) k = Some t \<and> due nodeT diskT now k t})"
    using node_reports [OF mon_okD [OF assms]] by (auto simp: expiries_def atLeast0LessThan)
  also have "\<dots> = report ` (\<Union>n<length (nodeRecs r). {(n, k) |k. \<exists>t. node_pending (nodeRecs r ! n) k = Some t \<and> due nodeT diskT now k t})"
    by (simp add: image_UN)
  also have "(\<Union>n<length (nodeRecs r). {(n, k) |k. \<exists>t. node_pending (nodeRecs r ! n) k = Some t \<and> due nodeT diskT now k t}) =
      {k. \<exists>t. pending r k = Some t \<and> due nodeT diskT now (snd k) t}"
    by (auto simp: pending_def split: if_splits)
  finally show ?thesis .
qed

lemma IsExpired_reports:
  assumes "mon_ok r"
  shows "CmServerMonitorPoolIsExpired nodeT diskT now r \<longleftrightarrow> expiries nodeT diskT now r \<noteq> []"
proof -
  have "(nused x \<and> (if rstate (nnode x) = RECORD_STATE_FAULT then expired nodeT now (nnode x)
          else list_ex (\<lambda>y. rstate y = RECORD_STATE_FAULT \<and> expired diskT now y) (ndiskRecs x))) \<longleftrightarrow>
       node_expiries nodeT diskT now n x \<noteq> []" if "record_ok x" for n x
    using that by (rule record_cases) (auto simp: node_expiries_def list_ex_iff filter_empty_conv)
  then show ?thesis using mon_okD [OF assms]
    by (simp add: CmServerMonitorPoolIsExpired_def expiries_def Let_def list_ex_iff)
qed

lemma distinct_concat_map:
  assumes "distinct is" "\<And>i. i \<in> set is \<Longrightarrow> distinct (f i)"
    "\<And>i j x. x \<in> set (f i) \<Longrightarrow> x \<in> set (f j) \<Longrightarrow> i = j"
  shows "distinct (concat (map f is))"
  using assms(1,2)
proof (induction "is")
  case (Cons i "is")
  then show ?case using assms(3) by auto
qed simp

lemma reports_distinct:
  assumes "mon_ok r"
  shows "distinct (expiries nodeT diskT now r)"
proof -
  have "distinct (node_expiries nodeT diskT now n x)" if "record_ok x" for n x
    using that by (rule record_cases) (auto simp: node_expiries_def distinct_map inj_on_def)
  moreover have "(case e of ExpiredNode m \<Rightarrow> m | ExpiredDisk m d \<Rightarrow> m) = n" if "e \<in> set (node_expiries nodeT diskT now n x)" for e n x
    using that by (auto simp: node_expiries_def split: if_splits)
  ultimately show ?thesis
    unfolding expiries_def using mon_okD [OF assms] by (intro distinct_concat_map) (simp, simp, metis)
qed

lemma pending_idle: "pending (r\<lparr>idle := b\<rparr>) = pending r" by (simp add: pending_def fun_eq_iff)

lemma mon_ok_idle: "mon_ok (r\<lparr>idle := b\<rparr>) = mon_ok r" by (simp add: mon_ok_def used_num_def)

section \<open>The array of disk records\<close>

text \<open>A node whose disks have at most 16 ids never fills the array of its records beyond the end.\<close>

fun event_disk :: "(nat \<Rightarrow> nat set) \<Rightarrow> mon_event \<Rightarrow> bool" where
  "event_disk D (DiskFault now n d) \<longleftrightarrow> d \<in> D n"
| "event_disk D e \<longleftrightarrow> True"

definition disks_in :: "(nat \<Rightarrow> nat set) \<Rightarrow> pool_record \<Rightarrow> bool" where
  "disks_in D r \<longleftrightarrow> (\<forall>n d. pending r (n, Some d) \<noteq> None \<longrightarrow> d \<in> D n)"

lemma map_step_disks:
  assumes "event_disk D e" "\<forall>n d. p (n, Some d) \<noteq> None \<longrightarrow> d \<in> D n"
  shows "\<forall>n d. map_step nodeT diskT e p (n, Some d) \<noteq> None \<longrightarrow> d \<in> D n"
  using assms by (cases e) (auto simp: not_due_def split: option.splits if_splits)

lemma listen_disk_fits:
  assumes "mon_ok r" "n < length (nodeRecs r)" "disks_in D r" "d \<in> D n" "finite (D n)" "card (D n) \<le> DISK_LIST_NUM"
  shows "CmServerListenDiskFault now n d r \<noteq> None"
proof -
  let ?x = "nodeRecs r ! n"
  from mon_okD [OF assms(1,2)] show ?thesis
  proof (rule record_cases)
    assume x: "nused ?x" "rstate (nnode ?x) = RECORD_STATE_NORMAL" "distinct (map rid (ndiskRecs ?x))"
    have sub: "rid ` set (ndiskRecs ?x) \<subseteq> D n"
    proof
      fix e assume "e \<in> rid ` set (ndiskRecs ?x)"
      then have "node_pending ?x (Some e) \<noteq> None" using x(1,2) by (simp add: node_pending_def map_of_rid)
      then show "e \<in> D n" using assms(3) by (simp add: disks_in_def pending_node [OF assms(2), symmetric])
    qed
    show ?thesis
    proof (cases "d \<in> rid ` set (ndiskRecs ?x)")
      case True
      then show ?thesis using x by (simp add: ListenDisk_eq listen_disk_def)
    next
      case False
      then have "rid ` set (ndiskRecs ?x) \<subset> D n" using sub assms(4) by blast
      then have "card (set (map rid (ndiskRecs ?x))) < card (D n)" using assms(5) by (simp add: psubset_card_mono)
      then have "length (ndiskRecs ?x) < DISK_LIST_NUM" using distinct_card [OF x(3)] assms(6) by simp
      then show ?thesis by (simp add: ListenDisk_eq)
    qed
  qed (simp_all add: ListenDisk_eq listen_disk_def)
qed

lemma mon_run_fits:
  assumes "mon_ok r" "disks_in D r" "list_all (in_pool (length (nodeRecs r))) es" "list_all (event_disk D) es"
    "\<And>n. finite (D n) \<and> card (D n) \<le> DISK_LIST_NUM"
  shows "\<exists>r'. run_steps (mon_step nodeT diskT) es r = Some r' \<and> mon_ok r' \<and> disks_in D r'"
  using assms(1-4)
proof (induction es arbitrary: r)
  case (Cons e es)
  have "mon_step nodeT diskT e r \<noteq> None"
    using Cons.prems assms(5) by (cases e) (auto simp: in_pool_def listen_disk_fits)
  then obtain r1 where r1: "mon_step nodeT diskT e r = Some r1" by blast
  have s: "mon_ok r1 \<and> length (nodeRecs r1) = length (nodeRecs r) \<and> pending r1 = map_step nodeT diskT e (pending r)"
    by (rule mon_step_refines) (use Cons.prems r1 in simp_all)
  moreover have "disks_in D r1" using map_step_disks [of D e "pending r"] Cons.prems s by (simp add: disks_in_def)
  ultimately show ?case using Cons.IH [of r1] Cons.prems r1 by simp
qed simp

text \<open>A run on a pool of two nodes: a disk fails, then its node, then the other node.\<close>

definition ex_pool :: pool_record where "ex_pool = CmServerMonitorResetPool 2 (CmServerMonitorInitMgr\<lparr>pused := True\<rparr>)"

definition ex_events :: "mon_event list" where
  "ex_events = [DiskFault 10 0 3, NodeFault 12 0, DiskFault 15 1 4, DiskFault 16 1 5, DiskBack 1 4]"

definition ex_faulty :: pool_record where
  "ex_faulty = \<lparr>pused = True, activeNum = 2, idle = True, nodeRecs =
     [\<lparr>nused = True, nnodeId = 0, nnode = \<lparr>rstate = RECORD_STATE_FAULT, rid = 0, rtimes = 12\<rparr>, ndiskRecs = []\<rparr>,
      \<lparr>nused = True, nnodeId = 1, nnode = reset_info 1, ndiskRecs = [\<lparr>rstate = RECORD_STATE_FAULT, rid = 5, rtimes = 16\<rparr>]\<rparr>]\<rparr>"

lemma two_nodes: "[0..<2] = [0, 1]" "[0..<Suc (Suc 0)] = [0, 1]" by (simp_all add: upt_rec)

lemmas monitor_defs = CmServerMonitorResetPool_def CmServerMonitorInitMgr_def CmServerListenDiskFault_def CmServerListenNodeFault_def
  CmServerCancelDiskFault_def add_disk_def upd_node_def inc16_def dec16_def reset_info_def two_nodes

lemma ex_faulty_run: "run_steps (mon_step 30 40) ex_events ex_pool = Some ex_faulty"
  by (simp add: ex_events_def ex_pool_def ex_faulty_def monitor_defs)

lemma ex_events_in: "list_all (in_pool 2) ex_events" by (simp add: ex_events_def in_pool_def)

lemma ex_faulty_ok: "mon_ok ex_faulty"
  by (simp add: mon_ok_def ex_faulty_def used_num_def record_ok_def reset_info_def)

lemma ex_expiries: "expiries 30 40 42 ex_faulty = [ExpiredNode 0]"
  by (simp add: expiries_def ex_faulty_def node_expiries_def expired_def add64_def reset_info_def two_nodes)

section \<open>Theorems\<close>

text \<open>
  (C10) After any sequence of operations on a fresh pool, the records are exactly the faults that the
  events imply: the first report of a fault sets its time, a failed node hides its disks, a return
  cancels, and what was due at an expiry is gone. The records are well formed and counted.
\<close>

theorem monitor_refines:
  assumes "m < 2 ^ 16" "list_all (in_pool m) es"
    "run_steps (mon_step nodeT diskT) es (CmServerMonitorResetPool m r) = Some r'"
  shows "mon_ok r' \<and> pending r' = fold (map_step nodeT diskT) es (\<lambda>_. None)"
  using mon.run_log [OF _ assms(2,3)] reset_pool [OF assms(1), of r] by simp

theorem monitor_refines_witness:
  "mon_ok ex_faulty \<and> pending ex_faulty = fold (map_step 30 40) ex_events (\<lambda>_. None)"
  by (rule monitor_refines [OF _ ex_events_in ex_faulty_run [unfolded ex_pool_def]]) simp

text \<open>
  No sequence of operations writes behind the array of disk records, when no node has more than 16
  disk ids.
\<close>

theorem monitor_in_bounds:
  assumes "m < 2 ^ 16" "list_all (in_pool m) es" "list_all (event_disk D) es" "\<And>n. finite (D n) \<and> card (D n) \<le> DISK_LIST_NUM"
  shows "\<exists>r'. run_steps (mon_step nodeT diskT) es (CmServerMonitorResetPool m r) = Some r' \<and> mon_ok r'"
  using mon_run_fits [of "CmServerMonitorResetPool m r" D es nodeT diskT] reset_pool [OF assms(1), of r] assms(2-4)
  by (auto simp: disks_in_def)

theorem monitor_in_bounds_witness:
  "\<exists>r'. run_steps (mon_step 30 40) ex_events ex_pool = Some r' \<and> mon_ok r'"
  unfolding ex_pool_def
  by (rule monitor_in_bounds [OF _ ex_events_in, where D = "\<lambda>_. {3, 4, 5}"]) (simp_all add: ex_events_def)

text \<open>
  The expiry task reports every fault that is due, once, and nothing else; the detection thread
  schedules the task exactly when there is something to report.
\<close>

theorem expiry_exact:
  assumes "mon_ok r"
  shows "set (expiries nodeT diskT now r) = report ` {k. \<exists>t. pending r k = Some t \<and> due nodeT diskT now (snd k) t} \<and>
     distinct (expiries nodeT diskT now r) \<and>
     (fst (snd (detect_pool nodeT diskT now r)) \<longleftrightarrow>
        pused r \<and> activeNum r \<noteq> 0 \<and> idle r \<and> expiries nodeT diskT now r \<noteq> [])"
  using reports [OF assms] reports_distinct [OF assms] IsExpired_reports [OF assms]
  by (simp add: detect_pool_def Let_def)

theorem expiry_exact_witness:
  "expiries 30 40 42 ex_faulty = [ExpiredNode 0] \<and>
   {k. \<exists>s. pending ex_faulty k = Some s \<and> due 30 40 42 (snd k) s} = {(0, None)}"
proof -
  define A where "A = {k. \<exists>s. pending ex_faulty k = Some s \<and> due 30 40 42 (snd k) s}"
  have img: "report ` A = {ExpiredNode 0}"
    using expiry_exact [OF ex_faulty_ok, of 30 40 42] by (simp add: A_def ex_expiries)
  moreover have "k = (0, None)" if "report k = ExpiredNode 0" for k using that by (cases k rule: report.cases) simp_all
  ultimately have "A \<subseteq> {(0, None)}" by blast
  moreover have "A \<noteq> {}" using img by blast
  ultimately have "A = {(0, None)}" by (simp add: subset_singleton_iff)
  then show ?thesis using ex_expiries unfolding A_def by simp
qed

text \<open>
  The task forgets the faults that are due when the view has committed them, and only then: after a
  failed commit the records are as before, so that the thread schedules the task again.
\<close>

theorem expiry_retried:
  assumes "mon_ok r" "CmServerMonitorPoolExpiredHandle nodeSet diskSet commit nodeT diskT now r v = Some (r', v')"
    "commit (fold (call_handle nodeSet diskSet) (expiries nodeT diskT now r) v) = Some (ret, v')"
  shows "mon_ok r' \<and> idle r' \<and>
     (if ret = CM_OK then pending r' = not_due nodeT diskT now (pending r) \<and> \<not> CmServerMonitorPoolIsExpired nodeT diskT now r'
      else pending r' = pending r \<and> CmServerMonitorPoolIsExpired nodeT diskT now r' = CmServerMonitorPoolIsExpired nodeT diskT now r)"
proof (cases "ret = CM_OK")
  case True
  let ?u = "CmServerMonitorPoolExpiredUpdate nodeT diskT now r"
  have r': "r' = ?u\<lparr>idle := True\<rparr>" using assms(2,3) True by (simp add: CmServerMonitorPoolExpiredHandle_def)
  have u: "mon_ok ?u \<and> pending ?u = not_due nodeT diskT now (pending r)"
    using mon_step_refines [OF assms(1), of "Expiry now" nodeT diskT ?u] by (simp add: in_pool_def)
  then have ok: "mon_ok r'" "pending r' = not_due nodeT diskT now (pending r)" by (simp_all add: r' mon_ok_idle pending_idle)
  then have "set (expiries nodeT diskT now r') = {}"
    by (subst reports [OF ok(1)]) (auto simp: not_due_def split: option.splits if_splits)
  then show ?thesis using ok True IsExpired_reports [OF ok(1)] by (simp add: r')
next
  case False
  then have "r' = r\<lparr>idle := True\<rparr>" using assms(2,3) by (simp add: CmServerMonitorPoolExpiredHandle_def)
  then show ?thesis using False assms(1) by (simp add: mon_ok_idle pending_idle CmServerMonitorPoolIsExpired_def)
qed

theorem expiry_retried_witness:
  "CmServerMonitorPoolExpiredHandle (\<lambda>n v. v @ [n]) (\<lambda>n d v. v) (\<lambda>v. Some (CM_OK, v)) 30 40 42 ex_faulty [] =
     Some ((CmServerMonitorPoolExpiredUpdate 30 40 42 ex_faulty)\<lparr>idle := True\<rparr>, [0]) \<and>
   \<not> CmServerMonitorPoolIsExpired 30 40 42 ((CmServerMonitorPoolExpiredUpdate 30 40 42 ex_faulty)\<lparr>idle := True\<rparr>) \<and>
   CmServerMonitorPoolIsExpired 30 40 42 ex_faulty"
proof -
  let ?set = "\<lambda>n v. v @ [n]" and ?commit = "\<lambda>v. Some (CM_OK, v)"
  have h: "CmServerMonitorPoolExpiredHandle ?set (\<lambda>n d v. v) ?commit 30 40 42 ex_faulty [] =
     Some ((CmServerMonitorPoolExpiredUpdate 30 40 42 ex_faulty)\<lparr>idle := True\<rparr>, [0])"
    by (simp add: CmServerMonitorPoolExpiredHandle_def ex_expiries)
  have "CmServerMonitorPoolIsExpired 30 40 42 ex_faulty" by (simp add: IsExpired_reports [OF ex_faulty_ok] ex_expiries)
  then show ?thesis using expiry_retried [OF ex_faulty_ok h, of CM_OK] h by (simp add: ex_expiries)
qed

text \<open>
  (C24) A node that fails at time \<open>s\<close> and does not return is reported at time \<open>u\<close> exactly when the
  configured time has passed, whatever other faults, returns and expiries lie between.
\<close>

theorem node_expelled_in_time:
  assumes "mon_ok r" "n < length (nodeRecs r)" "pending r (n, None) = None"
    and "list_all (in_pool (length (nodeRecs r))) es" "NodeBack n \<notin> set es"
    and "\<And>now. Expiry now \<in> set es \<Longrightarrow> now < s + nodeT" "s + nodeT < 2 ^ 64"
    and "run_steps (mon_step nodeT diskT) (NodeFault s n # es) r = Some r'"
  shows "ExpiredNode n \<in> set (expiries nodeT diskT u r') \<longleftrightarrow> s + nodeT \<le> u"
proof -
  let ?m = "length (nodeRecs r)"
  obtain r1 where r1: "mon_step nodeT diskT (NodeFault s n) r = Some r1" "run_steps (mon_step nodeT diskT) es r1 = Some r'"
    using assms(8) by (auto split: option.splits)
  have s1: "(mon_ok r1 \<and> length (nodeRecs r1) = ?m) \<and> pending r1 = map_step nodeT diskT (NodeFault s n) (pending r)"
    by (rule mon.step_log [OF _ _ r1(1)]) (use assms(1,2) in \<open>simp_all add: in_pool_def\<close>)
  have due: "due nodeT diskT now None s \<longleftrightarrow> s + nodeT \<le> now" for now
    using assms(7) by (simp add: due_def add64_def)
  have "pending r' (n, None) = Some s"
    by (rule mon.node_fault_stays [OF conjunct1 [OF s1] assms(4) r1(2) _ assms(5)]) (use s1 assms(3,6) due in \<open>auto simp: not_le\<close>)
  moreover have "mon_ok r'" using mon.run_log [OF conjunct1 [OF s1] assms(4) r1(2)] by simp
  moreover have "report k = ExpiredNode n \<longleftrightarrow> k = (n, None)" for k by (cases k rule: report.cases) auto
  ultimately show ?thesis by (auto simp: reports image_iff due [symmetric] eq_commute [of "ExpiredNode n"])
qed

theorem node_expelled_in_time_witness:
  "\<exists>r'. run_steps (mon_step 30 40) [NodeFault 12 0, DiskFault 15 1 4, Expiry 41] ex_pool = Some r' \<and>
     (\<forall>u. ExpiredNode 0 \<in> set (expiries 30 40 u r') \<longleftrightarrow> 12 + 30 \<le> u)"
proof -
  let ?es = "[DiskFault 15 1 4, Expiry 41]"
  have p: "mon_ok ex_pool" "length (nodeRecs ex_pool) = 2" "pending ex_pool = (\<lambda>_. None)"
    using reset_pool [of 2] by (simp_all add: ex_pool_def)
  have "list_all (in_pool 2) (NodeFault 12 0 # ?es)" "list_all (event_disk (\<lambda>_. {4})) (NodeFault 12 0 # ?es)"
    by (simp_all add: in_pool_def)
  then obtain r' where run: "run_steps (mon_step 30 40) (NodeFault 12 0 # ?es) ex_pool = Some r'"
    using mon_run_fits [of ex_pool "\<lambda>_. {4}" "NodeFault 12 0 # ?es" 30 40] p by (auto simp: disks_in_def)
  have "ExpiredNode 0 \<in> set (expiries 30 40 u r') \<longleftrightarrow> 12 + 30 \<le> u" for u
    by (rule node_expelled_in_time [OF p(1) _ _ _ _ _ _ run]) (auto simp: p in_pool_def)
  with run show ?thesis by blast
qed

end
