(* ===== verification/CmViewProps.thy ===== *)
theory CmViewProps
  imports CmViewTable CmMonitorProps
begin

text \<open>
  The view as a whole: every event keeps the nodes, the monitor and the table in order, whatever
  ZooKeeper answers, and faults that have lasted too long take their node out of the cluster.
\<close>

section \<open>The monitor under the view\<close>

text \<open>\<open>D n\<close> are the ids of the disks of node \<open>n\<close>.\<close>

definition mon_good :: "(nat \<Rightarrow> nat set) \<Rightarrow> nat \<Rightarrow> pool_record \<Rightarrow> bool" where
  "mon_good D N r \<longleftrightarrow> mon_ok r \<and> length (nodeRecs r) = N \<and> disks_in D r"

definition few_disks :: "(nat \<Rightarrow> nat set) \<Rightarrow> bool" where
  "few_disks D \<longleftrightarrow> (\<forall>n. finite (D n) \<and> card (D n) \<le> DISK_LIST_NUM)"

lemma mon_good_step:
  assumes "mon_good D N r" "in_pool N e" "event_disk D e" "mon_step nodeT diskT e r = Some r'"
  shows "mon_good D N r'"
proof -
  have "mon_ok r' \<and> length (nodeRecs r') = length (nodeRecs r) \<and> pending r' = map_step nodeT diskT e (pending r)"
    by (rule mon_step_refines) (use assms in \<open>simp_all add: mon_good_def\<close>)
  then show ?thesis using assms(1) map_step_disks [OF assms(3), of "pending r" nodeT diskT] by (simp add: mon_good_def disks_in_def)
qed

lemma mon_good_ops:
  assumes "mon_good D N r"
  shows "n < N \<Longrightarrow> mon_good D N (CmServerListenNodeFault now n r)" "n < N \<Longrightarrow> mon_good D N (CmServerCancelNodeFault n r)"
    "n < N \<Longrightarrow> mon_good D N (CmServerCancelDiskFault n d r)" "mon_good D N (CmServerMonitorPoolExpiredUpdate nodeT diskT now r)"
  using mon_good_step [OF assms, of "NodeFault now n" 0 0] mon_good_step [OF assms, of "NodeBack n" 0 0]
    mon_good_step [OF assms, of "DiskBack n d" 0 0] mon_good_step [OF assms, of "Expiry now" nodeT diskT]
  by (simp_all add: in_pool_def)

lemma mon_good_listen:
  assumes "mon_good D N r" "few_disks D" "n < N" "d \<in> D n"
  shows "\<exists>r'. CmServerListenDiskFault now n d r = Some r' \<and> mon_good D N r'"
proof -
  have "CmServerListenDiskFault now n d r \<noteq> None"
    using assms by (intro listen_disk_fits [of r n D]) (simp_all add: mon_good_def few_disks_def)
  then show ?thesis using mon_good_step [OF assms(1), of "DiskFault now n d" 0 0] assms(3,4) by (auto simp: in_pool_def)
qed

lemma mon_good_idle: "mon_good D N (r\<lparr>idle := b\<rparr>) = mon_good D N r"
  by (simp add: mon_good_def mon_ok_idle disks_in_def pending_idle)

section \<open>The invariant\<close>

definition info_ok :: "(nat \<Rightarrow> nat set) \<Rightarrow> nat \<Rightarrow> node_info \<Rightarrow> bool" where
  "info_ok D n info \<longleftrightarrow> length (ndisks info) + length (nspare info) = DISK_LIST_NUM \<and>
     (\<forall>d\<in>set (ndisks info). diskId d \<in> D n) \<and> (ndisks info \<noteq> [] \<longrightarrow> nid info = n)"

definition state_ok :: "node_state \<Rightarrow> bool" where
  "state_ok st \<longleftrightarrow> length (sdisks st) = DISK_LIST_NUM \<and> length (sdiskIds st) = DISK_LIST_NUM \<and> sdiskNum st \<le> DISK_LIST_NUM"

definition cluster_ok :: "(nat \<Rightarrow> nat set) \<Rightarrow> nat \<Rightarrow> node_info list \<Rightarrow> node_state list \<Rightarrow> nat \<Rightarrow> pool_record \<Rightarrow> bool" where
  "cluster_ok D N nodes states mst r \<longleftrightarrow> length nodes = N \<and> length states = N \<and> (\<forall>n<N. info_ok D n (nodes ! n)) \<and>
     (\<forall>n<N. state_ok (states ! n)) \<and> (mst = NODE_ID_INVALID \<or> mst < N) \<and> mon_good D N r"

definition view_ok :: "(nat \<Rightarrow> nat set) \<Rightarrow> nat \<Rightarrow> nat \<Rightarrow> server_pool \<Rightarrow> bool" where
  "view_ok D N P sp \<longleftrightarrow> cluster_ok D N (vnodes sp) (vstates sp) (vmasterNodeId sp) (vmon sp) \<and>
     table_ok N P (vpts sp) (vcalc sp) (vstore sp)"

text \<open>What the view relies on: ZooKeeper returns the structure that the node has written.\<close>

definition zk_ok :: "(nat \<Rightarrow> nat set) \<Rightarrow> nat \<Rightarrow> 'z zk_ops \<Rightarrow> bool" where
  "zk_ok D N zk \<longleftrightarrow> (\<forall>n z info z'. n < N \<longrightarrow> CmServerZkGetNodeInfo zk n z = (CM_OK, info, z') \<longrightarrow> info_ok D n info)"

lemma view_okD:
  assumes "view_ok D N P sp"
  shows "length (vnodes sp) = N" "length (vstates sp) = N" "n < N \<Longrightarrow> info_ok D n (vnodes sp ! n)"
    "n < N \<Longrightarrow> state_ok (vstates sp ! n)" "vmasterNodeId sp = NODE_ID_INVALID \<or> vmasterNodeId sp < N" "mon_good D N (vmon sp)"
    "length (nodeRecs (vmon sp)) = N" "table_ok N P (vpts sp) (vcalc sp) (vstore sp)"
  using assms by (simp_all add: view_ok_def cluster_ok_def mon_good_def)

lemma view_ok_flags [simp]:
  "view_ok D N P (sp\<lparr>nodeChange := b\<rparr>) = view_ok D N P sp" "view_ok D N P (sp\<lparr>stateChange := b\<rparr>) = view_ok D N P sp"
  "view_ok D N P (sp\<lparr>ptChange := b\<rparr>) = view_ok D N P sp"
  by (simp_all add: view_ok_def)

lemma view_ok_mon: "view_ok D N P sp \<Longrightarrow> mon_good D N r \<Longrightarrow> view_ok D N P (sp\<lparr>vmon := r\<rparr>)"
  by (simp add: view_ok_def cluster_ok_def)

lemma view_ok_state:
  assumes "view_ok D N P sp" "state_ok st"
  shows "view_ok D N P (sp\<lparr>vstates := (vstates sp)[n := st]\<rparr>)"
proof -
  have "state_ok ((vstates sp)[n := st] ! k)" if "k < N" for k
    using view_okD(2,4) [OF assms(1)] assms(2) that by (cases "k = n") simp_all
  then show ?thesis using assms(1) by (simp add: view_ok_def cluster_ok_def)
qed

lemma view_ok_node:
  assumes "view_ok D N P sp" "info_ok D n info"
  shows "view_ok D N P (sp\<lparr>vnodes := (vnodes sp)[n := info]\<rparr>)"
proof -
  have "info_ok D k ((vnodes sp)[n := info] ! k)" if "k < N" for k
    using view_okD(1,3) [OF assms(1)] assms(2) that by (cases "k = n") simp_all
  then show ?thesis using assms(1) by (simp add: view_ok_def cluster_ok_def)
qed

lemma view_ok_master: "view_ok D N P sp \<Longrightarrow> n < N \<Longrightarrow> view_ok D N P (sp\<lparr>vmasterNodeId := n\<rparr>)"
  by (simp add: view_ok_def cluster_ok_def)

section \<open>Parts of the handlers\<close>

lemma update_state_ok: "view_ok D N P sp \<Longrightarrow> view_ok D N P (update_state pool n st sp)"
  using NodeState_table [of N P "vpts sp" "vcalc sp" "vstore sp" n st "vnodes sp ! n" "ptChange sp"]
  by (auto simp: update_state_def view_ok_def split: prod.split)

lemma check_disks_ok:
  assumes "mon_good D N r" "few_disks D" "nid info < N" "\<forall>d\<in>set (ndisks info). diskId d \<in> D (nid info)"
    "\<forall>i\<in>set is. i < length (ndisks info) \<and> i < length (sdisks st)"
  shows "\<exists>r'. check_disks now info st is r = Some r' \<and> mon_good D N r'"
  using assms(1,5)
proof (induction "is" arbitrary: r)
  case (Cons i "is")
  let ?d = "diskId (ndisks info ! i)"
  have d: "?d \<in> D (nid info)" "i < length (sdisks st)" "nid info < length (nodeRecs r)"
    using Cons.prems assms(3,4) by (auto simp: mon_good_def)
  obtain r1 where r1: "CmServerListenDiskFault now (nid info) ?d r = Some r1" "mon_good D N r1"
    using mon_good_listen [OF Cons.prems(1) assms(2,3) d(1), of now] by blast
  show ?case using d r1 Cons.IH [OF r1(2)] Cons.IH [OF mon_good_ops(3) [OF Cons.prems(1) assms(3)]] Cons.prems(2) by simp
qed simp

lemma CheckDiskFault_ok:
  assumes "mon_good D N r" "few_disks D" "n < N" "info_ok D n info" "state_ok st"
  shows "\<exists>r'. CmServerViewCheckDiskFault now info st r = Some r' \<and> mon_good D N r'"
proof (cases "ndisks info = []")
  case True
  then show ?thesis using assms(1) by (simp add: CmServerViewCheckDiskFault_def)
next
  case False
  then show ?thesis unfolding CmServerViewCheckDiskFault_def using assms
    by (intro check_disks_ok) (auto simp: info_ok_def state_ok_def)
qed

lemma UpdateMaster_ok:
  assumes "view_ok D N P sp"
  shows "\<exists>sp'. CmServerViewUpdateMasterNodeId sp = Some sp' \<and> view_ok D N P sp' \<and> vnodes sp' = vnodes sp \<and> vstates sp' = vstates sp"
proof -
  have "n < N" if "find (can_lead sp) [0..<length (vstates sp)] = Some n" for n
    using that view_okD(2) [OF assms] by (auto simp: find_Some_iff)
  then show ?thesis using view_okD(2,5) [OF assms] assms view_ok_master [OF assms]
    by (auto simp: CmServerViewUpdateMasterNodeId_def Let_def split: option.split)
qed

lemma Sync_ok:
  assumes "view_ok D N P sp" "n < N" "info_ok D n cache"
  shows "\<exists>sp'. SyncDiskListToState n cache sp = Some sp' \<and> view_ok D N P sp' \<and> vnodes sp' = vnodes sp \<and> length (vstates sp') = N"
proof -
  have s: "state_ok (vstates sp ! n)" "length (ndisks cache) \<le> DISK_LIST_NUM"
    using view_okD(4) [OF assms(1,2)] assms(3) by (simp_all add: info_ok_def)
  let ?num = "length (ndisks cache)"
  let ?st = "(vstates sp ! n)\<lparr>sdiskNum := ?num, sdiskIds := map diskId (ndisks cache) @ drop ?num (sdiskIds (vstates sp ! n)),
     sdisks := replicate ?num DISK_CLUSTER_STATE_IN @ drop ?num (sdisks (vstates sp ! n))\<rparr>"
  have "state_ok ?st" using s by (simp add: state_ok_def)
  from view_ok_state [OF assms(1) this, of n] show ?thesis
    using s view_okD(2) [OF assms(1)] by (simp add: SyncDiskListToState_def Let_def state_ok_def)
qed

lemma Compare_ok:
  assumes "view_ok D N P sp" "n < N" "zk_ok D N zk"
  shows "\<exists>ret sp' z'. CompareAndUpdateNodeInfo zk n isInit sp z = Some (ret, sp', z') \<and> view_ok D N P sp'"
proof -
  obtain ret cache z' where g: "CmServerZkGetNodeInfo zk n z = (ret, cache, z')" by (cases "CmServerZkGetNodeInfo zk n z") auto
  show ?thesis
  proof (cases "ret = CM_OK")
    case True
    have c: "info_ok D n cache" using assms(3) [unfolded zk_ok_def, rule_format, OF assms(2)] g True by blast
    obtain sp' where sp': "(if isInit then Some sp else SyncDiskListToState n cache sp) = Some sp'" "view_ok D N P sp'"
      using Sync_ok [OF assms(1,2) c] assms(1) by (cases isInit) auto
    then show ?thesis using g True assms(1) view_ok_node [OF sp'(2) c] by (auto simp: CompareAndUpdateNodeInfo_def)
  qed (use g assms(1) in \<open>simp add: CompareAndUpdateNodeInfo_def\<close>)
qed

lemma BuildNode_ok:
  assumes "view_ok D N P sp" "n < N" "zk_ok D N zk" "few_disks D"
  shows "\<exists>ret sp' z'. CmServerViewBuildNode pool zk now n isInit sp z = Some (ret, sp', z') \<and> view_ok D N P sp'"
proof -
  obtain ret sp1 z1 where c: "CompareAndUpdateNodeInfo zk n isInit sp z = Some (ret, sp1, z1)" "view_ok D N P sp1"
    using Compare_ok [OF assms(1-3)] by blast
  obtain sp2 where m: "CmServerViewUpdateMasterNodeId sp1 = Some sp2" "view_ok D N P sp2" using UpdateMaster_ok [OF c(2)] by blast
  obtain r where r: "CmServerViewCheckDiskFault now (vnodes sp2 ! n) (vstates sp2 ! n) (vmon sp2) = Some r" "mon_good D N r"
    using CheckDiskFault_ok [OF view_okD(6) [OF m(2)] assms(4,2) view_okD(3,4) [OF m(2) assms(2)]] by blast
  have u: "view_ok D N P (update_state pool n st (sp2\<lparr>vmon := r'\<rparr>))" if "mon_good D N r'" for st r'
    using that by (intro update_state_ok view_ok_mon m(2))
  show ?thesis
    using c m r u [OF r(2)] u [OF mon_good_ops(1) [OF view_okD(6) [OF m(2)] assms(2)]] view_okD(2) [OF assms(1)] view_okD(7) [OF m(2)]
      assms(1,2)
    by (simp add: CmServerViewBuildNode_def Let_def)
qed

lemma UpdatePtEntryList_ok:
  assumes "view_ok D N P sp"
  shows "\<exists>ret sp' z'. CmServerViewUpdatePtEntryList pool zk addDisk sp z = Some (ret, sp', z') \<and> view_ok D N P sp' \<and>
     vstates sp' = vstates sp \<and> vmon sp' = vmon sp"
proof -
  have few: "\<forall>n<N. length (ndisks (vnodes sp ! n)) \<le> DISK_LIST_NUM"
    using view_okD(3) [OF assms] by (force simp: info_ok_def)
  obtain l c b where r: "rebalance pool addDisk sp = (CM_OK, sp\<lparr>vpts := l, vcalc := c, ptChange := b\<rparr>)" "table_ok N P l c (vstore sp)"
    using rebalance_table [OF view_okD(8,2) [OF assms] few] by blast
  let ?sp = "sp\<lparr>vpts := l, vcalc := c, ptChange := b\<rparr>"
  have "table_ok N P (vpts ?sp) (vcalc ?sp) (vstore ?sp)" using r(2) by simp
  from write_table_ok [OF this, of zk z] obtain ret l' s b' z' where
    "write_table zk ?sp z = Some (ret, ?sp\<lparr>vpts := l', vstore := Some s, ptChange := b'\<rparr>, z')" "table_ok N P l' c (Some s)" by auto
  then show ?thesis using r(1) assms by (simp add: CmServerViewUpdatePtEntryList_def view_ok_def)
qed

lemma record_changes_ok:
  assumes "view_ok D N P sp"
  shows "\<exists>ret sp' z'. record_changes pool zk addDisk sp z = Some (ret, sp', z') \<and> view_ok D N P sp'"
proof -
  have ok: "view_ok D N P (sp\<lparr>nodeChange := False, stateChange := False\<rparr>)" using assms by simp
  obtain r1 z1 where 1: "(if nodeChange sp then CmServerZkRecordNodeList zk (vnodes sp) z else (CM_OK, z)) = (r1, z1)" by fastforce
  obtain r2 z2 where 2: "(if stateChange sp then CmServerZkRecordStateList zk (vstates sp, vmasterNodeId sp) z1 else (CM_OK, z1)) = (r2, z2)"
    by fastforce
  obtain ret sp' z' where "CmServerViewUpdatePtEntryList pool zk addDisk (sp\<lparr>nodeChange := False, stateChange := False\<rparr>) z2 = Some (ret, sp', z')"
    "view_ok D N P sp'" using UpdatePtEntryList_ok [OF ok, of pool zk addDisk z2] by blast
  then show ?thesis using assms 2
    by (cases "r1 = CM_OK"; cases "r2 = CM_OK"; cases "stateChange sp") (simp_all add: record_changes_def Let_def 1)
qed

lemma OnlineUpdateState_ok:
  assumes "info_ok D n info" "state_ok st"
  shows "\<exists>st'. CmServerViewOnlineUpdateState info st = Some st' \<and> state_ok st' \<and> nupdown st' = NODE_STATE_UP \<and>
     ncluster st' = NODE_CLUSTER_STATE_IN"
  using assms by (cases "ncluster st = NODE_CLUSTER_STATE_IN") (auto simp: CmServerViewOnlineUpdateState_def Let_def info_ok_def state_ok_def)

section \<open>The handlers\<close>

lemma Offline_ok:
  assumes "view_ok D N P sp" "n < N"
  shows "\<exists>sp'. CmServerViewNodeOffline pool now n sp = Some sp' \<and> view_ok D N P sp'"
proof -
  let ?st = "(vstates sp ! n)\<lparr>nupdown := NODE_STATE_DOWN\<rparr>"
  let ?sp = "sp\<lparr>stateChange := True, vstates := (vstates sp)[n := ?st]\<rparr>"
  have "state_ok ?st" using view_okD(4) [OF assms] by (simp add: state_ok_def)
  then have "view_ok D N P (sp\<lparr>stateChange := True, vstates := (vstates (sp\<lparr>stateChange := True\<rparr>))[n := ?st]\<rparr>)"
    using assms(1) by (intro view_ok_state) simp_all
  then have "view_ok D N P ?sp" by simp
  then obtain sp1 where m: "CmServerViewUpdateMasterNodeId ?sp = Some sp1" "view_ok D N P sp1" using UpdateMaster_ok by blast
  have "view_ok D N P (update_state pool n NODE_STATE_DOWN (sp1\<lparr>vmon := CmServerListenNodeFault now n (vmon sp1)\<rparr>))"
    by (intro update_state_ok view_ok_mon m(2) mon_good_ops(1) [OF view_okD(6) [OF m(2)] assms(2)])
  then show ?thesis using m assms view_okD(7) [OF m(2)] by (simp add: CmServerViewNodeOffline_def Let_def)
qed

lemma enter_node_ok:
  assumes "view_ok D N P sp1" "n < N" "few_disks D"
  shows "\<exists>sp'. enter_node pool now n sp1 = Some sp' \<and> view_ok D N P sp'"
proof -
  obtain st where st: "CmServerViewOnlineUpdateState (vnodes sp1 ! n) (vstates sp1 ! n) = Some st" "state_ok st"
    using OnlineUpdateState_ok [OF view_okD(3,4) [OF assms(1,2)]] by blast
  obtain sp2 where m: "CmServerViewUpdateMasterNodeId (sp1\<lparr>vstates := (vstates sp1)[n := st]\<rparr>) = Some sp2" "view_ok D N P sp2"
    using UpdateMaster_ok [OF view_ok_state [OF assms(1) st(2)]] by blast
  obtain r where r: "CmServerViewCheckDiskFault now (vnodes sp2 ! n) (vstates sp2 ! n) (vmon sp2) = Some r" "mon_good D N r"
    using CheckDiskFault_ok [OF view_okD(6) [OF m(2)] assms(3,2) view_okD(3,4) [OF m(2) assms(2)]] by blast
  have "view_ok D N P (update_state pool n NODE_STATE_UP (sp2\<lparr>vmon := r\<rparr>))" by (intro update_state_ok view_ok_mon m(2) r(2))
  then show ?thesis using st(1) m r(1) by (simp add: enter_node_def)
qed

lemma Online_ok:
  assumes "view_ok D N P sp" "n < N" "zk_ok D N zk" "few_disks D"
  shows "\<exists>ret sp' z'. CmServerViewNodeOnline pool zk now n sp z = Some (ret, sp', z') \<and> view_ok D N P sp'"
proof -
  let ?sp0 = "sp\<lparr>stateChange := True, vmon := CmServerCancelNodeFault n (vmon sp)\<rparr>"
  have sp0: "view_ok D N P ?sp0"
    using view_ok_mon [of D N P "sp\<lparr>stateChange := True\<rparr>"] mon_good_ops(2) [OF view_okD(6) [OF assms(1)] assms(2)] assms(1) by simp
  obtain ret cache z1 where g: "CmServerZkGetNodeInfo zk n z = (ret, cache, z1)" by (cases "CmServerZkGetNodeInfo zk n z") auto
  show ?thesis
  proof (cases "nupdown (vstates sp ! n) = NODE_STATE_UP \<or> ret \<noteq> CM_OK")
    case True
    then show ?thesis using assms(1,2) sp0 g view_okD(7) [OF assms(1)] by (auto simp: CmServerViewNodeOnline_def Let_def)
  next
    case False
    then have c: "info_ok D n cache" using assms(3) [unfolded zk_ok_def, rule_format, OF assms(2)] g by blast
    define sp1 where "sp1 = (if vnodes ?sp0 ! n = cache then ?sp0 else ?sp0\<lparr>vnodes := (vnodes ?sp0)[n := cache], nodeChange := True\<rparr>)"
    have sp1: "view_ok D N P sp1" using sp0 view_ok_node [OF sp0 c] by (simp add: sp1_def)
    have "CmServerViewNodeOnline pool zk now n sp z = map_option (\<lambda>sp'. (CM_OK, sp', z1)) (enter_node pool now n sp1)"
      using False g assms(2) view_okD(7) [OF assms(1)] by (simp add: CmServerViewNodeOnline_def Let_def sp1_def)
    then show ?thesis using enter_node_ok [OF sp1 assms(2,4), of pool now] by auto
  qed
qed

lemma change_nodes_ok:
  assumes "view_ok D N P sp" "set ns \<subseteq> {..<N}" "zk_ok D N zk" "few_disks D"
  shows "\<exists>ret sp' z'. change_nodes pool zk now watch ns sp z = Some (ret, sp', z') \<and> view_ok D N P sp'"
  using assms(1,2)
proof (induction ns arbitrary: sp z)
  case (Cons n ns)
  have n: "n < N" using Cons.prems(2) by simp
  obtain ret sp1 z1 where s: "(if CmServerViewFindNodeIndex watch n = length watch
       then map_option (\<lambda>sp'. (CM_OK, sp', z)) (CmServerViewNodeOffline pool now n sp)
       else CmServerViewNodeOnline pool zk now n sp z) = Some (ret, sp1, z1)" "view_ok D N P sp1"
    using Offline_ok [OF Cons.prems(1) n, of pool now] Online_ok [OF Cons.prems(1) n assms(3,4), of pool now z]
    by (cases "CmServerViewFindNodeIndex watch n = length watch") auto
  show ?case using s Cons.IH [OF s(2), of z1] Cons.prems(2) by (cases "ret = CM_OK") (simp_all add: s(1))
qed simp

lemma NodeListChange_ok:
  assumes "view_ok D N P sp" "zk_ok D N zk" "few_disks D"
  shows "\<exists>ret sp' z'. CmServerViewNodeListChange role pool zk now watch sp z = Some (ret, sp', z') \<and> view_ok D N P sp'"
proof -
  have "set [0..<length (vnodes sp)] \<subseteq> {..<N}" using view_okD(1) [OF assms(1)] by auto
  then obtain ret sp1 z1 where c: "change_nodes pool zk now watch [0..<length (vnodes sp)] sp z = Some (ret, sp1, z1)" "view_ok D N P sp1"
    using change_nodes_ok [OF assms(1) _ assms(2,3)] by blast
  then show ?thesis using record_changes_ok [OF c(2), of pool zk False z1] assms(1)
    by (cases "ret = CM_OK") (simp_all add: CmServerViewNodeListChange_def)
qed

lemma NodeEvent_ok:
  assumes "view_ok D N P sp" "n < N" "zk_ok D N zk" "few_disks D"
  shows "\<exists>ret sp' z'. CmServerViewNodeEvent role pool zk now addDisk n sp z = Some (ret, sp', z') \<and> view_ok D N P sp'"
proof -
  obtain ret sp1 z1 where b: "CmServerViewBuildNode pool zk now n False sp z = Some (ret, sp1, z1)" "view_ok D N P sp1"
    using BuildNode_ok [OF assms] by blast
  then show ?thesis using record_changes_ok [OF b(2), of pool zk addDisk z1] assms(1)
    by (cases "ret = CM_OK") (simp_all add: CmServerViewNodeEvent_def)
qed

lemma PtEvent_ok:
  assumes "view_ok D N P sp" "n < N" "pmaxNodeNum pool = N"
  shows "\<exists>sp'. CmServerViewPtEvent role pool mallocOk n pts sp = Some sp' \<and> view_ok D N P sp'"
proof -
  let ?v = "length (filter (\<lambda>st. ncluster st = NODE_CLUSTER_STATE_IN) (vstates sp))"
  obtain ch l where "ViewPtEntryListUpdateNodeFinish mallocOk n pts (ptChange sp) N ?v (vpts sp) = Some (ch, l)"
    "table_ok N P l (vcalc sp) (vstore sp)"
    using NodeFinish_table [OF view_okD(8) [OF assms(1)] assms(2), of mallocOk pts "ptChange sp" ?v] by blast
  then show ?thesis using assms(1,3) by (simp add: CmServerViewPtEvent_def Let_def view_ok_def)
qed

lemma PtEventCommit_ok:
  assumes "view_ok D N P sp"
  shows "\<exists>ret sp' z'. CmServerViewPtEventCommit zk sp z = Some (ret, sp', z') \<and> view_ok D N P sp'"
  using write_table_ok [OF view_okD(8) [OF assms], of zk z] assms by (auto simp: CmServerViewPtEventCommit_def view_ok_def)

section \<open>Expired faults\<close>

fun expiry_node :: "expiry \<Rightarrow> nat" where
  "expiry_node (ExpiredNode n) = n"
| "expiry_node (ExpiredDisk n d) = n"

lemma expiries_in: "e \<in> set (expiries nodeT diskT now r) \<Longrightarrow> expiry_node e < length (nodeRecs r)"
  by (auto simp: expiries_def node_expiries_def split: if_splits)

definition expire_all :: "expiry list \<Rightarrow> server_pool \<times> 'z \<Rightarrow> server_pool \<times> 'z" where
  "expire_all = fold (call_handle (\<lambda>n (sp, z). (CmServerViewExpiredNodeSet n sp, z)) (\<lambda>n d (sp, z). (CmServerViewExpiredDiskSet n d sp, z)))"

lemma nth_update_if: "n < length xs \<Longrightarrow> xs[n := x] ! k = (if k = n then x else xs ! k)"
  by simp

lemma ExpiredNodeSet_ok:
  assumes "view_ok D N P sp" "n < N"
  shows "view_ok D N P (CmServerViewExpiredNodeSet n sp)" "ncluster (vstates (CmServerViewExpiredNodeSet n sp) ! n) = NODE_CLUSTER_STATE_OUT"
    "ncluster (vstates sp ! k) = NODE_CLUSTER_STATE_OUT \<Longrightarrow> ncluster (vstates (CmServerViewExpiredNodeSet n sp) ! k) = NODE_CLUSTER_STATE_OUT"
proof -
  let ?st = "(vstates sp ! n)\<lparr>ncluster := NODE_CLUSTER_STATE_OUT\<rparr>"
  have "state_ok ?st" using view_okD(4) [OF assms] by (simp add: state_ok_def)
  then show "view_ok D N P (CmServerViewExpiredNodeSet n sp)"
    using assms(1) view_ok_state [OF assms(1), of ?st n] by (simp add: CmServerViewExpiredNodeSet_def view_ok_def)
qed (use view_okD(2) [OF assms(1)] assms(2) in \<open>auto simp: CmServerViewExpiredNodeSet_def nth_update_if\<close>)

lemma ExpiredDiskSet_ok:
  assumes "view_ok D N P sp" "n < N"
  shows "view_ok D N P (CmServerViewExpiredDiskSet n d sp)"
    "ncluster (vstates (CmServerViewExpiredDiskSet n d sp) ! k) = ncluster (vstates sp ! k)"
proof -
  let ?st = "\<lambda>i. (vstates sp ! n)\<lparr>sdisks := (sdisks (vstates sp ! n))[i := DISK_CLUSTER_STATE_OUT]\<rparr>"
  have "state_ok (?st i)" for i using view_okD(4) [OF assms] by (simp add: state_ok_def)
  then have "view_ok D N P (sp\<lparr>vstates := (vstates sp)[n := ?st i]\<rparr>)" for i by (rule view_ok_state [OF assms(1)])
  then show "view_ok D N P (CmServerViewExpiredDiskSet n d sp)"
    using assms(1) by (auto simp: CmServerViewExpiredDiskSet_def Let_def view_ok_def split: option.split)
qed (use view_okD(2) [OF assms(1)] assms(2) in \<open>auto simp: CmServerViewExpiredDiskSet_def Let_def nth_update_if split: option.split\<close>)

lemma expire_all_ok:
  assumes "view_ok D N P sp" "\<forall>e\<in>set es. expiry_node e < N"
  shows "\<exists>sp'. expire_all es (sp, z) = (sp', z) \<and> view_ok D N P sp' \<and>
     (\<forall>n. ncluster (vstates sp ! n) = NODE_CLUSTER_STATE_OUT \<or> ExpiredNode n \<in> set es \<longrightarrow>
        ncluster (vstates sp' ! n) = NODE_CLUSTER_STATE_OUT)"
  using assms
proof (induction es arbitrary: sp)
  case (Cons e es)
  show ?case
  proof (cases e)
    case (ExpiredNode n)
    then have n: "n < N" using Cons.prems(2) by simp
    note ok = ExpiredNodeSet_ok [OF Cons.prems(1) n]
    from Cons.IH [OF ok(1)] Cons.prems(2) ok(2,3) ExpiredNode show ?thesis by (auto simp: expire_all_def)
  next
    case (ExpiredDisk n d)
    then have n: "n < N" using Cons.prems(2) by simp
    note ok = ExpiredDiskSet_ok [OF Cons.prems(1) n, of d]
    from Cons.IH [OF ok(1)] Cons.prems(2) ok(2) ExpiredDisk show ?thesis by (auto simp: expire_all_def)
  qed
qed (simp add: expire_all_def)

lemma ExpiredCommit_ok:
  assumes "view_ok D N P sp"
  shows "\<exists>ret sp' z'. CmServerViewExpiredCommit pool zk sp z = Some (ret, sp', z') \<and> view_ok D N P sp' \<and> vstates sp' = vstates sp"
proof -
  obtain r1 z1 where r: "CmServerZkRecordStateList zk (vstates sp, vmasterNodeId sp) z = (r1, z1)" by fastforce
  have "view_ok D N P (sp\<lparr>stateChange := False\<rparr>)" using assms by simp
  from UpdatePtEntryList_ok [OF this, of pool zk False z1] show ?thesis
    using assms r by (auto simp: CmServerViewExpiredCommit_def)
qed

lemma expiry_task_ok:
  assumes "view_ok D N P sp"
  shows "\<exists>sp' z'. CmServerViewRegisterExpiredHandle pool zk nodeT diskT now sp z = Some (sp', z') \<and> view_ok D N P sp' \<and>
     (\<forall>n. ncluster (vstates sp ! n) = NODE_CLUSTER_STATE_OUT \<or> ExpiredNode n \<in> set (expiries nodeT diskT now (vmon sp)) \<longrightarrow>
        ncluster (vstates sp' ! n) = NODE_CLUSTER_STATE_OUT)"
proof -
  let ?es = "expiries nodeT diskT now (vmon sp)" and ?r = "vmon sp"
  have "\<forall>e\<in>set ?es. expiry_node e < N" using expiries_in view_okD(7) [OF assms] by metis
  from expire_all_ok [OF assms this, of z] obtain sp1 where e: "expire_all ?es (sp, z) = (sp1, z)" "view_ok D N P sp1"
    "\<forall>n. ncluster (vstates sp ! n) = NODE_CLUSTER_STATE_OUT \<or> ExpiredNode n \<in> set ?es \<longrightarrow> ncluster (vstates sp1 ! n) = NODE_CLUSTER_STATE_OUT"
    by blast
  obtain ret sp2 z2 where c: "CmServerViewExpiredCommit pool zk sp1 z = Some (ret, sp2, z2)" "view_ok D N P sp2" "vstates sp2 = vstates sp1"
    using ExpiredCommit_ok [OF e(2), of pool zk z] by blast
  have g: "mon_good D N (?r\<lparr>idle := True\<rparr>)" "mon_good D N ((CmServerMonitorPoolExpiredUpdate nodeT diskT now ?r)\<lparr>idle := True\<rparr>)"
    using view_okD(6) [OF assms] mon_good_ops(4) [OF view_okD(6) [OF assms]] by (simp_all add: mon_good_idle)
  show ?thesis using e c g [THEN view_ok_mon [OF c(2)]]
    by (cases "ret = CM_OK") (auto simp: CmServerViewRegisterExpiredHandle_def CmServerMonitorPoolExpiredHandle_def
      expire_all_def [symmetric])
qed

section \<open>Sequences of events\<close>

datatype view_event = NodeListEvent nat "nat list" | NodeEvent nat bool nat | PtEvent bool nat "pt_finish list" | PtCommit
  | ExpiryEvent nat

fun view_step ::
  "server_role \<Rightarrow> pool_info \<Rightarrow> 'z zk_ops \<Rightarrow> nat \<Rightarrow> nat \<Rightarrow> view_event \<Rightarrow> server_pool \<times> 'z \<Rightarrow> (server_pool \<times> 'z) option" where
  "view_step role pool zk nodeT diskT (NodeListEvent now watch) (sp, z) =
     map_option snd (CmServerViewNodeListChange role pool zk now watch sp z)"
| "view_step role pool zk nodeT diskT (NodeEvent now addDisk n) (sp, z) =
     map_option snd (CmServerViewNodeEvent role pool zk now addDisk n sp z)"
| "view_step role pool zk nodeT diskT (PtEvent mallocOk n pts) (sp, z) =
     map_option (\<lambda>sp'. (sp', z)) (CmServerViewPtEvent role pool mallocOk n pts sp)"
| "view_step role pool zk nodeT diskT PtCommit (sp, z) = map_option snd (CmServerViewPtEventCommit zk sp z)"
| "view_step role pool zk nodeT diskT (ExpiryEvent now) (sp, z) = CmServerViewRegisterExpiredHandle pool zk nodeT diskT now sp z"

fun event_in :: "nat \<Rightarrow> view_event \<Rightarrow> bool" where
  "event_in N (NodeEvent now addDisk n) \<longleftrightarrow> n < N"
| "event_in N (PtEvent mallocOk n pts) \<longleftrightarrow> n < N"
| "event_in N e \<longleftrightarrow> True"

lemma view_step_ok:
  assumes "view_ok D N P sp" "event_in N e" "zk_ok D N zk" "few_disks D" "pmaxNodeNum pool = N"
  shows "\<exists>sp' z'. view_step role pool zk nodeT diskT e (sp, z) = Some (sp', z') \<and> view_ok D N P sp'"
proof (cases e)
  case (NodeListEvent now watch)
  then show ?thesis using NodeListChange_ok [OF assms(1,3,4), of role pool now watch z] by auto
next
  case (NodeEvent now addDisk n)
  then show ?thesis using NodeEvent_ok [OF assms(1) _ assms(3,4), of n role pool now addDisk z] assms(2) by auto
next
  case (PtEvent mallocOk n pts)
  then show ?thesis using PtEvent_ok [OF assms(1) _ assms(5), of n role mallocOk pts] assms(2) by auto
next
  case PtCommit
  then show ?thesis using PtEventCommit_ok [OF assms(1), of zk z] by auto
next
  case (ExpiryEvent now)
  then show ?thesis using expiry_task_ok [OF assms(1), of pool zk nodeT diskT now z] by auto
qed

lemma view_run_ok:
  assumes "view_ok D N P sp" "list_all (event_in N) es" "zk_ok D N zk" "few_disks D" "pmaxNodeNum pool = N"
  shows "\<exists>sp' z'. run_steps (view_step role pool zk nodeT diskT) es (sp, z) = Some (sp', z') \<and> view_ok D N P sp'"
  using assms(1,2)
proof (induction es arbitrary: sp z)
  case (Cons e es)
  then obtain sp1 z1 where s: "view_step role pool zk nodeT diskT e (sp, z) = Some (sp1, z1)" "view_ok D N P sp1"
    using view_step_ok [OF _ _ assms(3-5), of P sp e role nodeT diskT z] by auto
  then show ?case using Cons.IH [OF s(2), of z1] Cons.prems(2) by simp
qed simp

text \<open>The state of a pool whose first table is still missing.\<close>

definition new_pool :: "(nat \<Rightarrow> nat set) \<Rightarrow> nat \<Rightarrow> nat \<Rightarrow> server_pool \<Rightarrow> bool" where
  "new_pool D N P sp \<longleftrightarrow> cluster_ok D N (vnodes sp) (vstates sp) (vmasterNodeId sp) (vmon sp) \<and>
     busy (vcalc sp) = [] \<and> N * DISK_LIST_NUM \<le> length (free (vcalc sp)) \<and> calcPtNum (vcalc sp) = P \<and> P < 2 ^ 16 \<and>
     0 < calcMinCopyNum (vcalc sp) \<and> calcMinCopyNum (vcalc sp) \<le> calcCopyNum (vcalc sp) \<and> calcCopyNum (vcalc sp) \<le> PT_MAX_COPY_NUM \<and>
     (case vstore sp of None \<Rightarrow> False | Some s \<Rightarrow> idle_store N P s \<and> 2 * P * calcCopyNum (vcalc sp) \<le> length (sfree s))"

lemma InitialThread_ok:
  assumes "new_pool D N P sp" "calcCopyNum (vcalc sp) \<le> ViewCalcNormNodeNum (vnodes sp) (vstates sp)"
    "\<And>l. fst (CmServerZkRecordPtEntryList zk l z) = CM_OK"
  shows "\<exists>sp' z'. CmServerViewInitialThread pool zk sp z = Some (sp', z') \<and> isInitialOk sp' \<and> view_ok D N P sp'"
proof -
  let ?c = "vcalc sp"
  have cl: "cluster_ok D N (vnodes sp) (vstates sp) (vmasterNodeId sp) (vmon sp)" and b: "busy ?c = []"
    and c: "N * DISK_LIST_NUM \<le> length (free ?c)" "calcPtNum ?c = P" "P < 2 ^ 16" "0 < calcMinCopyNum ?c"
    "calcMinCopyNum ?c \<le> calcCopyNum ?c" "calcCopyNum ?c \<le> PT_MAX_COPY_NUM"
    using assms(1) by (simp_all add: new_pool_def)
  obtain s where s: "vstore sp = Some s" "idle_store N P s" "2 * P * calcCopyNum ?c \<le> length (sfree s)"
    using assms(1) by (auto simp: new_pool_def split: option.splits)
  have len: "length (vstates sp) = N" "\<forall>n<N. length (ndisks (vnodes sp ! n)) \<le> DISK_LIST_NUM"
    using cl by (force simp: cluster_ok_def info_ok_def)+
  have en: "enough_elems (vnodes sp) (vstates sp) ?c" by (rule enough_nodes [OF len c(1)])
  obtain l c' where i: "ViewCalculatorInitial (ppoolId pool) (vnodes sp) (vstates sp) (vpts sp) ?c = (CM_OK, l, c')"
    "list_ok l" "calc_kept ?c c'" "ptNum l = P" "maxCopyNum l = calcCopyNum ?c" "minCopyNum l = calcMinCopyNum ?c"
    "\<forall>p<ptNum l. nodes_in N (entries l ! p)"
    using Initial_ok [OF b en _ c(4-6) assms(2), of "ppoolId pool" "vpts sp"] c(2,3) len(1) by auto
  let ?l1 = "l\<lparr>changeVersion := inc64 (changeVersion l)\<rparr>"
  obtain z' where z': "CmServerZkRecordPtEntryList zk ?l1 z = (CM_OK, z')" using assms(3) [of ?l1] by (metis prod.collapse)
  have fit: "all_fit (maxCopyNum l) N l" by (rule list_ok_all_fit [OF i(2,7)])
  have "P * maxCopyNum l \<le> length (sfree s)" using s(3) i(5) by simp
  then obtain s' where st: "ViewStoreInitial (CmServerZkRecordPtEntryList zk) l s z = Some (CM_OK, ?l1, s', z')" "idle_store N P s'"
    "length (sfree s') = length (sfree s)" "stored ?l1 s'"
    using Initial_store_ok [where rec = "CmServerZkRecordPtEntryList zk" and z = z and z' = z', OF fit _ s(2) _ z'] i(4) by auto
  have "all_fit (maxCopyNum l) N ?l1" using fit by (simp add: all_fit_def)
  then have "table_ok N P ?l1 c' (Some s')"
    using i st(2,3) s(3) stored_fit [OF st(4)] c(1,2,3,6)
    by (simp add: table_ok_def calc_kept_def list_ok_def entry_ok_def consistent_def)
  then show ?thesis using i(1) st(1) s(1) cl by (simp add: CmServerViewInitialThread_def Let_def view_ok_def)
qed

section \<open>An example\<close>

text \<open>A pool of one node with one disk, one partition and one copy.\<close>

definition one_disk :: disk_info where "one_disk = \<lparr>diskId = 0, diskHealth = DISK_STATE_NORMAL\<rparr>"

definition one_node :: node_info where
  "one_node = \<lparr>ndisks = [one_disk], nnets = [NET_STATE_NORMAL], nspare = replicate 15 one_disk, nid = 0,
     nstatus = NODE_STATUS_OK, naddr = []\<rparr>"

definition one_state :: node_state where
  "one_state = zero_state\<lparr>nupdown := NODE_STATE_UP, ncluster := NODE_CLUSTER_STATE_IN,
     sdisks := DISK_CLUSTER_STATE_IN # replicate 15 DISK_CLUSTER_STATE_INVALID, sdiskNum := 1\<rparr>"

definition one_pool :: server_pool where
  "one_pool = \<lparr>nodeChange = False, stateChange = False, ptChange = False, isInitialOk = False, isInitialDoing = True,
     vnodes = [one_node], vstates = [one_state], vmasterNodeId = 0, vpts = (ex_list PT_STATE_INIT PT_COPY_STATE_INIT)\<lparr>ptNum := 0\<rparr>,
     vcalc = \<lparr>nodeNum = 1, calcPtNum = 1, calcCopyNum = 1, calcMinCopyNum = 1, diskNum = 0, busy = [], free = replicate 16 ex_elem\<rparr>,
     vstore = Some \<lparr>smaxNodeNum = 1, smaxPtNum = 1,
       sptList = (ex_list PT_STATE_INIT PT_COPY_STATE_INIT)\<lparr>entries := [ex_entry PT_STATE_INIT PT_COPY_STATE_INIT]\<rparr>,
       snodeList = [[]], snodeListBak = [[]], sfree = replicate 4 (ex_entry PT_STATE_INIT PT_COPY_STATE_INIT)\<rparr>,
     vmon = CmServerMonitorResetPool 1 (CmServerMonitorInitMgr\<lparr>pused := True\<rparr>)\<rparr>"

definition one_info :: pool_info where
  "one_info = \<lparr>ppoolId = 7, predundance = PT_REP_SINGLE, pinitialNodeNum = 1, pmaxNodeNum = 1, pmaxPtNum = 1\<rparr>"

text \<open>A ZooKeeper that keeps nothing and knows the node; \<open>ret\<close> is the result of writing the table.\<close>

definition one_zk :: "int \<Rightarrow> unit zk_ops" where
  "one_zk ret = \<lparr>CmServerZkGetNodeInfo = (\<lambda>n z. (CM_OK, one_node, z)), CmServerZkGetNodeList = (\<lambda>l z. (CM_OK, l, z)),
     CmServerZkGetStateList = (\<lambda>l z. (CM_OK, l, z)), CmServerZkGetPtEntryList = (\<lambda>l z. (CM_OK, l, z)),
     CmServerZkRecordNodeList = (\<lambda>l z. (CM_OK, z)), CmServerZkRecordStateList = (\<lambda>l z. (CM_OK, z)),
     CmServerZkRecordPtEntryList = (\<lambda>l z. (ret, z)), CmServerZkSubscribe = []\<rparr>"

abbreviation one_D :: "nat \<Rightarrow> nat set" where "one_D \<equiv> \<lambda>_. {0}"

lemma one_info_ok: "info_ok one_D 0 one_node" by (simp add: info_ok_def one_node_def one_disk_def)

lemma one_zk_ok: "zk_ok one_D 1 (one_zk ret)" using one_info_ok by (simp add: zk_ok_def one_zk_def)

lemma one_few: "few_disks one_D" by (simp add: few_disks_def)

lemma one_new: "new_pool one_D 1 1 one_pool"
proof -
  have "mon_good one_D 1 (vmon one_pool)"
    using reset_pool [of 1] by (simp add: one_pool_def mon_good_def disks_in_def)
  then have "cluster_ok one_D 1 (vnodes one_pool) (vstates one_pool) (vmasterNodeId one_pool) (vmon one_pool)"
    using one_info_ok by (simp add: cluster_ok_def one_pool_def one_state_def zero_state_def state_ok_def)
  then show ?thesis by (simp add: new_pool_def) (simp add: one_pool_def idle_store_def)
qed

lemma one_norm: "calcCopyNum (vcalc one_pool) \<le> ViewCalcNormNodeNum (vnodes one_pool) (vstates one_pool)"
  by (simp add: one_pool_def ViewCalcNormNodeNum_def one_node_def one_state_def one_disk_def node_serves_def disk_serves_def)

lemma one_started: "\<exists>sp. CmServerViewInitialThread one_info (one_zk CM_OK) one_pool () = Some (sp, ()) \<and> view_ok one_D 1 1 sp"
  using InitialThread_ok [OF one_new one_norm, of "one_zk CM_OK" "()" one_info] by (auto simp: one_zk_def)

section \<open>Theorems\<close>

text \<open>
  The view starts: with as many serving nodes as copies, and when ZooKeeper accepts the table, the
  first task of a new pool succeeds and leaves a view that is in order.
\<close>

theorem view_starts:
  assumes "new_pool D N P sp" "calcCopyNum (vcalc sp) \<le> ViewCalcNormNodeNum (vnodes sp) (vstates sp)"
    "\<And>l. fst (CmServerZkRecordPtEntryList zk l z) = CM_OK"
  shows "\<exists>sp' z'. CmServerViewInitialThread pool zk sp z = Some (sp', z') \<and> isInitialOk sp' \<and> view_ok D N P sp'"
  by (rule InitialThread_ok [OF assms])

theorem view_starts_witness:
  "\<exists>sp' z'. CmServerViewInitialThread one_info (one_zk CM_OK) one_pool () = Some (sp', z') \<and> isInitialOk sp' \<and> view_ok one_D 1 1 sp'"
  by (rule view_starts [OF one_new one_norm]) (simp add: one_zk_def)

text \<open>
  (C2) The view stays in order: after any sequence of changes of the node list, node events, reports of
  finished recoveries, commits and expiries, and whatever ZooKeeper answers to the calls that write,
  no access leaves an array, the records of the monitor are well formed, the storer has all its
  elements, and the table is consistent and mentions only nodes of the cluster.
\<close>

theorem view_events_keep_order:
  assumes "view_ok D N P sp" "list_all (event_in N) es" "zk_ok D N zk" "few_disks D" "pmaxNodeNum pool = N"
  shows "\<exists>sp' z'. run_steps (view_step role pool zk nodeT diskT) es (sp, z) = Some (sp', z') \<and> view_ok D N P sp' \<and>
     list_ok (vpts sp') \<and> mon_ok (vmon sp')"
  using view_run_ok [OF assms, of role nodeT diskT z] by (auto simp: view_ok_def table_ok_def cluster_ok_def mon_good_def)

theorem view_events_keep_order_witness:
  "\<exists>sp sp' z'. CmServerViewInitialThread one_info (one_zk CM_OK) one_pool () = Some (sp, ()) \<and>
     run_steps (view_step CM_SERVER_MASTER one_info (one_zk CM_ERR) 30 40)
       [NodeListEvent 5 [], NodeEvent 6 True 0, ExpiryEvent 50, NodeListEvent 60 [0], PtCommit] (sp, ()) = Some (sp', z') \<and>
     list_ok (vpts sp') \<and> mon_ok (vmon sp')"
proof -
  obtain sp where sp: "CmServerViewInitialThread one_info (one_zk CM_OK) one_pool () = Some (sp, ())" "view_ok one_D 1 1 sp"
    using one_started by blast
  have "list_all (event_in 1) [NodeListEvent 5 [], NodeEvent 6 True 0, ExpiryEvent 50, NodeListEvent 60 [0], PtCommit]" by simp
  from view_events_keep_order [OF sp(2) this one_zk_ok one_few, of one_info CM_SERVER_MASTER CM_ERR 30 40 "()"] sp(1)
  show ?thesis by (auto simp: one_info_def)
qed

text \<open>
  (C25) A node whose failure has lasted for the configured time is out of the cluster after the task of the
  monitor, and the view is in order, also when ZooKeeper refuses to record it.
\<close>

theorem expired_node_leaves:
  assumes "view_ok D N P sp" "pending (vmon sp) (n, None) = Some s" "due nodeT diskT now None s"
  shows "\<exists>sp' z'. CmServerViewRegisterExpiredHandle pool zk nodeT diskT now sp z = Some (sp', z') \<and> view_ok D N P sp' \<and>
     ncluster (vstates sp' ! n) = NODE_CLUSTER_STATE_OUT"
proof -
  have "mon_ok (vmon sp)" using view_okD(6) [OF assms(1)] by (simp add: mon_good_def)
  moreover have "ExpiredNode n \<in> report ` {k. \<exists>s. pending (vmon sp) k = Some s \<and> due nodeT diskT now (snd k) s}"
    using assms(2,3) by (intro image_eqI [of _ _ "(n, None)"]) auto
  ultimately have "ExpiredNode n \<in> set (expiries nodeT diskT now (vmon sp))" by (simp add: reports)
  with expiry_task_ok [OF assms(1), of pool zk nodeT diskT now z] show ?thesis by blast
qed

theorem expired_node_leaves_witness:
  "\<exists>sp sp' z'. view_ok one_D 1 1 sp \<and>
     CmServerViewRegisterExpiredHandle one_info (one_zk CM_ERR) 30 40 50 sp () = Some (sp', z') \<and>
     ncluster (vstates sp' ! 0) = NODE_CLUSTER_STATE_OUT"
proof -
  obtain sp0 where sp0: "view_ok one_D 1 1 sp0" using one_started by blast
  let ?r = "CmServerListenNodeFault 12 0 (CmServerMonitorResetPool 1 CmServerMonitorInitMgr)"
  have "mon_good one_D 1 (CmServerMonitorResetPool 1 CmServerMonitorInitMgr)"
    using reset_pool [of 1] by (simp add: mon_good_def disks_in_def)
  then have "mon_good one_D 1 ?r" by (rule mon_good_ops) simp
  then have ok: "view_ok one_D 1 1 (sp0\<lparr>vmon := ?r\<rparr>)" by (rule view_ok_mon [OF sp0])
  have p: "pending (vmon (sp0\<lparr>vmon := ?r\<rparr>)) (0, None) = Some 12"
    by (simp add: pending_def node_pending_def CmServerListenNodeFault_def CmServerMonitorResetPool_def upd_node_def)
  have "due 30 40 50 None 12" by (simp add: due_def add64_def)
  from expired_node_leaves [OF ok p this, of one_info "one_zk CM_ERR" "()"] ok show ?thesis by blast
qed

text \<open>
  The cluster has a leader: if a node is up, in the cluster and healthy, \<open>CmServerViewUpdateMasterNodeId\<close>
  leaves such a node as master, and it keeps a master that is still fit.
\<close>

theorem master_elected:
  assumes "view_ok D N P sp" "n < N" "can_lead sp n"
  shows "\<exists>sp'. CmServerViewUpdateMasterNodeId sp = Some sp' \<and> vmasterNodeId sp' < N \<and> can_lead sp' (vmasterNodeId sp') \<and>
     (vmasterNodeId sp < N \<and> vmasterNodeId sp \<noteq> NODE_ID_INVALID \<and> can_lead sp (vmasterNodeId sp) \<longrightarrow> sp' = sp)"
proof (cases "vmasterNodeId sp \<noteq> NODE_ID_INVALID \<and> can_lead sp (vmasterNodeId sp)")
  case True
  then show ?thesis using view_okD(2,5) [OF assms(1)] by (auto simp: CmServerViewUpdateMasterNodeId_def Let_def)
next
  case False
  have "find (can_lead sp) [0..<length (vstates sp)] \<noteq> None"
    using assms(2,3) view_okD(2) [OF assms(1)] by (auto simp: find_None_iff)
  then obtain k where k: "find (can_lead sp) [0..<length (vstates sp)] = Some k" by blast
  then have "k < N" "can_lead sp k" using view_okD(2) [OF assms(1)] by (auto simp: find_Some_iff)
  then have "can_lead (sp\<lparr>vmasterNodeId := k, stateChange := True\<rparr>) k" by (simp add: can_lead_def)
  then show ?thesis using False k \<open>k < N\<close> view_okD(2,5) [OF assms(1)] by (auto simp: CmServerViewUpdateMasterNodeId_def Let_def)
qed

theorem master_elected_witness:
  "\<exists>sp sp'. view_ok one_D 1 1 sp \<and> CmServerViewUpdateMasterNodeId sp = Some sp' \<and> vmasterNodeId sp' < 1"
proof -
  obtain sp0 where "view_ok one_D 1 1 sp0" using one_started by blast
  then have "view_ok one_D 1 1 (sp0\<lparr>vstates := (vstates sp0)[0 := one_state]\<rparr>)"
    by (rule view_ok_state) (simp add: one_state_def zero_state_def state_ok_def)
  then have ok: "view_ok one_D 1 1 (sp0\<lparr>vstates := (vstates sp0)[0 := one_state], vnodes := (vnodes sp0)[0 := one_node]\<rparr>)" (is "view_ok _ _ _ ?sp")
    using view_ok_node [OF _ one_info_ok, of 1 1 "sp0\<lparr>vstates := (vstates sp0)[0 := one_state]\<rparr>"] by simp
  have "can_lead ?sp 0"
    using view_okD(1,2) [OF \<open>view_ok one_D 1 1 sp0\<close>] by (simp add: can_lead_def one_state_def one_node_def)
  from master_elected [OF ok _ this] ok show ?thesis by fastforce
qed

lemma rebalance_flags: "stateChange (snd (rebalance pool addDisk sp)) = stateChange sp"
  by (simp add: rebalance_def Let_def split: prod.split)

lemma write_table_flags: "write_table zk sp z = Some (ret, sp', z') \<Longrightarrow> stateChange sp' = stateChange sp"
  by (auto simp: write_table_def Let_def split: if_splits option.splits)

text \<open>
  A failed update of the table is not repeated by the monitor: once the states of the nodes are
  recorded, a second \<open>CmServerViewExpiredCommit\<close> reports success and does nothing, although the first
  one failed and the table was not written. The monitor then forgets the fault.
\<close>

theorem commit_not_repeated:
  assumes "CmServerZkRecordStateList zk (vstates sp, vmasterNodeId sp) z = (CM_OK, z1)"
    "CmServerViewExpiredCommit pool zk sp z = Some (ret, sp', z')"
  shows "CmServerViewExpiredCommit pool zk' sp' z2 = Some (CM_OK, sp', z2)"
proof -
  have "stateChange sp' = False"
    using assms rebalance_flags [of pool False "sp\<lparr>stateChange := False\<rparr>"]
    by (auto simp: CmServerViewExpiredCommit_def CmServerViewUpdatePtEntryList_def split: if_splits prod.splits dest: write_table_flags)
  then show ?thesis by (simp add: CmServerViewExpiredCommit_def)
qed

theorem commit_not_repeated_witness:
  "\<exists>sp'. CmServerViewExpiredCommit one_info (one_zk CM_ERR) (one_pool\<lparr>stateChange := True, ptChange := True\<rparr>) () = Some (CM_ERR, sp', ()) \<and>
     ptChange sp' \<and> CmServerViewExpiredCommit one_info (one_zk CM_OK) sp' () = Some (CM_OK, sp', ())"
proof -
  let ?sp = "one_pool\<lparr>stateChange := True, ptChange := True\<rparr>"
  obtain sp' where c: "CmServerViewExpiredCommit one_info (one_zk CM_ERR) ?sp () = Some (CM_ERR, sp', ())" "ptChange sp'"
    by (simp add: CmServerViewExpiredCommit_def CmServerViewUpdatePtEntryList_def rebalance_def ViewCalculatorNeedRebalance_def
        write_table_def ViewStoreUpdate_def ViewStoreIsNeedUpdate_def one_pool_def one_info_def one_zk_def ex_list_def)
  have "CmServerZkRecordStateList (one_zk CM_ERR) (vstates ?sp, vmasterNodeId ?sp) () = (CM_OK, ())" by (simp add: one_zk_def)
  from commit_not_repeated [OF this c(1), of "one_zk CM_OK" "()"] c show ?thesis by (intro exI [of _ sp'] conjI)
qed

text \<open>
  A pool without a table crashes on a changed node: for a pool without redundancy no storer exists,
  but \<open>SyncDiskListToState\<close> marks the table as changed, so that the handler of a node event calls the
  storer through a null pointer as soon as the information about a known node differs.
\<close>

theorem node_event_without_table:
  assumes "predundance pool = PT_NONE" "vstore sp = None" "nupdown (vstates sp ! n) \<noteq> NODE_STATE_INVALID"
    "CmServerZkGetNodeInfo zk n z = (CM_OK, cache, z')" "vnodes sp ! n \<noteq> cache"
    "\<And>l z. fst (CmServerZkRecordNodeList zk l z) = CM_OK" "\<And>l z. fst (CmServerZkRecordStateList zk l z) = CM_OK"
  shows "CmServerViewNodeEvent CM_SERVER_MASTER pool zk now addDisk n sp z = None"
proof -
  have master: "ptChange sp2 = ptChange sp1 \<and> vstore sp2 = vstore sp1" if "CmServerViewUpdateMasterNodeId sp1 = Some sp2" for sp1 sp2
    using that by (auto simp: CmServerViewUpdateMasterNodeId_def Let_def split: if_splits option.splits)
  have build: "ret = CM_OK \<and> ptChange sp' \<and> vstore sp' = None"
    if "CmServerViewBuildNode pool zk now n False sp z = Some (ret, sp', z'')" for ret sp' z''
    using that assms(1-5)
    by (auto simp: CmServerViewBuildNode_def CompareAndUpdateNodeInfo_def SyncDiskListToState_def update_state_def Let_def
        split: if_splits option.splits dest!: master)
  have rc: "record_changes pool zk addDisk sp' z'' = None" if "ptChange sp'" "vstore sp' = None" for sp' z''
  proof -
    obtain z1 where 1: "(if nodeChange sp' then CmServerZkRecordNodeList zk (vnodes sp') z'' else (CM_OK, z'')) = (CM_OK, z1)"
      using assms(6) [of "vnodes sp'" z''] by (cases "nodeChange sp'") (auto simp: prod_eq_iff)
    obtain z2 where "CmServerZkRecordStateList zk (vstates sp', vmasterNodeId sp') z1 = (CM_OK, z2)"
      using assms(7) by (metis prod.collapse)
    then show ?thesis using that assms(1)
      by (cases "stateChange sp'") (simp_all add: record_changes_def Let_def 1 CmServerViewUpdatePtEntryList_def rebalance_def write_table_def)
  qed
  show ?thesis
    by (auto simp: CmServerViewNodeEvent_def split: option.split dest!: build rc)
qed

theorem node_event_without_table_witness:
  "CmServerViewNodeEvent CM_SERVER_MASTER (one_info\<lparr>predundance := PT_NONE\<rparr>) (one_zk CM_OK) 5 False 0
     (one_pool\<lparr>vstore := None, vnodes := [zero_node]\<rparr>) () = None"
  by (rule node_event_without_table [where z' = "()" and cache = one_node])
    (simp_all add: one_pool_def one_zk_def one_state_def one_node_def zero_node_def)

end
