(* ===== verification/CmConfig.thy ===== *)
theory CmConfig
  imports CmView
begin

text \<open>
  Configuration and start of the cluster manager: \<^verbatim>\<open>cluster/common/cm_config.c\<close>, the modules of
  \<^verbatim>\<open>cm_module.h\<close> and \<^verbatim>\<open>cm_inner.c\<close>.
\<close>

abbreviation MAX_POOL_NUM :: nat where "MAX_POOL_NUM \<equiv> 512"
abbreviation MIN_NODE_NUM :: nat where "MIN_NODE_NUM \<equiv> 3"
abbreviation ZK_SERVER_LIST_LEN :: nat where "ZK_SERVER_LIST_LEN \<equiv> 128"
abbreviation IP_ADDR_LEN :: nat where "IP_ADDR_LEN \<equiv> 16"

datatype disk_type = DISK_TYPE_DRAM | DISK_TYPE_SCM | DISK_TYPE_SSD

datatype config_role = CONFIG_ROLE_CMM | CONFIG_ROLE_DATA | CONFIG_ROLE_TOGETHER

text \<open>The view uses only a part of the configuration of a pool.\<close>

record pool_cfg = pool_info +
  poolName :: string
  ptype :: disk_type

text \<open>A pool that is not used is \<open>None\<close>, the field \<open>used\<close> of the code.\<close>

record cm_config =
  crole :: "config_role option"
  cip :: string
  czkServerList :: string
  ctimeOut :: nat
  cpermFaultTimeOut :: nat
  cdiskPermFaultTimeOut :: nat
  cpools :: "pool_cfg option list"

definition g_cmConfig :: cm_config where
  "g_cmConfig = \<lparr>crole = None, cip = [], czkServerList = [], ctimeOut = 30000, cpermFaultTimeOut = 120000,
     cdiskPermFaultTimeOut = 0, cpools = replicate MAX_POOL_NUM None\<rparr>"

definition CmConfigHasCfgPoolC :: "cm_config \<Rightarrow> bool" where
  "CmConfigHasCfgPoolC c \<longleftrightarrow> crole c = Some CONFIG_ROLE_DATA \<or> crole c = Some CONFIG_ROLE_TOGETHER"

definition CmConfigHasCfgPoolS :: "cm_config \<Rightarrow> bool" where
  "CmConfigHasCfgPoolS c \<longleftrightarrow> crole c = Some CONFIG_ROLE_CMM \<or> crole c = Some CONFIG_ROLE_TOGETHER"

definition CmConfigGetPoolInfo :: "nat \<Rightarrow> cm_config \<Rightarrow> pool_cfg option" where
  "CmConfigGetPoolInfo p c = (if p \<ge> MAX_POOL_NUM then None else cpools c ! p)"

definition CmConfigGetTimeOut :: "cm_config \<Rightarrow> nat" where
  "CmConfigGetTimeOut c = ctimeOut c mod 2 ^ 32"

definition CmConfigGetPermFaultTimeOut :: "cm_config \<Rightarrow> nat" where
  "CmConfigGetPermFaultTimeOut c = cpermFaultTimeOut c mod 2 ^ 32"

definition CmConfigGetDiskPermFaultTimeOut :: "cm_config \<Rightarrow> nat" where
  "CmConfigGetDiskPermFaultTimeOut c = cdiskPermFaultTimeOut c mod 2 ^ 32"

text \<open>The name of the pool is not copied: it stays empty, as the array was cleared.\<close>

fun set_pools :: "pool_cfg list \<Rightarrow> pool_cfg option list \<Rightarrow> int \<times> pool_cfg option list" where
  "set_pools [] ps = (CM_OK, ps)"
| "set_pools (pool # pools) ps =
     (if ppoolId pool \<ge> MAX_POOL_NUM then (CM_ERR, ps)
      else set_pools pools (ps[ppoolId pool := Some (pool\<lparr>poolName := []\<rparr>)]))"

definition CmConfigReset :: "pool_cfg list \<Rightarrow> cm_config \<Rightarrow> int \<times> cm_config" where
  "CmConfigReset pools c =
     (case set_pools pools (replicate MAX_POOL_NUM None) of (ret, ps) \<Rightarrow> (ret, c\<lparr>cpools := ps\<rparr>))"

text \<open>\<open>strcpy_s\<close> fails when the text with its terminator does not fit.\<close>

definition CmConfigInit ::
  "config_role \<Rightarrow> pool_cfg list \<Rightarrow> string \<Rightarrow> string \<Rightarrow> nat \<Rightarrow> nat \<Rightarrow> cm_config \<Rightarrow> int \<times> cm_config" where
  "CmConfigInit role pools zkIpMask ipStr regTimeOut regPermTimeOut c =
     (case CmConfigReset pools (c\<lparr>crole := Some role\<rparr>) of
        (ret, c1) \<Rightarrow>
          if ret \<noteq> CM_OK then (ret, c1)
          else let c2 = c1\<lparr>ctimeOut := regTimeOut, cpermFaultTimeOut := regPermTimeOut\<rparr> in
            if length zkIpMask \<ge> ZK_SERVER_LIST_LEN then (CM_ERR, c2\<lparr>czkServerList := []\<rparr>)
            else if length ipStr \<ge> IP_ADDR_LEN then (CM_ERR, c2\<lparr>czkServerList := zkIpMask, cip := []\<rparr>)
            else (CM_OK, c2\<lparr>czkServerList := zkIpMask, cip := ipStr\<rparr>))"

section \<open>Modules\<close>

text \<open>A module is its functions of start and end; \<open>None\<close> is a null pointer.\<close>

type_synonym 's cm_module = "('s \<Rightarrow> int \<times> 's) option \<times> ('s \<Rightarrow> 's) option"

definition exit_module :: "'s cm_module \<Rightarrow> 's \<Rightarrow> 's" where
  "exit_module m s = (case snd m of None \<Rightarrow> s | Some f \<Rightarrow> f s)"

definition RollbackModules :: "'s cm_module list \<Rightarrow> nat \<Rightarrow> 's \<Rightarrow> 's" where
  "RollbackModules ms curSteps s = fold (\<lambda>i. exit_module (ms ! i)) (rev [0..<curSteps]) s"

fun init_from :: "'s cm_module list \<Rightarrow> nat list \<Rightarrow> 's \<Rightarrow> int \<times> 's" where
  "init_from ms [] s = (0, s)"
| "init_from ms (i # is) s =
     (case fst (ms ! i) of
        None \<Rightarrow> init_from ms is s
      | Some f \<Rightarrow> (case f s of (ret, s') \<Rightarrow> if ret \<noteq> 0 then (- 1, RollbackModules ms i s') else init_from ms is s'))"

definition InitModules :: "'s cm_module list \<Rightarrow> nat \<Rightarrow> 's \<Rightarrow> int \<times> 's" where
  "InitModules ms steps s = init_from ms [0..<steps] s"

definition CM_Init :: "('s \<Rightarrow> int \<times> 's) \<Rightarrow> ('s \<Rightarrow> int \<times> 's) \<Rightarrow> 's cm_module list \<Rightarrow> 's \<Rightarrow> int \<times> 's" where
  "CM_Init configInit zkInit g_cmModules s =
     (case configInit s of
        (ret, s1) \<Rightarrow>
          if ret \<noteq> 0 then (ret, s1)
          else case zkInit s1 of
            (ret, s2) \<Rightarrow> if ret \<noteq> 0 then (ret, s2) else InitModules g_cmModules (length g_cmModules) s2)"

definition CM_Exit :: "'s cm_module list \<Rightarrow> 's \<Rightarrow> 's" where
  "CM_Exit g_cmModules s = RollbackModules g_cmModules (length g_cmModules) s"

text \<open>\<open>CM_ClientInit\<close> and \<open>CM_ServerInit\<close>: the modules are started if the configuration has the role.\<close>

definition CM_ClientInit :: "cm_config \<Rightarrow> 's cm_module list \<Rightarrow> 's \<Rightarrow> int \<times> 's" where
  "CM_ClientInit c g_cmClientModules s =
     (if \<not> CmConfigHasCfgPoolC c then (CM_OK, s) else InitModules g_cmClientModules (length g_cmClientModules) s)"

definition CM_ServerInit :: "cm_config \<Rightarrow> 's cm_module list \<Rightarrow> 's \<Rightarrow> int \<times> 's" where
  "CM_ServerInit c g_cmServerModules s =
     (if \<not> CmConfigHasCfgPoolS c then (CM_OK, s) else InitModules g_cmServerModules (length g_cmServerModules) s)"

section \<open>Properties\<close>

text \<open>The starts one after the other, without the way back; a missing function succeeds.\<close>

definition start_module :: "'s cm_module \<Rightarrow> 's \<Rightarrow> int \<times> 's" where
  "start_module m s = (case fst m of None \<Rightarrow> (0, s) | Some f \<Rightarrow> f s)"

fun start_all :: "'s cm_module list \<Rightarrow> 's \<Rightarrow> 's option" where
  "start_all [] s = Some s"
| "start_all (m # ms) s = (case start_module m s of (ret, s') \<Rightarrow> if ret = 0 then start_all ms s' else None)"

lemma start_all_append: "start_all (xs @ ys) s = (case start_all xs s of None \<Rightarrow> None | Some s' \<Rightarrow> start_all ys s')"
  by (induction xs arbitrary: s) (auto split: prod.splits)

lemma rollback_fold: "i \<le> length ms \<Longrightarrow> RollbackModules ms i s = fold exit_module (rev (take i ms)) s"
proof (induction i arbitrary: s)
  case (Suc i)
  then show ?case by (simp add: RollbackModules_def take_Suc_conv_app_nth)
qed (simp add: RollbackModules_def)

lemma init_from_spec:
  assumes "i \<le> length ms" "start_all (take i ms) s0 = Some s" "init_from ms [i..<length ms] s = (ret, s')"
  shows "ret = 0 \<and> start_all ms s0 = Some s' \<or>
     ret = - 1 \<and> (\<exists>before m later s1 code s2. ms = before @ m # later \<and> start_all before s0 = Some s1 \<and>
       start_module m s1 = (code, s2) \<and> code \<noteq> 0 \<and> s' = fold exit_module (rev before) s2)"
  using assms
proof (induction "length ms - i" arbitrary: i s)
  case (Suc k)
  then have i: "i < length ms" by simp
  then have e: "[i..<length ms] = i # [Suc i..<length ms]" by (simp add: upt_conv_Cons)
  have ms: "ms = take i ms @ ms ! i # drop (Suc i) ms" using i by (rule id_take_nth_drop)
  obtain code s2 where m: "start_module (ms ! i) s = (code, s2)" by fastforce
  show ?case
  proof (cases "code = 0")
    case True
    then have "start_all (take (Suc i) ms) s0 = Some s2" using Suc.prems(2) m i by (simp add: take_Suc_conv_app_nth start_all_append)
    moreover have "init_from ms [Suc i..<length ms] s2 = (ret, s')"
      using Suc.prems(3) e m True by (auto simp: start_module_def split: option.splits)
    ultimately show ?thesis using Suc.hyps(1) [of "Suc i" s2] Suc.hyps(2) i by simp
  next
    case False
    then have "ret = - 1" "s' = RollbackModules ms i s2" using Suc.prems(3) e m by (auto simp: start_module_def split: option.splits)
    then show ?thesis using ms Suc.prems(1,2) m False rollback_fold [of i ms s2] by blast
  qed
qed (auto simp: rollback_fold)

text \<open>
  (C36) The start of the modules of a table goes on to the first module that fails, and then exactly the modules before it are
  ended, the last one first: either all are started, or one fails in the state that the starts before it have left, and the
  result is that of the ends of the modules before it. The failing module itself is not ended, and a module
  without an end, as that of the adapter of ZooKeeper, keeps what it has done.
\<close>

theorem modules_rolled_back:
  "case InitModules ms (length ms) s of (ret, s') \<Rightarrow>
     ret = 0 \<and> start_all ms s = Some s' \<or>
     ret = - 1 \<and> (\<exists>before m later s1 code s2. ms = before @ m # later \<and> start_all before s = Some s1 \<and>
       start_module m s1 = (code, s2) \<and> code \<noteq> 0 \<and> s' = fold exit_module (rev before) s2)"
proof (cases "InitModules ms (length ms) s")
  case (Pair ret s')
  with init_from_spec [of 0 ms s s ret s'] show ?thesis by (simp add: InitModules_def)
qed

text \<open>The table of the server with functions that note their calls: the start of the last module fails.\<close>

lemma server_table_rolled_back:
  "InitModules [(Some (\<lambda>l. (0, l @ [1])), Some (\<lambda>l. l @ [- 1])), (Some (\<lambda>l. (0, l @ [2])), None),
       (Some (\<lambda>l. (0, l @ [3])), Some (\<lambda>l. l @ [- 3])), (Some (\<lambda>l. (5, l @ [4])), Some (\<lambda>l. l @ [- 4]))] 4 [] =
     (- 1, [1, 2, 3, 4, - 3, - 1 :: int])"
  by (simp add: InitModules_def RollbackModules_def exit_module_def upt_rec)

end
