(* ===== verification/CmZk.thy ===== *)
theory CmZk
  imports CmConfig
begin

text \<open>
  The adapter of ZooKeeper, \<^verbatim>\<open>cluster/common/cm_zkadapter.c\<close>: paths, the calls of the library with
  their repetition, the directories, and what the server side reads, writes and subscribes to.
  \<^verbatim>\<open>CmZkClient\<close> has the client side.

  The library of ZooKeeper is a record of functions on a state \<open>'z\<close>. A znode holds a structure: its
  bytes are those of the structure that was written, and reading them as another structure is \<open>None\<close>,
  as is any access outside an array.
\<close>

abbreviation CM_NOT_EXIST :: int where "CM_NOT_EXIST \<equiv> - 1099"
abbreviation ZOK :: int where "ZOK \<equiv> 0"
abbreviation ZNONODE :: int where "ZNONODE \<equiv> - 101"
abbreviation ZNODEEXISTS :: int where "ZNODEEXISTS \<equiv> - 110"
abbreviation ZSESSIONEXPIRED :: int where "ZSESSIONEXPIRED \<equiv> - 112"
abbreviation CM_ZNODE_PATH_LEN :: nat where "CM_ZNODE_PATH_LEN \<equiv> 128"
abbreviation CM_ZK_MAX_TRY_NUM :: nat where "CM_ZK_MAX_TRY_NUM \<equiv> 3"
abbreviation CM_ZK_TRY_INTERAL :: nat where "CM_ZK_TRY_INTERAL \<equiv> 1000"
abbreviation CM_ZK_NODE_DETECT_TIME :: nat where "CM_ZK_NODE_DETECT_TIME \<equiv> 60000"
abbreviation CM_ZK_TRY_CONNECT_TIME :: nat where "CM_ZK_TRY_CONNECT_TIME \<equiv> 30000"
abbreviation MAX_NODE_NUM :: nat where "MAX_NODE_NUM \<equiv> 256"
abbreviation MAX_PT_ENTRY :: nat where "MAX_PT_ENTRY \<equiv> 8192"
abbreviation MIN_PT_ENTRY :: nat where "MIN_PT_ENTRY \<equiv> 3"
abbreviation UINT16_MAX :: nat where "UINT16_MAX \<equiv> 65535"
abbreviation INT32_MAX :: int where "INT32_MAX \<equiv> 2147483647"

section \<open>Paths\<close>

text \<open>\<open>dec\<close> is the conversion \<open>%u\<close> of \<open>sprintf_s\<close>.\<close>

definition digit :: "nat \<Rightarrow> char" where
  "digit n = char_of (48 + n)"

fun dec :: "nat \<Rightarrow> string" where
  "dec n = (if n < 10 then [digit n] else dec (n div 10) @ [digit (n mod 10)])"

declare dec.simps [simp del]

abbreviation CM_ROOT :: string where "CM_ROOT \<equiv> ''/cm''"
abbreviation CM_META :: string where "CM_META \<equiv> ''/cm/meta''"
abbreviation CM_POOL :: string where "CM_POOL \<equiv> ''/cm/pool''"

definition meta_path :: "string \<Rightarrow> string" where
  "meta_path kind = CM_META @ ''/'' @ kind"

definition pool_path :: "nat \<Rightarrow> string \<Rightarrow> string" where
  "pool_path p kind = CM_POOL @ ''/'' @ dec p @ ''/'' @ kind"

definition item_path :: "nat \<Rightarrow> string \<Rightarrow> string \<Rightarrow> string" where
  "item_path p kind name = pool_path p kind @ ''/'' @ name"

text \<open>\<open>sprintf_s\<close> fails when the path with its terminator does not fit.\<close>

definition at_path :: "string \<Rightarrow> 'r \<Rightarrow> (string \<Rightarrow> 'r) \<Rightarrow> 'r" where
  "at_path zkPath failed f = (if length zkPath \<ge> CM_ZNODE_PATH_LEN then failed else f zkPath)"

definition is_dec :: "char \<Rightarrow> bool" where
  "is_dec c \<longleftrightarrow> 48 \<le> (of_char c :: nat) \<and> (of_char c :: nat) \<le> 57"

fun atoi_loop :: "int \<Rightarrow> string \<Rightarrow> int" where
  "atoi_loop num [] = num"
| "atoi_loop num (c # str) =
     (if \<not> is_dec c then num
      else let d = of_char c - 48 in
        if num > INT32_MAX div 10 \<or> (num = INT32_MAX div 10 \<and> d > INT32_MAX mod 10) then - 1
        else atoi_loop (num * 10 + d) str)"

text \<open>\<open>None\<close> is a null pointer. \<open>CmClientZkAtoi\<close> is a copy of this function.\<close>

definition CmServerZkAtoi :: "string option \<Rightarrow> int" where
  "CmServerZkAtoi str = (case str of None \<Rightarrow> - 1 | Some [] \<Rightarrow> - 1 | Some s \<Rightarrow> atoi_loop 0 s)"

definition CmServerZkGetNodeIdByPath :: "string option \<Rightarrow> string option \<Rightarrow> nat" where
  "CmServerZkGetNodeIdByPath path pre =
     (case (path, pre) of
        (Some path, Some pre) \<Rightarrow>
          let preLen = min (length pre) CM_ZNODE_PATH_LEN; pathLen = min (length path) CM_ZNODE_PATH_LEN in
          if pathLen \<le> preLen then UINT16_MAX
          else if take preLen path \<noteq> take preLen pre then UINT16_MAX
          else let nodeId = CmServerZkAtoi (Some (drop preLen path)) in
            if nodeId < 0 \<or> nodeId > int MAX_NODE_NUM then UINT16_MAX else nat nodeId
      | _ \<Rightarrow> UINT16_MAX)"

section \<open>Structures in ZooKeeper\<close>

text \<open>\<open>NodeInfo\<close> with the fields that the server does not look at, and \<open>NodeStateInfo\<close> with the session.\<close>

record reg_info = node_info +
  nip :: string
  nport :: nat
  ntype :: disk_type

record zk_state = node_state +
  sessionId :: nat
  snode :: nat

record info_list =
  ilPool :: nat
  ilNum :: nat
  ilNodes :: "reg_info list"

record state_list =
  slPool :: nat
  slNum :: nat
  slMaster :: nat
  slNodes :: "zk_state list"

datatype event_type = CM_EVENT_NET | CM_EVENT_DISK | CM_EVENT_PT_FINISH | CM_EVENT_ADD_DISK

record node_event =
  eventType :: event_type
  epool :: nat
  enode :: nat

record pt_event =
  peventType :: event_type
  pepool :: nat
  penode :: nat
  pepts :: "pt_finish list"

record meta_buff =
  mrNode :: nat
  mrBuf :: string

datatype zval = Null | Id nat | Session nat | Info reg_info | Mr meta_buff | Nodes info_list | States state_list
  | Pts pt_list | NodeEv node_event | PtEv pt_event | Pool pool_cfg | Data string

section \<open>The calls of the library\<close>

record 'z zoo =
  ZooCreate :: "string \<Rightarrow> zval \<Rightarrow> bool \<Rightarrow> bool \<Rightarrow> 'z \<Rightarrow> int \<times> string \<times> 'z"
  ZooDelete :: "string \<Rightarrow> 'z \<Rightarrow> int \<times> unit \<times> 'z"
  ZooGet :: "string \<Rightarrow> 'z \<Rightarrow> int \<times> zval \<times> 'z"
  ZooExists :: "string \<Rightarrow> 'z \<Rightarrow> int \<times> unit \<times> 'z"
  ZooSet :: "string \<Rightarrow> zval \<Rightarrow> 'z \<Rightarrow> int \<times> unit \<times> 'z"
  ZooWget :: "string \<Rightarrow> 'z \<Rightarrow> int \<times> zval \<times> 'z"
  ZooWgetChildren :: "string \<Rightarrow> 'z \<Rightarrow> int \<times> string list \<times> 'z"

text \<open>
  A call is repeated until it has one of the results \<open>final\<close>, at most \<open>n\<close> times. The arguments of
  \<open>ZooCreate\<close> are the path, the value, and whether the znode is ephemeral and numbered.
\<close>

fun retry :: "nat \<Rightarrow> int set \<Rightarrow> ('z \<Rightarrow> int \<times> 'a \<times> 'z) \<Rightarrow> 'z \<Rightarrow> int \<times> 'a \<times> 'z" where
  "retry 0 final f z = f z"
| "retry (Suc n) final f z =
     (case f z of (ret, a, z') \<Rightarrow> if ret \<in> final \<or> n = 0 then (ret, a, z') else retry n final f z')"

abbreviation create_final :: "int set" where "create_final \<equiv> {ZOK, ZNODEEXISTS, ZSESSIONEXPIRED}"
abbreviation access_final :: "int set" where "access_final \<equiv> {ZOK, ZNONODE, ZSESSIONEXPIRED}"

definition CmZkCreate :: "'z zoo \<Rightarrow> string \<Rightarrow> zval \<Rightarrow> bool \<Rightarrow> bool \<Rightarrow> 'z \<Rightarrow> int \<times> string \<times> 'z" where
  "CmZkCreate zoo path v eph sequ = retry CM_ZK_MAX_TRY_NUM create_final (ZooCreate zoo path v eph sequ)"

definition CmZkDelete :: "'z zoo \<Rightarrow> string \<Rightarrow> 'z \<Rightarrow> int \<times> unit \<times> 'z" where
  "CmZkDelete zoo path = retry CM_ZK_MAX_TRY_NUM access_final (ZooDelete zoo path)"

definition CmZkGet :: "'z zoo \<Rightarrow> string \<Rightarrow> 'z \<Rightarrow> int \<times> zval \<times> 'z" where
  "CmZkGet zoo path = retry CM_ZK_MAX_TRY_NUM access_final (ZooGet zoo path)"

definition CmZkExists :: "'z zoo \<Rightarrow> string \<Rightarrow> 'z \<Rightarrow> int \<times> unit \<times> 'z" where
  "CmZkExists zoo path = retry CM_ZK_MAX_TRY_NUM access_final (ZooExists zoo path)"

definition CmZkSet :: "'z zoo \<Rightarrow> string \<Rightarrow> zval \<Rightarrow> 'z \<Rightarrow> int \<times> unit \<times> 'z" where
  "CmZkSet zoo path v = retry CM_ZK_MAX_TRY_NUM access_final (ZooSet zoo path v)"

definition CmZkWget :: "'z zoo \<Rightarrow> string \<Rightarrow> 'z \<Rightarrow> int \<times> zval \<times> 'z" where
  "CmZkWget zoo path = retry CM_ZK_MAX_TRY_NUM access_final (ZooWget zoo path)"

definition CmZkWgetChildren :: "'z zoo \<Rightarrow> string \<Rightarrow> 'z \<Rightarrow> int \<times> string list \<times> 'z" where
  "CmZkWgetChildren zoo path = retry CM_ZK_MAX_TRY_NUM access_final (ZooWgetChildren zoo path)"

section \<open>The directories\<close>

fun create_all :: "'z zoo \<Rightarrow> (string \<times> zval) list \<Rightarrow> 'z \<Rightarrow> int \<times> 'z" where
  "create_all zoo [] z = (CM_OK, z)"
| "create_all zoo ((path, v) # ps) z =
     at_path path (CM_ERR, z) (\<lambda>zkPath. case CmZkCreate zoo zkPath v False False z of
       (ret, _, z') \<Rightarrow> if ret \<noteq> ZOK \<and> ret \<noteq> ZNODEEXISTS then (CM_ERR, z') else create_all zoo ps z')"

definition andthen :: "int \<times> 'z \<Rightarrow> ('z \<Rightarrow> int \<times> 'z) \<Rightarrow> int \<times> 'z" where
  "andthen r f = (case r of (ret, z) \<Rightarrow> if ret \<noteq> CM_OK then (ret, z) else f z)"

definition CmZkCreateMetaDir :: "'z zoo \<Rightarrow> 'z \<Rightarrow> int \<times> 'z" where
  "CmZkCreateMetaDir zoo = create_all zoo
     [(CM_ROOT, Null), (CM_META, Null), (meta_path ''node'', Null), (meta_path ''ip'', Null),
      (meta_path ''nodeid_generator'', Null)]"

definition CmZkComparePoolDir :: "pool_cfg \<Rightarrow> pool_cfg \<Rightarrow> int" where
  "CmZkComparePoolDir pool rec =
     (if poolName pool \<noteq> poolName rec \<or> ppoolId pool \<noteq> ppoolId rec \<or> ptype pool \<noteq> ptype rec \<or>
         predundance pool \<noteq> predundance rec \<or> pinitialNodeNum pool \<noteq> pinitialNodeNum rec \<or>
         pmaxNodeNum pool \<noteq> pmaxNodeNum rec \<or> pmaxPtNum pool \<noteq> pmaxPtNum rec
      then CM_ERR else CM_OK)"

definition CmZkCheckPoolDir :: "'z zoo \<Rightarrow> pool_cfg \<Rightarrow> 'z \<Rightarrow> (int \<times> 'z) option" where
  "CmZkCheckPoolDir zoo pool z =
     (let zkPath = CM_POOL @ ''/'' @ dec (ppoolId pool) in
      case create_all zoo [(CM_POOL, Null), (zkPath, Pool pool)] z of
        (ret, z1) \<Rightarrow>
          if ret \<noteq> CM_OK then Some (ret, z1)
          else case CmZkGet zoo zkPath z1 of
            (ret, v, z2) \<Rightarrow>
              if ret \<noteq> ZOK then Some (CM_ERR, z2)
              else case v of Pool rec \<Rightarrow> Some (CmZkComparePoolDir pool rec, z2) | _ \<Rightarrow> None)"

text \<open>
  The list of partitions is first written without entries; \<open>mallocs\<close> tells whether memory is
  available. The copy numbers of the new list are not set, \<open>copies\<close> is what the memory holds.
\<close>

definition CmZkCreatePoolDir4 :: "'z zoo \<Rightarrow> bool \<Rightarrow> nat \<times> nat \<Rightarrow> pool_cfg \<Rightarrow> 'z \<Rightarrow> int \<times> 'z" where
  "CmZkCreatePoolDir4 zoo mallocOk copies pool z =
     andthen (create_all zoo [(pool_path (ppoolId pool) ''data_info'', Null)] z) (\<lambda>z1.
       if predundance pool = PT_NONE then (CM_OK, z1)
       else andthen (create_all zoo [(pool_path (ppoolId pool) ''pt_event'', Null)] z1) (\<lambda>z2.
         if \<not> mallocOk then (CM_ERR, z2)
         else create_all zoo [(pool_path (ppoolId pool) ''pt'',
           Pts \<lparr>poolId = ppoolId pool, ptNum = 0, maxCopyNum = fst copies, minCopyNum = snd copies, globalVersion = 0,
                changeVersion = 0, entries = []\<rparr>)] z2))"

definition zero_info :: reg_info where
  "zero_info = node_info.extend zero_node \<lparr>nip = [], nport = 0, ntype = DISK_TYPE_DRAM\<rparr>"

definition CmZkCreatePoolDir3 :: "'z zoo \<Rightarrow> bool \<times> bool \<Rightarrow> nat \<times> nat \<Rightarrow> pool_cfg \<Rightarrow> 'z \<Rightarrow> int \<times> 'z" where
  "CmZkCreatePoolDir3 zoo mallocs copies pool z =
     (if \<not> fst mallocs then (CM_ERR, z)
      else andthen (create_all zoo [(pool_path (ppoolId pool) ''node_list'',
             Nodes \<lparr>ilPool = ppoolId pool, ilNum = pmaxNodeNum pool, ilNodes = replicate (pmaxNodeNum pool) zero_info\<rparr>)] z)
        (CmZkCreatePoolDir4 zoo (snd mallocs) copies pool))"

text \<open>The session of a node is not set here: \<open>junk\<close> is what the memory holds.\<close>

definition fresh_state :: "nat \<Rightarrow> nat \<Rightarrow> zk_state" where
  "fresh_state sess n = node_state.extend zero_state \<lparr>sessionId = sess, snode = n\<rparr>"

definition CmZkCreatePoolDir2 ::
  "'z zoo \<Rightarrow> bool \<times> bool \<times> bool \<Rightarrow> (nat \<Rightarrow> nat) \<Rightarrow> nat \<times> nat \<Rightarrow> pool_cfg \<Rightarrow> 'z \<Rightarrow> int \<times> 'z" where
  "CmZkCreatePoolDir2 zoo mallocs junk copies pool z =
     (if \<not> fst mallocs then (CM_ERR, z)
      else andthen (create_all zoo [(pool_path (ppoolId pool) ''state'',
             States \<lparr>slPool = ppoolId pool, slNum = pmaxNodeNum pool, slMaster = NODE_ID_INVALID,
                     slNodes = map (\<lambda>n. fresh_state (junk n) n) [0..<pmaxNodeNum pool]\<rparr>)] z)
        (CmZkCreatePoolDir3 zoo (snd mallocs) copies pool))"

definition CmZkCreatePoolDir1 ::
  "'z zoo \<Rightarrow> bool \<times> bool \<times> bool \<Rightarrow> (nat \<Rightarrow> nat) \<Rightarrow> nat \<times> nat \<Rightarrow> pool_cfg \<Rightarrow> 'z \<Rightarrow> int \<times> 'z" where
  "CmZkCreatePoolDir1 zoo mallocs junk copies pool z =
     andthen (create_all zoo (map (\<lambda>kind. (pool_path (ppoolId pool) kind, Null))
         [''child'', ''mr'', ''node_event'', ''node_info'']) z)
       (CmZkCreatePoolDir2 zoo mallocs junk copies pool)"

definition CmZkCreatePoolDir ::
  "'z zoo \<Rightarrow> bool \<times> bool \<times> bool \<Rightarrow> (nat \<Rightarrow> nat) \<Rightarrow> nat \<times> nat \<Rightarrow> pool_cfg \<Rightarrow> 'z \<Rightarrow> int \<times> 'z" where
  "CmZkCreatePoolDir zoo mallocs junk copies pool z =
     andthen (create_all zoo (map (\<lambda>kind. (pool_path (ppoolId pool) kind, Null))
         [''ip'', ''node'', ''capacity'', ''nodeid_generator'']) z)
       (CmZkCreatePoolDir1 zoo mallocs junk copies pool)"

fun create_pool_dirs ::
  "'z zoo \<Rightarrow> bool \<times> bool \<times> bool \<Rightarrow> (nat \<Rightarrow> nat) \<Rightarrow> nat \<times> nat \<Rightarrow> pool_cfg option list \<Rightarrow> 'z \<Rightarrow> (int \<times> 'z) option" where
  "create_pool_dirs zoo mallocs junk copies [] z = Some (CM_OK, z)"
| "create_pool_dirs zoo mallocs junk copies (None # ps) z = create_pool_dirs zoo mallocs junk copies ps z"
| "create_pool_dirs zoo mallocs junk copies (Some pool # ps) z =
     (case CmZkCheckPoolDir zoo pool z of
        None \<Rightarrow> None
      | Some (ret, z1) \<Rightarrow>
          if ret \<noteq> CM_OK then Some (ret, z1)
          else case CmZkCreatePoolDir zoo mallocs junk copies pool z1 of
            (ret, z2) \<Rightarrow> if ret \<noteq> CM_OK then Some (ret, z2) else create_pool_dirs zoo mallocs junk copies ps z2)"

definition CmZkCreateDataPoolDir ::
  "'z zoo \<Rightarrow> bool \<times> bool \<times> bool \<Rightarrow> (nat \<Rightarrow> nat) \<Rightarrow> nat \<times> nat \<Rightarrow> cm_config \<Rightarrow> 'z \<Rightarrow> (int \<times> 'z) option" where
  "CmZkCreateDataPoolDir zoo mallocs junk copies c z =
     create_pool_dirs zoo mallocs junk copies (map (\<lambda>p. CmConfigGetPoolInfo p c) [0..<MAX_POOL_NUM]) z"

section \<open>The connection\<close>

text \<open>\<open>connected k\<close> is whether the library reports the connected state at the \<open>k\<close>-th query.\<close>

function wait_connected :: "(nat \<Rightarrow> bool) \<Rightarrow> nat \<Rightarrow> int" where
  "wait_connected connected cnt =
     (if connected (cnt div CM_ZK_TRY_INTERAL) then CM_OK
      else if cnt \<ge> CM_ZK_TRY_CONNECT_TIME then CM_ERR
      else wait_connected connected (cnt + CM_ZK_TRY_INTERAL))"
  by pat_completeness auto
termination by (relation "measure (\<lambda>(_, cnt). CM_ZK_TRY_CONNECT_TIME - cnt)") auto

declare wait_connected.simps [simp del]

definition CmZkConnect :: "bool \<Rightarrow> (nat \<Rightarrow> bool) \<Rightarrow> int" where
  "CmZkConnect initOk connected = (if \<not> initOk then CM_ERR else wait_connected connected 0)"

definition CmZkInit :: "int \<Rightarrow> int \<Rightarrow> 'z zoo \<Rightarrow> bool \<times> bool \<times> bool \<Rightarrow> (nat \<Rightarrow> nat) \<Rightarrow> nat \<times> nat \<Rightarrow> cm_config \<Rightarrow> 'z \<Rightarrow> (int \<times> 'z) option" where
  "CmZkInit load connect zoo mallocs junk copies c z =
     (if load \<noteq> 0 then Some (CM_ERR, z)
      else if connect \<noteq> CM_OK then Some (connect, z)
      else case CmZkCreateMetaDir zoo z of
        (ret, z1) \<Rightarrow> if ret \<noteq> CM_OK then Some (ret, z1) else CmZkCreateDataPoolDir zoo mallocs junk copies c z1)"

end
