(* ===== verification/CmZkServer.thy ===== *)
theory CmZkServer
  imports CmZk
begin

text \<open>
  The server side of the adapter of ZooKeeper, \<^verbatim>\<open>cluster/common/cm_zkadapter.c\<close>: the identity of
  the server and the election of the master, the lists of a pool, and the subscriptions to nodes
  and events. What the code hands to \<open>CmServerSchedueAdd\<close> is appended to \<open>stasks\<close>.
\<close>

datatype server_task = NodeListTask nat "nat list" | NodeEventTask nat "nat list" | PtEventTask nat "nat list"

text \<open>A callback is always the same function of the view; the flag says that it is registered.\<close>

record restore_s =
  spool :: "pool_cfg option"
  nodeChangeFp :: bool
  nodeIdle :: bool
  ptIdle :: bool
  nodeEventFp :: bool
  ptEventFp :: bool

record server_mgr =
  srole :: server_role
  localId :: nat
  masterId :: nat
  restore :: "restore_s list"
  roleChangeFp :: bool
  stasks :: "server_task list"

definition CmServerZkInitMgr :: "server_mgr \<Rightarrow> server_mgr" where
  "CmServerZkInitMgr m = m\<lparr>srole := CM_SERVER_SLAVE, localId := NODE_ID_INVALID, masterId := NODE_ID_INVALID,
     restore := replicate MAX_POOL_NUM \<lparr>spool = None, nodeChangeFp = False, nodeIdle = True, ptIdle = True,
       nodeEventFp = False, ptEventFp = False\<rparr>,
     roleChangeFp := False\<rparr>"

definition upd_pool :: "nat \<Rightarrow> (restore_s \<Rightarrow> restore_s) \<Rightarrow> server_mgr \<Rightarrow> server_mgr" where
  "upd_pool p f m = m\<lparr>restore := (restore m)[p := f (restore m ! p)]\<rparr>"

section \<open>The identity of the server\<close>

definition CmServerZkRecordMetaNodeId :: "'z zoo \<Rightarrow> string \<Rightarrow> server_mgr \<Rightarrow> 'z \<Rightarrow> int \<times> 'z" where
  "CmServerZkRecordMetaNodeId zoo ip m z =
     at_path (meta_path ''ip/'' @ ip) (CM_ERR, z) (\<lambda>zkPath.
       case CmZkCreate zoo zkPath (Id (localId m)) False False z of
         (ret, _, z') \<Rightarrow> (if ret \<noteq> ZOK then CM_ERR else CM_OK, z'))"

definition CmServerZkGenMetaNodeId :: "'z zoo \<Rightarrow> string \<Rightarrow> server_mgr \<Rightarrow> 'z \<Rightarrow> (int \<times> server_mgr \<times> 'z) option" where
  "CmServerZkGenMetaNodeId zoo ip m z =
     at_path (meta_path ''ip/'' @ ip) (Some (CM_ERR, m, z)) (\<lambda>zkPath.
       case CmZkGet zoo zkPath z of
         (ret, v, z1) \<Rightarrow>
           if ret = ZOK then (case v of Id nodeId \<Rightarrow> Some (CM_OK, m\<lparr>localId := nodeId\<rparr>, z1) | _ \<Rightarrow> None)
           else if ret \<noteq> ZNONODE then Some (CM_ERR, m, z1)
           else at_path (meta_path ''nodeid_generator/'') (Some (CM_ERR, m, z1)) (\<lambda>zkPathT.
             case CmZkCreate zoo zkPathT Null True True z1 of
               (ret, zkPathB, z2) \<Rightarrow>
                 if ret \<noteq> ZOK then Some (CM_ERR, m, z2)
                 else let m' = m\<lparr>localId := CmServerZkGetNodeIdByPath (Some zkPathB) (Some zkPathT)\<rparr> in
                   if localId m' = UINT16_MAX then Some (CM_ERR, m', z2)
                   else case CmZkDelete zoo zkPathB z2 of
                     (ret, _, z3) \<Rightarrow>
                       if ret \<noteq> CM_OK then Some (CM_ERR, m', z3)
                       else (case CmServerZkRecordMetaNodeId zoo ip m' z3 of (ret, z4) \<Rightarrow> Some (ret, m', z4))))"

text \<open>The loop that waits until the znode of an earlier run is gone, at most a minute.\<close>

function wait_gone :: "'z zoo \<Rightarrow> string \<Rightarrow> nat \<Rightarrow> 'z \<Rightarrow> int \<times> 'z" where
  "wait_gone zoo zkPath cnt z =
     (case CmZkExists zoo zkPath z of
        (ret, _, z') \<Rightarrow>
          if ret = ZNONODE then (CM_OK, z')
          else if cnt + CM_ZK_TRY_INTERAL < CM_ZK_NODE_DETECT_TIME then wait_gone zoo zkPath (cnt + CM_ZK_TRY_INTERAL) z'
          else (CM_ERR, z'))"
  by pat_completeness auto
termination by (relation "measure (\<lambda>(_, _, cnt, _). CM_ZK_NODE_DETECT_TIME - cnt)") auto

declare wait_gone.simps [simp del]

definition CmServerZkCheckMetaNodeExist :: "'z zoo \<Rightarrow> server_mgr \<Rightarrow> 'z \<Rightarrow> int \<times> 'z" where
  "CmServerZkCheckMetaNodeExist zoo m z =
     at_path (meta_path ''node/'' @ dec (localId m)) (CM_ERR, z) (\<lambda>zkPath. wait_gone zoo zkPath 0 z)"

definition CmServerZkRegisterMetaNode :: "'z zoo \<Rightarrow> string \<Rightarrow> server_mgr \<Rightarrow> 'z \<Rightarrow> (int \<times> server_mgr \<times> 'z) option" where
  "CmServerZkRegisterMetaNode zoo ip m z =
     (case CmServerZkGenMetaNodeId zoo ip m z of
        None \<Rightarrow> None
      | Some (ret, m', z1) \<Rightarrow>
          if ret \<noteq> CM_OK then Some (ret, m', z1)
          else case CmServerZkCheckMetaNodeExist zoo m' z1 of (ret, z2) \<Rightarrow> Some (ret, m', z2))"

definition CmServerZkRecordMetaSession :: "'z zoo \<Rightarrow> server_mgr \<Rightarrow> 'z \<Rightarrow> int \<times> 'z" where
  "CmServerZkRecordMetaSession zoo m z =
     at_path (meta_path ''node/'' @ dec (localId m)) (CM_ERR, z) (\<lambda>zkPath.
       case CmZkCreate zoo zkPath (Id (localId m)) True False z of
         (ret, _, z') \<Rightarrow> (if ret \<noteq> ZOK then CM_ERR else CM_OK, z'))"

section \<open>The election\<close>

text \<open>The role that is passed to the callback, if any, is the third result.\<close>

definition CmServerZkSubRoleChange ::
  "'z zoo \<Rightarrow> server_mgr \<Rightarrow> 'z \<Rightarrow> (int \<times> server_mgr \<times> server_role option \<times> 'z) option" where
  "CmServerZkSubRoleChange zoo m z =
     at_path (meta_path ''master'') (Some (CM_ERR, m, None, z)) (\<lambda>zkPath.
       case CmZkCreate zoo zkPath (Id (localId m)) True False z of
         (ret, _, z1) \<Rightarrow>
           if ret \<noteq> ZOK \<and> ret \<noteq> ZNODEEXISTS then Some (CM_ERR, m, None, z1)
           else let m1 = m\<lparr>roleChangeFp := True\<rparr> in
             case CmZkWget zoo zkPath z1 of
               (ret, v, z2) \<Rightarrow>
                 if ret \<noteq> ZOK then Some (CM_ERR, m1, None, z2)
                 else case v of
                   Id i \<Rightarrow>
                     let role = (if localId m1 = i then CM_SERVER_MASTER else CM_SERVER_SLAVE) in
                     Some (CM_OK, m1\<lparr>masterId := i, srole := role\<rparr>, Some role, z2)
                 | _ \<Rightarrow> None)"

datatype zoo_event = ZOO_CREATED_EVENT | ZOO_DELETED_EVENT | ZOO_CHANGED_EVENT | ZOO_CHILD_EVENT | ZOO_SESSION_EVENT

definition CmServerZkRoleWatchFunc ::
  "'z zoo \<Rightarrow> zoo_event \<Rightarrow> server_mgr \<Rightarrow> 'z \<Rightarrow> (int \<times> server_mgr \<times> server_role option \<times> 'z) option" where
  "CmServerZkRoleWatchFunc zoo evtype m z =
     (if evtype = ZOO_DELETED_EVENT then CmServerZkSubRoleChange zoo m z else Some (CM_OK, m, None, z))"

section \<open>The lists of a pool\<close>

definition set_znode :: "'z zoo \<Rightarrow> string \<Rightarrow> zval \<Rightarrow> 'z \<Rightarrow> int \<times> 'z" where
  "set_znode zoo path v z =
     at_path path (CM_ERR, z) (\<lambda>zkPath.
       case CmZkSet zoo zkPath v z of (ret, _, z') \<Rightarrow> (if ret \<noteq> ZOK then CM_ERR else CM_OK, z'))"

text \<open>The counted part of the array is written; it has to be there.\<close>

definition CmServerZkRecordPtEntryList :: "'z zoo \<Rightarrow> pt_list \<Rightarrow> 'z \<Rightarrow> (int \<times> 'z) option" where
  "CmServerZkRecordPtEntryList zoo l z =
     at_path (pool_path (poolId l) ''pt'') (Some (CM_ERR, z)) (\<lambda>zkPath.
       if ptNum l > length (entries l) then None
       else case CmZkSet zoo zkPath (Pts (l\<lparr>entries := take (ptNum l) (entries l)\<rparr>)) z of
         (ret, _, z') \<Rightarrow> Some (if ret \<noteq> ZOK \<and> ret \<noteq> ZNODEEXISTS then CM_ERR else CM_OK, z'))"

definition CmServerZkRecordNodeList :: "'z zoo \<Rightarrow> info_list \<Rightarrow> 'z \<Rightarrow> (int \<times> 'z) option" where
  "CmServerZkRecordNodeList zoo l z =
     (if ilNum l > length (ilNodes l) then None
      else Some (set_znode zoo (pool_path (ilPool l) ''node_list'') (Nodes (l\<lparr>ilNodes := take (ilNum l) (ilNodes l)\<rparr>)) z))"

definition CmServerZkRecordStateList :: "'z zoo \<Rightarrow> state_list \<Rightarrow> 'z \<Rightarrow> (int \<times> 'z) option" where
  "CmServerZkRecordStateList zoo l z =
     (if slNum l > length (slNodes l) then None
      else Some (set_znode zoo (pool_path (slPool l) ''state'') (States (l\<lparr>slNodes := take (slNum l) (slNodes l)\<rparr>)) z))"

text \<open>
  Reading into a structure with an array: at most \<open>cap\<close> elements are replaced, the others stay.
\<close>

definition overlay :: "nat \<Rightarrow> 'a list \<Rightarrow> 'a list \<Rightarrow> 'a list" where
  "overlay cap new old = take cap new @ drop (length (take cap new)) old"

definition CmServerZkGetNodeList :: "'z zoo \<Rightarrow> info_list \<Rightarrow> 'z \<Rightarrow> (int \<times> info_list \<times> 'z) option" where
  "CmServerZkGetNodeList zoo l z =
     at_path (pool_path (ilPool l) ''node_list'') (Some (CM_ERR, l, z)) (\<lambda>zkPath.
       case CmZkGet zoo zkPath z of
         (ret, v, z') \<Rightarrow>
           if ret \<noteq> ZOK then Some (CM_ERR, l, z')
           else case v of Nodes r \<Rightarrow> Some (CM_OK, r\<lparr>ilNodes := overlay (ilNum l) (ilNodes r) (ilNodes l)\<rparr>, z') | _ \<Rightarrow> None)"

definition CmServerZkGetStateList :: "'z zoo \<Rightarrow> state_list \<Rightarrow> 'z \<Rightarrow> (int \<times> state_list \<times> 'z) option" where
  "CmServerZkGetStateList zoo l z =
     at_path (pool_path (slPool l) ''state'') (Some (CM_ERR, l, z)) (\<lambda>zkPath.
       case CmZkGet zoo zkPath z of
         (ret, v, z') \<Rightarrow>
           if ret \<noteq> ZOK then Some (CM_ERR, l, z')
           else case v of States r \<Rightarrow> Some (CM_OK, r\<lparr>slNodes := overlay (slNum l) (slNodes r) (slNodes l)\<rparr>, z') | _ \<Rightarrow> None)"

definition CmServerZkGetPtEntryList :: "'z zoo \<Rightarrow> pt_list \<Rightarrow> 'z \<Rightarrow> (int \<times> pt_list \<times> 'z) option" where
  "CmServerZkGetPtEntryList zoo l z =
     at_path (pool_path (poolId l) ''pt'') (Some (CM_ERR, l, z)) (\<lambda>zkPath.
       case CmZkGet zoo zkPath z of
         (ret, v, z') \<Rightarrow>
           if ret \<noteq> ZOK then Some (CM_ERR, l, z')
           else case v of Pts r \<Rightarrow> Some (CM_OK, r\<lparr>entries := overlay (ptNum l) (entries r) (entries l)\<rparr>, z') | _ \<Rightarrow> None)"

definition CmServerZkGetNodeInfo :: "'z zoo \<Rightarrow> nat \<Rightarrow> reg_info \<Rightarrow> 'z \<Rightarrow> (int \<times> reg_info \<times> 'z) option" where
  "CmServerZkGetNodeInfo zoo p info z =
     at_path (item_path p ''node_info'' (dec (nid info))) (Some (CM_ERR, info, z)) (\<lambda>zkPath.
       case CmZkGet zoo zkPath z of
         (ret, v, z') \<Rightarrow>
           if ret \<noteq> ZOK then Some (CM_ERR, info, z')
           else case v of Info i \<Rightarrow> Some (CM_OK, i, z') | _ \<Rightarrow> None)"

section \<open>Subscriptions\<close>

text \<open>The names of the children as 16-bit numbers; \<open>None\<close> if one of them is too big.\<close>

fun child_ids :: "string list \<Rightarrow> nat list option" where
  "child_ids [] = Some []"
| "child_ids (s # ss) =
     (let n = nat (CmServerZkAtoi (Some s) mod 2 ^ 16) in
      if n > MAX_NODE_NUM then None else map_option ((#) n) (child_ids ss))"

definition CmServerZkSubNodeListChange ::
  "'z zoo \<Rightarrow> bool \<Rightarrow> nat \<Rightarrow> server_mgr \<Rightarrow> 'z \<Rightarrow> int \<times> server_mgr \<times> 'z" where
  "CmServerZkSubNodeListChange zoo mallocOk p m z =
     (if srole m \<noteq> CM_SERVER_MASTER then (CM_OK, m, z)
      else let m1 = upd_pool p (\<lambda>r. r\<lparr>nodeChangeFp := True\<rparr>) m in
        at_path (pool_path p ''node'') (CM_ERR, m1, z) (\<lambda>zkPath.
          case CmZkWgetChildren zoo zkPath z of
            (ret, strings, z') \<Rightarrow>
              if ret \<noteq> ZOK \<or> \<not> mallocOk then (CM_ERR, m1, z')
              else case child_ids (take (length strings mod 2 ^ 16) strings) of
                None \<Rightarrow> (CM_ERR, m1, z')
              | Some ids \<Rightarrow> (CM_OK, m1\<lparr>stasks := stasks m1 @ [NodeListTask p ids]\<rparr>, z')))"

definition CmServerZkSubNodeListWatch ::
  "'z zoo \<Rightarrow> bool \<Rightarrow> zoo_event \<Rightarrow> nat \<Rightarrow> server_mgr \<Rightarrow> 'z \<Rightarrow> int \<times> server_mgr \<times> 'z" where
  "CmServerZkSubNodeListWatch zoo mallocOk evtype p m z =
     (if evtype = ZOO_CHILD_EVENT then CmServerZkSubNodeListChange zoo mallocOk p m z else (CM_OK, m, z))"

definition CmServerZkSubNodeEvent ::
  "'z zoo \<Rightarrow> bool \<Rightarrow> nat \<Rightarrow> server_mgr \<Rightarrow> 'z \<Rightarrow> int \<times> server_mgr \<times> 'z" where
  "CmServerZkSubNodeEvent zoo mallocOk p m z =
     (if srole m \<noteq> CM_SERVER_MASTER then (CM_OK, m, z)
      else let m1 = upd_pool p (\<lambda>r. r\<lparr>nodeEventFp := True\<rparr>) m in
        at_path (pool_path p ''node_event'') (CM_ERR, m1, z) (\<lambda>zkPath.
          case CmZkWgetChildren zoo zkPath z of
            (ret, strings, z') \<Rightarrow>
              if ret \<noteq> ZOK then (CM_ERR, m1, z')
              else if strings = [] then (CM_OK, m1, z')
              else let m2 = upd_pool p (\<lambda>r. r\<lparr>nodeIdle := False\<rparr>) m1 in
                if \<not> mallocOk then (CM_ERR, m2, z')
                else case child_ids (take (length strings mod 2 ^ 16) strings) of
                  None \<Rightarrow> (CM_ERR, m2, z')
                | Some ids \<Rightarrow> (CM_OK, m2\<lparr>stasks := stasks m2 @ [NodeEventTask p ids]\<rparr>, z')))"

definition CmServerZkSubNodeEventWatch ::
  "'z zoo \<Rightarrow> bool \<Rightarrow> zoo_event \<Rightarrow> nat \<Rightarrow> server_mgr \<Rightarrow> 'z \<Rightarrow> int \<times> server_mgr \<times> 'z" where
  "CmServerZkSubNodeEventWatch zoo mallocOk evtype p m z =
     (if evtype = ZOO_CHILD_EVENT \<and> nodeIdle (restore m ! p) then CmServerZkSubNodeEvent zoo mallocOk p m z
      else (CM_OK, m, z))"

definition CmServerZkSubPtEvent ::
  "'z zoo \<Rightarrow> bool \<Rightarrow> nat \<Rightarrow> server_mgr \<Rightarrow> 'z \<Rightarrow> (int \<times> server_mgr \<times> 'z) option" where
  "CmServerZkSubPtEvent zoo mallocOk p m z =
     (if srole m \<noteq> CM_SERVER_MASTER then Some (CM_OK, m, z)
      else case spool (restore m ! p) of
        None \<Rightarrow> None
      | Some pool \<Rightarrow>
          if predundance pool = PT_NONE then Some (CM_OK, m, z)
          else let m1 = upd_pool p (\<lambda>r. r\<lparr>ptEventFp := True\<rparr>) m in
            at_path (pool_path p ''pt_event'') (Some (CM_ERR, m1, z)) (\<lambda>zkPath.
              case CmZkWgetChildren zoo zkPath z of
                (ret, strings, z') \<Rightarrow>
                  if ret \<noteq> ZOK then Some (CM_ERR, m1, z')
                  else if strings = [] then Some (CM_OK, m1, z')
                  else let m2 = upd_pool p (\<lambda>r. r\<lparr>ptIdle := False\<rparr>) m1 in
                    if \<not> mallocOk then Some (CM_ERR, m2, z')
                    else case child_ids (take (length strings mod 2 ^ 16) strings) of
                      None \<Rightarrow> Some (CM_ERR, m2, z')
                    | Some ids \<Rightarrow> Some (CM_OK, m2\<lparr>stasks := stasks m2 @ [PtEventTask p ids]\<rparr>, z')))"

definition CmServerZkSubPtEventWatch ::
  "'z zoo \<Rightarrow> bool \<Rightarrow> zoo_event \<Rightarrow> nat \<Rightarrow> server_mgr \<Rightarrow> 'z \<Rightarrow> (int \<times> server_mgr \<times> 'z) option" where
  "CmServerZkSubPtEventWatch zoo mallocOk evtype p m z =
     (if evtype = ZOO_CHILD_EVENT \<and> ptIdle (restore m ! p) then CmServerZkSubPtEvent zoo mallocOk p m z
      else Some (CM_OK, m, z))"

section \<open>Events\<close>

definition CmServerZkGetNodeEvent :: "'z zoo \<Rightarrow> nat \<Rightarrow> nat \<Rightarrow> 'z \<Rightarrow> (int \<times> node_event option \<times> 'z) option" where
  "CmServerZkGetNodeEvent zoo p n z =
     at_path (item_path p ''node_event'' (dec n)) (Some (CM_ERR, None, z)) (\<lambda>zkPath.
       case CmZkGet zoo zkPath z of
         (ret, v, z') \<Rightarrow>
           if ret = ZNONODE then Some (CM_NOT_EXIST, None, z')
           else if ret \<noteq> ZOK then Some (CM_ERR, None, z')
           else case v of
             NodeEv e \<Rightarrow> Some (if epool e > MAX_POOL_NUM then CM_ERR else CM_OK, Some e, z')
           | _ \<Rightarrow> None)"

definition delete_znode :: "'z zoo \<Rightarrow> string \<Rightarrow> 'z \<Rightarrow> int \<times> 'z" where
  "delete_znode zoo path z =
     at_path path (CM_ERR, z) (\<lambda>zkPath.
       case CmZkDelete zoo zkPath z of (ret, _, z') \<Rightarrow> (if ret \<noteq> ZOK \<and> ret \<noteq> ZNONODE then CM_ERR else CM_OK, z'))"

definition CmServerZkDeleteNodeEvent :: "'z zoo \<Rightarrow> nat \<Rightarrow> nat \<Rightarrow> 'z \<Rightarrow> int \<times> 'z" where
  "CmServerZkDeleteNodeEvent zoo p n z = delete_znode zoo (item_path p ''node_event'' (dec n)) z"

text \<open>
  The events of the nodes, one after the other: read, handled, deleted. False means that the loop was
  left early. \<open>handle\<close> is \<open>CmServerViewNodeEvent\<close>, which acts on the view \<open>'s\<close> and on ZooKeeper.
\<close>

fun node_events ::
  "'z zoo \<Rightarrow> (node_event \<Rightarrow> 's \<Rightarrow> 'z \<Rightarrow> (int \<times> 's \<times> 'z) option) \<Rightarrow> nat \<Rightarrow> nat list \<Rightarrow> 's \<Rightarrow> 'z \<Rightarrow> (bool \<times> 's \<times> 'z) option" where
  "node_events zoo handle p [] s z = Some (True, s, z)"
| "node_events zoo handle p (n # ns) s z =
     (case CmServerZkGetNodeEvent zoo p n z of
        None \<Rightarrow> None
      | Some (ret, ev, z1) \<Rightarrow>
          if ret \<noteq> CM_OK then Some (False, s, z1)
          else case handle (the ev) s z1 of
            None \<Rightarrow> None
          | Some (ret, s', z2) \<Rightarrow>
              if ret \<noteq> CM_OK then Some (False, s', z2)
              else case CmServerZkDeleteNodeEvent zoo (epool (the ev)) (enode (the ev)) z2 of
                (ret, z3) \<Rightarrow> if ret \<noteq> CM_OK then Some (False, s', z3) else node_events zoo handle p ns s' z3)"

definition CmServerZkSubNodeEventHandle ::
  "'z zoo \<Rightarrow> bool \<Rightarrow> (node_event \<Rightarrow> 's \<Rightarrow> 'z \<Rightarrow> (int \<times> 's \<times> 'z) option) \<Rightarrow> nat \<Rightarrow> nat list \<Rightarrow> server_mgr \<Rightarrow> 's \<Rightarrow> 'z \<Rightarrow>
     (server_mgr \<times> 's \<times> 'z) option" where
  "CmServerZkSubNodeEventHandle zoo mallocOk handle p ids m s z =
     (case node_events zoo handle p ids s z of
        None \<Rightarrow> None
      | Some (finished, s', z') \<Rightarrow>
          if \<not> finished then Some (m, s', z')
          else case CmServerZkSubNodeEvent zoo mallocOk p (upd_pool p (\<lambda>r. r\<lparr>nodeIdle := True\<rparr>) m) z' of
            (_, m', z'') \<Rightarrow> Some (m', s', z''))"

definition CmServerZkGetPtEvent :: "'z zoo \<Rightarrow> nat \<Rightarrow> nat \<Rightarrow> 'z \<Rightarrow> (int \<times> pt_event option \<times> 'z) option" where
  "CmServerZkGetPtEvent zoo p n z =
     at_path (item_path p ''pt_event'' (dec n)) (Some (CM_ERR, None, z)) (\<lambda>zkPath.
       case CmZkGet zoo zkPath z of
         (ret, v, z') \<Rightarrow>
           if ret = ZNONODE then Some (CM_NOT_EXIST, None, z')
           else if ret \<noteq> ZOK then Some (CM_ERR, None, z')
           else case v of
             PtEv e \<Rightarrow> Some (if pepool e > MAX_POOL_NUM then CM_ERR else CM_OK, Some e, z')
           | _ \<Rightarrow> None)"

definition CmServerZkDeletePtEvent :: "'z zoo \<Rightarrow> nat \<Rightarrow> nat \<Rightarrow> 'z \<Rightarrow> int \<times> 'z" where
  "CmServerZkDeletePtEvent zoo p n z = delete_znode zoo (item_path p ''pt_event'' (dec n)) z"

text \<open>The reports are handed to the view first, then the view commits, then they are deleted.\<close>

fun pt_events ::
  "'z zoo \<Rightarrow> (pt_event \<Rightarrow> 's \<Rightarrow> 's option) \<Rightarrow> nat \<Rightarrow> nat list \<Rightarrow> 's \<Rightarrow> 'z \<Rightarrow> (bool \<times> 's \<times> 'z) option" where
  "pt_events zoo report p [] s z = Some (True, s, z)"
| "pt_events zoo report p (n # ns) s z =
     (case CmServerZkGetPtEvent zoo p n z of
        None \<Rightarrow> None
      | Some (ret, ev, z1) \<Rightarrow>
          if ret \<noteq> CM_OK then Some (False, s, z1)
          else case report (the ev) s of None \<Rightarrow> None | Some s' \<Rightarrow> pt_events zoo report p ns s' z1)"

fun delete_pt_events :: "'z zoo \<Rightarrow> nat \<Rightarrow> nat list \<Rightarrow> 'z \<Rightarrow> bool \<times> 'z" where
  "delete_pt_events zoo p [] z = (True, z)"
| "delete_pt_events zoo p (n # ns) z =
     (case CmServerZkDeletePtEvent zoo p n z of (ret, z') \<Rightarrow> if ret \<noteq> CM_OK then (False, z') else delete_pt_events zoo p ns z')"

definition CmServerZkSubPtEventHandle ::
  "'z zoo \<Rightarrow> bool \<Rightarrow> bool \<Rightarrow> (pt_event \<Rightarrow> 's \<Rightarrow> 's option) \<Rightarrow> ('s \<Rightarrow> 'z \<Rightarrow> (int \<times> 's \<times> 'z) option) \<Rightarrow> nat \<Rightarrow> nat list \<Rightarrow>
     server_mgr \<Rightarrow> 's \<Rightarrow> 'z \<Rightarrow> (server_mgr \<times> 's \<times> 'z) option" where
  "CmServerZkSubPtEventHandle zoo mallocEvent mallocOk report commit p ids m s z =
     (if \<not> mallocEvent then Some (m, s, z)
      else case pt_events zoo report p ids s z of
        None \<Rightarrow> None
      | Some (finished, s1, z1) \<Rightarrow>
          if \<not> finished then Some (m, s1, z1)
          else case commit s1 z1 of
            None \<Rightarrow> None
          | Some (ret, s2, z2) \<Rightarrow>
              if ret \<noteq> CM_OK then Some (m, s2, z2)
              else case delete_pt_events zoo p ids z2 of
                (deleted, z3) \<Rightarrow>
                  if \<not> deleted then Some (m, s2, z3)
                  else map_option (\<lambda>(_, m', z'). (m', s2, z'))
                    (CmServerZkSubPtEvent zoo mallocOk p (upd_pool p (\<lambda>r. r\<lparr>ptIdle := True\<rparr>) m) z3))"

section \<open>Start and new sessions\<close>

definition CmServerZkCreatePool :: "cm_config \<Rightarrow> server_mgr \<Rightarrow> server_mgr" where
  "CmServerZkCreatePool c m =
     m\<lparr>restore := map (\<lambda>p. case CmConfigGetPoolInfo p c of None \<Rightarrow> restore m ! p | Some pool \<Rightarrow> (restore m ! p)\<lparr>spool := Some pool\<rparr>)
        [0..<length (restore m)]\<rparr>"

definition CmServerZkInit :: "'z zoo \<Rightarrow> cm_config \<Rightarrow> server_mgr \<Rightarrow> 'z \<Rightarrow> (int \<times> server_mgr \<times> 'z) option" where
  "CmServerZkInit zoo c m z =
     (case CmServerZkRegisterMetaNode zoo (cip c) (CmServerZkInitMgr m) z of
        None \<Rightarrow> None
      | Some (ret, m1, z1) \<Rightarrow>
          if ret \<noteq> CM_OK then Some (ret, m1, z1)
          else case CmServerZkRecordMetaSession zoo m1 z1 of
            (ret, z2) \<Rightarrow> if ret \<noteq> CM_OK then Some (ret, m1, z2) else Some (CM_OK, CmServerZkCreatePool c m1, z2))"

text \<open>The callback that was registered before is called again; if there is none this is a call through a null pointer.\<close>

definition CmZkServerRestore :: "'z zoo \<Rightarrow> server_mgr \<Rightarrow> 'z \<Rightarrow> (server_mgr \<times> server_role option \<times> 'z) option" where
  "CmZkServerRestore zoo m z =
     (case CmServerZkRecordMetaSession zoo m z of
        (_, z1) \<Rightarrow>
          (case CmServerZkSubRoleChange zoo m z1 of
             None \<Rightarrow> None
           | Some (_, m', r, z') \<Rightarrow>
               if r \<noteq> None \<and> \<not> roleChangeFp m then None else Some (m'\<lparr>roleChangeFp := roleChangeFp m\<rparr>, r, z')))"

text \<open>When the session has expired the master gives up its role before the connection is set up again.\<close>

definition expired_role :: "cm_config \<Rightarrow> server_mgr \<Rightarrow> server_mgr \<times> server_role option" where
  "expired_role c m =
     (if CmConfigHasCfgPoolS c \<and> srole m = CM_SERVER_MASTER
      then (m\<lparr>srole := CM_SERVER_SLAVE\<rparr>, if roleChangeFp m then Some CM_SERVER_SLAVE else None)
      else (m, None))"

text \<open>
  The loop of \<open>CmZkRestore\<close> goes on until the connection is there; \<open>reconnect\<close> closes the old one
  and connects. \<open>None\<close> is a loop that does not end.
\<close>

partial_function (option) reconnect_loop :: "('z \<Rightarrow> int \<times> 'z) \<Rightarrow> 'z \<Rightarrow> 'z option" where
  "reconnect_loop reconnect z =
     (case reconnect z of (ret, z') \<Rightarrow> if ret \<noteq> CM_OK then reconnect_loop reconnect z' else Some z')"

end
