(* ===== verification/CmZkClient.thy ===== *)
theory CmZkClient
  imports CmZkServer
begin

text \<open>
  The client side of the adapter of ZooKeeper, \<^verbatim>\<open>cluster/common/cm_zkadapter.c\<close>: the registration of
  a node, its events, and the copies of the lists of a pool that a client keeps and compares with
  what it reads.

  Memory that was allocated and not written has the contents of the arguments \<open>junk\<close>.
\<close>

section \<open>Writing and reading znodes\<close>

text \<open>Create the znode if it is missing, set it otherwise; four functions have this body.\<close>

definition put_znode :: "'z zoo \<Rightarrow> string \<Rightarrow> zval \<Rightarrow> 'z \<Rightarrow> int \<times> 'z" where
  "put_znode zoo path v z =
     at_path path (CM_ERR, z) (\<lambda>zkPath.
       case CmZkExists zoo zkPath z of
         (ret, _, z1) \<Rightarrow>
           if ret = ZNONODE
           then (case CmZkCreate zoo zkPath v False False z1 of (ret, _, z2) \<Rightarrow> (if ret \<noteq> ZOK then CM_ERR else CM_OK, z2))
           else if ret \<noteq> ZOK then (CM_ERR, z1)
           else (case CmZkSet zoo zkPath v z1 of (ret, _, z2) \<Rightarrow> (if ret \<noteq> ZOK then CM_ERR else CM_OK, z2)))"

definition ip_path :: "nat \<Rightarrow> string \<Rightarrow> nat \<Rightarrow> string" where
  "ip_path p ip port = item_path p ''ip'' (ip @ '':'' @ dec port)"

text \<open>The variable for the id is written by the library only when the znode is read.\<close>

definition CmClientZkGetNodeId :: "'z zoo \<Rightarrow> nat \<Rightarrow> string \<Rightarrow> nat \<Rightarrow> 'z \<Rightarrow> (int \<times> nat option \<times> 'z) option" where
  "CmClientZkGetNodeId zoo p ip port z =
     at_path (ip_path p ip port) (Some (CM_ERR, None, z)) (\<lambda>zkPath.
       case CmZkGet zoo zkPath z of
         (ret, v, z') \<Rightarrow>
           if ret = ZNONODE then Some (CM_NOT_EXIST, None, z')
           else if ret \<noteq> ZOK then Some (CM_ERR, None, z')
           else case v of Id n \<Rightarrow> Some (if n > MAX_NODE_NUM then CM_ERR else CM_OK, Some n, z') | _ \<Rightarrow> None)"

definition CmClientZkRecordNodeInfo :: "'z zoo \<Rightarrow> nat \<Rightarrow> reg_info \<Rightarrow> 'z \<Rightarrow> int \<times> 'z" where
  "CmClientZkRecordNodeInfo zoo p info z = put_znode zoo (item_path p ''node_info'' (dec (nid info))) (Info info) z"

definition CmClientZkRecordNodeId :: "'z zoo \<Rightarrow> nat \<Rightarrow> reg_info \<Rightarrow> 'z \<Rightarrow> int \<times> 'z" where
  "CmClientZkRecordNodeId zoo p info z = put_znode zoo (ip_path p (nip info) (nport info)) (Id (nid info)) z"

definition CmClientZkGetNodeIdByPath :: "string option \<Rightarrow> string option \<Rightarrow> nat" where
  "CmClientZkGetNodeIdByPath = CmServerZkGetNodeIdByPath"

text \<open>A node that is known keeps its id; a new one gets the number of a znode that ZooKeeper numbers.\<close>

definition CmClientZkGenNodeId :: "'z zoo \<Rightarrow> nat \<Rightarrow> reg_info \<Rightarrow> 'z \<Rightarrow> (int \<times> reg_info \<times> 'z) option" where
  "CmClientZkGenNodeId zoo p info z =
     at_path (ip_path p (nip info) (nport info)) (Some (CM_ERR, info, z)) (\<lambda>zkPath.
       case CmZkGet zoo zkPath z of
         (ret, v, z1) \<Rightarrow>
           if ret = ZOK
           then (case v of
                   Id n \<Rightarrow> (case CmClientZkRecordNodeId zoo p (info\<lparr>nid := n\<rparr>) z1 of (ret, z2) \<Rightarrow> Some (ret, info\<lparr>nid := n\<rparr>, z2))
                 | _ \<Rightarrow> None)
           else if ret \<noteq> ZNONODE then Some (CM_ERR, info, z1)
           else at_path (pool_path p ''nodeid_generator/'') (Some (CM_ERR, info, z1)) (\<lambda>zkPathT.
             case CmZkCreate zoo zkPathT Null True True z1 of
               (ret, zkPathB, z2) \<Rightarrow>
                 if ret \<noteq> ZOK then Some (CM_ERR, info, z2)
                 else let info' = info\<lparr>nid := CmClientZkGetNodeIdByPath (Some zkPathB) (Some zkPathT)\<rparr> in
                   if nid info' = UINT16_MAX then Some (CM_ERR, info', z2)
                   else case CmZkDelete zoo zkPathB z2 of
                     (ret, _, z3) \<Rightarrow>
                       if ret \<noteq> CM_OK then Some (CM_ERR, info', z3)
                       else (case CmClientZkRecordNodeId zoo p info' z3 of (ret, z4) \<Rightarrow> Some (ret, info', z4))))"

definition CmClientZkCheckNodeIdExist :: "'z zoo \<Rightarrow> nat \<Rightarrow> nat \<Rightarrow> 'z \<Rightarrow> int \<times> 'z" where
  "CmClientZkCheckNodeIdExist zoo p n z =
     at_path (item_path p ''node'' (dec n)) (CM_ERR, z) (\<lambda>zkPath. wait_gone zoo zkPath 0 z)"

definition CmClientZkRecordMr :: "'z zoo \<Rightarrow> nat \<Rightarrow> meta_buff \<Rightarrow> 'z \<Rightarrow> int \<times> 'z" where
  "CmClientZkRecordMr zoo p mr z = put_znode zoo (item_path p ''mr'' (dec (mrNode mr))) (Mr mr) z"

definition CmClientZkGetNodeSession :: "'z zoo \<Rightarrow> nat \<Rightarrow> nat \<Rightarrow> 'z \<Rightarrow> (int \<times> nat option \<times> 'z) option" where
  "CmClientZkGetNodeSession zoo p n z =
     at_path (item_path p ''node'' (dec n)) (Some (CM_ERR, None, z)) (\<lambda>zkPath.
       case CmZkGet zoo zkPath z of
         (ret, v, z') \<Rightarrow>
           if ret \<noteq> ZOK then Some (CM_ERR, None, z')
           else case v of Session s \<Rightarrow> Some (CM_OK, Some s, z') | _ \<Rightarrow> None)"

definition CmClientZkGetMr :: "'z zoo \<Rightarrow> nat \<Rightarrow> meta_buff \<Rightarrow> 'z \<Rightarrow> (int \<times> meta_buff \<times> 'z) option" where
  "CmClientZkGetMr zoo p mr z =
     at_path (item_path p ''mr'' (dec (mrNode mr))) (Some (CM_ERR, mr, z)) (\<lambda>zkPath.
       case CmZkGet zoo zkPath z of
         (ret, v, z') \<Rightarrow>
           if ret \<noteq> ZOK then Some (CM_ERR, mr, z')
           else case v of Mr m \<Rightarrow> Some (CM_OK, m, z') | _ \<Rightarrow> None)"

definition CmClientZkGetNodeInfo :: "'z zoo \<Rightarrow> nat \<Rightarrow> reg_info \<Rightarrow> 'z \<Rightarrow> (int \<times> reg_info \<times> 'z) option" where
  "CmClientZkGetNodeInfo zoo p info z =
     at_path (item_path p ''node_info'' (dec (nid info))) (Some (CM_ERR, info, z)) (\<lambda>zkPath.
       case CmZkGet zoo zkPath z of
         (ret, v, z') \<Rightarrow>
           if ret = ZNONODE then Some (CM_NOT_EXIST, info, z')
           else if ret \<noteq> ZOK then Some (CM_ERR, info, z')
           else case v of
             Info i \<Rightarrow>
               Some (if length (ndisks i) > DISK_LIST_NUM \<or> nip i = [] \<or> length (nip i) \<ge> IP_ADDR_LEN then CM_ERR else CM_OK, i, z')
           | _ \<Rightarrow> None)"

section \<open>Events\<close>

definition exist_check :: "'z zoo \<Rightarrow> string \<Rightarrow> 'z \<Rightarrow> int \<times> 'z" where
  "exist_check zoo path z =
     at_path path (CM_ERR, z) (\<lambda>zkPath.
       case CmZkExists zoo zkPath z of
         (ret, _, z') \<Rightarrow> (if ret = ZNONODE then CM_NOT_EXIST else if ret \<noteq> ZOK then CM_ERR else CM_OK, z'))"

definition create_znode :: "'z zoo \<Rightarrow> string \<Rightarrow> zval \<Rightarrow> bool \<Rightarrow> 'z \<Rightarrow> int \<times> 'z" where
  "create_znode zoo path v eph z =
     at_path path (CM_ERR, z) (\<lambda>zkPath.
       case CmZkCreate zoo zkPath v eph False z of (ret, _, z') \<Rightarrow> (if ret \<noteq> ZOK then CM_ERR else CM_OK, z'))"

definition CmClientZkNodeEventExistCheck :: "'z zoo \<Rightarrow> nat \<Rightarrow> nat \<Rightarrow> 'z \<Rightarrow> int \<times> 'z" where
  "CmClientZkNodeEventExistCheck zoo p n z = exist_check zoo (item_path p ''node_event'' (dec n)) z"

definition CmClientZkPtEventExistCheck :: "'z zoo \<Rightarrow> nat \<Rightarrow> nat \<Rightarrow> 'z \<Rightarrow> int \<times> 'z" where
  "CmClientZkPtEventExistCheck zoo p n z = exist_check zoo (item_path p ''pt_event'' (dec n)) z"

definition CmClientZkRecordNodeEvent :: "'z zoo \<Rightarrow> node_event \<Rightarrow> 'z \<Rightarrow> int \<times> 'z" where
  "CmClientZkRecordNodeEvent zoo e z = create_znode zoo (item_path (epool e) ''node_event'' (dec (enode e))) (NodeEv e) False z"

definition CmClientZkRecordPtEvent :: "'z zoo \<Rightarrow> pt_event \<Rightarrow> 'z \<Rightarrow> int \<times> 'z" where
  "CmClientZkRecordPtEvent zoo e z = create_znode zoo (item_path (pepool e) ''pt_event'' (dec (penode e))) (PtEv e) False z"

section \<open>What a client keeps of a pool\<close>

text \<open>\<open>cstates\<close>, \<open>cnodes\<close> and \<open>cpts\<close> are null pointers until the pool is created.\<close>

record restore_c =
  cused :: bool
  cpool :: "pool_cfg option"
  localSession :: nat
  localNode :: nat
  cstates :: "state_list option"
  cnodes :: "info_list option"
  cpts :: "pt_list option"
  nodeChangeC :: bool
  stateChangeC :: bool
  masterChangeC :: bool
  ptChangeC :: bool
  userKey :: string
  userValue :: string
  userHandleC :: bool

text \<open>What the callbacks are called with.\<close>

datatype notice = NodesChanged "reg_info list" | StatesChanged nat "zk_state list" | MasterChanged nat nat
  | PtsChanged pt_list | DataChanged string string

definition CmClientZkRecordLocalSession :: "'z zoo \<Rightarrow> nat \<Rightarrow> restore_c list \<Rightarrow> 'z \<Rightarrow> int \<times> 'z" where
  "CmClientZkRecordLocalSession zoo p rs z =
     create_znode zoo (item_path p ''node'' (dec (localNode (rs ! p)))) (Session (localSession (rs ! p))) True z"

text \<open>\<open>now\<close> is the time in milliseconds.\<close>

definition CmClientZkRegisterNodeInfo ::
  "'z zoo \<Rightarrow> nat \<Rightarrow> nat \<Rightarrow> reg_info \<Rightarrow> restore_c list \<Rightarrow> 'z \<Rightarrow> (int \<times> reg_info \<times> restore_c list \<times> 'z) option" where
  "CmClientZkRegisterNodeInfo zoo now p info rs z =
     (case CmClientZkGenNodeId zoo p info z of
        None \<Rightarrow> None
      | Some (ret, info', z1) \<Rightarrow>
          if ret \<noteq> CM_OK then Some (ret, info', rs, z1)
          else case CmClientZkRecordNodeInfo zoo p info' z1 of
            (ret, z2) \<Rightarrow>
              if ret \<noteq> CM_OK then Some (ret, info', rs, z2)
              else case CmClientZkCheckNodeIdExist zoo p (nid info') z2 of
                (ret, z3) \<Rightarrow>
                  if ret \<noteq> CM_OK then Some (ret, info', rs, z3)
                  else case cpool (rs ! p) of
                    None \<Rightarrow> None
                  | Some pool \<Rightarrow>
                      if nid info' \<ge> pmaxNodeNum pool then Some (CM_ERR, info', rs, z3)
                      else Some (CM_OK, info', rs[p := (rs ! p)\<lparr>localSession := now, localNode := nid info'\<rparr>], z3))"

definition CmClientZkGetNodeState ::
  "'z zoo \<Rightarrow> bool \<Rightarrow> zk_state list \<Rightarrow> nat \<Rightarrow> nat \<Rightarrow> restore_c list \<Rightarrow> 'z \<Rightarrow> (int \<times> zk_state option \<times> 'z) option" where
  "CmClientZkGetNodeState zoo mallocOk junk p n rs z =
     (case cpool (rs ! p) of
        None \<Rightarrow> None
      | Some pool \<Rightarrow>
          if \<not> mallocOk then Some (CM_ERR, None, z)
          else at_path (pool_path p ''state'') (Some (CM_ERR, None, z)) (\<lambda>zkPath.
            case CmZkGet zoo zkPath z of
              (ret, v, z') \<Rightarrow>
                if ret \<noteq> ZOK then Some (CM_ERR, None, z')
                else case v of
                  States r \<Rightarrow>
                    let buf = overlay (pmaxNodeNum pool) (slNodes r) junk in
                    if n \<ge> length buf then None else Some (CM_OK, Some (buf ! n), z')
                | _ \<Rightarrow> None))"

end
