(* ===== verification/CmZkSync.thy ===== *)
theory CmZkSync
  imports CmZkClient
begin

text \<open>
  The copies that a client keeps of the lists of a pool, the second half of the client side of
  \<^verbatim>\<open>cluster/common/cm_zkadapter.c\<close>: each change of a znode is read, compared with the copy, and
  the elements that differ are handed to the registered function.
\<close>

section \<open>Checks\<close>

text \<open>A check reads the counted elements; \<open>None\<close> is a read behind the array.\<close>

definition CheckStateDataFromZk :: "state_list \<Rightarrow> int option" where
  "CheckStateDataFromZk l =
     (if slNum l > MAX_NODE_NUM \<or> slPool l > MAX_POOL_NUM then Some CM_ERR
      else if list_ex (\<lambda>s. snode s > MAX_NODE_NUM \<or> sdiskNum s > DISK_LIST_NUM) (take (slNum l) (slNodes l)) then Some CM_ERR
      else if slNum l > length (slNodes l) then None else Some CM_OK)"

definition CheckPtDataFromZk :: "pt_list \<Rightarrow> int option" where
  "CheckPtDataFromZk l =
     (if maxCopyNum l > PT_MAX_COPY_NUM \<or> minCopyNum l < 1 \<or> ptNum l < MIN_PT_ENTRY \<or> ptNum l > MAX_PT_ENTRY \<or> poolId l > MAX_POOL_NUM
      then Some CM_ERR
      else if list_ex (\<lambda>e. copyNum e > PT_MAX_COPY_NUM) (take (ptNum l) (entries l)) then Some CM_ERR
      else if ptNum l > length (entries l) then None else Some CM_OK)"

definition CheckNodeDataFromZk :: "info_list \<Rightarrow> int option" where
  "CheckNodeDataFromZk l =
     (if ilNum l > MAX_NODE_NUM \<or> ilPool l > MAX_POOL_NUM then Some CM_ERR
      else if list_ex (\<lambda>i. nid i > MAX_NODE_NUM \<or> length (ndisks i) > DISK_LIST_NUM) (take (ilNum l) (ilNodes l)) then Some CM_ERR
      else if ilNum l > length (ilNodes l) then None else Some CM_OK)"

definition CmClientZkPtEntryIsSame :: "pt_entry \<Rightarrow> pt_entry \<Rightarrow> bool" where
  "CmClientZkPtEntryIsSame a b =
     (if ptId a \<noteq> ptId b \<or> pstate a \<noteq> pstate b \<or> birthVersion a \<noteq> birthVersion b \<or> masterNodeId a \<noteq> masterNodeId b \<or>
         masterDiskId a \<noteq> masterDiskId b \<or> referNum a \<noteq> referNum b \<or> copyNum a \<noteq> copyNum b then False
      else \<not> list_ex (\<lambda>i. cstate (copyList a ! i) \<noteq> cstate (copyList b ! i) \<or> cnode (copyList a ! i) \<noteq> cnode (copyList b ! i) \<or>
             cdisk (copyList a ! i) \<noteq> cdisk (copyList b ! i) \<or> keepAlive (copyList a ! i) \<noteq> keepAlive (copyList b ! i))
             [0..<copyNum a])"

section \<open>Comparing\<close>

text \<open>
  The elements of the first list that differ from those of the second are replaced and collected.
  A list that is longer than the memory for it is \<open>None\<close> from the start, although the loop gets out
  of the array only at its end.
\<close>

fun sync :: "('a \<Rightarrow> 'a \<Rightarrow> bool) \<Rightarrow> 'a list \<Rightarrow> 'a list \<Rightarrow> 'a list \<times> 'a list" where
  "sync same (x # xs) (y # ys) =
     (case sync same xs ys of (xs', notify) \<Rightarrow> if same x y then (x # xs', notify) else (y # xs', y # notify))"
| "sync same xs ys = (xs, [])"

definition CmClientZkUpdateNodeList :: "bool \<Rightarrow> info_list \<Rightarrow> restore_c list \<Rightarrow> (restore_c list \<times> notice list) option" where
  "CmClientZkUpdateNodeList mallocOk change rs =
     (if ilPool change \<ge> length rs then None
      else let r = rs ! ilPool change in
        case (cpool r, cnodes r) of
          (Some pool, Some old) \<Rightarrow>
            if \<not> mallocOk then Some (rs, [])
            else if ilNum change > length (ilNodes old) \<or> ilNum change > length (ilNodes change) then None
            else (case sync (=) (ilNodes old) (take (ilNum change) (ilNodes change)) of
              (nodes, notify) \<Rightarrow>
                Some (rs[ilPool change := r\<lparr>cnodes := Some \<lparr>ilPool = ilPool change, ilNum = ilNum change, ilNodes = nodes\<rparr>\<rparr>],
                      if nodeChangeC r then [NodesChanged notify] else []))
        | _ \<Rightarrow> None)"

text \<open>
  The loop over the states: for a node that has come up the session is read, for the others the
  known session is kept. False means that a session could not be read.
\<close>

fun sync_states ::
  "'z zoo \<Rightarrow> nat \<Rightarrow> nat \<Rightarrow> zk_state list \<Rightarrow> zk_state list \<Rightarrow> 'z \<Rightarrow> (bool \<times> zk_state list \<times> zk_state list \<times> 'z) option" where
  "sync_states zoo p n (x # xs) (y # ys) z =
     (case (if nupdown x \<noteq> NODE_STATE_UP \<and> nupdown y = NODE_STATE_UP then CmClientZkGetNodeSession zoo p n z
            else Some (CM_OK, Some (sessionId x), z)) of
        None \<Rightarrow> None
      | Some (ret, sess, z1) \<Rightarrow>
          if ret \<noteq> CM_OK then Some (False, x # xs, [], z1)
          else let y' = y\<lparr>sessionId := the sess\<rparr> in
            case sync_states zoo p (n + 1) xs ys z1 of
              None \<Rightarrow> None
            | Some (complete, xs', notify, z2) \<Rightarrow>
                Some (if x = y' then (complete, x # xs', notify, z2) else (complete, y' # xs', y' # notify, z2)))"
| "sync_states zoo p n xs ys z = Some (True, xs, [], z)"

definition CmClientZkUpdateStateList ::
  "'z zoo \<Rightarrow> bool \<Rightarrow> state_list \<Rightarrow> restore_c list \<Rightarrow> 'z \<Rightarrow> (restore_c list \<times> notice list \<times> 'z) option" where
  "CmClientZkUpdateStateList zoo mallocOk change rs z =
     (if slPool change \<ge> length rs then None
      else let p = slPool change; r = rs ! p in
        case (cpool r, cstates r) of
          (Some pool, Some old) \<Rightarrow>
            if \<not> mallocOk then Some (rs, [], z)
            else if slNum change > length (slNodes old) \<or> slNum change > length (slNodes change) then None
            else let newMaster = slMaster old \<noteq> slMaster change in
              (case sync_states zoo p 0 (slNodes old) (take (slNum change) (slNodes change)) z of
                 None \<Rightarrow> None
               | Some (complete, nodes, notify, z') \<Rightarrow>
                   let rs' = rs[p := r\<lparr>cstates := Some \<lparr>slPool = p, slNum = slNum change, slMaster = slMaster change, slNodes = nodes\<rparr>\<rparr>] in
                   if \<not> complete then Some (rs', [], z')
                   else if notify \<noteq> [] \<and> \<not> stateChangeC r then None
                   else Some (rs',
                     (if masterChangeC r \<and> newMaster \<and> slMaster change \<noteq> NODE_ID_INVALID then [MasterChanged p (slMaster change)] else []) @
                     (if notify \<noteq> [] then [StatesChanged (slMaster change) notify] else []), z'))
        | _ \<Rightarrow> None)"

text \<open>The copies of a partition that are compared have to be inside their array.\<close>

definition pt_readable :: "pt_entry \<Rightarrow> pt_entry \<Rightarrow> bool" where
  "pt_readable a b \<longleftrightarrow>
     ptId a = ptId b \<and> pstate a = pstate b \<and> birthVersion a = birthVersion b \<and> masterNodeId a = masterNodeId b \<and>
     masterDiskId a = masterDiskId b \<and> referNum a = referNum b \<and> copyNum a = copyNum b \<longrightarrow>
     copyNum a \<le> length (copyList a) \<and> copyNum b \<le> length (copyList b)"

definition CmClientZkUpdatePtList :: "bool \<Rightarrow> pt_list \<Rightarrow> restore_c list \<Rightarrow> (restore_c list \<times> notice list) option" where
  "CmClientZkUpdatePtList mallocOk change rs =
     (if poolId change \<ge> length rs then None
      else let r = rs ! poolId change in
        if ptNum change = 0 then Some (rs, [])
        else case (cpool r, cpts r) of
          (Some pool, Some old) \<Rightarrow>
            if \<not> mallocOk then Some (rs, [])
            else if ptNum change > length (entries old) \<or> ptNum change > length (entries change) then None
            else if list_ex (\<lambda>(a, b). \<not> pt_readable a b) (zip (entries old) (take (ptNum change) (entries change))) then None
            else (case sync CmClientZkPtEntryIsSame (entries old) (take (ptNum change) (entries change)) of
              (es, notify) \<Rightarrow>
                if notify \<noteq> [] \<and> \<not> ptChangeC r then None
                else Some (rs[poolId change := r\<lparr>cpts := Some (change\<lparr>entries := es\<rparr>)\<rparr>],
                  if notify \<noteq> [] then [PtsChanged (change\<lparr>ptNum := length notify, entries := notify\<rparr>)] else []))
        | _ \<Rightarrow> None)"

section \<open>Subscriptions\<close>

text \<open>
  A list is read into fresh memory, with room for the configured number of elements. The data are
  checked only when the call has failed, so a failed call whose memory happens to pass the check is
  taken for an answer, and an answer is not checked.
\<close>

definition CmClientZkSubNodeList ::
  "'z zoo \<Rightarrow> bool \<times> bool \<Rightarrow> info_list \<Rightarrow> nat \<Rightarrow> restore_c list \<Rightarrow> 'z \<Rightarrow> (int \<times> restore_c list \<times> notice list \<times> 'z) option" where
  "CmClientZkSubNodeList zoo mallocs junk p rs z =
     (case cpool (rs ! p) of
        None \<Rightarrow> None
      | Some pool \<Rightarrow>
          if \<not> fst mallocs then Some (CM_ERR, rs, [], z)
          else at_path (pool_path p ''node_list'') (Some (CM_ERR, rs, [], z)) (\<lambda>zkPath.
            case CmZkWget zoo zkPath z of
              (ret, v, z') \<Rightarrow>
                (case (if ret \<noteq> ZOK then Some junk
                       else case v of
                         Nodes r \<Rightarrow> Some (r\<lparr>ilNodes := overlay (pmaxNodeNum pool) (ilNodes r) (ilNodes junk)\<rparr>) | _ \<Rightarrow> None) of
                   None \<Rightarrow> None
                 | Some buf \<Rightarrow>
                     (case (if ret \<noteq> ZOK then CheckNodeDataFromZk buf else Some CM_OK) of
                        None \<Rightarrow> None
                      | Some chk \<Rightarrow>
                          if chk \<noteq> CM_OK then Some (CM_ERR, rs, [], z')
                          else map_option (\<lambda>(rs', notes). (CM_OK, rs', notes, z')) (CmClientZkUpdateNodeList (snd mallocs) buf rs)))))"

definition CmClientZkSubStateList ::
  "'z zoo \<Rightarrow> bool \<times> bool \<Rightarrow> state_list \<Rightarrow> nat \<Rightarrow> restore_c list \<Rightarrow> 'z \<Rightarrow> (int \<times> restore_c list \<times> notice list \<times> 'z) option" where
  "CmClientZkSubStateList zoo mallocs junk p rs z =
     (case cpool (rs ! p) of
        None \<Rightarrow> None
      | Some pool \<Rightarrow>
          if \<not> fst mallocs then Some (CM_ERR, rs, [], z)
          else at_path (pool_path p ''state'') (Some (CM_ERR, rs, [], z)) (\<lambda>zkPath.
            case CmZkWget zoo zkPath z of
              (ret, v, z') \<Rightarrow>
                (case (if ret \<noteq> ZOK then Some junk
                       else case v of
                         States r \<Rightarrow> Some (r\<lparr>slNodes := overlay (pmaxNodeNum pool) (slNodes r) (slNodes junk)\<rparr>) | _ \<Rightarrow> None) of
                   None \<Rightarrow> None
                 | Some buf \<Rightarrow>
                     (case (if ret \<noteq> ZOK then CheckStateDataFromZk buf else Some CM_OK) of
                        None \<Rightarrow> None
                      | Some chk \<Rightarrow>
                          if chk \<noteq> CM_OK then Some (CM_ERR, rs, [], z')
                          else map_option (\<lambda>(rs', notes, z''). (CM_OK, rs', notes, z'')) (CmClientZkUpdateStateList zoo (snd mallocs) buf rs z')))))"

definition CmClientZkSubPtListChange ::
  "'z zoo \<Rightarrow> bool \<times> bool \<Rightarrow> pt_list \<Rightarrow> nat \<Rightarrow> restore_c list \<Rightarrow> 'z \<Rightarrow> (int \<times> restore_c list \<times> notice list \<times> 'z) option" where
  "CmClientZkSubPtListChange zoo mallocs junk p rs z =
     at_path (pool_path p ''pt'') (Some (CM_ERR, rs, [], z)) (\<lambda>zkPath.
       let rs1 = rs[p := (rs ! p)\<lparr>ptChangeC := True\<rparr>] in
       case cpool (rs ! p) of
         None \<Rightarrow> None
       | Some pool \<Rightarrow>
           if \<not> fst mallocs then Some (CM_ERR, rs1, [], z)
           else case CmZkWget zoo zkPath z of
             (ret, v, z') \<Rightarrow>
               (case (if ret \<noteq> ZOK then Some junk
                      else case v of
                        Pts r \<Rightarrow> Some (r\<lparr>entries := overlay (pmaxPtNum pool) (entries r) (entries junk)\<rparr>) | _ \<Rightarrow> None) of
                  None \<Rightarrow> None
                | Some buf \<Rightarrow>
                    (case (if ret \<noteq> ZOK then CheckPtDataFromZk buf else Some CM_OK) of
                       None \<Rightarrow> None
                     | Some chk \<Rightarrow>
                         if chk \<noteq> CM_OK then Some (CM_ERR, rs1, [], z')
                         else map_option (\<lambda>(rs', notes). (CM_OK, rs', notes, z')) (CmClientZkUpdatePtList (snd mallocs) buf rs1))))"

text \<open>The three functions that are called when a znode changes read it again and subscribe again.\<close>

definition CmClientZkSubNodeListWatch ::
  "'z zoo \<Rightarrow> bool \<times> bool \<Rightarrow> info_list \<Rightarrow> zoo_event \<Rightarrow> nat \<Rightarrow> restore_c list \<Rightarrow> 'z \<Rightarrow> (restore_c list \<times> notice list \<times> 'z) option" where
  "CmClientZkSubNodeListWatch zoo mallocs junk evtype p rs z =
     (if evtype = ZOO_CHANGED_EVENT then map_option snd (CmClientZkSubNodeList zoo mallocs junk p rs z) else Some (rs, [], z))"

definition CmClientZkSubStateListWatch ::
  "'z zoo \<Rightarrow> bool \<times> bool \<Rightarrow> state_list \<Rightarrow> zoo_event \<Rightarrow> nat \<Rightarrow> restore_c list \<Rightarrow> 'z \<Rightarrow> (restore_c list \<times> notice list \<times> 'z) option" where
  "CmClientZkSubStateListWatch zoo mallocs junk evtype p rs z =
     (if evtype = ZOO_CHANGED_EVENT then map_option snd (CmClientZkSubStateList zoo mallocs junk p rs z) else Some (rs, [], z))"

definition CmClientZkPtWatchFunc ::
  "'z zoo \<Rightarrow> bool \<times> bool \<Rightarrow> pt_list \<Rightarrow> zoo_event \<Rightarrow> nat \<Rightarrow> restore_c list \<Rightarrow> 'z \<Rightarrow> (restore_c list \<times> notice list \<times> 'z) option" where
  "CmClientZkPtWatchFunc zoo mallocs junk evtype p rs z =
     (if evtype = ZOO_CHANGED_EVENT then map_option snd (CmClientZkSubPtListChange zoo mallocs junk p rs z) else Some (rs, [], z))"

definition CmClientZkSubStateListChange ::
  "'z zoo \<Rightarrow> bool \<times> bool \<Rightarrow> info_list \<Rightarrow> state_list \<Rightarrow> nat \<Rightarrow> restore_c list \<Rightarrow> 'z \<Rightarrow> (int \<times> restore_c list \<times> notice list \<times> 'z) option" where
  "CmClientZkSubStateListChange zoo mallocs junkN junkS p rs z =
     (case CmClientZkSubNodeList zoo mallocs junkN p (rs[p := (rs ! p)\<lparr>stateChangeC := True\<rparr>]) z of
        None \<Rightarrow> None
      | Some (ret, rs1, notes1, z1) \<Rightarrow>
          if ret \<noteq> CM_OK then Some (CM_ERR, rs1, notes1, z1)
          else case CmClientZkSubStateList zoo mallocs junkS p rs1 z1 of
            None \<Rightarrow> None
          | Some (ret, rs2, notes2, z2) \<Rightarrow> Some (if ret \<noteq> CM_OK then CM_ERR else CM_OK, rs2, notes1 @ notes2, z2))"

end
