(* ===== verification/CmZkStart.thy ===== *)
theory CmZkStart
  imports CmZkSync
begin

text \<open>
  The rest of \<^verbatim>\<open>cluster/common/cm_zkadapter.c\<close>: the data of the user, the creation of the copies
  of a client, and what happens when a session of ZooKeeper has expired.
\<close>

abbreviation USER_DATA_MAX_LEN :: nat where "USER_DATA_MAX_LEN \<equiv> 4096"

section \<open>Data of the user\<close>

definition CmClientZkRecordDataInfo :: "'z zoo \<Rightarrow> nat \<Rightarrow> string \<Rightarrow> string \<Rightarrow> 'z \<Rightarrow> int \<times> 'z" where
  "CmClientZkRecordDataInfo zoo p key value z = put_znode zoo (item_path p ''data_info'' key) (Data value) z"

definition CmClientZkSubDataHandle ::
  "'z zoo \<Rightarrow> nat \<Rightarrow> restore_c list \<Rightarrow> 'z \<Rightarrow> (int \<times> restore_c list \<times> notice list \<times> 'z) option" where
  "CmClientZkSubDataHandle zoo p rs z =
     (let r = rs ! p in
      at_path (item_path p ''data_info'' (userKey r)) (Some (CM_ERR, rs, [], z)) (\<lambda>zkPath.
        case CmZkWget zoo zkPath z of
          (ret, v, z') \<Rightarrow>
            if ret \<noteq> ZOK then Some (CM_ERR, rs, [], z')
            else case v of
              Data d \<Rightarrow>
                let d' = take USER_DATA_MAX_LEN d in
                if \<not> userHandleC r then None
                else Some (CM_OK, rs[p := r\<lparr>userValue := d'\<rparr>], [DataChanged (userKey r) d'], z')
            | _ \<Rightarrow> None))"

definition CmClientZkSubDataChangeWatch ::
  "'z zoo \<Rightarrow> zoo_event \<Rightarrow> nat \<Rightarrow> restore_c list \<Rightarrow> 'z \<Rightarrow> (restore_c list \<times> notice list \<times> 'z) option" where
  "CmClientZkSubDataChangeWatch zoo evtype p rs z =
     (if evtype = ZOO_CHANGED_EVENT then map_option snd (CmClientZkSubDataHandle zoo p rs z) else Some (rs, [], z))"

text \<open>The value is written only if the znode is new; the buffer for the answer is as long as the value.\<close>

definition CmClientZkSubDataInfoChange ::
  "'z zoo \<Rightarrow> nat \<Rightarrow> string \<Rightarrow> string \<Rightarrow> restore_c list \<Rightarrow> 'z \<Rightarrow> (int \<times> restore_c list \<times> notice list \<times> 'z) option" where
  "CmClientZkSubDataInfoChange zoo p key value rs z =
     (if length key \<ge> USER_DATA_MAX_LEN \<or> length value > USER_DATA_MAX_LEN then Some (CM_ERR, rs, [], z)
      else let rs1 = rs[p := (rs ! p)\<lparr>userKey := key, userHandleC := True\<rparr>] in
        at_path (item_path p ''data_info'' key) (Some (CM_ERR, rs1, [], z)) (\<lambda>zkPath.
          case CmZkCreate zoo zkPath (Data value) False False z of
            (ret, _, z1) \<Rightarrow>
              if ret \<noteq> ZOK \<and> ret \<noteq> ZNODEEXISTS then Some (CM_ERR, rs1, [], z1)
              else case CmZkWget zoo zkPath z1 of
                (ret, v, z2) \<Rightarrow>
                  if ret \<noteq> ZOK then Some (CM_ERR, rs1, [], z2)
                  else case v of
                    Data d \<Rightarrow> Some (CM_OK, rs1, [DataChanged key (take (length value) d)], z2)
                  | _ \<Rightarrow> None))"

section \<open>Creation of the copies\<close>

definition CmClientZkInitMgr :: "cm_config \<Rightarrow> restore_c list \<Rightarrow> restore_c list" where
  "CmClientZkInitMgr c rs =
     map (\<lambda>p. (rs ! p)\<lparr>cused := False, cpool := CmConfigGetPoolInfo p c, localSession := 0, localNode := NODE_ID_INVALID,
         cstates := None, cpts := None, nodeChangeC := False, stateChangeC := False, ptChangeC := False,
         masterChangeC := False, userHandleC := False\<rparr>) [0..<length rs]"

definition CmClientZkFreeParaList :: "restore_c \<Rightarrow> restore_c" where
  "CmClientZkFreeParaList r = r\<lparr>cstates := None, cnodes := None, cpts := None\<rparr>"

text \<open>
  Of a partition only the number and the state are set, of the list of nodes nothing: \<open>junkN\<close> and
  \<open>junkP\<close> are what the memory holds.
\<close>

definition CmClientZkCreatePoolImpl ::
  "bool \<times> bool \<Rightarrow> info_list \<Rightarrow> pt_list \<Rightarrow> nat \<Rightarrow> pool_cfg \<Rightarrow> restore_c \<Rightarrow> int \<times> restore_c" where
  "CmClientZkCreatePoolImpl mallocs junkN junkP p pool r =
     (let r1 = (if pmaxNodeNum pool = 0 then r
                else r\<lparr>cnodes := Some junkN,
                  cstates := Some \<lparr>slPool = p, slNum = pmaxNodeNum pool, slMaster = NODE_ID_INVALID,
                    slNodes = map (fresh_state 0) [0..<pmaxNodeNum pool]\<rparr>\<rparr>) in
      if pmaxNodeNum pool \<noteq> 0 \<and> \<not> fst mallocs then (CM_ERR, CmClientZkFreeParaList r)
      else if pmaxPtNum pool = 0 then (CM_OK, r1\<lparr>cused := True\<rparr>)
      else if \<not> snd mallocs then (CM_ERR, CmClientZkFreeParaList r1)
      else (CM_OK, r1\<lparr>cused := True,
        cpts := Some (junkP\<lparr>poolId := p, ptNum := pmaxPtNum pool,
          entries := map (\<lambda>i. (entries junkP ! i)\<lparr>ptId := i, pstate := PT_STATE_INIT\<rparr>) [0..<pmaxPtNum pool]\<rparr>)\<rparr>))"

fun create_copies ::
  "bool \<times> bool \<Rightarrow> info_list \<Rightarrow> pt_list \<Rightarrow> nat list \<Rightarrow> restore_c list \<Rightarrow> int \<times> restore_c list" where
  "create_copies mallocs junkN junkP [] rs = (CM_OK, rs)"
| "create_copies mallocs junkN junkP (p # ps) rs =
     (case cpool (rs ! p) of
        None \<Rightarrow> create_copies mallocs junkN junkP ps rs
      | Some pool \<Rightarrow>
          (case CmClientZkCreatePoolImpl mallocs junkN junkP p pool (rs ! p) of
             (ret, r) \<Rightarrow> if ret \<noteq> CM_OK then (ret, rs[p := r]) else create_copies mallocs junkN junkP ps (rs[p := r])))"

definition CmClientZkCreatePool :: "bool \<times> bool \<Rightarrow> info_list \<Rightarrow> pt_list \<Rightarrow> restore_c list \<Rightarrow> int \<times> restore_c list" where
  "CmClientZkCreatePool mallocs junkN junkP rs = create_copies mallocs junkN junkP [0..<length rs] rs"

definition CmClientZkInit ::
  "cm_config \<Rightarrow> bool \<times> bool \<Rightarrow> info_list \<Rightarrow> pt_list \<Rightarrow> restore_c list \<Rightarrow> int \<times> restore_c list" where
  "CmClientZkInit c mallocs junkN junkP rs = CmClientZkCreatePool mallocs junkN junkP (CmClientZkInitMgr c rs)"

section \<open>New sessions\<close>

text \<open>One pool of \<open>CmZkClientRestore\<close>: the steps follow each other until one fails.\<close>

definition restore_step ::
  "bool \<Rightarrow> (restore_c list \<Rightarrow> 'z \<Rightarrow> (int \<times> restore_c list \<times> notice list \<times> 'z) option) \<Rightarrow>
     (int \<times> restore_c list \<times> notice list \<times> 'z) option \<Rightarrow> (int \<times> restore_c list \<times> notice list \<times> 'z) option" where
  "restore_step needed f st =
     (case st of
        None \<Rightarrow> None
      | Some (ret, rs, notes, z) \<Rightarrow>
          if ret \<noteq> CM_OK \<or> \<not> needed then Some (ret, rs, notes, z)
          else map_option (\<lambda>(ret', rs', notes', z'). (ret', rs', notes @ notes', z')) (f rs z))"

definition restore_pool ::
  "'z zoo \<Rightarrow> bool \<times> bool \<Rightarrow> info_list \<times> state_list \<times> pt_list \<Rightarrow> nat \<Rightarrow> restore_c list \<Rightarrow> 'z \<Rightarrow> (restore_c list \<times> notice list \<times> 'z) option" where
  "restore_pool zoo mallocs junk p rs z =
     (let r = rs ! p in
      if \<not> cused r then Some (rs, [], z)
      else map_option snd
       (restore_step (userHandleC r) (CmClientZkSubDataHandle zoo p)
       (restore_step (ptChangeC r) (CmClientZkSubPtListChange zoo mallocs (snd (snd junk)) p)
       (restore_step (stateChangeC r) (CmClientZkSubStateListChange zoo mallocs (fst junk) (fst (snd junk)) p)
       (restore_step (localNode r \<noteq> NODE_ID_INVALID)
          (\<lambda>rs z. case CmClientZkRecordLocalSession zoo p rs z of (ret, z') \<Rightarrow> Some (ret, rs, [], z'))
       (Some (CM_OK, rs, [], z)))))))"

fun restore_pools ::
  "'z zoo \<Rightarrow> bool \<times> bool \<Rightarrow> info_list \<times> state_list \<times> pt_list \<Rightarrow> nat list \<Rightarrow> restore_c list \<Rightarrow> 'z \<Rightarrow> (restore_c list \<times> notice list \<times> 'z) option" where
  "restore_pools zoo mallocs junk [] rs z = Some (rs, [], z)"
| "restore_pools zoo mallocs junk (p # ps) rs z =
     (case restore_pool zoo mallocs junk p rs z of
        None \<Rightarrow> None
      | Some (rs1, notes1, z1) \<Rightarrow>
          map_option (\<lambda>(rs2, notes2, z2). (rs2, notes1 @ notes2, z2)) (restore_pools zoo mallocs junk ps rs1 z1))"

definition CmZkClientRestore ::
  "'z zoo \<Rightarrow> bool \<times> bool \<Rightarrow> info_list \<times> state_list \<times> pt_list \<Rightarrow> restore_c list \<Rightarrow> 'z \<Rightarrow> (restore_c list \<times> notice list \<times> 'z) option" where
  "CmZkClientRestore zoo mallocs junk rs z = restore_pools zoo mallocs junk [0..<length rs] rs z"

definition CmZkRestore ::
  "'z zoo \<Rightarrow> ('z \<Rightarrow> int \<times> 'z) \<Rightarrow> cm_config \<Rightarrow> bool \<times> bool \<Rightarrow> info_list \<times> state_list \<times> pt_list \<Rightarrow> restore_c list \<Rightarrow> server_mgr \<Rightarrow> 'z \<Rightarrow>
     (restore_c list \<times> notice list \<times> server_mgr \<times> server_role option \<times> 'z) option" where
  "CmZkRestore zoo reconnect c mallocs junk rs m z =
     (case reconnect_loop reconnect z of
        None \<Rightarrow> None
      | Some z1 \<Rightarrow>
          (case (if CmConfigHasCfgPoolC c then CmZkClientRestore zoo mallocs junk rs z1 else Some (rs, [], z1)) of
             None \<Rightarrow> None
           | Some (rs', notes, z2) \<Rightarrow>
               (case (if CmConfigHasCfgPoolS c then CmZkServerRestore zoo m z2 else Some (m, None, z2)) of
                  None \<Rightarrow> None
                | Some (m', role, z3) \<Rightarrow> Some (rs', notes, m', role, z3))))"

text \<open>\<open>sessionExpired\<close>: the event is the one of an expired session. The roles that are reported are in order.\<close>

definition CmZkWatchFunc ::
  "'z zoo \<Rightarrow> ('z \<Rightarrow> int \<times> 'z) \<Rightarrow> cm_config \<Rightarrow> bool \<times> bool \<Rightarrow> info_list \<times> state_list \<times> pt_list \<Rightarrow> bool \<Rightarrow> restore_c list \<Rightarrow> server_mgr \<Rightarrow> 'z \<Rightarrow>
     (restore_c list \<times> notice list \<times> server_mgr \<times> server_role option list \<times> 'z) option" where
  "CmZkWatchFunc zoo reconnect c mallocs junk sessionExpired rs m z =
     (if \<not> sessionExpired then Some (rs, [], m, [], z)
      else case expired_role c m of
        (m1, r1) \<Rightarrow>
          map_option (\<lambda>(rs', notes, m', r2, z'). (rs', notes, m', [r1, r2], z')) (CmZkRestore zoo reconnect c mallocs junk rs m1 z))"

end
