(* ===== verification/CmZkPath.thy ===== *)
theory CmZkPath
  imports CmZkStart
begin

text \<open>
  Names in ZooKeeper: numbers are printed and read back, and different things have different paths.
\<close>

section \<open>Numbers\<close>

lemma of_char_digit: "n < 10 \<Longrightarrow> of_char (digit n) = (48 + n :: nat)"
  by (simp add: digit_def of_char_of)

lemma of_char_digit_int: "n < 10 \<Longrightarrow> of_char (digit n) = (48 + int n)"
proof -
  assume n: "n < 10"
  have "of_char (digit n) = int (of_char (digit n))" by (metis of_nat_of_char)
  with of_char_digit [OF n] show ?thesis by simp
qed

lemma is_dec_digit [simp]: "n < 10 \<Longrightarrow> is_dec (digit n)"
  by (simp add: is_dec_def of_char_digit)

lemma dec_digits: "c \<in> set (dec n) \<Longrightarrow> is_dec c"
proof (induction n rule: dec.induct)
  case (1 n)
  then show ?case by (cases "n < 10") (auto simp: dec.simps [of n])
qed

lemma dec_nonempty [simp]: "dec n \<noteq> []"
  by (simp add: dec.simps)

text \<open>The value of a row of digits after the number \<open>acc\<close>.\<close>

fun dval :: "nat \<Rightarrow> string \<Rightarrow> nat" where
  "dval acc [] = acc"
| "dval acc (c # s) = dval (acc * 10 + (of_char c - 48)) s"

lemma dval_append: "dval acc (s @ t) = dval (dval acc s) t"
  by (induction s arbitrary: acc) simp_all

lemma dval_mono: "acc \<le> dval acc s"
proof (induction s arbitrary: acc)
  case (Cons c s)
  have "acc \<le> acc * 10 + (of_char c - 48)" by simp
  also have "\<dots> \<le> dval (acc * 10 + (of_char c - 48)) s" by (rule Cons)
  finally show ?case by simp
qed simp

lemma dval_dec: "dval 0 (dec n) = n"
proof (induction n rule: dec.induct)
  case (1 n)
  show ?case
  proof (cases "n < 10")
    case True
    then show ?thesis by (simp add: dec.simps [of n] of_char_digit)
  next
    case False
    with 1 show ?thesis by (simp add: dec.simps [of n] dval_append of_char_digit)
  qed
qed

lemma dval_zeros: "dval 0 (replicate k (CHR ''0'') @ s) = dval 0 s"
  by (induction k) simp_all

text \<open>The loop of \<open>CmServerZkAtoi\<close> reads a row of digits, or finds that it is too big for 32 bits.\<close>

lemma atoi_loop_digits:
  assumes "\<And>c. c \<in> set s \<Longrightarrow> is_dec c" "int acc \<le> INT32_MAX"
  shows "atoi_loop (int acc) s = (if int (dval acc s) \<le> INT32_MAX then int (dval acc s) else - 1)"
  using assms
proof (induction s arbitrary: acc)
  case (Cons c s)
  have c: "48 \<le> (of_char c :: nat)" "of_char c \<le> (57 :: nat)" "is_dec c" using Cons.prems(1) [of c] by (auto simp: is_dec_def)
  let ?d = "of_char c - (48 :: nat)"
  have d: "of_char c - 48 = int ?d" using c(1) by (metis of_nat_diff of_nat_numeral of_nat_of_char)
  have dl: "int ?d \<le> 9" using c(1,2) by linarith
  show ?case
  proof (cases "int (acc * 10 + ?d) \<le> INT32_MAX")
    case True
    then have n: "\<not> (int acc > INT32_MAX div 10 \<or> (int acc = INT32_MAX div 10 \<and> int ?d > INT32_MAX mod 10))" by simp
    have e: "int acc * 10 + int ?d = int (acc * 10 + ?d)" by simp
    have "atoi_loop (int acc) (c # s) = atoi_loop (int (acc * 10 + ?d)) s"
      using n c(3) by (simp only: atoi_loop.simps d Let_def e) simp
    then show ?thesis using Cons.IH [OF _ True] Cons.prems(1) by simp
  next
    case False
    then have "int acc > INT32_MAX div 10 \<or> (int acc = INT32_MAX div 10 \<and> int ?d > INT32_MAX mod 10)" using dl by simp linarith
    moreover have "\<not> int (dval (acc * 10 + ?d) s) \<le> INT32_MAX" using dval_mono [of "acc * 10 + ?d" s] False by linarith
    ultimately show ?thesis using c(3) by (simp add: d Let_def)
  qed
qed simp

lemma atoi_digits:
  assumes "s \<noteq> []" "\<And>c. c \<in> set s \<Longrightarrow> is_dec c"
  shows "CmServerZkAtoi (Some s) = (if int (dval 0 s) \<le> INT32_MAX then int (dval 0 s) else - 1)"
  using atoi_loop_digits [of s 0] assms by (cases s) (auto simp: CmServerZkAtoi_def)

lemma atoi_dec: "int n \<le> INT32_MAX \<Longrightarrow> CmServerZkAtoi (Some (dec n)) = int n"
  using atoi_digits [of "dec n"] dec_digits [of _ n] by (simp add: dval_dec)

text \<open>How ZooKeeper numbers a znode: ten digits, filled with zeros.\<close>

definition pad10 :: "nat \<Rightarrow> string" where
  "pad10 n = replicate (10 - length (dec n)) (CHR ''0'') @ dec n"

lemma pad10_digits: "c \<in> set (pad10 n) \<Longrightarrow> is_dec c"
  using dec_digits [of c n] by (auto simp: pad10_def is_dec_def)

lemma pad10_nonempty [simp]: "pad10 n \<noteq> []"
  by (simp add: pad10_def)

lemma atoi_pad10: "CmServerZkAtoi (Some (pad10 n)) = (if int n \<le> INT32_MAX then int n else - 1)"
  using atoi_digits [of "pad10 n"] pad10_digits [of _ n] by (simp add: pad10_def dval_zeros dval_dec)

lemma pad10_inj: "pad10 a = pad10 b \<Longrightarrow> a = b"
  by (metis dval_dec dval_zeros pad10_def)

lemma dec_inj: "dec a = dec b \<Longrightarrow> a = b"
  by (metis dval_dec)

lemma id_by_path:
  assumes "length pre < CM_ZNODE_PATH_LEN"
  shows "CmServerZkGetNodeIdByPath (Some (pre @ pad10 n)) (Some pre) = (if n \<le> MAX_NODE_NUM then n else UINT16_MAX)"
proof -
  have "0 < length (pad10 n)" by simp
  with assms have "\<not> min (length (pre @ pad10 n)) CM_ZNODE_PATH_LEN \<le> length pre" unfolding length_append by linarith
  then show ?thesis using assms by (auto simp: CmServerZkGetNodeIdByPath_def atoi_pad10)
qed

lemma child_ids_dec: "(\<And>n. n \<in> set ns \<Longrightarrow> n \<le> MAX_NODE_NUM) \<Longrightarrow> child_ids (map dec ns) = Some ns"
proof (induction ns)
  case (Cons n ns)
  then have n: "n \<le> MAX_NODE_NUM" by simp
  then have "nat (CmServerZkAtoi (Some (dec n)) mod 2 ^ 16) = n" by (simp add: atoi_dec)
  moreover have "child_ids (map dec ns) = Some ns" using Cons by simp
  ultimately show ?case using n by simp
qed simp

section \<open>Paths\<close>

lemma dec_no_slash [simp]: "CHR ''/'' \<notin> set (dec n)" "CHR '':'' \<notin> set (dec n)"
  using dec_digits [of "CHR ''/''" n] dec_digits [of "CHR '':''" n] by (auto simp: is_dec_def)

lemma split_at:
  assumes "xs @ c # ys = xs' @ c # ys'" "c \<notin> set xs" "c \<notin> set xs'"
  shows "xs = xs' \<and> ys = ys'"
  using assms by (induction xs arbitrary: xs') (auto simp: Cons_eq_append_conv append_eq_Cons_conv)

lemma pool_path_inj: "pool_path p k = pool_path p' k' \<longleftrightarrow> p = p' \<and> k = k'"
proof
  assume "pool_path p k = pool_path p' k'"
  then have "dec p @ CHR ''/'' # k = dec p' @ CHR ''/'' # k'" by (simp add: pool_path_def)
  from split_at [OF this] show "p = p' \<and> k = k'" using dec_inj by auto
qed simp

lemma item_path_inj:
  assumes "CHR ''/'' \<notin> set k" "CHR ''/'' \<notin> set k'"
  shows "item_path p k n = item_path p' k' n' \<longleftrightarrow> p = p' \<and> k = k' \<and> n = n'"
proof
  assume e: "item_path p k n = item_path p' k' n'"
  have "item_path p k n = pool_path p (k @ ''/'' @ n)" "item_path p' k' n' = pool_path p' (k' @ ''/'' @ n')"
    by (simp_all add: item_path_def pool_path_def)
  with e have "p = p'" "k @ CHR ''/'' # n = k' @ CHR ''/'' # n'" by (simp_all add: pool_path_inj)
  with split_at [OF this(2)] assms show "p = p' \<and> k = k' \<and> n = n'" by simp
qed simp

lemma ip_path_inj: "ip_path p ip port = ip_path p ip' port' \<longleftrightarrow> ip = ip' \<and> port = port'"
proof
  assume "ip_path p ip port = ip_path p ip' port'"
  then have "ip @ CHR '':'' # dec port = ip' @ CHR '':'' # dec port'" by (simp add: ip_path_def item_path_def)
  then have "rev (dec port) @ CHR '':'' # rev ip = rev (dec port') @ CHR '':'' # rev ip'"
    by (metis append.assoc append_Cons append_Nil rev.simps(2) rev_append)
  from split_at [OF this] show "ip = ip' \<and> port = port'" using dec_inj by auto
qed simp

lemma generator_not_ip: "pool_path p ''nodeid_generator/'' @ s \<noteq> ip_path p' ip port"
proof
  assume "pool_path p ''nodeid_generator/'' @ s = ip_path p' ip port"
  then have "pool_path p (''nodeid_generator/'' @ s) = pool_path p' (''ip/'' @ ip @ '':'' @ dec port)"
    by (simp add: pool_path_def ip_path_def item_path_def)
  then show False by (simp add: pool_path_inj)
qed

end
