(* ===== verification/CmZkLaws.thy ===== *)
theory CmZkLaws
  imports CmZkPath
begin

text \<open>
  What the adapter relies on in ZooKeeper, as its documentation states it, and what follows for the
  calls with repetition. \<open>tree\<close> gives the contents of the znodes and \<open>num\<close> the next number that
  ZooKeeper gives to a znode below a path. A call that fails for another reason than the
  documented ones may or may not have had its effect. No other client acts during a call.
\<close>

definition create_law :: "('z \<Rightarrow> string \<rightharpoonup> zval) \<Rightarrow> ('z \<Rightarrow> string \<Rightarrow> nat) \<Rightarrow> (string \<Rightarrow> zval \<Rightarrow> bool \<Rightarrow> bool \<Rightarrow> 'z \<Rightarrow> int \<times> string \<times> 'z) \<Rightarrow> bool" where
  "create_law tree num f \<longleftrightarrow> (\<forall>p v e z ret q z'. f p v e False z = (ret, q, z') \<longrightarrow>
     num z' = num z \<and>
     (ret = ZOK \<longrightarrow> tree z p = None \<and> tree z' = (tree z)(p \<mapsto> v)) \<and>
     (ret = ZNODEEXISTS \<longrightarrow> tree z p \<noteq> None \<and> tree z' = tree z) \<and>
     (tree z' = tree z \<or> tree z p = None \<and> tree z' = (tree z)(p \<mapsto> v)))"

definition number_law :: "('z \<Rightarrow> string \<rightharpoonup> zval) \<Rightarrow> ('z \<Rightarrow> string \<Rightarrow> nat) \<Rightarrow> (string \<Rightarrow> zval \<Rightarrow> bool \<Rightarrow> bool \<Rightarrow> 'z \<Rightarrow> int \<times> string \<times> 'z) \<Rightarrow> bool" where
  "number_law tree num f \<longleftrightarrow> (\<forall>p v e z ret q z'. f p v e True z = (ret, q, z') \<longrightarrow>
     (\<forall>p'. num z p' \<le> num z' p') \<and>
     (ret = ZOK \<longrightarrow> (\<exists>c. q = p @ pad10 c \<and> num z p \<le> c \<and> c < num z' p \<and> tree z' = (tree z)(q \<mapsto> v))) \<and>
     (tree z' = tree z \<or> (\<exists>c. num z p \<le> c \<and> c < num z' p \<and> tree z' = (tree z)(p @ pad10 c \<mapsto> v))))"

definition set_law :: "('z \<Rightarrow> string \<rightharpoonup> zval) \<Rightarrow> ('z \<Rightarrow> string \<Rightarrow> nat) \<Rightarrow> (string \<Rightarrow> zval \<Rightarrow> 'z \<Rightarrow> int \<times> unit \<times> 'z) \<Rightarrow> bool" where
  "set_law tree num f \<longleftrightarrow> (\<forall>p v z ret u z'. f p v z = (ret, u, z') \<longrightarrow>
     num z' = num z \<and>
     (ret = ZOK \<longrightarrow> tree z p \<noteq> None \<and> tree z' = (tree z)(p \<mapsto> v)) \<and>
     (ret = ZNONODE \<longrightarrow> tree z p = None \<and> tree z' = tree z) \<and> ret \<noteq> ZNODEEXISTS \<and>
     (tree z' = tree z \<or> tree z p \<noteq> None \<and> tree z' = (tree z)(p \<mapsto> v)))"

definition delete_law :: "('z \<Rightarrow> string \<rightharpoonup> zval) \<Rightarrow> ('z \<Rightarrow> string \<Rightarrow> nat) \<Rightarrow> (string \<Rightarrow> 'z \<Rightarrow> int \<times> unit \<times> 'z) \<Rightarrow> bool" where
  "delete_law tree num f \<longleftrightarrow> (\<forall>p z ret u z'. f p z = (ret, u, z') \<longrightarrow>
     num z' = num z \<and>
     (ret = ZOK \<longrightarrow> tree z' = (tree z)(p := None)) \<and>
     (ret = ZNONODE \<longrightarrow> tree z p = None \<and> tree z' = tree z) \<and>
     (tree z' = tree z \<or> tree z' = (tree z)(p := None)))"

definition read_law :: "('z \<Rightarrow> string \<rightharpoonup> zval) \<Rightarrow> ('z \<Rightarrow> string \<Rightarrow> nat) \<Rightarrow> (string \<Rightarrow> 'z \<Rightarrow> int \<times> 'a \<times> 'z) \<Rightarrow> (zval \<Rightarrow> 'a) \<Rightarrow> bool" where
  "read_law tree num f val \<longleftrightarrow> (\<forall>p z ret v z'. f p z = (ret, v, z') \<longrightarrow>
     num z' = num z \<and> tree z' = tree z \<and>
     (ret = ZOK \<longrightarrow> (\<exists>x. tree z p = Some x \<and> v = val x)) \<and> (ret = ZNONODE \<longrightarrow> tree z p = None))"

text \<open>The children of a path are the names below it, each once.\<close>

definition children_law :: "('z \<Rightarrow> string \<rightharpoonup> zval) \<Rightarrow> ('z \<Rightarrow> string \<Rightarrow> nat) \<Rightarrow> (string \<Rightarrow> 'z \<Rightarrow> int \<times> string list \<times> 'z) \<Rightarrow> bool" where
  "children_law tree num f \<longleftrightarrow> (\<forall>p z ret ns z'. f p z = (ret, ns, z') \<longrightarrow>
     num z' = num z \<and> tree z' = tree z \<and>
     (ret = ZOK \<longrightarrow> distinct ns \<and> (\<forall>n. n \<in> set ns \<longleftrightarrow> CHR ''/'' \<notin> set n \<and> tree z (p @ ''/'' @ n) \<noteq> None)))"

definition zoo_laws :: "'z zoo \<Rightarrow> ('z \<Rightarrow> string \<rightharpoonup> zval) \<Rightarrow> ('z \<Rightarrow> string \<Rightarrow> nat) \<Rightarrow> bool" where
  "zoo_laws zoo tree num \<longleftrightarrow>
     create_law tree num (ZooCreate zoo) \<and> number_law tree num (ZooCreate zoo) \<and> set_law tree num (ZooSet zoo) \<and>
     delete_law tree num (ZooDelete zoo) \<and> read_law tree num (ZooGet zoo) id \<and> read_law tree num (ZooExists zoo) (\<lambda>_. ()) \<and>
     read_law tree num (ZooWget zoo) id \<and> children_law tree num (ZooWgetChildren zoo)"

lemma zoo_lawsD:
  assumes "zoo_laws zoo tree num"
  shows "create_law tree num (ZooCreate zoo)" "number_law tree num (ZooCreate zoo)" "set_law tree num (ZooSet zoo)"
    "delete_law tree num (ZooDelete zoo)" "read_law tree num (ZooGet zoo) id" "read_law tree num (ZooExists zoo) (\<lambda>_. ())"
    "read_law tree num (ZooWget zoo) id" "children_law tree num (ZooWgetChildren zoo)"
  using assms by (simp_all add: zoo_laws_def)

section \<open>Repetition\<close>

text \<open>A property of one call that survives repetition holds for the repeated call.\<close>

lemma retry_rule:
  assumes "retry n final f z = (ret, a, z')"
    and call: "\<And>z ret a z'. f z = (ret, a, z') \<Longrightarrow> R z ret a z'"
    and again: "\<And>z ret a z1 ret' a' z2. R z ret a z1 \<Longrightarrow> ret \<notin> final \<Longrightarrow> R z1 ret' a' z2 \<Longrightarrow> R z ret' a' z2"
  shows "R z ret a z'"
  using assms(1)
proof (induction n arbitrary: z)
  case (Suc n)
  obtain r b z1 where f: "f z = (r, b, z1)" by (metis prod_cases3)
  show ?case
  proof (cases "r \<in> final \<or> n = 0")
    case True
    then show ?thesis using Suc.prems f call [OF f] by auto
  next
    case False
    then have "R z1 ret a z'" using Suc.prems f Suc.IH [of z1] by simp
    with again call [OF f] False show ?thesis by blast
  qed
qed (use call in simp)

lemma read_retry:
  assumes "read_law tree num (\<lambda>p. f p) val"
  shows "read_law tree num (\<lambda>p. retry n access_final (f p)) val"
proof -
  have "num z' = num z \<and> tree z' = tree z \<and>
      (ret = ZOK \<longrightarrow> (\<exists>x. tree z p = Some x \<and> v = val x)) \<and> (ret = ZNONODE \<longrightarrow> tree z p = None)"
    if "retry n access_final (f p) z = (ret, v, z')" for p z ret v z'
    by (rule retry_rule [OF that]) (use assms in \<open>auto simp: read_law_def\<close>)
  then show ?thesis unfolding read_law_def by blast
qed

lemma children_retry:
  assumes "children_law tree num f"
  shows "children_law tree num (\<lambda>p. retry n access_final (f p))"
proof -
  have "num z' = num z \<and> tree z' = tree z \<and>
     (ret = ZOK \<longrightarrow> distinct ns \<and> (\<forall>n. n \<in> set ns \<longleftrightarrow> CHR ''/'' \<notin> set n \<and> tree z (p @ ''/'' @ n) \<noteq> None))"
    if "retry n access_final (f p) z = (ret, ns, z')" for p z ret ns z'
    by (rule retry_rule [OF that]) (use assms in \<open>auto simp: children_law_def\<close>)
  then show ?thesis unfolding children_law_def by blast
qed

lemma set_lawD:
  assumes "set_law tree num f" "f p v z = (ret, u, z')"
  shows "num z' = num z" "ret = ZOK \<Longrightarrow> tree z p \<noteq> None \<and> tree z' = (tree z)(p \<mapsto> v)"
    "tree z' = tree z \<or> tree z p \<noteq> None \<and> tree z' = (tree z)(p \<mapsto> v)" "ret \<noteq> ZNODEEXISTS"
  using assms(1) [unfolded set_law_def, rule_format, OF assms(2)] by simp_all

lemma set_retry:
  assumes "set_law tree num f" "retry n access_final (f p v) z = (ret, u, z')"
  shows "num z' = num z \<and> (ret = ZOK \<longrightarrow> tree z p \<noteq> None \<and> tree z' = (tree z)(p \<mapsto> v)) \<and>
     ret \<noteq> ZNODEEXISTS \<and> (tree z' = tree z \<or> tree z p \<noteq> None \<and> tree z' = (tree z)(p \<mapsto> v))"
proof (rule retry_rule [OF assms(2)])
  fix z ret z' and u :: unit
  assume "f p v z = (ret, u, z')"
  from set_lawD [OF assms(1) this]
  show "num z' = num z \<and> (ret = ZOK \<longrightarrow> tree z p \<noteq> None \<and> tree z' = (tree z)(p \<mapsto> v)) \<and>
     ret \<noteq> ZNODEEXISTS \<and> (tree z' = tree z \<or> tree z p \<noteq> None \<and> tree z' = (tree z)(p \<mapsto> v))" by blast
next
  fix z1 z2 z3 and ret ret' :: int
  let ?R = "\<lambda>z1 ret z2. num z2 = num z1 \<and> (ret = ZOK \<longrightarrow> tree z1 p \<noteq> None \<and> tree z2 = (tree z1)(p \<mapsto> v)) \<and>
     ret \<noteq> ZNODEEXISTS \<and> (tree z2 = tree z1 \<or> tree z1 p \<noteq> None \<and> tree z2 = (tree z1)(p \<mapsto> v))"
  assume 1: "?R z1 ret z2" and 2: "?R z2 ret' z3"
  from 1 consider "tree z2 = tree z1" | "tree z1 p \<noteq> None" "tree z2 = (tree z1)(p \<mapsto> v)" by blast
  then show "?R z1 ret' z3" by cases (use 1 2 in simp_all)
qed

text \<open>A deletion whose answer was lost is repeated and then finds no znode.\<close>

lemma delete_lawD:
  assumes "delete_law tree num f" "f p z = (ret, u, z')"
  shows "num z' = num z" "ret = ZOK \<Longrightarrow> tree z' = (tree z)(p := None)" "ret = ZNONODE \<Longrightarrow> tree z' = (tree z)(p := None)"
    "tree z' = tree z \<or> tree z' = (tree z)(p := None)"
  using assms(1) [unfolded delete_law_def, rule_format, OF assms(2)] by (simp_all add: fun_upd_idem)

lemma delete_retry:
  assumes "delete_law tree num f" "retry n access_final (f p) z = (ret, u, z')"
  shows "num z' = num z \<and> (ret = ZOK \<or> ret = ZNONODE \<longrightarrow> tree z' = (tree z)(p := None)) \<and>
     (tree z' = tree z \<or> tree z' = (tree z)(p := None))"
proof (rule retry_rule [OF assms(2)])
  fix z ret z' and u :: unit
  assume "f p z = (ret, u, z')"
  from delete_lawD [OF assms(1) this]
  show "num z' = num z \<and> (ret = ZOK \<or> ret = ZNONODE \<longrightarrow> tree z' = (tree z)(p := None)) \<and>
     (tree z' = tree z \<or> tree z' = (tree z)(p := None))" by blast
next
  fix z1 z2 z3 and ret ret' :: int
  let ?R = "\<lambda>z1 ret z2. num z2 = num z1 \<and> (ret = ZOK \<or> ret = ZNONODE \<longrightarrow> tree z2 = (tree z1)(p := None)) \<and>
     (tree z2 = tree z1 \<or> tree z2 = (tree z1)(p := None))"
  assume 1: "?R z1 ret z2" and 2: "?R z2 ret' z3"
  from 1 consider "tree z2 = tree z1" | "tree z2 = (tree z1)(p := None)" by blast
  then show "?R z1 ret' z3" by cases (use 1 2 in auto)
qed

text \<open>
  A creation whose answer was lost is repeated and then finds its own znode: the znode can be new
  although the answer is \<open>ZNODEEXISTS\<close>.
\<close>

lemma create_lawD:
  assumes "create_law tree num f" "f p v e False z = (ret, q, z')"
  shows "num z' = num z" "ret = ZOK \<Longrightarrow> tree z' p = Some v" "ret = ZNODEEXISTS \<Longrightarrow> tree z' p \<noteq> None"
    "tree z' = tree z \<or> tree z p = None \<and> tree z' = (tree z)(p \<mapsto> v)"
  using assms(1) [unfolded create_law_def, rule_format, OF assms(2)] by simp_all

lemma create_retry:
  assumes "create_law tree num f" "retry n create_final (f p v e False) z = (ret, q, z')"
  shows "num z' = num z \<and> (ret = ZOK \<or> ret = ZNODEEXISTS \<longrightarrow> tree z' p \<noteq> None) \<and> (ret = ZOK \<longrightarrow> tree z' p = Some v) \<and>
     (tree z' = tree z \<or> tree z p = None \<and> tree z' = (tree z)(p \<mapsto> v))"
proof (rule retry_rule [OF assms(2)])
  fix z ret q z'
  assume "f p v e False z = (ret, q, z')"
  from create_lawD [OF assms(1) this]
  show "num z' = num z \<and> (ret = ZOK \<or> ret = ZNODEEXISTS \<longrightarrow> tree z' p \<noteq> None) \<and> (ret = ZOK \<longrightarrow> tree z' p = Some v) \<and>
     (tree z' = tree z \<or> tree z p = None \<and> tree z' = (tree z)(p \<mapsto> v))" by auto
next
  fix z1 z2 z3 and ret ret' :: int
  let ?R = "\<lambda>z1 ret z2. num z2 = num z1 \<and> (ret = ZOK \<or> ret = ZNODEEXISTS \<longrightarrow> tree z2 p \<noteq> None) \<and> (ret = ZOK \<longrightarrow> tree z2 p = Some v) \<and>
     (tree z2 = tree z1 \<or> tree z1 p = None \<and> tree z2 = (tree z1)(p \<mapsto> v))"
  assume 1: "?R z1 ret z2" and 2: "?R z2 ret' z3"
  from 1 have "tree z2 = tree z1 \<or> tree z1 p = None \<and> tree z2 = (tree z1)(p \<mapsto> v)" by simp
  then show "?R z1 ret' z3"
  proof (elim disjE conjE)
    assume "tree z2 = tree z1"
    with 1 2 show ?thesis by simp
  next
    assume "tree z1 p = None" "tree z2 = (tree z1)(p \<mapsto> v)"
    with 1 2 show ?thesis by simp
  qed
qed

text \<open>A numbered creation that is repeated may leave further znodes below the path.\<close>

definition only_below :: "string \<Rightarrow> (string \<rightharpoonup> zval) \<Rightarrow> (string \<rightharpoonup> zval) \<Rightarrow> bool" where
  "only_below p t t' \<longleftrightarrow> (\<forall>q. (\<forall>c. q \<noteq> p @ pad10 c) \<longrightarrow> t' q = t q)"

lemma number_lawD:
  assumes "number_law tree num f" "f p v e True z = (ret, q, z')"
  shows "num z p' \<le> num z' p'" "ret = ZOK \<Longrightarrow> \<exists>c. q = p @ pad10 c \<and> num z p \<le> c \<and> c < num z' p" "only_below p (tree z) (tree z')"
proof -
  note l = assms(1) [unfolded number_law_def, rule_format, OF assms(2)]
  show "num z p' \<le> num z' p'" "ret = ZOK \<Longrightarrow> \<exists>c. q = p @ pad10 c \<and> num z p \<le> c \<and> c < num z' p" using l by blast+
  from l have "tree z' = tree z \<or> (\<exists>c. tree z' = (tree z)(p @ pad10 c \<mapsto> v))" by blast
  then show "only_below p (tree z) (tree z')" by (elim disjE exE) (simp_all add: only_below_def)
qed

lemma number_retry:
  assumes "number_law tree num f" "retry n create_final (f p v e True) z = (ret, q, z')"
  shows "(\<forall>p'. num z p' \<le> num z' p') \<and> only_below p (tree z) (tree z') \<and>
     (ret = ZOK \<longrightarrow> (\<exists>c. q = p @ pad10 c \<and> num z p \<le> c \<and> c < num z' p))"
proof (rule retry_rule [OF assms(2)])
  fix z ret q z'
  assume "f p v e True z = (ret, q, z')"
  from number_lawD [OF assms(1) this] show "(\<forall>p'. num z p' \<le> num z' p') \<and> only_below p (tree z) (tree z') \<and>
     (ret = ZOK \<longrightarrow> (\<exists>c. q = p @ pad10 c \<and> num z p \<le> c \<and> c < num z' p))" by blast
next
  fix z1 ret q z2 ret' q' z3
  let ?R = "\<lambda>z ret q z'. (\<forall>p'. num z p' \<le> num z' p') \<and> only_below p (tree z) (tree z') \<and>
     (ret = ZOK \<longrightarrow> (\<exists>c. q = p @ pad10 c \<and> num z p \<le> c \<and> c < num z' p))"
  assume 1: "?R z1 ret q z2" and 2: "?R z2 ret' q' z3"
  then have "\<forall>p'. num z1 p' \<le> num z3 p'" by (meson order_trans)
  moreover have "only_below p (tree z1) (tree z3)" using 1 2 by (simp add: only_below_def)
  moreover have "ret' = ZOK \<longrightarrow> (\<exists>c. q' = p @ pad10 c \<and> num z1 p \<le> c \<and> c < num z3 p)" 
  proof
    assume "ret' = ZOK"
    with 2 obtain c where "q' = p @ pad10 c" "num z2 p \<le> c" "c < num z3 p" by blast
    moreover have "num z1 p \<le> num z2 p" using 1 by blast
    ultimately show "\<exists>c. q' = p @ pad10 c \<and> num z1 p \<le> c \<and> c < num z3 p" by (intro exI [of _ c]) simp
  qed
  ultimately show "?R z1 ret' q' z3" by blast
qed

section \<open>A reference implementation\<close>

text \<open>The laws can hold: a tree in memory that always answers.\<close>

record mem_zk =
  mnodes :: "(string \<times> zval) list"
  mnum :: nat

definition mem_create :: "string \<Rightarrow> zval \<Rightarrow> bool \<Rightarrow> bool \<Rightarrow> mem_zk \<Rightarrow> int \<times> string \<times> mem_zk" where
  "mem_create p v e sequ z =
     (if sequ then (ZOK, p @ pad10 (mnum z), z\<lparr>mnodes := (p @ pad10 (mnum z), v) # mnodes z, mnum := mnum z + 1\<rparr>)
      else if map_of (mnodes z) p \<noteq> None then (ZNODEEXISTS, p, z)
      else (ZOK, p, z\<lparr>mnodes := (p, v) # mnodes z\<rparr>))"

definition mem_get :: "string \<Rightarrow> mem_zk \<Rightarrow> int \<times> zval \<times> mem_zk" where
  "mem_get p z = (case map_of (mnodes z) p of None \<Rightarrow> (ZNONODE, Null, z) | Some v \<Rightarrow> (ZOK, v, z))"

definition mem_exists :: "string \<Rightarrow> mem_zk \<Rightarrow> int \<times> unit \<times> mem_zk" where
  "mem_exists p z = (if map_of (mnodes z) p = None then ZNONODE else ZOK, (), z)"

definition mem_set :: "string \<Rightarrow> zval \<Rightarrow> mem_zk \<Rightarrow> int \<times> unit \<times> mem_zk" where
  "mem_set p v z = (if map_of (mnodes z) p = None then (ZNONODE, (), z) else (ZOK, (), z\<lparr>mnodes := (p, v) # mnodes z\<rparr>))"

definition mem_delete :: "string \<Rightarrow> mem_zk \<Rightarrow> int \<times> unit \<times> mem_zk" where
  "mem_delete p z =
     (if map_of (mnodes z) p = None then (ZNONODE, (), z) else (ZOK, (), z\<lparr>mnodes := filter (\<lambda>(q, _). q \<noteq> p) (mnodes z)\<rparr>))"

definition mem_children :: "string \<Rightarrow> mem_zk \<Rightarrow> int \<times> string list \<times> mem_zk" where
  "mem_children p z =
     (ZOK, remdups (filter (\<lambda>n. CHR ''/'' \<notin> set n) (map (drop (length p + 1)) (filter (\<lambda>q. take (length p + 1) q = p @ ''/'') (map fst (mnodes z))))), z)"

definition mem_zoo :: "mem_zk zoo" where
  "mem_zoo = \<lparr>ZooCreate = mem_create, ZooDelete = mem_delete, ZooGet = mem_get, ZooExists = mem_exists, ZooSet = mem_set,
     ZooWget = mem_get, ZooWgetChildren = mem_children\<rparr>"

abbreviation mem_tree :: "mem_zk \<Rightarrow> string \<rightharpoonup> zval" where "mem_tree z \<equiv> map_of (mnodes z)"
abbreviation mem_num :: "mem_zk \<Rightarrow> string \<Rightarrow> nat" where "mem_num z \<equiv> \<lambda>_. mnum z"

lemma mem_laws: "zoo_laws mem_zoo mem_tree mem_num"
proof -
  have "create_law mem_tree mem_num mem_create" by (auto simp: create_law_def mem_create_def split: if_splits)
  moreover have "number_law mem_tree mem_num mem_create" by (auto simp: number_law_def mem_create_def)
  moreover have "set_law mem_tree mem_num mem_set" by (auto simp: set_law_def mem_set_def split: if_splits)
  moreover have "map_of (filter (\<lambda>(q, _). q \<noteq> p) xs) = (map_of xs)(p := None)" for p and xs :: "(string \<times> zval) list"
    by (induction xs) (auto simp: fun_eq_iff)
  then have "delete_law mem_tree mem_num mem_delete"
    by (auto simp: delete_law_def mem_delete_def split: if_splits)
  moreover have "read_law mem_tree mem_num mem_get id" by (auto simp: read_law_def mem_get_def split: option.splits)
  moreover have "read_law mem_tree mem_num mem_exists (\<lambda>_. ())" by (auto simp: read_law_def mem_exists_def split: if_splits)
  moreover have "n \<in> drop (length p + 1) ` {q \<in> fst ` set xs. take (length p + 1) q = p @ ''/''} \<longleftrightarrow> map_of xs (p @ ''/'' @ n) \<noteq> None"
    for p n and xs :: "(string \<times> zval) list"
  proof -
    have "n \<in> drop (length p + 1) ` {q \<in> fst ` set xs. take (length p + 1) q = p @ ''/''} \<longleftrightarrow> p @ ''/'' @ n \<in> fst ` set xs"
    proof
      assume "n \<in> drop (length p + 1) ` {q \<in> fst ` set xs. take (length p + 1) q = p @ ''/''}"
      then obtain q where "n = drop (length p + 1) q" "q \<in> fst ` set xs" "take (length p + 1) q = p @ ''/''" by auto
      then show "p @ ''/'' @ n \<in> fst ` set xs" by (metis append.assoc append_take_drop_id)
    next
      assume "p @ ''/'' @ n \<in> fst ` set xs"
      then show "n \<in> drop (length p + 1) ` {q \<in> fst ` set xs. take (length p + 1) q = p @ ''/''}"
        by (intro image_eqI [of _ _ "p @ ''/'' @ n"]) auto
    qed
    then show ?thesis by (simp add: map_of_eq_None_iff)
  qed
  then have "children_law mem_tree mem_num mem_children" by (auto simp: children_law_def mem_children_def)
  ultimately show ?thesis by (simp add: zoo_laws_def mem_zoo_def)
qed

end
