(* ===== verification/CmZkProps.thy ===== *)
theory CmZkProps
  imports CmZkLaws
begin

text \<open>
  Properties of the adapter of ZooKeeper: the numbers of the nodes, the election of the master, and
  the lists of a pool that are written and read back.
\<close>

section \<open>The calls with repetition\<close>

lemma zk_read:
  assumes "zoo_laws zoo tree num"
  shows "read_law tree num (CmZkGet zoo) id" "read_law tree num (CmZkWget zoo) id" "read_law tree num (CmZkExists zoo) (\<lambda>_. ())"
    "children_law tree num (CmZkWgetChildren zoo)"
  unfolding CmZkGet_def CmZkWget_def CmZkExists_def CmZkWgetChildren_def
  by (intro read_retry children_retry zoo_lawsD [OF assms])+

lemma read_lawD:
  assumes "read_law tree num f val" "f p z = (ret, v, z')"
  shows "num z' = num z" "tree z' = tree z" "ret = ZOK \<Longrightarrow> \<exists>x. tree z p = Some x \<and> v = val x" "ret = ZNONODE \<Longrightarrow> tree z p = None"
  using assms(1) [unfolded read_law_def, rule_format, OF assms(2)] by simp_all

lemmas get_law = read_lawD [OF zk_read(1)]
lemmas wget_law = read_lawD [OF zk_read(2)]
lemmas exists_law = read_lawD [OF zk_read(3)]

lemma zk_set:
  assumes "zoo_laws zoo tree num" "CmZkSet zoo p v z = (ret, u, z')"
  shows "num z' = num z" "ret = ZOK \<Longrightarrow> tree z' = (tree z)(p \<mapsto> v)" "ret \<noteq> ZNODEEXISTS"
    "tree z' = tree z \<or> tree z' = (tree z)(p \<mapsto> v)"
  using set_retry [OF zoo_lawsD(3) [OF assms(1)] assms(2) [unfolded CmZkSet_def]] by auto

lemma zk_delete:
  assumes "zoo_laws zoo tree num" "CmZkDelete zoo p z = (ret, u, z')"
  shows "num z' = num z" "ret = ZOK \<or> ret = ZNONODE \<Longrightarrow> tree z' = (tree z)(p := None)"
    "tree z' = tree z \<or> tree z' = (tree z)(p := None)"
  using delete_retry [OF zoo_lawsD(4) [OF assms(1)] assms(2) [unfolded CmZkDelete_def]] by auto

lemma zk_create:
  assumes "zoo_laws zoo tree num" "CmZkCreate zoo p v e False z = (ret, q, z')"
  shows "num z' = num z" "ret = ZOK \<Longrightarrow> tree z' p = Some v" "ret = ZOK \<or> ret = ZNODEEXISTS \<Longrightarrow> tree z' p \<noteq> None"
    "tree z' = tree z \<or> tree z p = None \<and> tree z' = (tree z)(p \<mapsto> v)"
  using create_retry [OF zoo_lawsD(1) [OF assms(1)] assms(2) [unfolded CmZkCreate_def]] by auto

lemma zk_number:
  assumes "zoo_laws zoo tree num" "CmZkCreate zoo p v e True z = (ret, q, z')"
  shows "num z p' \<le> num z' p'" "only_below p (tree z) (tree z')"
    "ret = ZOK \<Longrightarrow> \<exists>c. q = p @ pad10 c \<and> num z p \<le> c \<and> c < num z' p"
  using number_retry [OF zoo_lawsD(2) [OF assms(1)] assms(2) [unfolded CmZkCreate_def]] by auto

lemma put_law:
  assumes "zoo_laws zoo tree num" "put_znode zoo path v z = (ret, z')"
  shows "num z' = num z" "ret = CM_OK \<Longrightarrow> tree z' path = Some v" "tree z' = tree z \<or> tree z' = (tree z)(path \<mapsto> v)"
proof -
  obtain r u z1 where e: "CmZkExists zoo path z = (r, u, z1)" by (metis prod_cases3)
  obtain rc q zc where c: "CmZkCreate zoo path v False False z1 = (rc, q, zc)" by (metis prod_cases3)
  obtain rs us zs where s: "CmZkSet zoo path v z1 = (rs, us, zs)" by (metis prod_cases3)
  note l = exists_law(1,2) [OF assms(1) e] zk_create [OF assms(1) c] zk_set [OF assms(1) s]
  have "num z' = num z \<and> (ret = CM_OK \<longrightarrow> tree z' path = Some v) \<and> (tree z' = tree z \<or> tree z' = (tree z)(path \<mapsto> v))"
    using assms(2) e c s l unfolding put_znode_def at_path_def by (auto split: if_splits)
  then show "num z' = num z" "ret = CM_OK \<Longrightarrow> tree z' path = Some v" "tree z' = tree z \<or> tree z' = (tree z)(path \<mapsto> v)"
    by blast+
qed

section \<open>The numbers of the nodes\<close>

text \<open>Every address has its own number, and all numbers given so far are below the next one.\<close>

definition ids_ok :: "('z \<Rightarrow> string \<rightharpoonup> zval) \<Rightarrow> ('z \<Rightarrow> string \<Rightarrow> nat) \<Rightarrow> nat \<Rightarrow> 'z \<Rightarrow> bool" where
  "ids_ok tree num p z \<longleftrightarrow>
     (\<forall>ip port v. tree z (ip_path p ip port) = Some v \<longrightarrow> (\<exists>n. v = Id n \<and> n < num z (pool_path p ''nodeid_generator/''))) \<and>
     (\<forall>ip port ip' port' n. tree z (ip_path p ip port) = Some (Id n) \<longrightarrow> tree z (ip_path p ip' port') = Some (Id n) \<longrightarrow>
        ip = ip' \<and> port = port')"

lemma ids_okD:
  assumes "ids_ok tree num p z"
  shows "tree z (ip_path p ip port) = Some v \<Longrightarrow> \<exists>n. v = Id n \<and> n < num z (pool_path p ''nodeid_generator/'')"
    "tree z (ip_path p ip port) = Some (Id n) \<Longrightarrow> tree z (ip_path p ip' port') = Some (Id n) \<Longrightarrow> ip = ip' \<and> port = port'"
  using assms unfolding ids_ok_def by blast+

lemma ids_ok_frame:
  assumes "ids_ok tree num p z" "\<And>ip port. tree z' (ip_path p ip port) = tree z (ip_path p ip port)"
    "num z (pool_path p ''nodeid_generator/'') \<le> num z' (pool_path p ''nodeid_generator/'')"
  shows "ids_ok tree num p z'"
  unfolding ids_ok_def assms(2)
  using ids_okD [OF assms(1)] order_less_le_trans [OF _ assms(3)] by blast

text \<open>A number that has just been given is entered for a new address.\<close>

lemma ids_ok_new:
  assumes "ids_ok tree num p z" "tree z (ip_path p ip port) = None" "num z (pool_path p ''nodeid_generator/'') \<le> c"
    "c < num z' (pool_path p ''nodeid_generator/'')" "\<And>i q. tree z' (ip_path p i q) = (if i = ip \<and> q = port then Some (Id c) else tree z (ip_path p i q))"
  shows "ids_ok tree num p z'"
proof -
  have old: "\<exists>m. v = Id m \<and> m < c" if "tree z (ip_path p i q) = Some v" for i q v
    using ids_okD(1) [OF assms(1) that] assms(3) by auto
  show ?thesis
    unfolding ids_ok_def assms(5)
  proof (intro conjI allI impI)
    fix i q v
    assume "(if i = ip \<and> q = port then Some (Id c) else tree z (ip_path p i q)) = Some v"
    then show "\<exists>n. v = Id n \<and> n < num z' (pool_path p ''nodeid_generator/'')"
      using old [of i q v] assms(4) by (auto split: if_splits)
  next
    fix i q i' q' n
    assume 1: "(if i = ip \<and> q = port then Some (Id c) else tree z (ip_path p i q)) = Some (Id n)"
      and 2: "(if i' = ip \<and> q' = port then Some (Id c) else tree z (ip_path p i' q')) = Some (Id n)"
    show "i = i'" "q = q'"
      using 1 2 old [of i q] old [of i' q'] ids_okD(2) [OF assms(1), of i q n i' q'] by (auto split: if_splits)
  qed
qed

text \<open>What the registration of an address achieves: nothing that was entered changes, and success means that the address is entered.\<close>

definition gen_good ::
  "('z \<Rightarrow> string \<rightharpoonup> zval) \<Rightarrow> ('z \<Rightarrow> string \<Rightarrow> nat) \<Rightarrow> nat \<Rightarrow> reg_info \<Rightarrow> 'z \<Rightarrow> int \<Rightarrow> reg_info \<Rightarrow> 'z \<Rightarrow> bool" where
  "gen_good tree num p info z ret info' z' \<longleftrightarrow> ids_ok tree num p z' \<and>
     (\<forall>ip port n. tree z (ip_path p ip port) = Some (Id n) \<longrightarrow> tree z' (ip_path p ip port) = Some (Id n)) \<and>
     nip info' = nip info \<and> nport info' = nport info \<and>
     (ret = CM_OK \<longrightarrow> tree z' (ip_path p (nip info) (nport info)) = Some (Id (nid info')))"

lemma gen_good_same:
  assumes "ids_ok tree num p z" "\<And>ip port. tree z' (ip_path p ip port) = tree z (ip_path p ip port)"
    "num z (pool_path p ''nodeid_generator/'') \<le> num z' (pool_path p ''nodeid_generator/'')" "ret \<noteq> CM_OK"
    "nip info' = nip info" "nport info' = nport info"
  shows "gen_good tree num p info z ret info' z'"
proof -
  have "ids_ok tree num p z'" by (rule ids_ok_frame [of tree num p z, OF assms(1)]) (simp_all add: assms(2,3))
  then show ?thesis unfolding gen_good_def assms(2) using assms(4-6) by simp
qed

lemma gen_known:
  assumes "zoo_laws zoo tree num" "ids_ok tree num p z" "tree z (ip_path p (nip info) (nport info)) = Some (Id n)"
    "CmClientZkRecordNodeId zoo p (info\<lparr>nid := n\<rparr>) z = (ret, z')"
  shows "gen_good tree num p info z ret (info\<lparr>nid := n\<rparr>) z'"
proof -
  note l = put_law [OF assms(1) assms(4) [unfolded CmClientZkRecordNodeId_def]]
  from l(3) have t: "tree z' = tree z"
    using assms(3) by (auto simp: fun_upd_idem)
  then show ?thesis using ids_ok_frame [OF assms(2), of z'] l(1) assms(3) by (simp add: gen_good_def)
qed

lemma gen_new:
  assumes "zoo_laws zoo tree num" "ids_ok tree num p z" "tree z (ip_path p (nip info) (nport info)) = None"
    and same: "\<And>ip port. tree z1 (ip_path p ip port) = tree z (ip_path p ip port)"
    and k: "num z (pool_path p ''nodeid_generator/'') \<le> k" "k < num z1 (pool_path p ''nodeid_generator/'')"
    and rec: "CmClientZkRecordNodeId zoo p (info\<lparr>nid := k\<rparr>) z1 = (ret, z')"
  shows "gen_good tree num p info z ret (info\<lparr>nid := k\<rparr>) z'"
proof -
  note l = put_law [OF assms(1) rec [unfolded CmClientZkRecordNodeId_def]]
  from l(3) have "ids_ok tree num p z' \<and> (\<forall>i j n. tree z (ip_path p i j) = Some (Id n) \<longrightarrow> tree z' (ip_path p i j) = Some (Id n))"
  proof
    assume "tree z' = tree z1"
    then show ?thesis using ids_ok_frame [OF assms(2), of z'] same l(1) k by simp
  next
    assume "tree z' = (tree z1)(ip_path p (nip (info\<lparr>nid := k\<rparr>)) (nport (info\<lparr>nid := k\<rparr>)) \<mapsto> Id (nid (info\<lparr>nid := k\<rparr>)))"
    then have e: "tree z' (ip_path p i j) = (if i = nip info \<and> j = nport info then Some (Id k) else tree z (ip_path p i j))" for i j
      using same by (simp add: ip_path_inj)
    have "ids_ok tree num p z'" by (rule ids_ok_new [OF assms(2,3) k(1) _ e]) (use k l(1) in simp)
    then show ?thesis using e assms(3) by simp
  qed
  then show ?thesis using l(2) by (simp add: gen_good_def)
qed

text \<open>The part of the registration that asks for a new number.\<close>

lemma gen_number:
  assumes "zoo_laws zoo tree num" "ids_ok tree num p z" "CmZkCreate zoo (pool_path p ''nodeid_generator/'') Null True True z = (rc, q, z1)"
    "CmZkDelete zoo q z1 = (rd, u, z2)"
  shows "tree z1 (ip_path p ip port) = tree z (ip_path p ip port)"
    "num z (pool_path p ''nodeid_generator/'') \<le> num z1 (pool_path p ''nodeid_generator/'')" "num z2 = num z1"
    "rc = ZOK \<Longrightarrow> tree z2 (ip_path p ip port) = tree z (ip_path p ip port)"
    "rc = ZOK \<Longrightarrow> length (pool_path p ''nodeid_generator/'') < CM_ZNODE_PATH_LEN \<Longrightarrow>
       CmClientZkGetNodeIdByPath (Some q) (Some (pool_path p ''nodeid_generator/'')) \<noteq> UINT16_MAX \<Longrightarrow>
       num z (pool_path p ''nodeid_generator/'') \<le> CmClientZkGetNodeIdByPath (Some q) (Some (pool_path p ''nodeid_generator/'')) \<and>
       CmClientZkGetNodeIdByPath (Some q) (Some (pool_path p ''nodeid_generator/'')) < num z1 (pool_path p ''nodeid_generator/'')"
proof -
  note c = zk_number [OF assms(1,3)] and d = zk_delete [OF assms(1,4)]
  show t1: "tree z1 (ip_path p ip port) = tree z (ip_path p ip port)"
    using c(2) generator_not_ip [of p _ p ip port] unfolding only_below_def by metis
  show "num z (pool_path p ''nodeid_generator/'') \<le> num z1 (pool_path p ''nodeid_generator/'')" "num z2 = num z1" using c(1) d(1) by auto
  {
    assume "rc = ZOK"
    then obtain k where k: "q = pool_path p ''nodeid_generator/'' @ pad10 k" "num z (pool_path p ''nodeid_generator/'') \<le> k"
      "k < num z1 (pool_path p ''nodeid_generator/'')" using c(3) by blast
    show "tree z2 (ip_path p ip port) = tree z (ip_path p ip port)"
      using d(3) generator_not_ip [of p "pad10 k" p ip port] t1 k(1) by auto
    assume "length (pool_path p ''nodeid_generator/'') < CM_ZNODE_PATH_LEN"
      and "CmClientZkGetNodeIdByPath (Some q) (Some (pool_path p ''nodeid_generator/'')) \<noteq> UINT16_MAX"
    with id_by_path [of "pool_path p ''nodeid_generator/''" k] k
    show "num z (pool_path p ''nodeid_generator/'') \<le> CmClientZkGetNodeIdByPath (Some q) (Some (pool_path p ''nodeid_generator/'')) \<and>
       CmClientZkGetNodeIdByPath (Some q) (Some (pool_path p ''nodeid_generator/'')) < num z1 (pool_path p ''nodeid_generator/'')"
      by (auto simp: CmClientZkGetNodeIdByPath_def split: if_splits)
  }
qed

lemma gen_node_id:
  assumes "zoo_laws zoo tree num" "ids_ok tree num p z"
  shows "\<exists>ret info' z'. CmClientZkGenNodeId zoo p info z = Some (ret, info', z') \<and> gen_good tree num p info z ret info' z'"
proof -
  let ?path = "ip_path p (nip info) (nport info)" and ?gen = "pool_path p ''nodeid_generator/''"
  obtain r v z1 where g: "CmZkGet zoo ?path z = (r, v, z1)" by (metis prod_cases3)
  note gl = get_law [OF assms(1) g]
  have ok1: "ids_ok tree num p z1" using ids_ok_frame [OF assms(2), of z1] gl(1,2) by simp
  have good1: "gen_good tree num p info z1 ret i z' \<Longrightarrow> gen_good tree num p info z ret i z'" for ret i z'
    using gl(2) by (simp add: gen_good_def)
  consider "CM_ZNODE_PATH_LEN \<le> length ?path \<or> (r \<noteq> ZOK \<and> r \<noteq> ZNONODE)" | "length ?path < CM_ZNODE_PATH_LEN" "r = ZOK"
    | "length ?path < CM_ZNODE_PATH_LEN" "r = ZNONODE" by linarith
  then show ?thesis
  proof cases
    case 1
    have "gen_good tree num p info z CM_ERR info z" "gen_good tree num p info z CM_ERR info z1"
      by (rule gen_good_same; use assms(2) gl(1,2) in simp)+
    with 1 g show ?thesis by (auto simp: CmClientZkGenNodeId_def at_path_def)
  next
    case 2
    then obtain x where x: "tree z ?path = Some x" "v = x" using gl(3) by auto
    then obtain n where n: "v = Id n" using ids_okD(1) [OF assms(2) x(1)] by blast
    obtain rp z' where pz: "CmClientZkRecordNodeId zoo p (info\<lparr>nid := n\<rparr>) z1 = (rp, z')" by fastforce
    have "gen_good tree num p info z rp (info\<lparr>nid := n\<rparr>) z'"
      by (rule good1, rule gen_known [OF assms(1) ok1 _ pz]) (use x n gl(2) in simp)
    with 2 g n pz show ?thesis by (simp add: CmClientZkGenNodeId_def at_path_def)
  next
    case 3
    obtain rc q z2 where c: "CmZkCreate zoo ?gen Null True True z1 = (rc, q, z2)" by (metis prod_cases3)
    obtain rd u z3 where d: "CmZkDelete zoo q z2 = (rd, u, z3)" by (metis prod_cases3)
    note n = gen_number [OF assms(1) ok1 c d]
    define k where "k = CmClientZkGetNodeIdByPath (Some q) (Some ?gen)"
    obtain rp z' where pz: "CmClientZkRecordNodeId zoo p (info\<lparr>nid := k\<rparr>) z3 = (rp, z')" by fastforce
    have e1: "gen_good tree num p info z CM_ERR info z1" by (rule gen_good_same) (use assms(2) gl in simp_all)
    have e2: "gen_good tree num p info z CM_ERR i z2" if "nip i = nip info" "nport i = nport info" for i
      by (rule gen_good_same) (use assms(2) gl(1,2) n(1,2) that in simp_all)
    have e3: "rc = ZOK \<Longrightarrow> gen_good tree num p info z CM_ERR (info\<lparr>nid := k\<rparr>) z3"
      by (rule gen_good_same) (use assms(2) gl(1,2) n(2-4) in simp_all)
    have ok: "gen_good tree num p info z rp (info\<lparr>nid := k\<rparr>) z'"
      if "rc = ZOK" "length ?gen < CM_ZNODE_PATH_LEN" "k \<noteq> UINT16_MAX"
      by (rule gen_new [OF assms(1,2) gl(4) [OF 3(2)] _ _ _ pz]) (use n gl that in \<open>simp_all add: k_def\<close>)
    show ?thesis
      using 3 g c d pz e1 e2 e3 ok by (auto simp: CmClientZkGenNodeId_def at_path_def Let_def simp flip: k_def)
  qed
qed

text \<open>Registrations of several nodes, one after the other; each gives its result and the completed information.\<close>

fun gen_ids :: "'z zoo \<Rightarrow> nat \<Rightarrow> reg_info list \<Rightarrow> 'z \<Rightarrow> ((int \<times> reg_info) list \<times> 'z) option" where
  "gen_ids zoo p [] z = Some ([], z)"
| "gen_ids zoo p (i # is) z =
     (case CmClientZkGenNodeId zoo p i z of
        None \<Rightarrow> None
      | Some (ret, i', z1) \<Rightarrow> map_option (\<lambda>(rs, z2). ((ret, i') # rs, z2)) (gen_ids zoo p is z1))"

lemma gen_ids_good:
  assumes "zoo_laws zoo tree num" "ids_ok tree num p z"
  shows "\<exists>rs z'. gen_ids zoo p is z = Some (rs, z') \<and> ids_ok tree num p z' \<and>
     (\<forall>ip port n. tree z (ip_path p ip port) = Some (Id n) \<longrightarrow> tree z' (ip_path p ip port) = Some (Id n)) \<and>
     (\<forall>i. (CM_OK, i) \<in> set rs \<longrightarrow> tree z' (ip_path p (nip i) (nport i)) = Some (Id (nid i))) \<and>
     map (\<lambda>(_, i). (nip i, nport i)) rs = map (\<lambda>i. (nip i, nport i)) is"
  using assms(2)
proof (induction "is" arbitrary: z)
  case (Cons i "is")
  obtain ret i' z1 where g: "CmClientZkGenNodeId zoo p i z = Some (ret, i', z1)" "gen_good tree num p i z ret i' z1"
    using gen_node_id [OF assms(1) Cons.prems] by blast
  then have "ids_ok tree num p z1" by (simp add: gen_good_def)
  from Cons.IH [OF this] obtain rs z' where r: "gen_ids zoo p is z1 = Some (rs, z')" "ids_ok tree num p z'"
    "\<forall>ip port n. tree z1 (ip_path p ip port) = Some (Id n) \<longrightarrow> tree z' (ip_path p ip port) = Some (Id n)"
    "\<forall>i. (CM_OK, i) \<in> set rs \<longrightarrow> tree z' (ip_path p (nip i) (nport i)) = Some (Id (nid i))"
    "map (\<lambda>(_, i). (nip i, nport i)) rs = map (\<lambda>i. (nip i, nport i)) is" by blast
  with g show ?case
    by (intro exI [of _ "(ret, i') # rs"] exI [of _ z']) (auto simp: gen_good_def)
qed simp

text \<open>
  (C11) Every node gets a number of its own: in any sequence of registrations at a pool, whatever calls of
  ZooKeeper fail on the way, two registrations that succeed have the same number exactly when they
  are of the same address, so a node that comes back gets its number again.
\<close>

theorem node_ids_unique:
  assumes "zoo_laws zoo tree num" "ids_ok tree num p z"
  shows "\<exists>rs z'. gen_ids zoo p infos z = Some (rs, z') \<and> length rs = length infos \<and>
     (\<forall>i j. (CM_OK, i) \<in> set rs \<longrightarrow> (CM_OK, j) \<in> set rs \<longrightarrow>
        (nid i = nid j \<longleftrightarrow> nip i = nip j \<and> nport i = nport j))"
proof -
  obtain rs z' where r: "gen_ids zoo p infos z = Some (rs, z')" "ids_ok tree num p z'"
    "\<And>i. (CM_OK, i) \<in> set rs \<Longrightarrow> tree z' (ip_path p (nip i) (nport i)) = Some (Id (nid i))"
    "map (\<lambda>(_, i). (nip i, nport i)) rs = map (\<lambda>i. (nip i, nport i)) infos"
    using gen_ids_good [OF assms, of infos] by blast
  have "nid i = nid j \<longleftrightarrow> nip i = nip j \<and> nport i = nport j" if "(CM_OK, i) \<in> set rs" "(CM_OK, j) \<in> set rs" for i j
    using r(3) [OF that(1)] r(3) [OF that(2)] ids_okD(2) [OF r(2)] by auto
  moreover have "length rs = length infos" using arg_cong [OF r(4), of length] by simp
  ultimately show ?thesis using r(1) by blast
qed

definition node_at :: "string \<Rightarrow> reg_info" where
  "node_at ip = zero_info\<lparr>nip := ip, nport := 8080\<rparr>"

theorem node_ids_unique_witness:
  "\<exists>rs z'. gen_ids mem_zoo 0 [node_at ''10.0.0.1'', node_at ''10.0.0.2'', node_at ''10.0.0.1''] \<lparr>mnodes = [], mnum = 0\<rparr> = Some (rs, z') \<and>
     (\<forall>i j. (CM_OK, i) \<in> set rs \<longrightarrow> (CM_OK, j) \<in> set rs \<longrightarrow> (nid i = nid j \<longleftrightarrow> nip i = nip j \<and> nport i = nport j))"
proof -
  have "ids_ok mem_tree mem_num 0 \<lparr>mnodes = [], mnum = 0\<rparr>" by (simp add: ids_ok_def)
  from node_ids_unique [OF mem_laws this, of "[node_at ''10.0.0.1'', node_at ''10.0.0.2'', node_at ''10.0.0.1'']"]
  show ?thesis by blast
qed

section \<open>The election\<close>

lemma sub_role:
  assumes "zoo_laws zoo tree num" "CmServerZkSubRoleChange zoo m z = Some (ret, m', r, z')"
  shows "tree z (meta_path ''master'') = Some v \<Longrightarrow> tree z' (meta_path ''master'') = Some v" "localId m' = localId m"
    "ret = CM_OK \<Longrightarrow> tree z' (meta_path ''master'') = Some (Id (masterId m')) \<and> r = Some (srole m') \<and>
       (srole m' = CM_SERVER_MASTER \<longleftrightarrow> masterId m' = localId m)"
    "ret = CM_OK \<Longrightarrow> tree z (meta_path ''master'') = None \<Longrightarrow> srole m' = CM_SERVER_MASTER"
proof -
  let ?path = "meta_path ''master''"
  obtain rc q z1 where c: "CmZkCreate zoo ?path (Id (localId m)) True False z = (rc, q, z1)" by (metis prod_cases3)
  obtain rw w z2 where w: "CmZkWget zoo ?path z1 = (rw, w, z2)" by (metis prod_cases3)
  note cl = zk_create [OF assms(1) c] and wl = wget_law [OF assms(1) w]
  note eq = assms(2) [unfolded CmServerZkSubRoleChange_def at_path_def, simplified c w prod.case Let_def]
  have t: "tree z1 ?path = Some v" if "tree z ?path = Some v" for v using cl(4) that by auto
  have "z' = z \<or> z' = z1 \<or> z' = z2" "localId m' = localId m" using eq by (auto split: if_splits zval.splits)
  then show "tree z ?path = Some v \<Longrightarrow> tree z' ?path = Some v" "localId m' = localId m" using t wl(2) by auto
  {
    assume ok: "ret = CM_OK"
    then have f: "rc = ZOK \<or> rc = ZNODEEXISTS" "rw = ZOK" "\<exists>i. w = Id i"
      using eq by (auto split: if_splits zval.splits)
    then obtain i where i: "w = Id i" by blast
    have m': "z' = z2" "masterId m' = i" "r = Some (srole m')" "srole m' = (if localId m = i then CM_SERVER_MASTER else CM_SERVER_SLAVE)"
      using eq f i ok by (auto split: if_splits)
    have ti: "tree z1 ?path = Some (Id i)" using wl(3) [OF f(2)] i by simp
    then show "tree z' ?path = Some (Id (masterId m')) \<and> r = Some (srole m') \<and> (srole m' = CM_SERVER_MASTER \<longleftrightarrow> masterId m' = localId m)"
      using m' wl(2) by auto
    assume "tree z ?path = None"
    with ti cl(4) have "i = localId m" by auto
    then show "srole m' = CM_SERVER_MASTER" using m' by simp
  }
qed

text \<open>Servers that look for their role, one after the other.\<close>

fun elect_all :: "'z zoo \<Rightarrow> server_mgr list \<Rightarrow> 'z \<Rightarrow> ((int \<times> server_mgr) list \<times> 'z) option" where
  "elect_all zoo [] z = Some ([], z)"
| "elect_all zoo (m # ms) z =
     (case CmServerZkSubRoleChange zoo m z of
        None \<Rightarrow> None
      | Some (ret, m', r, z1) \<Rightarrow> map_option (\<lambda>(rs, z2). ((ret, m') # rs, z2)) (elect_all zoo ms z1))"

lemma elect_all_law:
  assumes "zoo_laws zoo tree num" "elect_all zoo ms z = Some (rs, z')"
  shows "(tree z (meta_path ''master'') = Some v \<longrightarrow> tree z' (meta_path ''master'') = Some v) \<and>
     (\<forall>m. (CM_OK, m) \<in> set rs \<longrightarrow> tree z' (meta_path ''master'') = Some (Id (masterId m)) \<and>
        (srole m = CM_SERVER_MASTER \<longleftrightarrow> masterId m = localId m)) \<and>
     map (localId \<circ> snd) rs = map localId ms"
  using assms(2)
proof (induction ms arbitrary: z rs v)
  case (Cons m ms)
  obtain ret m' r z1 rs1 where e: "CmServerZkSubRoleChange zoo m z = Some (ret, m', r, z1)" "elect_all zoo ms z1 = Some (rs1, z')"
    "rs = (ret, m') # rs1" using Cons.prems by (auto split: option.splits)
  note l = sub_role [OF assms(1) e(1)]
  from Cons.IH [OF e(2)] l e(3) show ?case by auto
qed simp

text \<open>
  (C18) One master: of servers with different numbers that look for their role while the znode of the
  master is not deleted, those that succeed agree on the master, and at most one of them is it.
\<close>

theorem one_master:
  assumes "zoo_laws zoo tree num" "elect_all zoo ms z = Some (rs, z')" "distinct (map localId ms)"
    and "i < length rs" "j < length rs" "rs ! i = (CM_OK, a)" "rs ! j = (CM_OK, b)"
  shows "masterId a = masterId b \<and> (srole a = CM_SERVER_MASTER \<and> srole b = CM_SERVER_MASTER \<longrightarrow> i = j)"
proof -
  have l: "tree z' (meta_path ''master'') = Some (Id (masterId m))" "srole m = CM_SERVER_MASTER \<longleftrightarrow> masterId m = localId m"
    if "(CM_OK, m) \<in> set rs" for m
    using elect_all_law [OF assms(1,2)] that by blast+
  have ids: "map (localId \<circ> snd) rs = map localId ms" using elect_all_law [OF assms(1,2)] by blast
  have m: "(CM_OK, a) \<in> set rs" "(CM_OK, b) \<in> set rs" using assms(4-7) nth_mem by metis+
  have "masterId a = masterId b" using l(1) [OF m(1)] l(1) [OF m(2)] by simp
  moreover have "i = j" if "localId a = localId b"
  proof -
    have "map (localId \<circ> snd) rs ! i = map (localId \<circ> snd) rs ! j" using assms(4-7) that by simp
    moreover have "distinct (map (localId \<circ> snd) rs)" using ids assms(3) by simp
    ultimately show ?thesis using assms(4,5) nth_eq_iff_index_eq [of "map (localId \<circ> snd) rs" i j] by (simp only: length_map)
  qed
  ultimately show ?thesis using l(2) [OF m(1)] l(2) [OF m(2)] by auto
qed

definition server_at :: "nat \<Rightarrow> server_mgr" where
  "server_at n = (CmServerZkInitMgr \<lparr>srole = CM_SERVER_SLAVE, localId = 0, masterId = 0, restore = [], roleChangeFp = False, stasks = []\<rparr>)\<lparr>localId := n\<rparr>"

theorem one_master_witness:
  "\<exists>rs z'. elect_all mem_zoo [server_at 1, server_at 2] \<lparr>mnodes = [], mnum = 0\<rparr> = Some (rs, z') \<and>
     masterId (snd (rs ! 0)) = masterId (snd (rs ! 1))"
proof -
  let ?z = "\<lparr>mnodes = [], mnum = 0\<rparr>"
  obtain rs z' where e: "elect_all mem_zoo [server_at 1, server_at 2] ?z = Some (rs, z')" "length rs = 2"
    "fst (rs ! 0) = CM_OK" "fst (rs ! 1) = CM_OK"
    by (simp add: CmServerZkSubRoleChange_def at_path_def meta_path_def CmZkCreate_def CmZkWget_def mem_zoo_def
        mem_create_def mem_get_def numeral_3_eq_3 server_at_def)
  have d: "distinct (map localId [server_at 1, server_at 2])" by (simp add: server_at_def)
  have "masterId (snd (rs ! 0)) = masterId (snd (rs ! 1))"
    using one_master [OF mem_laws e(1) d, of 0 1 "snd (rs ! 0)" "snd (rs ! 1)"] e(2-4) by (metis One_nat_def lessI less_2_cases_iff prod.collapse)
  with e(1) show ?thesis by blast
qed

end
