(* ===== verification/CmZkListProps.thy ===== *)
theory CmZkListProps
  imports CmZkProps
begin

text \<open>
  Lists in ZooKeeper: what the master writes is what it reads after a restart, events are handled
  once and in order, and the copies of a client follow the lists.
\<close>

section \<open>The lists of a pool\<close>

lemma set_znode_law:
  assumes "zoo_laws zoo tree num" "set_znode zoo path v z = (ret, z')"
  shows "q \<noteq> path \<Longrightarrow> tree z' q = tree z q"
proof -
  obtain r u z1 where s: "CmZkSet zoo path v z = (r, u, z1)" by (metis prod_cases3)
  have "z' = z \<or> z' = z1" using assms(2) s by (auto simp: set_znode_def at_path_def split: if_splits)
  then show "q \<noteq> path \<Longrightarrow> tree z' q = tree z q" using zk_set(4) [OF assms(1) s] by auto
qed

lemma record_pts:
  assumes "zoo_laws zoo tree num" "CmServerZkRecordPtEntryList zoo l z = Some (CM_OK, z')"
  shows "tree z' (pool_path (poolId l) ''pt'') = Some (Pts (l\<lparr>entries := take (ptNum l) (entries l)\<rparr>))"
    "length (pool_path (poolId l) ''pt'') < CM_ZNODE_PATH_LEN"
proof -
  obtain r u z1 where s: "CmZkSet zoo (pool_path (poolId l) ''pt'') (Pts (l\<lparr>entries := take (ptNum l) (entries l)\<rparr>)) z = (r, u, z1)"
    by (metis prod_cases3)
  note sl = zk_set [OF assms(1) s]
  show "tree z' (pool_path (poolId l) ''pt'') = Some (Pts (l\<lparr>entries := take (ptNum l) (entries l)\<rparr>))"
    "length (pool_path (poolId l) ''pt'') < CM_ZNODE_PATH_LEN"
    using assms(2) s sl(2,3) by (auto simp: CmServerZkRecordPtEntryList_def at_path_def split: if_splits)
qed

lemma get_pts:
  assumes "zoo_laws zoo tree num" "CmServerZkGetPtEntryList zoo buf z = Some (CM_OK, l', z')"
    "tree z (pool_path (poolId buf) ''pt'') = Some (Pts r)"
  shows "l' = r\<lparr>entries := overlay (ptNum buf) (entries r) (entries buf)\<rparr>"
proof -
  obtain rg v z1 where g: "CmZkGet zoo (pool_path (poolId buf) ''pt'') z = (rg, v, z1)" by (metis prod_cases3)
  note gl = get_law [OF assms(1) g]
  have "rg = ZOK" using assms(2) g by (auto simp: CmServerZkGetPtEntryList_def at_path_def split: if_splits)
  with gl(3) assms(3) have "v = Pts r" by auto
  with \<open>rg = ZOK\<close> assms(2) g show ?thesis by (simp add: CmServerZkGetPtEntryList_def at_path_def split: if_splits)
qed

text \<open>
  (C19) The table survives: a table that was recorded is what is read back, whatever lists of nodes and
  states are recorded in between for this pool or another, when the buffer has room for it; the rest of the
  buffer keeps its contents.
\<close>

theorem table_survives:
  assumes "zoo_laws zoo tree num" "CmServerZkRecordPtEntryList zoo l z = Some (CM_OK, z1)"
    and "CmServerZkRecordNodeList zoo nodes z1 = Some (r2, z2)" "CmServerZkRecordStateList zoo states z2 = Some (r3, z3)"
    and "CmServerZkGetPtEntryList zoo buf z3 = Some (CM_OK, l', z4)"
    and "poolId buf = poolId l" "ptNum l \<le> ptNum buf" "ptNum l \<le> length (entries l)"
  shows "l' = l\<lparr>entries := take (ptNum l) (entries l) @ drop (ptNum l) (entries buf)\<rparr>"
proof -
  let ?path = "pool_path (poolId l) ''pt''"
  have n: "?path \<noteq> pool_path (ilPool nodes) ''node_list''" "?path \<noteq> pool_path (slPool states) ''state''"
    by (simp_all add: pool_path_inj)
  have s2: "set_znode zoo (pool_path (ilPool nodes) ''node_list'') (Nodes (nodes\<lparr>ilNodes := take (ilNum nodes) (ilNodes nodes)\<rparr>)) z1 = (r2, z2)"
    using assms(3) by (auto simp: CmServerZkRecordNodeList_def split: if_splits)
  have s3: "set_znode zoo (pool_path (slPool states) ''state'') (States (states\<lparr>slNodes := take (slNum states) (slNodes states)\<rparr>)) z2 = (r3, z3)"
    using assms(4) by (auto simp: CmServerZkRecordStateList_def split: if_splits)
  have "tree z3 ?path = tree z1 ?path"
    using set_znode_law [OF assms(1) s2 n(1)] set_znode_law [OF assms(1) s3 n(2)] by simp
  then have "tree z3 (pool_path (poolId buf) ''pt'') = Some (Pts (l\<lparr>entries := take (ptNum l) (entries l)\<rparr>))"
    using record_pts(1) [OF assms(1,2)] assms(6) by simp
  from get_pts [OF assms(1,5) this] show ?thesis using assms(7,8) by (simp add: overlay_def min_def)
qed

definition dir_of :: "nat \<Rightarrow> mem_zk" where
  "dir_of p = \<lparr>mnodes = map (\<lambda>k. (pool_path p k, Null)) [''pt'', ''node_list'', ''state'', ''node_event''], mnum = 0\<rparr>"

definition empty_table :: "nat \<Rightarrow> pt_list" where
  "empty_table p = \<lparr>poolId = p, ptNum = 0, maxCopyNum = 2, minCopyNum = 1, globalVersion = 7, changeVersion = 9, entries = []\<rparr>"

lemma retry_3: "retry 3 final f z = (case f z of (ret, a, z') \<Rightarrow> if ret \<in> final then (ret, a, z') else retry 2 final f z')"
  by (simp add: numeral_3_eq_3 numeral_2_eq_2 split: prod.splits)

lemmas mem_calls = CmZkSet_def CmZkGet_def CmZkWget_def CmZkDelete_def CmZkExists_def CmZkCreate_def CmZkWgetChildren_def mem_zoo_def
  mem_set_def mem_get_def mem_delete_def mem_exists_def mem_create_def mem_children_def retry_3

lemma dec_0 [simp]: "dec 0 = ''0''"
  by code_simp

theorem table_survives_witness:
  "\<exists>z1 z2 z3 z4. CmServerZkRecordPtEntryList mem_zoo (empty_table 0) (dir_of 0) = Some (CM_OK, z1) \<and>
     CmServerZkGetPtEntryList mem_zoo ((empty_table 0)\<lparr>globalVersion := 0\<rparr>) z3 = Some (CM_OK, empty_table 0, z4) \<and>
     CmServerZkRecordNodeList mem_zoo \<lparr>ilPool = 0, ilNum = 0, ilNodes = []\<rparr> z1 = Some (CM_OK, z2) \<and>
     CmServerZkRecordStateList mem_zoo \<lparr>slPool = 0, slNum = 0, slMaster = 0, slNodes = []\<rparr> z2 = Some (CM_OK, z3)"
proof -
  obtain z1 z2 z3 z4 l' where e: "CmServerZkRecordPtEntryList mem_zoo (empty_table 0) (dir_of 0) = Some (CM_OK, z1)"
    "CmServerZkRecordNodeList mem_zoo \<lparr>ilPool = 0, ilNum = 0, ilNodes = []\<rparr> z1 = Some (CM_OK, z2)"
    "CmServerZkRecordStateList mem_zoo \<lparr>slPool = 0, slNum = 0, slMaster = 0, slNodes = []\<rparr> z2 = Some (CM_OK, z3)"
    "CmServerZkGetPtEntryList mem_zoo ((empty_table 0)\<lparr>globalVersion := 0\<rparr>) z3 = Some (CM_OK, l', z4)"
    by (simp add: CmServerZkRecordPtEntryList_def CmServerZkRecordNodeList_def CmServerZkRecordStateList_def
        CmServerZkGetPtEntryList_def set_znode_def at_path_def mem_calls pool_path_def dir_of_def empty_table_def)
  have "l' = empty_table 0"
    using table_survives [OF mem_laws e] by (simp add: empty_table_def)
  with e show ?thesis by blast
qed

section \<open>Events\<close>

abbreviation ev_path :: "nat \<Rightarrow> nat \<Rightarrow> string" where "ev_path p n \<equiv> item_path p ''node_event'' (dec n)"

lemma ev_path_inj: "ev_path p n = ev_path p' n' \<longleftrightarrow> p = p' \<and> n = n'"
  by (auto simp: item_path_inj dec_inj)

text \<open>The znodes of the events are as they were.\<close>

definition spares :: "('z \<Rightarrow> string \<rightharpoonup> zval) \<Rightarrow> 'z \<Rightarrow> 'z \<Rightarrow> bool" where
  "spares tree z z' \<longleftrightarrow> (\<forall>p n. tree z' (ev_path p n) = tree z (ev_path p n))"

lemma spares_refl [simp]: "spares tree z z"
  by (simp add: spares_def)

lemma spares_trans: "spares tree z1 z2 \<Longrightarrow> spares tree z2 z3 \<Longrightarrow> spares tree z1 z3"
  by (simp add: spares_def)

text \<open>The calls that the handler of the view makes: it reads the information about a node and writes the lists and the table.\<close>

definition calls_spare :: "('z \<Rightarrow> string \<rightharpoonup> zval) \<Rightarrow> 'z zk_ops \<Rightarrow> bool" where
  "calls_spare tree zk \<longleftrightarrow>
     (\<forall>n z. spares tree z (snd (snd (zk_ops.CmServerZkGetNodeInfo zk n z)))) \<and> (\<forall>l z. spares tree z (snd (zk_ops.CmServerZkRecordNodeList zk l z))) \<and>
     (\<forall>l z. spares tree z (snd (zk_ops.CmServerZkRecordStateList zk l z))) \<and> (\<forall>l z. spares tree z (snd (zk_ops.CmServerZkRecordPtEntryList zk l z)))"

text \<open>The znodes of the lists are none of the events.\<close>

lemma pool_path_not_event: "CHR ''/'' \<notin> set k \<Longrightarrow> pool_path p k \<noteq> ev_path q n"
proof
  assume k: "CHR ''/'' \<notin> set k" and "pool_path p k = ev_path q n"
  then have "pool_path p k = pool_path q (''node_event/'' @ dec n)" by (simp add: item_path_def pool_path_def)
  then have "k = ''node_event/'' @ dec n" by (simp add: pool_path_inj)
  with k show False by simp
qed

lemma set_znode_spares:
  assumes "zoo_laws zoo tree num" "CHR ''/'' \<notin> set k"
  shows "spares tree z (snd (set_znode zoo (pool_path p k) v z))"
proof -
  obtain r z' where s: "set_znode zoo (pool_path p k) v z = (r, z')" by (rule prod.exhaust)
  have "tree z' (ev_path q n) = tree z (ev_path q n)" for q n
    by (rule set_znode_law [OF assms(1) s pool_path_not_event [OF assms(2), symmetric]])
  then show ?thesis unfolding s spares_def by simp
qed

text \<open>The handler that the view subscribes with; the clock is read for every event.\<close>

definition view_handle ::
  "server_role \<Rightarrow> pool_info \<Rightarrow> 'z zk_ops \<Rightarrow> ('z \<Rightarrow> nat) \<Rightarrow> node_event \<Rightarrow> server_pool \<Rightarrow> 'z \<Rightarrow> (int \<times> server_pool \<times> 'z) option" where
  "view_handle role pool zk now e sp z = CmServerViewNodeEvent role pool zk (now z) (eventType e = CM_EVENT_ADD_DISK) (enode e) sp z"

lemma build_spares:
  assumes "calls_spare tree zk" "CmServerViewBuildNode pool zk now n b sp z = Some (ret, sp', z')"
  shows "spares tree z z'"
proof -
  obtain r x z1 where g: "zk_ops.CmServerZkGetNodeInfo zk n z = (r, x, z1)" by (metis prod_cases3)
  have "spares tree z (snd (snd (zk_ops.CmServerZkGetNodeInfo zk n z)))" using assms(1) by (simp add: calls_spare_def)
  then have "spares tree z z1" using g by simp
  moreover have "z' = z \<or> z' = z1"
    using assms(2) g by (auto simp: CmServerViewBuildNode_def CompareAndUpdateNodeInfo_def Let_def split: if_splits option.splits)
  ultimately show ?thesis by auto
qed

lemma store_spares:
  assumes "\<And>l z. spares tree z (snd (record l z))" "ViewStoreUpdate record l s z = Some (ret, l', s', z')"
  shows "spares tree z z'"
proof -
  obtain r z1 where r: "record (l\<lparr>changeVersion := inc64 (changeVersion l)\<rparr>) z = (r, z1)" by fastforce
  then have "z' = z \<or> z' = z1" using assms(2) by (auto simp: ViewStoreUpdate_def Let_def split: if_splits option.splits)
  then show ?thesis using assms(1) [of z "l\<lparr>changeVersion := inc64 (changeVersion l)\<rparr>"] r by auto
qed

lemma table_spares:
  assumes "calls_spare tree zk" "CmServerViewUpdatePtEntryList pool zk b sp z = Some (ret, sp', z')"
  shows "spares tree z z'"
proof -
  have "\<And>l z. spares tree z (snd (zk_ops.CmServerZkRecordPtEntryList zk l z))" using assms(1) by (simp add: calls_spare_def)
  from store_spares [OF this] show ?thesis
    using assms(2) by (auto simp: CmServerViewUpdatePtEntryList_def write_table_def Let_def split: if_splits option.splits prod.splits)
qed

lemma record_spares:
  assumes "calls_spare tree zk" "record_changes pool zk b sp z = Some (ret, sp', z')"
  shows "spares tree z z'"
proof -
  obtain r1 z1 where 1: "(if nodeChange sp then zk_ops.CmServerZkRecordNodeList zk (vnodes sp) z else (CM_OK, z)) = (r1, z1)" by fastforce
  obtain r2 z2 where 2: "(if stateChange sp then zk_ops.CmServerZkRecordStateList zk (vstates sp, vmasterNodeId sp) z1 else (CM_OK, z1)) = (r2, z2)"
    by fastforce
  have s: "spares tree z z1" "spares tree z1 z2" using assms(1) 1 2 unfolding calls_spare_def by (metis snd_conv spares_refl)+
  have "z' = z1 \<or> z' = z2 \<or> (\<exists>sp1 r sp2. CmServerViewUpdatePtEntryList pool zk b sp1 z2 = Some (r, sp2, z'))"
    using assms(2) 1 2 by (auto simp: record_changes_def Let_def split: if_splits)
  then show ?thesis using s table_spares [OF assms(1)] spares_trans by metis
qed

lemma view_spares:
  assumes "calls_spare tree zk" "view_handle role pool zk now e sp z = Some (ret, sp', z')"
  shows "spares tree z z'"
proof -
  consider "z' = z" | "\<exists>r sp1. CmServerViewBuildNode pool zk (now z) (enode e) False sp z = Some (r, sp1, z')"
    | r sp1 z1 where "CmServerViewBuildNode pool zk (now z) (enode e) False sp z = Some (r, sp1, z1)"
        "record_changes pool zk (eventType e = CM_EVENT_ADD_DISK) sp1 z1 = Some (ret, sp', z')"
    using assms(2) by (auto simp: view_handle_def CmServerViewNodeEvent_def split: if_splits option.splits)
  then show ?thesis
  proof cases
    case 3
    then show ?thesis using spares_trans [OF build_spares [OF assms(1)] record_spares [OF assms(1)]] by blast
  qed (use build_spares [OF assms(1)] in auto)
qed

text \<open>The event of a node is recorded under the number of the node.\<close>

definition has_event :: "(string \<rightharpoonup> zval) \<Rightarrow> nat \<Rightarrow> nat \<Rightarrow> node_event \<Rightarrow> bool" where
  "has_event t p n e \<longleftrightarrow> t (ev_path p n) = Some (NodeEv e) \<and> epool e = p \<and> enode e = n \<and> length (ev_path p n) < CM_ZNODE_PATH_LEN"

text \<open>The events were handled with success, one after the other.\<close>

inductive handled :: "(node_event \<Rightarrow> 's \<Rightarrow> 'z \<Rightarrow> (int \<times> 's \<times> 'z) option) \<Rightarrow> node_event list \<Rightarrow> 's \<Rightarrow> 's \<Rightarrow> bool" for handle where
  handled_none: "handled handle [] s s"
| handled_more: "handle e s z = Some (CM_OK, s1, z') \<Longrightarrow> handled handle es s1 s2 \<Longrightarrow> handled handle (e # es) s s2"

text \<open>The task has stopped at an event: it is there, unless it was handled with success.\<close>

definition stopped_at ::
  "('z \<Rightarrow> string \<rightharpoonup> zval) \<Rightarrow> (node_event \<Rightarrow> 's \<Rightarrow> 'z \<Rightarrow> (int \<times> 's \<times> 'z) option) \<Rightarrow> nat \<Rightarrow> nat \<Rightarrow> node_event \<Rightarrow> 's \<Rightarrow> 's \<Rightarrow> 'z \<Rightarrow> bool" where
  "stopped_at tree handle p n e s1 s' z' \<longleftrightarrow> (s' = s1 \<or> (\<exists>z1 ret z2. handle e s1 z1 = Some (ret, s', z2))) \<and>
     (tree z' (ev_path p n) = None \<longrightarrow> (\<exists>z1 z2. handle e s1 z1 = Some (CM_OK, s', z2)))"

definition events_result ::
  "('z \<Rightarrow> string \<rightharpoonup> zval) \<Rightarrow> (node_event \<Rightarrow> 's \<Rightarrow> 'z \<Rightarrow> (int \<times> 's \<times> 'z) option) \<Rightarrow> nat \<Rightarrow> (nat \<Rightarrow> node_event) \<Rightarrow> nat list \<Rightarrow> 's \<Rightarrow> 'z \<Rightarrow>
     bool \<Rightarrow> 's \<Rightarrow> 'z \<Rightarrow> bool" where
  "events_result tree handle p ev ns s z ok s' z' \<longleftrightarrow>
     (\<exists>taken left s1. ns = taken @ left \<and> handled handle (map ev taken) s s1 \<and>
       (\<forall>n\<in>set taken. tree z' (ev_path p n) = None) \<and>
       (\<forall>k. k \<notin> set taken \<and> (left = [] \<or> k \<noteq> hd left) \<longrightarrow> tree z' (ev_path p k) = tree z (ev_path p k)) \<and>
       (if ok then left = [] \<and> s' = s1 else left \<noteq> [] \<and> stopped_at tree handle p (hd left) (ev (hd left)) s1 s' z'))"

lemma result_stopped:
  assumes "spares tree z z' \<or> (\<exists>z2. spares tree z z2 \<and> tree z' = (tree z2)(ev_path p n := None))" "stopped_at tree handle p n (ev n) s s' z'"
  shows "events_result tree handle p ev (n # ns) s z False s' z'"
proof -
  have "tree z' (ev_path p k) = tree z (ev_path p k)" if "k \<noteq> n" for k using assms(1) that by (auto simp: spares_def ev_path_inj)
  then show ?thesis using assms(2) unfolding events_result_def
    by - (rule exI [of _ "[]"], rule exI [of _ "n # ns"], rule exI [of _ s], simp add: handled_none)
qed

lemma result_more:
  assumes "handle (ev n) s z0 = Some (CM_OK, s1, z0')" "\<And>k. tree z1 (ev_path p k) = (if k = n then None else tree z (ev_path p k))" "n \<notin> set ns"
    "events_result tree handle p ev ns s1 z1 ok s' z'"
  shows "events_result tree handle p ev (n # ns) s z ok s' z'"
proof -
  obtain taken left s2 where r: "ns = taken @ left" "handled handle (map ev taken) s1 s2" "\<forall>n\<in>set taken. tree z' (ev_path p n) = None"
    "\<forall>k. k \<notin> set taken \<and> (left = [] \<or> k \<noteq> hd left) \<longrightarrow> tree z' (ev_path p k) = tree z1 (ev_path p k)"
    "if ok then left = [] \<and> s' = s2 else left \<noteq> [] \<and> stopped_at tree handle p (hd left) (ev (hd left)) s2 s' z'"
    using assms(4) unfolding events_result_def by blast
  have "n \<notin> set taken" "left = [] \<or> n \<noteq> hd left" using assms(3) r(1) by auto
  then have "tree z' (ev_path p n) = None" using r(4) assms(2) [of n] by simp
  moreover have "tree z' (ev_path p k) = tree z (ev_path p k)" if "k \<notin> set (n # taken)" "left = [] \<or> k \<noteq> hd left" for k
    using r(4) assms(2) [of k] that by simp
  ultimately show ?thesis using r handled_more [where handle = handle, OF assms(1) r(2)] unfolding events_result_def
    by - (rule exI [of _ "n # taken"], rule exI [of _ left], rule exI [of _ s2], simp)
qed

text \<open>Reading an event that is there.\<close>

lemma get_event:
  assumes "zoo_laws zoo tree num" "has_event (tree z) p n e" "p < MAX_POOL_NUM"
  shows "\<exists>ret z1. CmServerZkGetNodeEvent zoo p n z = Some (ret, if ret = CM_OK then Some e else None, z1) \<and> tree z1 = tree z"
proof -
  obtain r v z1 where g: "CmZkGet zoo (ev_path p n) z = (r, v, z1)" by (metis prod_cases3)
  note gl = get_law [OF assms(1) g]
  have e: "tree z (ev_path p n) = Some (NodeEv e)" "epool e = p" "length (ev_path p n) < CM_ZNODE_PATH_LEN"
    using assms(2) by (simp_all add: has_event_def)
  have "r = ZOK \<Longrightarrow> v = NodeEv e" "r \<noteq> ZNONODE" using gl(3,4) e(1) by auto
  then show ?thesis using g gl(2) e(2,3) assms(3) by (cases "r = ZOK") (auto simp: CmServerZkGetNodeEvent_def at_path_def)
qed

lemma delete_event:
  assumes "zoo_laws zoo tree num" "CmServerZkDeleteNodeEvent zoo p n z = (ret, z')"
  shows "tree z' = tree z \<or> tree z' = (tree z)(ev_path p n := None)" "ret = CM_OK \<Longrightarrow> tree z' = (tree z)(ev_path p n := None)"
proof -
  obtain rd u z1 where d: "CmZkDelete zoo (ev_path p n) z = (rd, u, z1)" by (metis prod_cases3)
  note zd = zk_delete(2,3) [OF assms(1) d]
  show "tree z' = tree z \<or> tree z' = (tree z)(ev_path p n := None)" "ret = CM_OK \<Longrightarrow> tree z' = (tree z)(ev_path p n := None)"
    using assms(2) d zd by (auto simp: CmServerZkDeleteNodeEvent_def delete_znode_def at_path_def split: if_splits)
qed

lemma all_events:
  assumes "zoo_laws zoo tree num" "\<And>e s z ret s' z'. handle e s z = Some (ret, s', z') \<Longrightarrow> spares tree z z'" "p < MAX_POOL_NUM"
  shows "distinct ns \<Longrightarrow> \<forall>n\<in>set ns. has_event (tree z) p n (ev n) \<Longrightarrow>
     (case node_events zoo handle p ns s z of
        None \<Rightarrow> \<exists>n\<in>set ns. \<exists>s1 z1. handle (ev n) s1 z1 = None
      | Some (ok, s', z') \<Rightarrow> events_result tree handle p ev ns s z ok s' z')"
proof (induction ns arbitrary: s z)
  case Nil
  then show ?case by (simp add: events_result_def handled_none)
next
  case (Cons n ns)
  have e: "has_event (tree z) p n (ev n)" "epool (ev n) = p" "enode (ev n) = n" "tree z (ev_path p n) \<noteq> None"
    using Cons.prems(2) by (simp_all add: has_event_def)
  obtain r z1 where g: "CmServerZkGetNodeEvent zoo p n z = Some (r, if r = CM_OK then Some (ev n) else None, z1)" "tree z1 = tree z"
    using get_event [OF assms(1) e(1) assms(3)] by blast
  have sp: "spares tree z z1" using g(2) by (simp add: spares_def)
  consider (read) "r \<noteq> CM_OK" | (undef) "r = CM_OK" "handle (ev n) s z1 = None"
    | (fail) r2 s2 z2 where "r = CM_OK" "handle (ev n) s z1 = Some (r2, s2, z2)" "r2 \<noteq> CM_OK"
    | (ok) s2 z2 where "r = CM_OK" "handle (ev n) s z1 = Some (CM_OK, s2, z2)" by (metis option.exhaust prod_cases3)
  then show ?case
  proof cases
    case read
    have "stopped_at tree handle p n (ev n) s s z1" using e(4) g(2) by (auto simp: stopped_at_def)
    then show ?thesis using read g(1) result_stopped [where handle = handle and s = s and s' = s] sp by simp
  next
    case undef
    then show ?thesis using g(1) by auto
  next
    case fail
    note s2 = assms(2) [OF fail(2)]
    have "tree z2 (ev_path p n) \<noteq> None" using s2 e(4) g(2) by (simp add: spares_def)
    then have "stopped_at tree handle p n (ev n) s s2 z2" using fail(2) by (auto simp: stopped_at_def)
    then show ?thesis using fail g(1) result_stopped [where handle = handle and s = s] spares_trans [OF sp s2] by simp
  next
    case ok
    obtain rd z3 where d: "CmServerZkDeleteNodeEvent zoo p n z2 = (rd, z3)" by fastforce
    note s2 = spares_trans [OF sp assms(2) [OF ok(2)]] and dl = delete_event [OF assms(1) d]
    show ?thesis
    proof (cases "rd = CM_OK")
      case False
      have "stopped_at tree handle p n (ev n) s s2 z3" using ok(2) by (auto simp: stopped_at_def)
      moreover have "spares tree z z3 \<or> (\<exists>z2. spares tree z z2 \<and> tree z3 = (tree z2)(ev_path p n := None))"
        using s2 dl(1) by (auto simp: spares_def)
      ultimately show ?thesis using False ok g(1) d e(2,3) result_stopped [where handle = handle and s = s] by simp
    next
      case True
      have t3: "tree z3 (ev_path p k) = (if k = n then None else tree z (ev_path p k))" for k
        using dl(2) [OF True] s2 by (simp add: spares_def ev_path_inj)
      have "\<forall>k\<in>set ns. has_event (tree z3) p k (ev k)" using Cons.prems t3 by (auto simp: has_event_def)
      with Cons.IH [of z3 s2] Cons.prems(1) show ?thesis using ok g(1) d e(2,3) True
        result_more [where handle = handle and ev = ev and s = s, OF ok(2) t3] by (auto split: option.splits)
    qed
  qed
qed

text \<open>
  (C20) No event is lost and none is skipped: a task for the events of different nodes, whatever ZooKeeper and the view answer to its calls,
  hands the events to the view in the order of the task up to the first one that fails; an event is gone
  only after the view has handled it with success, all events behind the one that failed and all events of other
  nodes are left as they are, and a task that comes to its end has handled every event once and deleted all of them. It is
  undefined only where the handler of the view is. The calls of the view leave the znodes of the events alone.
\<close>

theorem events_handled_once:
  assumes "zoo_laws zoo tree num" "calls_spare tree zk" "p < MAX_POOL_NUM" "distinct ns" "\<forall>n\<in>set ns. has_event (tree z) p n (ev n)"
  shows "case node_events zoo (view_handle role pool zk now) p ns s z of
       None \<Rightarrow> \<exists>n\<in>set ns. \<exists>s1 z1. view_handle role pool zk now (ev n) s1 z1 = None
     | Some (ok, s', z') \<Rightarrow> events_result tree (view_handle role pool zk now) p ev ns s z ok s' z'"
  by (rule all_events [OF assms(1) view_spares [OF assms(2)] assms(3-5)])

text \<open>A pool with an event of node 3.\<close>

definition ev3 :: node_event where
  "ev3 = \<lparr>eventType = CM_EVENT_DISK, epool = 0, enode = 3\<rparr>"

definition with_ev3 :: mem_zk where
  "with_ev3 = \<lparr>mnodes = [(ev_path 0 3, NodeEv ev3)], mnum = 0\<rparr>"

lemma dec_3 [simp]: "dec 3 = ''3''"
  by code_simp

text \<open>A pool whose list of nodes has to be written, and the calls of the view on the same ZooKeeper.\<close>

definition changed_pool :: server_pool where
  "changed_pool = \<lparr>nodeChange = True, stateChange = False, ptChange = False, isInitialOk = True, isInitialDoing = False,
     vnodes = replicate 4 zero_node, vstates = replicate 4 zero_state, vmasterNodeId = 0, vpts = empty_table 0,
     vcalc = \<lparr>nodeNum = 4, calcPtNum = 0, calcCopyNum = 1, calcMinCopyNum = 1, diskNum = 0, busy = [], free = []\<rparr>,
     vstore = None, vmon = CmServerMonitorInitMgr\<rparr>"

definition plain_info :: pool_info where
  "plain_info = \<lparr>ppoolId = 0, predundance = PT_NONE, pinitialNodeNum = 1, pmaxNodeNum = 4, pmaxPtNum = 1\<rparr>"

definition list_ops :: "mem_zk zk_ops" where
  "list_ops = zk_ops.make (\<lambda>n z. (CM_OK, zero_node, z)) (\<lambda>l z. (CM_OK, l, z)) (\<lambda>l z. (CM_OK, l, z)) (\<lambda>l z. (CM_OK, l, z))
     (\<lambda>l. set_znode mem_zoo (pool_path 0 ''node_list'') zval.Null) (\<lambda>l. set_znode mem_zoo (pool_path 0 ''state'') zval.Null)
     (\<lambda>l. set_znode mem_zoo (pool_path 0 ''pt'') (Pts l)) []"

lemma list_ops_spare: "calls_spare mem_tree list_ops"
  using set_znode_spares [OF mem_laws] by (simp add: calls_spare_def list_ops_def zk_ops.make_def)

definition with_list :: mem_zk where
  "with_list = with_ev3\<lparr>mnodes := (pool_path 0 ''node_list'', zval.Null) # mnodes with_ev3\<rparr>"

theorem events_handled_once_witness:
  "\<exists>sp z'. node_events mem_zoo (view_handle CM_SERVER_MASTER plain_info list_ops (\<lambda>_. 0)) 0 [3] changed_pool with_list = Some (True, sp, z') \<and>
     \<not> nodeChange sp \<and> mem_tree z' (ev_path 0 3) = None"
proof -
  let ?h = "view_handle CM_SERVER_MASTER plain_info list_ops (\<lambda>_. 0)"
  have e: "\<forall>n\<in>set [3]. has_event (mem_tree with_list) 0 n ev3"
    by (simp add: has_event_def with_list_def with_ev3_def ev3_def item_path_def pool_path_def)
  obtain sp z' where r: "node_events mem_zoo ?h 0 [3] changed_pool with_list = Some (True, sp, z')" "\<not> nodeChange sp"
    by (simp add: CmServerZkGetNodeEvent_def CmServerZkDeleteNodeEvent_def delete_znode_def set_znode_def at_path_def mem_calls with_list_def with_ev3_def
        item_path_def pool_path_def ev3_def view_handle_def CmServerViewNodeEvent_def CmServerViewBuildNode_def changed_pool_def zero_state_def
        record_changes_def list_ops_def zk_ops.make_def CmServerViewUpdatePtEntryList_def rebalance_def plain_info_def write_table_def)
  from events_handled_once [OF mem_laws list_ops_spare _ _ e, of CM_SERVER_MASTER plain_info "\<lambda>_. 0" changed_pool] r(1)
  have "events_result mem_tree ?h 0 (\<lambda>_. ev3) [3] changed_pool with_list True sp z'" by simp
  then have "mem_tree z' (ev_path 0 3) = None" by (auto simp: events_result_def)
  with r show ?thesis by blast
qed

text \<open>
  (C37) A task that fails leaves the pool without service: when reading, handling or deleting an event
  fails, the subscription stays busy with no task, and from then on every notice about new events is ignored.
\<close>

theorem events_stall:
  assumes "node_events zoo handle p ns s z = Some (False, s', z')" "\<not> nodeIdle (restore m ! p)"
  shows "CmServerZkSubNodeEventHandle zoo mallocOk handle p ns m s z = Some (m, s', z') \<and>
     CmServerZkSubNodeEventWatch zoo mallocOk evtype p m z'' = (CM_OK, m, z'')"
  using assms by (simp add: CmServerZkSubNodeEventHandle_def CmServerZkSubNodeEventWatch_def)

theorem events_stall_witness:
  "\<exists>m z'. CmServerZkSubNodeEvent mem_zoo True 0 ((server_at 1)\<lparr>srole := CM_SERVER_MASTER\<rparr>) with_ev3 = (CM_OK, m, z') \<and>
     CmServerZkSubNodeEventWatch mem_zoo True ZOO_CHILD_EVENT 0 m z' = (CM_OK, m, z')"
proof -
  obtain m z' where m: "CmServerZkSubNodeEvent mem_zoo True 0 ((server_at 1)\<lparr>srole := CM_SERVER_MASTER\<rparr>) with_ev3 = (CM_OK, m, z')"
    "\<not> nodeIdle (restore m ! 0)"
    by (simp add: CmServerZkSubNodeEvent_def at_path_def mem_calls with_ev3_def item_path_def pool_path_def upd_pool_def server_at_def
        CmServerZkInitMgr_def CmServerZkAtoi_def is_dec_def)
  have "node_events mem_zoo (\<lambda>e s z. Some (CM_ERR, s, z)) 0 [3] [] with_ev3 = Some (False, [], with_ev3)"
    by (simp add: CmServerZkGetNodeEvent_def at_path_def mem_calls with_ev3_def item_path_def pool_path_def ev3_def)
  from events_stall [OF this m(2)] m(1) show ?thesis by blast
qed

end
