(* ===== verification/CmZkSyncProps.thy ===== *)
theory CmZkSyncProps
  imports CmZkListProps
begin

text \<open>
  The copies that a client keeps: after a change they agree with ZooKeeper in everything that is
  compared, and the registered function is told exactly what has changed. For the states of nodes
  this fails when a session cannot be read.
\<close>

section \<open>A copy that is kept in step\<close>

text \<open>Elements are compared by what a client observes of them.\<close>

locale copied_list =
  fixes same :: "'a \<Rightarrow> 'a \<Rightarrow> bool"
    and obs :: "'a \<Rightarrow> 'b"
  assumes same_iff: "same x y \<longleftrightarrow> obs x = obs y"
begin

lemma copy_current: "length ys \<le> length xs \<Longrightarrow> map obs (take (length ys) (fst (sync same xs ys))) = map obs ys"
  by (induction xs ys rule: list_induct2') (auto simp: same_iff split: prod.splits)

lemma copy_rest: "length ys \<le> length xs \<Longrightarrow> drop (length ys) (fst (sync same xs ys)) = drop (length ys) xs"
  by (induction xs ys rule: list_induct2') (auto split: prod.splits)

lemma copy_length: "length (fst (sync same xs ys)) = length xs"
  by (induction xs ys rule: list_induct2') (auto split: prod.splits)

lemma copy_notify: "snd (sync same xs ys) = map snd (filter (\<lambda>(x, y). obs x \<noteq> obs y) (zip xs ys))"
proof (induction xs ys rule: list_induct2')
  case (4 x xs y ys)
  obtain os notify where "sync same xs ys = (os, notify)" by fastforce
  with 4 show ?case using same_iff [of x y] by simp
qed simp_all

lemma copy_quiet: "map obs (take (length ys) xs) = map obs ys \<Longrightarrow> snd (sync same xs ys) = []"
  by (induction xs ys rule: list_induct2') (auto simp: same_iff split: prod.splits)

lemma copy_settles: "length ys \<le> length xs \<Longrightarrow> snd (sync same (fst (sync same xs ys)) ys) = []"
  by (rule copy_quiet) (rule copy_current)

end

text \<open>What is compared of a partition: its head and the copies that are in use.\<close>

definition pt_view :: "pt_entry \<Rightarrow> (nat \<times> pt_state \<times> nat \<times> nat \<times> nat \<times> nat \<times> nat) \<times> (copy_state \<times> nat \<times> nat \<times> bool) list" where
  "pt_view e = ((ptId e, pstate e, birthVersion e, masterNodeId e, masterDiskId e, referNum e, copyNum e),
     map (\<lambda>i. (cstate (copyList e ! i), cnode (copyList e ! i), cdisk (copyList e ! i), keepAlive (copyList e ! i))) [0..<copyNum e])"

interpretation pts: copied_list CmClientZkPtEntryIsSame pt_view
proof
  show "CmClientZkPtEntryIsSame a b \<longleftrightarrow> pt_view a = pt_view b" for a b
    by (auto simp: CmClientZkPtEntryIsSame_def pt_view_def list_ex_iff)
qed

interpretation nodes: copied_list "(=)" id
  by unfold_locales simp

text \<open>The partitions in which two tables differ.\<close>

definition changed :: "pt_list \<Rightarrow> pt_list \<Rightarrow> pt_entry list" where
  "changed old new = map snd (filter (\<lambda>(x, y). pt_view x \<noteq> pt_view y) (zip (entries old) (take (ptNum new) (entries new))))"

text \<open>
  (C17) The table of a client is current: when a table arrives that fits the memory of the client, the copy
  agrees with it in everything that is compared, the client is told exactly the partitions that differ,
  with the versions of the new table, other pools are left alone, and the same table once more
  tells nothing.
\<close>

theorem client_table_current:
  assumes "poolId t < length rs" "cpool (rs ! poolId t) = Some pool" "cpts (rs ! poolId t) = Some old" "ptChangeC (rs ! poolId t)"
    and "0 < ptNum t" "ptNum t \<le> length (entries old)" "ptNum t \<le> length (entries t)"
    and "\<forall>e\<in>set (entries old) \<union> set (entries t). copyNum e \<le> length (copyList e)"
  shows "\<exists>rs' new. CmClientZkUpdatePtList True t rs =
       Some (rs', if changed old t = [] then [] else [PtsChanged (t\<lparr>ptNum := length (changed old t), entries := changed old t\<rparr>)]) \<and>
     cpts (rs' ! poolId t) = Some new \<and> globalVersion new = globalVersion t \<and> changeVersion new = changeVersion t \<and>
     map pt_view (take (ptNum t) (entries new)) = map pt_view (take (ptNum t) (entries t)) \<and>
     (\<forall>q. q \<noteq> poolId t \<longrightarrow> rs' ! q = rs ! q) \<and> changed new t = []"
proof -
  let ?p = "poolId t" and ?es = "take (ptNum t) (entries t)"
  have len: "length ?es = ptNum t" "length ?es \<le> length (entries old)" using assms(6,7) by simp_all
  have "\<not> list_ex (\<lambda>(a, b). \<not> pt_readable a b) (zip (entries old) ?es)"
  proof -
    have "pt_readable a b" if "(a, b) \<in> set (zip (entries old) ?es)" for a b
    proof -
      have "copyNum a \<le> length (copyList a)" "copyNum b \<le> length (copyList b)"
        using assms(8) set_zip_leftD [OF that] in_set_takeD [OF set_zip_rightD [OF that]] by blast+
      then show ?thesis by (simp add: pt_readable_def)
    qed
    then show ?thesis by (auto simp: list_ex_iff)
  qed
  moreover obtain es notify where s: "sync CmClientZkPtEntryIsSame (entries old) ?es = (es, notify)" by fastforce
  moreover have notify: "notify = changed old t" using pts.copy_notify [of "entries old" ?es] s by (simp add: changed_def)
  moreover have es: "map pt_view (take (ptNum t) es) = map pt_view ?es"
    using pts.copy_current [OF len(2)] s len(1) by simp
  moreover have "changed (t\<lparr>entries := es\<rparr>) t = []"
    using pts.copy_settles [OF len(2)] pts.copy_notify [of es ?es] s by (simp add: changed_def)
  ultimately show ?thesis
    using assms
    by (intro exI [of _ "rs[?p := (rs ! ?p)\<lparr>cpts := Some (t\<lparr>entries := es\<rparr>)\<rparr>]"] exI [of _ "t\<lparr>entries := es\<rparr>"])
      (auto simp: CmClientZkUpdatePtList_def Let_def)
qed

text \<open>A client of pool 0 for the examples.\<close>

definition some_pool :: pool_cfg where
  "some_pool = \<lparr>ppoolId = 0, predundance = PT_REP_DOUBLE, pinitialNodeNum = 3, pmaxNodeNum = 2, pmaxPtNum = 1, poolName = [], ptype = DISK_TYPE_SSD\<rparr>"

definition some_pt :: "nat \<Rightarrow> pt_entry" where
  "some_pt v = \<lparr>birthVersion = v, ptId = 0, pstate = PT_STATE_NORMAL, masterNodeId = 0, masterDiskId = 0, referNum = 0, copyNum = 0, copyList = []\<rparr>"

definition some_client :: restore_c where
  "some_client = \<lparr>cused = True, cpool = Some some_pool, localSession = 0, localNode = 0,
     cstates = Some \<lparr>slPool = 0, slNum = 2, slMaster = 0, slNodes = [(fresh_state 0 0)\<lparr>nupdown := NODE_STATE_UP\<rparr>, fresh_state 0 1]\<rparr>,
     cnodes = Some \<lparr>ilPool = 0, ilNum = 2, ilNodes = [zero_info, zero_info]\<rparr>,
     cpts = Some ((empty_table 0)\<lparr>ptNum := 1, entries := [some_pt 0]\<rparr>), nodeChangeC = False, stateChangeC = True, masterChangeC = False,
     ptChangeC = True, userKey = [], userValue = [], userHandleC = False\<rparr>"

theorem client_table_current_witness:
  "\<exists>rs' new. CmClientZkUpdatePtList True ((empty_table 0)\<lparr>ptNum := 1, entries := [some_pt 4]\<rparr>) [some_client] =
     Some (rs', [PtsChanged ((empty_table 0)\<lparr>ptNum := 1, entries := [some_pt 4]\<rparr>)]) \<and> cpts (rs' ! 0) = Some new"
proof -
  let ?t = "(empty_table 0)\<lparr>ptNum := 1, entries := [some_pt 4]\<rparr>" and ?o = "(empty_table 0)\<lparr>ptNum := 1, entries := [some_pt 0]\<rparr>"
  have "changed ?o ?t = [some_pt 4]" by (simp add: changed_def pt_view_def some_pt_def)
  moreover have "poolId ?t = 0" by (simp add: empty_table_def)
  ultimately show ?thesis
    using client_table_current [of ?t "[some_client]" some_pool ?o] by (auto simp: some_client_def some_pt_def)
qed

section \<open>States whose sessions cannot be read\<close>

lemma told_nodes:
  "sync_states zoo p n xs ys z = Some (complete, os, notify, z') \<Longrightarrow> snode ` set notify \<subseteq> snode ` set ys"
  by (induction zoo p n xs ys z arbitrary: complete os notify rule: sync_states.induct)
    (fastforce simp: Let_def split: option.splits if_splits)+

lemma sync_states_length: "sync_states zoo p n xs ys z = Some (complete, os, notify, z') \<Longrightarrow> length os = length xs"
  by (induction zoo p n xs ys z arbitrary: complete os notify rule: sync_states.induct)
    (fastforce simp: Let_def split: option.splits if_splits)+

lemma sync_states_same:
  assumes "nupdown x = nupdown y" "x = y\<lparr>sessionId := sessionId x\<rparr>" "sync_states zoo p n (x # xs) (y # ys) z = Some (complete, os, notify, z')"
  shows "\<exists>os'. sync_states zoo p (n + 1) xs ys z = Some (complete, os', notify, z')"
proof -
  have "sync_states zoo p n (x # xs) (y # ys) z =
      (case sync_states zoo p (n + 1) xs ys z of None \<Rightarrow> None | Some (c, xs', notify, z2) \<Rightarrow> Some (c, x # xs', notify, z2))"
    using assms(1,2) by (simp add: Let_def split: option.splits)
  with assms(3) show ?thesis by (auto split: option.splits)
qed

text \<open>
  A change can be lost: when a list of states has a change of a node that does not come up, and the
  session of a later node that does come up cannot be read, the copy takes over the change, but nothing is told;
  the next time the list is read the node counts as unchanged and is not among the nodes that are told.
\<close>

theorem state_change_lost:
  assumes "p < length rs" "cpool (rs ! p) = Some pool" "cstates (rs ! p) = Some old" "slNodes old = x # xs"
    and "slPool new = p" "slNodes new = y # ys" "slNum new = Suc (length ys)" "length ys \<le> length xs"
    and "nupdown x = NODE_STATE_UP \<or> nupdown y \<noteq> NODE_STATE_UP" "x \<noteq> y\<lparr>sessionId := sessionId x\<rparr>" "distinct (map snode (y # ys))"
    and "sync_states zoo p 1 xs ys z = Some (False, xs1, notify1, z1)"
    and "CmClientZkUpdateStateList zoo True new rs1 z2 = Some (rs2, notes2, z3)"
    and "CmClientZkUpdateStateList zoo True new rs z = Some (rs1, notes1, z1')"
  shows "notes1 = [] \<and> (\<exists>st. cstates (rs1 ! p) = Some st \<and> slNodes st ! 0 = y\<lparr>sessionId := sessionId x\<rparr>) \<and>
     (\<forall>mst told. StatesChanged mst told \<in> set notes2 \<longrightarrow> snode y \<notin> snode ` set told)"
proof -
  let ?y = "y\<lparr>sessionId := sessionId x\<rparr>"
  have len: "length xs1 = length xs" by (rule sync_states_length [OF assms(12)])
  have "sync_states zoo p 0 (x # xs) (y # ys) z = Some (False, ?y # xs1, ?y # notify1, z1)"
    using assms(9,10,12) by (auto simp: Let_def)
  then have 1: "notes1 = []" "rs1 = rs[p := (rs ! p)\<lparr>cstates := Some \<lparr>slPool = p, slNum = slNum new, slMaster = slMaster new, slNodes = ?y # xs1\<rparr>\<rparr>]"
    using assms(1-8,14) by (auto simp: CmClientZkUpdateStateList_def Let_def simp del: sync_states.simps)
  then have c: "cstates (rs1 ! p) = Some \<lparr>slPool = p, slNum = slNum new, slMaster = slMaster new, slNodes = ?y # xs1\<rparr>"
    "p < length rs1" "cpool (rs1 ! p) = Some pool"
    using assms(1,2) by simp_all
  have "snode y \<notin> snode ` set told" if told: "StatesChanged mst told \<in> set notes2" for mst told
  proof -
    obtain complete os notify z' where s: "sync_states zoo p 0 (?y # xs1) (y # ys) z2 = Some (complete, os, notify, z')" "told = notify"
      using assms(5-8,13) c told len
      by (auto simp: CmClientZkUpdateStateList_def Let_def simp del: sync_states.simps split: option.splits if_splits prod.splits)
    then obtain os' where "sync_states zoo p 1 xs1 ys z2 = Some (complete, os', notify, z')"
      using sync_states_same [of ?y y zoo p 0 xs1 ys z2 complete os notify z'] by auto
    from told_nodes [OF this] s(2) assms(11) show ?thesis by auto
  qed
  with 1(1) c(1) show ?thesis by auto
qed

text \<open>Node 0 goes down while node 1 comes up, and the session of node 1 is not there yet.\<close>

definition new_states :: state_list where
  "new_states = \<lparr>slPool = 0, slNum = 2, slMaster = 0,
     slNodes = [(fresh_state 0 0)\<lparr>nupdown := NODE_STATE_DOWN\<rparr>, (fresh_state 0 1)\<lparr>nupdown := NODE_STATE_UP\<rparr>]\<rparr>"

lemma dec_1 [simp]: "dec (Suc 0) = ''1''"
  by code_simp

lemmas states_eval = CmClientZkUpdateStateList_def some_client_def new_states_def CmClientZkGetNodeSession_def at_path_def item_path_def
  pool_path_def mem_calls fresh_state_def node_state.defs zero_state_def Let_def

theorem state_change_lost_witness:
  "\<exists>rs1 rs2 told. CmClientZkUpdateStateList mem_zoo True new_states [some_client] \<lparr>mnodes = [], mnum = 0\<rparr> = Some (rs1, [], \<lparr>mnodes = [], mnum = 0\<rparr>) \<and>
     CmClientZkUpdateStateList mem_zoo True new_states rs1 \<lparr>mnodes = [(item_path 0 ''node'' (dec 1), Session 5)], mnum = 0\<rparr> =
       Some (rs2, [StatesChanged 0 told], \<lparr>mnodes = [(item_path 0 ''node'' (dec 1), Session 5)], mnum = 0\<rparr>) \<and>
     0 \<notin> snode ` set told"
proof -
  let ?z = "\<lparr>mnodes = [], mnum = 0\<rparr>" and ?z2 = "\<lparr>mnodes = [(item_path 0 ''node'' (dec 1), Session 5)], mnum = 0\<rparr>"
  define rs1 where
    "rs1 = [some_client\<lparr>cstates := Some (new_states\<lparr>slNodes := [(fresh_state 0 0)\<lparr>nupdown := NODE_STATE_DOWN\<rparr>, fresh_state 0 1]\<rparr>)\<rparr>]"
  have 1: "CmClientZkUpdateStateList mem_zoo True new_states [some_client] ?z = Some (rs1, [], ?z)"
    by (simp add: rs1_def states_eval)
  obtain rs2 told where 2: "CmClientZkUpdateStateList mem_zoo True new_states rs1 ?z2 = Some (rs2, [StatesChanged 0 told], ?z2)"
    by (simp add: rs1_def states_eval)
  have s: "sync_states mem_zoo 0 1 [fresh_state 0 1] [(fresh_state 0 1)\<lparr>nupdown := NODE_STATE_UP\<rparr>] ?z = Some (False, [fresh_state 0 1], [], ?z)"
    by (simp add: states_eval)
  from state_change_lost [OF _ _ _ _ _ _ _ _ _ _ _ s 2 1, of some_pool "the (cstates some_client)" "(fresh_state 0 0)\<lparr>nupdown := NODE_STATE_UP\<rparr>"
      "(fresh_state 0 0)\<lparr>nupdown := NODE_STATE_DOWN\<rparr>"]
  have "snode ((fresh_state 0 0)\<lparr>nupdown := NODE_STATE_DOWN\<rparr>) \<notin> snode ` set told"
    by (simp add: some_client_def new_states_def fresh_state_def node_state.defs)
  then have "0 \<notin> snode ` set told" by (simp add: fresh_state_def node_state.defs)
  with 1 2 show ?thesis by blast
qed

section \<open>Lists that are not checked\<close>

text \<open>
  The check of what is read from ZooKeeper is made only if the call has failed: a list with more
  nodes than the pool may have is taken as it is, and the client leaves the memory of its copy,
  although the check rejects a list with more than 256 nodes.
\<close>

theorem list_not_checked:
  assumes "CmZkWget zoo (pool_path p ''node_list'') z = (ZOK, Nodes l, z')" "length (pool_path p ''node_list'') < CM_ZNODE_PATH_LEN"
    and "ilPool l = p" "p < length rs" "cpool (rs ! p) = Some pool" "cnodes (rs ! p) = Some old"
    and "length (ilNodes old) = pmaxNodeNum pool" "pmaxNodeNum pool < ilNum l" "MAX_NODE_NUM < ilNum l"
  shows "CmClientZkSubNodeList zoo (True, True) junk p rs z = None \<and> CheckNodeDataFromZk l = Some CM_ERR"
  using assms by (simp add: CmClientZkSubNodeList_def at_path_def CmClientZkUpdateNodeList_def CheckNodeDataFromZk_def)

theorem list_not_checked_witness:
  "CmClientZkSubNodeList mem_zoo (True, True) \<lparr>ilPool = 0, ilNum = 0, ilNodes = []\<rparr> 0 [some_client]
     \<lparr>mnodes = [(pool_path 0 ''node_list'', Nodes \<lparr>ilPool = 0, ilNum = 300, ilNodes = []\<rparr>)], mnum = 0\<rparr> = None"
proof -
  let ?z = "\<lparr>mnodes = [(pool_path 0 ''node_list'', Nodes \<lparr>ilPool = 0, ilNum = 300, ilNodes = []\<rparr>)], mnum = 0\<rparr>"
  have w: "CmZkWget mem_zoo (pool_path 0 ''node_list'') ?z = (ZOK, Nodes \<lparr>ilPool = 0, ilNum = 300, ilNodes = []\<rparr>, ?z)"
    by (simp add: mem_calls)
  show ?thesis
    using list_not_checked [OF w, of "[some_client]" some_pool "the (cnodes some_client)" "\<lparr>ilPool = 0, ilNum = 0, ilNodes = []\<rparr>"]
    by (simp add: pool_path_def some_client_def some_pool_def)
qed

end
