(* ===== verification/CmThreadPool.thy ===== *)
theory CmThreadPool
  imports BdmThreadPool "HOL-Library.Multiset"
begin

text \<open>
  The threads of the cluster manager, \<^verbatim>\<open>cluster/common/cm_threadpool.c\<close>, and the schedules of
  server and client, \<^verbatim>\<open>cm_server_schedule.c\<close> and \<^verbatim>\<open>cm_client_schedule.c\<close>: a ring of tasks with
  several workers that take one task at a time. A task is a function that is not null with its
  argument, \<open>'t\<close>. The ring is the one of the disk layer, \<^verbatim>\<open>BdmThreadPool\<close>, whose lemmas are used.
\<close>

abbreviation THREAD_POOL_MAX_THREADS :: nat where "THREAD_POOL_MAX_THREADS \<equiv> 2048"
abbreviation THREAD_POOL_MAX_QUEUE_SIZE :: nat where "THREAD_POOL_MAX_QUEUE_SIZE \<equiv> 32768"
abbreviation THREAD_POOL_NAME_LEN :: nat where "THREAD_POOL_NAME_LEN \<equiv> 64"

datatype pool_exit = THREAD_POOL_RUNNING | THREAD_POOL_EXIT_DELAY | THREAD_POOL_EXIT_IMMEDIATELY

definition inc16 :: "nat \<Rightarrow> nat" where "inc16 x = (x + 1) mod 2 ^ 16"

record 't cm_pool =
  cpName :: string
  cpFlags :: nat
  cpThreadNum :: nat
  cpQueue :: "'t list"
  cpExit :: pool_exit
  cpQueueSize :: nat
  cpQueueHead :: nat
  cpQueueTail :: nat
  cpEnqueueCnt :: nat
  cpTotalInvokeCnt :: nat
  cpQueueFullCnt :: nat

section \<open>Operations\<close>

text \<open>Too big numbers are reduced.\<close>

definition ParamCheck :: "nat \<Rightarrow> nat \<Rightarrow> (nat \<times> nat) option" where
  "ParamCheck num qsize =
     (if num = 0 \<or> qsize = 0 then None
      else Some (min num THREAD_POOL_MAX_THREADS, min qsize THREAD_POOL_MAX_QUEUE_SIZE))"

text \<open>\<open>mallocs\<close> and \<open>creates\<close> are the outcomes of \<open>malloc\<close> and of the creation of the threads; \<open>zero\<close> is a cleared element.\<close>

definition CmThreadPoolCreate ::
  "'t \<Rightarrow> bool \<Rightarrow> (nat \<Rightarrow> bool) \<Rightarrow> nat \<Rightarrow> nat \<Rightarrow> nat \<Rightarrow> string \<Rightarrow> 't cm_pool option" where
  "CmThreadPoolCreate zero mallocs creates num qsize flags poolName =
     (case ParamCheck num qsize of
        None \<Rightarrow> None
      | Some (threads, len) \<Rightarrow>
          if \<not> mallocs \<or> list_ex (\<lambda>i. \<not> creates i) [0..<threads] then None
          else Some \<lparr>cpName = take (THREAD_POOL_NAME_LEN - 1) poolName, cpFlags = flags, cpThreadNum = threads, cpQueue = replicate len zero,
            cpExit = THREAD_POOL_RUNNING, cpQueueSize = len, cpQueueHead = 0, cpQueueTail = 0, cpEnqueueCnt = 0,
            cpTotalInvokeCnt = 0, cpQueueFullCnt = 0\<rparr>)"

definition ThreadPoolEnqueue :: "'t \<Rightarrow> 't cm_pool \<Rightarrow> int \<times> 't cm_pool" where
  "ThreadPoolEnqueue task p =
     (if (cpQueueTail p + 1) mod cpQueueSize p = cpQueueHead p then (- 1, p)
      else (0, p\<lparr>cpQueue := (cpQueue p)[cpQueueTail p := task], cpQueueTail := (cpQueueTail p + 1) mod cpQueueSize p,
                 cpEnqueueCnt := inc16 (cpEnqueueCnt p)\<rparr>))"

text \<open>What \<open>ThreadPoolThread\<close> does with the ring when it takes a task.\<close>

definition take_task :: "'t cm_pool \<Rightarrow> 't \<times> 't cm_pool" where
  "take_task p = (cpQueue p ! cpQueueHead p,
     p\<lparr>cpQueueHead := (cpQueueHead p + 1) mod cpQueueSize p, cpTotalInvokeCnt := inc16 (cpTotalInvokeCnt p)\<rparr>)"

text \<open>
  \<open>CmThreadPoolAdd\<close> repeats until the task is accepted. \<open>rounds\<close> is how often it tries before it is
  stopped, when no worker acts in between; \<open>False\<close> is the result of being stopped.
\<close>

fun CmThreadPoolAdd :: "nat \<Rightarrow> 't \<Rightarrow> 't cm_pool \<Rightarrow> bool \<times> 't cm_pool" where
  "CmThreadPoolAdd 0 task p = (False, p)"
| "CmThreadPoolAdd (Suc rounds) task p =
     (case ThreadPoolEnqueue task p of
        (ret, p') \<Rightarrow> if ret = 0 then (True, p') else CmThreadPoolAdd rounds task (p'\<lparr>cpQueueFullCnt := inc16 (cpQueueFullCnt p')\<rparr>))"

definition set_pool_exit :: "int \<Rightarrow> 't cm_pool \<Rightarrow> 't cm_pool" where
  "set_pool_exit flags p = p\<lparr>cpExit := (if flags = 0 then THREAD_POOL_EXIT_DELAY else THREAD_POOL_EXIT_IMMEDIATELY)\<rparr>"

section \<open>The schedules\<close>

abbreviation CM_SERVER_THREADPOOL_NUM :: nat where "CM_SERVER_THREADPOOL_NUM \<equiv> 4"
abbreviation CM_SERVER_THREAD_NUM :: nat where "CM_SERVER_THREAD_NUM \<equiv> 1"
abbreviation CM_SERVER_QUEUE_SIZE :: nat where "CM_SERVER_QUEUE_SIZE \<equiv> 1024"

text \<open>
  The thread pools of the server. The result \<open>Inl\<close> is a task that is run at once by the caller, as there is no
  thread pool; \<open>None\<close> is an access outside the array. The client has the same functions.
\<close>

definition CmServerSchedueAdd ::
  "nat \<Rightarrow> nat \<Rightarrow> 't \<Rightarrow> 't cm_pool option list \<Rightarrow> ('t + bool \<times> 't cm_pool option list) option" where
  "CmServerSchedueAdd rounds poolId task ps =
     (let index = poolId div CM_SERVER_THREADPOOL_NUM in
      if index \<ge> length ps then None
      else case ps ! index of
        None \<Rightarrow> Some (Inl task)
      | Some p \<Rightarrow> (case CmThreadPoolAdd rounds task p of (accepted, p') \<Rightarrow> Some (Inr (accepted, ps[index := Some p']))))"

definition CmClientSchedueAdd ::
  "nat \<Rightarrow> nat \<Rightarrow> 't \<Rightarrow> 't cm_pool option list \<Rightarrow> ('t + bool \<times> 't cm_pool option list) option" where
  "CmClientSchedueAdd = CmServerSchedueAdd"

text \<open>
  The flag that \<open>CmServerScheduleExit\<close> gives to \<open>CmThreadPoolDestroy\<close> is \<open>THREAD_POOL_EXIT_DELAY\<close>, the
  number 1. The first result is each thread pool as its workers see it while it is destroyed, the
  second one the array afterwards.
\<close>

definition CmServerScheduleExit :: "'t cm_pool option list \<Rightarrow> 't cm_pool option list \<times> 't cm_pool option list" where
  "CmServerScheduleExit ps = (map (map_option (set_pool_exit 1)) ps, map (\<lambda>_. None) ps)"

text \<open>\<open>created i\<close> is the result of \<open>CmThreadPoolCreate\<close> for the \<open>i\<close>-th thread pool.\<close>

fun create_schedule :: "(nat \<Rightarrow> 't cm_pool option) \<Rightarrow> nat list \<Rightarrow> 't cm_pool option list \<Rightarrow> int \<times> 't cm_pool option list" where
  "create_schedule created [] ps = (0, ps)"
| "create_schedule created (i # is) ps =
     (case created i of
        None \<Rightarrow> (- 1, snd (CmServerScheduleExit (ps[i := None])))
      | Some p \<Rightarrow> create_schedule created is (ps[i := Some p]))"

definition CmServerScheduleInit :: "(nat \<Rightarrow> 't cm_pool option) \<Rightarrow> int \<times> 't cm_pool option list" where
  "CmServerScheduleInit created =
     create_schedule created [0..<CM_SERVER_THREADPOOL_NUM] (replicate CM_SERVER_THREADPOOL_NUM None)"

section \<open>Interleavings\<close>

text \<open>
  The workers are where the worker of the disk layer can be; one that runs a task \<open>t\<close> is at
  \<open>Handling [t]\<close>. The mutex is free when no worker is between locking it and waiting or taking.
  \<open>taken\<close> records the tasks in the order in which they were taken, \<open>finished\<close> those that have been run.
\<close>

record 't sched =
  tp :: "'t cm_pool"
  ws :: "'t worker_at list"
  dest :: destroyer_at
  accepted :: "'t list"
  taken :: "'t list"
  finished :: "'t list"

definition mutex_free :: "'t worker_at list \<Rightarrow> bool" where
  "mutex_free = list_all unlocked"

text \<open>\<open>pthread_cond_signal\<close> wakes one of the threads that wait, if there is one.\<close>

definition signalled :: "'t worker_at list \<Rightarrow> 't worker_at list \<Rightarrow> bool" where
  "signalled w w' \<longleftrightarrow> (if Waiting \<in> set w then \<exists>i<length w. w ! i = Waiting \<and> w' = w[i := Woken] else w' = w)"

inductive cm_step :: "'t sched \<Rightarrow> 't sched \<Rightarrow> bool" where
  add: "\<lbrakk>dest s \<noteq> Destroyed; mutex_free (ws s); ThreadPoolEnqueue task (tp s) = (0, p); signalled (ws s) w\<rbrakk> \<Longrightarrow>
     cm_step s (s\<lparr>tp := p, ws := w, accepted := accepted s @ [task]\<rparr>)"
| add_full: "\<lbrakk>dest s \<noteq> Destroyed; mutex_free (ws s); ThreadPoolEnqueue task (tp s) = (- 1, p)\<rbrakk> \<Longrightarrow>
     cm_step s (s\<lparr>tp := p\<lparr>cpQueueFullCnt := inc16 (cpQueueFullCnt p)\<rparr>\<rparr>)"
| lock: "\<lbrakk>i < length (ws s); ws s ! i = Unlocked \<or> ws s ! i = Woken; mutex_free (ws s)\<rbrakk> \<Longrightarrow>
     cm_step s (s\<lparr>ws := (ws s)[i := Looping]\<rparr>)"
| spurious: "\<lbrakk>i < length (ws s); ws s ! i = Waiting\<rbrakk> \<Longrightarrow> cm_step s (s\<lparr>ws := (ws s)[i := Woken]\<rparr>)"
| found_empty: "\<lbrakk>i < length (ws s); ws s ! i = Looping; cpExit (tp s) = THREAD_POOL_RUNNING; cpQueueHead (tp s) = cpQueueTail (tp s)\<rbrakk> \<Longrightarrow>
     cm_step s (s\<lparr>ws := (ws s)[i := Sleepy]\<rparr>)"
| sleep: "\<lbrakk>i < length (ws s); ws s ! i = Sleepy\<rbrakk> \<Longrightarrow> cm_step s (s\<lparr>ws := (ws s)[i := Waiting]\<rparr>)"
| return: "\<lbrakk>i < length (ws s); ws s ! i = Looping;
      cpExit (tp s) = THREAD_POOL_EXIT_IMMEDIATELY \<or>
      cpExit (tp s) = THREAD_POOL_EXIT_DELAY \<and> cpQueueHead (tp s) = cpQueueTail (tp s)\<rbrakk> \<Longrightarrow>
     cm_step s (s\<lparr>ws := (ws s)[i := Returned]\<rparr>)"
| take_first: "\<lbrakk>i < length (ws s); ws s ! i = Looping; cpExit (tp s) \<noteq> THREAD_POOL_EXIT_IMMEDIATELY;
      cpQueueHead (tp s) \<noteq> cpQueueTail (tp s); take_task (tp s) = (task, p)\<rbrakk> \<Longrightarrow>
     cm_step s (s\<lparr>tp := p, ws := (ws s)[i := Handling [task]], taken := taken s @ [task]\<rparr>)"
| finish: "\<lbrakk>i < length (ws s); ws s ! i = Handling [task]\<rbrakk> \<Longrightarrow>
     cm_step s (s\<lparr>ws := (ws s)[i := Unlocked], finished := finished s @ [task]\<rparr>)"
| set_exit: "dest s = Idle \<Longrightarrow> cm_step s (s\<lparr>tp := set_pool_exit flags (tp s), dest := Flagged\<rparr>)"
| broadcast: "dest s = Flagged \<Longrightarrow> cm_step s (s\<lparr>ws := map signal (ws s), dest := Joining\<rparr>)"
| join: "\<lbrakk>dest s = Joining; \<forall>w\<in>set (ws s). w = Returned\<rbrakk> \<Longrightarrow> cm_step s (s\<lparr>dest := Destroyed\<rparr>)"

inductive cm_reachable :: "'t sched \<Rightarrow> 't sched \<Rightarrow> bool" where
  start: "cm_reachable s s"
| next_step: "\<lbrakk>cm_reachable s s'; cm_step s' s''\<rbrakk> \<Longrightarrow> cm_reachable s s''"

definition cm_started :: "'t cm_pool \<Rightarrow> 't sched" where
  "cm_started p = \<lparr>tp = p, ws = replicate (cpThreadNum p) Unlocked, dest = Idle, accepted = [], taken = [], finished = []\<rparr>"

section \<open>The ring\<close>

definition ring_of :: "'t cm_pool \<Rightarrow> 't thread" where
  "ring_of p = thread.make True BDM_THREAD_RUNNING [] 0 (cpQueueSize p) (cpQueueHead p) (cpQueueTail p) (Some (cpQueue p)) 0 0 0"

definition waiting_tasks :: "'t cm_pool \<Rightarrow> 't list" where
  "waiting_tasks p = contents (ring_of p)"

definition cm_pool_ok :: "'t cm_pool \<Rightarrow> bool" where
  "cm_pool_ok p \<longleftrightarrow> ring_ok (ring_of p)"

lemma ring_of_simps [simp]:
  "queueSize (ring_of p) = cpQueueSize p" "queueHead (ring_of p) = cpQueueHead p" "queueTail (ring_of p) = cpQueueTail p"
  "queue (ring_of p) = Some (cpQueue p)"
  by (simp_all add: ring_of_def thread.defs)

lemma ring_cong:
  assumes "queueSize a = queueSize b" "queueHead a = queueHead b" "queueTail a = queueTail b" "queue a = queue b"
  shows "contents a = contents b" "ring_ok a = ring_ok b"
  using assms by (simp_all add: contents_def ring_ok_def count_def)

text \<open>The ring behaves as the one of the disk layer.\<close>

lemma enqueue_cases:
  assumes "cm_pool_ok p" "ThreadPoolEnqueue x p = (ret, p')"
  shows "(ret = 0 \<and> cm_pool_ok p' \<and> waiting_tasks p' = waiting_tasks p @ [x]) \<or> (ret = - 1 \<and> p' = p)"
proof (cases "(cpQueueTail p + 1) mod cpQueueSize p = cpQueueHead p")
  case False
  then obtain th where th: "BdmThreadPoolEnqueue x (ring_of p) = Some (0, th)"
    "th = (ring_of p)\<lparr>queueTail := (cpQueueTail p + 1) mod cpQueueSize p, queue := Some ((cpQueue p)[cpQueueTail p := x]),
       enqueueCnt := inc32 (enqueueCnt (ring_of p))\<rparr>"
    by (simp add: BdmThreadPoolEnqueue_def)
  from ring.enq_cases [OF assms(1) [unfolded cm_pool_ok_def] th(1)]
  have "ring_ok th" "contents th = contents (ring_of p) @ [x]" by auto
  moreover have "contents th = contents (ring_of p')" "ring_ok th = ring_ok (ring_of p')" "ret = 0"
    using assms(2) False th(2) ring_cong [of th "ring_of p'"] by (auto simp: ThreadPoolEnqueue_def)
  ultimately show ?thesis by (simp add: cm_pool_ok_def waiting_tasks_def)
qed (use assms(2) in \<open>simp add: ThreadPoolEnqueue_def\<close>)

lemma take_task_first:
  assumes "cm_pool_ok p" "cpQueueHead p \<noteq> cpQueueTail p" "take_task p = (x, p')"
  shows "waiting_tasks p = x # waiting_tasks p'" "cm_pool_ok p'"
proof -
  have "contents (ring_of p) \<noteq> []" using contents_empty [of "ring_of p"] assms(1,2) by (simp add: cm_pool_ok_def)
  then obtain y ys where c: "contents (ring_of p) = y # ys" by (cases "contents (ring_of p)") auto
  from take_one [OF assms(1) [unfolded cm_pool_ok_def] c, of 0 "[]"] obtain th where
    th: "take_batch 1 [] (ring_of p) = Some ([y], th)" "ring_ok th" "contents th = ys" by auto
  have "th = (ring_of p)\<lparr>queueHead := (cpQueueHead p + 1) mod cpQueueSize p, totalInvokeCnt := inc32 (totalInvokeCnt (ring_of p))\<rparr>"
    "y = cpQueue p ! cpQueueHead p"
    using th(1) assms(2) by auto
  with th c assms(3) ring_cong [of th "ring_of p'"] show "waiting_tasks p = x # waiting_tasks p'" "cm_pool_ok p'"
    by (auto simp: waiting_tasks_def cm_pool_ok_def take_task_def)
qed

lemma exit_frame [simp]:
  "cm_pool_ok (set_pool_exit f p) = cm_pool_ok p" "waiting_tasks (set_pool_exit f p) = waiting_tasks p"
  "cm_pool_ok (p\<lparr>cpQueueFullCnt := n\<rparr>) = cm_pool_ok p" "waiting_tasks (p\<lparr>cpQueueFullCnt := n\<rparr>) = waiting_tasks p"
  by (simp_all add: set_pool_exit_def cm_pool_ok_def waiting_tasks_def ring_of_def)

section \<open>The invariant of the interleavings\<close>

definition running :: "'t worker_at list \<Rightarrow> 't list" where
  "running w = concat (map batch_of w)"

lemma running_single [simp]: "running [x] = batch_of x"
  by (simp add: running_def)

lemma running_replicate [simp]: "running (replicate k Unlocked) = []"
  by (induction k) (simp_all add: running_def)

lemma running_update:
  assumes "i < length w"
  shows "mset (running (w[i := x])) + mset (batch_of (w ! i)) = mset (running w) + mset (batch_of x)"
proof -
  have "w = List.take i w @ w ! i # drop (Suc i) w" using assms by (rule id_take_nth_drop)
  then have "running w = running (List.take i w) @ batch_of (w ! i) @ running (drop (Suc i) w)"
    unfolding running_def by (metis concat.simps(2) concat_append list.map(2) map_append)
  moreover have "running (w[i := x]) = running (List.take i w) @ batch_of x @ running (drop (Suc i) w)"
    using assms by (simp add: running_def upd_conv_take_nth_drop)
  ultimately show ?thesis by simp
qed

lemma running_signalled: "signalled w w' \<Longrightarrow> running w' = running w \<and> length w' = length w"
proof -
  have "running (w[i := Woken]) = running w" if "i < length w" "w ! i = Waiting" for i
  proof -
    have "map batch_of (w[i := Woken]) = map batch_of w" using that by (simp add: map_update list_update_same_conv)
    then show ?thesis by (simp add: running_def)
  qed
  then show "signalled w w' \<Longrightarrow> running w' = running w \<and> length w' = length w"
    by (auto simp: signalled_def split: if_splits)
qed

lemma running_signal_all [simp]: "running (map signal w) = running w"
  by (simp add: running_def comp_def)

text \<open>
  The tasks are taken in the order in which they were accepted; a task that was taken is running or
  has been run; a single worker also runs them in this order.
\<close>

definition cm_inv :: "nat \<Rightarrow> 't sched \<Rightarrow> bool" where
  "cm_inv n s \<longleftrightarrow> cm_pool_ok (tp s) \<and> length (ws s) = n \<and> taken s @ waiting_tasks (tp s) = accepted s \<and>
     mset (finished s) + mset (running (ws s)) = mset (taken s) \<and> (n = 1 \<longrightarrow> finished s @ running (ws s) = taken s)"

lemma running_one: "length w = 1 \<Longrightarrow> i < length w \<Longrightarrow> running w = batch_of (w ! i) \<and> w[i := x] = [x]"
  by (cases w) (auto simp: running_def)

text \<open>A step of one worker that does not touch the tasks.\<close>

lemma cm_inv_move:
  assumes "cm_inv n s" "i < length (ws s)" "batch_of (ws s ! i) = []" "batch_of x = []"
  shows "cm_inv n (s\<lparr>ws := (ws s)[i := x]\<rparr>)"
  using assms running_update [OF assms(2), of x] running_one [of "ws s" i x]
  by (auto simp: cm_inv_def)

lemma cm_step_inv:
  assumes "cm_step s s'" "cm_inv n s"
  shows "cm_inv n s'"
  using assms
proof cases
  case (add task p w)
  with assms(2) enqueue_cases [of "tp s" task 0 p] running_signalled [OF add(5)] show ?thesis by (auto simp: cm_inv_def)
next
  case (add_full task p)
  with assms(2) enqueue_cases [of "tp s" task "- 1" p] show ?thesis by (auto simp: cm_inv_def)
next
  case (take_first i task p)
  then have "cm_pool_ok (tp s)" using assms(2) by (simp add: cm_inv_def)
  from take_task_first [OF this take_first(5,6)] have t: "waiting_tasks (tp s) = task # waiting_tasks p" "cm_pool_ok p" .
  have "mset (running ((ws s)[i := Handling [task]])) = mset (running (ws s)) + {#task#}"
    using running_update [OF take_first(2), of "Handling [task]"] take_first(3) by simp
  with t take_first assms(2) running_one [of "ws s" i "Handling [task]"] show ?thesis
    by (auto simp: cm_inv_def)
next
  case (finish i task)
  have "mset (running (ws s)) = mset (running ((ws s)[i := Unlocked])) + {#task#}"
    using running_update [OF finish(2), of Unlocked] finish(3) by simp
  with finish assms(2) running_one [of "ws s" i Unlocked] show ?thesis
    by (auto simp: cm_inv_def)
next
  case (lock i)
  then show ?thesis using cm_inv_move [OF assms(2), of i Looping] by auto
next
  case (spurious i)
  then show ?thesis using cm_inv_move [OF assms(2), of i Woken] by auto
next
  case (found_empty i)
  then show ?thesis using cm_inv_move [OF assms(2), of i Sleepy] by auto
next
  case (sleep i)
  then show ?thesis using cm_inv_move [OF assms(2), of i Waiting] by auto
next
  case (return i)
  then show ?thesis using cm_inv_move [OF assms(2), of i Returned] by auto
qed (auto simp: cm_inv_def)

lemma cm_reachable_inv: "cm_reachable s s' \<Longrightarrow> cm_inv n s \<Longrightarrow> cm_inv n s'"
  by (induction rule: cm_reachable.induct) (auto intro: cm_step_inv)

lemma created_pool:
  assumes "CmThreadPoolCreate zero m c num qsize flags name = Some p"
  shows "cm_pool_ok p" "waiting_tasks p = []" "cpQueueHead p = 0" "cpQueueTail p = 0" "cpExit p = THREAD_POOL_RUNNING"
    "cpThreadNum p = min num THREAD_POOL_MAX_THREADS" "cpQueueSize p = min qsize THREAD_POOL_MAX_QUEUE_SIZE"
  using assms
  by (auto simp: CmThreadPoolCreate_def ParamCheck_def cm_pool_ok_def waiting_tasks_def ring_ok_def contents_def count_def
      split: if_splits option.splits)

lemma started_cm_inv:
  assumes "CmThreadPoolCreate zero m c num qsize flags name = Some p"
  shows "cm_inv (cpThreadNum p) (cm_started p)"
  using created_pool(1,2) [OF assms] by (auto simp: cm_inv_def cm_started_def)

section \<open>Properties\<close>

text \<open>
  (C31) In every interleaving of the adding threads, the workers and a destroying thread the tasks are
  taken in the order in which they were accepted, each taken task is running or has been run, once, and with
  a single worker, as the schedules have it, the tasks are run in the order in which they were accepted.
\<close>

theorem schedule_in_order:
  assumes "CmThreadPoolCreate zero m c num qsize flags name = Some p" "cm_reachable (cm_started p) s"
  shows "taken s @ waiting_tasks (tp s) = accepted s \<and> mset (finished s) + mset (running (ws s)) = mset (taken s) \<and>
     (num = CM_SERVER_THREAD_NUM \<longrightarrow> finished s @ running (ws s) @ waiting_tasks (tp s) = accepted s)"
proof -
  have "cm_inv (cpThreadNum p) s" using cm_reachable_inv [OF assms(2) started_cm_inv [OF assms(1)]] .
  moreover have "num = CM_SERVER_THREAD_NUM \<Longrightarrow> cpThreadNum p = 1" using created_pool(6) [OF assms(1)] by simp
  ultimately show ?thesis by (auto simp: cm_inv_def simp flip: append_assoc)
qed

definition pool4 :: "nat cm_pool" where
  "pool4 = the (CmThreadPoolCreate 0 True (\<lambda>_. True) 1 4 0 ''cm_server_schedule'')"

lemma pool4_created: "CmThreadPoolCreate 0 True (\<lambda>_. True) 1 4 0 ''cm_server_schedule'' = Some pool4"
  by (simp add: pool4_def CmThreadPoolCreate_def ParamCheck_def)

lemma add_first:
  assumes "CmThreadPoolCreate zero m c num qsize flags name = Some p" "1 < cpQueueSize p"
  shows "\<exists>p'. ThreadPoolEnqueue task p = (0, p') \<and> cpQueueHead p' = 0 \<and> cpExit p' = THREAD_POOL_RUNNING \<and>
     cm_reachable (cm_started p) ((cm_started p)\<lparr>tp := p', accepted := [task]\<rparr>)"
proof -
  note c = created_pool [OF assms(1)]
  obtain p' where p': "ThreadPoolEnqueue task p = (0, p')" "cpQueueHead p' = 0" "cpExit p' = THREAD_POOL_RUNNING"
    using assms(2) c by (simp add: ThreadPoolEnqueue_def)
  have "cm_step (cm_started p) ((cm_started p)\<lparr>tp := p', ws := ws (cm_started p), accepted := accepted (cm_started p) @ [task]\<rparr>)"
    by (rule cm_step.add) (use p'(1) in \<open>simp_all add: cm_started_def mutex_free_def signalled_def list_all_iff\<close>)
  then have "cm_reachable (cm_started p) ((cm_started p)\<lparr>tp := p', accepted := [task]\<rparr>)"
    using cm_reachable.next_step [OF cm_reachable.start] by (simp add: cm_started_def)
  with p' show ?thesis by blast
qed

theorem schedule_in_order_witness:
  "\<exists>s. cm_reachable (cm_started pool4) s \<and> accepted s = [7] \<and> finished s @ running (ws s) @ waiting_tasks (tp s) = [7]"
proof -
  have "1 < cpQueueSize pool4" using created_pool(7) [OF pool4_created] by simp
  from add_first [OF pool4_created this, of 7] obtain p' where
    r: "cm_reachable (cm_started pool4) ((cm_started pool4)\<lparr>tp := p', accepted := [7]\<rparr>)" by blast
  from schedule_in_order [OF pool4_created r] have
    "finished ((cm_started pool4)\<lparr>tp := p', accepted := [7]\<rparr>) @ running (ws ((cm_started pool4)\<lparr>tp := p', accepted := [7]\<rparr>)) @
       waiting_tasks p' = [7]" by simp
  with r show ?thesis by (intro exI [of _ "(cm_started pool4)\<lparr>tp := p', accepted := [7]\<rparr>"]) simp
qed

text \<open>
  (C38) The end of the schedule drops tasks: \<open>CmServerScheduleExit\<close> asks for a delayed exit, but the number it
  passes makes the workers leave at once, so a task that was accepted can be lost.
\<close>

theorem schedule_exit_drops:
  assumes "CmThreadPoolCreate zero m c CM_SERVER_THREAD_NUM qsize flags name = Some p" "1 < qsize"
  shows "CmServerScheduleExit [Some p] = ([Some (set_pool_exit 1 p)], [None]) \<and>
     (\<exists>s. cm_reachable (cm_started p) s \<and> dest s = Destroyed \<and> accepted s = [task] \<and> finished s = [] \<and>
        cpExit (tp s) = cpExit (set_pool_exit 1 p))"
proof -
  have size: "1 < cpQueueSize p" using created_pool(7) [OF assms(1)] assms(2) by simp
  obtain p' where p': "cm_reachable (cm_started p) ((cm_started p)\<lparr>tp := p', accepted := [task]\<rparr>)"
    using add_first [OF assms(1) size] by blast
  let ?s1 = "(cm_started p)\<lparr>tp := p', accepted := [task]\<rparr>"
  have w: "ws ?s1 = [Unlocked]" using created_pool(6) [OF assms(1)] by (simp add: cm_started_def)
  let ?s2 = "?s1\<lparr>tp := set_pool_exit 1 (tp ?s1), dest := Flagged\<rparr>"
  let ?s3 = "?s2\<lparr>ws := map signal (ws ?s2), dest := Joining\<rparr>"
  let ?s4 = "?s3\<lparr>ws := (ws ?s3)[0 := Looping]\<rparr>"
  let ?s5 = "?s4\<lparr>ws := (ws ?s4)[0 := Returned]\<rparr>"
  let ?s6 = "?s5\<lparr>dest := Destroyed\<rparr>"
  have "cm_step ?s1 ?s2" by (rule cm_step.set_exit) (simp add: cm_started_def)
  moreover have "cm_step ?s2 ?s3" by (rule cm_step.broadcast) simp
  moreover have "cm_step ?s3 ?s4" by (rule cm_step.lock) (use w in \<open>simp_all add: mutex_free_def\<close>)
  moreover have "cm_step ?s4 ?s5" by (rule cm_step.return) (use w in \<open>simp_all add: set_pool_exit_def\<close>)
  moreover have "cm_step ?s5 ?s6" by (rule cm_step.join) (use w in simp_all)
  ultimately have "cm_reachable (cm_started p) ?s6" using p' by (meson cm_reachable.next_step)
  then show ?thesis
    by (intro conjI exI [of _ ?s6]) (simp_all add: CmServerScheduleExit_def cm_started_def set_pool_exit_def)
qed

theorem schedule_exit_drops_witness:
  "\<exists>s. cm_reachable (cm_started pool4) s \<and> dest s = Destroyed \<and> accepted s = [7] \<and> finished s = []"
  using schedule_exit_drops [OF pool4_created, of 7] by auto

text \<open>
  The task of a pool goes to the thread pool \<open>poolId / 4\<close>: for the pools below 16 this is one of the four thread
  pools, so the tasks of a pool stay in order; for every other of the 512 pools it is outside the array.
\<close>

theorem schedule_out_of_range:
  assumes "length ps = CM_SERVER_THREADPOOL_NUM"
  shows "CmServerSchedueAdd rounds pool task ps = None \<longleftrightarrow> 16 \<le> pool"
proof -
  have "pool div 4 \<ge> 4 \<longleftrightarrow> 16 \<le> pool" by (simp add: less_eq_div_iff_mult_less_eq)
  then show ?thesis using assms by (auto simp: CmServerSchedueAdd_def Let_def split: option.splits prod.splits)
qed

theorem schedule_out_of_range_witness: "CmServerSchedueAdd 1 16 (7 :: nat) [None, None, None, None] = None"
  using schedule_out_of_range [of "[None, None, None, None]" 1 16 "7 :: nat"] by simp

end
