(* ===== verification/CmClient.thy ===== *)
theory CmClient
  imports CmZkStart CmThreadPool BdmDisk
begin

text \<open>
  The cluster client, \<^verbatim>\<open>cluster/client/cm_client_local.c\<close> and \<^verbatim>\<open>cm_client_event.c\<close>: a node registers
  itself, subscribes to the lists of its pools, and reports changes of its disks and finished
  recoveries. It uses the adapter of ZooKeeper, the schedule of the client and the number of disks
  that the disk layer keeps.

  \<open>None\<close> is an access outside an array or a call that does not return.
\<close>

abbreviation NET_LIST_NUM :: nat where "NET_LIST_NUM \<equiv> 4"
abbreviation NODE_META_BUFF_LEN :: nat where "NODE_META_BUFF_LEN \<equiv> 4096"

text \<open>The sizes of \<open>CmNodeEvent\<close> and \<open>PtFinish\<close>.\<close>

abbreviation size_CmNodeEvent :: nat where "size_CmNodeEvent \<equiv> 6"
abbreviation size_PtFinish :: nat where "size_PtFinish \<equiv> 16"

section \<open>State\<close>

datatype client_task = NodeTask node_event | PtTask pt_event

text \<open>
  The functions that the user registers: what they are given is overwritten with their answer. \<open>'c\<close> is
  the user's context, \<open>None\<close> the null pointer; \<open>'h\<close> a function that is only called.
\<close>

record 'c local_op =
  queryLocalNodeInfo :: "('c option \<Rightarrow> reg_info \<Rightarrow> int \<times> reg_info) option"
  queryLocalNodeMr :: "('c option \<Rightarrow> meta_buff \<Rightarrow> int \<times> meta_buff) option"
  opCtx :: "'c option"

record ('c, 'h, 'd) client =
  g_localOp :: "'c local_op list"
  g_localNodeInfo :: "reg_info list"
  g_mrBuff :: meta_buff
  g_subNodeChange :: "('h option \<times> 'c option) list"
  g_subPtChange :: "('h option \<times> 'c option) list"
  g_restoreC :: "restore_c list"
  g_scheduleThread :: "client_task cm_pool option list"
  g_bdmDisk :: "'d bdm"

text \<open>The calls of the user's functions.\<close>

datatype ('c, 'h) user_call = NodeCall 'h "'c option" "zk_state list" | PtCall 'h "'c option" pt_list

text \<open>The outcomes of \<open>malloc\<close> and what the memory holds.\<close>

record memory =
  memOk :: bool
  memPair :: "bool \<times> bool"
  junkNodes :: info_list
  junkStates :: state_list
  junkPts :: pt_list

section \<open>The interface of the user\<close>

definition CmClientInitLocalOp :: "('c, 'h, 'd) client \<Rightarrow> ('c, 'h, 'd) client" where
  "CmClientInitLocalOp cl = cl\<lparr>g_localOp := map (\<lambda>q. q\<lparr>queryLocalNodeInfo := None, queryLocalNodeMr := None\<rparr>) (g_localOp cl)\<rparr>"

definition CM_GetNodeInfo :: "'z zoo \<Rightarrow> cm_config \<Rightarrow> nat \<Rightarrow> reg_info option \<Rightarrow> 'z \<Rightarrow> (int \<times> reg_info option \<times> 'z) option" where
  "CM_GetNodeInfo zoo c p nodeInfo z =
     (case (CmConfigGetPoolInfo p c, nodeInfo) of
        (Some pool, Some info) \<Rightarrow>
          if p \<ge> MAX_POOL_NUM then Some (CM_ERR, nodeInfo, z)
          else map_option (\<lambda>(ret, i, z'). (ret, Some i, z')) (CmClientZkGetNodeInfo zoo p info z)
      | _ \<Rightarrow> Some (CM_ERR, nodeInfo, z))"

definition CM_GetNodeMr :: "'z zoo \<Rightarrow> cm_config \<Rightarrow> nat \<Rightarrow> meta_buff option \<Rightarrow> 'z \<Rightarrow> (int \<times> meta_buff option \<times> 'z) option" where
  "CM_GetNodeMr zoo c p mr z =
     (case (CmConfigGetPoolInfo p c, mr) of
        (Some pool, Some m) \<Rightarrow>
          if p \<ge> MAX_POOL_NUM \<or> mrNode m \<ge> pmaxNodeNum pool then Some (CM_ERR, mr, z)
          else map_option (\<lambda>(ret, m', z'). (ret, Some m', z')) (CmClientZkGetMr zoo p m z)
      | _ \<Rightarrow> Some (CM_ERR, mr, z))"

text \<open>A function that is registered is not replaced, the context is.\<close>

definition CM_RegLocalNodeQueryOpHandle :: "nat \<Rightarrow> 'c local_op option \<Rightarrow> ('c, 'h, 'd) client \<Rightarrow> int \<times> ('c, 'h, 'd) client" where
  "CM_RegLocalNodeQueryOpHandle p handle cl =
     (case handle of
        None \<Rightarrow> (CM_ERR, cl)
      | Some h \<Rightarrow>
          if p \<ge> MAX_POOL_NUM then (CM_ERR, cl)
          else let q = g_localOp cl ! p in
            (CM_OK, cl\<lparr>g_localOp := (g_localOp cl)[p :=
              \<lparr>queryLocalNodeInfo = (if queryLocalNodeInfo q = None then queryLocalNodeInfo h else queryLocalNodeInfo q),
               queryLocalNodeMr = (if queryLocalNodeMr q = None then queryLocalNodeMr h else queryLocalNodeMr q),
               opCtx = opCtx h\<rparr>]\<rparr>))"

definition CM_RegNodeListChangeNotifyHandle ::
  "nat \<Rightarrow> ('h option \<times> 'c option) option \<Rightarrow> ('c, 'h, 'd) client \<Rightarrow> int \<times> ('c, 'h, 'd) client" where
  "CM_RegNodeListChangeNotifyHandle p handle cl =
     (case handle of
        None \<Rightarrow> (CM_ERR, cl)
      | Some h \<Rightarrow>
          if p \<ge> MAX_POOL_NUM then (CM_ERR, cl)
          else (CM_OK, if fst (g_subNodeChange cl ! p) = None then cl\<lparr>g_subNodeChange := (g_subNodeChange cl)[p := h]\<rparr> else cl))"

definition CM_RegPtViewChangeOpHandle ::
  "nat \<Rightarrow> ('h option \<times> 'c option) option \<Rightarrow> ('c, 'h, 'd) client \<Rightarrow> int \<times> ('c, 'h, 'd) client" where
  "CM_RegPtViewChangeOpHandle p handle cl =
     (case handle of
        None \<Rightarrow> (CM_ERR, cl)
      | Some h \<Rightarrow>
          if p \<ge> MAX_POOL_NUM then (CM_ERR, cl)
          else (CM_OK, if fst (g_subPtChange cl ! p) = None then cl\<lparr>g_subPtChange := (g_subPtChange cl)[p := h]\<rparr> else cl))"

definition CM_WriteDataInfo :: "'z zoo \<Rightarrow> nat \<Rightarrow> string option \<Rightarrow> string option \<Rightarrow> 'z \<Rightarrow> int \<times> 'z" where
  "CM_WriteDataInfo zoo p key value z =
     (case (key, value) of
        (Some k, Some v) \<Rightarrow> if p \<ge> MAX_POOL_NUM \<or> v = [] then (CM_ERR, z) else CmClientZkRecordDataInfo zoo p k v z
      | _ \<Rightarrow> (CM_ERR, z))"

text \<open>The handle, when there is one, is the user's; the value may not be null here.\<close>

definition CM_RegDataInfoHandle ::
  "'z zoo \<Rightarrow> nat \<Rightarrow> string option \<Rightarrow> string \<Rightarrow> bool \<Rightarrow> ('c, 'h, 'd) client \<Rightarrow> 'z \<Rightarrow> (int \<times> ('c, 'h, 'd) client \<times> notice list \<times> 'z) option" where
  "CM_RegDataInfoHandle zoo p key value handle cl z =
     (case key of
        None \<Rightarrow> Some (CM_ERR, cl, [], z)
      | Some k \<Rightarrow>
          if p \<ge> MAX_POOL_NUM \<or> \<not> handle then Some (CM_ERR, cl, [], z)
          else map_option (\<lambda>(ret, rs, notes, z'). (ret, cl\<lparr>g_restoreC := rs\<rparr>, notes, z'))
                 (CmClientZkSubDataInfoChange zoo p k value (g_restoreC cl) z))"

section \<open>The local node\<close>

definition CmClientLocalGetNodeInfo :: "nat \<Rightarrow> ('c, 'h, 'd) client \<Rightarrow> int \<times> reg_info option" where
  "CmClientLocalGetNodeInfo p cl =
     (if p \<ge> MAX_POOL_NUM \<or> queryLocalNodeInfo (g_localOp cl ! p) = None then (CM_ERR, None)
      else (CM_OK, Some (g_localNodeInfo cl ! p)))"

definition CmClientLocalGetNodeId :: "nat \<Rightarrow> ('c, 'h, 'd) client \<Rightarrow> nat" where
  "CmClientLocalGetNodeId p cl =
     (if p \<ge> MAX_POOL_NUM \<or> queryLocalNodeInfo (g_localOp cl ! p) = None then NODE_ID_INVALID
      else nid (g_localNodeInfo cl ! p))"

definition CM_GetLocalNodeId :: "nat \<Rightarrow> ('c, 'h, 'd) client \<Rightarrow> nat" where
  "CM_GetLocalNodeId p cl = CmClientLocalGetNodeId p cl"

definition CmClientLocalUpdateNodeInfo :: "nat \<Rightarrow> reg_info \<Rightarrow> ('c, 'h, 'd) client \<Rightarrow> ('c, 'h, 'd) client" where
  "CmClientLocalUpdateNodeInfo p info cl =
     (if p \<ge> MAX_POOL_NUM \<or> queryLocalNodeInfo (g_localOp cl ! p) = None then cl
      else cl\<lparr>g_localNodeInfo := (g_localNodeInfo cl)[p := info]\<rparr>)"

definition CmClientLocalGetNode :: "nat \<Rightarrow> reg_info \<Rightarrow> ('c, 'h, 'd) client \<Rightarrow> int \<times> reg_info" where
  "CmClientLocalGetNode p info cl =
     (if p \<ge> MAX_POOL_NUM then (CM_ERR, info)
      else case queryLocalNodeInfo (g_localOp cl ! p) of
        None \<Rightarrow> (CM_ERR, info)
      | Some query \<Rightarrow>
          (case query (opCtx (g_localOp cl ! p)) info of
             (ret, info') \<Rightarrow>
               (if ret \<noteq> CM_OK \<or> length (ndisks info') > DISK_LIST_NUM \<or> length (nnets info') > NET_LIST_NUM then CM_ERR else CM_OK, info')))"

definition CmClientLocalCheckDisk :: "disk_info list \<Rightarrow> disk_info list \<Rightarrow> int" where
  "CmClientLocalCheckDisk disks bak =
     (if length disks \<noteq> length bak then CM_ERR
      else if list_ex (\<lambda>b. \<not> list_ex (\<lambda>d. diskId b = diskId d) disks) bak then CM_ERR else CM_OK)"

text \<open>A node that is known and still in the cluster has to come with the same disks.\<close>

definition CmClientLocalCheckNode ::
  "'z zoo \<Rightarrow> memory \<Rightarrow> nat \<Rightarrow> pool_cfg \<Rightarrow> reg_info \<Rightarrow> restore_c list \<Rightarrow> 'z \<Rightarrow> (int \<times> 'z) option" where
  "CmClientLocalCheckNode zoo mem p pool info rs z =
     (if ntype info \<noteq> ptype pool then Some (CM_ERR, z)
      else case CmClientZkGetNodeId zoo p (nip info) (nport info) z of
        None \<Rightarrow> None
      | Some (ret, node, z1) \<Rightarrow>
          if ret \<noteq> CM_OK \<and> ret \<noteq> CM_NOT_EXIST then Some (CM_ERR, z1)
          else if ret = CM_NOT_EXIST then Some (CM_OK, z1)
          else case CmClientZkGetNodeInfo zoo p (zero_info\<lparr>nid := the node\<rparr>) z1 of
            None \<Rightarrow> None
          | Some (ret, rec, z2) \<Rightarrow>
              if ret \<noteq> CM_OK \<and> ret \<noteq> CM_NOT_EXIST then Some (CM_ERR, z2)
              else if ret = CM_NOT_EXIST then Some (CM_OK, z2)
              else case CmClientZkGetNodeState zoo (memOk mem) (slNodes (junkStates mem)) p (nid rec) rs z2 of
                None \<Rightarrow> None
              | Some (ret, st, z3) \<Rightarrow>
                  if ret \<noteq> CM_OK then Some (ret, z3)
                  else if ncluster (the st) = NODE_CLUSTER_STATE_INVALID \<or> ncluster (the st) = NODE_CLUSTER_STATE_OUT then Some (CM_OK, z3)
                  else Some (CmClientLocalCheckDisk (ndisks info) (ndisks rec), z3))"

definition CmClientLocalRegisterNode ::
  "'z zoo \<Rightarrow> memory \<Rightarrow> nat \<Rightarrow> cm_config \<Rightarrow> nat \<Rightarrow> ('c, 'h, 'd) client \<Rightarrow> 'z \<Rightarrow> (int \<times> ('c, 'h, 'd) client \<times> 'z) option" where
  "CmClientLocalRegisterNode zoo mem now c p cl z =
     (case CmConfigGetPoolInfo p c of
        None \<Rightarrow> Some (CM_ERR, cl, z)
      | Some pool \<Rightarrow>
          (case CmClientLocalGetNode p (g_localNodeInfo cl ! p) cl of
             (ret, info) \<Rightarrow>
               let cl1 = cl\<lparr>g_localNodeInfo := (g_localNodeInfo cl)[p := info]\<rparr> in
               if ret \<noteq> CM_OK then Some (ret, cl1, z)
               else case CmClientLocalCheckNode zoo mem p pool info (g_restoreC cl1) z of
                 None \<Rightarrow> None
               | Some (ret, z1) \<Rightarrow>
                   if ret \<noteq> CM_OK then Some (ret, cl1, z1)
                   else map_option (\<lambda>(ret, info', rs, z2).
                       (ret, cl1\<lparr>g_localNodeInfo := (g_localNodeInfo cl)[p := info'], g_restoreC := rs\<rparr>, z2))
                     (CmClientZkRegisterNodeInfo zoo now p info (g_restoreC cl1) z1)))"

definition CmClientLocalGetMr :: "nat \<Rightarrow> meta_buff \<Rightarrow> ('c, 'h, 'd) client \<Rightarrow> int \<times> meta_buff" where
  "CmClientLocalGetMr p mr cl =
     (case queryLocalNodeMr (g_localOp cl ! p) of
        None \<Rightarrow> (CM_OK, mr\<lparr>mrBuf := []\<rparr>)
      | Some query \<Rightarrow> (case query (opCtx (g_localOp cl ! p)) mr of (ret, mr') \<Rightarrow> (if ret \<noteq> CM_OK then CM_ERR else CM_OK, mr')))"

definition CmClientLocalRegisterMr ::
  "'z zoo \<Rightarrow> nat \<Rightarrow> ('c, 'h, 'd) client \<Rightarrow> 'z \<Rightarrow> int \<times> ('c, 'h, 'd) client \<times> 'z" where
  "CmClientLocalRegisterMr zoo p cl z =
     (case CmClientLocalGetMr p (g_mrBuff cl) cl of
        (ret, mr) \<Rightarrow>
          if ret \<noteq> CM_OK then (ret, cl\<lparr>g_mrBuff := mr\<rparr>, z)
          else let mr' = mr\<lparr>mrNode := nid (g_localNodeInfo cl ! p)\<rparr> in
            (case CmClientZkRecordMr zoo p mr' z of (ret, z') \<Rightarrow> (ret, cl\<lparr>g_mrBuff := mr'\<rparr>, z')))"

section \<open>Delivery to the user\<close>

definition CmClientNodeListChangeFp :: "cm_config \<Rightarrow> nat \<Rightarrow> zk_state list \<Rightarrow> ('c, 'h, 'd) client \<Rightarrow> ('c, 'h) user_call list" where
  "CmClientNodeListChangeFp c p nodes cl =
     (if p \<ge> MAX_POOL_NUM \<or> CmConfigGetPoolInfo p c = None then []
      else case g_subNodeChange cl ! p of (Some h, ctx) \<Rightarrow> [NodeCall h ctx nodes] | (None, _) \<Rightarrow> [])"

definition CmClientPtListChangeFp :: "cm_config \<Rightarrow> pt_list \<Rightarrow> ('c, 'h, 'd) client \<Rightarrow> ('c, 'h) user_call list" where
  "CmClientPtListChangeFp c l cl =
     (if poolId l \<ge> MAX_POOL_NUM \<or> CmConfigGetPoolInfo (poolId l) c = None then []
      else case g_subPtChange cl ! poolId l of (Some h, ctx) \<Rightarrow> [PtCall h ctx l] | (None, _) \<Rightarrow> [])"

text \<open>The client subscribes with these two functions and with no other.\<close>

definition deliver :: "cm_config \<Rightarrow> nat \<Rightarrow> notice list \<Rightarrow> ('c, 'h, 'd) client \<Rightarrow> ('c, 'h) user_call list" where
  "deliver c p notes cl =
     concat (map (\<lambda>n. case n of StatesChanged _ nodes \<Rightarrow> CmClientNodeListChangeFp c p nodes cl
                              | PtsChanged l \<Rightarrow> CmClientPtListChangeFp c l cl | _ \<Rightarrow> []) notes)"

section \<open>Registration\<close>

definition CmClientLocalRegister ::
  "'z zoo \<Rightarrow> memory \<Rightarrow> nat \<Rightarrow> cm_config \<Rightarrow> nat \<Rightarrow> ('c, 'h, 'd) client \<Rightarrow> 'z \<Rightarrow>
     (int \<times> ('c, 'h, 'd) client \<times> ('c, 'h) user_call list \<times> 'z) option" where
  "CmClientLocalRegister zoo mem now c p cl z =
     (case CmClientLocalRegisterNode zoo mem now c p cl z of
        None \<Rightarrow> None
      | Some (ret, cl1, z1) \<Rightarrow>
          if ret \<noteq> CM_OK then Some (ret, cl1, [], z1)
          else case CmClientLocalRegisterMr zoo p cl1 z1 of
            (ret, cl2, z2) \<Rightarrow>
              if ret \<noteq> CM_OK then Some (ret, cl2, [], z2)
              else case CmClientZkRecordLocalSession zoo p (g_restoreC cl2) z2 of
                (ret, z3) \<Rightarrow>
                  if ret \<noteq> CM_OK then Some (ret, cl2, [], z3)
                  else case CmClientZkSubStateListChange zoo (memPair mem) (junkNodes mem) (junkStates mem) p (g_restoreC cl2) z3 of
                    None \<Rightarrow> None
                  | Some (ret, rs, notes, z4) \<Rightarrow>
                      let cl3 = cl2\<lparr>g_restoreC := rs\<rparr>; calls = deliver c p notes cl3 in
                      if ret \<noteq> CM_OK then Some (ret, cl3, calls, z4)
                      else map_option (\<lambda>(ret, rs', notes', z5).
                          let cl4 = cl3\<lparr>g_restoreC := rs'\<rparr> in (ret, cl4, calls @ deliver c p notes' cl4, z5))
                        (CmClientZkSubPtListChange zoo (memPair mem) (junkPts mem) p rs z4))"

fun register_pools ::
  "'z zoo \<Rightarrow> memory \<Rightarrow> nat \<Rightarrow> cm_config \<Rightarrow> nat list \<Rightarrow> ('c, 'h, 'd) client \<Rightarrow> 'z \<Rightarrow>
     (int \<times> ('c, 'h, 'd) client \<times> ('c, 'h) user_call list \<times> 'z) option" where
  "register_pools zoo mem now c [] cl z = Some (CM_OK, cl, [], z)"
| "register_pools zoo mem now c (p # ps) cl z =
     (if CmConfigGetPoolInfo p c = None then register_pools zoo mem now c ps cl z
      else case CmClientLocalRegister zoo mem now c p cl z of
        None \<Rightarrow> None
      | Some (ret, cl1, calls, z1) \<Rightarrow>
          if ret \<noteq> CM_OK then Some (ret, cl1, calls, z1)
          else map_option (\<lambda>(ret, cl2, calls', z2). (ret, cl2, calls @ calls', z2)) (register_pools zoo mem now c ps cl1 z1))"

definition CmClientLocalInit ::
  "'z zoo \<Rightarrow> memory \<Rightarrow> nat \<Rightarrow> cm_config \<Rightarrow> ('c, 'h, 'd) client \<Rightarrow> 'z \<Rightarrow>
     (int \<times> ('c, 'h, 'd) client \<times> ('c, 'h) user_call list \<times> 'z) option" where
  "CmClientLocalInit zoo mem now c cl z = register_pools zoo mem now c [0..<MAX_POOL_NUM] cl z"

section \<open>Events\<close>

text \<open>
  An event waits until the znode of the previous one is gone. \<open>sleep k\<close> is what others do while
  the client sleeps for the \<open>k\<close>-th time; \<open>None\<close> is a loop that does not end.
\<close>

partial_function (option) event_loop ::
  "(nat \<Rightarrow> 'z \<Rightarrow> 'z) \<Rightarrow> ('z \<Rightarrow> int \<times> 'z) \<Rightarrow> ('z \<Rightarrow> int \<times> 'z) \<Rightarrow> nat \<Rightarrow> 'z \<Rightarrow> 'z option" where
  "event_loop sleep check rec k z =
     (case check z of
        (ret, z1) \<Rightarrow>
          if ret \<noteq> CM_NOT_EXIST then event_loop sleep check rec (k + 1) (sleep k z1)
          else case rec z1 of
            (ret, z2) \<Rightarrow> if ret \<noteq> CM_OK then event_loop sleep check rec (k + 1) (sleep k z2) else Some z2)"

definition CmClientNodeEventHandle :: "'z zoo \<Rightarrow> (nat \<Rightarrow> 'z \<Rightarrow> 'z) \<Rightarrow> node_event \<Rightarrow> 'z \<Rightarrow> 'z option" where
  "CmClientNodeEventHandle zoo sleep e z =
     event_loop sleep (CmClientZkNodeEventExistCheck zoo (epool e) (enode e)) (CmClientZkRecordNodeEvent zoo e) 0 z"

definition CmClientPtEventHandle :: "'z zoo \<Rightarrow> (nat \<Rightarrow> 'z \<Rightarrow> 'z) \<Rightarrow> pt_event \<Rightarrow> 'z \<Rightarrow> 'z option" where
  "CmClientPtEventHandle zoo sleep e z =
     event_loop sleep (CmClientZkPtEventExistCheck zoo (pepool e) (penode e)) (CmClientZkRecordPtEvent zoo e) 0 z"

fun run_task :: "'z zoo \<Rightarrow> (nat \<Rightarrow> 'z \<Rightarrow> 'z) \<Rightarrow> client_task \<Rightarrow> 'z \<Rightarrow> 'z option" where
  "run_task zoo sleep (NodeTask e) z = CmClientNodeEventHandle zoo sleep e z"
| "run_task zoo sleep (PtTask e) z = CmClientPtEventHandle zoo sleep e z"

text \<open>The task goes to the thread pool or, when there is none, is run at once.\<close>

definition schedule ::
  "'z zoo \<Rightarrow> (nat \<Rightarrow> 'z \<Rightarrow> 'z) \<Rightarrow> nat \<Rightarrow> nat \<Rightarrow> client_task \<Rightarrow> ('c, 'h, 'd) client \<Rightarrow> 'z \<Rightarrow> (('c, 'h, 'd) client \<times> 'z) option" where
  "schedule zoo sleep rounds p task cl z =
     (case CmClientSchedueAdd rounds p task (g_scheduleThread cl) of
        None \<Rightarrow> None
      | Some (Inl t) \<Rightarrow> map_option (\<lambda>z'. (cl, z')) (run_task zoo sleep t z)
      | Some (Inr (done, ps)) \<Rightarrow> if done then Some (cl\<lparr>g_scheduleThread := ps\<rparr>, z) else None)"

definition CmClientNodeEventReport ::
  "'z zoo \<Rightarrow> (nat \<Rightarrow> 'z \<Rightarrow> 'z) \<Rightarrow> nat \<Rightarrow> bool \<Rightarrow> nat \<Rightarrow> nat \<Rightarrow> event_type \<Rightarrow> ('c, 'h, 'd) client \<Rightarrow> 'z \<Rightarrow>
     (int \<times> ('c, 'h, 'd) client \<times> 'z) option" where
  "CmClientNodeEventReport zoo sleep rounds mallocOk p n evType cl z =
     (if \<not> mallocOk then Some (CM_ERR, cl, z)
      else map_option (\<lambda>(cl', z'). (CM_OK, cl', z'))
        (schedule zoo sleep rounds p (NodeTask \<lparr>eventType = evType, epool = p, enode = n\<rparr>) cl z))"

definition CmClientPtEventReport ::
  "'z zoo \<Rightarrow> (nat \<Rightarrow> 'z \<Rightarrow> 'z) \<Rightarrow> nat \<Rightarrow> bool \<Rightarrow> nat \<Rightarrow> nat \<Rightarrow> event_type \<Rightarrow> pt_finish list \<Rightarrow> ('c, 'h, 'd) client \<Rightarrow> 'z \<Rightarrow>
     (int \<times> ('c, 'h, 'd) client \<times> 'z) option" where
  "CmClientPtEventReport zoo sleep rounds mallocOk p n evType evs cl z =
     (if \<not> mallocOk then Some (CM_ERR, cl, z)
      else map_option (\<lambda>(cl', z'). (CM_OK, cl', z'))
        (schedule zoo sleep rounds p (PtTask \<lparr>peventType = evType, pepool = p, penode = n, pepts = evs\<rparr>) cl z))"

definition CmClientEventCheck :: "cm_config \<Rightarrow> nat \<Rightarrow> event_type \<Rightarrow> int" where
  "CmClientEventCheck c p evType =
     (case CmConfigGetPoolInfo p c of
        None \<Rightarrow> CM_ERR
      | Some pool \<Rightarrow> if predundance pool = PT_NONE \<and> evType = CM_EVENT_PT_FINISH then CM_ERR else CM_OK)"

fun set_disk :: "nat \<Rightarrow> disk_health \<Rightarrow> disk_info list \<Rightarrow> bool \<times> disk_info list" where
  "set_disk d st [] = (False, [])"
| "set_disk d st (x # xs) =
     (if diskId x \<noteq> d then (case set_disk d st xs of (changed, xs') \<Rightarrow> (changed, x # xs'))
      else if diskHealth x \<noteq> st then (True, x\<lparr>diskHealth := st\<rparr> # xs) else (False, x # xs))"

text \<open>The common end of \<open>CM_SetDiskStatus\<close> and \<open>CM_UpdateNodeInfo\<close>.\<close>

definition record_and_report ::
  "'z zoo \<Rightarrow> (nat \<Rightarrow> 'z \<Rightarrow> 'z) \<Rightarrow> nat \<Rightarrow> bool \<Rightarrow> nat \<Rightarrow> reg_info \<Rightarrow> event_type \<Rightarrow> ('c, 'h, 'd) client \<Rightarrow> 'z \<Rightarrow>
     (int \<times> ('c, 'h, 'd) client \<times> 'z) option" where
  "record_and_report zoo sleep rounds mallocOk p info evType cl z =
     (case CmClientZkRecordNodeInfo zoo p info z of
        (ret, z1) \<Rightarrow>
          if ret \<noteq> CM_OK then Some (ret, cl, z1)
          else CmClientNodeEventReport zoo sleep rounds mallocOk p (nid info) evType (CmClientLocalUpdateNodeInfo p info cl) z1)"

definition CM_SetDiskStatus ::
  "'z zoo \<Rightarrow> (nat \<Rightarrow> 'z \<Rightarrow> 'z) \<Rightarrow> nat \<Rightarrow> bool \<Rightarrow> cm_config \<Rightarrow> nat \<Rightarrow> nat \<Rightarrow> disk_health \<Rightarrow> ('c, 'h, 'd) client \<Rightarrow> 'z \<Rightarrow>
     (int \<times> ('c, 'h, 'd) client \<times> 'z) option" where
  "CM_SetDiskStatus zoo sleep rounds mallocOk c p d st cl z =
     (if CmClientEventCheck c p CM_EVENT_DISK \<noteq> CM_OK then Some (CmClientEventCheck c p CM_EVENT_DISK, cl, z)
      else case CmClientLocalGetNodeInfo p cl of
        (ret, None) \<Rightarrow> Some (ret, cl, z)
      | (ret, Some info) \<Rightarrow>
          (case set_disk d st (ndisks info) of
             (isNeedUpdate, disks) \<Rightarrow>
               if \<not> isNeedUpdate then Some (CM_OK, cl, z)
               else record_and_report zoo sleep rounds mallocOk p (info\<lparr>ndisks := disks\<rparr>) CM_EVENT_DISK
                 (if st = DISK_STATE_FAULT
                  then cl\<lparr>g_bdmDisk := BdmSetNormalDiskNum (BdmGetNormalDiskNum (g_bdmDisk cl) - 1) (g_bdmDisk cl)\<rparr> else cl) z))"

text \<open>A new disk is written behind the counted ones, without looking at the size of the array.\<close>

definition ProcessDiskList ::
  "reg_info \<Rightarrow> disk_health \<Rightarrow> nat \<Rightarrow> bool \<Rightarrow> 'd bdm \<Rightarrow> (bool \<times> reg_info \<times> 'd bdm) option" where
  "ProcessDiskList info st d isNewDisk bdm =
     (if isNewDisk
      then (if length (ndisks info) \<ge> DISK_LIST_NUM then None
            else Some (True, info\<lparr>ndisks := ndisks info @ [\<lparr>diskId = d, diskHealth = st\<rparr>], nspare := tl (nspare info)\<rparr>, bdm))
      else case set_disk d st (ndisks info) of
        (changed, disks) \<Rightarrow>
          Some (if changed then (True, info\<lparr>ndisks := disks\<rparr>, BdmSetNormalDiskNum ((BdmGetNormalDiskNum bdm + 1) mod 2 ^ 32) bdm)
                else (False, info, bdm)))"

definition CM_UpdateNodeInfo ::
  "'z zoo \<Rightarrow> (nat \<Rightarrow> 'z \<Rightarrow> 'z) \<Rightarrow> nat \<Rightarrow> bool \<Rightarrow> cm_config \<Rightarrow> nat \<Rightarrow> disk_health \<Rightarrow> nat \<Rightarrow> bool \<Rightarrow> ('c, 'h, 'd) client \<Rightarrow> 'z \<Rightarrow>
     (int \<times> ('c, 'h, 'd) client \<times> 'z) option" where
  "CM_UpdateNodeInfo zoo sleep rounds mallocOk c p st d isNewDisk cl z =
     (if CmClientEventCheck c p CM_EVENT_ADD_DISK \<noteq> CM_OK then Some (CmClientEventCheck c p CM_EVENT_ADD_DISK, cl, z)
      else case CmClientLocalGetNodeInfo p cl of
        (ret, None) \<Rightarrow> Some (ret, cl, z)
      | (ret, Some info) \<Rightarrow>
          (case ProcessDiskList info st d isNewDisk (g_bdmDisk cl) of
             None \<Rightarrow> None
           | Some (changed, info', bdm) \<Rightarrow>
               if \<not> changed then Some (CM_OK, cl, z)
               else record_and_report zoo sleep rounds mallocOk p info' CM_EVENT_ADD_DISK (cl\<lparr>g_bdmDisk := bdm\<rparr>) z))"

definition CM_SetPtFinishStatus ::
  "'z zoo \<Rightarrow> (nat \<Rightarrow> 'z \<Rightarrow> 'z) \<Rightarrow> nat \<Rightarrow> bool \<Rightarrow> cm_config \<Rightarrow> nat \<Rightarrow> pt_finish list \<Rightarrow> ('c, 'h, 'd) client \<Rightarrow> 'z \<Rightarrow>
     (int \<times> ('c, 'h, 'd) client \<times> 'z) option" where
  "CM_SetPtFinishStatus zoo sleep rounds mallocOk c p evs cl z =
     (if CmClientEventCheck c p CM_EVENT_PT_FINISH \<noteq> CM_OK then Some (CmClientEventCheck c p CM_EVENT_PT_FINISH, cl, z)
      else if size_CmNodeEvent + size_PtFinish * length evs > NODE_META_BUFF_LEN then Some (CM_ERR, cl, z)
      else CmClientPtEventReport zoo sleep rounds mallocOk p (CmClientLocalGetNodeId p cl) CM_EVENT_PT_FINISH evs cl z)"

end
