(* ===== verification/CmClientProps.thy ===== *)
theory CmClientProps
  imports CmClient CmZkListProps
begin

text \<open>
  Properties of the cluster client: every event is reported once its znode is free, a node comes
  back with its disks only, a change of a disk is recorded and reported.
\<close>

section \<open>Events\<close>

text \<open>
  States in which ZooKeeper serves the client: the session is up and the directory of the events is there, so that the two calls for the one
  path of the event give their documented answers. The client stays in such states while it asks and sleeps.
\<close>

definition reachable_zk :: "'z zoo \<Rightarrow> (nat \<Rightarrow> 'z \<Rightarrow> 'z) \<Rightarrow> ('z \<Rightarrow> bool) \<Rightarrow> string \<Rightarrow> bool" where
  "reachable_zk zoo sleep live path \<longleftrightarrow>
     (\<forall>z. live z \<longrightarrow> fst (ZooExists zoo path z) \<in> {ZOK, ZNONODE} \<and> live (snd (snd (ZooExists zoo path z)))) \<and>
     (\<forall>v e z. live z \<longrightarrow> fst (ZooCreate zoo path v e False z) \<in> {ZOK, ZNODEEXISTS}) \<and> (\<forall>k z. live z \<longrightarrow> live (sleep k z))"

lemma reachable_calls:
  assumes "reachable_zk zoo sleep live path" "live z"
  shows "CmZkExists zoo path z = ZooExists zoo path z" "CmZkCreate zoo path v e False z = ZooCreate zoo path v e False z"
    "fst (ZooExists zoo path z) \<in> {ZOK, ZNONODE}" "fst (ZooCreate zoo path v e False z) \<in> {ZOK, ZNODEEXISTS}"
    "live (snd (snd (ZooExists zoo path z)))" "live (sleep k z)"
proof -
  show 1: "fst (ZooExists zoo path z) \<in> {ZOK, ZNONODE}" "fst (ZooCreate zoo path v e False z) \<in> {ZOK, ZNODEEXISTS}"
    "live (snd (snd (ZooExists zoo path z)))" "live (sleep k z)"
    using assms by (auto simp: reachable_zk_def)
  show "CmZkExists zoo path z = ZooExists zoo path z"
    using 1(1) unfolding CmZkExists_def retry_3 by (cases "ZooExists zoo path z") auto
  show "CmZkCreate zoo path v e False z = ZooCreate zoo path v e False z"
    using 1(2) unfolding CmZkCreate_def retry_3 by (cases "ZooCreate zoo path v e False z") auto
qed

text \<open>One round: a free znode is written, an event that is there is left.\<close>

lemma check_event:
  assumes "zoo_laws zoo znodes num" "reachable_zk zoo sleep live path" "length path < CM_ZNODE_PATH_LEN" "live z"
  shows "\<exists>z1. exist_check zoo path z = (if znodes z path = None then CM_NOT_EXIST else CM_OK, z1) \<and> znodes z1 = znodes z \<and> live z1"
proof -
  obtain r u z1 where e: "CmZkExists zoo path z = (r, u, z1)" by (metis prod_cases3)
  note l = exists_law [OF assms(1) e] and c = reachable_calls [OF assms(2,4)]
  have "r = ZOK \<or> r = ZNONODE" "live z1" using c(3,5) e unfolding c(1) by auto
  then show ?thesis using e l assms(3) by (auto simp: exist_check_def at_path_def)
qed

lemma create_event:
  assumes "zoo_laws zoo znodes num" "reachable_zk zoo sleep live path" "length path < CM_ZNODE_PATH_LEN" "znodes z path = None" "live z"
  shows "\<exists>z1. create_znode zoo path v eph z = (CM_OK, z1) \<and> znodes z1 = (znodes z)(path \<mapsto> v)"
proof -
  obtain r u z1 where e: "ZooCreate zoo path v eph False z = (r, u, z1)" by (metis prod_cases3)
  note l = zoo_lawsD(1) [OF assms(1), unfolded create_law_def, rule_format, OF e] and c = reachable_calls [OF assms(2,5)]
  have "r = ZOK \<or> r = ZNODEEXISTS" using c(4) [of v eph] e by auto
  then have "r = ZOK" "znodes z1 = (znodes z)(path \<mapsto> v)" using l assms(4) by auto
  then show ?thesis using e c(2) [of v eph] assms(3) by (simp add: create_znode_def at_path_def)
qed

text \<open>The states in which the client asks, when it is told every time that there is an event.\<close>

primrec waited :: "('z \<Rightarrow> int \<times> 'z) \<Rightarrow> (nat \<Rightarrow> 'z \<Rightarrow> 'z) \<Rightarrow> 'z \<Rightarrow> nat \<Rightarrow> 'z" where
  "waited check sleep z 0 = z"
| "waited check sleep z (Suc k) = sleep k (snd (check (waited check sleep z k)))"

lemma waited_live:
  assumes "zoo_laws zoo znodes num" "reachable_zk zoo sleep live path" "length path < CM_ZNODE_PATH_LEN" "live z"
  shows "live (waited (exist_check zoo path) sleep z k)"
proof (induction k)
  case (Suc k)
  from check_event [OF assms(1-3) this] have "live (snd (exist_check zoo path (waited (exist_check zoo path) sleep z k)))" by auto
  then show ?case using reachable_calls(6) [OF assms(2)] by simp
qed (use assms(4) in simp)

lemma event_loop_waits:
  assumes "\<forall>i<k. fst (check (waited check sleep z i)) \<noteq> CM_NOT_EXIST"
  shows "event_loop sleep check record 0 z = event_loop sleep check record k (waited check sleep z k)"
  using assms
proof (induction k)
  case (Suc k)
  obtain r z1 where c: "check (waited check sleep z k) = (r, z1)" by fastforce
  then have "r \<noteq> CM_NOT_EXIST" using Suc.prems [rule_format, of k] by simp
  then have "event_loop sleep check record k (waited check sleep z k) = event_loop sleep check record (k + 1) (sleep k z1)"
    using c by (subst event_loop.simps) simp
  then show ?case using Suc c by simp
qed simp

lemma event_loop_ends:
  assumes "zoo_laws zoo znodes num" "reachable_zk zoo sleep live path" "length path < CM_ZNODE_PATH_LEN" "live z"
    "znodes (waited (exist_check zoo path) sleep z n) path = None"
  shows "\<exists>k\<le>n. \<exists>z'. (\<forall>i<k. znodes (waited (exist_check zoo path) sleep z i) path \<noteq> None) \<and>
     znodes (waited (exist_check zoo path) sleep z k) path = None \<and>
     event_loop sleep (exist_check zoo path) (create_znode zoo path v eph) 0 z = Some z' \<and>
     create_znode zoo path v eph (snd (exist_check zoo path (waited (exist_check zoo path) sleep z k))) = (CM_OK, z') \<and>
     znodes z' = (znodes (waited (exist_check zoo path) sleep z k))(path \<mapsto> v)"
proof -
  let ?w = "waited (exist_check zoo path) sleep z"
  let ?k = "LEAST k. znodes (?w k) path = None"
  have k: "znodes (?w ?k) path = None" "?k \<le> n" using assms(5) by (rule LeastI, rule Least_le)
  have pending: "znodes (?w i) path \<noteq> None" if "i < ?k" for i using that by (rule not_less_Least)
  note live = waited_live [OF assms(1-4)]
  have "\<forall>i<?k. fst (exist_check zoo path (?w i)) \<noteq> CM_NOT_EXIST"
  proof (intro allI impI)
    fix i assume "i < ?k"
    then show "fst (exist_check zoo path (?w i)) \<noteq> CM_NOT_EXIST" using check_event [OF assms(1-3) live [of i]] pending by fastforce
  qed
  note loop = event_loop_waits [OF this, of "create_znode zoo path v eph"]
  obtain z1 where z1: "exist_check zoo path (?w ?k) = (CM_NOT_EXIST, z1)" "znodes z1 = znodes (?w ?k)" "live z1"
    using check_event [OF assms(1-3) live [of ?k]] k(1) by auto
  obtain z' where z': "create_znode zoo path v eph z1 = (CM_OK, z')" "znodes z' = (znodes z1)(path \<mapsto> v)"
    using create_event [OF assms(1-3) _ z1(3)] k(1) z1(2) by auto
  have "event_loop sleep (exist_check zoo path) (create_znode zoo path v eph) ?k (?w ?k) = Some z'"
    using z1(1) z'(1) by (subst event_loop.simps) simp
  then have e: "event_loop sleep (exist_check zoo path) (create_znode zoo path v eph) 0 z = Some z'" using loop by simp
  have "create_znode zoo path v eph (snd (exist_check zoo path (?w ?k))) = (CM_OK, z')" "znodes z' = (znodes (?w ?k))(path \<mapsto> v)"
    using z1(1,2) z' by simp_all
  with e k pending show ?thesis by (intro exI [of _ ?k] exI [of _ z'] conjI allI impI) simp_all
qed

abbreviation event_path :: "node_event \<Rightarrow> string" where "event_path e \<equiv> ev_path (epool e) (enode e)"

abbreviation asks :: "'z zoo \<Rightarrow> (nat \<Rightarrow> 'z \<Rightarrow> 'z) \<Rightarrow> node_event \<Rightarrow> 'z \<Rightarrow> nat \<Rightarrow> 'z" where
  "asks zoo sleep e \<equiv> waited (CmClientZkNodeEventExistCheck zoo (epool e) (enode e)) sleep"

text \<open>
  (C23) An event is reported: while the session is up and the directory of the events is there, and when the znode of the node's event is free
  at some round of the client's waiting, the task ends. It sleeps as long as it finds an event, and writes its own in the first
  round in which there is none, so that no event that is not handled is replaced; nothing else is changed.
\<close>

theorem event_reported:
  assumes "zoo_laws zoo znodes num" "reachable_zk zoo sleep live (event_path e)" "length (event_path e) < CM_ZNODE_PATH_LEN" "live z"
    "znodes (asks zoo sleep e z n) (event_path e) = None"
  shows "\<exists>k\<le>n. \<exists>z'. (\<forall>i<k. znodes (asks zoo sleep e z i) (event_path e) \<noteq> None) \<and> znodes (asks zoo sleep e z k) (event_path e) = None \<and>
     CmClientNodeEventHandle zoo sleep e z = Some z' \<and>
     CmClientZkRecordNodeEvent zoo e (snd (CmClientZkNodeEventExistCheck zoo (epool e) (enode e) (asks zoo sleep e z k))) = (CM_OK, z') \<and>
     znodes z' = (znodes (asks zoo sleep e z k))(event_path e \<mapsto> NodeEv e)"
proof -
  have c: "CmClientZkNodeEventExistCheck zoo (epool e) (enode e) = exist_check zoo (event_path e)"
    by (rule ext) (simp add: CmClientZkNodeEventExistCheck_def)
  have r: "CmClientZkRecordNodeEvent zoo e = create_znode zoo (event_path e) (NodeEv e) False"
    by (rule ext) (simp add: CmClientZkRecordNodeEvent_def)
  show ?thesis unfolding CmClientNodeEventHandle_def r unfolding c by (rule event_loop_ends [OF assms(1-4) assms(5) [unfolded c]])
qed

text \<open>A directory with an event of node 3, which the server has handled when the client has slept.\<close>

definition event_dir :: mem_zk where
  "event_dir = \<lparr>mnodes = [(pool_path 0 ''node_event'', zval.Null), (ev_path 0 3, NodeEv ev3)], mnum = 0\<rparr>"

definition served_sleep :: "nat \<Rightarrow> mem_zk \<Rightarrow> mem_zk" where
  "served_sleep k z = z\<lparr>mnodes := filter (\<lambda>x. fst x \<noteq> ev_path 0 3) (mnodes z)\<rparr>"

lemma served_tree: "mem_tree (served_sleep k z) q = (if q = ev_path 0 3 then None else mem_tree z q)"
proof -
  have "map_of (filter (\<lambda>x. fst x \<noteq> r) xs) q = (if q = r then None else map_of xs q)" for r and xs :: "(string \<times> zval) list"
    by (induction xs) auto
  then show ?thesis by (simp add: served_sleep_def)
qed

theorem event_reported_witness:
  "\<exists>z'. CmClientNodeEventHandle mem_zoo served_sleep ev3 event_dir = Some z' \<and>
     mem_tree z' (ev_path (epool ev3) (enode ev3)) = Some (NodeEv ev3)"
proof -
  let ?live = "\<lambda>z. mem_tree z (pool_path 0 ''node_event'') \<noteq> None"
  let ?check = "CmClientZkNodeEventExistCheck mem_zoo (epool ev3) (enode ev3)"
  have ev: "epool ev3 = 0" "enode ev3 = 3" by (simp_all add: ev3_def)
  have "?live (served_sleep k z)" if "?live z" for k z
    using that pool_path_not_event [of "''node_event''" 0 0 3] unfolding served_tree by simp
  then have r: "reachable_zk mem_zoo served_sleep ?live (ev_path (epool ev3) (enode ev3))"
    unfolding reachable_zk_def by (simp add: mem_zoo_def mem_exists_def mem_create_def)
  have l: "length (ev_path (epool ev3) (enode ev3)) < CM_ZNODE_PATH_LEN" by (simp add: ev3_def item_path_def pool_path_def)
  have z: "?live event_dir" by (simp add: event_dir_def)
  have "mem_tree (waited ?check served_sleep event_dir 1) (ev_path (epool ev3) (enode ev3)) = None"
    unfolding ev by (simp add: served_tree)
  from event_reported [where live = ?live and e = ev3 and z = event_dir and n = 1, OF mem_laws r l z this] obtain k z' where
    "CmClientNodeEventHandle mem_zoo served_sleep ev3 event_dir = Some z'"
    "mem_tree z' = (mem_tree (asks mem_zoo served_sleep ev3 event_dir k))(event_path ev3 \<mapsto> NodeEv ev3)" by blast
  then show ?thesis by (intro exI [of _ z']) simp
qed

section \<open>Registration\<close>

lemma check_disk:
  assumes "CmClientLocalCheckDisk disks bak = CM_OK" "distinct (map diskId bak)"
  shows "diskId ` set disks = diskId ` set bak"
proof -
  have len: "length disks = length bak" and sub: "diskId ` set bak \<subseteq> diskId ` set disks"
    using assms(1) by (auto simp: CmClientLocalCheckDisk_def list_ex_iff image_iff split: if_splits)
  have "card (diskId ` set bak) = length bak" using distinct_card [OF assms(2)] by simp
  moreover have "card (diskId ` set disks) \<le> length disks" using card_length [of "map diskId disks"] by simp
  ultimately show ?thesis using card_seteq [OF _ sub] len by simp
qed

text \<open>What the check of a known node in the cluster compares.\<close>

lemma check_known_node:
  assumes "zoo_laws zoo znodes num" "znodes z (ip_path p (nip info) (nport info)) = Some (Id n)"
    "znodes z (item_path p ''node_info'' (dec n)) = Some (Info rec)" "nid rec = n"
    "znodes z (pool_path p ''state'') = Some (States l)" "n < length (slNodes l)" "ncluster (slNodes l ! n) = NODE_CLUSTER_STATE_IN"
    "cpool (rs ! p) = Some pl" "n < pmaxNodeNum pl"
    "CmClientLocalCheckNode zoo mem p pool info rs z = Some (CM_OK, z')"
  shows "CmClientLocalCheckDisk (ndisks info) (ndisks rec) = CM_OK"
proof -
  obtain r1 v1 z1 where g1: "CmZkGet zoo (ip_path p (nip info) (nport info)) z = (r1, v1, z1)" by (metis prod_cases3)
  obtain r2 v2 z2 where g2: "CmZkGet zoo (item_path p ''node_info'' (dec n)) z1 = (r2, v2, z2)" by (metis prod_cases3)
  obtain r3 v3 z3 where g3: "CmZkGet zoo (pool_path p ''state'') z2 = (r3, v3, z3)" by (metis prod_cases3)
  note l1 = get_law [OF assms(1) g1] and l2 = get_law [OF assms(1) g2] and l3 = get_law [OF assms(1) g3]
  have ok: "r1 \<noteq> ZNONODE" "r2 \<noteq> ZNONODE" "r1 = ZOK \<Longrightarrow> v1 = Id n" "r2 = ZOK \<Longrightarrow> v2 = Info rec" "r3 = ZOK \<Longrightarrow> v3 = States l"
    using l1 l2 l3 assms(2,3,5) by auto
  have "overlay (pmaxNodeNum pl) (slNodes l) junk ! n = slNodes l ! n" "\<not> length (overlay (pmaxNodeNum pl) (slNodes l) junk) \<le> n" for junk
    using assms(6,9) by (simp_all add: overlay_def nth_append not_le trans_less_add1)
  with assms(4,7,8,10) g1 g2 g3 ok show ?thesis
    by (auto simp: CmClientLocalCheckNode_def CmClientZkGetNodeId_def CmClientZkGetNodeInfo_def CmClientZkGetNodeState_def at_path_def
        Let_def split: if_splits)
qed

text \<open>
  (C22) A node comes back with its disks: when a node that is recorded as being in the cluster registers
  successfully, its disks are those that are recorded.
\<close>

theorem rejoin_same_disks:
  assumes "zoo_laws zoo znodes num" "znodes z (ip_path p (nip info) (nport info)) = Some (Id n)"
    "znodes z (item_path p ''node_info'' (dec n)) = Some (Info rec)" "nid rec = n" "distinct (map diskId (ndisks rec))"
    "znodes z (pool_path p ''state'') = Some (States l)" "n < length (slNodes l)" "ncluster (slNodes l ! n) = NODE_CLUSTER_STATE_IN"
    "cpool (g_restoreC cl ! p) = Some pl" "n < pmaxNodeNum pl"
    "queryLocalNodeInfo (g_localOp cl ! p) = Some query" "query (opCtx (g_localOp cl ! p)) (g_localNodeInfo cl ! p) = (ret, info)"
    "CmClientLocalRegisterNode zoo mem now c p cl z = Some (CM_OK, cl', z')"
  shows "diskId ` set (ndisks info) = diskId ` set (ndisks rec)"
proof -
  obtain pool z1 where "CmClientLocalCheckNode zoo mem p pool info (g_restoreC cl) z = Some (CM_OK, z1)"
    using assms(11-13) by (auto simp: CmClientLocalRegisterNode_def CmClientLocalGetNode_def Let_def split: option.splits if_splits)
  from check_disk [OF check_known_node [OF assms(1-4,6-10) this] assms(5)] show ?thesis .
qed

text \<open>A node with one disk that is known in pool 0.\<close>

definition node0 :: reg_info where
  "node0 = zero_info\<lparr>nip := ''1'', nport := 1, ndisks := [\<lparr>diskId = 4, diskHealth = DISK_STATE_NORMAL\<rparr>]\<rparr>"

definition pool0 :: pool_cfg where
  "pool0 = \<lparr>ppoolId = 0, predundance = PT_REP_DOUBLE, pinitialNodeNum = 1, pmaxNodeNum = 4, pmaxPtNum = 4, poolName = [], ptype = DISK_TYPE_DRAM\<rparr>"

definition config0 :: cm_config where
  "config0 = g_cmConfig\<lparr>cpools := [Some pool0]\<rparr>"

definition states0 :: state_list where
  "states0 = \<lparr>slPool = 0, slNum = 1, slMaster = 0, slNodes = [(fresh_state 0 0)\<lparr>ncluster := NODE_CLUSTER_STATE_IN\<rparr>]\<rparr>"

definition known0 :: mem_zk where
  "known0 = \<lparr>mnodes = [(ip_path 0 ''1'' 1, Id 0), (item_path 0 ''node_info'' (dec 0), Info node0), (pool_path 0 ''state'', States states0)], mnum = 1\<rparr>"

definition memory0 :: memory where
  "memory0 = \<lparr>memOk = True, memPair = (True, True), junkNodes = \<lparr>ilPool = 0, ilNum = 0, ilNodes = []\<rparr>,
     junkStates = \<lparr>slPool = 0, slNum = 0, slMaster = 0, slNodes = []\<rparr>, junkPts = empty_table 0\<rparr>"

definition client0 :: "(nat, nat, nat) client" where
  "client0 = \<lparr>g_localOp = [\<lparr>queryLocalNodeInfo = Some (\<lambda>_ _. (CM_OK, node0)), queryLocalNodeMr = None, opCtx = None\<rparr>],
     g_localNodeInfo = [node0], g_mrBuff = \<lparr>mrNode = 0, mrBuf = []\<rparr>, g_subNodeChange = [(None, None)], g_subPtChange = [(None, None)],
     g_restoreC = [\<lparr>cused = True, cpool = Some pool0, localSession = 0, localNode = 0, cstates = None, cnodes = None, cpts = None,
       nodeChangeC = False, stateChangeC = False, masterChangeC = False, ptChangeC = False, userKey = [], userValue = [], userHandleC = False\<rparr>],
     g_scheduleThread = replicate 4 (CmThreadPoolCreate (NodeTask ev3) True (\<lambda>_. True) 1 1024 0 ''cm_client_schedule''),
     g_bdmDisk = \<lparr>bio = \<lparr>env = 0, used = (\<lambda>_. False), present = (\<lambda>_. False)\<rparr>, mgrIndex = 0, mgrNum = 0,
       objs = (\<lambda>_. \<lparr>obdmId = 0, ototalSize = 0, ominChunkSize = 0, omaxChunkSize = 0, opsSet = False, opsInfo = None\<rparr>),
       diskNum = 2, diskList = [], submitIndex = 0, bdmIndex = 0, opsRegistered = False, g_bdmInit = False, g_bdmStart = False, g_bdmCount = 0\<rparr>\<rparr>"

lemma dec_one [simp]: "dec 1 = ''1''" "dec (Suc 0) = ''1''"
  by code_simp+

lemmas paths0 = ip_path_def item_path_def pool_path_def at_path_def

lemma known0_register:
  "\<exists>cl' z'. CmClientLocalRegisterNode mem_zoo memory0 5 config0 0 client0 known0 = Some (CM_OK, cl', z')"
proof -
  have check: "CmClientLocalCheckNode mem_zoo memory0 0 pool0 node0 (g_restoreC client0) known0 = Some (CM_OK, known0)"
    by (simp add: CmClientLocalCheckNode_def CmClientZkGetNodeId_def CmClientZkGetNodeInfo_def CmClientZkGetNodeState_def paths0 mem_calls
        known0_def node0_def pool0_def client0_def memory0_def states0_def overlay_def CmClientLocalCheckDisk_def zero_info_def zero_node_def
        node_info.defs)
  have "\<exists>rs z2. CmClientZkRegisterNodeInfo mem_zoo 5 0 node0 (g_restoreC client0) known0 = Some (CM_OK, node0, rs, z2)"
    by (simp add: CmClientZkRegisterNodeInfo_def CmClientZkGenNodeId_def CmClientZkRecordNodeId_def CmClientZkRecordNodeInfo_def
        CmClientZkCheckNodeIdExist_def put_znode_def wait_gone.simps paths0 mem_calls known0_def node0_def pool0_def client0_def
        zero_info_def zero_node_def node_info.defs)
  moreover have "CmClientLocalGetNode 0 (g_localNodeInfo client0 ! 0) client0 = (CM_OK, node0)"
    by (simp add: CmClientLocalGetNode_def client0_def node0_def zero_info_def zero_node_def node_info.defs)
  ultimately show ?thesis
    using check by (auto simp: CmClientLocalRegisterNode_def config0_def CmConfigGetPoolInfo_def Let_def)
qed

theorem rejoin_same_disks_witness:
  "diskId ` set (ndisks node0) = diskId ` set (ndisks node0) \<and>
     (\<exists>cl' z'. CmClientLocalRegisterNode mem_zoo memory0 5 config0 0 client0 known0 = Some (CM_OK, cl', z'))"
proof -
  obtain cl' z' where r: "CmClientLocalRegisterNode mem_zoo memory0 5 config0 0 client0 known0 = Some (CM_OK, cl', z')"
    using known0_register by blast
  have n: "nid node0 = 0" "distinct (map diskId (ndisks node0))" "nip node0 = ''1''" "nport node0 = 1"
    by (simp_all add: node0_def zero_info_def zero_node_def node_info.defs)
  have z: "mem_tree known0 (ip_path 0 (nip node0) (nport node0)) = Some (Id 0)"
    "mem_tree known0 (item_path 0 ''node_info'' (dec 0)) = Some (Info node0)" "mem_tree known0 (pool_path 0 ''state'') = Some (States states0)"
    unfolding n(3,4) by (simp_all add: known0_def paths0)
  have l: "0 < length (slNodes states0)" "ncluster (slNodes states0 ! 0) = NODE_CLUSTER_STATE_IN" by (simp_all add: states0_def)
  have c: "cpool (g_restoreC client0 ! 0) = Some pool0" "0 < pmaxNodeNum pool0"
    "queryLocalNodeInfo (g_localOp client0 ! 0) = Some (\<lambda>_ _. (CM_OK, node0))" by (simp_all add: client0_def pool0_def)
  from rejoin_same_disks [OF mem_laws z(1,2) n(1,2) z(3) l c refl r] r show ?thesis by blast
qed

section \<open>Changes of disks\<close>

lemma set_disk_spec:
  assumes "distinct (map diskId xs)"
  shows "set_disk d st xs = (\<exists>x\<in>set xs. diskId x = d \<and> diskHealth x \<noteq> st, map (\<lambda>x. if diskId x = d then x\<lparr>diskHealth := st\<rparr> else x) xs)"
  using assms
proof (induction xs)
  case (Cons x xs)
  have "map (\<lambda>x. if diskId x = d then x\<lparr>diskHealth := st\<rparr> else x) xs = xs" if "diskId x = d"
    using Cons.prems that by (intro map_idI) (metis distinct.simps(2) image_eqI list.map(2) list.set_map)
  moreover have "diskId y \<noteq> diskId x" if "y \<in> set xs" for y
    using Cons.prems that by (metis distinct.simps(2) image_eqI list.map(2) list.set_map)
  ultimately show ?case using Cons by auto
qed simp

lemma add_accepted:
  assumes "cm_pool_ok q" "CmThreadPoolAdd rounds task q = (True, q')"
  shows "cm_pool_ok q' \<and> waiting_tasks q' = waiting_tasks q @ [task]"
  using assms
proof (induction rounds task q rule: CmThreadPoolAdd.induct)
  case (2 rounds task p)
  obtain ret p1 where e: "ThreadPoolEnqueue task p = (ret, p1)" by fastforce
  from enqueue_cases [OF "2.prems"(1) e] show ?case using 2 e by auto
qed simp

lemma schedule_adds:
  assumes "schedule zoo sleep rounds p task cl z = Some (cl', z')" "p div 4 < length (g_scheduleThread cl)"
    "g_scheduleThread cl ! (p div 4) = Some q" "cm_pool_ok q"
  shows "z' = z \<and> (\<exists>q'. cl' = cl\<lparr>g_scheduleThread := (g_scheduleThread cl)[p div 4 := Some q']\<rparr> \<and> cm_pool_ok q' \<and> waiting_tasks q' = waiting_tasks q @ [task])"
proof -
  obtain acc q' where a: "CmThreadPoolAdd rounds task q = (acc, q')" by fastforce
  with assms(1-3) have "acc" "z' = z" "cl' = cl\<lparr>g_scheduleThread := (g_scheduleThread cl)[p div 4 := Some q']\<rparr>"
    by (auto simp: schedule_def CmClientSchedueAdd_def CmServerSchedueAdd_def Let_def split: if_splits)
  with add_accepted [OF assms(4)] a show ?thesis by auto
qed

lemma disk_event_checked: "CmClientEventCheck c p CM_EVENT_DISK = CM_OK \<longleftrightarrow> CmConfigGetPoolInfo p c \<noteq> None"
  by (simp add: CmClientEventCheck_def split: option.splits)

text \<open>
  (C21) A change of a disk is recorded and reported: if \<open>CM_SetDiskStatus\<close> succeeds and the disk had
  another state, the new information is in ZooKeeper and in the copy of the client, with this disk and no other changed, and the event
  for the server is the last task of the schedule; a new fault reduces the number of normal disks. Otherwise nothing changes.
\<close>

theorem disk_status_recorded:
  assumes "zoo_laws zoo znodes num" "CM_SetDiskStatus zoo sleep rounds mallocOk c p d st cl z = Some (CM_OK, cl', z')"
    "p < length (g_localNodeInfo cl)" "distinct (map diskId (ndisks (g_localNodeInfo cl ! p)))"
    "p div 4 < length (g_scheduleThread cl)" "g_scheduleThread cl ! (p div 4) = Some q" "cm_pool_ok q"
  shows "let info = g_localNodeInfo cl ! p;
             new = info\<lparr>ndisks := map (\<lambda>x. if diskId x = d then x\<lparr>diskHealth := st\<rparr> else x) (ndisks info)\<rparr> in
     if \<exists>x\<in>set (ndisks info). diskId x = d \<and> diskHealth x \<noteq> st
     then znodes z' (item_path p ''node_info'' (dec (nid info))) = Some (Info new) \<and> g_localNodeInfo cl' ! p = new \<and>
       (\<exists>q'. g_scheduleThread cl' ! (p div 4) = Some q' \<and>
          waiting_tasks q' = waiting_tasks q @ [NodeTask \<lparr>eventType = CM_EVENT_DISK, epool = p, enode = nid info\<rparr>]) \<and>
       BdmGetNormalDiskNum (g_bdmDisk cl') = BdmGetNormalDiskNum (g_bdmDisk cl) - (if st = DISK_STATE_FAULT then 1 else 0)
     else cl' = cl \<and> z' = z"
proof -
  let ?info = "g_localNodeInfo cl ! p"
  let ?new = "?info\<lparr>ndisks := map (\<lambda>x. if diskId x = d then x\<lparr>diskHealth := st\<rparr> else x) (ndisks ?info)\<rparr>"
  let ?cl = "if st = DISK_STATE_FAULT then cl\<lparr>g_bdmDisk := BdmSetNormalDiskNum (BdmGetNormalDiskNum (g_bdmDisk cl) - 1) (g_bdmDisk cl)\<rparr> else cl"
  have known: "\<not> (p \<ge> MAX_POOL_NUM \<or> queryLocalNodeInfo (g_localOp cl ! p) = None)" and chk: "CmClientEventCheck c p CM_EVENT_DISK = CM_OK"
    using assms(2) by (auto simp: CM_SetDiskStatus_def CmClientLocalGetNodeInfo_def split: if_splits)
  show ?thesis
  proof (cases "\<exists>x\<in>set (ndisks ?info). diskId x = d \<and> diskHealth x \<noteq> st")
    case True
    have "record_and_report zoo sleep rounds mallocOk p ?new CM_EVENT_DISK ?cl z = Some (CM_OK, cl', z')"
      using assms(2) known chk True by (simp add: CM_SetDiskStatus_def CmClientLocalGetNodeInfo_def set_disk_spec [OF assms(4)])
    then obtain z1 where r: "CmClientZkRecordNodeInfo zoo p ?new z = (CM_OK, z1)"
      and s: "schedule zoo sleep rounds p (NodeTask \<lparr>eventType = CM_EVENT_DISK, epool = p, enode = nid ?info\<rparr>)
        (CmClientLocalUpdateNodeInfo p ?new ?cl) z1 = Some (cl', z')"
      by (auto simp: record_and_report_def CmClientNodeEventReport_def split: if_splits prod.splits)
    have u: "CmClientLocalUpdateNodeInfo p ?new ?cl = ?cl\<lparr>g_localNodeInfo := (g_localNodeInfo cl)[p := ?new]\<rparr>"
      using known by (auto simp: CmClientLocalUpdateNodeInfo_def)
    have "znodes z1 (item_path p ''node_info'' (dec (nid ?info))) = Some (Info ?new)"
      using put_law(2) [OF assms(1) r [unfolded CmClientZkRecordNodeInfo_def]] by simp
    with schedule_adds [OF s [unfolded u], of q] assms(3,5-7) True show ?thesis
      by (auto simp: Let_def BdmGetNormalDiskNum_def BdmSetNormalDiskNum_def)
  next
    case False
    then show ?thesis using assms(2) known chk
      by (auto simp: CM_SetDiskStatus_def CmClientLocalGetNodeInfo_def set_disk_spec [OF assms(4)] Let_def)
  qed
qed

lemma pool0_ready: "\<exists>q. g_scheduleThread client0 ! 0 = Some q \<and> cm_pool_ok q \<and> waiting_tasks q = [] \<and>
     (\<exists>q'. CmThreadPoolAdd 1 task q = (True, q'))"
proof -
  obtain q where q: "CmThreadPoolCreate (NodeTask ev3) True (\<lambda>_. True) 1 1024 0 ''cm_client_schedule'' = Some q"
    by (simp add: CmThreadPoolCreate_def ParamCheck_def)
  from created_pool [OF q] have "\<exists>q'. CmThreadPoolAdd 1 task q = (True, q')" by (simp add: ThreadPoolEnqueue_def)
  with q created_pool(1,2) [OF q] show ?thesis by (simp add: client0_def)
qed

theorem disk_status_recorded_witness:
  "\<exists>cl' z'. CM_SetDiskStatus mem_zoo (\<lambda>_ z. z) 1 True config0 0 4 DISK_STATE_FAULT client0 known0 = Some (CM_OK, cl', z') \<and>
     mem_tree z' (item_path 0 ''node_info'' (dec 0)) = Some (Info (node0\<lparr>ndisks := [\<lparr>diskId = 4, diskHealth = DISK_STATE_FAULT\<rparr>]\<rparr>)) \<and>
     BdmGetNormalDiskNum (g_bdmDisk cl') = 1"
proof -
  let ?task = "NodeTask \<lparr>eventType = CM_EVENT_DISK, epool = 0, enode = 0\<rparr>"
  obtain q q' where q: "g_scheduleThread client0 ! 0 = Some q" "cm_pool_ok q" "CmThreadPoolAdd 1 ?task q = (True, q')"
    using pool0_ready [of ?task] by blast
  have n: "nid node0 = 0" "ndisks node0 = [\<lparr>diskId = 4, diskHealth = DISK_STATE_NORMAL\<rparr>]"
    by (simp_all add: node0_def zero_info_def zero_node_def node_info.defs)
  have l: "g_localNodeInfo client0 = [node0]" "length (g_scheduleThread client0) = 4" "BdmGetNormalDiskNum (g_bdmDisk client0) = 2"
    "queryLocalNodeInfo (g_localOp client0 ! 0) = Some (\<lambda>_ _. (CM_OK, node0))"
    by (simp_all add: client0_def BdmGetNormalDiskNum_def)
  have put: "\<exists>z1. CmClientZkRecordNodeInfo mem_zoo 0 info known0 = (CM_OK, z1)" if "nid info = 0" for info
    using that by (simp add: CmClientZkRecordNodeInfo_def put_znode_def paths0 mem_calls known0_def)
  have "\<exists>cl' z'. CM_SetDiskStatus mem_zoo (\<lambda>_ z. z) 1 True config0 0 4 DISK_STATE_FAULT client0 known0 = Some (CM_OK, cl', z')"
    using put [of "node0\<lparr>ndisks := [\<lparr>diskId = 4, diskHealth = DISK_STATE_FAULT\<rparr>]\<rparr>"] n l q(1,3)
    by (auto simp: CM_SetDiskStatus_def CmClientEventCheck_def CmConfigGetPoolInfo_def config0_def CmClientLocalGetNodeInfo_def
        record_and_report_def CmClientNodeEventReport_def CmClientLocalUpdateNodeInfo_def schedule_def CmClientSchedueAdd_def
        CmServerSchedueAdd_def)
  then obtain cl' z' where s: "CM_SetDiskStatus mem_zoo (\<lambda>_ z. z) 1 True config0 0 4 DISK_STATE_FAULT client0 known0 = Some (CM_OK, cl', z')"
    by blast
  from disk_status_recorded [OF mem_laws s _ _ _ _ q(2)] n l q(1) have
    "mem_tree z' (item_path 0 ''node_info'' (dec 0)) = Some (Info (node0\<lparr>ndisks := [\<lparr>diskId = 4, diskHealth = DISK_STATE_FAULT\<rparr>]\<rparr>)) \<and>
     BdmGetNormalDiskNum (g_bdmDisk cl') = 1" by (simp add: Let_def)
  with s show ?thesis by blast
qed

lemma set_fault_fails:
  assumes "\<forall>info z. fst (CmClientZkRecordNodeInfo zoo p info z) = CM_ERR" "CmConfigGetPoolInfo p c \<noteq> None" "p < MAX_POOL_NUM"
    "queryLocalNodeInfo (g_localOp cl ! p) \<noteq> None" "distinct (map diskId (ndisks (g_localNodeInfo cl ! p)))"
    "\<lparr>diskId = d, diskHealth = DISK_STATE_NORMAL\<rparr> \<in> set (ndisks (g_localNodeInfo cl ! p))"
  shows "\<exists>z1. CM_SetDiskStatus zoo sleep rounds mallocOk c p d DISK_STATE_FAULT cl z =
      Some (CM_ERR, cl\<lparr>g_bdmDisk := BdmSetNormalDiskNum (BdmGetNormalDiskNum (g_bdmDisk cl) - 1) (g_bdmDisk cl)\<rparr>, z1)"
proof -
  let ?disks = "ndisks (g_localNodeInfo cl ! p)"
  have "fst (set_disk d DISK_STATE_FAULT ?disks)" using assms(6) by (force simp: set_disk_spec [OF assms(5)])
  then obtain disks where s: "set_disk d DISK_STATE_FAULT ?disks = (True, disks)" by (cases "set_disk d DISK_STATE_FAULT ?disks") auto
  obtain z1 where "CmClientZkRecordNodeInfo zoo p ((g_localNodeInfo cl ! p)\<lparr>ndisks := disks\<rparr>) z = (CM_ERR, z1)"
    using assms(1) by (metis prod.collapse)
  then show ?thesis using s assms(2-4) disk_event_checked [of c p]
    by (auto simp: CM_SetDiskStatus_def CmClientLocalGetNodeInfo_def record_and_report_def)
qed

text \<open>
  (C39) The number of normal disks drifts: while ZooKeeper cannot be written, each report of one and the same faulty
  disk fails and reduces the number once more, as the number is changed before the information is recorded.
\<close>

theorem disk_count_drifts:
  assumes "\<forall>info z. fst (CmClientZkRecordNodeInfo zoo p info z) = CM_ERR" "CmConfigGetPoolInfo p c \<noteq> None" "p < MAX_POOL_NUM"
    "queryLocalNodeInfo (g_localOp cl ! p) \<noteq> None" "distinct (map diskId (ndisks (g_localNodeInfo cl ! p)))"
    "\<lparr>diskId = d, diskHealth = DISK_STATE_NORMAL\<rparr> \<in> set (ndisks (g_localNodeInfo cl ! p))"
  shows "\<exists>cl1 z1 cl2 z2. CM_SetDiskStatus zoo sleep rounds mallocOk c p d DISK_STATE_FAULT cl z = Some (CM_ERR, cl1, z1) \<and>
     CM_SetDiskStatus zoo sleep rounds mallocOk c p d DISK_STATE_FAULT cl1 z1 = Some (CM_ERR, cl2, z2) \<and>
     BdmGetNormalDiskNum (g_bdmDisk cl2) = BdmGetNormalDiskNum (g_bdmDisk cl) - 2 \<and> g_localNodeInfo cl2 = g_localNodeInfo cl"
proof -
  note one = set_fault_fails [OF assms(1-3)]
  let ?cl1 = "cl\<lparr>g_bdmDisk := BdmSetNormalDiskNum (BdmGetNormalDiskNum (g_bdmDisk cl) - 1) (g_bdmDisk cl)\<rparr>"
  obtain z1 where 1: "CM_SetDiskStatus zoo sleep rounds mallocOk c p d DISK_STATE_FAULT cl z = Some (CM_ERR, ?cl1, z1)"
    using one [of cl d sleep rounds mallocOk z] assms(4-6) by auto
  obtain z2 where 2: "CM_SetDiskStatus zoo sleep rounds mallocOk c p d DISK_STATE_FAULT ?cl1 z1 =
      Some (CM_ERR, ?cl1\<lparr>g_bdmDisk := BdmSetNormalDiskNum (BdmGetNormalDiskNum (g_bdmDisk ?cl1) - 1) (g_bdmDisk ?cl1)\<rparr>, z2)"
    using one [of ?cl1 d sleep rounds mallocOk z1] assms(4-6) by auto
  show ?thesis by (intro exI conjI, rule 1, rule 2) (simp_all add: BdmGetNormalDiskNum_def BdmSetNormalDiskNum_def)
qed

definition lost_zoo :: "unit zoo" where
  "lost_zoo = \<lparr>ZooCreate = (\<lambda>_ _ _ _ z. (ZSESSIONEXPIRED, [], z)), ZooDelete = (\<lambda>_ z. (ZSESSIONEXPIRED, (), z)),
     ZooGet = (\<lambda>_ z. (ZSESSIONEXPIRED, zval.Null, z)), ZooExists = (\<lambda>_ z. (ZSESSIONEXPIRED, (), z)), ZooSet = (\<lambda>_ _ z. (ZSESSIONEXPIRED, (), z)),
     ZooWget = (\<lambda>_ z. (ZSESSIONEXPIRED, zval.Null, z)), ZooWgetChildren = (\<lambda>_ z. (ZSESSIONEXPIRED, [], z))\<rparr>"

theorem disk_count_drifts_witness:
  "\<exists>cl1 z1 cl2 z2. CM_SetDiskStatus lost_zoo (\<lambda>_ z. z) 1 True config0 0 4 DISK_STATE_FAULT client0 () = Some (CM_ERR, cl1, z1) \<and>
     CM_SetDiskStatus lost_zoo (\<lambda>_ z. z) 1 True config0 0 4 DISK_STATE_FAULT cl1 z1 = Some (CM_ERR, cl2, z2) \<and>
     BdmGetNormalDiskNum (g_bdmDisk cl2) = 0"
proof -
  have "\<forall>info z. fst (CmClientZkRecordNodeInfo lost_zoo 0 info z) = CM_ERR"
    by (simp add: CmClientZkRecordNodeInfo_def put_znode_def at_path_def CmZkExists_def retry_3 lost_zoo_def)
  moreover have "CmConfigGetPoolInfo 0 config0 \<noteq> None" by (simp add: CmConfigGetPoolInfo_def config0_def)
  moreover have "queryLocalNodeInfo (g_localOp client0 ! 0) \<noteq> None" "g_localNodeInfo client0 ! 0 = node0" "BdmGetNormalDiskNum (g_bdmDisk client0) = 2"
    by (simp_all add: client0_def BdmGetNormalDiskNum_def)
  moreover have "ndisks node0 = [\<lparr>diskId = 4, diskHealth = DISK_STATE_NORMAL\<rparr>]"
    by (simp add: node0_def zero_info_def zero_node_def node_info.defs)
  ultimately show ?thesis
    using disk_count_drifts [of lost_zoo 0 config0 client0 4 "\<lambda>_ z. z" 1 True "()"] by auto
qed

text \<open>
  The seventeenth disk is outside the array: \<open>CM_UpdateNodeInfo\<close> with a new disk leaves the list of a node that
  has 16 disks.
\<close>

lemma new_disk_overflow:
  assumes "CmConfigGetPoolInfo p c \<noteq> None" "p < MAX_POOL_NUM" "queryLocalNodeInfo (g_localOp cl ! p) \<noteq> None"
    "length (ndisks (g_localNodeInfo cl ! p)) = DISK_LIST_NUM"
  shows "CM_UpdateNodeInfo zoo sleep rounds mallocOk c p st d True cl z = None"
  using assms by (auto simp: CM_UpdateNodeInfo_def CmClientEventCheck_def CmClientLocalGetNodeInfo_def ProcessDiskList_def split: option.splits)

end
