(* ===== verification/Flow.thy ===== *)
theory Flow
  imports Prelude
begin

text \<open>
  Flows, \<^verbatim>\<open>flow/flow.cpp\<close> with \<^verbatim>\<open>flow.h\<close>, \<^verbatim>\<open>flow_type.h\<close>, \<^verbatim>\<open>flow_instance.h\<close> and \<^verbatim>\<open>flow_id_allocator.h\<close>: a
  flow is a growing range of bytes whose start is cut off from time to time. It is kept in chunks
  of one size, which are allocated ahead of the writers by a task.

  The allocation of a chunk is an argument, a function of the offset on a state \<open>'m\<close>. \<open>None\<close> is a
  call that does not return or divides by zero.
\<close>

abbreviation BIO_OK :: int where "BIO_OK \<equiv> 0"
abbreviation BIO_ERR :: int where "BIO_ERR \<equiv> 1"
abbreviation BIO_INNER_ERR :: int where "BIO_INNER_ERR \<equiv> 2"
abbreviation BIO_INVALID_PARAM :: int where "BIO_INVALID_PARAM \<equiv> 3"
abbreviation BIO_NOT_READY :: int where "BIO_NOT_READY \<equiv> 4"
abbreviation BIO_ALLOC_FAIL :: int where "BIO_ALLOC_FAIL \<equiv> 5"
abbreviation BIO_NOT_EXISTS :: int where "BIO_NOT_EXISTS \<equiv> 7"
abbreviation BIO_INNER_RETRY :: int where "BIO_INNER_RETRY \<equiv> 14"
abbreviation NO_MAX_VALUE64 :: nat where "NO_MAX_VALUE64 \<equiv> 2 ^ 64 - 1"

datatype flow_type = FLOW_MEMORY | FLOW_DISK

datatype flow_role = FLOW_META | FLOW_DATA

datatype flow_cache = FLOW_WCACHE | FLOW_RCACHE

record flow_addr =
  aChunk :: nat
  aOffset :: nat
  aLen :: nat

text \<open>A waiting writer has a number; \<open>fRecoverList\<close> is a map, kept as a list in the order of its keys.\<close>

record flow =
  fRole :: flow_role
  fType :: flow_type
  fFlowId :: nat
  fMediaId :: nat
  fChunkSize :: nat
  fPreLoadSize :: nat
  fChunkList :: "nat list"
  fSealed :: bool
  fTruncate :: nat
  fWriten :: nat
  fPreLoad :: nat
  fPreLoadFlag :: bool
  fHoldList :: "(nat \<times> nat) list"
  fRecoverList :: "(nat \<times> nat) list"

definition new_flow :: "flow_role \<Rightarrow> flow_type \<Rightarrow> nat \<Rightarrow> nat \<Rightarrow> nat \<Rightarrow> nat \<Rightarrow> flow" where
  "new_flow role type flowId mediaId chunkSize preLoadSize =
     \<lparr>fRole = role, fType = type, fFlowId = flowId, fMediaId = mediaId, fChunkSize = chunkSize, fPreLoadSize = preLoadSize,
      fChunkList = [], fSealed = False, fTruncate = 0, fWriten = 0, fPreLoad = 0, fPreLoadFlag = False, fHoldList = [], fRecoverList = []\<rparr>"

definition GetValidLen :: "flow \<Rightarrow> nat" where
  "GetValidLen f = sub64 (fWriten f) (fTruncate f)"

definition GetTotalLen :: "flow \<Rightarrow> nat" where
  "GetTotalLen f = sub64 (fPreLoad f) (fTruncate f)"

definition SetWrittenOffset :: "nat \<Rightarrow> flow \<Rightarrow> flow" where
  "SetWrittenOffset off f = f\<lparr>fWriten := off\<rparr>"

section \<open>Loading ahead\<close>

text \<open>The writers in front of the list whose bytes are there are woken, with the result \<open>ret\<close>.\<close>

fun wake :: "nat \<Rightarrow> int \<Rightarrow> (nat \<times> nat) list \<Rightarrow> (nat \<times> int) list \<times> (nat \<times> nat) list" where
  "wake realOffset ret [] = ([], [])"
| "wake realOffset ret ((io, need) # hs) =
     (if need \<le> realOffset then (case wake realOffset ret hs of (woken, rest) \<Rightarrow> ((io, ret) # woken, rest)) else ([], (io, need) # hs))"

definition HoldClean :: "nat \<Rightarrow> int \<Rightarrow> bool \<Rightarrow> flow \<Rightarrow> (nat \<times> int) list \<times> flow" where
  "HoldClean realOffset ret preLoadFlag f =
     (case wake realOffset ret (fHoldList f) of (woken, rest) \<Rightarrow> (woken, f\<lparr>fPreLoadFlag := preLoadFlag, fHoldList := rest\<rparr>))"

definition load_ready :: "flow \<Rightarrow> bool" where
  "load_ready f \<longleftrightarrow> fPreLoad f \<ge> add64 (fWriten f) (fPreLoadSize f)"

text \<open>What the task does under the lock with a chunk that it has got.\<close>

definition publish :: "nat \<Rightarrow> flow \<Rightarrow> flow" where
  "publish chunk f = f\<lparr>fChunkList := fChunkList f @ [chunk], fPreLoad := add64 (fPreLoad f) (fChunkSize f)\<rparr>"

text \<open>The task, when no writer acts during its run; \<open>FlowTask\<close> has the runs in which writers and task take turns.\<close>

partial_function (option) PreLoadHandle ::
  "(nat \<Rightarrow> 'm \<Rightarrow> int \<times> nat \<times> 'm) \<Rightarrow> flow \<Rightarrow> 'm \<Rightarrow> ((nat \<times> int) list \<times> flow \<times> 'm) option" where
  "PreLoadHandle alloc f m =
     (case alloc (fPreLoad f) m of
        (ret, chunk, m1) \<Rightarrow>
          if ret \<noteq> BIO_OK then (case HoldClean NO_MAX_VALUE64 BIO_INNER_RETRY False f of (woken, f1) \<Rightarrow> Some (woken, f1, m1))
          else let f1 = publish chunk f; isReady = load_ready f1 in
            case HoldClean (fPreLoad f1) BIO_OK (\<not> isReady) f1 of
              (woken, f2) \<Rightarrow>
                if isReady then Some (woken, f2, m1)
                else do { (woken', f3, m2) \<leftarrow> PreLoadHandle alloc f2 m1; Some (woken @ woken', f3, m2) })"

text \<open>The two locked parts of \<open>HoldWait\<close> and \<open>PreLoadSchedule\<close>.\<close>

definition hold_enter :: "nat \<Rightarrow> nat \<Rightarrow> flow \<Rightarrow> bool \<times> flow" where
  "hold_enter io need f =
     (let f1 = (if fWriten f < need then f\<lparr>fWriten := need\<rparr> else f) in
      if fPreLoad f1 \<ge> need then (True, f1) else (False, f1\<lparr>fHoldList := fHoldList f1 @ [(io, need)]\<rparr>))"

definition claim_preload :: "flow \<Rightarrow> bool \<times> flow" where
  "claim_preload f = (\<not> fPreLoadFlag f, f\<lparr>fPreLoadFlag := True\<rparr>)"

text \<open>\<open>addOk\<close> is whether the task could be given to its thread pool.\<close>

definition PreLoadSchedule ::
  "(nat \<Rightarrow> 'm \<Rightarrow> int \<times> nat \<times> 'm) \<Rightarrow> bool \<Rightarrow> flow \<Rightarrow> 'm \<Rightarrow> ((nat \<times> int) list \<times> flow \<times> 'm) option" where
  "PreLoadSchedule alloc addOk f m =
     (if load_ready f then Some ([], f, m)
      else case claim_preload f of
        (claimed, f1) \<Rightarrow>
          if \<not> claimed then Some ([], f1, m)
          else if \<not> addOk then Some ([], f1\<lparr>fPreLoadFlag := False\<rparr>, m)
          else PreLoadHandle alloc f1 m)"

text \<open>
  The writer that waits: here the task runs to its end before the writer goes on, the schedule of a request that is alone. All other
  schedules of writers and task are the steps of \<open>FlowTask\<close>.
\<close>

definition HoldWait ::
  "(nat \<Rightarrow> 'm \<Rightarrow> int \<times> nat \<times> 'm) \<Rightarrow> bool \<Rightarrow> nat \<Rightarrow> nat \<Rightarrow> flow \<Rightarrow> 'm \<Rightarrow> (int \<times> flow \<times> 'm) option" where
  "HoldWait alloc addOk io need f m =
     (case hold_enter io need f of
        (enough, f1) \<Rightarrow>
          if enough then Some (BIO_OK, f1, m)
          else do { (woken, f2, m1) \<leftarrow> PreLoadSchedule alloc addOk f1 m; ret \<leftarrow> map_of woken io; Some (ret, f2, m1) })"

section \<open>Addresses\<close>

definition ValidateAndPreloadRange ::
  "(nat \<Rightarrow> 'm \<Rightarrow> int \<times> nat \<times> 'm) \<Rightarrow> bool \<Rightarrow> nat \<Rightarrow> nat \<Rightarrow> nat \<Rightarrow> flow \<Rightarrow> 'm \<Rightarrow> (int \<times> flow \<times> 'm) option" where
  "ValidateAndPreloadRange alloc addOk io offset len f m =
     (if offset < fTruncate f then Some (BIO_ERR, f, m)
      else if NO_MAX_VALUE64 - offset < len then Some (BIO_ERR, f, m)
      else do {
        (ret, f1, m1) \<leftarrow> (if offset + len > fPreLoad f then HoldWait alloc addOk io (offset + len) f m else Some (BIO_OK, f, m));
        Some (ret, if ret = BIO_OK \<and> fWriten f1 < offset + len then f1\<lparr>fWriten := offset + len\<rparr> else f1, m1) })"

text \<open>The loop over the chunks; offsets and lengths in an address have 32 bits.\<close>

function build_addrs :: "nat \<Rightarrow> nat list \<Rightarrow> nat \<Rightarrow> nat \<Rightarrow> int \<times> flow_addr list" where
  "build_addrs cs chunks cur remain =
     (if remain = 0 \<or> cs = 0 then (BIO_OK, [])
      else if cur div cs \<ge> length chunks then (BIO_INNER_ERR, [])
      else let curLen = min remain (cs - cur mod cs) in
        case build_addrs cs chunks (cur + curLen) (remain - curLen) of
          (ret, as) \<Rightarrow> (ret, \<lparr>aChunk = chunks ! (cur div cs), aOffset = cur mod cs mod 2 ^ 32, aLen = curLen mod 2 ^ 32\<rparr> # as))"
  by pat_completeness auto
termination by (relation "measure (\<lambda>(_, _, _, remain). remain)") auto

declare build_addrs.simps [simp del]

definition BuildFlowAddrs :: "nat \<Rightarrow> nat \<Rightarrow> flow \<Rightarrow> (int \<times> flow_addr list) option" where
  "BuildFlowAddrs offset len f =
     (if fChunkSize f = 0 then None
      else let start = fTruncate f div fChunkSize f * fChunkSize f in
        Some (build_addrs (fChunkSize f) (fChunkList f) (if start \<le> offset then offset - start else offset + 2 ^ 64 - start) len))"

definition GetAddrByOffset ::
  "(nat \<Rightarrow> 'm \<Rightarrow> int \<times> nat \<times> 'm) \<Rightarrow> bool \<Rightarrow> nat \<Rightarrow> nat \<Rightarrow> nat \<Rightarrow> flow \<Rightarrow> 'm \<Rightarrow> (int \<times> flow_addr list \<times> flow \<times> 'm) option" where
  "GetAddrByOffset alloc addOk io offset len f m =
     do {
       (ret, f1, m1) \<leftarrow> ValidateAndPreloadRange alloc addOk io offset len f m;
       if ret \<noteq> BIO_OK then Some (ret, [], f1, m1)
       else do {
         (ret, addrs) \<leftarrow> BuildFlowAddrs offset len f1;
         if ret \<noteq> BIO_OK then Some (ret, addrs, f1, m1)
         else do { (_, f2, m2) \<leftarrow> PreLoadSchedule alloc addOk f1 m1; Some (BIO_OK, addrs, f2, m2) } } }"

section \<open>Truncation\<close>

text \<open>The chunks that end at or before the new start leave the list and are freed.\<close>

function drop_chunks :: "nat \<Rightarrow> nat \<Rightarrow> nat \<Rightarrow> nat list \<Rightarrow> nat list \<times> nat list" where
  "drop_chunks cs offset start [] = ([], [])"
| "drop_chunks cs offset start (c # chunks) =
     (if add64 start cs \<le> offset
      then (case drop_chunks cs offset (add64 start cs) chunks of (clean, rest) \<Rightarrow> (c # clean, rest))
      else ([], c # chunks))"
  by pat_completeness auto
termination by (relation "measure (\<lambda>(_, _, _, chunks). length chunks)") auto

definition TruncateOffset :: "nat \<Rightarrow> flow \<Rightarrow> (int \<times> nat list \<times> flow) option" where
  "TruncateOffset offset f =
     (if offset > fPreLoad f \<or> offset > fWriten f then Some (BIO_ERR, [], f)
      else if fTruncate f \<ge> offset then Some (BIO_OK, [], f)
      else if fChunkSize f = 0 then None
      else case drop_chunks (fChunkSize f) offset (fTruncate f div fChunkSize f * fChunkSize f) (fChunkList f) of
        (cleanList, rest) \<Rightarrow> Some (BIO_OK, cleanList, f\<lparr>fChunkList := rest, fTruncate := offset\<rparr>))"

definition Seal :: "flow \<Rightarrow> (int \<times> nat list \<times> flow) option" where
  "Seal f =
     (if fSealed f then Some (BIO_OK, [], f)
      else TruncateOffset (fPreLoad f) (f\<lparr>fSealed := True, fWriten := fPreLoad f\<rparr>))"

section \<open>Recovery\<close>

fun map_put :: "nat \<Rightarrow> 'v \<Rightarrow> (nat \<times> 'v) list \<Rightarrow> (nat \<times> 'v) list" where
  "map_put k v [] = [(k, v)]"
| "map_put k v ((k', v') # xs) = (if k < k' then (k, v) # (k', v') # xs else if k = k' then (k, v) # xs else (k', v') # map_put k v xs)"

definition RecoverChunk :: "nat \<Rightarrow> nat \<Rightarrow> flow \<Rightarrow> int \<times> flow" where
  "RecoverChunk offset chunkId f =
     (if map_of (fRecoverList f) offset \<noteq> None then (BIO_ERR, f)
      else (BIO_OK, f\<lparr>fRecoverList := map_put offset chunkId (fRecoverList f)\<rparr>))"

fun recover_rest :: "(nat \<times> nat) list \<Rightarrow> flow \<Rightarrow> int \<times> flow" where
  "recover_rest [] f = (BIO_OK, f)"
| "recover_rest ((offset, chunk) # xs) f =
     (let f1 = f\<lparr>fChunkList := fChunkList f @ [chunk]\<rparr> in
      if fPreLoad f1 \<noteq> offset then (BIO_ERR, f1) else recover_rest xs (f1\<lparr>fPreLoad := add64 offset (fChunkSize f1)\<rparr>))"

definition RecoverCheck :: "flow \<Rightarrow> int \<times> flow" where
  "RecoverCheck f =
     (case fRecoverList f of
        [] \<Rightarrow> (BIO_OK, f)
      | (offset, chunk) # xs \<Rightarrow>
          recover_rest xs (f\<lparr>fChunkList := fChunkList f @ [chunk], fTruncate := offset, fPreLoad := add64 offset (fChunkSize f)\<rparr>))"

section \<open>Offsets and identifiers\<close>

record flow_instance =
  iFlowId :: nat
  iVersion :: nat
  iDegrade :: bool
  iNormal :: bool
  iIndex :: nat
  iOffset :: nat

definition AllocOffset :: "nat \<Rightarrow> flow_instance \<Rightarrow> nat \<times> nat \<times> flow_instance" where
  "AllocOffset len i = (iOffset i, iIndex i, i\<lparr>iIndex := add64 (iIndex i) 1, iOffset := add64 (iOffset i) len\<rparr>)"

definition RollbackOffset :: "nat \<Rightarrow> flow_instance \<Rightarrow> flow_instance" where
  "RollbackOffset len i = i\<lparr>iIndex := sub64 (iIndex i) 1, iOffset := sub64 (iOffset i) len\<rparr>"

text \<open>The upper half of an identifier is the prefix, the lower half the counter.\<close>

definition flow_id :: "nat \<Rightarrow> nat \<Rightarrow> nat" where
  "flow_id prefix inner = prefix * 2 ^ 32 + inner mod 2 ^ 32"

definition GenerateFlowId :: "nat \<Rightarrow> nat \<Rightarrow> nat \<times> nat" where
  "GenerateFlowId prefix next = (flow_id prefix (add64 next 1), add64 next 1)"

definition GenerateFlowIds :: "nat list \<Rightarrow> nat \<Rightarrow> nat list \<times> nat" where
  "GenerateFlowIds prefixes next = (map (\<lambda>p. flow_id p (add64 next 1)) prefixes, add64 next 1)"

definition SyncFlowId :: "nat \<Rightarrow> nat \<Rightarrow> nat" where
  "SyncFlowId flowId next = (if next < flowId mod 2 ^ 32 then flowId mod 2 ^ 32 else next)"

definition GetPrefixFormFlowId :: "nat \<Rightarrow> nat" where
  "GetPrefixFormFlowId flowId = flowId div 2 ^ 32 mod 2 ^ 32"

end
