(* ===== verification/FlowProps.thy ===== *)
theory FlowProps
  imports Flow "HOL-Library.Multiset"
begin

text \<open>
  Properties of flows: addresses name the bytes of a range, truncation frees what is cut off and moves
  nothing, the chunks on a disk give the flow back, and what can happen between a writer and the task
  that loads ahead.
\<close>

section \<open>Where the bytes of a flow are\<close>

definition base :: "flow \<Rightarrow> nat" where
  "base f = fTruncate f div fChunkSize f * fChunkSize f"

definition byte_at :: "flow \<Rightarrow> nat \<Rightarrow> nat \<times> nat" where
  "byte_at f x = (fChunkList f ! ((x - base f) div fChunkSize f), x mod fChunkSize f)"

definition expand :: "flow_addr list \<Rightarrow> (nat \<times> nat) list" where
  "expand as = concat (map (\<lambda>a. map (\<lambda>i. (aChunk a, aOffset a + i)) [0..<aLen a]) as)"

text \<open>The chunks cover the flow from its first chunk to the end of what is loaded.\<close>

definition flow_ok :: "flow \<Rightarrow> bool" where
  "flow_ok f \<longleftrightarrow> 0 < fChunkSize f \<and> fPreLoad f = base f + fChunkSize f * length (fChunkList f) \<and> fTruncate f \<le> fPreLoad f"

lemma flow_okD:
  assumes "flow_ok f"
  shows "0 < fChunkSize f" "fPreLoad f = base f + fChunkSize f * length (fChunkList f)" "fTruncate f \<le> fPreLoad f" "base f \<le> fTruncate f"
  using assms by (simp_all add: flow_ok_def base_def)

lemma seg_eq:
  fixes cs :: nat
  assumes "0 < cs" "l \<le> cs - cur mod cs"
  shows "map (\<lambda>i. (c ! (cur div cs), cur mod cs + i)) [0..<l] = map (\<lambda>x. (c ! (x div cs), x mod cs)) [cur..<cur + l]"
proof -
  have "(cur + i) div cs = cur div cs \<and> (cur + i) mod cs = cur mod cs + i" if "i < l" for i
  proof -
    have "cur mod cs + i < cs" using assms that by linarith
    moreover have "cur + i = cs * (cur div cs) + (cur mod cs + i)" by simp
    ultimately show ?thesis by (metis div_mult_self4 mod_mult_self4 div_less mod_less add.commute add_0 assms(1) less_numeral_extra(3))
  qed
  then have "map (\<lambda>i. (c ! (cur div cs), cur mod cs + i)) [0..<l] = map (\<lambda>i. (c ! ((cur + i) div cs), (cur + i) mod cs)) [0..<l]"
    by simp
  also have "\<dots> = map (\<lambda>x. (c ! (x div cs), x mod cs)) (map (\<lambda>i. cur + i) [0..<l])" by simp
  also have "map (\<lambda>i. cur + i) [0..<l] = [cur..<cur + l]" by (simp add: map_add_upt add.commute)
  finally show ?thesis .
qed

lemma build_addrs_ok:
  assumes "0 < cs" "cs < 2 ^ 32" "cur + remain \<le> cs * length chunks"
  shows "fst (build_addrs cs chunks cur remain) = BIO_OK \<and>
    expand (snd (build_addrs cs chunks cur remain)) = map (\<lambda>x. (chunks ! (x div cs), x mod cs)) [cur..<cur + remain]"
  using assms
proof (induction cs chunks cur remain rule: build_addrs.induct)
  case (1 cs chunks cur remain)
  show ?case
  proof (cases "remain = 0")
    case True
    then show ?thesis by (simp add: build_addrs.simps expand_def)
  next
    case False
    let ?l = "min remain (cs - cur mod cs)"
    have idx: "cur div cs < length chunks" using "1.prems" False
      by (metis add_gr_0 div_less_iff_less_mult le_less_trans less_add_same_cancel1 less_le_trans mult.commute neq0_conv)
    obtain ret as where r: "build_addrs cs chunks (cur + ?l) (remain - ?l) = (ret, as)" by fastforce
    have "cs - cur mod cs \<le> cs" by simp
    then have small: "?l < 2 ^ 32" "cur mod cs < 2 ^ 32" using "1.prems"(1,2) by (auto intro: less_trans [OF mod_less_divisor])
    have "fst (build_addrs cs chunks (cur + ?l) (remain - ?l)) = BIO_OK \<and>
        expand (snd (build_addrs cs chunks (cur + ?l) (remain - ?l))) = map (\<lambda>x. (chunks ! (x div cs), x mod cs)) [cur + ?l..<cur + remain]"
      using "1.IH" [of ?l] "1.prems" False idx by (simp add: min_def)
    then have ih: "ret = BIO_OK" "expand as = map (\<lambda>x. (chunks ! (x div cs), x mod cs)) [cur + ?l..<cur + remain]" using r by simp_all
    have "build_addrs cs chunks cur remain = (ret, \<lparr>aChunk = chunks ! (cur div cs), aOffset = cur mod cs mod 2 ^ 32, aLen = ?l mod 2 ^ 32\<rparr> # as)"
      using "1.prems"(1) False idx r by (subst build_addrs.simps) (simp add: Let_def)
    then have b: "build_addrs cs chunks cur remain = (BIO_OK, \<lparr>aChunk = chunks ! (cur div cs), aOffset = cur mod cs, aLen = ?l\<rparr> # as)"
      using small ih(1) by simp
    have "[cur..<cur + remain] = [cur..<cur + ?l] @ [cur + ?l..<cur + remain]" by (metis add_diff_cancel_left' le_add1 min.cobounded1 nat_add_left_cancel_le upt_add_eq_append le_add_diff_inverse)
    then show ?thesis using b ih(2) seg_eq [OF "1.prems"(1), of ?l cur chunks] by (simp add: expand_def)
  qed
qed

lemma built_addrs:
  assumes "flow_ok f" "fChunkSize f < 2 ^ 32" "fTruncate f \<le> offset" "offset + len \<le> fPreLoad f"
  shows "\<exists>addrs. BuildFlowAddrs offset len f = Some (BIO_OK, addrs) \<and> expand addrs = map (byte_at f) [offset..<offset + len]"
proof -
  note ok = flow_okD [OF assms(1)]
  let ?cs = "fChunkSize f"
  have b: "base f \<le> offset" using ok(4) assms(3) by simp
  have "offset - base f + len \<le> ?cs * length (fChunkList f)" using assms(4) b ok(2) by simp
  from build_addrs_ok [OF ok(1) assms(2) this] obtain addrs where
    a: "build_addrs ?cs (fChunkList f) (offset - base f) len = (BIO_OK, addrs)"
    "expand addrs = map (\<lambda>x. (fChunkList f ! (x div ?cs), x mod ?cs)) [offset - base f..<offset - base f + len]"
    by (metis prod.collapse)
  have "[offset..<offset + len] = map (\<lambda>x. x + base f) [offset - base f..<offset - base f + len]"
    using b by (intro nth_equalityI) simp_all
  then have "map (byte_at f) [offset..<offset + len] = expand addrs" unfolding a(2) by (simp add: byte_at_def base_def)
  then show ?thesis using a(1) b ok(1) by (simp add: BuildFlowAddrs_def base_def)
qed

section \<open>Loading ahead\<close>

lemma wake_eq: "wake r ret hs = (map (\<lambda>h. (fst h, ret)) (takeWhile (\<lambda>h. snd h \<le> r) hs), dropWhile (\<lambda>h. snd h \<le> r) hs)"
  by (induction r ret hs rule: wake.induct) auto

text \<open>A flow that has only got more chunks.\<close>

definition longer :: "flow \<Rightarrow> flow \<Rightarrow> bool" where
  "longer f f' \<longleftrightarrow> flow_ok f' \<and> (\<exists>more. fChunkList f' = fChunkList f @ more) \<and> fChunkSize f' = fChunkSize f \<and> fTruncate f' = fTruncate f \<and>
     fWriten f' = fWriten f \<and> fPreLoadSize f' = fPreLoadSize f \<and> fPreLoad f \<le> fPreLoad f'"

lemma longer_trans: "longer f g \<Longrightarrow> longer g h \<Longrightarrow> longer f h"
  by (auto simp: longer_def)

lemma longer_refl: "flow_ok f \<Longrightarrow> longer f f"
  by (simp add: longer_def)

lemma longer_byte_at:
  assumes "flow_ok f" "longer f f'" "base f \<le> x" "x < fPreLoad f"
  shows "byte_at f' x = byte_at f x" "base f' = base f"
proof -
  obtain more where m: "fChunkList f' = fChunkList f @ more" using assms(2) by (auto simp: longer_def)
  have "x - base f < fChunkSize f * length (fChunkList f)" using assms(3,4) flow_okD(2) [OF assms(1)] by simp
  then have "(x - base f) div fChunkSize f < length (fChunkList f)" using flow_okD(1) [OF assms(1)] by (simp add: less_mult_imp_div_less mult.commute)
  then show "byte_at f' x = byte_at f x" using assms(2) m by (auto simp: byte_at_def base_def longer_def nth_append)
  show "base f' = base f" using assms(2) by (simp add: base_def longer_def)
qed

lemma publish_longer:
  assumes "flow_ok f" "fPreLoad f + fChunkSize f < 2 ^ 64"
  shows "longer f (publish chunk f)" "fPreLoad (publish chunk f) = fPreLoad f + fChunkSize f"
  using assms by (auto simp: longer_def flow_ok_def publish_def base_def add64_exact)

lemma clean_longer: "longer f g \<Longrightarrow> HoldClean r ret flag g = (woken, g') \<Longrightarrow> longer f g'"
  by (auto simp: HoldClean_def longer_def flow_ok_def base_def split: prod.splits)

text \<open>The media can always give a chunk.\<close>

definition allocates :: "(nat \<Rightarrow> 'm \<Rightarrow> int \<times> nat \<times> 'm) \<Rightarrow> bool" where
  "allocates alloc \<longleftrightarrow> (\<forall>off m. fst (alloc off m) = BIO_OK)"

text \<open>The task ends; enough is loaded and every writer that waits is woken.\<close>

lemma PreLoadHandle_ok:
  assumes "allocates alloc"
  shows "flow_ok f \<Longrightarrow> fWriten f + fPreLoadSize f + fChunkSize f < 2 ^ 64 \<Longrightarrow> \<not> load_ready f \<Longrightarrow>
     (\<forall>h\<in>set (fHoldList f). snd h \<le> fWriten f) \<Longrightarrow>
     \<exists>woken f' m'. PreLoadHandle alloc f m = Some (woken, f', m') \<and> longer f f' \<and> load_ready f' \<and> \<not> fPreLoadFlag f' \<and> fHoldList f' = [] \<and>
       woken = map (\<lambda>h. (fst h, BIO_OK)) (fHoldList f)"
proof (induction "fWriten f + fPreLoadSize f - fPreLoad f" arbitrary: f m rule: less_induct)
  case less
  obtain chunk m1 where a: "alloc (fPreLoad f) m = (BIO_OK, chunk, m1)"
    using assms by (metis allocates_def prod.collapse)
  let ?f1 = "publish chunk f"
  have below: "fPreLoad f < fWriten f + fPreLoadSize f" using less.prems(2,3) by (simp add: load_ready_def add64_exact)
  then have "fPreLoad f + fChunkSize f < 2 ^ 64" using less.prems(2) by simp
  note p = publish_longer [OF less.prems(1) this, of chunk]
  obtain woken f2 where c: "HoldClean (fPreLoad ?f1) BIO_OK (\<not> load_ready ?f1) ?f1 = (woken, f2)" by fastforce
  have c': "woken = map (\<lambda>h. (fst h, BIO_OK)) (takeWhile (\<lambda>h. snd h \<le> fPreLoad ?f1) (fHoldList f))"
    "fHoldList f2 = dropWhile (\<lambda>h. snd h \<le> fPreLoad ?f1) (fHoldList f)" "fPreLoadFlag f2 = (\<not> load_ready ?f1)" "fPreLoad f2 = fPreLoad ?f1"
    "fWriten f2 = fWriten f" "fPreLoadSize f2 = fPreLoadSize f" "fChunkSize f2 = fChunkSize f"
    using c by (auto simp: HoldClean_def wake_eq publish_def)
  have l2: "longer f f2" using clean_longer [OF p(1) c] .
  have ready2: "load_ready f2 = load_ready ?f1" using c' by (simp add: load_ready_def publish_def)
  show ?case
  proof (cases "load_ready ?f1")
    case True
    then have "fWriten f \<le> fPreLoad ?f1" using less.prems(2) by (simp add: load_ready_def publish_def add64_exact)
    then have all: "\<forall>h\<in>set (fHoldList f). snd h \<le> fPreLoad ?f1" using less.prems(4) by fastforce
    then have "fHoldList f2 = []" using c'(2) by auto
    moreover have "woken = map (\<lambda>h. (fst h, BIO_OK)) (fHoldList f)" unfolding c'(1) using all by (metis takeWhile_eq_all_conv)
    moreover have "PreLoadHandle alloc f m = Some (woken, f2, m1)" using a c True by (subst PreLoadHandle.simps) (simp add: Let_def)
    ultimately show ?thesis using True c'(3) l2 ready2 by simp
  next
    case False
    have "fWriten f2 + fPreLoadSize f2 - fPreLoad f2 < fWriten f + fPreLoadSize f - fPreLoad f"
      using c' p(2) below flow_okD(1) [OF less.prems(1)] by simp
    moreover have "flow_ok f2" using l2 by (simp add: longer_def)
    moreover have "\<forall>h\<in>set (fHoldList f2). snd h \<le> fWriten f2" using less.prems(4) c' by (auto dest: set_dropWhileD)
    ultimately obtain woken' f3 m2 where ih: "PreLoadHandle alloc f2 m1 = Some (woken', f3, m2)" "longer f2 f3" "load_ready f3" "\<not> fPreLoadFlag f3"
      "fHoldList f3 = []" "woken' = map (\<lambda>h. (fst h, BIO_OK)) (fHoldList f2)"
      using less.hyps [of f2 m1] less.prems(2) False ready2 c' by auto
    have "woken @ woken' = map (\<lambda>h. (fst h, BIO_OK)) (fHoldList f)" using c'(1,2) ih(6) by (metis map_append takeWhile_dropWhile_id)
    then show ?thesis using a c False ih longer_trans [OF l2 ih(2)] by (subst PreLoadHandle.simps) (simp add: Let_def)
  qed
qed

text \<open>No writer waits and no task runs.\<close>

definition quiet :: "flow \<Rightarrow> bool" where
  "quiet f \<longleftrightarrow> flow_ok f \<and> \<not> fPreLoadFlag f \<and> fHoldList f = []"

lemma raise_written:
  "flow_ok (f\<lparr>fWriten := n\<rparr>) = flow_ok f" "base (f\<lparr>fWriten := n\<rparr>) = base f" "byte_at (f\<lparr>fWriten := n\<rparr>) x = byte_at f x"
  by (simp_all add: flow_ok_def base_def byte_at_def)

lemma schedule_quiet:
  assumes "allocates alloc" "quiet f" "fWriten f + fPreLoadSize f + fChunkSize f < 2 ^ 64"
  shows "\<exists>woken f' m'. PreLoadSchedule alloc True f m = Some (woken, f', m') \<and> longer f f' \<and> quiet f'"
proof (cases "load_ready f")
  case False
  let ?f1 = "f\<lparr>fPreLoadFlag := True\<rparr>"
  have "flow_ok ?f1" "\<not> load_ready ?f1" using assms(2) False by (simp_all add: quiet_def flow_ok_def base_def load_ready_def)
  from PreLoadHandle_ok [OF assms(1) this(1) _ this(2), of m] assms(2,3) obtain woken f' m' where
    "PreLoadHandle alloc ?f1 m = Some (woken, f', m')" "longer ?f1 f'" "\<not> fPreLoadFlag f'" "fHoldList f' = []"
    by (auto simp: quiet_def)
  moreover have "longer f f'" "flow_ok f'" using \<open>longer ?f1 f'\<close> by (simp_all add: longer_def)
  ultimately show ?thesis using assms(2) False by (simp add: PreLoadSchedule_def claim_preload_def quiet_def)
qed (use assms(2) in \<open>simp add: PreLoadSchedule_def longer_refl quiet_def\<close>)

lemma hold_wait_quiet:
  assumes "allocates alloc" "quiet f" "max (fWriten f) need + fPreLoadSize f + fChunkSize f < 2 ^ 64" "fPreLoad f < need"
  shows "\<exists>f' m'. HoldWait alloc True io need f m = Some (BIO_OK, f', m') \<and> longer (f\<lparr>fWriten := max (fWriten f) need\<rparr>) f' \<and> quiet f' \<and> need \<le> fPreLoad f'"
proof -
  let ?g = "f\<lparr>fWriten := max (fWriten f) need\<rparr>"
  let ?h = "?g\<lparr>fHoldList := [(io, need)]\<rparr>" and ?h1 = "?g\<lparr>fHoldList := [(io, need)], fPreLoadFlag := True\<rparr>"
  have e: "hold_enter io need f = (False, ?h)" using assms(2,4) by (auto simp: hold_enter_def quiet_def max_def Let_def)
  have nr: "\<not> load_ready ?h" "\<not> load_ready ?h1" using assms(3,4) by (simp_all add: load_ready_def add64_exact)
  have "flow_ok ?h1" using assms(2) by (simp add: quiet_def flow_ok_def base_def)
  from PreLoadHandle_ok [OF assms(1) this _ nr(2), of m] assms(3) obtain f' m' where
    p: "PreLoadHandle alloc ?h1 m = Some ([(io, BIO_OK)], f', m')" "longer ?h1 f'" "load_ready f'" "\<not> fPreLoadFlag f'" "fHoldList f' = []"
    by auto
  have l: "longer ?g f'" "flow_ok f'" using p(2) by (simp_all add: longer_def)
  have "need \<le> fPreLoad f'" using p(3) l(1) assms(3) by (simp add: load_ready_def longer_def add64_exact)
  with e p l nr(1) assms(2) show ?thesis by (simp add: HoldWait_def PreLoadSchedule_def claim_preload_def quiet_def)
qed

lemma validate_quiet:
  assumes "allocates alloc" "quiet f" "fTruncate f \<le> offset" "max (fWriten f) (offset + len) + fPreLoadSize f + fChunkSize f < 2 ^ 64"
  shows "\<exists>f' m'. ValidateAndPreloadRange alloc True io offset len f m = Some (BIO_OK, f', m') \<and>
     longer (f\<lparr>fWriten := max (fWriten f) (offset + len)\<rparr>) f' \<and> quiet f' \<and> offset + len \<le> fPreLoad f'"
proof -
  let ?g = "f\<lparr>fWriten := max (fWriten f) (offset + len)\<rparr>"
  have g: "quiet ?g" using assms(2) by (simp add: quiet_def raise_written)
  have ok: "\<not> offset < fTruncate f" "\<not> NO_MAX_VALUE64 - offset < len" using assms(3,4) by simp_all
  show ?thesis
  proof (cases "offset + len > fPreLoad f")
    case True
    from hold_wait_quiet [OF assms(1,2,4) this, of io m] obtain f' m' where
      h: "HoldWait alloc True io (offset + len) f m = Some (BIO_OK, f', m')" "longer ?g f'" "quiet f'" "offset + len \<le> fPreLoad f'" by blast
    have "\<not> fWriten f' < offset + len" using h(2) by (simp add: longer_def)
    then show ?thesis using h ok True by (simp add: ValidateAndPreloadRange_def)
  next
    case False
    then have "ValidateAndPreloadRange alloc True io offset len f m = Some (BIO_OK, ?g, m)"
      using ok by (auto simp: ValidateAndPreloadRange_def max_def)
    then show ?thesis using g False longer_refl [of ?g] by (simp add: quiet_def)
  qed
qed

text \<open>
  (C14) The addresses of a range: in a flow without waiting writers and running task, and without another writer during the call, when the
  thread pool accepts the task and all allocations succeed, a writer at or behind the start of the flow gets
  addresses whose bytes, in this order, are those of the range, and the bytes that the flow had
  before stay where they were.
\<close>

theorem flow_addresses:
  assumes "allocates alloc" "quiet f" "fChunkSize f < 2 ^ 32" "fTruncate f \<le> offset"
    "max (fWriten f) (offset + len) + fPreLoadSize f + fChunkSize f < 2 ^ 64"
  shows "\<exists>addrs f' m'. GetAddrByOffset alloc True io offset len f m = Some (BIO_OK, addrs, f', m') \<and>
     expand addrs = map (byte_at f') [offset..<offset + len] \<and> quiet f' \<and> fWriten f' = max (fWriten f) (offset + len) \<and>
     (\<forall>x. base f \<le> x \<and> x < fPreLoad f \<longrightarrow> byte_at f' x = byte_at f x)"
proof -
  let ?g = "f\<lparr>fWriten := max (fWriten f) (offset + len)\<rparr>"
  obtain f1 m1 where v: "ValidateAndPreloadRange alloc True io offset len f m = Some (BIO_OK, f1, m1)" "longer ?g f1" "quiet f1"
    "offset + len \<le> fPreLoad f1" using validate_quiet [OF assms(1,2,4,5)] by blast
  have s1: "fChunkSize f1 = fChunkSize f" "fTruncate f1 = fTruncate f" "fWriten f1 = max (fWriten f) (offset + len)" "fPreLoadSize f1 = fPreLoadSize f" "flow_ok f1"
    using v(2) by (simp_all add: longer_def)
  obtain w f2 m2 where s: "PreLoadSchedule alloc True f1 m1 = Some (w, f2, m2)" "longer f1 f2" "quiet f2"
    using schedule_quiet [OF assms(1) v(3), of m1] s1 assms(5) by auto
  have b1: "base f1 = base f" "base f \<le> offset"
    using s1(1,2) assms(4) by (simp_all add: base_def order_trans [OF div_times_less_eq_dividend])
  obtain addrs where a: "BuildFlowAddrs offset len f1 = Some (BIO_OK, addrs)" "expand addrs = map (byte_at f1) [offset..<offset + len]"
    using built_addrs [OF s1(5) _ _ v(4)] s1(1,2) assms(3,4) by auto
  have e2: "map (byte_at f2) [offset..<offset + len] = map (byte_at f1) [offset..<offset + len]"
    using longer_byte_at(1) [OF s1(5) s(2)] v(4) b1 by simp
  have keep: "byte_at f2 x = byte_at f x" if "base f \<le> x" "x < fPreLoad f" for x
  proof -
    have g: "flow_ok ?g" using assms(2) by (simp add: quiet_def raise_written)
    have "byte_at f1 x = byte_at ?g x" using longer_byte_at(1) [OF g v(2)] that by (simp add: raise_written)
    moreover have "byte_at f2 x = byte_at f1 x" using longer_byte_at(1) [OF s1(5) s(2)] that b1(1) v(2) by (simp add: longer_def)
    ultimately show ?thesis by (simp add: raise_written)
  qed
  have "GetAddrByOffset alloc True io offset len f m = Some (BIO_OK, addrs, f2, m2)"
    using v(1) s(1) a(1) by (simp add: GetAddrByOffset_def)
  then show ?thesis using a(2) e2 s keep s1(3) by (intro exI [of _ addrs] exI [of _ f2] exI [of _ m2]) (simp add: longer_def)
qed

text \<open>A media that counts its chunks.\<close>

definition count_alloc :: "nat \<Rightarrow> nat \<Rightarrow> int \<times> nat \<times> nat" where
  "count_alloc off m = (BIO_OK, m, m + 1)"

lemma count_allocates: "allocates count_alloc"
  by (simp add: allocates_def count_alloc_def)

lemma new_quiet: "0 < cs \<Longrightarrow> quiet (new_flow role type i m cs ps)"
  by (simp add: quiet_def flow_ok_def base_def new_flow_def)

theorem flow_addresses_witness:
  "\<exists>addrs f' m'. GetAddrByOffset count_alloc True 0 6 4 (new_flow FLOW_DATA FLOW_DISK 1 0 8 16) 100 = Some (BIO_OK, addrs, f', m') \<and>
     expand addrs = map (byte_at f') [6, 7, 8, 9] \<and> fWriten f' = 10"
proof -
  let ?f = "new_flow FLOW_DATA FLOW_DISK 1 0 8 16"
  have "[6..<6 + 4] = [6, 7, 8, 9 :: nat]" by code_simp
  then show ?thesis using flow_addresses [OF count_allocates new_quiet [of 8 FLOW_DATA FLOW_DISK 1 0 16], of 6 4 0 100] by (auto simp: new_flow_def)
qed

section \<open>Truncation\<close>

lemma drop_chunks_eq:
  assumes "0 < cs" "offset + cs < 2 ^ 64" "start \<le> offset" "offset \<le> start + cs * length chunks"
  shows "drop_chunks cs offset start chunks = (take ((offset - start) div cs) chunks, drop ((offset - start) div cs) chunks)"
  using assms
proof (induction cs offset start chunks rule: drop_chunks.induct)
  case (2 cs offset start c chunks)
  have a: "add64 start cs = start + cs" using "2.prems" by (simp add: add64_exact)
  show ?case
  proof (cases "start + cs \<le> offset")
    case True
    then have "(offset - start) div cs = Suc ((offset - (start + cs)) div cs)"
      using "2.prems"(1) by (metis diff_diff_left add_le_imp_le_diff add.commute le_div_geq)
    then show ?thesis using "2.IH" "2.prems" True a by simp
  next
    case False
    then have "(offset - start) div cs = 0" using "2.prems"(3) by (intro div_less) linarith
    then show ?thesis using False a by simp
  qed
qed simp

text \<open>
  (C15) Truncation frees what is cut off and moves nothing: the freed chunks are the first ones and hold only bytes in front of the new start,
  the bytes behind it are where they were, and the flow stays in order.
\<close>

theorem truncate_keeps:
  assumes "flow_ok f" "fPreLoad f + fChunkSize f < 2 ^ 64" "TruncateOffset offset f = Some (BIO_OK, freed, f')"
  shows "flow_ok f' \<and> fTruncate f' = max (fTruncate f) offset \<and> fChunkList f = freed @ fChunkList f' \<and>
     base f + fChunkSize f * length freed = base f' \<and> base f' \<le> fTruncate f' \<and>
     (\<forall>x. base f' \<le> x \<and> x < fPreLoad f \<longrightarrow> byte_at f' x = byte_at f x)"
proof (cases "fTruncate f \<ge> offset")
  case True
  then show ?thesis using assms flow_okD(4) [OF assms(1)] by (auto simp: TruncateOffset_def split: if_splits)
next
  case False
  let ?cs = "fChunkSize f" and ?k = "(offset - base f) div fChunkSize f"
  note ok = flow_okD [OF assms(1)]
  have le: "offset \<le> fPreLoad f" using assms(3) False by (auto simp: TruncateOffset_def split: if_splits)
  have "base f \<le> offset" using ok(4) False by simp
  then have d: "drop_chunks ?cs offset (base f) (fChunkList f) = (take ?k (fChunkList f), drop ?k (fChunkList f))"
    using drop_chunks_eq [OF ok(1) _ _ le [unfolded ok(2)]] le assms(2) by simp
  have f': "freed = take ?k (fChunkList f)" "f' = f\<lparr>fChunkList := drop ?k (fChunkList f), fTruncate := offset\<rparr>"
    using assms(3) False d ok(1) by (auto simp: TruncateOffset_def base_def split: if_splits)
  have "offset - base f \<le> ?cs * length (fChunkList f)" using le ok(2) by simp
  then have k: "?k \<le> length (fChunkList f)" using ok(1) div_le_mono [of "offset - base f" "?cs * length (fChunkList f)" ?cs] by simp
  have b: "base f' = base f + ?cs * ?k"
  proof -
    have "offset div ?cs = fTruncate f div ?cs + ?k"
      using \<open>base f \<le> offset\<close> ok(1) unfolding base_def by (metis div_mult_self1 le_add_diff_inverse add.commute mult.commute less_not_refl)
    then show ?thesis using f'(2) by (simp add: base_def algebra_simps)
  qed
  have "byte_at f' x = byte_at f x" if "base f' \<le> x" "x < fPreLoad f" for x
  proof -
    have "x - base f = ?cs * ?k + (x - base f')" using that(1) b by simp
    then have "(x - base f) div ?cs = ?k + (x - base f') div ?cs" using ok(1) by simp
    then show ?thesis using f'(2) k by (simp add: byte_at_def)
  qed
  moreover have "flow_ok f'" using f'(2) b k ok(1,2) le by (simp add: flow_ok_def algebra_simps diff_mult_distrib2)
  ultimately show ?thesis using f' b k False flow_okD(4) [of f'] by auto
qed

definition three :: flow where
  "three = (new_flow FLOW_DATA FLOW_DISK 1 0 8 0)\<lparr>fChunkList := [100, 101, 102], fPreLoad := 24, fWriten := 20\<rparr>"

lemma three_ok: "flow_ok three"
  by (simp add: flow_ok_def base_def three_def new_flow_def)

theorem truncate_keeps_witness:
  "\<exists>f'. TruncateOffset 17 three = Some (BIO_OK, [100, 101], f') \<and> flow_ok f' \<and> byte_at f' 19 = (102, 3)"
proof -
  have t: "TruncateOffset 17 three = Some (BIO_OK, [100, 101], three\<lparr>fChunkList := [102], fTruncate := 17\<rparr>)"
    by (simp add: TruncateOffset_def three_def new_flow_def add64_def)
  have "fPreLoad three + fChunkSize three < 2 ^ 64" by (simp add: three_def new_flow_def)
  from truncate_keeps [OF three_ok this t] have "flow_ok (three\<lparr>fChunkList := [102], fTruncate := 17\<rparr>)" by simp
  then show ?thesis using t by (simp add: byte_at_def base_def three_def new_flow_def)
qed

section \<open>Recovery\<close>

text \<open>What the disk records of a flow: every chunk with its offset.\<close>

definition chunk_records :: "flow \<Rightarrow> (nat \<times> nat) list" where
  "chunk_records f = map (\<lambda>i. (base f + i * fChunkSize f, fChunkList f ! i)) [0..<length (fChunkList f)]"

fun recover_chunks :: "(nat \<times> nat) list \<Rightarrow> flow \<Rightarrow> int \<times> flow" where
  "recover_chunks [] f = (BIO_OK, f)"
| "recover_chunks ((offset, chunk) # rs) f =
     (case RecoverChunk offset chunk f of (ret, f1) \<Rightarrow> if ret \<noteq> BIO_OK then (ret, f1) else recover_chunks rs f1)"

lemma map_put_mset: "k \<notin> fst ` set xs \<Longrightarrow> mset (map_put k v xs) = add_mset (k, v) (mset xs)"
  by (induction k v xs rule: map_put.induct) auto

lemma map_put_set: "k \<notin> fst ` set xs \<Longrightarrow> set (map_put k v xs) = insert (k, v) (set xs)"
  using map_put_mset [of k xs v] by (metis set_mset_add_mset_insert set_mset_mset)

lemma map_put_ok:
  assumes "sorted_wrt (<) (map fst xs)" "k \<notin> fst ` set xs"
  shows "sorted_wrt (<) (map fst (map_put k v xs)) \<and> mset (map_put k v xs) = add_mset (k, v) (mset xs)"
  using assms
proof (induction k v xs rule: map_put.induct)
  case (2 k v k' v' xs)
  then show ?case using map_put_set [of k xs v] by auto
qed simp

lemma recover_chunks_ok:
  assumes "sorted_wrt (<) (map fst (fRecoverList f))" "distinct (map fst rs)" "fst ` set rs \<inter> fst ` set (fRecoverList f) = {}"
  shows "\<exists>xs. recover_chunks rs f = (BIO_OK, f\<lparr>fRecoverList := xs\<rparr>) \<and> sorted_wrt (<) (map fst xs) \<and> mset xs = mset rs + mset (fRecoverList f)"
  using assms
proof (induction rs arbitrary: f)
  case Nil
  then show ?case by (intro exI [of _ "fRecoverList f"]) simp
next
  case (Cons r rs)
  obtain k v where r: "r = (k, v)" by fastforce
  let ?xs = "map_put k v (fRecoverList f)"
  have k: "k \<notin> fst ` set (fRecoverList f)" using Cons.prems(3) r by auto
  note p = map_put_ok [OF Cons.prems(1) k, of v]
  then have "set ?xs = insert (k, v) (set (fRecoverList f))" by (metis set_mset_add_mset_insert set_mset_mset)
  then have "fst ` set rs \<inter> fst ` set ?xs = {}" using Cons.prems(2,3) r by auto
  with Cons.IH [of "f\<lparr>fRecoverList := ?xs\<rparr>"] p Cons.prems(2) obtain ys where
    "recover_chunks rs (f\<lparr>fRecoverList := ?xs\<rparr>) = (BIO_OK, f\<lparr>fRecoverList := ys\<rparr>)" "sorted_wrt (<) (map fst ys)" "mset ys = mset rs + mset ?xs"
    by auto
  moreover have "RecoverChunk k v f = (BIO_OK, f\<lparr>fRecoverList := ?xs\<rparr>)" using k by (auto simp: RecoverChunk_def map_of_eq_None_iff)
  ultimately show ?case using r p by (intro exI [of _ ys]) simp
qed

lemma sorted_records: "0 < fChunkSize f \<Longrightarrow> sorted_wrt (<) (map fst (chunk_records f))"
  by (simp add: chunk_records_def sorted_wrt_map comp_def sorted_wrt_iff_nth_less)

lemma recover_rest_ok:
  assumes "fPreLoad g = b + n * cs" "fChunkSize g = cs" "b + (n + length chunks) * cs < 2 ^ 64"
  shows "recover_rest (map (\<lambda>i. (b + (n + i) * cs, chunks ! i)) [0..<length chunks]) g =
     (BIO_OK, g\<lparr>fChunkList := fChunkList g @ chunks, fPreLoad := b + (n + length chunks) * cs\<rparr>)"
  using assms
proof (induction chunks arbitrary: g n)
  case (Cons c chunks)
  let ?g = "g\<lparr>fChunkList := fChunkList g @ [c], fPreLoad := b + (n + 1) * cs\<rparr>"
  have "(n + 1) * cs \<le> (n + length (c # chunks)) * cs" by (intro mult_right_mono) simp_all
  then have "b + (n + 1) * cs < 2 ^ 64" using Cons.prems(3) by linarith
  then have a: "add64 (b + n * cs) cs = b + (n + 1) * cs" by (simp add: add64_exact algebra_simps)
  have m: "map (\<lambda>i. (b + (n + i) * cs, (c # chunks) ! i)) [0..<length (c # chunks)] =
      (b + n * cs, c) # map (\<lambda>i. (b + (n + 1 + i) * cs, chunks ! i)) [0..<length chunks]"
    by (simp add: upt_conv_Cons map_Suc_upt [symmetric] comp_def del: upt_Suc)
  have "recover_rest (map (\<lambda>i. (b + (n + 1 + i) * cs, chunks ! i)) [0..<length chunks]) ?g =
      (BIO_OK, ?g\<lparr>fChunkList := fChunkList ?g @ chunks, fPreLoad := b + (n + 1 + length chunks) * cs\<rparr>)"
    using Cons.IH [of ?g "n + 1"] Cons.prems by (simp add: add.assoc)
  then show ?case unfolding m using Cons.prems(1,2) a by (simp add: Let_def)
qed simp

lemma sorted_unique:
  fixes xs ys :: "(nat \<times> nat) list"
  assumes "sorted_wrt (<) (map fst xs)" "sorted_wrt (<) (map fst ys)" "mset xs = mset ys"
  shows "xs = ys"
proof -
  have s: "sorted (map fst xs)" "distinct (map fst xs)" "sorted (map fst ys)" "distinct (map fst ys)"
    using assms(1,2) by (simp_all add: strict_sorted_iff)
  have "set xs = set ys" using assms(3) by (metis set_mset_mset)
  moreover have "inj_on fst (set xs \<union> set ys)" using s(2) calculation by (simp add: distinct_map)
  ultimately show ?thesis using map_sorted_distinct_set_unique s by blast
qed

definition same_bytes :: "flow \<Rightarrow> flow \<Rightarrow> bool" where
  "same_bytes f g \<longleftrightarrow> flow_ok g \<and> fTruncate g = base f \<and> fPreLoad g = fPreLoad f \<and> fChunkList g = fChunkList f \<and>
     (\<forall>x. base f \<le> x \<longrightarrow> byte_at g x = byte_at f x)"

lemma check_records:
  assumes "flow_ok f" "fPreLoad f < 2 ^ 64" "fChunkList f \<noteq> []" "fRecoverList g = chunk_records f" "fChunkSize g = fChunkSize f" "fChunkList g = []"
  shows "\<exists>g'. RecoverCheck g = (BIO_OK, g') \<and> same_bytes f g'"
proof -
  note ok = flow_okD [OF assms(1)]
  let ?cs = "fChunkSize f"
  obtain c cs where c: "fChunkList f = c # cs" using assms(3) by (cases "fChunkList f") auto
  have "chunk_records f = (base f, c) # map (\<lambda>i. (base f + (1 + i) * ?cs, cs ! i)) [0..<length cs]"
    unfolding chunk_records_def c by (simp add: upt_conv_Cons map_Suc_upt [symmetric] comp_def del: upt_Suc)
  moreover have "base f + ?cs * length (fChunkList f) < 2 ^ 64" using assms(2) ok(2) by simp
  then have end_lt: "base f + (1 + length cs) * ?cs < 2 ^ 64" using c by (simp add: mult.commute)
  moreover have "add64 (base f) ?cs = base f + 1 * ?cs" using end_lt by (simp add: add64_exact)
  ultimately have "RecoverCheck g = (BIO_OK, g\<lparr>fTruncate := base f, fChunkList := [c] @ cs, fPreLoad := base f + (1 + length cs) * ?cs\<rparr>)" (is "_ = (_, ?g2)")
    using recover_rest_ok [of "g\<lparr>fChunkList := [c], fTruncate := base f, fPreLoad := base f + 1 * ?cs\<rparr>" "base f" 1 ?cs cs] assms(4-6)
    by (simp add: RecoverCheck_def)
  moreover have "base ?g2 = base f" using assms(5) ok(1) by (simp add: base_def)
  moreover have "fPreLoad ?g2 = fPreLoad f" "fChunkList ?g2 = fChunkList f" using ok(2) c by (simp_all add: algebra_simps)
  ultimately show ?thesis using ok assms(5) by (intro exI [of _ ?g2]) (auto simp: same_bytes_def flow_ok_def byte_at_def)
qed

text \<open>
  The chunks on the disk give the flow back: whatever the order in which the scan of the disk delivers the chunks
  of a flow, a new flow that recovers them has the same chunks at the same offsets, up to the same end, and starts at the first byte
  of its first chunk.
\<close>

theorem recover_restores:
  assumes "flow_ok f" "fPreLoad f < 2 ^ 64" "fChunkList f \<noteq> []" "mset recs = mset (chunk_records f)"
    "g = new_flow role type i m (fChunkSize f) ps"
  shows "\<exists>g1 g2. recover_chunks recs g = (BIO_OK, g1) \<and> RecoverCheck g1 = (BIO_OK, g2) \<and> flow_ok g2 \<and>
     fTruncate g2 = base f \<and> fPreLoad g2 = fPreLoad f \<and> fChunkList g2 = fChunkList f \<and> (\<forall>x. base f \<le> x \<longrightarrow> byte_at g2 x = byte_at f x)"
proof -
  note ok = flow_okD [OF assms(1)]
  have g: "fRecoverList g = []" "fChunkSize g = fChunkSize f" "fChunkList g = []" using assms(5) by (simp_all add: new_flow_def)
  have "distinct (map fst (chunk_records f))" using sorted_records [OF ok(1)] by (simp add: strict_sorted_iff)
  then have "distinct (map fst recs)" using assms(4) by (metis mset_eq_imp_distinct_iff mset_map)
  from recover_chunks_ok [OF _ this, of g] g(1) obtain xs where
    x: "recover_chunks recs g = (BIO_OK, g\<lparr>fRecoverList := xs\<rparr>)" "sorted_wrt (<) (map fst xs)" "mset xs = mset recs" by auto
  have "xs = chunk_records f" using sorted_unique [OF x(2) sorted_records [OF ok(1)]] x(3) assms(4) by simp
  then obtain g' where "RecoverCheck (g\<lparr>fRecoverList := xs\<rparr>) = (BIO_OK, g')" "same_bytes f g'"
    using check_records [OF assms(1-3), of "g\<lparr>fRecoverList := xs\<rparr>"] g by auto
  then show ?thesis using x(1) by (auto simp: same_bytes_def)
qed

theorem recover_restores_witness:
  "\<exists>g1 g2. recover_chunks [(16, 102), (0, 100), (8, 101)] (new_flow FLOW_DATA FLOW_DISK 1 0 8 16) = (BIO_OK, g1) \<and>
     RecoverCheck g1 = (BIO_OK, g2) \<and> fChunkList g2 = [100, 101, 102] \<and> fPreLoad g2 = 24"
proof -
  have r: "chunk_records three = [(0, 100), (8, 101), (16, 102)]" by code_simp
  have t: "fPreLoad three < 2 ^ 64" "fChunkList three \<noteq> []" "fChunkSize three = 8" "fChunkList three = [100, 101, 102]" "fPreLoad three = 24"
    by (simp_all add: three_def new_flow_def)
  have "mset [(16, 102), (0, 100), (8, 101)] = mset (chunk_records three)" unfolding r by simp
  from recover_restores [OF three_ok t(1,2) this refl, of FLOW_DATA FLOW_DISK 1 0 16] t show ?thesis by auto
qed

end
