(* ===== verification/FlowTask.thy ===== *)
theory FlowTask
  imports FlowProps
begin

text \<open>
  Writers and the task of a flow, \<^verbatim>\<open>flow/flow.cpp\<close>, step by step: each step is a part of
  \<open>HoldWait\<close>, \<open>PreLoadSchedule\<close> and \<open>PreLoadHandle\<close> under the lock of the flow, or one outside of it.
\<close>

text \<open>Where a writer returns to from \<open>PreLoadSchedule\<close>: to its semaphore, or to the end of \<open>GetAddrByOffset\<close>.\<close>

datatype cont = ToWait | ToEnd

text \<open>A writer needs the bytes up to the number.\<close>

datatype io_at = IoStart nat | IoSched cont nat | IoClaim cont nat | IoSubmit cont nat | IoWait nat | IoEnd nat int

text \<open>\<open>TaskPublished\<close> is the task between its two locked parts, with the offset and whether enough is loaded.\<close>

datatype task_at = TaskNone | TaskAlloc | TaskGot nat | TaskFailed | TaskPublished nat bool

text \<open>\<open>posted\<close> are the results of the semaphores that were posted.\<close>

record psys =
  fl :: flow
  ios :: "io_at list"
  task :: task_at
  posted :: "(nat \<times> int) list"

datatype move = Enter nat | Sched nat | Claim nat | Submit nat bool | Alloc "nat option" | Publish | Clean | Wake nat

definition after :: "cont \<Rightarrow> nat \<Rightarrow> io_at" where
  "after k need = (case k of ToWait \<Rightarrow> IoWait need | ToEnd \<Rightarrow> IoEnd need BIO_OK)"

definition io_of :: "nat \<Rightarrow> psys \<Rightarrow> io_at option" where
  "io_of i s = (if i < length (ios s) then Some (ios s ! i) else None)"

text \<open>A step is not possible when it is \<open>None\<close>. The offsets of a flow stay below \<open>2 ^ 64\<close>.\<close>

fun do_step :: "move \<Rightarrow> psys \<Rightarrow> psys option" where
  "do_step (Enter i) s =
     (case io_of i s of
        Some (IoStart need) \<Rightarrow>
          (case hold_enter i need (fl s) of
             (enough, f) \<Rightarrow> Some (s\<lparr>fl := f, ios := (ios s)[i := IoSched (if enough then ToEnd else ToWait) need]\<rparr>))
      | _ \<Rightarrow> None)"
| "do_step (Sched i) s =
     (case io_of i s of
        Some (IoSched k need) \<Rightarrow> Some (s\<lparr>ios := (ios s)[i := if load_ready (fl s) then after k need else IoClaim k need]\<rparr>)
      | _ \<Rightarrow> None)"
| "do_step (Claim i) s =
     (case io_of i s of
        Some (IoClaim k need) \<Rightarrow>
          (case claim_preload (fl s) of
             (claimed, f) \<Rightarrow> Some (s\<lparr>fl := f, ios := (ios s)[i := if claimed then IoSubmit k need else after k need]\<rparr>))
      | _ \<Rightarrow> None)"
| "do_step (Submit i addOk) s =
     (case io_of i s of
        Some (IoSubmit k need) \<Rightarrow>
          if addOk then (if task s = TaskNone then Some (s\<lparr>ios := (ios s)[i := after k need], task := TaskAlloc\<rparr>) else None)
          else Some (s\<lparr>fl := (fl s)\<lparr>fPreLoadFlag := False\<rparr>, ios := (ios s)[i := after k need]\<rparr>)
      | _ \<Rightarrow> None)"
| "do_step (Alloc result) s =
     (if task s = TaskAlloc then Some (s\<lparr>task := case result of Some chunk \<Rightarrow> TaskGot chunk | None \<Rightarrow> TaskFailed\<rparr>) else None)"
| "do_step Publish s =
     (case task s of
        TaskGot chunk \<Rightarrow>
          if fPreLoad (fl s) + fChunkSize (fl s) < 2 ^ 64
          then let f = publish chunk (fl s) in Some (s\<lparr>fl := f, task := TaskPublished (fPreLoad f) (load_ready f)\<rparr>) else None
      | _ \<Rightarrow> None)"
| "do_step Clean s =
     (case task s of
        TaskPublished off isReady \<Rightarrow>
          (case HoldClean off BIO_OK (\<not> isReady) (fl s) of
             (woken, f) \<Rightarrow> Some (s\<lparr>fl := f, task := if isReady then TaskNone else TaskAlloc, posted := posted s @ woken\<rparr>))
      | TaskFailed \<Rightarrow>
          (case HoldClean NO_MAX_VALUE64 BIO_INNER_RETRY False (fl s) of
             (woken, f) \<Rightarrow> Some (s\<lparr>fl := f, task := TaskNone, posted := posted s @ woken\<rparr>))
      | _ \<Rightarrow> None)"
| "do_step (Wake i) s =
     (case io_of i s of
        Some (IoWait need) \<Rightarrow>
          (case map_of (posted s) i of
             None \<Rightarrow> None
           | Some ret \<Rightarrow> Some (s\<lparr>ios := (ios s)[i := if ret = BIO_OK then IoSched ToEnd need else IoEnd need ret]\<rparr>))
      | _ \<Rightarrow> None)"

fun runs :: "move list \<Rightarrow> psys \<Rightarrow> psys option" where
  "runs [] s = Some s"
| "runs (m # ms) s = (case do_step m s of None \<Rightarrow> None | Some s' \<Rightarrow> runs ms s')"

definition writers :: "nat list \<Rightarrow> flow \<Rightarrow> psys" where
  "writers needs f = \<lparr>fl = f, ios = map IoStart needs, task = TaskNone, posted = []\<rparr>"

section \<open>What a writer can rely on\<close>

fun need_of :: "io_at \<Rightarrow> nat" where
  "need_of (IoStart n) = n"
| "need_of (IoSched k n) = n"
| "need_of (IoClaim k n) = n"
| "need_of (IoSubmit k n) = n"
| "need_of (IoWait n) = n"
| "need_of (IoEnd n r) = n"

text \<open>A writer on its way to the end, or there with success, has its bytes.\<close>

fun served :: "io_at \<Rightarrow> bool" where
  "served (IoSched k n) \<longleftrightarrow> k = ToEnd"
| "served (IoClaim k n) \<longleftrightarrow> k = ToEnd"
| "served (IoSubmit k n) \<longleftrightarrow> k = ToEnd"
| "served (IoEnd n r) \<longleftrightarrow> r = BIO_OK"
| "served _ \<longleftrightarrow> False"

definition task_inv :: "psys \<Rightarrow> bool" where
  "task_inv s \<longleftrightarrow> flow_ok (fl s) \<and>
     (\<forall>h\<in>set (fHoldList (fl s)). fst h < length (ios s) \<and> need_of (ios s ! fst h) = snd h) \<and>
     (\<forall>h\<in>set (posted s). fst h < length (ios s) \<and> (snd h = BIO_OK \<longrightarrow> need_of (ios s ! fst h) \<le> fPreLoad (fl s))) \<and>
     (\<forall>io\<in>set (ios s). served io \<longrightarrow> need_of io \<le> fPreLoad (fl s)) \<and>
     (\<forall>off r. task s = TaskPublished off r \<longrightarrow> off \<le> fPreLoad (fl s))"

lemma task_invD:
  assumes "task_inv s"
  shows "flow_ok (fl s)" "h \<in> set (fHoldList (fl s)) \<Longrightarrow> fst h < length (ios s) \<and> need_of (ios s ! fst h) = snd h"
    "q \<in> set (posted s) \<Longrightarrow> fst q < length (ios s) \<and> (snd q = BIO_OK \<longrightarrow> need_of (ios s ! fst q) \<le> fPreLoad (fl s))"
    "io \<in> set (ios s) \<Longrightarrow> served io \<Longrightarrow> need_of io \<le> fPreLoad (fl s)" "task s = TaskPublished off r \<Longrightarrow> off \<le> fPreLoad (fl s)"
  using assms by (auto simp: task_inv_def)

text \<open>A writer moves on; its need stays the same and its bytes are there when it is served.\<close>

lemma task_inv_io:
  assumes "task_inv s" "i < length (ios s)" "need_of x = need_of (ios s ! i)" "served x \<Longrightarrow> need_of x \<le> fPreLoad (fl s)"
  shows "task_inv (s\<lparr>ios := (ios s)[i := x]\<rparr>)"
proof -
  have n: "need_of ((ios s)[i := x] ! j) = need_of (ios s ! j)" if "j < length (ios s)" for j
    using assms(2,3) that by (cases "i = j") simp_all
  have "need_of io \<le> fPreLoad (fl s)" if "io \<in> set ((ios s)[i := x])" "served io" for io
    using set_update_subset_insert [of "ios s" i x] that task_invD(4) [OF assms(1)] assms(4) by auto
  then show ?thesis using task_invD [OF assms(1)] n by (simp add: task_inv_def)
qed

text \<open>The flow changes only in what is not looked at here.\<close>

lemma task_inv_flow:
  assumes "task_inv s" "flow_ok f" "fPreLoad (fl s) \<le> fPreLoad f" "set (fHoldList f) \<subseteq> set (fHoldList (fl s))"
  shows "task_inv (s\<lparr>fl := f\<rparr>)"
  using assms task_invD [OF assms(1)] by (fastforce simp: task_inv_def intro: order_trans)

lemma task_inv_task:
  assumes "task_inv s" "\<And>off r. t = TaskPublished off r \<Longrightarrow> off \<le> fPreLoad (fl s)"
  shows "task_inv (s\<lparr>task := t\<rparr>)"
  using assms by (auto simp: task_inv_def)

lemma io_ofD: "io_of i s = Some x \<Longrightarrow> i < length (ios s) \<and> ios s ! i = x"
  by (simp add: io_of_def split: if_splits)

lemma after_simps [simp]: "need_of (after k n) = n" "served (after k n) = (k = ToEnd)"
  by (cases k; simp add: after_def)+

lemma io_served:
  assumes "task_inv s" "io_of i s = Some x" "served x"
  shows "need_of x \<le> fPreLoad (fl s)"
  using task_invD(4) [OF assms(1), of x] io_ofD [OF assms(2)] assms(3) nth_mem by metis

lemma enter_inv:
  assumes "task_inv s" "io_of i s = Some (IoStart need)" "hold_enter i need (fl s) = (enough, f)"
  shows "task_inv (s\<lparr>fl := f, ios := (ios s)[i := IoSched (if enough then ToEnd else ToWait) need]\<rparr>)"
proof -
  note i = io_ofD [OF assms(2)]
  let ?f1 = "if fWriten (fl s) < need then (fl s)\<lparr>fWriten := need\<rparr> else fl s"
  have ok: "flow_ok ?f1" using task_invD(1) [OF assms(1)] by (simp add: raise_written)
  show ?thesis
  proof (cases "fPreLoad (fl s) \<ge> need")
    case True
    then have e: "enough" "f = ?f1" using assms(3) by (auto simp: hold_enter_def Let_def split: if_splits)
    have "task_inv (s\<lparr>fl := ?f1\<rparr>)" using task_inv_flow [OF assms(1) ok] by simp
    from task_inv_io [OF this, of i "IoSched ToEnd need"] show ?thesis using e i True by simp
  next
    case False
    then have e: "\<not> enough" "f = ?f1\<lparr>fHoldList := fHoldList (fl s) @ [(i, need)]\<rparr>" using assms(3) by (auto simp: hold_enter_def Let_def split: if_splits)
    have "task_inv (s\<lparr>fl := ?f1\<rparr>)" using task_inv_flow [OF assms(1) ok] by simp
    from task_inv_io [OF this, of i "IoSched ToWait need"] have t: "task_inv (s\<lparr>fl := ?f1, ios := (ios s)[i := IoSched ToWait need]\<rparr>)"
      using i by simp
    have "flow_ok f" using ok e(2) by (simp add: flow_ok_def base_def)
    then show ?thesis using task_invD [OF t] e i by (auto simp: task_inv_def split: if_splits)
  qed
qed

lemma clean_inv:
  assumes "task_inv s" "HoldClean off ret flag (fl s) = (woken, f)" "ret = BIO_OK \<Longrightarrow> off \<le> fPreLoad (fl s)" "\<And>off r. t \<noteq> TaskPublished off r"
  shows "task_inv (s\<lparr>fl := f, task := t, posted := posted s @ woken\<rparr>)"
proof -
  have c: "woken = map (\<lambda>h. (fst h, ret)) (takeWhile (\<lambda>h. snd h \<le> off) (fHoldList (fl s)))"
    "f = (fl s)\<lparr>fPreLoadFlag := flag, fHoldList := dropWhile (\<lambda>h. snd h \<le> off) (fHoldList (fl s))\<rparr>"
    using assms(2) by (auto simp: HoldClean_def wake_eq)
  have "flow_ok f" using task_invD(1) [OF assms(1)] c(2) by (simp add: flow_ok_def base_def)
  moreover have "set (fHoldList f) \<subseteq> set (fHoldList (fl s))" using c(2) by (auto dest: set_dropWhileD)
  ultimately have t: "task_inv (s\<lparr>fl := f\<rparr>)" using task_inv_flow [OF assms(1)] c(2) by simp
  have "fst q < length (ios s) \<and> (snd q = BIO_OK \<longrightarrow> need_of (ios s ! fst q) \<le> fPreLoad f)" if woken: "q \<in> set woken" for q
  proof -
    obtain h where "h \<in> set (takeWhile (\<lambda>h. snd h \<le> off) (fHoldList (fl s)))" and q: "q = (fst h, ret)" using woken c(1) by auto
    then have h: "h \<in> set (fHoldList (fl s))" "snd h \<le> off" using set_takeWhileD by (metis, metis)
    then show ?thesis using task_invD(2) [OF assms(1) h(1)] assms(3) c(2) q by auto
  qed
  then show ?thesis using t assms(4) by (auto simp: task_inv_def)
qed

lemma publish_inv:
  assumes "task_inv s" "fPreLoad (fl s) + fChunkSize (fl s) < 2 ^ 64"
  shows "task_inv (s\<lparr>fl := publish chunk (fl s), task := TaskPublished (fPreLoad (publish chunk (fl s))) r\<rparr>)"
proof -
  note p = publish_longer [OF task_invD(1) [OF assms(1)] assms(2), of chunk]
  have "task_inv (s\<lparr>fl := publish chunk (fl s)\<rparr>)"
    using task_inv_flow [OF assms(1), of "publish chunk (fl s)"] p by (simp add: longer_def publish_def)
  from task_inv_task [OF this, of "TaskPublished (fPreLoad (publish chunk (fl s))) r"] show ?thesis by simp
qed

lemma flag_inv: "task_inv s \<Longrightarrow> task_inv (s\<lparr>fl := (fl s)\<lparr>fPreLoadFlag := b\<rparr>\<rparr>)"
  by (rule task_inv_flow) (auto simp: flow_ok_def base_def dest: task_invD(1))

lemma do_step_inv:
  assumes "do_step m s = Some s'" "task_inv s"
  shows "task_inv s'"
proof (cases m)
  case (Enter i)
  then show ?thesis using assms enter_inv [OF assms(2)] by (auto split: option.splits io_at.splits prod.splits)
next
  case (Sched i)
  then obtain k need where io: "io_of i s = Some (IoSched k need)" "s' = s\<lparr>ios := (ios s)[i := if load_ready (fl s) then after k need else IoClaim k need]\<rparr>"
    using assms(1) by (auto split: option.splits io_at.splits)
  show ?thesis unfolding io(2)
    by (rule task_inv_io [OF assms(2)]) (use io_ofD [OF io(1)] io_served [OF assms(2) io(1)] in \<open>auto split: if_splits\<close>)
next
  case (Claim i)
  then obtain k need where io: "io_of i s = Some (IoClaim k need)"
    "s' = s\<lparr>fl := (fl s)\<lparr>fPreLoadFlag := True\<rparr>, ios := (ios s)[i := if \<not> fPreLoadFlag (fl s) then IoSubmit k need else after k need]\<rparr>"
    using assms(1) by (auto simp: claim_preload_def split: option.splits io_at.splits)
  have "task_inv (s\<lparr>fl := (fl s)\<lparr>fPreLoadFlag := True\<rparr>, ios := (ios (s\<lparr>fl := (fl s)\<lparr>fPreLoadFlag := True\<rparr>\<rparr>))[i := if \<not> fPreLoadFlag (fl s) then IoSubmit k need else after k need]\<rparr>)"
    by (rule task_inv_io [OF flag_inv [OF assms(2)]]) (use io_ofD [OF io(1)] io_served [OF assms(2) io(1)] in \<open>auto split: if_splits\<close>)
  then show ?thesis using io(2) by simp
next
  case (Submit i ok)
  then obtain k need where io: "io_of i s = Some (IoSubmit k need)" using assms(1) by (auto split: option.splits io_at.splits)
  have t: "task_inv (s\<lparr>fl := (fl s)\<lparr>fPreLoadFlag := b\<rparr>, ios := (ios s)[i := after k need]\<rparr>)" for b
    using task_inv_io [OF flag_inv [OF assms(2), of b], of i "after k need"] io_ofD [OF io] io_served [OF assms(2) io] by auto
  have t': "task_inv (s\<lparr>ios := (ios s)[i := after k need]\<rparr>)"
    using task_inv_io [OF assms(2), of i "after k need"] io_ofD [OF io] io_served [OF assms(2) io] by auto
  from Submit io assms(1) t t' show ?thesis using task_inv_task [OF t', of TaskAlloc] by (auto split: if_splits)
next
  case (Alloc r)
  then show ?thesis using assms task_inv_task [OF assms(2)] by (auto split: if_splits option.splits)
next
  case Publish
  then show ?thesis using assms publish_inv [OF assms(2)] by (auto simp: Let_def split: task_at.splits if_splits)
next
  case Clean
  then show ?thesis using assms clean_inv [OF assms(2)] task_invD(5) [OF assms(2)] by (auto split: task_at.splits prod.splits)
next
  case (Wake i)
  then obtain need ret where io: "io_of i s = Some (IoWait need)" "map_of (posted s) i = Some ret"
    "s' = s\<lparr>ios := (ios s)[i := if ret = BIO_OK then IoSched ToEnd need else IoEnd need ret]\<rparr>"
    using assms(1) by (auto split: option.splits io_at.splits)
  have "ret = BIO_OK \<Longrightarrow> need \<le> fPreLoad (fl s)" using task_invD(3) [OF assms(2) map_of_SomeD [OF io(2)]] io_ofD [OF io(1)] by auto
  then show ?thesis unfolding io(3) by (intro task_inv_io [OF assms(2)]) (use io_ofD [OF io(1)] in \<open>auto split: if_splits\<close>)
qed

lemma runs_inv: "runs ms s = Some s' \<Longrightarrow> task_inv s \<Longrightarrow> task_inv s'"
  by (induction ms arbitrary: s) (auto split: option.splits dest: do_step_inv)

lemma writers_inv: "quiet f \<Longrightarrow> task_inv (writers needs f)"
  by (auto simp: task_inv_def writers_def quiet_def)

text \<open>
  (C16) A writer that comes to its end with success has its bytes: in every interleaving of writers and task the chunks
  cover all that it needs, so that its addresses can be built.
\<close>

theorem woken_is_loaded:
  assumes "quiet f" "runs ms (writers needs f) = Some s" "io_of i s = Some (IoEnd need BIO_OK)"
    "offset + len \<le> need" "fTruncate (fl s) \<le> offset" "fChunkSize (fl s) < 2 ^ 32"
  shows "need \<le> fPreLoad (fl s) \<and>
     (\<exists>addrs. BuildFlowAddrs offset len (fl s) = Some (BIO_OK, addrs) \<and> expand addrs = map (byte_at (fl s)) [offset..<offset + len])"
proof -
  have inv: "task_inv s" using runs_inv [OF assms(2) writers_inv [OF assms(1)]] .
  have "need \<le> fPreLoad (fl s)" using io_served [OF inv assms(3)] by simp
  then show ?thesis using built_addrs [OF task_invD(1) [OF inv] assms(6,5)] assms(4) by simp
qed

section \<open>A writer that is left alone\<close>

fun at_start :: "io_at \<Rightarrow> bool" where
  "at_start (IoStart n) \<longleftrightarrow> True"
| "at_start _ \<longleftrightarrow> False"

fun at_submit :: "io_at \<Rightarrow> bool" where
  "at_submit (IoSubmit k n) \<longleftrightarrow> True"
| "at_submit _ \<longleftrightarrow> False"

text \<open>
  Who has not come yet is not in the lists; the task knows how far the flow is loaded; the flag is set while a task runs or is about to be
  given to the thread pool, which only one writer does.
\<close>

definition turn_inv :: "psys \<Rightarrow> bool" where
  "turn_inv s \<longleftrightarrow>
     (\<forall>i<length (ios s). at_start (ios s ! i) \<longrightarrow> i \<notin> fst ` set (fHoldList (fl s)) \<and> i \<notin> fst ` set (posted s)) \<and>
     (\<forall>off r. task s = TaskPublished off r \<longrightarrow> off = fPreLoad (fl s)) \<and>
     (\<forall>i<length (ios s). at_submit (ios s ! i) \<longrightarrow> fPreLoadFlag (fl s) \<and> task s = TaskNone \<and> (\<forall>j<length (ios s). at_submit (ios s ! j) \<longrightarrow> j = i)) \<and>
     (task s \<noteq> TaskNone \<longrightarrow> fPreLoadFlag (fl s))"

lemma after_at [simp]: "\<not> at_start (after k n)" "\<not> at_submit (after k n)"
  by (cases k; simp add: after_def)+

lemma clean_keys:
  assumes "HoldClean off ret flag f = (woken, f')"
  shows "fst ` set woken \<subseteq> fst ` set (fHoldList f)" "fst ` set (fHoldList f') \<subseteq> fst ` set (fHoldList f)"
    "fPreLoadFlag f' = flag" "fPreLoad f' = fPreLoad f"
proof -
  let ?P = "\<lambda>h. snd h \<le> off"
  have c: "woken = map (\<lambda>h. (fst h, ret)) (takeWhile ?P (fHoldList f))" "f' = f\<lparr>fPreLoadFlag := flag, fHoldList := dropWhile ?P (fHoldList f)\<rparr>"
    using assms by (auto simp: HoldClean_def wake_eq)
  have s: "set (takeWhile ?P (fHoldList f)) \<subseteq> set (fHoldList f)" "set (dropWhile ?P (fHoldList f)) \<subseteq> set (fHoldList f)"
    by (auto dest: set_takeWhileD set_dropWhileD)
  show "fst ` set woken \<subseteq> fst ` set (fHoldList f)" using image_mono [OF s(1), of fst] c(1) by (simp add: image_image)
  show "fst ` set (fHoldList f') \<subseteq> fst ` set (fHoldList f)" using image_mono [OF s(2), of fst] c(2) by simp
  show "fPreLoadFlag f' = flag" "fPreLoad f' = fPreLoad f" using c(2) by simp_all
qed

text \<open>A writer moves on, past its start and not to the thread pool.\<close>

lemma turn_inv_io:
  assumes "turn_inv s" "\<not> at_start x" "\<not> at_submit x"
  shows "turn_inv (s\<lparr>ios := (ios s)[i := x]\<rparr>)"
proof -
  have "at_start ((ios s)[i := x] ! j) \<longrightarrow> at_start (ios s ! j)" "at_submit ((ios s)[i := x] ! j) \<longrightarrow> at_submit (ios s ! j)" if "j < length (ios s)" for j
    using assms(2,3) that by (cases "i = j"; simp)+
  then show ?thesis using assms(1) unfolding turn_inv_def by simp
qed

text \<open>The writer that has claimed the flag is the only one that goes to the thread pool.\<close>

lemma turn_inv_claim:
  assumes "turn_inv s" "\<not> fPreLoadFlag (fl s)" "i < length (ios s)"
  shows "turn_inv (s\<lparr>fl := (fl s)\<lparr>fPreLoadFlag := True\<rparr>, ios := (ios s)[i := IoSubmit k need]\<rparr>)"
  using assms by (auto simp: turn_inv_def nth_list_update split: if_splits)

lemma turn_inv_flag: "turn_inv s \<Longrightarrow> turn_inv (s\<lparr>fl := (fl s)\<lparr>fPreLoadFlag := True\<rparr>\<rparr>)"
  by (auto simp: turn_inv_def)

text \<open>The writer has been at the thread pool, which has taken the task or not.\<close>

lemma turn_inv_submit:
  assumes "turn_inv s" "i < length (ios s)" "at_submit (ios s ! i)" "fPreLoadFlag f = b" "fHoldList f = fHoldList (fl s)"
    "t = TaskNone \<or> t = TaskAlloc \<and> b"
  shows "turn_inv (s\<lparr>fl := f, ios := (ios s)[i := after k need], task := t\<rparr>)"
proof -
  have "j = i" if "j < length (ios s)" "at_submit (ios s ! j)" for j using assms(1-3) that by (auto simp: turn_inv_def)
  then show ?thesis using assms by (auto simp: turn_inv_def nth_list_update split: if_splits)
qed

lemma turn_inv_enter:
  assumes "turn_inv s" "i < length (ios s)" "\<not> at_start x" "\<not> at_submit x" "fst ` set (fHoldList f) \<subseteq> insert i (fst ` set (fHoldList (fl s)))"
    "fPreLoad f = fPreLoad (fl s)" "fPreLoadFlag f = fPreLoadFlag (fl s)"
  shows "turn_inv (s\<lparr>fl := f, ios := (ios s)[i := x]\<rparr>)"
proof -
  have "j \<notin> fst ` set (fHoldList f)" if "j \<noteq> i" "j < length (ios s)" "at_start (ios s ! j)" for j
    using assms(1,5) that by (auto simp: turn_inv_def)
  then show ?thesis using assms by (auto simp: turn_inv_def nth_list_update split: if_splits)
qed

lemma turn_inv_clean:
  assumes "turn_inv s" "HoldClean off ret flag (fl s) = (woken, f)" "t = TaskNone \<or> t = TaskAlloc \<and> flag" "task s \<noteq> TaskNone"
  shows "turn_inv (s\<lparr>fl := f, task := t, posted := posted s @ woken\<rparr>)"
proof -
  note k = clean_keys [OF assms(2)]
  have "j \<notin> fst ` set (fHoldList f) \<and> j \<notin> fst ` set (posted s @ woken)" if "j < length (ios s)" "at_start (ios s ! j)" for j
  proof -
    have "j \<notin> fst ` set (fHoldList (fl s))" "j \<notin> fst ` set (posted s)" using assms(1) that unfolding turn_inv_def by blast+
    then show ?thesis using k(1,2) unfolding set_append image_Un by blast
  qed
  moreover have "\<not> at_submit (ios s ! j)" if "j < length (ios s)" for j using assms(1,4) that by (auto simp: turn_inv_def)
  ultimately show ?thesis using assms(3) k(3) by (auto simp: turn_inv_def)
qed

text \<open>The task moves on and may load a chunk.\<close>

lemma turn_inv_task:
  assumes "turn_inv s" "task s \<noteq> TaskNone" "\<And>off r. t = TaskPublished off r \<Longrightarrow> off = fPreLoad f" "fHoldList f = fHoldList (fl s)"
    "fPreLoadFlag f = fPreLoadFlag (fl s)"
  shows "turn_inv (s\<lparr>fl := f, task := t\<rparr>)"
  using assms unfolding turn_inv_def by simp

lemma do_step_turn:
  assumes "do_step m s = Some s'" "turn_inv s"
  shows "turn_inv s'"
proof (cases m)
  case (Enter i)
  then obtain need where io: "io_of i s = Some (IoStart need)" using assms(1) by (auto split: option.splits io_at.splits)
  obtain enough f where e: "hold_enter i need (fl s) = (enough, f)" by fastforce
  then have f: "fst ` set (fHoldList f) \<subseteq> insert i (fst ` set (fHoldList (fl s)))" "fPreLoad f = fPreLoad (fl s)" "fPreLoadFlag f = fPreLoadFlag (fl s)"
    by (auto simp: hold_enter_def Let_def split: if_splits)
  have "s' = s\<lparr>fl := f, ios := (ios s)[i := IoSched (if enough then ToEnd else ToWait) need]\<rparr>" using Enter assms(1) io e by simp
  then show ?thesis using turn_inv_enter [OF assms(2) _ _ _ f] io_ofD [OF io] by simp
next
  case (Sched i)
  then obtain k need where "s' = s\<lparr>ios := (ios s)[i := if load_ready (fl s) then after k need else IoClaim k need]\<rparr>"
    using assms(1) by (auto split: option.splits io_at.splits)
  then show ?thesis using turn_inv_io [OF assms(2)] by simp
next
  case (Claim i)
  then obtain k need where io: "io_of i s = Some (IoClaim k need)"
    "s' = s\<lparr>fl := (fl s)\<lparr>fPreLoadFlag := True\<rparr>, ios := (ios s)[i := if \<not> fPreLoadFlag (fl s) then IoSubmit k need else after k need]\<rparr>"
    using assms(1) by (auto simp: claim_preload_def split: option.splits io_at.splits)
  then show ?thesis using turn_inv_claim [OF assms(2)] turn_inv_io [OF turn_inv_flag [OF assms(2)], of "after k need" i] io_ofD [OF io(1)] by simp
next
  case (Submit i addOk)
  then obtain k need where io: "io_of i s = Some (IoSubmit k need)" using assms(1) by (auto split: option.splits io_at.splits)
  then have a: "i < length (ios s)" "at_submit (ios s ! i)" using io_ofD by fastforce+
  then have n: "fPreLoadFlag (fl s)" "task s = TaskNone" using assms(2) by (auto simp: turn_inv_def)
  have "s\<lparr>fl := f, ios := xs, task := TaskNone\<rparr> = s\<lparr>fl := f, ios := xs\<rparr>" for f xs using n(2) by (cases s) simp
  then show ?thesis using Submit assms(1) io n(1) turn_inv_submit [OF assms(2) a, of "fl s" True TaskAlloc k need]
      turn_inv_submit [OF assms(2) a, of "(fl s)\<lparr>fPreLoadFlag := False\<rparr>" False TaskNone k need] by (auto split: if_splits)
next
  case (Alloc result)
  then show ?thesis using assms turn_inv_task [OF assms(2), of _ "fl s"] by (auto split: if_splits option.splits)
next
  case Publish
  then obtain chunk r where p: "task s = TaskGot chunk" "s' = s\<lparr>fl := publish chunk (fl s), task := TaskPublished (fPreLoad (publish chunk (fl s))) r\<rparr>"
    using assms(1) by (cases "task s") (auto simp: Let_def split: if_splits)
  show ?thesis unfolding p(2) by (rule turn_inv_task [OF assms(2)]) (simp_all add: p(1) publish_def)
next
  case Clean
  show ?thesis
  proof (cases "task s")
    case TaskFailed
    obtain woken f where h: "HoldClean NO_MAX_VALUE64 BIO_INNER_RETRY False (fl s) = (woken, f)" by fastforce
    then show ?thesis using Clean TaskFailed assms(1) turn_inv_clean [OF assms(2) h, of TaskNone] by auto
  next
    case (TaskPublished off isReady)
    obtain woken f where h: "HoldClean off BIO_OK (\<not> isReady) (fl s) = (woken, f)" by fastforce
    then show ?thesis using Clean TaskPublished assms(1) turn_inv_clean [OF assms(2) h, of "if isReady then TaskNone else TaskAlloc"]
      by (auto split: if_splits)
  qed (use Clean assms(1) in simp_all)
next
  case (Wake i)
  then obtain need ret where "s' = s\<lparr>ios := (ios s)[i := if ret = BIO_OK then IoSched ToEnd need else IoEnd need ret]\<rparr>"
    using assms(1) by (auto split: option.splits io_at.splits)
  then show ?thesis using turn_inv_io [OF assms(2)] by simp
qed

lemma runs_turn: "runs ms s = Some s' \<Longrightarrow> turn_inv s \<Longrightarrow> turn_inv s'"
  by (induction ms arbitrary: s) (auto split: option.splits dest: do_step_turn)

lemma runs_append: "runs (xs @ ys) s = (case runs xs s of None \<Rightarrow> None | Some s' \<Rightarrow> runs ys s')"
  by (induction xs arbitrary: s) (auto split: option.splits)

lemma writers_turn: "quiet f \<Longrightarrow> turn_inv (writers needs f)"
  by (auto simp: turn_inv_def writers_def quiet_def)

text \<open>What the four steps do: the writer comes, finds the flag and waits, and the task ends.\<close>

lemma lost_steps:
  assumes "turn_inv s" "task s = TaskPublished off True" "io_of i s = Some (IoStart need)" "fPreLoad (fl s) < need"
    "max (fWriten (fl s)) need + fPreLoadSize (fl s) < 2 ^ 64"
  shows "\<exists>f woken. runs [Enter i, Sched i, Claim i, Clean] s =
       Some (s\<lparr>fl := f, ios := (ios s)[i := IoWait need], task := TaskNone, posted := posted s @ woken\<rparr>) \<and>
     fPreLoad f = fPreLoad (fl s) \<and> i \<notin> fst ` set (posted s @ woken)"
proof -
  let ?f = "(fl s)\<lparr>fWriten := max (fWriten (fl s)) need, fHoldList := fHoldList (fl s) @ [(i, need)]\<rparr>"
  have i: "i < length (ios s)" "ios s ! i = IoStart need" using io_ofD [OF assms(3)] by auto
  have inv: "off = fPreLoad (fl s)" "fPreLoadFlag (fl s)" "i \<notin> fst ` set (fHoldList (fl s))" "i \<notin> fst ` set (posted s)"
    using assms(1,2) i by (auto simp: turn_inv_def)
  have e: "hold_enter i need (fl s) = (False, ?f)" using assms(4) by (simp add: hold_enter_def Let_def max_def)
  have nr: "\<not> load_ready ?f" using assms(4,5) by (simp add: load_ready_def add64_exact)
  have c: "claim_preload ?f = (False, ?f)" using inv(2) by (simp add: claim_preload_def)
  obtain woken f where h: "HoldClean off BIO_OK False ?f = (woken, f)" by fastforce
  have w: "i \<notin> fst ` set woken"
  proof -
    have "woken = map (\<lambda>h. (fst h, BIO_OK)) (takeWhile (\<lambda>h. snd h \<le> off) (fHoldList (fl s) @ [(i, need)]))"
      using h by (auto simp: HoldClean_def wake_eq)
    moreover have "takeWhile (\<lambda>h. snd h \<le> off) (fHoldList (fl s) @ [(i, need)]) = takeWhile (\<lambda>h. snd h \<le> off) (fHoldList (fl s))"
      using inv(1) assms(4) by (simp add: takeWhile_tail)
    ultimately have "fst ` set woken = fst ` set (takeWhile (\<lambda>h. snd h \<le> off) (fHoldList (fl s)))" by (simp add: image_image)
    moreover have "set (takeWhile (\<lambda>h. snd h \<le> off) (fHoldList (fl s))) \<subseteq> set (fHoldList (fl s))" by (auto dest: set_takeWhileD)
    ultimately show ?thesis using inv(3) by blast
  qed
  have "fPreLoad f = fPreLoad (fl s)" using clean_keys(4) [OF h] by simp
  moreover have "runs [Enter i, Sched i, Claim i, Clean] s =
       Some (s\<lparr>fl := f, ios := (ios s)[i := IoWait need], task := TaskNone, posted := posted s @ woken\<rparr>)"
    using assms(2) i e nr c h by (simp add: io_of_def after_def)
  ultimately show ?thesis using inv(4) w by (intro exI [of _ f] exI [of _ woken]) (simp add: image_Un)
qed

text \<open>
  (C40) A writer can be left waiting although all allocations succeed: whenever, in any run, the task has found that enough is loaded and has not
  yet cleared the flag, and a writer that needs more than is loaded comes and goes to wait before the flag is cleared, the task ends and the writer
  waits for bytes that no task will load and is not woken. If all other writers have come to their end, no step is
  possible any more; only a new writer can start another task.
\<close>

theorem preload_lost_wakeup:
  assumes "quiet f" "runs ms (writers needs f) = Some s" "task s = TaskPublished off True" "io_of i s = Some (IoStart need)"
    "fPreLoad (fl s) < need" "max (fWriten (fl s)) need + fPreLoadSize (fl s) < 2 ^ 64"
  shows "\<exists>s'. runs (ms @ [Enter i, Sched i, Claim i, Clean]) (writers needs f) = Some s' \<and>
     io_of i s' = Some (IoWait need) \<and> task s' = TaskNone \<and> fPreLoad (fl s') < need \<and> map_of (posted s') i = None \<and>
     ((\<forall>j<length (ios s). j \<noteq> i \<longrightarrow> (\<exists>n r. ios s ! j = IoEnd n r)) \<longrightarrow> (\<forall>m. do_step m s' = None))"
proof -
  have "turn_inv s" using runs_turn [OF assms(2) writers_turn [OF assms(1)]] .
  from lost_steps [OF this assms(3-6)] obtain f' woken where
    r: "runs [Enter i, Sched i, Claim i, Clean] s =
       Some (s\<lparr>fl := f', ios := (ios s)[i := IoWait need], task := TaskNone, posted := posted s @ woken\<rparr>)" (is "_ = Some ?s")
      "fPreLoad f' = fPreLoad (fl s)" "i \<notin> fst ` set (posted s @ woken)" by blast
  have i: "i < length (ios s)" using io_ofD [OF assms(4)] by simp
  have p: "map_of (posted ?s) i = None" using r(3) by (simp add: map_of_eq_None_iff image_Un)
  have "do_step m ?s = None" if ended: "\<forall>j<length (ios s). j \<noteq> i \<longrightarrow> (\<exists>n r. ios s ! j = IoEnd n r)" for m
  proof -
    have io: "io_of j ?s = None \<or> (j = i \<and> io_of j ?s = Some (IoWait need)) \<or> (\<exists>n r. io_of j ?s = Some (IoEnd n r))" for j
      using ended i by (auto simp: io_of_def nth_list_update)
    show ?thesis
    proof (cases m)
      case (Enter j)
      then show ?thesis using io [of j] by auto
    next
      case (Sched j)
      then show ?thesis using io [of j] by auto
    next
      case (Claim j)
      then show ?thesis using io [of j] by auto
    next
      case (Submit j addOk)
      then show ?thesis using io [of j] by auto
    next
      case (Wake j)
      then show ?thesis using io [of j] p by (auto split: option.splits simp del: map_of_append)
    qed simp_all
  qed
  then show ?thesis using r(1,2) p i assms(2,5) by (intro exI [of _ ?s]) (simp add: runs_append io_of_def)
qed

text \<open>A flow with chunks of 8 bytes that loads two of them ahead, and two writers that need 8 and 32 bytes.\<close>

definition lost_run :: "move list" where
  "lost_run = [Enter 0, Sched 0, Claim 0, Submit 0 True, Alloc (Some 100), Publish, Clean, Wake 0, Sched 0, Claim 0,
     Alloc (Some 101), Publish, Clean, Alloc (Some 102), Publish]"

definition lost_state :: psys where
  "lost_state = \<lparr>fl = (new_flow FLOW_DATA FLOW_DISK 1 0 8 16)\<lparr>fChunkList := [100, 101, 102], fWriten := 8, fPreLoad := 24, fPreLoadFlag := True\<rparr>,
     ios = [IoEnd 8 BIO_OK, IoStart 32], task = TaskPublished 24 True, posted = [(0, BIO_OK)]\<rparr>"

lemma lost_reached: "runs lost_run (writers [8, 32] (new_flow FLOW_DATA FLOW_DISK 1 0 8 16)) = Some lost_state"
  by (simp add: lost_run_def lost_state_def writers_def new_flow_def io_of_def hold_enter_def claim_preload_def publish_def HoldClean_def
      load_ready_def after_def add64_def)

theorem preload_lost_wakeup_witness:
  "\<exists>s'. runs (lost_run @ [Enter 1, Sched 1, Claim 1, Clean]) (writers [8, 32] (new_flow FLOW_DATA FLOW_DISK 1 0 8 16)) = Some s' \<and>
     io_of 1 s' = Some (IoWait 32) \<and> (\<forall>m. do_step m s' = None)"
proof -
  have s: "task lost_state = TaskPublished 24 True" "io_of 1 lost_state = Some (IoStart 32)" "fPreLoad (fl lost_state) < 32"
    "max (fWriten (fl lost_state)) 32 + fPreLoadSize (fl lost_state) < 2 ^ 64"
    by (simp_all add: lost_state_def io_of_def new_flow_def)
  have "\<forall>j<length (ios lost_state). j \<noteq> 1 \<longrightarrow> (\<exists>n r. ios lost_state ! j = IoEnd n r)" by (auto simp: lost_state_def less_Suc_eq)
  then show ?thesis using preload_lost_wakeup [OF new_quiet lost_reached s] by auto
qed

section \<open>An example of a writer that is served\<close>

theorem woken_is_loaded_witness:
  "8 \<le> fPreLoad (fl lost_state) \<and> (\<exists>addrs. BuildFlowAddrs 2 6 (fl lost_state) = Some (BIO_OK, addrs))"
proof -
  have r: "runs lost_run (writers [8, 32] (new_flow FLOW_DATA FLOW_DISK 1 0 8 16)) = Some lost_state" by (rule lost_reached)
  have i: "io_of 0 lost_state = Some (IoEnd 8 BIO_OK)" by (simp add: io_of_def lost_state_def)
  from woken_is_loaded [OF new_quiet r i, of 2 6] show ?thesis by (auto simp: lost_state_def new_flow_def)
qed

end
