(* ===== verification/Slice.thy ===== *)
theory Slice
  imports FlowProps BdmDiskProps
begin

text \<open>
  Slices, \<^verbatim>\<open>flow/slice.cpp\<close>: a range of bytes as a list of addresses in chunks, with splitting and the form in
  which it is sent. The checksum of the data and the counted references of \<^verbatim>\<open>slice.h\<close> are not modelled.
\<close>

text \<open>The type of the flow is kept as its number, as any number can be received.\<close>

record slice =
  sCrc :: nat
  sType :: nat
  sLength :: nat
  sAddrs :: "flow_addr list"

definition IsTheSameWith :: "slice \<Rightarrow> slice \<Rightarrow> bool" where
  "IsTheSameWith s other =
     (if sType other \<noteq> sType s then False
      else if sLength other \<noteq> sLength s then False
      else if length (sAddrs other) \<noteq> length (sAddrs s) then False
      else list_all (\<lambda>(a, b). aChunk a = aChunk b \<and> aOffset a = aOffset b \<and> aLen a = aLen b) (zip (sAddrs other) (sAddrs s)))"

section \<open>Splitting\<close>

fun split_loop :: "nat \<Rightarrow> nat \<Rightarrow> nat \<Rightarrow> nat \<Rightarrow> flow_addr list \<Rightarrow> flow_addr list" where
  "split_loop offset len rangeStart splitStart [] = []"
| "split_loop offset len rangeStart splitStart (a # as) =
     (let rangeEnd = rangeStart + aLen a in
      if splitStart \<ge> rangeStart \<and> splitStart < rangeEnd
      then let splitOffset = splitStart - rangeStart; splitLen = rangeEnd - splitStart; rest = len - (splitStart - offset) in
        if splitLen \<ge> rest
        then [\<lparr>aChunk = aChunk a, aOffset = (aOffset a + splitOffset) mod 2 ^ 32, aLen = rest mod 2 ^ 32\<rparr>]
        else \<lparr>aChunk = aChunk a, aOffset = (aOffset a + splitOffset) mod 2 ^ 32, aLen = splitLen mod 2 ^ 32\<rparr>
               # split_loop offset len rangeEnd (splitStart + splitLen) as
      else split_loop offset len rangeEnd splitStart as)"

definition Split :: "nat \<Rightarrow> nat \<Rightarrow> slice \<Rightarrow> slice option" where
  "Split offset len s =
     (if offset \<ge> sLength s \<or> len > sLength s \<or> add64 offset len > sLength s then None
      else if offset = 0 \<and> len = sLength s then Some s
      else Some \<lparr>sCrc = 0, sType = sType s, sLength = len, sAddrs = split_loop offset len 0 offset (sAddrs s)\<rparr>)"

section \<open>The form that is sent\<close>

definition addr_bytes :: "flow_addr \<Rightarrow> byte list" where
  "addr_bytes a = le_bytes 8 (aChunk a) @ le_bytes 4 (aOffset a) @ le_bytes 4 (aLen a)"

definition bytes_addr :: "byte list \<Rightarrow> flow_addr" where
  "bytes_addr bs = \<lparr>aChunk = le_val (take 8 bs), aOffset = le_val (take 4 (drop 8 bs)), aLen = le_val (take 4 (drop 12 bs))\<rparr>"

definition slice_fields :: "slice \<Rightarrow> byte list list" where
  "slice_fields s = [le_bytes 4 (sCrc s), le_bytes 2 (sType s), le_bytes 8 (sLength s), le_bytes 8 (length (sAddrs s))] @ map addr_bytes (sAddrs s)"

definition GetSerializeLen :: "slice \<Rightarrow> nat" where
  "GetSerializeLen s = 4 + 2 + 8 + 8 + 16 * length (sAddrs s)"

text \<open>
  \<open>memcpy_s\<close> fails when the rest of the memory is too short, and when it is larger than the library's limit \<open>memMax\<close>
  (\<open>SECUREC_MEM_MAX_LEN\<close>); the result is what has been written.
\<close>

fun copy_fields :: "nat \<Rightarrow> nat \<Rightarrow> byte list list \<Rightarrow> int \<times> byte list" where
  "copy_fields memMax cpyLen [] = (BIO_OK, [])"
| "copy_fields memMax cpyLen (b # bs) =
     (if length b > cpyLen \<or> cpyLen > memMax then (BIO_INNER_ERR, [])
      else case copy_fields memMax (cpyLen - length b) bs of (ret, out) \<Rightarrow> (ret, b @ out))"

definition Serialize :: "nat \<Rightarrow> nat \<Rightarrow> slice \<Rightarrow> int \<times> byte list" where
  "Serialize memMax dataLen s = copy_fields memMax dataLen (slice_fields s)"

fun read_addrs :: "nat \<Rightarrow> byte list \<Rightarrow> nat \<Rightarrow> slice \<Rightarrow> int \<times> slice" where
  "read_addrs 0 data len s = (BIO_OK, s)"
| "read_addrs (Suc n) data len s =
     (if len < 16 then (BIO_INVALID_PARAM, s)
      else read_addrs n (drop 16 data) (len - 16) (s\<lparr>sAddrs := sAddrs s @ [bytes_addr (take 16 data)]\<rparr>))"

text \<open>More than four addresses are refused; the addresses are added to those that the slice has.\<close>

definition Deserialize :: "byte list \<Rightarrow> nat \<Rightarrow> slice \<Rightarrow> int \<times> slice" where
  "Deserialize data len s =
     (if len < 4 then (BIO_INVALID_PARAM, s)
      else let s1 = s\<lparr>sCrc := field 0 4 data\<rparr> in
        if len < 6 then (BIO_INVALID_PARAM, s1)
        else let s2 = s1\<lparr>sType := field 4 2 data\<rparr> in
          if len < 14 then (BIO_INVALID_PARAM, s2)
          else let s3 = s2\<lparr>sLength := field 6 8 data\<rparr> in
            if len < 22 then (BIO_INVALID_PARAM, s3)
            else let vsize = field 14 8 data in
              if vsize > 4 then (BIO_INVALID_PARAM, s3) else read_addrs vsize (drop 22 data) (len - 22) s3)"

section \<open>Properties\<close>

lemma expand_Cons: "expand (a # as) = map (\<lambda>i. (aChunk a, aOffset a + i)) [0..<aLen a] @ expand as"
  by (simp add: expand_def)

lemma length_expand: "length (expand as) = sum_list (map aLen as)"
  by (induction as) (simp_all add: expand_def)

definition addrs_fit :: "flow_addr list \<Rightarrow> bool" where
  "addrs_fit as \<longleftrightarrow> (\<forall>a\<in>set as. aOffset a + aLen a < 2 ^ 32)"

lemma piece:
  "n + k \<le> aLen a \<Longrightarrow> map (\<lambda>i. (aChunk a, aOffset a + k + i)) [0..<n] = take n (drop k (map (\<lambda>i. (aChunk a, aOffset a + i)) [0..<aLen a]))"
  by (intro nth_equalityI) (simp_all add: add.assoc)

lemma split_loop_ok:
  assumes "addrs_fit as" "rangeStart \<le> splitStart" "offset \<le> splitStart" "splitStart - offset \<le> len"
    "splitStart - rangeStart + (len - (splitStart - offset)) \<le> length (expand as)"
  shows "expand (split_loop offset len rangeStart splitStart as) = take (len - (splitStart - offset)) (drop (splitStart - rangeStart) (expand as))"
  using assms
proof (induction as arbitrary: rangeStart splitStart)
  case Nil
  then show ?case by (simp add: expand_def)
next
  case (Cons a as)
  let ?k = "splitStart - rangeStart" and ?rest = "len - (splitStart - offset)" and ?seg = "map (\<lambda>i. (aChunk a, aOffset a + i)) [0..<aLen a]"
  have fit: "aOffset a + aLen a < 2 ^ 32" "addrs_fit as" using Cons.prems(1) by (simp_all add: addrs_fit_def)
  have e: "expand (a # as) = ?seg @ expand as" by (rule expand_Cons)
  consider (skip) "aLen a \<le> ?k" | (last) "?k < aLen a" "?rest \<le> aLen a - ?k" | (more) "?k < aLen a" "aLen a - ?k < ?rest" by linarith
  then show ?case
  proof cases
    case skip
    then have le: "rangeStart + aLen a \<le> splitStart" using Cons.prems(2) by simp
    have "split_loop offset len rangeStart splitStart (a # as) = split_loop offset len (rangeStart + aLen a) splitStart as"
      using le by (simp add: Let_def)
    then show ?thesis using le skip Cons.IH [OF fit(2), of "rangeStart + aLen a" splitStart] Cons.prems e by simp
  next
    case last
    have lt: "splitStart < rangeStart + aLen a" "rangeStart + aLen a - splitStart = aLen a - ?k" using last(1) Cons.prems(2) by simp_all
    have "(aOffset a + ?k) mod 2 ^ 32 = aOffset a + ?k" "?rest mod 2 ^ 32 = ?rest" using fit(1) last by simp_all
    then have "split_loop offset len rangeStart splitStart (a # as) = [\<lparr>aChunk = aChunk a, aOffset = aOffset a + ?k, aLen = ?rest\<rparr>]"
      using last Cons.prems(2) lt by (simp add: Let_def)
    then show ?thesis using piece [of ?rest ?k a] last e by (simp add: expand_def)
  next
    case more
    have lt: "splitStart < rangeStart + aLen a" "rangeStart + aLen a - splitStart = aLen a - ?k" "splitStart + (aLen a - ?k) = rangeStart + aLen a"
      using more(1) Cons.prems(2) by simp_all
    have m: "(aOffset a + ?k) mod 2 ^ 32 = aOffset a + ?k" "(aLen a - ?k) mod 2 ^ 32 = aLen a - ?k" using fit(1) more by simp_all
    have c: "(rangeStart \<le> splitStart \<and> splitStart < rangeStart + aLen a) = True" "(?rest \<le> aLen a - ?k) = False"
      using Cons.prems(2) lt(1) more(2) by simp_all
    have s: "split_loop offset len rangeStart splitStart (a # as) =
        \<lparr>aChunk = aChunk a, aOffset = aOffset a + ?k, aLen = aLen a - ?k\<rparr> # split_loop offset len (rangeStart + aLen a) (rangeStart + aLen a) as"
      by (simp only: split_loop.simps Let_def lt(2,3) c m if_True if_False)
    have "expand (split_loop offset len (rangeStart + aLen a) (rangeStart + aLen a) as) = take (?rest - (aLen a - ?k)) (expand as)"
      using Cons.IH [OF fit(2), of "rangeStart + aLen a" "rangeStart + aLen a"] Cons.prems more e by (simp add: algebra_simps)
    then show ?thesis unfolding s expand_Cons using piece [of "aLen a - ?k" ?k a] more by simp
  qed
qed

text \<open>
  (C28) A part of a slice: \<open>Split\<close> gives a slice whose bytes are the wanted ones of the slice, in this order, exactly when the
  part lies inside the slice.
\<close>

theorem slice_split:
  assumes "addrs_fit (sAddrs s)" "length (expand (sAddrs s)) = sLength s" "sLength s < 2 ^ 63"
  shows "(Split offset len s = None \<longleftrightarrow> \<not> (offset < sLength s \<and> offset + len \<le> sLength s)) \<and>
     (\<forall>part. Split offset len s = Some part \<longrightarrow>
        sLength part = len \<and> sType part = sType s \<and> expand (sAddrs part) = take len (drop offset (expand (sAddrs s))))"
proof (cases "offset < sLength s \<and> len \<le> sLength s")
  case True
  then have a: "add64 offset len = offset + len" using assms(3) by (simp add: add64_exact)
  have "expand (split_loop offset len 0 offset (sAddrs s)) = take len (drop offset (expand (sAddrs s)))" if "offset + len \<le> sLength s"
    using split_loop_ok [OF assms(1), of 0 offset offset len] that assms(2) by simp
  then show ?thesis using True a assms(2) by (auto simp: Split_def)
qed (auto simp: Split_def)

definition two_parts :: slice where
  "two_parts = \<lparr>sCrc = 0, sType = 1, sLength = 6, sAddrs = [\<lparr>aChunk = 100, aOffset = 4, aLen = 4\<rparr>, \<lparr>aChunk = 101, aOffset = 0, aLen = 2\<rparr>]\<rparr>"

theorem slice_split_witness: "\<exists>part. Split 3 2 two_parts = Some part \<and> expand (sAddrs part) = [(100, 7), (101, 0)]"
proof -
  have e: "expand (sAddrs two_parts) = [(100, 4), (100, 5), (100, 6), (100, 7), (101, 0), (101, 1)]" by code_simp
  have "addrs_fit (sAddrs two_parts)" "length (expand (sAddrs two_parts)) = sLength two_parts" "sLength two_parts < 2 ^ 63"
    unfolding e by (simp_all add: addrs_fit_def two_parts_def)
  from slice_split [OF this, of 3 2] show ?thesis unfolding e by (cases "Split 3 2 two_parts") (simp_all add: two_parts_def)
qed

definition wf_slice :: "slice \<Rightarrow> bool" where
  "wf_slice s \<longleftrightarrow> sCrc s < 2 ^ 32 \<and> sType s < 2 ^ 16 \<and> sLength s < 2 ^ 64 \<and> length (sAddrs s) < 2 ^ 64 \<and>
     (\<forall>a\<in>set (sAddrs s). aChunk a < 2 ^ 64 \<and> aOffset a < 2 ^ 32 \<and> aLen a < 2 ^ 32)"

lemma copy_fields_eq:
  "fst (copy_fields memMax n bs) = BIO_OK \<longleftrightarrow> length (concat bs) \<le> n \<and> (bs = [] \<or> n \<le> memMax)"
  "fst (copy_fields memMax n bs) = BIO_OK \<Longrightarrow> snd (copy_fields memMax n bs) = concat bs"
  by (induction memMax n bs rule: copy_fields.induct) (auto split: prod.splits)

lemma length_addr_bytes [simp]: "length (addr_bytes a) = 16"
  by (simp add: addr_bytes_def)

lemma bytes_addr_bytes:
  assumes "aChunk a < 2 ^ 64" "aOffset a < 2 ^ 32" "aLen a < 2 ^ 32"
  shows "bytes_addr (addr_bytes a) = a"
  using assms by (simp add: bytes_addr_def addr_bytes_def le_val_bytes)

lemma length_fields: "length (concat (slice_fields s)) = GetSerializeLen s"
  by (simp add: slice_fields_def GetSerializeLen_def length_concat comp_def sum_list_triv)

lemma read_addrs_ok:
  assumes "\<forall>a\<in>set as. aChunk a < 2 ^ 64 \<and> aOffset a < 2 ^ 32 \<and> aLen a < 2 ^ 32"
  shows "read_addrs (length as) (concat (map addr_bytes as)) (16 * length as) s = (BIO_OK, s\<lparr>sAddrs := sAddrs s @ as\<rparr>)"
  using assms
proof (induction as arbitrary: s)
  case (Cons a as)
  then show ?case using Cons.IH [of "s\<lparr>sAddrs := sAddrs s @ [a]\<rparr>"] by (simp add: bytes_addr_bytes)
qed simp

lemma slice_concat:
  "concat (slice_fields s) = le_bytes 4 (sCrc s) @ le_bytes 2 (sType s) @ le_bytes 8 (sLength s) @ le_bytes 8 (length (sAddrs s)) @
     concat (map addr_bytes (sAddrs s))"
  by (simp add: slice_fields_def)

lemma read_fields:
  assumes "wf_slice s"
  shows "field 0 4 (concat (slice_fields s)) = sCrc s" "field 4 2 (concat (slice_fields s)) = sType s"
    "field 6 8 (concat (slice_fields s)) = sLength s" "field 14 8 (concat (slice_fields s)) = length (sAddrs s)"
    "drop 22 (concat (slice_fields s)) = concat (map addr_bytes (sAddrs s))"
  using assms unfolding slice_concat wf_slice_def by (simp_all add: field_first field_skip le_val_bytes)

lemma deserialize_fields:
  assumes "wf_slice s"
  shows "Deserialize (concat (slice_fields s)) (GetSerializeLen s) t =
      (if length (sAddrs s) \<le> 4 then (BIO_OK, t\<lparr>sCrc := sCrc s, sType := sType s, sLength := sLength s, sAddrs := sAddrs t @ sAddrs s\<rparr>)
       else (BIO_INVALID_PARAM, t\<lparr>sCrc := sCrc s, sType := sType s, sLength := sLength s\<rparr>))"
proof -
  have "\<forall>a\<in>set (sAddrs s). aChunk a < 2 ^ 64 \<and> aOffset a < 2 ^ 32 \<and> aLen a < 2 ^ 32" using assms by (simp add: wf_slice_def)
  from read_addrs_ok [OF this] show ?thesis
    unfolding Deserialize_def read_fields [OF assms] by (simp add: GetSerializeLen_def Let_def)
qed

text \<open>
  (C29) What is sent is received: \<open>Serialize\<close> succeeds exactly when the memory has the announced size and is not larger than \<open>memcpy_s\<close>
  takes, and what it writes is read back as the same slice if it has at most four addresses; a slice with more addresses can be sent but is refused.
\<close>

theorem slice_roundtrip:
  assumes "wf_slice s"
  shows "(fst (Serialize memMax n s) = BIO_OK \<longleftrightarrow> GetSerializeLen s \<le> n \<and> n \<le> memMax) \<and>
     (GetSerializeLen s \<le> n \<and> n \<le> memMax \<longrightarrow>
       (let out = snd (Serialize memMax n s); received = Deserialize out (length out) \<lparr>sCrc = 0, sType = 0, sLength = 0, sAddrs = []\<rparr> in
        if length (sAddrs s) \<le> 4 then received = (BIO_OK, s) else fst received = BIO_INVALID_PARAM))"
proof -
  have "slice_fields s \<noteq> []" by (simp add: slice_fields_def)
  then have *: "fst (Serialize memMax n s) = BIO_OK \<longleftrightarrow> GetSerializeLen s \<le> n \<and> n \<le> memMax"
    unfolding Serialize_def copy_fields_eq(1) length_fields by simp
  have "snd (Serialize memMax n s) = concat (slice_fields s)" if "GetSerializeLen s \<le> n \<and> n \<le> memMax"
    using copy_fields_eq(2) [of memMax n "slice_fields s"] that * by (simp add: Serialize_def)
  then show ?thesis using * deserialize_fields [OF assms] by (simp add: Let_def length_fields)
qed

theorem slice_roundtrip_witness:
  "fst (Serialize (2 ^ 31 - 1) 54 two_parts) = BIO_OK \<and>
     Deserialize (snd (Serialize (2 ^ 31 - 1) 54 two_parts)) (length (snd (Serialize (2 ^ 31 - 1) 54 two_parts)))
       \<lparr>sCrc = 0, sType = 0, sLength = 0, sAddrs = []\<rparr> = (BIO_OK, two_parts)"
proof -
  have "wf_slice two_parts" "GetSerializeLen two_parts \<le> 54" "54 \<le> (2 ^ 31 - 1 :: nat)" "length (sAddrs two_parts) \<le> 4"
    by (simp_all add: wf_slice_def GetSerializeLen_def two_parts_def)
  then show ?thesis using slice_roundtrip [of two_parts "2 ^ 31 - 1" 54] by (simp add: Let_def)
qed

end
