(* ===== verification/FlowManager.thy ===== *)
theory FlowManager
  imports FlowProps
begin

text \<open>
  The manager of the flows, \<^verbatim>\<open>flow/flow_manager.cpp\<close> and \<^verbatim>\<open>flow_manager.h\<close>: the objects by their identifiers,
  the sizes in use, and the recovery of the flows from the chunks that the disk layer finds.

  The allocators, the quota of the cache and the scan of the disk layer are arguments, functions on a state \<open>'a\<close>.
\<close>

abbreviation DEVICE_SIZE :: nat where "DEVICE_SIZE \<equiv> 16"
text \<open>The results \<open>BDM_CODE_OK\<close> and \<open>BDM_CODE_SCAN_OFF\<close> of the disk layer.\<close>

abbreviation SCAN_OK :: int where "SCAN_OK \<equiv> 0"
abbreviation SCAN_OFF :: int where "SCAN_OFF \<equiv> - 103"

type_synonym sizes = "flow_cache \<Rightarrow> flow_type \<Rightarrow> nat \<Rightarrow> nat"

definition set_size :: "flow_cache \<Rightarrow> flow_type \<Rightarrow> nat \<Rightarrow> nat \<Rightarrow> sizes \<Rightarrow> sizes" where
  "set_size c t d n u = u(c := (u c)(t := (u c t)(d := n)))"

text \<open>The cache of a flow is given by its identifier; \<open>None\<close> is the invalid value.\<close>

definition GetCacheUsedSize :: "flow_cache option \<Rightarrow> flow_type \<Rightarrow> nat \<Rightarrow> sizes \<Rightarrow> nat" where
  "GetCacheUsedSize cache t mediaId u =
     (case cache of None \<Rightarrow> NO_MAX_VALUE64 | Some c \<Rightarrow> if mediaId \<ge> DEVICE_SIZE then NO_MAX_VALUE64 else u c t mediaId)"

section \<open>Chunks\<close>

definition MediaAlloc ::
  "(nat \<Rightarrow> flow_cache option) \<Rightarrow> (nat \<Rightarrow> 'a \<Rightarrow> int \<times> nat \<times> 'a) \<Rightarrow> (nat \<Rightarrow> nat \<Rightarrow> nat \<Rightarrow> nat \<Rightarrow> 'a \<Rightarrow> int \<times> nat \<times> 'a) \<Rightarrow>
     flow_type \<Rightarrow> nat \<Rightarrow> nat \<Rightarrow> nat \<Rightarrow> nat \<Rightarrow> sizes \<times> 'a \<Rightarrow> int \<times> nat \<times> sizes \<times> 'a" where
  "MediaAlloc cacheOf memAlloc diskAlloc t mediaId flowId flowOffset len ua =
     (case (cacheOf flowId, ua) of
        (None, u, a) \<Rightarrow> (BIO_ERR, 0, u, a)
      | (Some c, u, a) \<Rightarrow>
          if mediaId \<ge> DEVICE_SIZE then (BIO_ERR, 0, u, a)
          else if t = FLOW_MEMORY
          then (case memAlloc len a of
                  (ret, chunk, a') \<Rightarrow> (ret, chunk, if ret = BIO_OK then set_size c t 0 (add64 (u c t 0) len) u else u, a'))
          else (case diskAlloc mediaId flowId flowOffset len a of
                  (ret, chunk, a') \<Rightarrow> (ret, chunk, if ret = BIO_OK then set_size c t mediaId (add64 (u c t mediaId) len) u else u, a')))"

definition MediaFree ::
  "(nat \<Rightarrow> flow_cache option) \<Rightarrow> (nat \<Rightarrow> 'a \<Rightarrow> 'a) \<Rightarrow> (nat \<Rightarrow> nat \<Rightarrow> nat \<Rightarrow> 'a \<Rightarrow> 'a) \<Rightarrow> (nat \<Rightarrow> 'a \<Rightarrow> 'a) \<Rightarrow>
     flow_role \<Rightarrow> flow_type \<Rightarrow> nat \<Rightarrow> nat \<Rightarrow> nat \<Rightarrow> nat \<Rightarrow> sizes \<times> 'a \<Rightarrow> sizes \<times> 'a" where
  "MediaFree cacheOf memFree diskFree freeQuota role t mediaId len chunkId flowId ua =
     (case (cacheOf flowId, ua) of
        (None, u, a) \<Rightarrow> (u, a)
      | (Some c, u, a) \<Rightarrow>
          if mediaId \<ge> DEVICE_SIZE then (u, a)
          else if t = FLOW_MEMORY
          then (set_size c t 0 (sub64 (u c t 0) len) u,
                if c = FLOW_WCACHE \<and> role = FLOW_DATA then freeQuota len (memFree chunkId a) else memFree chunkId a)
          else (set_size c t mediaId (sub64 (u c t mediaId) len) u, diskFree mediaId len chunkId a))"

definition MediaRecover :: "(nat \<Rightarrow> flow_cache option) \<Rightarrow> flow_type \<Rightarrow> nat \<Rightarrow> nat \<Rightarrow> nat \<Rightarrow> sizes \<Rightarrow> sizes" where
  "MediaRecover cacheOf t mediaId len flowId u =
     (case cacheOf flowId of
        None \<Rightarrow> u
      | Some c \<Rightarrow>
          if mediaId \<ge> DEVICE_SIZE then u
          else let d = (if t = FLOW_MEMORY then 0 else mediaId) in set_size c t d (add64 (u c t d) len) u)"

section \<open>Objects\<close>

record manager =
  mInited :: bool
  mMemObj :: "(nat \<times> flow) list"
  mDiskObj :: "(nat \<times> flow) list"
  mUsed :: sizes
  mNextFlowId :: nat

text \<open>\<open>makeOk\<close> is whether the object could be made; a flow on a disk loads two segments ahead.\<close>

definition CreateObject :: "nat \<Rightarrow> bool \<Rightarrow> flow_role \<Rightarrow> flow_type \<Rightarrow> nat \<Rightarrow> nat \<Rightarrow> manager \<Rightarrow> flow option \<times> manager" where
  "CreateObject segment makeOk role t flowId mediaId m =
     (if \<not> mInited m then (None, m)
      else if t = FLOW_MEMORY
      then (case map_of (mMemObj m) flowId of
              Some f \<Rightarrow> (Some f, m)
            | None \<Rightarrow>
                if \<not> makeOk then (None, m)
                else let f = new_flow role t flowId mediaId segment 0 in (Some f, m\<lparr>mMemObj := map_put flowId f (mMemObj m)\<rparr>))
      else (case map_of (mDiskObj m) flowId of
              Some f \<Rightarrow> (Some f, m)
            | None \<Rightarrow>
                if \<not> makeOk then (None, m)
                else let f = new_flow role t flowId mediaId segment (mul64 segment 2) in
                  (Some f, m\<lparr>mDiskObj := map_put flowId f (mDiskObj m)\<rparr>)))"

definition DestroyObject :: "flow_type \<Rightarrow> nat \<Rightarrow> manager \<Rightarrow> int \<times> manager" where
  "DestroyObject t flowId m =
     (if \<not> mInited m then (BIO_NOT_READY, m)
      else if t = FLOW_MEMORY
      then (if map_of (mMemObj m) flowId = None then (BIO_NOT_EXISTS, m)
            else (BIO_OK, m\<lparr>mMemObj := filter (\<lambda>x. fst x \<noteq> flowId) (mMemObj m)\<rparr>))
      else (if map_of (mDiskObj m) flowId = None then (BIO_NOT_EXISTS, m)
            else (BIO_OK, m\<lparr>mDiskObj := filter (\<lambda>x. fst x \<noteq> flowId) (mDiskObj m)\<rparr>)))"

definition GetAllObject :: "flow_type \<Rightarrow> (nat \<times> flow) list \<Rightarrow> manager \<Rightarrow> int \<times> (nat \<times> flow) list" where
  "GetAllObject t objs m =
     (if \<not> mInited m then (BIO_NOT_READY, objs)
      else (BIO_OK, fold (\<lambda>(i, f). map_put i f) (if t = FLOW_MEMORY then mMemObj m else mDiskObj m) objs))"

section \<open>Recovery\<close>

text \<open>What the scan tells of a chunk in use.\<close>

record chunk_rec =
  rChunk :: nat
  rSize :: nat
  rFlow :: nat
  rOffset :: nat

text \<open>
  The map holds references, so that the object in the map is the one that is changed. \<open>idOk\<close> is whether the allocator of the identifiers
  could be made.
\<close>

definition manager_RecoverChunk :: "nat \<Rightarrow> bool \<Rightarrow> bool \<Rightarrow> nat \<Rightarrow> chunk_rec \<Rightarrow> manager \<Rightarrow> int \<times> manager" where
  "manager_RecoverChunk segment makeOk idOk mediaId r m =
     (case CreateObject segment makeOk FLOW_DATA FLOW_DISK (rFlow r) mediaId m of
        (None, m1) \<Rightarrow> (BIO_ERR, m1)
      | (Some f, m1) \<Rightarrow>
          (case Flow.RecoverChunk (rOffset r) (rChunk r) f of
             (ret, f') \<Rightarrow>
               let m2 = m1\<lparr>mDiskObj := map_put (rFlow r) f' (mDiskObj m1)\<rparr> in
               if ret \<noteq> BIO_OK then (BIO_ERR, m2)
               else if \<not> idOk then (BIO_ALLOC_FAIL, m2)
               else (BIO_OK, m2\<lparr>mNextFlowId := SyncFlowId (rFlow r) (mNextFlowId m2)\<rparr>)))"

text \<open>
  The result of the loop over one disk: whether the recovery goes on. \<open>None\<close> is a scan that does not end. The first argument is
  whether there is memory for an object, in the state of the call, and \<open>idOk\<close>.
\<close>

partial_function (option) scan_disk ::
  "('a \<Rightarrow> bool) \<times> bool \<Rightarrow> (nat \<Rightarrow> 'a \<Rightarrow> int \<times> chunk_rec \<times> 'a) \<Rightarrow> (nat \<Rightarrow> flow_cache option) \<Rightarrow> nat \<Rightarrow> nat \<Rightarrow> manager \<Rightarrow> 'a \<Rightarrow> (bool \<times> manager \<times> 'a) option" where
  "scan_disk mem getNext cacheOf segment d m a =
     (case getNext d a of
        (ret, r, a1) \<Rightarrow>
          if ret \<noteq> SCAN_OK \<and> ret \<noteq> SCAN_OFF then Some (False, m, a1)
          else if ret = SCAN_OFF then Some (True, m, a1)
          else if segment \<noteq> rSize r then Some (False, m, a1)
          else case manager_RecoverChunk segment (fst mem a1) (snd mem) d r m of
            (ret, m1) \<Rightarrow>
              if ret \<noteq> BIO_OK then Some (False, m1, a1)
              else scan_disk mem getNext cacheOf segment d (m1\<lparr>mUsed := MediaRecover cacheOf FLOW_DISK d (rSize r) (rFlow r) (mUsed m1)\<rparr>) a1)"

fun scan_disks ::
  "('a \<Rightarrow> bool) \<times> bool \<Rightarrow> (nat \<Rightarrow> bool) \<Rightarrow> (nat \<Rightarrow> 'a \<Rightarrow> int \<times> 'a) \<Rightarrow> (nat \<Rightarrow> 'a \<Rightarrow> int \<times> chunk_rec \<times> 'a) \<Rightarrow> (nat \<Rightarrow> flow_cache option) \<Rightarrow> nat \<Rightarrow>
     nat list \<Rightarrow> manager \<Rightarrow> 'a \<Rightarrow> (bool \<times> manager \<times> 'a) option" where
  "scan_disks mem faulty reset getNext cacheOf segment [] m a = Some (True, m, a)"
| "scan_disks mem faulty reset getNext cacheOf segment (d # ds) m a =
     (if faulty d then scan_disks mem faulty reset getNext cacheOf segment ds m a
      else case reset d a of
        (ret, a1) \<Rightarrow>
          if ret \<noteq> SCAN_OK then Some (False, m, a1)
          else case scan_disk mem getNext cacheOf segment d m a1 of
            None \<Rightarrow> None
          | Some (ok, m1, a2) \<Rightarrow> if \<not> ok then Some (False, m1, a2) else scan_disks mem faulty reset getNext cacheOf segment ds m1 a2)"

fun check_objects :: "(nat \<times> flow) list \<Rightarrow> int \<times> (nat \<times> flow) list" where
  "check_objects [] = (BIO_OK, [])"
| "check_objects ((i, f) # objs) =
     (case RecoverCheck f of
        (ret, f') \<Rightarrow>
          if ret \<noteq> BIO_OK then (BIO_ERR, (i, f') # objs)
          else case check_objects objs of (ret, objs') \<Rightarrow> (ret, (i, f') # objs'))"

definition Recover ::
  "('a \<Rightarrow> bool) \<times> bool \<Rightarrow> (nat \<Rightarrow> bool) \<Rightarrow> (nat \<Rightarrow> 'a \<Rightarrow> int \<times> 'a) \<Rightarrow> (nat \<Rightarrow> 'a \<Rightarrow> int \<times> chunk_rec \<times> 'a) \<Rightarrow> (nat \<Rightarrow> flow_cache option) \<Rightarrow> nat \<Rightarrow> nat \<Rightarrow>
     manager \<Rightarrow> 'a \<Rightarrow> (int \<times> manager \<times> 'a) option" where
  "Recover mem faulty reset getNext cacheOf segment diskNum m a =
     (case scan_disks mem faulty reset getNext cacheOf segment [0..<diskNum] m a of
        None \<Rightarrow> None
      | Some (ok, m1, a1) \<Rightarrow>
          if \<not> ok then Some (BIO_ERR, m1, a1)
          else case check_objects (mDiskObj m1) of (ret, objs) \<Rightarrow> Some (ret, m1\<lparr>mDiskObj := objs\<rparr>, a1))"

text \<open>\<open>poolsOk\<close> is whether the two thread pools could be made and started, with the error otherwise.\<close>

definition Init ::
  "int \<Rightarrow> ('a \<Rightarrow> bool) \<times> bool \<Rightarrow> (nat \<Rightarrow> bool) \<Rightarrow> (nat \<Rightarrow> 'a \<Rightarrow> int \<times> 'a) \<Rightarrow> (nat \<Rightarrow> 'a \<Rightarrow> int \<times> chunk_rec \<times> 'a) \<Rightarrow> (nat \<Rightarrow> flow_cache option) \<Rightarrow> nat \<Rightarrow> nat \<Rightarrow>
     manager \<Rightarrow> 'a \<Rightarrow> (int \<times> manager \<times> 'a) option" where
  "Init poolsRet mem faulty reset getNext cacheOf segment diskNum m a =
     (if mInited m then Some (BIO_OK, m, a)
      else if poolsRet \<noteq> BIO_OK then Some (poolsRet, m, a)
      else Recover mem faulty reset getNext cacheOf segment diskNum
             (m\<lparr>mInited := True, mUsed := (\<lambda>c t d. if d < DEVICE_SIZE then 0 else mUsed m c t d)\<rparr>) a)"

definition manager_Exit :: "manager \<Rightarrow> manager" where
  "manager_Exit m = m\<lparr>mInited := False\<rparr>"

end
