(* ===== verification/FlowManagerProps.thy ===== *)
theory FlowManagerProps
  imports FlowManager
begin

text \<open>
  After a restart the manager has the flows whose chunks are on the disks, with the bytes where they were.
\<close>

section \<open>Maps as sorted lists\<close>

lemma put_map_of: "sorted_wrt (<) (map fst xs) \<Longrightarrow> map_of (map_put k v xs) = (map_of xs)(k \<mapsto> v)"
  by (induction k v xs rule: map_put.induct) (auto simp: fun_eq_iff)

lemma put_keys: "set (map fst (map_put k v xs)) = insert k (set (map fst xs))"
  by (induction k v xs rule: map_put.induct) auto

lemma put_sorted: "sorted_wrt (<) (map fst xs) \<Longrightarrow> sorted_wrt (<) (map fst (map_put k v xs))"
proof (induction k v xs rule: map_put.induct)
  case (2 k v k' v' xs)
  then show ?case using put_keys [of k v xs] by auto
qed simp

section \<open>The records of a flow\<close>

definition recs_of :: "nat \<Rightarrow> (nat \<times> chunk_rec) list \<Rightarrow> (nat \<times> nat) list" where
  "recs_of i rs = map (\<lambda>x. (rOffset (snd x), rChunk (snd x))) (filter (\<lambda>x. rFlow (snd x) = i) rs)"

lemma recs_of_append: "recs_of i (xs @ ys) = recs_of i xs @ recs_of i ys"
  by (simp add: recs_of_def)

lemma recs_of_single: "recs_of i [(d, r)] = (if rFlow r = i then [(rOffset r, rChunk r)] else [])"
  by (simp add: recs_of_def)

text \<open>The objects hold the records that were seen.\<close>

definition holds_recs :: "nat \<Rightarrow> (nat \<times> chunk_rec) list \<Rightarrow> nat \<Rightarrow> flow \<Rightarrow> bool" where
  "holds_recs segment seen i g \<longleftrightarrow> recs_of i seen \<noteq> [] \<and> fChunkSize g = segment \<and> fChunkList g = [] \<and> sorted_wrt (<) (map fst (fRecoverList g)) \<and>
     mset (fRecoverList g) = mset (recs_of i seen)"

definition recovering :: "nat \<Rightarrow> (nat \<times> chunk_rec) list \<Rightarrow> manager \<Rightarrow> bool" where
  "recovering segment seen m \<longleftrightarrow> mInited m \<and> sorted_wrt (<) (map fst (mDiskObj m)) \<and>
     (\<forall>i. map_of (mDiskObj m) i = None \<longrightarrow> recs_of i seen = []) \<and>
     (\<forall>i g. map_of (mDiskObj m) i = Some g \<longrightarrow> holds_recs segment seen i g) \<and>
     (\<forall>i. recs_of i seen \<noteq> [] \<longrightarrow> i mod 2 ^ 32 \<le> mNextFlowId m)"

lemma recoveringD:
  assumes "recovering segment seen m"
  shows "mInited m" "sorted_wrt (<) (map fst (mDiskObj m))"
    "map_of (mDiskObj m) i = None \<Longrightarrow> recs_of i seen = []"
    "map_of (mDiskObj m) i = Some g \<Longrightarrow> holds_recs segment seen i g"
    "recs_of i seen \<noteq> [] \<Longrightarrow> i mod 2 ^ 32 \<le> mNextFlowId m"
  using assms by (simp_all add: recovering_def)

lemma recovering_used: "recovering segment seen (m\<lparr>mUsed := u\<rparr>) \<longleftrightarrow> recovering segment seen m"
  by (simp add: recovering_def)

lemma create_disk:
  assumes "recovering segment seen m"
  shows "\<exists>f m1. CreateObject segment True FLOW_DATA FLOW_DISK i d m = (Some f, m1) \<and> fChunkSize f = segment \<and> fChunkList f = [] \<and>
     sorted_wrt (<) (map fst (fRecoverList f)) \<and> mset (fRecoverList f) = mset (recs_of i seen) \<and> mInited m1 \<and>
     sorted_wrt (<) (map fst (mDiskObj m1)) \<and> map_of (mDiskObj m1) = (map_of (mDiskObj m))(i \<mapsto> f) \<and> mNextFlowId m1 = mNextFlowId m"
proof (cases "map_of (mDiskObj m) i")
  case None
  let ?f = "new_flow FLOW_DATA FLOW_DISK i d segment (mul64 segment 2)"
  note s = recoveringD(1,2) [OF assms] recoveringD(3) [OF assms None]
  have "CreateObject segment True FLOW_DATA FLOW_DISK i d m = (Some ?f, m\<lparr>mDiskObj := map_put i ?f (mDiskObj m)\<rparr>)"
    using s(1) None by (simp add: CreateObject_def Let_def)
  then show ?thesis using s put_map_of [OF s(2)] put_sorted [OF s(2)] by (simp add: new_flow_def)
next
  case (Some f)
  then show ?thesis using recoveringD(1,2) [OF assms] recoveringD(4) [OF assms Some]
    by (simp add: CreateObject_def holds_recs_def fun_upd_idem)
qed

lemma recover_one:
  assumes "recovering segment seen m" "rOffset r \<notin> fst ` set (recs_of (rFlow r) seen)"
  shows "\<exists>m'. manager_RecoverChunk segment True True d r m = (BIO_OK, m') \<and> recovering segment (seen @ [(d, r)]) m'"
proof -
  let ?i = "rFlow r"
  obtain f m1 where c: "CreateObject segment True FLOW_DATA FLOW_DISK ?i d m = (Some f, m1)" "fChunkSize f = segment" "fChunkList f = []"
    "sorted_wrt (<) (map fst (fRecoverList f))" "mset (fRecoverList f) = mset (recs_of ?i seen)" "mInited m1"
    "sorted_wrt (<) (map fst (mDiskObj m1))" "map_of (mDiskObj m1) = (map_of (mDiskObj m))(?i \<mapsto> f)" "mNextFlowId m1 = mNextFlowId m"
    using create_disk [OF assms(1)] by blast
  have "set (fRecoverList f) = set (recs_of ?i seen)" using c(5) by (metis set_mset_mset)
  then have new: "rOffset r \<notin> fst ` set (fRecoverList f)" using assms(2) by simp
  let ?f = "f\<lparr>fRecoverList := map_put (rOffset r) (rChunk r) (fRecoverList f)\<rparr>"
  let ?m = "m1\<lparr>mDiskObj := map_put ?i ?f (mDiskObj m1), mNextFlowId := SyncFlowId ?i (mNextFlowId m1)\<rparr>"
  have "Flow.RecoverChunk (rOffset r) (rChunk r) f = (BIO_OK, ?f)" using new by (auto simp: RecoverChunk_def map_of_eq_None_iff)
  then have 1: "manager_RecoverChunk segment True True d r m = (BIO_OK, ?m)" using c(1) by (simp add: manager_RecoverChunk_def Let_def)
  have h: "holds_recs segment (seen @ [(d, r)]) ?i ?f"
    using map_put_ok [OF c(4) new, of "rChunk r"] c(2,3,5) by (simp add: holds_recs_def recs_of_append recs_of_single)
  have o: "map_of (mDiskObj ?m) = (map_of (mDiskObj m))(?i \<mapsto> ?f)" using put_map_of [OF c(7)] c(8) by simp
  have other: "recs_of j (seen @ [(d, r)]) = recs_of j seen" if "j \<noteq> ?i" for j using that by (simp add: recs_of_append recs_of_single)
  have "holds_recs segment (seen @ [(d, r)]) j g" if "map_of (mDiskObj ?m) j = Some g" for j g
    using that h other [of j] recoveringD(4) [OF assms(1), of j g] unfolding o by (cases "j = ?i") (simp_all add: holds_recs_def)
  moreover have "recs_of j (seen @ [(d, r)]) = []" if "map_of (mDiskObj ?m) j = None" for j
    using that other [of j] recoveringD(3) [OF assms(1), of j] unfolding o by (cases "j = ?i") simp_all
  moreover have "j mod 2 ^ 32 \<le> mNextFlowId ?m" if "recs_of j (seen @ [(d, r)]) \<noteq> []" for j
  proof (cases "j = ?i")
    case False
    then show ?thesis using that other [of j] recoveringD(5) [OF assms(1), of j] c(9) by (simp add: SyncFlowId_def)
  qed (simp add: SyncFlowId_def)
  ultimately have "recovering segment (seen @ [(d, r)]) ?m"
    using c(6) put_sorted [OF c(7)] unfolding recovering_def by simp
  with 1 show ?thesis by blast
qed

section \<open>The scan\<close>

text \<open>What the disk layer delivers: the records of one disk up to the end of the scan, and those of the disks in use.\<close>

inductive delivers :: "(nat \<Rightarrow> 'a \<Rightarrow> int \<times> chunk_rec \<times> 'a) \<Rightarrow> nat \<Rightarrow> 'a \<Rightarrow> chunk_rec list \<Rightarrow> 'a \<Rightarrow> bool" for getNext d where
  scan_end: "getNext d a = (SCAN_OFF, r, a') \<Longrightarrow> delivers getNext d a [] a'"
| scan_more: "getNext d a = (SCAN_OK, r, a1) \<Longrightarrow> delivers getNext d a1 rs a' \<Longrightarrow> delivers getNext d a (r # rs) a'"

inductive scans ::
  "(nat \<Rightarrow> bool) \<Rightarrow> (nat \<Rightarrow> 'a \<Rightarrow> int \<times> 'a) \<Rightarrow> (nat \<Rightarrow> 'a \<Rightarrow> int \<times> chunk_rec \<times> 'a) \<Rightarrow> nat list \<Rightarrow> 'a \<Rightarrow> (nat \<times> chunk_rec) list \<Rightarrow> 'a \<Rightarrow> bool"
  for faulty reset getNext where
  no_disk: "scans faulty reset getNext [] a [] a"
| faulty_disk: "faulty d \<Longrightarrow> scans faulty reset getNext ds a rs a' \<Longrightarrow> scans faulty reset getNext (d # ds) a rs a'"
| disk: "\<not> faulty d \<Longrightarrow> reset d a = (SCAN_OK, a1) \<Longrightarrow> delivers getNext d a1 rs a2 \<Longrightarrow> scans faulty reset getNext ds a2 rss a' \<Longrightarrow>
    scans faulty reset getNext (d # ds) a (map (Pair d) rs @ rss) a'"

definition no_clash :: "(nat \<times> chunk_rec) list \<Rightarrow> bool" where
  "no_clash rs \<longleftrightarrow> (\<forall>i. distinct (map fst (recs_of i rs)))"

lemma no_clash_append: "no_clash (xs @ ys) \<Longrightarrow> no_clash xs"
  by (simp add: no_clash_def recs_of_append)

lemma no_clash_new:
  assumes "no_clash (seen @ (d, r) # rs)"
  shows "rOffset r \<notin> fst ` set (recs_of (rFlow r) seen)"
  using assms by (force simp: no_clash_def recs_of_append recs_of_def image_iff dest: spec [of _ "rFlow r"])

lemma scan_disk_ok:
  assumes "delivers getNext d a rs a'" "recovering segment seen m" "no_clash (seen @ map (Pair d) rs)" "\<forall>r\<in>set rs. rSize r = segment"
  shows "\<exists>m'. scan_disk (\<lambda>_. True, True) getNext cacheOf segment d m a = Some (True, m', a') \<and> recovering segment (seen @ map (Pair d) rs) m'"
  using assms
proof (induction arbitrary: seen m rule: delivers.induct)
  case (scan_end a r a')
  then show ?case by (subst scan_disk.simps) simp
next
  case (scan_more a r a1 rs a')
  obtain m1 where m1: "manager_RecoverChunk segment True True d r m = (BIO_OK, m1)" "recovering segment (seen @ [(d, r)]) m1"
    using recover_one [OF scan_more.prems(1)] no_clash_new scan_more.prems(2) by (metis list.simps(9))
  let ?m = "m1\<lparr>mUsed := MediaRecover cacheOf FLOW_DISK d (rSize r) (rFlow r) (mUsed m1)\<rparr>"
  obtain m' where "scan_disk (\<lambda>_. True, True) getNext cacheOf segment d ?m a1 = Some (True, m', a')" "recovering segment ((seen @ [(d, r)]) @ map (Pair d) rs) m'"
    using scan_more.IH [of "seen @ [(d, r)]" ?m] scan_more.prems(2,3) m1(2) by (auto simp: recovering_used)
  then show ?case using scan_more.hyps(1) scan_more.prems(3) m1(1) by (subst scan_disk.simps) simp
qed

lemma scan_disks_ok:
  assumes "scans faulty reset getNext ds a rs a'" "recovering segment seen m" "no_clash (seen @ rs)" "\<forall>x\<in>set rs. rSize (snd x) = segment"
  shows "\<exists>m'. scan_disks (\<lambda>_. True, True) faulty reset getNext cacheOf segment ds m a = Some (True, m', a') \<and> recovering segment (seen @ rs) m'"
  using assms
proof (induction arbitrary: seen m rule: scans.induct)
  case (disk d a a1 rs a2 ds rss a')
  have "no_clash (seen @ map (Pair d) rs)" using no_clash_append [of "seen @ map (Pair d) rs" rss] disk.prems(2) by simp
  moreover have "\<forall>r\<in>set rs. rSize r = segment" using disk.prems(3) by (simp add: ball_Un)
  ultimately obtain m1 where m1: "scan_disk (\<lambda>_. True, True) getNext cacheOf segment d m a1 = Some (True, m1, a2)" "recovering segment (seen @ map (Pair d) rs) m1"
    using scan_disk_ok [OF disk.hyps(3) disk.prems(1)] by blast
  then show ?case using disk.IH [OF m1(2)] disk.prems(2,3) disk.hyps(1,2) by auto
qed auto

lemma check_objects_ok:
  "\<forall>(i, g)\<in>set objs. fst (RecoverCheck g) = BIO_OK \<Longrightarrow> check_objects objs = (BIO_OK, map (\<lambda>(i, g). (i, snd (RecoverCheck g))) objs)"
  by (induction objs) (auto split: prod.splits)

text \<open>The records of a set of flows.\<close>

definition records_flows :: "nat \<Rightarrow> (nat \<Rightarrow> flow option) \<Rightarrow> (nat \<times> chunk_rec) list \<Rightarrow> bool" where
  "records_flows segment F rs \<longleftrightarrow> (\<forall>x\<in>set rs. rSize (snd x) = segment) \<and> (\<forall>i. F i = None \<longrightarrow> recs_of i rs = []) \<and>
     (\<forall>i f. F i = Some f \<longrightarrow> flow_ok f \<and> fPreLoad f < 2 ^ 64 \<and> fChunkList f \<noteq> [] \<and> fChunkSize f = segment \<and> mset (recs_of i rs) = mset (chunk_records f))"

lemma records_flowsD:
  assumes "records_flows segment F rs" "F i = Some f"
  shows "flow_ok f" "fPreLoad f < 2 ^ 64" "fChunkList f \<noteq> []" "fChunkSize f = segment" "mset (recs_of i rs) = mset (chunk_records f)" "recs_of i rs \<noteq> []"
proof -
  show *: "flow_ok f" "fPreLoad f < 2 ^ 64" "fChunkList f \<noteq> []" "fChunkSize f = segment" "mset (recs_of i rs) = mset (chunk_records f)"
    using assms by (simp_all add: records_flows_def)
  then show "recs_of i rs \<noteq> []" by (metis chunk_records_def length_0_conv length_map length_upt diff_zero mset_zero_iff)
qed

lemma records_no_clash:
  assumes "records_flows segment F rs"
  shows "no_clash rs"
  unfolding no_clash_def
proof
  fix i
  show "distinct (map fst (recs_of i rs))"
  proof (cases "F i")
    case None
    then show ?thesis using assms by (simp add: records_flows_def)
  next
    case (Some f)
    note r = records_flowsD [OF assms Some]
    have "distinct (map fst (chunk_records f))" using sorted_records [OF flow_okD(1) [OF r(1)]] by (simp add: strict_sorted_iff)
    then show ?thesis using r(5) by (metis mset_eq_imp_distinct_iff mset_map)
  qed
qed

lemma object_checked:
  assumes "records_flows segment F rs" "recovering segment rs m" "map_of (mDiskObj m) i = Some g"
  shows "\<exists>f g'. F i = Some f \<and> RecoverCheck g = (BIO_OK, g') \<and> same_bytes f g'"
proof -
  have h: "holds_recs segment rs i g" using recoveringD(4) [OF assms(2,3)] .
  then obtain f where f: "F i = Some f" using assms(1) by (cases "F i") (auto simp: records_flows_def holds_recs_def)
  note r = records_flowsD [OF assms(1) f]
  have "fRecoverList g = chunk_records f" using h sorted_unique [OF _ sorted_records [OF flow_okD(1) [OF r(1)]]] r(5) by (simp add: holds_recs_def)
  then show ?thesis using check_records [OF r(1-3)] h r(4) f by (simp add: holds_recs_def)
qed

text \<open>
  (C13) After a restart every flow is back: when the scan of the disks in use delivers the chunks of the flows, in any order and from any
  disk, and there is memory for the objects, the start of the manager succeeds and has an object for these flows and no other, each with
  the chunks and the bytes of its flow. The counter of the identifiers is raised to the recovered ones: every identifier that is
  generated later is that of none of these flows, as long as the counter stays below \<open>2 ^ 32\<close>.
\<close>

theorem manager_recovers:
  assumes "\<not> mInited m" "mDiskObj m = []" "scans faulty reset getNext [0..<diskNum] a rs a'" "records_flows segment F rs"
  shows "\<exists>m'. Init BIO_OK (\<lambda>_. True, True) faulty reset getNext cacheOf segment diskNum m a = Some (BIO_OK, m', a') \<and>
     (\<forall>i. F i = None \<longrightarrow> map_of (mDiskObj m') i = None) \<and>
     (\<forall>i f. F i = Some f \<longrightarrow> (\<exists>g. map_of (mDiskObj m') i = Some g \<and> same_bytes f g)) \<and>
     (\<forall>prefix n. mNextFlowId m' \<le> n \<and> n + 1 < 2 ^ 32 \<longrightarrow> F (fst (GenerateFlowId prefix n)) = None)"
proof -
  let ?m = "m\<lparr>mInited := True, mUsed := (\<lambda>c t d. if d < DEVICE_SIZE then 0 else mUsed m c t d)\<rparr>"
  have sizes: "\<forall>x\<in>set rs. rSize (snd x) = segment" using assms(4) by (simp add: records_flows_def)
  have "recovering segment [] ?m" using assms(2) by (simp add: recovering_def recs_of_def)
  then obtain m1 where m1: "scan_disks (\<lambda>_. True, True) faulty reset getNext cacheOf segment [0..<diskNum] ?m a = Some (True, m1, a')" "recovering segment rs m1"
    using scan_disks_ok [OF assms(3), of segment "[]" ?m cacheOf] records_no_clash [OF assms(4)] sizes by fastforce
  let ?check = "\<lambda>g. snd (RecoverCheck g)"
  let ?m' = "m1\<lparr>mDiskObj := map (\<lambda>(i, g). (i, ?check g)) (mDiskObj m1)\<rparr>"
  note checked = object_checked [OF assms(4) m1(2)]
  have "distinct (map fst (mDiskObj m1))" using recoveringD(2) [OF m1(2)] by (simp add: strict_sorted_iff)
  then have "check_objects (mDiskObj m1) = (BIO_OK, mDiskObj ?m')"
    using checked by (intro check_objects_ok [THEN trans]) fastforce+
  then have "Init BIO_OK (\<lambda>_. True, True) faulty reset getNext cacheOf segment diskNum m a = Some (BIO_OK, ?m', a')"
    using assms(1) m1(1) by (simp add: Init_def Recover_def)
  moreover have objs: "map_of (mDiskObj ?m') = map_option ?check \<circ> map_of (mDiskObj m1)" by (simp add: map_of_map)
  moreover have "map_of (mDiskObj ?m') i = None" if "F i = None" for i
    using checked [of i] that unfolding objs by (cases "map_of (mDiskObj m1) i") auto
  moreover have "(\<exists>g. map_of (mDiskObj ?m') i = Some g \<and> same_bytes f g)" if f: "F i = Some f" for i f
  proof -
    have ne: "recs_of i rs \<noteq> []" using records_flowsD(6) [OF assms(4) f] .
    then obtain g where "map_of (mDiskObj m1) i = Some g" using recoveringD(3) [OF m1(2), of i] by (cases "map_of (mDiskObj m1) i") auto
    then show ?thesis using checked [of i g] f unfolding objs by auto
  qed
  moreover have "F (fst (GenerateFlowId prefix n)) = None" if n: "mNextFlowId ?m' \<le> n" "n + 1 < 2 ^ 32" for prefix n
  proof (rule ccontr)
    assume "F (fst (GenerateFlowId prefix n)) \<noteq> None"
    then obtain f where f: "F (fst (GenerateFlowId prefix n)) = Some f" by blast
    have "fst (GenerateFlowId prefix n) mod 2 ^ 32 \<le> mNextFlowId m1" using recoveringD(5) [OF m1(2) records_flowsD(6) [OF assms(4) f]] .
    moreover have "fst (GenerateFlowId prefix n) mod 2 ^ 32 = n + 1" using n(2) by (simp add: GenerateFlowId_def flow_id_def add64_exact)
    ultimately show False using n(1) by simp
  qed
  ultimately show ?thesis by blast
qed

text \<open>A disk with three chunks of the flow 7, found in another order than that of the flow.\<close>

definition found :: "nat \<Rightarrow> nat \<Rightarrow> chunk_rec" where
  "found off chunk = \<lparr>rChunk = chunk, rSize = 8, rFlow = 7, rOffset = off\<rparr>"

definition list_next :: "nat \<Rightarrow> chunk_rec list \<Rightarrow> int \<times> chunk_rec \<times> chunk_rec list" where
  "list_next d rs = (case rs of [] \<Rightarrow> (SCAN_OFF, found 0 0, []) | r # rs' \<Rightarrow> (SCAN_OK, r, rs'))"

lemma list_delivers: "delivers list_next d rs rs []"
proof (induction rs)
  case Nil
  show ?case by (rule scan_end [of _ _ _ "found 0 0"]) (simp add: list_next_def)
next
  case (Cons r rs)
  then show ?case by (intro scan_more [of _ _ _ r rs]) (simp_all add: list_next_def)
qed

theorem manager_recovers_witness:
  "\<exists>m' g. Init BIO_OK (\<lambda>_. True, True) (\<lambda>d. False) (\<lambda>d a. (SCAN_OK, a)) list_next (\<lambda>i. Some FLOW_WCACHE) 8 1
       \<lparr>mInited = False, mMemObj = [], mDiskObj = [], mUsed = (\<lambda>c t d. 0), mNextFlowId = 0\<rparr> [found 16 102, found 0 100, found 8 101] =
       Some (BIO_OK, m', []) \<and>
     map_of (mDiskObj m') 7 = Some g \<and> fChunkList g = [100, 101, 102] \<and> fPreLoad g = 24"
proof -
  let ?m = "\<lparr>mInited = False, mMemObj = [], mDiskObj = [], mUsed = (\<lambda>c t d. 0), mNextFlowId = 0\<rparr>"
  let ?rs = "[found 16 102, found 0 100, found 8 101]"
  let ?F = "(\<lambda>i. None)(7 \<mapsto> three)"
  have s: "scans (\<lambda>d. False) (\<lambda>d a. (SCAN_OK, a)) list_next [0..<1] ?rs (map (Pair 0) ?rs) []"
    using disk [of "\<lambda>d. False" 0 "\<lambda>d a. (SCAN_OK, a)" ?rs ?rs list_next ?rs "[]" "[]" "[]" "[]"] list_delivers [of 0 ?rs] no_disk by fastforce
  have r: "chunk_records three = [(0, 100), (8, 101), (16, 102)]" by code_simp
  have t: "fPreLoad three = 24" "fChunkList three = [100, 101, 102]" "fChunkSize three = 8" by (simp_all add: three_def new_flow_def)
  have "records_flows 8 ?F (map (Pair 0) ?rs)" using three_ok t r by (simp add: records_flows_def recs_of_def found_def)
  from manager_recovers [OF _ _ s this, of ?m "\<lambda>i. Some FLOW_WCACHE"] obtain m' where
    m': "Init BIO_OK (\<lambda>_. True, True) (\<lambda>d. False) (\<lambda>d a. (SCAN_OK, a)) list_next (\<lambda>i. Some FLOW_WCACHE) 8 1 ?m ?rs = Some (BIO_OK, m', [])"
    "\<forall>i f. ?F i = Some f \<longrightarrow> (\<exists>g. map_of (mDiskObj m') i = Some g \<and> same_bytes f g)" by auto
  from m'(2) [rule_format, of 7 three] obtain g where "map_of (mDiskObj m') 7 = Some g" "same_bytes three g" by auto
  with m'(1) t show ?thesis by (intro exI [of _ m'] exI [of _ g]) (simp add: same_bytes_def)
qed

end
