(* ===== verification/Spec2Isabelle.thy ===== *)
theory Spec2Isabelle
  imports RbTreeThms BdmCore BdmThreadPool PtCalcProps CmViewProps CmZkSyncProps CmClientProps FlowTask Slice FlowManagerProps
begin

text \<open>
  A verification development for \<^verbatim>\<open>ubsio-boostio\<close>, a distributed cache in front of a storage system.
  Its C code has two parts; the lowest layer of its C++ code is modelled too. The \<^emph>\<open>disk layer\<close> (\<^verbatim>\<open>src/ubsio-boostio/src/disk\<close>) divides block devices
  into chunks and reads and writes them. The \<^emph>\<open>cluster manager\<close> (\<^verbatim>\<open>src/ubsio-boostio/src/cluster\<close>)
  keeps a table that places the copies of every partition of the data on the disks of the nodes. The
  caches in C++ store the data of a partition in chunks on the disks that the table names.

  \<^bold>\<open>The disk layer.\<close>
  \<^item> \<open>RbTree\<close> is \<^verbatim>\<open>disk/common/ngx_rbtree.c\<close>. A tree is a datatype; a pointer into it is a subtree with
    the path to the root, so that the code's loops over parents are recursions over the path.
    \<open>RbTreeThms\<close>: insertion and deletion keep order and balance, the walk along
    \<open>ngx_rbtree_next\<close> visits every entry once, and the depth is logarithmic.
  \<^item> \<open>BdmAllocator\<close> is \<^verbatim>\<open>disk/common/bdm_allocator.c\<close>: the tree of lengths, the lists of free areas,
    the table of records in memory and its image on the disk, which is reached through the callbacks
    of \<open>BdmMetaOps\<close>, arguments here. \<open>Tiling\<close> holds the theory of areas that cover a disk without
    gaps; \<open>BdmAllocatorInv\<close> the invariant, \<open>BdmAllocatorFree\<close> the proofs for freeing,
    \<open>BdmAllocatorSpec\<close> the abstract allocator (a map from used chunks to their length and owner)
    and the refinement, \<open>BdmAllocatorProps\<close> the theorems.
  \<^item> \<open>BdmObj\<close> is \<^verbatim>\<open>disk/common/bdm_obj.c\<close>: the table of devices.
  \<^item> \<open>BdmDisk\<close> is \<^verbatim>\<open>disk/common/bdm_disk.c\<close>: the head and the metadata of a disk, opening,
    formatting and restoring, synchronous and asynchronous transfers with retries. The operating
    system is a record of functions, an argument of the operations; the theorems assume the
    documented behaviour of \<open>pread\<close> and \<open>pwrite\<close> inside a device of finite size, in which the areas of the disk lie. \<open>BdmDiskProps\<close> and \<open>BdmDiskThms\<close>: what is written
    is read back, other chunks keep their data, reopening recovers all chunks, errors mark the disk.
  \<^item> \<open>BdmCore\<close> is \<^verbatim>\<open>disk/common/bdm_core.c\<close>: the interface with its identifiers that contain
    the number of the device; allocation, writing and reading are composed through all layers.
  \<^item> \<open>BdmThreadPool\<close> is \<^verbatim>\<open>disk/x86/bdm_threadpool_x86.c\<close> with \<^verbatim>\<open>disk/common/bdm_threadpool_common.c\<close>:
    a step relation over adders, worker and destroyer, with the theorems for all interleavings.

  \<^bold>\<open>The cluster manager.\<close>
  \<^item> \<open>CmTypes\<close> is the data of \<^verbatim>\<open>cluster/common/cm_inner.h\<close>.
  \<^item> \<open>PtState\<close> is \<^verbatim>\<open>cluster/server/pt/cm_pt_calc_fixed_state.c\<close>: how the table follows failures and
    returns of nodes, disks and networks, and reports of finished recoveries. \<open>PtStateProps\<close>: each of
    these operations keeps the invariant \<open>list_ok\<close> (slots used exclusively, copies on
    different nodes, state and master in accordance with the running copies), and no copy with stale
    data becomes running.
  \<^item> \<open>PtCalc\<close> is \<^verbatim>\<open>cluster/server/pt/cm_pt_calc_fixed.c\<close>: the first table of a pool and its
    rebalancing. \<open>PtCalcProps\<close>: both succeed when there are enough serving nodes, the first
    establishes \<open>list_ok\<close> and the second keeps it, and the master of a partition is never moved.
  \<^item> \<open>PtStore\<close> is \<^verbatim>\<open>cluster/server/pt/cm_pt_store.c\<close>: recording the table in ZooKeeper, an argument of
    the operations, and sorting it by nodes. \<open>PtStoreProps\<close>: on a consistent table it never runs out
    of elements, and a table that differs from the stored one is recorded with a new version, once.
  \<^item> \<open>CmMonitor\<close> is \<^verbatim>\<open>cluster/server/cm_server_monitor.c\<close>: recorded failures of nodes and disks with
    their times. \<open>CmMonitorProps\<close>: the records refine a map from failures to times, and a failure is
    reported exactly when it has lasted for the configured time.
  \<^item> \<open>CmView\<close> is \<^verbatim>\<open>cluster/server/cm_server_view.c\<close>: the handlers of the master server for changes of
    the nodes, reports and expired faults, which call all of the above. \<open>CmViewTable\<close> joins calculation
    and storer, \<open>CmViewProps\<close> has the invariant of the whole: no sequence of events, and no failure of
    ZooKeeper, brings nodes, monitor and table out of order.

  \<^item> \<open>CmConfig\<close> is \<^verbatim>\<open>cluster/common/cm_config.c\<close> with the modules of \<^verbatim>\<open>cm_module.h\<close> and the starts of
    \<^verbatim>\<open>cm_inner.c\<close>, \<^verbatim>\<open>cm_server_init.c\<close> and \<^verbatim>\<open>cm_client_init.c\<close>: a start that fails ends exactly the
    modules that were started before it.
  \<^item> \<open>CmZk\<close>, \<open>CmZkServer\<close>, \<open>CmZkClient\<close>, \<open>CmZkSync\<close> and \<open>CmZkStart\<close> are
    \<^verbatim>\<open>cluster/common/cm_zkadapter.c\<close>: paths, directories and the calls with their repetition; the election of
    the master, the lists and the events on the side of the server; registration and events on the side
    of the client; the copies of the lists that a client keeps; start and restoration after a lost session.
    The library of ZooKeeper is a record of functions, an argument of the operations. \<open>CmZkLaws\<close> states its
    documented behaviour, in which a call that fails may or may not have had its effect, proves what remains of it under
    repetition, and has a reference implementation that meets it. \<open>CmZkPath\<close>: paths and numbers are written
    and read back. \<open>CmZkProps\<close>: nodes get different numbers and there is at most one master. \<open>CmZkListProps\<close>: a table
    is read as it was recorded, an event is gone only after it was handled, and what happens after an error. \<open>CmZkSyncProps\<close>: a client is told exactly the
    partitions that have changed (the locale \<open>copied_list\<close> treats partitions and nodes alike), and the lists
    that are not checked or not told.
  \<^item> \<open>CmThreadPool\<close> is \<^verbatim>\<open>cluster/common/cm_threadpool.c\<close> with \<^verbatim>\<open>cm_server_schedule.c\<close> and
    \<^verbatim>\<open>cm_client_schedule.c\<close>: a step relation over adders, several workers and a destroyer; tasks are taken in the
    order in which they were accepted.
  \<^item> \<open>CmClient\<close> is \<^verbatim>\<open>cluster/client/cm_client_local.c\<close> and \<^verbatim>\<open>cm_client_event.c\<close>, on top of the adapter, the
    schedule and the disk layer's number of disks. \<open>CmClientProps\<close>: an event is written as soon as the one before it is
    gone, a node comes back with its disks only, a change of a disk is recorded and reported.

  \<^bold>\<open>The flows.\<close> (\<^verbatim>\<open>src/ubsio-boostio/src/flow\<close>) The caches keep their data in flows, growing ranges of bytes in chunks of the
  disk layer or of memory.
  \<^item> \<open>Flow\<close> is \<^verbatim>\<open>flow/flow.cpp\<close> with \<^verbatim>\<open>flow_type.h\<close>, \<^verbatim>\<open>flow_instance.h\<close> and \<^verbatim>\<open>flow_id_allocator.h\<close>: addresses, loading
    ahead, truncation and recovery. \<open>FlowProps\<close>: a request on a flow at rest gets the addresses of exactly its bytes, truncation frees only what is
    cut off, recovered chunks give the flow back.
  \<^item> \<open>FlowTask\<close> has the locked sections of \<^verbatim>\<open>flow.cpp\<close> as steps of writers and of the task that loads ahead: whoever is served has
    its bytes in all interleavings, but a writer that comes while the task ends can be left waiting until another one comes.
  \<^item> \<open>FlowManager\<close> is \<^verbatim>\<open>flow/flow_manager.cpp\<close>: the objects, the sizes in use and the start. \<open>FlowManagerProps\<close>: the start finds
    every flow on the disks again and gives no later flow the identifier of one of them. The scan is an argument and its deliveries an inductive relation; the loop over the scan is a partial
    function, whose end is part of the theorem.
  \<^item> \<open>Slice\<close> is \<^verbatim>\<open>flow/slice.cpp\<close>: parts of a slice have the right bytes, and what is sent is received.

  \<^bold>\<open>Conventions.\<close> Unsigned integers are natural numbers with \<open>mod 2 ^ w\<close> written out where the
  code's values can reach the bound; the fields of packed records are reduced to their width. An
  option result \<open>None\<close> is undefined behaviour of the C code (an access outside an array, a dangling
  or missing pointer), error codes are integers as in the code. Results of \<open>malloc\<close> and of the other
  library calls are arguments. Loops are structural recursion or have a measure; the retries of a transfer and the
  rounds of \<open>BdmThreadPoolAdd\<close> and \<open>CmThreadPoolAdd\<close>, which depend on other threads, are counted, and
  the loop that reports an event is a partial function, whose end is proved. A znode of ZooKeeper
  holds the structure that was written to it.

  \<^bold>\<open>Not modelled.\<close> The rest of the C++ code (caches, network, server, client library, interceptors, under
  file systems), whose core is the life time of shared objects and the interplay with libraries
  outside the repository; the memory store, a second product with its own variant of the cluster
  manager; the checksum and the counted references of a slice; logging, locks whose only effect is mutual exclusion, the setup of event queues and threads, the
  loading of the library of ZooKeeper (\<^verbatim>\<open>cm_zk_api_dl.c\<close>) and the variant of the disk layer's threads for ARM.
\<close>

end
